(* ===== verification/Prelude.thy ===== *)
theory Prelude
  imports Main "HOL-Library.AList" "HOL-Library.Sublist" "HOL-Library.Char_ord"
    "HOL-Library.List_Lexorder"
begin

text \<open>
  The shared base of the development: control characters, generic facts on lists, options
  and association lists, the 64-bit arithmetic of Go's \<^verbatim>\<open>int\<close>, and the named
  collections the component theories add to.

  A Go map is modelled by an association list with distinct keys (written with
  \<^term>\<open>AList.update\<close>, read with \<^term>\<open>map_of\<close>), which stays executable; statements
  about a map are made on its \<^term>\<open>map_of\<close>.
\<close>

named_theorems step_defs \<open>definitions unfolded to follow one operation of a component\<close>
named_theorems inv_intros \<open>preservation lemmas of a component's invariant\<close>

subsection \<open>Bytes and strings\<close>

text \<open>A Go string is a sequence of bytes, as a HOL \<^typ>\<open>string\<close> is.\<close>

abbreviation LF :: char where "LF \<equiv> CHR 0x0A"
abbreviation CR :: char where "CR \<equiv> CHR 0x0D"
abbreviation TAB :: char where "TAB \<equiv> CHR 0x09"
abbreviation CRLF :: string where "CRLF \<equiv> [CR, LF]"

subsection \<open>Go's 64-bit integers\<close>

text \<open>
  \<^verbatim>\<open>int\<close> and \<^verbatim>\<open>int64\<close> are 64 bits wide on the platforms the program is built for.
  They are modelled by \<^typ>\<open>int\<close>; \<open>wrap64\<close> is written where an operation can
  leave the range.
\<close>

definition max_int64 :: int where "max_int64 = 9223372036854775807"
definition min_int64 :: int where "min_int64 = - 9223372036854775808"

definition wrap64 :: "int \<Rightarrow> int" where
  "wrap64 x = (x + 9223372036854775808) mod 18446744073709551616 - 9223372036854775808"

lemma wrap64_id: "min_int64 \<le> x \<Longrightarrow> x \<le> max_int64 \<Longrightarrow> wrap64 x = x"
  by (simp add: wrap64_def min_int64_def max_int64_def)

lemma wrap64_range: "min_int64 \<le> wrap64 x \<and> wrap64 x \<le> max_int64"
proof -
  have "0 \<le> (x + 9223372036854775808) mod 18446744073709551616"
    "(x + 9223372036854775808) mod 18446744073709551616 < 18446744073709551616"
    by simp_all
  then show ?thesis by (simp add: wrap64_def min_int64_def max_int64_def)
qed

subsection \<open>Association lists as maps\<close>

definition keys_ok :: "('k \<times> 'v) list \<Rightarrow> bool" where
  "keys_ok al \<longleftrightarrow> distinct (map fst al)"

lemma keys_ok_Nil [simp]: "keys_ok []"
  by (simp add: keys_ok_def)

lemma keys_ok_update [simp]: "keys_ok al \<Longrightarrow> keys_ok (AList.update k v al)"
  by (simp add: keys_ok_def distinct_update)

lemma map_of_update [simp]: "map_of (AList.update k v al) = (map_of al)(k \<mapsto> v)"
  by (rule update_conv')

lemma set_keys_update: "set (map fst (AList.update k v al)) = insert k (set (map fst al))"
  by (auto simp: update_keys)

lemma map_of_in_set: "map_of al k = Some v \<Longrightarrow> (k, v) \<in> set al"
  by (rule map_of_SomeD)

lemma keys_ok_map_of: "keys_ok al \<Longrightarrow> (k, v) \<in> set al \<Longrightarrow> map_of al k = Some v"
  by (simp add: keys_ok_def)

lemma map_of_None_iff: "map_of al k = None \<longleftrightarrow> k \<notin> fst ` set al"
  by (rule map_of_eq_None_iff)

text \<open>Updating one cell of a map.\<close>

lemma map_upd_cell:
  "dom (m(p := map_option f (m p))) = dom m"
  "(\<And>n. g (f n) = g n) \<Longrightarrow> map_option g \<circ> m(p := map_option f (m p)) = map_option g \<circ> m"
  by (auto simp: dom_def fun_eq_iff option.map_comp comp_def)

lemma map_upd_cell_at:
  "map_option g ((m(p := map_option f (m p))) i) = (if i = p then map_option (g \<circ> f) (m i) else map_option g (m i))"
  by (simp add: option.map_comp)

subsection \<open>Lists\<close>

lemma sorted_hd_le: "sorted xs \<Longrightarrow> x \<in> set xs \<Longrightarrow> hd xs \<le> (x :: 'a :: linorder)"
  by (cases xs) auto

lemma sorted_le_last: "sorted xs \<Longrightarrow> x \<in> set xs \<Longrightarrow> (x :: 'a :: linorder) \<le> last xs"
  by (induction xs) auto

text \<open>Sorting by a key is stable.\<close>

lemma insort_key_stable:
  "sorted_wrt (\<lambda>a b. f a < f b \<or> f a = f b \<and> fst a < fst b) ys \<Longrightarrow> \<forall>y\<in>set ys. fst x < fst y \<Longrightarrow>
     sorted_wrt (\<lambda>a b. f a < (f b :: 'b :: linorder) \<or> f a = f b \<and> fst a < (fst b :: 'a :: linorder)) (insort_key f x ys)"
  by (induction ys) (auto simp: set_insort_key)

lemma sort_key_stable_wrt:
  "sorted_wrt (<) (map fst xs) \<Longrightarrow>
     sorted_wrt (\<lambda>a b. f a < (f b :: 'b :: linorder) \<or> f a = f b \<and> fst a < (fst b :: 'a :: linorder)) (sort_key f xs)"
  by (induction xs) (auto intro!: insort_key_stable)

lemma last_snoc_or: "xs \<noteq> [] \<Longrightarrow> last (x # xs) = last xs"
  by simp

lemma concat_map_append: "concat (map f (xs @ ys)) = concat (map f xs) @ concat (map f ys)"
  by simp

lemma dropWhile_rev_id: "xs = [] \<or> \<not> P (last xs) \<Longrightarrow> rev (dropWhile P (rev xs)) = xs"
  by (induction xs rule: rev_induct) auto

end
