(* ===== verification/GoStrings.thy ===== *)
theory GoStrings
  imports Prelude
begin

text \<open>
  The functions of Go's \<^verbatim>\<open>strings\<close> and \<^verbatim>\<open>strconv\<close> packages that the program
  calls, on byte strings, with the lemmas the components use. Unicode matters in two places
  and is written out there: \<^verbatim>\<open>TrimSpace\<close> and \<^verbatim>\<open>Fields\<close> cut at every rune that
  \<^verbatim>\<open>unicode.IsSpace\<close> accepts, in its UTF-8 encoding (its lead byte is always a
  decoding position, so a bytewise scan finds exactly these runes); \<^verbatim>\<open>ToLower\<close> and
  \<^verbatim>\<open>ToUpper\<close> map the letters A-Z and the four runes whose image is one of them. Other
  runes have an image outside ASCII and are left as they are, which no comparison with an
  ASCII name or command, the only use made of the result, can tell apart.
\<close>

subsection \<open>Prefixes and suffixes\<close>

fun has_prefix :: "string \<Rightarrow> string \<Rightarrow> bool" where
  "has_prefix s [] = True"
| "has_prefix [] (p # ps) = False"
| "has_prefix (c # cs) (p # ps) = (c = p \<and> has_prefix cs ps)"

definition has_suffix :: "string \<Rightarrow> string \<Rightarrow> bool" where
  "has_suffix s p = has_prefix (rev s) (rev p)"

lemma has_prefix_iff: "has_prefix s p \<longleftrightarrow> (\<exists>t. s = p @ t)"
  by (induction s p rule: has_prefix.induct) auto

lemma has_prefix_append [simp]: "has_prefix (p @ t) p"
  by (auto simp: has_prefix_iff)

lemma has_prefix_Nil_iff [simp]: "has_prefix [] p \<longleftrightarrow> p = []"
  by (cases p) auto

lemma has_prefix_len: "has_prefix s p \<Longrightarrow> length p \<le> length s"
  by (auto simp: has_prefix_iff)

lemma has_suffix_iff: "has_suffix s p \<longleftrightarrow> (\<exists>t. s = t @ p)"
proof -
  have "rev s = rev p @ t \<longleftrightarrow> s = rev t @ p" for t
    by (metis rev_append rev_rev_ident)
  then show ?thesis unfolding has_suffix_def has_prefix_iff by (metis rev_rev_ident)
qed

text \<open>\<^verbatim>\<open>strings.TrimPrefix\<close> and \<^verbatim>\<open>strings.TrimSuffix\<close>.\<close>

definition trim_prefix :: "string \<Rightarrow> string \<Rightarrow> string" where
  "trim_prefix s p = (if has_prefix s p then drop (length p) s else s)"

definition trim_suffix :: "string \<Rightarrow> string \<Rightarrow> string" where
  "trim_suffix s p = (if has_suffix s p then take (length s - length p) s else s)"

subsection \<open>Searching and replacing\<close>

text \<open>\<^verbatim>\<open>strings.Index\<close> (None for -1) and \<^verbatim>\<open>strings.Contains\<close>.\<close>

fun index_of :: "string \<Rightarrow> string \<Rightarrow> nat option" where
  "index_of [] p = (if p = [] then Some 0 else None)"
| "index_of (c # cs) p =
     (if has_prefix (c # cs) p then Some 0 else map_option Suc (index_of cs p))"

definition contains :: "string \<Rightarrow> string \<Rightarrow> bool" where
  "contains s p = (index_of s p \<noteq> None)"

lemma index_of_Some_split:
  "index_of s p = Some i \<Longrightarrow> i + length p \<le> length s \<and> s = take i s @ p @ drop (i + length p) s"
proof (induction s p arbitrary: i rule: index_of.induct)
  case (2 c cs p)
  show ?case
  proof (cases "has_prefix (c # cs) p")
    case True
    then obtain t where "c # cs = p @ t" by (auto simp: has_prefix_iff)
    moreover from True "2.prems" have "i = 0" by simp
    ultimately show ?thesis by simp
  next
    case False
    with "2.prems" obtain j where "index_of cs p = Some j" "i = Suc j" by auto
    with "2.IH"[OF False] show ?thesis by simp
  qed
qed (auto split: if_splits)

lemma index_of_None: "index_of s p = None \<Longrightarrow> s \<noteq> a @ p @ b"
proof (induction s p arbitrary: a rule: index_of.induct)
  case (1 p)
  then show ?case by (auto split: if_splits)
next
  case (2 c cs p)
  then show ?case by (cases a) (auto simp: has_prefix_iff split: if_splits)
qed

text \<open>\<^verbatim>\<open>strings.LastIndex\<close> of one byte.\<close>

definition last_index :: "char \<Rightarrow> string \<Rightarrow> nat option" where
  "last_index c s = (if c \<in> set s then Some (length s - Suc (length (takeWhile (\<lambda>x. x \<noteq> c) (rev s)))) else None)"

lemma last_index_append: "c \<notin> set t \<Longrightarrow> last_index c (s @ c # t) = Some (length s)"
proof -
  assume "c \<notin> set t"
  then have "takeWhile (\<lambda>x. x \<noteq> c) (rev (s @ c # t)) = rev t" by (simp add: takeWhile_append)
  then have "length (takeWhile (\<lambda>x. x \<noteq> c) (rev (s @ c # t))) = length t" by simp
  then show ?thesis unfolding last_index_def by simp
qed

text \<open>\<^verbatim>\<open>strings.ReplaceAll\<close> with a non-empty \<open>old\<close>: left to right, without overlap.\<close>

fun replace_all :: "string \<Rightarrow> string \<Rightarrow> string \<Rightarrow> string" where
  "replace_all old new [] = []"
| "replace_all old new (c # cs) =
     (if old \<noteq> [] \<and> has_prefix (c # cs) old
      then new @ replace_all old new (drop (length old - 1) cs)
      else c # replace_all old new cs)"

text \<open>\<^verbatim>\<open>strings.Split\<close> and \<^verbatim>\<open>strings.SplitN(_, _, 2)\<close> on a one-byte separator.\<close>

fun split_on :: "char \<Rightarrow> string \<Rightarrow> string list" where
  "split_on sep [] = [[]]"
| "split_on sep (c # cs) =
     (if c = sep then [] # split_on sep cs
      else (case split_on sep cs of [] \<Rightarrow> [[c]] | w # ws \<Rightarrow> (c # w) # ws))"

lemma split_on_not_Nil [simp]: "split_on sep s \<noteq> []"
  by (induction s) (auto split: list.splits)

lemma split_on_none: "sep \<notin> set s \<Longrightarrow> split_on sep s = [s]"
  by (induction s) auto

lemma split_on_app: "sep \<notin> set s \<Longrightarrow> split_on sep (s @ sep # t) = s # split_on sep t"
  by (induction s) auto

text \<open>\<^verbatim>\<open>strings.Join\<close>.\<close>

fun join_with :: "string \<Rightarrow> string list \<Rightarrow> string" where
  "join_with sep [] = []"
| "join_with sep [w] = w"
| "join_with sep (w # ws) = w @ sep @ join_with sep ws"

lemma split_join:
  "ws \<noteq> [] \<Longrightarrow> \<forall>w\<in>set ws. sep \<notin> set w \<Longrightarrow> split_on sep (join_with [sep] ws) = ws"
proof (induction ws)
  case (Cons w ws)
  then show ?case by (cases ws) (auto simp: split_on_none split_on_app)
qed simp

lemma join_split: "join_with [sep] (split_on sep s) = s"
proof (induction s)
  case (Cons c cs)
  obtain w ws where "split_on sep cs = w # ws" by (cases "split_on sep cs") auto
  with Cons show ?case by (cases ws) auto
qed simp

lemma split_on_parts: "w \<in> set (split_on sep s) \<Longrightarrow> sep \<notin> set w"
proof (induction s arbitrary: w)
  case (Cons c cs)
  then show ?case by (auto split: if_splits list.splits)
qed simp

subsection \<open>White space\<close>

definition is_ascii_space :: "char \<Rightarrow> bool" where
  "is_ascii_space c \<longleftrightarrow> c \<in> {CHR 0x09, CHR 0x0A, CHR 0x0B, CHR 0x0C, CHR 0x0D, CHR 0x20}"

text \<open>The white space runes beyond ASCII: U+0085, U+00A0, U+1680, U+2000 to U+200A, U+2028,
  U+2029, U+202F, U+205F, U+3000.\<close>

definition wide_spaces :: "string list" where
  "wide_spaces =
     [[CHR 0xC2, CHR 0x85], [CHR 0xC2, CHR 0xA0], [CHR 0xE1, CHR 0x9A, CHR 0x80],
      [CHR 0xE2, CHR 0x80, CHR 0x80], [CHR 0xE2, CHR 0x80, CHR 0x81],
      [CHR 0xE2, CHR 0x80, CHR 0x82], [CHR 0xE2, CHR 0x80, CHR 0x83],
      [CHR 0xE2, CHR 0x80, CHR 0x84], [CHR 0xE2, CHR 0x80, CHR 0x85],
      [CHR 0xE2, CHR 0x80, CHR 0x86], [CHR 0xE2, CHR 0x80, CHR 0x87],
      [CHR 0xE2, CHR 0x80, CHR 0x88], [CHR 0xE2, CHR 0x80, CHR 0x89],
      [CHR 0xE2, CHR 0x80, CHR 0x8A], [CHR 0xE2, CHR 0x80, CHR 0xA8],
      [CHR 0xE2, CHR 0x80, CHR 0xA9], [CHR 0xE2, CHR 0x80, CHR 0xAF],
      [CHR 0xE2, CHR 0x81, CHR 0x9F], [CHR 0xE3, CHR 0x80, CHR 0x80]]"

text \<open>The length of the white space rune a string starts (ends) with, 0 if none.\<close>

definition space_head :: "string \<Rightarrow> nat" where
  "space_head s = (case s of [] \<Rightarrow> 0
     | c # _ \<Rightarrow> if is_ascii_space c then 1
                 else (case find (has_prefix s) wide_spaces of Some e \<Rightarrow> length e | None \<Rightarrow> 0))"

definition space_tail :: "string \<Rightarrow> nat" where
  "space_tail s = (if s = [] then 0 else if is_ascii_space (last s) then 1
     else (case find (has_suffix s) wide_spaces of Some e \<Rightarrow> length e | None \<Rightarrow> 0))"

lemma space_head_le: "space_head s \<le> length s"
  by (auto simp: space_head_def find_Some_iff split: list.splits option.splits
      dest!: has_prefix_len)

lemma space_head_Nil [simp]: "space_head [] = 0"
  by (simp add: space_head_def)

text \<open>\<^verbatim>\<open>strings.TrimSpace\<close>.\<close>

function trim_left_space :: "string \<Rightarrow> string" where
  "trim_left_space s = (if space_head s = 0 then s else trim_left_space (drop (space_head s) s))"
  by pat_completeness auto
termination
  by (relation "measure length") (auto simp: space_head_def split: list.splits)

function trim_right_space :: "string \<Rightarrow> string" where
  "trim_right_space s =
     (if space_tail s = 0 then s else trim_right_space (take (length s - space_tail s) s))"
  by pat_completeness auto
termination
  by (relation "measure length") (auto simp: space_tail_def)

declare trim_left_space.simps [simp del] trim_right_space.simps [simp del]

definition trim_space :: "string \<Rightarrow> string" where
  "trim_space s = trim_right_space (trim_left_space s)"

text \<open>\<^verbatim>\<open>strings.Fields\<close>, with the word being read as an accumulator.\<close>

function fields_from :: "string \<Rightarrow> string \<Rightarrow> string list" where
  "fields_from w s =
     (case s of [] \<Rightarrow> (if w = [] then [] else [w])
      | c # cs \<Rightarrow>
          if space_head s = 0 then fields_from (w @ [c]) cs
          else (if w = [] then [] else [w]) @ fields_from [] (drop (space_head s) s))"
  by pat_completeness auto
termination
  by (relation "measure (\<lambda>(w, s). length s)") auto

declare fields_from.simps [simp del]

definition str_fields :: "string \<Rightarrow> string list" where
  "str_fields s = fields_from [] s"

subsection \<open>Words without white space\<close>

text \<open>A string is solid when no white space rune occurs in it.\<close>

fun solid :: "string \<Rightarrow> bool" where
  "solid [] = True"
| "solid (c # cs) = (space_head (c # cs) = 0 \<and> solid cs)"

lemma wide_spaces_no_ascii:
  "e \<in> set wide_spaces \<Longrightarrow> is_ascii_space c \<Longrightarrow> c \<notin> set e"
  by (auto simp: wide_spaces_def is_ascii_space_def)

lemma wide_spaces_not_Nil: "[] \<notin> set wide_spaces"
  by (simp add: wide_spaces_def)

lemma has_prefix_before: "has_prefix (u @ c # t) e \<Longrightarrow> c \<notin> set e \<Longrightarrow> has_prefix u e"
proof (induction u e rule: has_prefix.induct)
  case (2 p ps)
  then show ?case by auto
qed auto

lemma has_prefix_extend: "has_prefix u e \<Longrightarrow> has_prefix (u @ t) e"
  by (auto simp: has_prefix_iff)

lemma space_head_zero:
  "space_head (c # cs) = 0 \<longleftrightarrow>
     \<not> is_ascii_space c \<and> (\<forall>e\<in>set wide_spaces. \<not> has_prefix (c # cs) e)"
proof (cases "find (has_prefix (c # cs)) wide_spaces")
  case None
  then have "\<forall>e\<in>set wide_spaces. \<not> has_prefix (c # cs) e" by (simp add: find_None_iff)
  with None show ?thesis by (simp add: space_head_def)
next
  case (Some e)
  then have "e \<in> set wide_spaces" "has_prefix (c # cs) e"
    by (auto simp: find_Some_iff)
  with Some wide_spaces_not_Nil show ?thesis by (auto simp: space_head_def)
qed

lemma space_head_ascii [simp]: "is_ascii_space c \<Longrightarrow> space_head (c # cs) = 1"
  by (simp add: space_head_def)

lemma space_head_before:
  assumes "u \<noteq> []" "space_head u = 0" "is_ascii_space c"
  shows "space_head (u @ c # t) = 0"
proof -
  from assms(1) obtain x xs where u: "u = x # xs" by (cases u) auto
  have "\<not> has_prefix (u @ c # t) e" if "e \<in> set wide_spaces" for e
    using that assms(2,3) u has_prefix_before wide_spaces_no_ascii
    by (metis space_head_zero)
  with assms(2) u show ?thesis by (simp add: space_head_zero)
qed

lemma fields_from_word:
  "solid u \<Longrightarrow> is_ascii_space c \<Longrightarrow>
     fields_from w (u @ c # t) = (if w @ u = [] then [] else [w @ u]) @ fields_from [] t"
proof (induction u arbitrary: w)
  case Nil
  then show ?case by (simp add: fields_from.simps [of w])
next
  case (Cons x xs)
  then have "space_head ((x # xs) @ c # t) = 0"
    by (intro space_head_before) auto
  with Cons show ?case by (simp add: fields_from.simps [of w])
qed

lemma fields_from_end: "solid u \<Longrightarrow> fields_from w u = (if w @ u = [] then [] else [w @ u])"
proof (induction u arbitrary: w)
  case Nil
  then show ?case by (simp add: fields_from.simps)
next
  case (Cons x xs)
  then show ?case by (simp add: fields_from.simps [of w])
qed

lemma fields_word:
  "solid u \<Longrightarrow> u \<noteq> [] \<Longrightarrow> is_ascii_space c \<Longrightarrow> str_fields (u @ c # t) = u # str_fields t"
  by (simp add: str_fields_def fields_from_word)

lemma fields_single: "solid u \<Longrightarrow> u \<noteq> [] \<Longrightarrow> str_fields u = [u]"
  by (simp add: str_fields_def fields_from_end)

lemma fields_Nil [simp]: "str_fields [] = []"
  by (simp add: str_fields_def fields_from.simps)

text \<open>Joining solid words with spaces and cutting again gives the words back.\<close>

lemma fields_join:
  "\<forall>w\<in>set ws. solid w \<and> w \<noteq> [] \<Longrightarrow> str_fields (join_with '' '' ws) = ws"
proof (induction ws)
  case (Cons w ws)
  have sp: "is_ascii_space (CHR 0x20)" by (simp add: is_ascii_space_def)
  show ?case
  proof (cases ws)
    case Nil
    with Cons.prems show ?thesis by (simp add: fields_single)
  next
    case (Cons v vs)
    with Cons.IH Cons.prems show ?thesis
      using fields_word [of w "CHR 0x20" "join_with '' '' ws", OF _ _ sp] by simp
  qed
qed simp

lemma fields_from_not_Nil: "w \<noteq> [] \<Longrightarrow> fields_from w s \<noteq> []"
proof (induction w s rule: fields_from.induct)
  case (1 w s)
  show ?case
  proof (cases s)
    case Nil
    with "1.prems" show ?thesis by (simp add: fields_from.simps)
  next
    case (Cons c cs)
    with 1 show ?thesis
      by (cases "space_head s = 0") (simp_all add: fields_from.simps [of w])
  qed
qed

text \<open>No field is found exactly in a string of white space only.\<close>

lemma fields_empty_iff: "str_fields s = [] \<longleftrightarrow> trim_left_space s = []"
proof (induction s rule: trim_left_space.induct)
  case (1 s)
  show ?case
  proof (cases s)
    case Nil
    then show ?thesis by (simp add: trim_left_space.simps)
  next
    case (Cons c cs)
    show ?thesis
    proof (cases "space_head s = 0")
      case True
      with Cons show ?thesis
        by (simp add: str_fields_def fields_from.simps [of "[]"] trim_left_space.simps [of "c # cs"]
            fields_from_not_Nil)
    next
      case False
      with Cons 1 show ?thesis
        by (simp add: str_fields_def fields_from.simps [of "[]" "c # cs"]
            trim_left_space.simps [of "c # cs"])
    qed
  qed
qed

lemma trim_space_id: "space_head s = 0 \<Longrightarrow> space_tail s = 0 \<Longrightarrow> trim_space s = s"
  by (simp add: trim_space_def trim_left_space.simps [of s] trim_right_space.simps [of s])

lemma trim_left_suffix: "\<exists>p. s = p @ trim_left_space s"
proof (induction s rule: trim_left_space.induct)
  case (1 s)
  show ?case
  proof (cases "space_head s = 0")
    case True
    then show ?thesis by (simp add: trim_left_space.simps [of s])
  next
    case False
    with 1 obtain p where "drop (space_head s) s = p @ trim_left_space (drop (space_head s) s)"
      by auto
    then have "s = (take (space_head s) s @ p) @ trim_left_space (drop (space_head s) s)"
      by (metis append.assoc append_take_drop_id)
    moreover from False have "trim_left_space s = trim_left_space (drop (space_head s) s)"
      by (simp add: trim_left_space.simps [of s])
    ultimately show ?thesis by metis
  qed
qed

lemma trim_right_prefix: "\<exists>p. s = trim_right_space s @ p"
proof (induction s rule: trim_right_space.induct)
  case (1 s)
  show ?case
  proof (cases "space_tail s = 0")
    case True
    then show ?thesis by (simp add: trim_right_space.simps [of s])
  next
    case False
    let ?n = "length s - space_tail s"
    from False 1 obtain p where "take ?n s = trim_right_space (take ?n s) @ p"
      by auto
    then have "s = trim_right_space (take ?n s) @ (p @ drop ?n s)"
      by (metis append.assoc append_take_drop_id)
    with False show ?thesis by (auto simp: trim_right_space.simps [of s])
  qed
qed

text \<open>\<^verbatim>\<open>TrimSpace\<close> only removes: what is left is a contiguous part of the input.\<close>

lemma trim_space_infix: "\<exists>p q. s = p @ trim_space s @ q"
  by (metis trim_left_suffix trim_right_prefix trim_space_def)

lemma set_trim_space: "set (trim_space s) \<subseteq> set s"
proof -
  obtain p q where "s = p @ trim_space s @ q" using trim_space_infix by blast
  then show ?thesis by (metis Un_iff set_append subsetI)
qed

end
