(* ===== verification/GoStrconv.thy ===== *)
theory GoStrconv
  imports GoStrings
begin

text \<open>
  Case conversion (\<^verbatim>\<open>strings.ToLower\<close>, \<^verbatim>\<open>strings.ToUpper\<close>) and decimal
  numbers (\<^verbatim>\<open>strconv.Itoa\<close>, \<^verbatim>\<open>strconv.Atoi\<close>, the verb \<^verbatim>\<open>%d\<close>), with
  the round trip that the two ends of the news protocol rely on.
\<close>

subsection \<open>Letters\<close>

definition is_upper :: "char \<Rightarrow> bool" where
  "is_upper c \<longleftrightarrow> CHR ''A'' \<le> c \<and> c \<le> CHR ''Z''"

definition is_lower :: "char \<Rightarrow> bool" where
  "is_lower c \<longleftrightarrow> CHR ''a'' \<le> c \<and> c \<le> CHR ''z''"

definition lower_char :: "char \<Rightarrow> char" where
  "lower_char c = (if is_upper c then char_of (of_char c + 32 :: nat) else c)"

definition upper_char :: "char \<Rightarrow> char" where
  "upper_char c = (if is_lower c then char_of (of_char c - 32 :: nat) else c)"

text \<open>U+0130 (bytes C4 B0) and U+212A (bytes E2 84 AA) have the lower case \<open>i\<close> and \<open>k\<close>;
  U+0131 (C4 B1) and U+017F (C5 BF) have the upper case \<open>I\<close> and \<open>S\<close>.\<close>

fun to_lower :: "string \<Rightarrow> string" where
  "to_lower [] = []"
| "to_lower (c # cs) =
     (if has_prefix (c # cs) [CHR 0xC4, CHR 0xB0] then CHR ''i'' # to_lower (drop 1 cs)
      else if has_prefix (c # cs) [CHR 0xE2, CHR 0x84, CHR 0xAA] then CHR ''k'' # to_lower (drop 2 cs)
      else lower_char c # to_lower cs)"

fun to_upper :: "string \<Rightarrow> string" where
  "to_upper [] = []"
| "to_upper (c # cs) =
     (if has_prefix (c # cs) [CHR 0xC4, CHR 0xB1] then CHR ''I'' # to_upper (drop 1 cs)
      else if has_prefix (c # cs) [CHR 0xC5, CHR 0xBF] then CHR ''S'' # to_upper (drop 1 cs)
      else upper_char c # to_upper cs)"

subsection \<open>Decimal numerals\<close>

definition digit_char :: "nat \<Rightarrow> char" where
  "digit_char d = ''0123456789'' ! d"

fun nat_dec :: "nat \<Rightarrow> string" where
  "nat_dec n = (if n < 10 then [digit_char n] else nat_dec (n div 10) @ [digit_char (n mod 10)])"

declare nat_dec.simps [simp del]

definition itoa :: "int \<Rightarrow> string" where
  "itoa i = (if i < 0 then CHR ''-'' # nat_dec (nat (- i)) else nat_dec (nat i))"

text \<open>A natural number with zeros before it up to a width, as \<^verbatim>\<open>%02d\<close> prints it.\<close>

definition pad0 :: "nat \<Rightarrow> nat \<Rightarrow> string" where
  "pad0 w n = replicate (w - length (nat_dec n)) (CHR ''0'') @ nat_dec n"

text \<open>The short names of the months, from 1.\<close>

definition month_name :: "nat \<Rightarrow> string" where
  "month_name m = [''Jan'', ''Feb'', ''Mar'', ''Apr'', ''May'', ''Jun'', ''Jul'', ''Aug'',
     ''Sep'', ''Oct'', ''Nov'', ''Dec''] ! ((m - 1) mod 12)"

definition is_digit :: "char \<Rightarrow> bool" where
  "is_digit c \<longleftrightarrow> c \<in> set ''0123456789''"

definition is_letter :: "char \<Rightarrow> bool" where
  "is_letter c \<longleftrightarrow> is_upper c \<or> is_lower c"

definition is_alnum :: "char \<Rightarrow> bool" where
  "is_alnum c \<longleftrightarrow> is_letter c \<or> is_digit c"

definition digit_val :: "char \<Rightarrow> int" where
  "digit_val c = int (length (takeWhile (\<lambda>d. d \<noteq> c) ''0123456789''))"

datatype num_err = NoErr | SyntaxErr | RangeErr

text \<open>\<^verbatim>\<open>ParseUint(s, 10, 64)\<close> after the check for an empty string: the loop stops at the
  first bad digit or at the first step that leaves 64 bits, whichever comes first.\<close>

fun parse_uint :: "int \<Rightarrow> string \<Rightarrow> int \<times> num_err" where
  "parse_uint n [] = (n, NoErr)"
| "parse_uint n (c # cs) =
     (if \<not> is_digit c then (0, SyntaxErr)
      else if n \<ge> 1844674407370955162 then (18446744073709551615, RangeErr)
      else (let n1 = n * 10 + digit_val c
            in if n1 > 18446744073709551615 then (18446744073709551615, RangeErr)
               else parse_uint n1 cs))"

text \<open>\<^verbatim>\<open>strconv.Atoi\<close>: the value, and whether the error is nil. On a range error the
  value is the nearest bound, on a syntax error it is 0.\<close>

definition atoi :: "string \<Rightarrow> int \<times> bool" where
  "atoi s =
     (let neg = has_prefix s ''-'';
          ds = (if has_prefix s ''-'' \<or> has_prefix s ''+'' then tl s else s)
      in if ds = [] then (0, False)
         else (case parse_uint 0 ds of
             (un, SyntaxErr) \<Rightarrow> (0, False)
           | (un, err) \<Rightarrow>
               if \<not> neg \<and> un \<ge> 9223372036854775808 then (max_int64, False)
               else if neg \<and> un > 9223372036854775808 then (min_int64, False)
               else (if neg then - un else un, err = NoErr)))"

subsection \<open>Round trip\<close>

lemma less_10_cases: "(d::nat) < 10 \<Longrightarrow> d \<in> {0, 1, 2, 3, 4, 5, 6, 7, 8, 9}"
  by auto

lemma digit_char_simps [simp]:
  "d < 10 \<Longrightarrow> is_digit (digit_char d)"
  "d < 10 \<Longrightarrow> digit_val (digit_char d) = int d"
  by (drule less_10_cases; auto simp: digit_char_def is_digit_def digit_val_def)+

lemma nat_dec_not_Nil [simp]: "nat_dec n \<noteq> []"
  by (subst nat_dec.simps) auto

lemma nat_dec_digits: "c \<in> set (nat_dec n) \<Longrightarrow> is_digit c"
proof (induction n rule: nat_dec.induct)
  case (1 n)
  then show ?case by (subst (asm) (2) nat_dec.simps) (auto split: if_splits)
qed

lemma itoa_chars: "c \<in> set (itoa i) \<Longrightarrow> is_digit c \<or> c = CHR ''-''"
  by (auto simp: itoa_def nat_dec_digits split: if_splits)

lemma itoa_not_Nil [simp]: "itoa i \<noteq> []"
  by (simp add: itoa_def)

lemma digit_not_special:
  "is_digit c \<Longrightarrow> \<not> is_ascii_space c \<and> c \<noteq> LF \<and> c \<noteq> CR \<and> c \<noteq> CHR ''/'' \<and> c \<noteq> CHR ''-''
     \<and> c \<noteq> CHR ''+'' \<and> c \<noteq> CHR ''<'' \<and> c \<noteq> TAB \<and> c \<noteq> CHR 0x20"
  by (auto simp: is_digit_def is_ascii_space_def)

lemma itoa_no_special:
  "LF \<notin> set (itoa i)" "CR \<notin> set (itoa i)" "CHR ''/'' \<notin> set (itoa i)"
  "CHR ''<'' \<notin> set (itoa i)" "TAB \<notin> set (itoa i)" "CHR 0x20 \<notin> set (itoa i)"
  by (auto dest!: itoa_chars digit_not_special)

lemma parse_uint_append:
  "parse_uint a ds = (m, NoErr) \<Longrightarrow> parse_uint a (ds @ es) = parse_uint m es"
  by (induction a ds rule: parse_uint.induct) (auto simp: Let_def split: if_splits)

lemma parse_nat_dec:
  "n < 18446744073709551616 \<Longrightarrow> parse_uint 0 (nat_dec n) = (int n, NoErr)"
proof (induction n rule: nat_dec.induct)
  case (1 n)
  show ?case
  proof (cases "n < 10")
    case True
    then show ?thesis by (simp add: nat_dec.simps [of n] Let_def)
  next
    case False
    with 1 have "parse_uint 0 (nat_dec (n div 10)) = (int (n div 10), NoErr)" by simp
    then have "parse_uint 0 (nat_dec n) = parse_uint (int (n div 10)) [digit_char (n mod 10)]"
      using False by (simp add: nat_dec.simps [of n] parse_uint_append)
    moreover have "\<not> int (n div 10) \<ge> 1844674407370955162" using "1.prems" by linarith
    moreover have "int (n div 10) * 10 + int (n mod 10) = int n"
      by (metis div_mult_mod_eq of_nat_add of_nat_mult of_nat_numeral)
    ultimately show ?thesis using "1.prems" by (simp add: Let_def)
  qed
qed

lemma atoi_itoa:
  assumes "min_int64 \<le> i" "i \<le> max_int64"
  shows "atoi (itoa i) = (i, True)"
proof (cases "i < 0")
  case True
  have "nat (- i) < 18446744073709551616" using assms by (simp add: min_int64_def)
  with True assms show ?thesis
    by (simp add: atoi_def itoa_def parse_nat_dec min_int64_def)
next
  case False
  have "nat i < 18446744073709551616" using assms by (simp add: max_int64_def)
  moreover have "\<not> has_prefix (nat_dec (nat i)) ''-''" "\<not> has_prefix (nat_dec (nat i)) ''+''"
    using nat_dec_digits [of _ "nat i"] digit_not_special
    by (cases "nat_dec (nat i)"; force)+
  ultimately show ?thesis using False assms
    by (simp add: atoi_def itoa_def parse_nat_dec max_int64_def)
qed

lemma itoa_inj: "itoa i = itoa j \<Longrightarrow> min_int64 \<le> i \<Longrightarrow> i \<le> max_int64 \<Longrightarrow>
    min_int64 \<le> j \<Longrightarrow> j \<le> max_int64 \<Longrightarrow> i = j"
  by (metis atoi_itoa prod.inject)

text \<open>A number is one solid word.\<close>

lemma plain_solid:
  "\<forall>c\<in>set s. \<not> is_ascii_space c \<and> (\<forall>e\<in>set wide_spaces. c \<noteq> hd e) \<Longrightarrow> solid s"
proof (induction s)
  case (Cons c cs)
  have "\<not> has_prefix (c # cs) e" if "e \<in> set wide_spaces" for e
  proof (cases e)
    case Nil
    with that wide_spaces_not_Nil show ?thesis by simp
  next
    case (Cons x xs)
    with that Cons.prems show ?thesis by force
  qed
  with Cons show ?case by (simp add: space_head_zero)
qed simp

lemma digit_or_minus_plain:
  "is_digit c \<or> c = CHR ''-'' \<Longrightarrow> \<not> is_ascii_space c \<and> (\<forall>e\<in>set wide_spaces. c \<noteq> hd e)"
  by (auto simp: is_digit_def is_ascii_space_def wide_spaces_def)

lemma itoa_solid [simp]: "solid (itoa i)"
  by (rule plain_solid) (use itoa_chars digit_or_minus_plain in blast)

end
