(* ===== verification/Wire.thy ===== *)
theory Wire
  imports GoStrconv
begin

text \<open>
  Lines on a connection, as both ends of the news protocol read and write them
  (\<^verbatim>\<open>ops/pkgs/nntpd/nntpd.go\<close>). A connection's incoming bytes are a string that is
  consumed from the front; reading past its end is the EOF error. A reply or an article
  travels as a block of lines ended by a lone dot, with a dot put before every line that
  starts with one. The locale \<open>codec\<close> is the contract of such an encoding: what is written
  is read back, and the bytes behind it are left alone.
\<close>

subsection \<open>Reading one line\<close>

text \<open>\<^verbatim>\<open>bufio.Reader.ReadString('\n')\<close>: the line with its LF, and what follows; None is
  the error at the end of the input (the bytes of an unfinished line are consumed).\<close>

fun read_string :: "string \<Rightarrow> (string \<times> string) option" where
  "read_string [] = None"
| "read_string (c # cs) =
     (if c = LF then Some ([LF], cs)
      else (case read_string cs of None \<Rightarrow> None | Some (l, r) \<Rightarrow> Some (c # l, r)))"

text \<open>\<^verbatim>\<open>strings.TrimRight(line, "\r\n")\<close>.\<close>

definition trim_eol :: "string \<Rightarrow> string" where
  "trim_eol l = rev (dropWhile (\<lambda>c. c = CR \<or> c = LF) (rev l))"

lemma read_string_line: "LF \<notin> set l \<Longrightarrow> read_string (l @ LF # r) = Some (l @ [LF], r)"
  by (induction l) auto

lemma read_string_crlf: "LF \<notin> set l \<Longrightarrow> read_string (l @ CR # LF # r) = Some (l @ CRLF, r)"
  using read_string_line [of "l @ [CR]" r] by simp

lemma read_string_Some:
  "read_string s = Some (l, r) \<Longrightarrow> s = l @ r \<and> (\<exists>t. l = t @ [LF] \<and> LF \<notin> set t)"
proof (induction s arbitrary: l r)
  case (Cons c cs)
  show ?case
  proof (cases "c = LF")
    case True
    with Cons.prems show ?thesis by auto
  next
    case False
    with Cons.prems obtain l' where "read_string cs = Some (l', r)" "l = c # l'"
      by (auto split: option.splits)
    with Cons.IH [of l' r] False show ?thesis by (metis append_Cons set_ConsD)
  qed
qed simp

lemma read_string_length: "read_string s = Some (l, r) \<Longrightarrow> length r < length s"
  by (auto dest!: read_string_Some)

lemma trim_eol_crlf: "l = [] \<or> last l \<notin> {CR, LF} \<Longrightarrow> trim_eol (l @ CRLF) = l"
proof -
  assume "l = [] \<or> last l \<notin> {CR, LF}"
  then have "rev (dropWhile (\<lambda>c. c = CR \<or> c = LF) (rev l)) = l"
    by (intro dropWhile_rev_id) auto
  then show ?thesis by (simp add: trim_eol_def)
qed

text \<open>A trimmed line has no end-of-line byte at its end.\<close>

lemma trim_eol_last: "trim_eol l = [] \<or> last (trim_eol l) \<notin> {CR, LF}"
proof (cases "dropWhile (\<lambda>c. c = CR \<or> c = LF) (rev l)")
  case (Cons a as)
  then have "\<not> (a = CR \<or> a = LF)" using hd_dropWhile [of "\<lambda>c. c = CR \<or> c = LF" "rev l"] by simp
  with Cons show ?thesis by (simp add: trim_eol_def)
qed (simp add: trim_eol_def)

lemma set_trim_eol: "set (trim_eol l) \<subseteq> set l"
  using set_dropWhileD by (fastforce simp: trim_eol_def)

lemma trim_eol_no_LF: "l = t @ [LF] \<Longrightarrow> LF \<notin> set t \<Longrightarrow> LF \<notin> set (trim_eol l)"
proof -
  assume a: "l = t @ [LF]" "LF \<notin> set t"
  then have "trim_eol l = trim_eol t" by (simp add: trim_eol_def)
  with a(2) set_trim_eol [of t] show ?thesis by auto
qed

subsection \<open>Dot blocks\<close>

text \<open>\<^verbatim>\<open>session.writeDotBlock\<close>.\<close>

definition dot_line :: "string \<Rightarrow> string" where
  "dot_line l = (if has_prefix l ''.'' then ''.'' else []) @ l @ CRLF"

definition write_dot_block :: "string list \<Rightarrow> string" where
  "write_dot_block lines = concat (map dot_line lines) @ ''.'' @ CRLF"

text \<open>\<^verbatim>\<open>session.readDotBlock\<close>: the lines read so far are the accumulator.\<close>

function read_dot_from :: "string list \<Rightarrow> string \<Rightarrow> (string list \<times> string) option" where
  "read_dot_from lines s =
     (case read_string s of
        None \<Rightarrow> None
      | Some (raw, rest) \<Rightarrow>
          (let line = trim_eol raw in
           if line = ''.'' then Some (lines, rest)
           else read_dot_from
                  (lines @ [if has_prefix line ''..'' then tl line else line]) rest))"
  by pat_completeness auto
termination
  by (relation "measure (\<lambda>(ls, s). length s)") (auto dest: read_string_length)

declare read_dot_from.simps [simp del]

definition read_dot_block :: "string \<Rightarrow> (string list \<times> string) option" where
  "read_dot_block s = read_dot_from [] s"

text \<open>A line that can travel in a block: no LF inside and no end-of-line byte at its end.\<close>

definition wire_line :: "string \<Rightarrow> bool" where
  "wire_line l \<longleftrightarrow> LF \<notin> set l \<and> (l = [] \<or> last l \<noteq> CR)"

abbreviation wire_lines :: "string list \<Rightarrow> bool" where
  "wire_lines ls \<equiv> \<forall>l\<in>set ls. wire_line l"

lemma wire_line_Nil [simp]: "wire_line []"
  by (simp add: wire_line_def)

lemma wire_line_append: "wire_line l \<Longrightarrow> LF \<notin> set p \<Longrightarrow> l \<noteq> [] \<Longrightarrow> wire_line (p @ l)"
  by (auto simp: wire_line_def)

lemma wire_line_no_LF_CR: "LF \<notin> set l \<Longrightarrow> CR \<notin> set l \<Longrightarrow> wire_line l"
  by (auto simp: wire_line_def dest: last_in_set)

lemma wire_line_trim: "LF \<notin> set l \<Longrightarrow> wire_line (trim_eol (l @ [LF]))"
  using trim_eol_last trim_eol_no_LF by (auto simp: wire_line_def)

lemma read_dot_line:
  assumes "wire_line l"
  shows "read_dot_from ls (dot_line l @ s) = read_dot_from (ls @ [l]) s"
proof -
  let ?d = "(if has_prefix l ''.'' then ''.'' else []) @ l"
  have lf: "LF \<notin> set ?d" using assms by (auto simp: wire_line_def)
  have "?d = [] \<or> last ?d \<notin> {CR, LF}"
    using assms by (auto simp: wire_line_def dest: last_in_set)
  then have tr: "trim_eol (?d @ CRLF) = ?d" by (rule trim_eol_crlf)
  have rd: "read_string (dot_line l @ s) = Some (?d @ CRLF, s)"
    using read_string_crlf [OF lf, of s] by (simp add: dot_line_def)
  show ?thesis
  proof (cases "has_prefix l ''.''")
    case True
    then obtain t where "l = CHR ''.'' # t" by (auto simp: has_prefix_iff)
    then show ?thesis
      by (subst read_dot_from.simps) (use rd tr in \<open>simp add: Let_def\<close>)
  next
    case False
    then have "l \<noteq> ''.''" "\<not> has_prefix l ''..''" by (auto simp: has_prefix_iff)
    with False show ?thesis
      by (subst read_dot_from.simps) (use rd tr in \<open>simp add: Let_def\<close>)
  qed
qed

lemma read_dot_end: "read_dot_from ls (CHR ''.'' # CR # LF # s) = Some (ls, s)"
proof -
  have rd: "read_string (CHR ''.'' # CR # LF # s) = Some (''.'' @ CRLF, s)"
    using read_string_crlf [of "''.''" s] by simp
  have "trim_eol (''.'' @ CRLF) = ''.''" by (rule trim_eol_crlf) simp
  with rd show ?thesis by (subst read_dot_from.simps) (simp add: Let_def)
qed

lemma read_dot_from_write:
  "wire_lines ls \<Longrightarrow> read_dot_from acc (write_dot_block ls @ rest) = Some (acc @ ls, rest)"
proof (induction ls arbitrary: acc)
  case Nil
  then show ?case by (simp add: write_dot_block_def read_dot_end)
next
  case (Cons l ls)
  then show ?case
    using read_dot_line [of l acc "write_dot_block ls @ rest"]
    by (simp add: write_dot_block_def)
qed

lemma read_dot_write: "wire_lines ls \<Longrightarrow> read_dot_block (write_dot_block ls @ rest) = Some (ls, rest)"
  by (simp add: read_dot_block_def read_dot_from_write)

text \<open>Every line a block reader returns can travel again.\<close>

lemma unstuff_wire_line:
  assumes "raw = t @ [LF]" "LF \<notin> set t"
  shows "wire_line (if has_prefix (trim_eol raw) ''..'' then tl (trim_eol raw) else trim_eol raw)"
proof -
  have w: "wire_line (trim_eol raw)" unfolding assms(1) by (rule wire_line_trim [OF assms(2)])
  show ?thesis
  proof (cases "has_prefix (trim_eol raw) ''..''")
    case True
    then obtain u where "trim_eol raw = CHR ''.'' # CHR ''.'' # u"
      by (auto simp: has_prefix_iff)
    with w show ?thesis by (auto simp: wire_line_def split: if_splits)
  qed (use w in simp)
qed

lemma read_dot_from_Some:
  assumes "read_dot_from acc s = Some (ls, r)"
  obtains (stop) raw where "read_string s = Some (raw, r)" "trim_eol raw = ''.''" "ls = acc"
  | (more) raw rest where "read_string s = Some (raw, rest)"
      "read_dot_from (acc @ [if has_prefix (trim_eol raw) ''..'' then tl (trim_eol raw)
         else trim_eol raw]) rest = Some (ls, r)"
  using assms by (subst (asm) read_dot_from.simps) (auto simp: Let_def split: option.splits if_splits)

lemma read_dot_from_wire:
  "read_dot_from acc s = Some (ls, r) \<Longrightarrow> wire_lines acc \<Longrightarrow> wire_lines ls"
proof (induction "length s" arbitrary: acc s rule: less_induct)
  case less
  from less.prems(1) show ?case
  proof (cases rule: read_dot_from_Some)
    case stop
    with less.prems show ?thesis by simp
  next
    case (more raw rest)
    then obtain t where "raw = t @ [LF]" "LF \<notin> set t" using read_string_Some by blast
    then have "wire_line (if has_prefix (trim_eol raw) ''..'' then tl (trim_eol raw)
        else trim_eol raw)" by (rule unstuff_wire_line)
    then have "wire_lines (acc @ [if has_prefix (trim_eol raw) ''..'' then tl (trim_eol raw)
         else trim_eol raw])" using less.prems(2) by (simp del: if_split)
    with less.hyps [OF read_string_length [OF more(1)] more(2)] show ?thesis by blast
  qed
qed

lemma read_dot_wire: "read_dot_block s = Some (ls, r) \<Longrightarrow> wire_lines ls"
  using read_dot_from_wire [of "[]" s ls r] by (simp add: read_dot_block_def)

lemma read_dot_length: "read_dot_from acc s = Some (ls, r) \<Longrightarrow> length r < length s"
proof (induction "length s" arbitrary: acc s rule: less_induct)
  case less
  from less.prems show ?case
  proof (cases rule: read_dot_from_Some)
    case stop
    then show ?thesis by (auto dest: read_string_length)
  next
    case (more raw rest)
    note len = read_string_length [OF more(1)]
    from less.hyps [OF len more(2)] len show ?thesis by simp
  qed
qed

subsection \<open>The contract of an encoding\<close>

locale codec =
  fixes enc :: "'a \<Rightarrow> string"
    and dec :: "string \<Rightarrow> ('a \<times> string) option"
    and ok :: "'a \<Rightarrow> bool"
  assumes dec_enc: "ok x \<Longrightarrow> dec (enc x @ rest) = Some (x, rest)"
begin

lemma enc_unique:
  assumes "ok x" "ok y" "enc x @ r = enc y @ r'"
  shows "x = y \<and> r = r'"
proof -
  have "dec (enc x @ r) = Some (x, r)" using assms(1) by (rule dec_enc)
  moreover have "dec (enc x @ r) = Some (y, r')" unfolding assms(3) using assms(2) by (rule dec_enc)
  ultimately show ?thesis by simp
qed

lemma enc_inj: "ok x \<Longrightarrow> ok y \<Longrightarrow> enc x = enc y \<Longrightarrow> x = y"
  using enc_unique [of x y "[]" "[]"] by simp

text \<open>A sequence of messages sent back to back is read one by one.\<close>

lemma enc_pipeline: "ok x \<Longrightarrow> ok y \<Longrightarrow>
    (case dec (enc x @ enc y @ rest) of None \<Rightarrow> None
     | Some (a, r) \<Rightarrow> map_option (\<lambda>(b, r'). (a, b, r')) (dec r)) = Some (x, y, rest)"
  by (simp add: dec_enc)

end

interpretation dot_codec: codec write_dot_block read_dot_block wire_lines
  by unfold_locales (rule read_dot_write)

end
