(* ===== verification/Spool.thy ===== *)
theory Spool
  imports Wire
begin

text \<open>
  Articles of the news server and their files (\<^verbatim>\<open>ops/pkgs/nntpd/nntpd.go\<close>, the type
  \<^verbatim>\<open>article\<close>, \<^verbatim>\<open>parseArticle\<close>, the text \<^verbatim>\<open>writeArticle\<close> writes),
  and the file tree they are kept in: directories as association lists, the operations
  \<^verbatim>\<open>os.MkdirAll\<close>, \<^verbatim>\<open>os.WriteFile\<close>, \<^verbatim>\<open>os.ReadDir\<close> and
  \<^verbatim>\<open>filepath.Join\<close> the server uses. Paths are absolute and given by their components; a
  spool directory named relative to the working directory is its absolute path here.
\<close>

subsection \<open>Articles\<close>

record article =
  art_number :: int
  art_msg_id :: string
  art_headers :: "string list"
  art_body :: "string list"

text \<open>\<^verbatim>\<open>article.header\<close>: the value of the first header line of that name, "" if none.\<close>

definition header_name :: "string \<Rightarrow> string" where
  "header_name name = to_lower name @ '':''"

definition header_in :: "string list \<Rightarrow> string \<Rightarrow> string" where
  "header_in hs name =
     (case find (\<lambda>h. has_prefix (to_lower h) (header_name name)) hs of
        None \<Rightarrow> []
      | Some h \<Rightarrow> trim_space (drop (length (header_name name)) h))"

definition article_header :: "article \<Rightarrow> string \<Rightarrow> string" where
  "article_header a name = header_in (art_headers a) name"

text \<open>The loop that takes the lines up to the first empty one as headers; the empty line is
  skipped and the others are the body.\<close>

fun split_headers :: "string list \<Rightarrow> string list \<times> string list" where
  "split_headers [] = ([], [])"
| "split_headers (l # ls) =
     (if l = [] then ([], ls) else (case split_headers ls of (hs, bs) \<Rightarrow> (l # hs, bs)))"

definition parse_article :: "int \<Rightarrow> string \<Rightarrow> article" where
  "parse_article num raw =
     (let lines = split_on LF (replace_all CRLF [LF] raw);
          (hs, bs) = split_headers lines;
          body = (if bs \<noteq> [] \<and> last bs = [] then butlast bs else bs)
      in \<lparr>art_number = num, art_msg_id = header_in hs ''Message-ID'',
          art_headers = hs, art_body = body\<rparr>)"

text \<open>The file contents that \<^verbatim>\<open>writeArticle\<close> builds.\<close>

definition article_text :: "article \<Rightarrow> string" where
  "article_text a = concat (map (\<lambda>h. h @ CRLF) (art_headers a)) @ CRLF
     @ concat (map (\<lambda>l. l @ CRLF) (art_body a))"

lemma split_headers_concat:
  "\<forall>h\<in>set hs. h \<noteq> [] \<Longrightarrow> split_headers (hs @ [] # bs) = (hs, bs)"
  by (induction hs) auto

lemma split_headers_props:
  "split_headers ls = (hs, bs) \<Longrightarrow> (\<forall>h\<in>set hs. h \<noteq> []) \<and> set hs \<subseteq> set ls \<and> set bs \<subseteq> set ls"
proof (induction ls arbitrary: hs bs)
  case (Cons l ls)
  then show ?case by (cases "split_headers ls") (auto split: if_splits)
qed simp

lemma replace_crlf_line:
  "LF \<notin> set l \<Longrightarrow> replace_all CRLF [LF] (l @ CR # LF # s) = l @ LF # replace_all CRLF [LF] s"
proof (induction l)
  case (Cons c cs)
  have "\<not> has_prefix (c # cs @ CR # LF # s) CRLF"
    using Cons.prems by (cases cs) auto
  with Cons show ?case by simp
qed simp

lemma split_crlf_lines:
  "\<forall>l\<in>set ls. LF \<notin> set l \<Longrightarrow>
     split_on LF (replace_all CRLF [LF] (concat (map (\<lambda>l. l @ CRLF) ls) @ s))
       = ls @ split_on LF (replace_all CRLF [LF] s)"
proof (induction ls)
  case (Cons l ls)
  then show ?case by (simp add: replace_crlf_line split_on_app)
qed simp

text \<open>Parsing what was written gives the article back.\<close>

definition text_lines :: "article \<Rightarrow> bool" where
  "text_lines a \<longleftrightarrow> (\<forall>h\<in>set (art_headers a). h \<noteq> [] \<and> LF \<notin> set h)
     \<and> (\<forall>l\<in>set (art_body a). LF \<notin> set l)"

lemma split_article_text:
  assumes "text_lines a"
  shows "split_on LF (replace_all CRLF [LF] (article_text a))
    = art_headers a @ [] # art_body a @ [[]]"
proof -
  let ?ls = "art_headers a @ [] # art_body a"
  have "article_text a = concat (map (\<lambda>l. l @ CRLF) ?ls) @ []"
    by (simp add: article_text_def)
  moreover have "\<forall>l\<in>set ?ls. LF \<notin> set l" using assms by (auto simp: text_lines_def)
  ultimately show ?thesis using split_crlf_lines [of ?ls "[]"] by simp
qed

lemma parse_article_text:
  assumes "text_lines a" "art_msg_id a = article_header a ''Message-ID''"
  shows "parse_article (art_number a) (article_text a) = a"
proof -
  have "split_headers (art_headers a @ [] # art_body a @ [[]])
      = (art_headers a, art_body a @ [[]])"
    using assms(1) by (intro split_headers_concat) (auto simp: text_lines_def)
  with assms show ?thesis
    by (simp add: parse_article_def split_article_text Let_def article_header_def)
qed

subsection \<open>The file tree\<close>

datatype fsnode = FFile string | FDir "(string \<times> fsnode) list"

fun node_at :: "string list \<Rightarrow> fsnode \<Rightarrow> fsnode option" where
  "node_at [] n = Some n"
| "node_at (c # cs) (FFile t) = None"
| "node_at (c # cs) (FDir es) =
     (case map_of es c of None \<Rightarrow> None | Some n \<Rightarrow> node_at cs n)"

text \<open>\<^verbatim>\<open>os.MkdirAll\<close>: missing directories are made; a file in the way is an error.\<close>

fun mkdir_all :: "string list \<Rightarrow> fsnode \<Rightarrow> fsnode option" where
  "mkdir_all p (FFile t) = None"
| "mkdir_all [] (FDir es) = Some (FDir es)"
| "mkdir_all (c # cs) (FDir es) =
     (case mkdir_all cs (case map_of es c of None \<Rightarrow> FDir [] | Some n \<Rightarrow> n) of
        None \<Rightarrow> None
      | Some n' \<Rightarrow> Some (FDir (AList.update c n' es)))"

text \<open>\<^verbatim>\<open>os.WriteFile\<close>: creates or truncates; the directory must exist and the name must
  not be a directory's.\<close>

fun write_file :: "string list \<Rightarrow> string \<Rightarrow> fsnode \<Rightarrow> fsnode option" where
  "write_file p t (FFile t') = (if p = [] then Some (FFile t) else None)"
| "write_file [] t (FDir es) = None"
| "write_file (c # cs) t (FDir es) =
     (case map_of es c of
        None \<Rightarrow> (if cs = [] then Some (FDir (AList.update c (FFile t) es)) else None)
      | Some n \<Rightarrow> (case write_file cs t n of
            None \<Rightarrow> None | Some n' \<Rightarrow> Some (FDir (AList.update c n' es))))"

text \<open>\<^verbatim>\<open>os.ReadDir\<close>: the entries sorted by name.\<close>

definition read_dir :: "string list \<Rightarrow> fsnode \<Rightarrow> (string \<times> fsnode) list option" where
  "read_dir p root = (case node_at p root of
       Some (FDir es) \<Rightarrow> Some (sort_key fst es) | _ \<Rightarrow> None)"

text \<open>\<^verbatim>\<open>filepath.Join(base, name)\<close> for an absolute, clean base: the name is cut at its
  slashes and cleaned, so that ".." climbs.\<close>

definition clean_step :: "string list \<Rightarrow> string \<Rightarrow> string list" where
  "clean_step acc c = (if c = [] \<or> c = ''.'' then acc
     else if c = ''..'' then butlast acc else acc @ [c])"

definition join_path :: "string list \<Rightarrow> string \<Rightarrow> string list" where
  "join_path base name = foldl clean_step base (split_on (CHR ''/'') name)"

text \<open>A name that stays one component.\<close>

definition plain_name :: "string \<Rightarrow> bool" where
  "plain_name n \<longleftrightarrow> n \<noteq> [] \<and> n \<noteq> ''.'' \<and> n \<noteq> ''..'' \<and> CHR ''/'' \<notin> set n"

lemma join_path_plain: "plain_name n \<Longrightarrow> join_path base n = base @ [n]"
  by (simp add: plain_name_def join_path_def split_on_none clean_step_def)

lemma itoa_plain_name: "plain_name (itoa i)"
proof -
  have "CHR ''.'' \<notin> set (itoa i)" by (auto dest!: itoa_chars simp: is_digit_def)
  then show ?thesis
    using itoa_no_special(3) [of i] itoa_not_Nil [of i] by (auto simp: plain_name_def)
qed

subsection \<open>Laws of the tree\<close>

lemma node_at_append: "node_at (p @ q) n = (case node_at p n of None \<Rightarrow> None | Some m \<Rightarrow> node_at q m)"
  by (induction p n rule: node_at.induct) (auto split: option.splits)

lemma node_at_snoc:
  "node_at p n = Some (FDir es) \<Longrightarrow> node_at (p @ [c]) n = map_of es c"
  by (simp add: node_at_append split: option.splits)

lemma mkdir_all_dir: "mkdir_all p n = Some n' \<Longrightarrow> \<exists>es. n' = FDir es"
  by (induction p n arbitrary: n' rule: mkdir_all.induct) (auto split: option.splits)

lemma mkdir_all_node: "mkdir_all p n = Some n' \<Longrightarrow> node_at p n' =
    Some (case node_at p n of Some m \<Rightarrow> m | None \<Rightarrow> FDir [])"
proof (induction p n arbitrary: n' rule: mkdir_all.induct)
  case (3 c cs es)
  then obtain m where m: "mkdir_all cs (case map_of es c of None \<Rightarrow> FDir [] | Some n \<Rightarrow> n) = Some m"
    "n' = FDir (AList.update c m es)" by (auto split: option.splits)
  have "node_at cs (FDir []) = (if cs = [] then Some (FDir []) else None)"
    by (cases cs) auto
  with "3.IH" [OF m(1)] m(2) show ?case by (auto split: option.splits)
qed auto

text \<open>Making a directory or writing a file leaves every path alone that is not above or
  below it.\<close>

fun diverge :: "string list \<Rightarrow> string list \<Rightarrow> bool" where
  "diverge (c # cs) (d # ds) = (c \<noteq> d \<or> diverge cs ds)"
| "diverge _ _ = False"

lemma diverge_snoc: "diverge (p @ [c]) (p @ d # q) \<longleftrightarrow> c \<noteq> d"
  by (induction p) auto

lemma mkdir_all_frame:
  "mkdir_all p n = Some n' \<Longrightarrow> diverge p q \<Longrightarrow> node_at q n' = node_at q n"
proof (induction p n arbitrary: n' q rule: mkdir_all.induct)
  case (3 c cs es)
  then obtain m where m: "mkdir_all cs (case map_of es c of None \<Rightarrow> FDir [] | Some n \<Rightarrow> n) = Some m"
    "n' = FDir (AList.update c m es)" by (auto split: option.splits)
  from "3.prems"(2) obtain d ds where q: "q = d # ds" by (cases q) auto
  have "node_at ds (FDir []) = None" if "ds \<noteq> []" using that by (cases ds) auto
  moreover have "ds \<noteq> []" if "diverge cs ds" using that by (cases ds) auto
  ultimately show ?case
    using "3.IH" [OF m(1), of ds] m(2) q "3.prems"(2) by (auto split: option.splits)
qed auto

lemma write_file_node: "write_file p t n = Some n' \<Longrightarrow> node_at p n' = Some (FFile t)"
  by (induction p t n arbitrary: n' rule: write_file.induct) (auto split: option.splits if_splits)

lemma write_file_frame:
  "write_file p t n = Some n' \<Longrightarrow> diverge p q \<Longrightarrow> node_at q n' = node_at q n"
proof (induction p t n arbitrary: n' q rule: write_file.induct)
  case (3 c cs t es)
  from "3.prems"(2) obtain d ds where q: "q = d # ds" by (cases q) auto
  have "\<not> diverge [] ds" by simp
  with 3 q show ?case by (auto split: option.splits if_splits)
qed (auto split: if_splits)

text \<open>Both work below a node as they would on the node itself.\<close>

lemma mkdir_all_append:
  "node_at p n = Some m \<Longrightarrow> mkdir_all q m = Some m' \<Longrightarrow>
     \<exists>n'. mkdir_all (p @ q) n = Some n' \<and> node_at p n' = Some m'"
proof (induction p n rule: node_at.induct)
  case (3 d ds es)
  then show ?case by (fastforce split: option.splits)
qed auto

lemma write_file_append:
  "node_at p n = Some m \<Longrightarrow> write_file q t m = Some m' \<Longrightarrow>
     \<exists>n'. write_file (p @ q) t n = Some n' \<and> node_at p n' = Some m'"
proof (induction p n rule: node_at.induct)
  case (3 d ds es)
  then show ?case by (fastforce split: option.splits)
qed auto

end
