(* ===== verification/NntpStore.thy ===== *)
theory NntpStore
  imports Spool
begin

text \<open>
  The store of the news server (\<^verbatim>\<open>ops/pkgs/nntpd/nntpd.go\<close>): newsgroups with their
  numbered articles, the index by message id, and the spool directory every accepted article is
  written to. Operations: \<^verbatim>\<open>post\<close>, \<^verbatim>\<open>writeArticle\<close>,
  \<^verbatim>\<open>loadSpool\<close>, \<^verbatim>\<open>seedWelcomeGroup\<close>, \<^verbatim>\<open>newStore\<close>.
  The invariant \<open>store_wf\<close> says how numbers, water marks and the index agree; the
  refinement \<open>load_spool_refines\<close> says that a restart brings back what was posted.
  The log lines are left out.
\<close>

subsection \<open>What the operating system supplies\<close>

text \<open>The civil fields of a \<^verbatim>\<open>time.Time\<close>: month from 1, weekday from 0 (Sunday), the
  zone offset in minutes.\<close>

record gotime =
  tm_year :: nat
  tm_month :: nat
  tm_day :: nat
  tm_hour :: nat
  tm_min :: nat
  tm_sec :: nat
  tm_wday :: nat
  tm_off :: int

definition day_name :: "nat \<Rightarrow> string" where
  "day_name d = [''Sun'', ''Mon'', ''Tue'', ''Wed'', ''Thu'', ''Fri'', ''Sat''] ! (d mod 7)"

text \<open>The layouts \<^verbatim>\<open>time.RFC1123Z\<close> and \<^verbatim>\<open>"20060102150405"\<close>.\<close>

definition fmt_rfc1123z :: "gotime \<Rightarrow> string" where
  "fmt_rfc1123z t = day_name (tm_wday t) @ '', '' @ pad0 2 (tm_day t) @ '' ''
     @ month_name (tm_month t) @ '' '' @ pad0 4 (tm_year t) @ '' ''
     @ pad0 2 (tm_hour t) @ '':'' @ pad0 2 (tm_min t) @ '':'' @ pad0 2 (tm_sec t) @ '' ''
     @ (if tm_off t < 0 then ''-'' else ''+'')
     @ pad0 2 (nat \<bar>tm_off t\<bar> div 60) @ pad0 2 (nat \<bar>tm_off t\<bar> mod 60)"

definition fmt_compact :: "gotime \<Rightarrow> string" where
  "fmt_compact t = pad0 4 (tm_year t) @ pad0 2 (tm_month t) @ pad0 2 (tm_day t)
     @ pad0 2 (tm_hour t) @ pad0 2 (tm_min t) @ pad0 2 (tm_sec t)"

text \<open>What one operation reads from its environment: the local and the UTC reading of the clock,
  \<^verbatim>\<open>UnixNano\<close>, the process id, and which paths the file system serves. A file operation
  on a path that is not served fails and changes nothing.\<close>

record env =
  ev_now :: gotime
  ev_utc :: gotime
  ev_nano :: int
  ev_pid :: int
  ev_io :: "string list \<Rightarrow> bool"

subsection \<open>State\<close>

record group =
  grp_name :: string
  grp_articles :: "(int \<times> article) list"
  grp_low :: int
  grp_high :: int

definition group_count :: "group \<Rightarrow> int" where
  "group_count g = int (length (grp_articles g))"

definition sorted_numbers :: "group \<Rightarrow> int list" where
  "sorted_numbers g = sort (map fst (grp_articles g))"

definition empty_group :: "string \<Rightarrow> group" where
  "empty_group n = \<lparr>grp_name = n, grp_articles = [], grp_low = 0, grp_high = 0\<rparr>"

record store =
  st_spool :: "string list"
  st_groups :: "(string \<times> group) list"
  st_by_msgid :: "(string \<times> article) list"
  st_disk :: fsnode

subsection \<open>Posting\<close>

definition write_article :: "env \<Rightarrow> string \<Rightarrow> article \<Rightarrow> store \<Rightarrow> store" where
  "write_article e gname a s =
     (let dir = join_path (st_spool s) gname;
          path = join_path dir (itoa (art_number a))
      in case (if ev_io e dir then mkdir_all dir (st_disk s) else None) of
           None \<Rightarrow> s
         | Some d1 \<Rightarrow>
             (case (if ev_io e path then write_file path (article_text a) d1 else None) of
                None \<Rightarrow> s\<lparr>st_disk := d1\<rparr>
              | Some d2 \<Rightarrow> s\<lparr>st_disk := d2\<rparr>))"

text \<open>The message id and the date that \<^verbatim>\<open>post\<close> adds where the article has none.\<close>

definition stamp_article :: "env \<Rightarrow> article \<Rightarrow> article" where
  "stamp_article e a =
     (let a1 = (if art_msg_id a = []
                then (let m = ''<'' @ itoa (ev_nano e) @ ''.'' @ itoa (ev_pid e) @ ''@nntpd>''
                      in a\<lparr>art_msg_id := m,
                           art_headers := art_headers a @ [''Message-ID: '' @ m]\<rparr>)
                else a)
      in if article_header a1 ''Date'' = []
         then a1\<lparr>art_headers := art_headers a1 @ [''Date: '' @ fmt_rfc1123z (ev_now e)]\<rparr>
         else a1)"

text \<open>One round of the loop over the names in the Newsgroups header.\<close>

definition post_one :: "env \<Rightarrow> article \<Rightarrow> store \<Rightarrow> string \<Rightarrow> store" where
  "post_one e a s raw_name =
     (let gname = trim_space raw_name in
      if gname = [] then s
      else
        let g = (case map_of (st_groups s) gname of Some g \<Rightarrow> g | None \<Rightarrow> empty_group gname);
            num = wrap64 (grp_high g + 1);
            low = (if grp_low g = 0 then num else grp_low g);
            clone = a\<lparr>art_number := num\<rparr>;
            g' = g\<lparr>grp_articles := AList.update num clone (grp_articles g),
                    grp_low := low, grp_high := num\<rparr>;
            s1 = s\<lparr>st_groups := AList.update gname g' (st_groups s)\<rparr>;
            s2 = write_article e gname clone s1
        in s2\<lparr>st_by_msgid := AList.update (art_msg_id a) clone (st_by_msgid s2)\<rparr>)"

definition post :: "env \<Rightarrow> article \<Rightarrow> store \<Rightarrow> string + store" where
  "post e a s =
     (let ng = article_header a ''Newsgroups'' in
      if ng = [] then Inl ''no Newsgroups header''
      else Inr (foldl (post_one e (stamp_article e a)) s (split_on (CHR '','') ng)))"

subsection \<open>Starting up\<close>

text \<open>The body of the inner loop of \<^verbatim>\<open>loadSpool\<close>: one file of a group's directory. The
  state is the group being built and the index by message id.\<close>

definition load_file ::
  "env \<Rightarrow> string list \<Rightarrow> group \<times> (string \<times> article) list \<Rightarrow> string \<times> fsnode
     \<Rightarrow> group \<times> (string \<times> article) list" where
  "load_file e dir gi f =
     (case (gi, f) of ((g, ids), (fname, node)) \<Rightarrow>
        (case (atoi fname, node) of
           ((num, True), FFile data) \<Rightarrow>
             if \<not> ev_io e (dir @ [fname]) then (g, ids)
             else (let a = parse_article num data in
                   (g\<lparr>grp_articles := AList.update num a (grp_articles g),
                      grp_low := (if grp_low g = 0 \<or> num < grp_low g then num else grp_low g),
                      grp_high := (if num > grp_high g then num else grp_high g)\<rparr>,
                    if art_msg_id a \<noteq> [] then AList.update (art_msg_id a) a ids else ids))
         | _ \<Rightarrow> (g, ids)))"

fun load_dirs :: "env \<Rightarrow> (string \<times> fsnode) list \<Rightarrow> store \<Rightarrow> store option" where
  "load_dirs e [] s = Some s"
| "load_dirs e ((gname, FFile t) # ds) s = load_dirs e ds s"
| "load_dirs e ((gname, FDir es) # ds) s =
     (let dir = st_spool s @ [gname] in
      if \<not> ev_io e dir then None
      else (case foldl (load_file e dir) (empty_group gname, st_by_msgid s) (sort_key fst es) of
              (g, ids) \<Rightarrow> load_dirs e ds
                 (s\<lparr>st_by_msgid := ids, st_groups := AList.update gname g (st_groups s)\<rparr>)))"

definition load_spool :: "env \<Rightarrow> store \<Rightarrow> store option" where
  "load_spool e s =
     (if \<not> ev_io e (st_spool s) then None
      else (case read_dir (st_spool s) (st_disk s) of
              None \<Rightarrow> None
            | Some entries \<Rightarrow> load_dirs e entries s))"

definition welcome_article :: "env \<Rightarrow> article" where
  "welcome_article e =
     \<lparr>art_number = 1, art_msg_id = ''<welcome-1@local.test>'',
      art_headers = [''Newsgroups: local.test'', ''From: nntpd <nntpd@local.test>'',
        ''Subject: Welcome'', ''Message-ID: <welcome-1@local.test>'',
        ''Date: '' @ fmt_rfc1123z (ev_now e)],
      art_body = [''This is a minimal nntpd. Post something!'']\<rparr>"

definition seed_welcome_group :: "env \<Rightarrow> store \<Rightarrow> store" where
  "seed_welcome_group e s =
     (let a = welcome_article e;
          g = (empty_group ''local.test'')\<lparr>grp_articles := [(1, a)], grp_low := 1, grp_high := 1\<rparr>;
          s1 = s\<lparr>st_groups := AList.update ''local.test'' g (st_groups s),
                 st_by_msgid := AList.update (art_msg_id a) a (st_by_msgid s)\<rparr>
      in write_article e ''local.test'' a s1)"

definition new_store :: "env \<Rightarrow> string list \<Rightarrow> fsnode \<Rightarrow> store option" where
  "new_store e spool disk =
     (case (if ev_io e spool then mkdir_all spool disk else None) of
        None \<Rightarrow> None
      | Some d \<Rightarrow>
          (case load_spool e \<lparr>st_spool = spool, st_groups = [], st_by_msgid = [], st_disk = d\<rparr> of
             None \<Rightarrow> None
           | Some s \<Rightarrow> Some (if st_groups s = [] then seed_welcome_group e s else s)))"

subsection \<open>The invariant\<close>

text \<open>A group's water marks bound its numbers and are numbers of articles it holds; every
  article knows its own number.\<close>

definition group_wf :: "string \<Rightarrow> group \<Rightarrow> bool" where
  "group_wf n g \<longleftrightarrow> grp_name g = n \<and> keys_ok (grp_articles g)
     \<and> (\<forall>k a. map_of (grp_articles g) k = Some a \<longrightarrow>
          art_number a = k \<and> 1 \<le> k \<and> k \<le> max_int64 \<and> grp_low g \<le> k \<and> k \<le> grp_high g)
     \<and> (if grp_articles g = [] then grp_low g = 0 \<and> grp_high g = 0
        else grp_low g \<in> dom (map_of (grp_articles g))
           \<and> grp_high g \<in> dom (map_of (grp_articles g)))"

definition store_wf :: "store \<Rightarrow> bool" where
  "store_wf s \<longleftrightarrow> keys_ok (st_groups s) \<and> keys_ok (st_by_msgid s)
     \<and> (\<forall>n g. map_of (st_groups s) n = Some g \<longrightarrow> group_wf n g)
     \<and> (\<forall>m a. map_of (st_by_msgid s) m = Some a \<longrightarrow> art_msg_id a = m
          \<and> (\<exists>n g. map_of (st_groups s) n = Some g
               \<and> map_of (grp_articles g) (art_number a) = Some a))"

text \<open>Room for \<open>k\<close> more articles in every group before the numbers leave 64 bits.\<close>

definition room :: "nat \<Rightarrow> store \<Rightarrow> bool" where
  "room k s \<longleftrightarrow> int k \<le> max_int64
     \<and> (\<forall>n g. map_of (st_groups s) n = Some g \<longrightarrow> grp_high g + int k \<le> max_int64)"

text \<open>What \<open>post_one\<close> and \<open>load_file\<close> do to a group.\<close>

definition add_article :: "int \<Rightarrow> article \<Rightarrow> group \<Rightarrow> group" where
  "add_article k a g = g\<lparr>grp_articles := AList.update k a (grp_articles g),
     grp_low := (if grp_low g = 0 \<or> k < grp_low g then k else grp_low g),
     grp_high := (if k > grp_high g then k else grp_high g)\<rparr>"

lemma empty_group_wf [simp]: "group_wf n (empty_group n)"
  by (simp add: group_wf_def empty_group_def)

lemma update_not_Nil [simp]: "AList.update k v al \<noteq> []"
  by (induction al) auto

lemma group_wf_bounds:
  "group_wf n g \<Longrightarrow> map_of (grp_articles g) k = Some a \<Longrightarrow>
     art_number a = k \<and> 1 \<le> k \<and> k \<le> max_int64 \<and> grp_low g \<le> k \<and> k \<le> grp_high g"
  by (simp add: group_wf_def)

lemma group_wf_low: "group_wf n g \<Longrightarrow> grp_articles g \<noteq> [] \<Longrightarrow> 1 \<le> grp_low g \<and> grp_low g \<le> grp_high g"
  by (auto simp: group_wf_def)

lemma group_wf_high_nonneg: "group_wf n g \<Longrightarrow> 0 \<le> grp_high g"
  using group_wf_low [of n g] by (cases "grp_articles g = []") (auto simp: group_wf_def)

lemma add_article_wf [inv_intros]:
  assumes "group_wf n g" "1 \<le> k" "k \<le> max_int64" "art_number a = k"
  shows "group_wf n (add_article k a g)"
proof (cases "grp_articles g = []")
  case True
  with assms show ?thesis by (auto simp: group_wf_def add_article_def keys_ok_def)
next
  case False
  with assms group_wf_low [OF assms(1) False] show ?thesis
    by (fastforce simp: group_wf_def add_article_def)
qed

lemma add_article_simps [simp]:
  "grp_articles (add_article k a g) = AList.update k a (grp_articles g)"
  "grp_name (add_article k a g) = grp_name g"
  "grp_high (add_article k a g) = max k (grp_high g)"
  by (auto simp: add_article_def)

text \<open>A well-formed group is determined by its name and its articles.\<close>

lemma group_wf_unique:
  assumes "group_wf n g" "group_wf n g'" "map_of (grp_articles g) = map_of (grp_articles g')"
  shows "grp_low g = grp_low g' \<and> grp_high g = grp_high g'"
proof (cases "grp_articles g = []")
  case True
  with assms(3) have "grp_articles g' = []" by (metis map_of_eq_empty_iff)
  with True assms show ?thesis by (simp add: group_wf_def)
next
  case False
  with assms(3) have ne: "grp_articles g' \<noteq> []" by (metis map_of_eq_empty_iff)
  have marks: "grp_low h \<in> dom (map_of (grp_articles h)) \<and> grp_high h \<in> dom (map_of (grp_articles h))
      \<and> (\<forall>k\<in>dom (map_of (grp_articles h)). grp_low h \<le> k \<and> k \<le> grp_high h)"
    if "group_wf n h" "grp_articles h \<noteq> []" for h
    using that by (auto simp: group_wf_def)
  from marks [OF assms(1) False] marks [OF assms(2) ne] assms(3) show ?thesis
    by (metis antisym)
qed

subsection \<open>Posting keeps the invariant\<close>

lemma write_article_simps [simp]:
  "st_groups (write_article e n a s) = st_groups s"
  "st_by_msgid (write_article e n a s) = st_by_msgid s"
  "st_spool (write_article e n a s) = st_spool s"
  by (auto simp: write_article_def Let_def split: option.splits)

lemma write_article_disk_only:
  "st_disk (write_article e n a (s\<lparr>st_groups := gs\<rparr>)) = st_disk (write_article e n a s)"
  by (auto simp: write_article_def Let_def split: option.splits)

definition the_group :: "store \<Rightarrow> string \<Rightarrow> group" where
  "the_group s n = (case map_of (st_groups s) n of Some g \<Rightarrow> g | None \<Rightarrow> empty_group n)"

lemma the_group_wf: "store_wf s \<Longrightarrow> group_wf n (the_group s n)"
  by (auto simp: the_group_def store_wf_def split: option.splits)

lemma the_group_room:
  assumes "store_wf s" "room (Suc k) s"
  shows "0 \<le> grp_high (the_group s n)" "grp_high (the_group s n) + 1 + int k \<le> max_int64"
proof -
  show "0 \<le> grp_high (the_group s n)" using the_group_wf [OF assms(1)] group_wf_high_nonneg by blast
  show "grp_high (the_group s n) + 1 + int k \<le> max_int64"
    using assms(2) by (fastforce simp: room_def the_group_def empty_group_def split: option.splits)
qed

text \<open>Within range, one round of the loop adds the article under the next number.\<close>

lemma post_one_blank: "trim_space w = [] \<Longrightarrow> post_one e a s w = s"
  by (simp add: post_one_def)

lemma post_one_eq:
  assumes "store_wf s" "room (Suc k) s" "trim_space w = n" "n \<noteq> []"
  defines "num \<equiv> grp_high (the_group s n) + 1"
  shows "st_groups (post_one e a s w) =
      AList.update n (add_article num (a\<lparr>art_number := num\<rparr>) (the_group s n)) (st_groups s)"
    and "st_by_msgid (post_one e a s w) =
      AList.update (art_msg_id a) (a\<lparr>art_number := num\<rparr>) (st_by_msgid s)"
    and "st_spool (post_one e a s w) = st_spool s"
    and "1 \<le> num" "num + int k \<le> max_int64"
    and "st_disk (post_one e a s w) = st_disk (write_article e n (a\<lparr>art_number := num\<rparr>) s)"
proof -
  note r = the_group_room [OF assms(1,2), of n]
  from r have num: "wrap64 (grp_high (the_group s n) + 1) = num" "1 \<le> num" "num + int k \<le> max_int64"
    by (auto simp: num_def wrap64_id min_int64_def)
  have low: "grp_low (the_group s n) \<le> grp_high (the_group s n)"
    using the_group_wf [OF assms(1), of n] group_wf_low
    by (cases "grp_articles (the_group s n) = []") (auto simp: group_wf_def)
  from low have cmp: "\<not> num < grp_low (the_group s n)" "grp_high (the_group s n) < num"
    by (auto simp: num_def)
  note d = post_one_def [of e a s w] the_group_def [symmetric]
  show "st_groups (post_one e a s w) =
      AList.update n (add_article num (a\<lparr>art_number := num\<rparr>) (the_group s n)) (st_groups s)"
    using assms(3,4) num(1) cmp by (simp add: d Let_def add_article_def)
  show "st_by_msgid (post_one e a s w) =
      AList.update (art_msg_id a) (a\<lparr>art_number := num\<rparr>) (st_by_msgid s)"
    using assms(3,4) num(1) by (simp add: d Let_def)
  show "st_spool (post_one e a s w) = st_spool s"
    using assms(3,4) by (simp add: d Let_def)
  show "1 \<le> num" "num + int k \<le> max_int64" by (rule num)+
  show "st_disk (post_one e a s w) = st_disk (write_article e n (a\<lparr>art_number := num\<rparr>) s)"
    using assms(3,4) num(1) by (simp add: d Let_def write_article_disk_only)
qed

lemma the_group_update:
  "st_groups s' = AList.update n g (st_groups s) \<Longrightarrow>
     the_group s' m = (if m = n then g else the_group s m)"
  by (simp add: the_group_def)

lemma post_one_room:
  assumes "store_wf s" "room (Suc k) s"
  shows "room k (post_one e a s w)"
proof (cases "trim_space w = []")
  case True
  with assms(2) show ?thesis by (force simp: post_one_blank room_def)
next
  case False
  note p = post_one_eq [OF assms refl False]
  show ?thesis
    using p(5) assms(2) unfolding room_def p(1) by (force simp: max_def)
qed

lemma article_kept:
  assumes wf: "store_wf s" and g: "st_groups s' = AList.update n (add_article num c (the_group s n)) (st_groups s)"
    and num: "num = grp_high (the_group s n) + 1" "art_number c = num"
    and b: "b = c \<or> (\<exists>n' g'. map_of (st_groups s) n' = Some g' \<and> map_of (grp_articles g') (art_number b) = Some b)"
  shows "\<exists>n' g'. map_of (st_groups s') n' = Some g' \<and> map_of (grp_articles g') (art_number b) = Some b"
proof (cases "b = c")
  case True
  then show ?thesis by (intro exI [of _ n] exI [of _ "add_article num c (the_group s n)"]) (simp add: g num(2))
next
  case False
  with b obtain n' g' where h: "map_of (st_groups s) n' = Some g'"
    "map_of (grp_articles g') (art_number b) = Some b" by blast
  show ?thesis
  proof (cases "n' = n")
    case True
    with h(1) have tg: "the_group s n = g'" by (simp add: the_group_def)
    with the_group_wf [OF wf, of n] h(2) have "art_number b \<le> grp_high g'"
      using group_wf_bounds by blast
    then have "art_number b < num" using tg by (simp add: num(1))
    with tg show ?thesis using h(2)
      by (intro exI [of _ n] exI [of _ "add_article num c (the_group s n)"]) (simp add: g)
  next
    case False
    with h show ?thesis by (intro exI [of _ n'] exI [of _ g']) (simp add: g)
  qed
qed

lemma post_one_wf [inv_intros]:
  assumes "store_wf s" "room (Suc k) s"
  shows "store_wf (post_one e a s w)"
proof (cases "trim_space w = []")
  case True
  with assms show ?thesis by (simp add: post_one_blank)
next
  case False
  define n where "n = trim_space w"
  define num where "num = grp_high (the_group s n) + 1"
  define c where "c = a\<lparr>art_number := num\<rparr>"
  note p = post_one_eq [OF assms n_def [symmetric] False [folded n_def], folded num_def]
  let ?g = "add_article num c (the_group s n)"
  have g: "group_wf n ?g"
    using the_group_wf [OF assms(1), of n] p(4,5) by (intro add_article_wf) (auto simp: c_def)
  note idx = article_kept [OF assms(1) p(1) [of e a, folded c_def] num_def]
  note g1 = p(1) [of e a, folded c_def] and g2 = p(2) [of e a, folded c_def]
  from assms(1) have old: "keys_ok (st_groups s)" "keys_ok (st_by_msgid s)"
    "\<And>n' g'. map_of (st_groups s) n' = Some g' \<Longrightarrow> group_wf n' g'"
    "\<And>m b. map_of (st_by_msgid s) m = Some b \<Longrightarrow> art_msg_id b = m \<and> (\<exists>n' g'.
       map_of (st_groups s) n' = Some g' \<and> map_of (grp_articles g') (art_number b) = Some b)"
    unfolding store_wf_def by blast+
  show ?thesis unfolding store_wf_def
  proof (intro conjI allI impI)
    show "keys_ok (st_groups (post_one e a s w))" "keys_ok (st_by_msgid (post_one e a s w))"
      by (simp_all add: g1 g2 old)
  next
    fix n' g' assume "map_of (st_groups (post_one e a s w)) n' = Some g'"
    then show "group_wf n' g'" using g old(3) by (auto simp: g1 split: if_splits)
  next
    fix m b assume b: "map_of (st_by_msgid (post_one e a s w)) m = Some b"
    then have "(m = art_msg_id a \<and> b = c) \<or> map_of (st_by_msgid s) m = Some b"
      by (auto simp: g2 split: if_splits)
    then show "art_msg_id b = m" using old(4) by (auto simp: c_def)
    from b have "b = c \<or> map_of (st_by_msgid s) m = Some b" by (auto simp: g2 split: if_splits)
    then show "\<exists>n' g'. map_of (st_groups (post_one e a s w)) n' = Some g'
        \<and> map_of (grp_articles g') (art_number b) = Some b"
      using idx [of b] old(4) by (simp add: c_def) blast
  qed
qed

text \<open>Articles are only ever added.\<close>

lemma post_one_mono:
  assumes "store_wf s" "room (Suc k) s"
  shows "map_of (grp_articles (the_group s n)) \<subseteq>\<^sub>m map_of (grp_articles (the_group (post_one e a s w) n))"
proof (cases "trim_space w = []")
  case True
  then show ?thesis by (simp add: post_one_blank)
next
  case False
  note p = post_one_eq [OF assms refl False]
  let ?m = "trim_space w"
  have "map_of (grp_articles (the_group s ?m)) (grp_high (the_group s ?m) + 1) = None"
    using group_wf_bounds [OF the_group_wf [OF assms(1), of ?m]]
    by (cases "map_of (grp_articles (the_group s ?m)) (grp_high (the_group s ?m) + 1)") fastforce+
  then show ?thesis by (auto simp: the_group_update [OF p(1)] map_le_def dom_def)
qed

subsection \<open>The contract of an append-only store\<close>

text \<open>What the sessions rely on: operations keep the invariant as long as there is capacity, and
  what can be looked up stays as it is.\<close>

locale append_store =
  fixes add :: "'x \<Rightarrow> 'st \<Rightarrow> 'st"
    and look :: "'st \<Rightarrow> 'n \<Rightarrow> ('k \<rightharpoonup> 'v)"
    and inv :: "'st \<Rightarrow> bool"
    and cap :: "nat \<Rightarrow> 'st \<Rightarrow> bool"
  assumes add_inv: "inv s \<Longrightarrow> cap (Suc k) s \<Longrightarrow> inv (add x s)"
    and add_cap: "inv s \<Longrightarrow> cap (Suc k) s \<Longrightarrow> cap k (add x s)"
    and add_mono: "inv s \<Longrightarrow> cap (Suc k) s \<Longrightarrow> look s n \<subseteq>\<^sub>m look (add x s) n"
begin

lemma add_all_inv:
  "inv s \<Longrightarrow> cap (length xs + k) s \<Longrightarrow>
     inv (foldl (\<lambda>s x. add x s) s xs) \<and> cap k (foldl (\<lambda>s x. add x s) s xs)"
  by (induction xs arbitrary: s) (auto intro: add_inv add_cap)

lemma add_all_mono:
  "inv s \<Longrightarrow> cap (length xs + k) s \<Longrightarrow> look s n \<subseteq>\<^sub>m look (foldl (\<lambda>s x. add x s) s xs) n"
proof (induction xs arbitrary: s)
  case (Cons x xs)
  from Cons.prems have "look (add x s) n \<subseteq>\<^sub>m look (foldl (\<lambda>s x. add x s) (add x s) xs) n"
    by (intro Cons.IH) (auto intro: add_inv add_cap)
  moreover from Cons.prems have "look s n \<subseteq>\<^sub>m look (add x s) n" by (auto intro: add_mono)
  ultimately show ?case by (auto intro: map_le_trans)
qed simp

text \<open>What an operation has put in place is still there after any later ones.\<close>

lemma add_all_keeps:
  "inv s \<Longrightarrow> cap (length xs + k) s \<Longrightarrow> look s n j = Some v \<Longrightarrow>
     look (foldl (\<lambda>s x. add x s) s xs) n j = Some v"
  using add_all_mono [of s xs k n] by (auto simp: map_le_def dom_def)

end

interpretation news: append_store "\<lambda>(e, a, w) s. post_one e a s w"
    "\<lambda>s n. map_of (grp_articles (the_group s n))" store_wf room
  by unfold_locales (auto intro: post_one_wf post_one_room simp: post_one_mono)

lemma post_fold:
  "foldl (post_one e a) s ws = foldl (\<lambda>s x. (\<lambda>(e, a, w) s. post_one e a s w) x s) s (map (\<lambda>w. (e, a, w)) ws)"
  by (induction ws arbitrary: s) auto

subsection \<open>Whole posts\<close>

definition post_names :: "article \<Rightarrow> string list" where
  "post_names a = split_on (CHR '','') (article_header a ''Newsgroups'')"

lemma post_Inr:
  "post e a s = Inr s' \<longleftrightarrow> article_header a ''Newsgroups'' \<noteq> []
     \<and> s' = foldl (post_one e (stamp_article e a)) s (post_names a)"
  by (auto simp: post_def post_names_def Let_def)

lemma post_fold_inv:
  assumes "store_wf s" "room (length ws + k) s"
  shows "store_wf (foldl (post_one e a) s ws)" "room k (foldl (post_one e a) s ws)"
  using news.add_all_inv [of s "map (\<lambda>w. (e, a, w)) ws" k] assms
  by (simp_all add: post_fold)

lemma post_fold_keeps:
  assumes "store_wf s" "room (length ws + k) s"
    "map_of (grp_articles (the_group s n)) j = Some b"
  shows "map_of (grp_articles (the_group (foldl (post_one e a) s ws) n)) j = Some b"
  using news.add_all_keeps [of s "map (\<lambda>w. (e, a, w)) ws" k n j b] assms
  by (simp add: post_fold)

lemma post_one_high:
  assumes "store_wf s" "room (Suc k) s"
  shows "grp_high (the_group s n) \<le> grp_high (the_group (post_one e a s w) n)"
proof (cases "trim_space w = []")
  case False
  note p = post_one_eq [OF assms refl False]
  show ?thesis by (simp add: the_group_update [OF p(1)])
qed (simp add: post_one_blank)

lemma post_one_adds:
  assumes "store_wf s" "room (Suc k) s" "trim_space w \<noteq> []"
  shows "map_of (grp_articles (the_group (post_one e a s w) (trim_space w)))
      (grp_high (the_group s (trim_space w)) + 1)
    = Some (a\<lparr>art_number := grp_high (the_group s (trim_space w)) + 1\<rparr>)"
  using post_one_eq(1) [OF assms(1,2) refl assms(3)] by (simp add: the_group_update)

lemma post_fold_delivers:
  assumes "store_wf s" "room (length ws + k) s" "w \<in> set ws" "trim_space w \<noteq> []"
  shows "\<exists>j. grp_high (the_group s (trim_space w)) < j
    \<and> map_of (grp_articles (the_group (foldl (post_one e a) s ws) (trim_space w))) j
      = Some (a\<lparr>art_number := j\<rparr>)"
  using assms
proof (induction ws arbitrary: s)
  case (Cons x xs)
  have c: "room (Suc (length xs + k)) s" using Cons.prems(2) by simp
  note s1 = post_one_wf [OF Cons.prems(1) c, of e a x] post_one_room [OF Cons.prems(1) c, of e a x]
  show ?case
  proof (cases "x = w")
    case True
    show ?thesis
      using post_fold_keeps [OF s1 post_one_adds [OF Cons.prems(1) c, of x e a, unfolded True,
            OF Cons.prems(4), folded True], of e a, unfolded True]
      by (intro exI [of _ "grp_high (the_group s (trim_space w)) + 1"]) (simp add: True)
  next
    case False
    with Cons.prems(3) have "w \<in> set xs" by simp
    from Cons.IH [OF s1 this Cons.prems(4)] post_one_high [OF Cons.prems(1) c, of "trim_space w" e a x]
    obtain j where "grp_high (the_group s (trim_space w)) < j"
      "map_of (grp_articles (the_group (foldl (post_one e a) (post_one e a s x) xs) (trim_space w))) j
        = Some (a\<lparr>art_number := j\<rparr>)" by (auto dest: le_less_trans)
    then show ?thesis by auto
  qed
qed simp

lemma post_wf [inv_intros]:
  assumes "store_wf s" "room (length (post_names a) + k) s" "post e a s = Inr s'"
  shows "store_wf s'" "room k s'"
  using post_fold_inv [OF assms(1,2)] assms(3) by (auto simp: post_Inr)

lemma post_keeps:
  assumes "store_wf s" "room (length (post_names a) + k) s" "post e a s = Inr s'"
    "map_of (grp_articles (the_group s n)) j = Some b"
  shows "map_of (grp_articles (the_group s' n)) j = Some b"
  using post_fold_keeps [OF assms(1,2,4)] assms(3) by (auto simp: post_Inr)

lemma post_delivers_to:
  assumes "store_wf s" "room (length (post_names a)) s" "post e a s = Inr s'"
    "w \<in> set (post_names a)" "trim_space w \<noteq> []"
  shows "\<exists>j. grp_high (the_group s (trim_space w)) < j
    \<and> map_of (grp_articles (the_group s' (trim_space w))) j = Some ((stamp_article e a)\<lparr>art_number := j\<rparr>)"
  using post_fold_delivers [of s "post_names a" 0 w e "stamp_article e a"] assms
  by (auto simp: post_Inr)

lemma post_spool: "post e a s = Inr s' \<Longrightarrow> st_spool s' = st_spool s"
proof -
  have one: "st_spool (post_one e b s w) = st_spool s" for b s w
    by (simp add: post_one_def Let_def)
  have "st_spool (foldl (post_one e b) s ws) = st_spool s" for b s ws
    by (induction ws arbitrary: s) (simp_all add: one)
  then show "post e a s = Inr s' \<Longrightarrow> ?thesis" by (auto simp: post_Inr)
qed

end
