(* ===== verification/NntpPersist.thy ===== *)
theory NntpPersist
  imports NntpStore
begin

text \<open>
  The spool directory as the server's memory: posting keeps the directory in step with the
  groups (\<open>on_disk\<close>), and \<^verbatim>\<open>loadSpool\<close> on such a directory rebuilds groups that
  agree with the ones in memory in name, water marks and articles (\<open>store_view\<close>).
\<close>

subsection \<open>What is compared\<close>

definition group_view :: "group \<Rightarrow> string \<times> int \<times> int \<times> (int \<rightharpoonup> article)" where
  "group_view g = (grp_name g, grp_low g, grp_high g, map_of (grp_articles g))"

definition store_view :: "store \<Rightarrow> string \<rightharpoonup> (string \<times> int \<times> int \<times> (int \<rightharpoonup> article))" where
  "store_view s = (\<lambda>n. map_option group_view (map_of (st_groups s) n))"

definition article_ok :: "article \<Rightarrow> bool" where
  "article_ok a \<longleftrightarrow> text_lines a \<and> art_msg_id a = article_header a ''Message-ID''"

definition group_on_disk :: "group \<Rightarrow> (string \<times> fsnode) list \<Rightarrow> bool" where
  "group_on_disk g fs \<longleftrightarrow> keys_ok fs
     \<and> (\<forall>k a. map_of (grp_articles g) k = Some a \<longrightarrow>
          article_ok a \<and> map_of fs (itoa k) = Some (FFile (article_text a)))
     \<and> (\<forall>f\<in>dom (map_of fs). \<exists>k\<in>dom (map_of (grp_articles g)). f = itoa k)"

definition on_disk :: "store \<Rightarrow> bool" where
  "on_disk s \<longleftrightarrow> (\<exists>es. node_at (st_spool s) (st_disk s) = Some (FDir es) \<and> keys_ok es
     \<and> (\<forall>n g. map_of (st_groups s) n = Some g \<longrightarrow> plain_name n
          \<and> (\<exists>fs. map_of es n = Some (FDir fs) \<and> group_on_disk g fs))
     \<and> (\<forall>n nd. map_of es n = Some nd \<longrightarrow> n \<in> dom (map_of (st_groups s))))"

subsection \<open>Loading one group\<close>

lemma map_of_sort_key: "keys_ok al \<Longrightarrow> map_of (sort_key fst al) = map_of al"
proof -
  assume k: "keys_ok al"
  then have d: "distinct (map fst (sort_key fst al))"
    by (metis distinct_map distinct_sort keys_ok_def set_sort)
  with k show ?thesis by (subst map_of_inject_set) (auto simp: keys_ok_def)
qed

lemma keys_ok_sort_key: "keys_ok al \<Longrightarrow> keys_ok (sort_key fst al)"
  by (metis distinct_map distinct_sort keys_ok_def set_sort)

lemma load_file_article:
  assumes "\<forall>p. ev_io e p" "article_ok a" "art_number a = k" "1 \<le> k" "k \<le> max_int64"
  shows "load_file e dir (g, ids) (itoa k, FFile (article_text a))
    = (add_article k a g, if art_msg_id a \<noteq> [] then AList.update (art_msg_id a) a ids else ids)"
proof -
  have "atoi (itoa k) = (k, True)" using assms(4,5) by (intro atoi_itoa) (auto simp: min_int64_def)
  moreover have "parse_article k (article_text a) = a"
    using parse_article_text [of a] assms(2,3) by (auto simp: article_ok_def)
  ultimately show ?thesis using assms(1) by (simp add: load_file_def add_article_def)
qed

text \<open>The files of a group, in any order, build up its articles.\<close>

lemma load_files:
  assumes io: "\<forall>p. ev_io e p" and wf: "group_wf n g"
    and files: "\<forall>(f, nd)\<in>set xs. \<exists>k a. f = itoa k \<and> nd = FFile (article_text a)
      \<and> map_of (grp_articles g) k = Some a \<and> article_ok a"
    and g0: "group_wf n g0"
    and ids0: "\<forall>m b. map_of ids m = Some b \<longrightarrow> Q m b" "keys_ok ids"
    and Q: "\<And>k a. map_of (grp_articles g) k = Some a \<Longrightarrow> Q (art_msg_id a) a"
  shows "\<exists>g1 ids1. foldl (load_file e dir) (g0, ids) xs = (g1, ids1) \<and> group_wf n g1
    \<and> (\<forall>k. map_of (grp_articles g1) k =
         (if itoa k \<in> fst ` set xs \<and> k \<in> dom (map_of (grp_articles g))
          then map_of (grp_articles g) k else map_of (grp_articles g0) k))
    \<and> (\<forall>m b. map_of ids1 m = Some b \<longrightarrow> Q m b) \<and> keys_ok ids1"
  using files g0 ids0
proof (induction xs arbitrary: g0 ids)
  case Nil
  then show ?case by simp
next
  case (Cons x xs)
  from Cons.prems(1) obtain k a where x: "x = (itoa k, FFile (article_text a))"
    and ka: "map_of (grp_articles g) k = Some a" and ok: "article_ok a" by (cases x) auto
  note b = group_wf_bounds [OF wf ka]
  define ids' where "ids' = (if art_msg_id a \<noteq> [] then AList.update (art_msg_id a) a ids else ids)"
  have step: "load_file e dir (g0, ids) x = (add_article k a g0, ids')"
    unfolding x ids'_def using io ok b by (intro load_file_article) auto
  have w: "group_wf n (add_article k a g0)" using Cons.prems(2) b by (intro add_article_wf) auto
  have i: "\<forall>m b. map_of ids' m = Some b \<longrightarrow> Q m b" "keys_ok ids'"
    using Cons.prems(3,4) Q [OF ka] by (auto simp: ids'_def)
  from Cons.IH [OF _ w i] Cons.prems(1) obtain g1 ids1 where IH:
    "foldl (load_file e dir) (add_article k a g0, ids') xs = (g1, ids1)" "group_wf n g1"
    "\<And>j. map_of (grp_articles g1) j =
       (if itoa j \<in> fst ` set xs \<and> j \<in> dom (map_of (grp_articles g))
        then map_of (grp_articles g) j else map_of (grp_articles (add_article k a g0)) j)"
    "\<forall>m b. map_of ids1 m = Some b \<longrightarrow> Q m b" "keys_ok ids1" by auto
  have "map_of (grp_articles g1) j =
       (if itoa j \<in> fst ` set (x # xs) \<and> j \<in> dom (map_of (grp_articles g))
        then map_of (grp_articles g) j else map_of (grp_articles g0) j)" for j
  proof (cases "j = k")
    case True
    then show ?thesis using IH(3) [of j] ka x by auto
  next
    case False
    have "itoa j \<noteq> itoa k" if j: "j \<in> dom (map_of (grp_articles g))"
    proof
      assume "itoa j = itoa k"
      moreover from j obtain c where "map_of (grp_articles g) j = Some c" by auto
      then have "1 \<le> j" "j \<le> max_int64" using group_wf_bounds [OF wf] by blast+
      ultimately have "j = k" using b by (intro itoa_inj) (auto simp: min_int64_def)
      with False show False by simp
    qed
    with False show ?thesis using IH(3) [of j] x by auto
  qed
  with IH step show ?case by auto
qed

lemma load_group:
  assumes io: "\<forall>p. ev_io e p" and wf: "group_wf n g" and d: "group_on_disk g fs"
    and ids: "\<forall>m b. map_of ids m = Some b \<longrightarrow> Q m b" "keys_ok ids"
    and Q: "\<And>k a. map_of (grp_articles g) k = Some a \<Longrightarrow> Q (art_msg_id a) a"
  shows "\<exists>g1 ids1. foldl (load_file e dir) (empty_group n, ids) (sort_key fst fs) = (g1, ids1)
    \<and> group_wf n g1 \<and> group_view g1 = group_view g
    \<and> (\<forall>m b. map_of ids1 m = Some b \<longrightarrow> Q m b) \<and> keys_ok ids1"
proof -
  from d have k: "keys_ok fs" and
    art: "\<And>k a. map_of (grp_articles g) k = Some a \<Longrightarrow>
      article_ok a \<and> map_of fs (itoa k) = Some (FFile (article_text a))" and
    nm: "\<And>f. f \<in> dom (map_of fs) \<Longrightarrow> \<exists>k\<in>dom (map_of (grp_articles g)). f = itoa k"
    by (auto simp: group_on_disk_def)
  have "\<forall>(f, nd)\<in>set (sort_key fst fs). \<exists>k a. f = itoa k \<and> nd = FFile (article_text a)
      \<and> map_of (grp_articles g) k = Some a \<and> article_ok a"
  proof clarify
    fix f nd assume "(f, nd) \<in> set (sort_key fst fs)"
    then have m: "map_of fs f = Some nd" using keys_ok_map_of [OF k] by simp
    with nm obtain j where "f = itoa j" "j \<in> dom (map_of (grp_articles g))" by blast
    then obtain b where "map_of (grp_articles g) j = Some b" by blast
    with art [OF this] m \<open>f = itoa j\<close> show "\<exists>k a. f = itoa k \<and> nd = FFile (article_text a)
      \<and> map_of (grp_articles g) k = Some a \<and> article_ok a" by auto
  qed
  note files = this
  have "\<exists>g1 ids1. foldl (load_file e dir) (empty_group n, ids) (sort_key fst fs) = (g1, ids1)
    \<and> group_wf n g1 \<and> (\<forall>k. map_of (grp_articles g1) k =
         (if itoa k \<in> fst ` set (sort_key fst fs) \<and> k \<in> dom (map_of (grp_articles g))
          then map_of (grp_articles g) k else map_of (grp_articles (empty_group n)) k))
    \<and> (\<forall>m b. map_of ids1 m = Some b \<longrightarrow> Q m b) \<and> keys_ok ids1"
    by (rule load_files [OF io wf files empty_group_wf ids]) (rule Q)
  then obtain g1 ids1 where r: "foldl (load_file e dir) (empty_group n, ids) (sort_key fst fs) = (g1, ids1)"
    "group_wf n g1" "\<And>k. map_of (grp_articles g1) k =
         (if itoa k \<in> fst ` set (sort_key fst fs) \<and> k \<in> dom (map_of (grp_articles g))
          then map_of (grp_articles g) k else map_of (grp_articles (empty_group n)) k)"
    "\<forall>m b. map_of ids1 m = Some b \<longrightarrow> Q m b" "keys_ok ids1"
    by auto
  have "itoa k \<in> fst ` set (sort_key fst fs)" if "k \<in> dom (map_of (grp_articles g))" for k
  proof -
    from that obtain a where "map_of (grp_articles g) k = Some a" by blast
    with art have "(itoa k, FFile (article_text a)) \<in> set fs" by (auto intro: map_of_in_set)
    then show ?thesis by force
  qed
  then have "map_of (grp_articles g1) k = map_of (grp_articles g) k" for k
    using r(3) [of k] by (cases "map_of (grp_articles g) k") (auto simp: empty_group_def dom_def)
  then have "map_of (grp_articles g1) = map_of (grp_articles g)" by blast
  then have "group_view g1 = group_view g"
    using group_wf_unique [OF r(2) wf] wf r(2) by (simp add: group_view_def group_wf_def)
  with r show ?thesis by blast
qed

subsection \<open>Loading the spool\<close>

text \<open>What the index by message id may hold: articles of the store, under their ids.\<close>

definition stored :: "store \<Rightarrow> string \<Rightarrow> article \<Rightarrow> bool" where
  "stored s m a \<longleftrightarrow> art_msg_id a = m \<and> (\<exists>n g. map_of (st_groups s) n = Some g
     \<and> map_of (grp_articles g) (art_number a) = Some a)"

lemma stored_article:
  "store_wf s \<Longrightarrow> map_of (st_groups s) n = Some g \<Longrightarrow> map_of (grp_articles g) k = Some a \<Longrightarrow>
     stored s (art_msg_id a) a"
  using group_wf_bounds by (fastforce simp: stored_def store_wf_def)

lemma load_dirs_groups:
  assumes io: "\<forall>p. ev_io e p" and wf: "store_wf s"
    and ds: "\<forall>(n, nd)\<in>set ds. \<exists>g fs. map_of (st_groups s) n = Some g \<and> nd = FDir fs
      \<and> group_on_disk g fs"
    and ids: "\<forall>m b. map_of (st_by_msgid t) m = Some b \<longrightarrow> stored s m b" "keys_ok (st_by_msgid t)"
    and gs: "\<forall>n g. map_of (st_groups t) n = Some g \<longrightarrow> group_wf n g" "keys_ok (st_groups t)"
  shows "\<exists>t'. load_dirs e ds t = Some t' \<and> keys_ok (st_groups t') \<and> keys_ok (st_by_msgid t')
    \<and> (\<forall>m b. map_of (st_by_msgid t') m = Some b \<longrightarrow> stored s m b)
    \<and> (\<forall>n. store_view t' n = (if n \<in> fst ` set ds then store_view s n else store_view t n))
    \<and> (\<forall>n g. map_of (st_groups t') n = Some g \<longrightarrow> group_wf n g)"
  using ds ids gs
proof (induction ds arbitrary: t)
  case Nil
  then show ?case by simp
next
  case (Cons d ds)
  from Cons.prems(1) obtain n g fs where d: "d = (n, FDir fs)"
    and g: "map_of (st_groups s) n = Some g" "group_on_disk g fs" by (cases d) auto
  have wg: "group_wf n g" using wf g(1) by (simp add: store_wf_def)
  have "\<exists>g1 ids1. foldl (load_file e (st_spool t @ [n])) (empty_group n, st_by_msgid t)
        (sort_key fst fs) = (g1, ids1)
    \<and> group_wf n g1 \<and> group_view g1 = group_view g
    \<and> (\<forall>m b. map_of ids1 m = Some b \<longrightarrow> stored s m b) \<and> keys_ok ids1"
    by (rule load_group [OF io wg g(2) Cons.prems(2,3)]) (rule stored_article [OF wf g(1)])
  then obtain g1 ids1 where r:
    "foldl (load_file e (st_spool t @ [n])) (empty_group n, st_by_msgid t) (sort_key fst fs) = (g1, ids1)"
    "group_wf n g1" "group_view g1 = group_view g"
    "\<forall>m b. map_of ids1 m = Some b \<longrightarrow> stored s m b" "keys_ok ids1" by blast
  define t1 where "t1 = t\<lparr>st_by_msgid := ids1, st_groups := AList.update n g1 (st_groups t)\<rparr>"
  have step: "load_dirs e (d # ds) t = load_dirs e ds t1"
    using io r(1) by (simp add: d t1_def Let_def)
  have v1: "store_view t1 j = (if j = n then store_view s n else store_view t j)" for j
    using g(1) r(3) by (simp add: t1_def store_view_def)
  have t1: "\<forall>m b. map_of (st_by_msgid t1) m = Some b \<longrightarrow> stored s m b" "keys_ok (st_by_msgid t1)"
    "\<forall>n g. map_of (st_groups t1) n = Some g \<longrightarrow> group_wf n g" "keys_ok (st_groups t1)"
    using Cons.prems(4,5) r(2,4,5) by (auto simp: t1_def)
  from Cons.prems(1) have "\<forall>(n, nd)\<in>set ds. \<exists>g fs. map_of (st_groups s) n = Some g \<and> nd = FDir fs
      \<and> group_on_disk g fs" by simp
  from Cons.IH [OF this t1] obtain t' where t':
    "load_dirs e ds t1 = Some t'" "keys_ok (st_groups t')" "keys_ok (st_by_msgid t')"
    "\<forall>m b. map_of (st_by_msgid t') m = Some b \<longrightarrow> stored s m b"
    "\<forall>j. store_view t' j = (if j \<in> fst ` set ds then store_view s j else store_view t1 j)"
    "\<forall>j h. map_of (st_groups t') j = Some h \<longrightarrow> group_wf j h"
    by blast
  have "\<forall>j. store_view t' j = (if j \<in> fst ` set (d # ds) then store_view s j else store_view t j)"
    using t'(5) v1 d by auto
  with t' step show ?case by auto
qed

text \<open>A restart on a directory that is in step rebuilds the groups, and a well-formed store.\<close>

lemma load_spool_view:
  assumes io: "\<forall>p. ev_io e p" and wf: "store_wf s" and disk: "on_disk s"
  shows "\<exists>s'. load_spool e \<lparr>st_spool = st_spool s, st_groups = [], st_by_msgid = [],
      st_disk = st_disk s\<rparr> = Some s' \<and> store_view s' = store_view s \<and> store_wf s'"
proof -
  from disk obtain es where es: "node_at (st_spool s) (st_disk s) = Some (FDir es)" "keys_ok es"
    "\<And>n g. map_of (st_groups s) n = Some g \<Longrightarrow> plain_name n
          \<and> (\<exists>fs. map_of es n = Some (FDir fs) \<and> group_on_disk g fs)"
    "\<And>n nd. map_of es n = Some nd \<Longrightarrow> n \<in> dom (map_of (st_groups s))"
    unfolding on_disk_def by blast
  define t where "t = \<lparr>st_spool = st_spool s, st_groups = [], st_by_msgid = [], st_disk = st_disk s\<rparr>"
  let ?ds = "sort_key fst es"
  have ds: "\<forall>(n, nd)\<in>set ?ds. \<exists>g fs. map_of (st_groups s) n = Some g \<and> nd = FDir fs
      \<and> group_on_disk g fs"
  proof clarify
    fix n nd assume "(n, nd) \<in> set ?ds"
    then have "map_of es n = Some nd" using keys_ok_map_of [OF es(2)] by simp
    moreover from es(4) [OF this] obtain g where "map_of (st_groups s) n = Some g" by blast
    ultimately show "\<exists>g fs. map_of (st_groups s) n = Some g \<and> nd = FDir fs \<and> group_on_disk g fs"
      using es(3) by fastforce
  qed
  have "\<exists>t'. load_dirs e ?ds t = Some t' \<and> keys_ok (st_groups t') \<and> keys_ok (st_by_msgid t')
    \<and> (\<forall>m b. map_of (st_by_msgid t') m = Some b \<longrightarrow> stored s m b)
    \<and> (\<forall>n. store_view t' n = (if n \<in> fst ` set ?ds then store_view s n else store_view t n))
    \<and> (\<forall>n g. map_of (st_groups t') n = Some g \<longrightarrow> group_wf n g)"
    by (rule load_dirs_groups [OF io wf ds]) (simp_all add: t_def)
  then obtain t' where t': "load_dirs e ?ds t = Some t'" "keys_ok (st_groups t')"
    "keys_ok (st_by_msgid t')" "\<And>m b. map_of (st_by_msgid t') m = Some b \<Longrightarrow> stored s m b"
    "\<And>n. store_view t' n = (if n \<in> fst ` set ?ds then store_view s n else store_view t n)"
    "\<And>n g. map_of (st_groups t') n = Some g \<Longrightarrow> group_wf n g" by blast
  have view: "store_view t' = store_view s"
  proof
    fix n
    show "store_view t' n = store_view s n"
    proof (cases "map_of (st_groups s) n")
      case None
      then show ?thesis using t'(5) [of n] by (simp add: store_view_def t_def)
    next
      case (Some g)
      then obtain fs where "map_of es n = Some (FDir fs)" using es(3) by blast
      then have "n \<in> fst ` set ?ds" using map_of_in_set by (force simp: image_iff)
      then show ?thesis using t'(5) [of n] by simp
    qed
  qed
  have "\<exists>n g. map_of (st_groups t') n = Some g \<and> map_of (grp_articles g) (art_number b) = Some b"
    if "stored s m b" for m b
  proof -
    from that obtain n g where g: "map_of (st_groups s) n = Some g"
      "map_of (grp_articles g) (art_number b) = Some b" by (auto simp: stored_def)
    with fun_cong [OF view, of n] obtain g' where "map_of (st_groups t') n = Some g'"
      "group_view g' = group_view g" by (auto simp: store_view_def)
    with g(2) have "map_of (st_groups t') n = Some g' \<and> map_of (grp_articles g') (art_number b) = Some b"
      by (simp add: group_view_def)
    then show ?thesis by blast
  qed
  then have "store_wf t'" using t' by (fastforce simp: store_wf_def stored_def)
  moreover have "load_spool e t = Some t'"
    using io es(1) t'(1) by (simp add: load_spool_def read_dir_def t_def)
  ultimately show ?thesis using view by (auto simp: t_def)
qed

subsection \<open>Posting keeps the directory in step\<close>

lemma article_text_number [simp]:
  "article_text (a\<lparr>art_number := k\<rparr>) = article_text a"
  "article_ok (a\<lparr>art_number := k\<rparr>) = article_ok a"
  by (simp_all add: article_text_def article_ok_def text_lines_def article_header_def)

lemma write_article_disk:
  assumes io: "\<forall>p. ev_io e p" and n: "plain_name n"
    and es: "node_at (st_spool s) (st_disk s) = Some (FDir es)"
    and fs: "map_of es n = None \<and> fs = [] \<or> map_of es n = Some (FDir fs)"
    and f: "\<forall>d. map_of fs (itoa (art_number a)) \<noteq> Some (FDir d)"
  shows "node_at (st_spool s) (st_disk (write_article e n a s)) = Some (FDir (AList.update n
      (FDir (AList.update (itoa (art_number a)) (FFile (article_text a)) fs))
      (AList.update n (FDir fs) es)))"
proof -
  let ?f = "itoa (art_number a)"
  have "mkdir_all [n] (FDir es) = Some (FDir (AList.update n (FDir fs) es))"
    using fs by auto
  from mkdir_all_append [OF es this] obtain d1 where d1:
    "mkdir_all (st_spool s @ [n]) (st_disk s) = Some d1"
    "node_at (st_spool s) d1 = Some (FDir (AList.update n (FDir fs) es))" by blast
  have "write_file [?f] (article_text a) (FDir fs) =
      Some (FDir (AList.update ?f (FFile (article_text a)) fs))"
  proof (cases "map_of fs ?f")
    case (Some m)
    with f obtain t where "m = FFile t" by (cases m) auto
    with Some show ?thesis by simp
  qed simp
  then have "write_file [n, ?f] (article_text a) (FDir (AList.update n (FDir fs) es)) =
      Some (FDir (AList.update n (FDir (AList.update ?f (FFile (article_text a)) fs))
        (AList.update n (FDir fs) es)))" by simp
  from write_file_append [OF d1(2) this] obtain d2 where d2:
    "write_file (st_spool s @ [n, ?f]) (article_text a) d1 = Some d2"
    "node_at (st_spool s) d2 = Some (FDir (AList.update n
      (FDir (AList.update ?f (FFile (article_text a)) fs)) (AList.update n (FDir fs) es)))" by blast
  with d1 io n itoa_plain_name show ?thesis
    by (simp add: write_article_def join_path_plain Let_def)
qed

lemma post_one_disk:
  assumes io: "\<forall>p. ev_io e p" and wf: "store_wf s" and r: "room (Suc k) s" and disk: "on_disk s"
    and a: "article_ok a" and n: "trim_space w = [] \<or> plain_name (trim_space w)"
  shows "on_disk (post_one e a s w)"
proof (cases "trim_space w = []")
  case True
  with disk show ?thesis by (simp add: post_one_blank)
next
  case False
  define n where "n = trim_space w"
  define num where "num = grp_high (the_group s n) + 1"
  define c where "c = a\<lparr>art_number := num\<rparr>"
  define g where "g = add_article num c (the_group s n)"
  have pn: "plain_name n" using assms(6) False by (simp add: n_def)
  note p = post_one_eq [OF wf r n_def [symmetric] False [folded n_def], folded num_def]
  have gs: "st_groups (post_one e a s w) = AList.update n g (st_groups s)"
    using p(1) [of e a] by (simp add: g_def c_def)
  from disk obtain es where es: "node_at (st_spool s) (st_disk s) = Some (FDir es)" "keys_ok es"
    "\<And>n g. map_of (st_groups s) n = Some g \<Longrightarrow> plain_name n
          \<and> (\<exists>fs. map_of es n = Some (FDir fs) \<and> group_on_disk g fs)"
    "\<And>n nd. map_of es n = Some nd \<Longrightarrow> n \<in> dom (map_of (st_groups s))"
    unfolding on_disk_def by blast
  obtain fs where fs: "map_of es n = None \<and> fs = [] \<or> map_of es n = Some (FDir fs)"
    "group_on_disk (the_group s n) fs"
  proof (cases "map_of (st_groups s) n")
    case None
    with es(4) [of n] have "map_of es n = None" by (cases "map_of es n") auto
    moreover from None have "group_on_disk (the_group s n) []"
      by (simp add: the_group_def empty_group_def group_on_disk_def)
    ultimately show thesis using that by blast
  next
    case (Some h)
    then have "the_group s n = h" by (simp add: the_group_def)
    with es(3) [OF Some] show thesis using that by blast
  qed
  let ?fs = "AList.update (itoa num) (FFile (article_text a)) fs"
  have nofile: "\<forall>d. map_of fs (itoa num) \<noteq> Some (FDir d)"
    using fs(2) unfolding group_on_disk_def by (metis domI domD fsnode.distinct(1) option.inject)
  have "node_at (st_spool s) (st_disk (post_one e a s w)) = Some (FDir
      (AList.update n (FDir ?fs) (AList.update n (FDir fs) es)))"
    using write_article_disk [OF io pn es(1) fs(1), of c] nofile
    by (simp add: p(6) c_def)
  moreover have "keys_ok (AList.update n (FDir ?fs) (AList.update n (FDir fs) es))"
    using es(2) by simp
  moreover have g: "group_on_disk g ?fs"
  proof -
    have "itoa j \<noteq> itoa num" if "map_of (grp_articles (the_group s n)) j = Some b" "j \<noteq> num" for j b
      using group_wf_bounds [OF the_group_wf [OF wf] that(1)] that(2) p(4,5) itoa_inj [of j num]
      by (auto simp: min_int64_def)
    then show ?thesis using fs(2) a by (auto simp: g_def c_def group_on_disk_def)
  qed
  moreover have "plain_name m \<and> (\<exists>fs'. map_of (AList.update n (FDir ?fs) (AList.update n (FDir fs) es)) m
      = Some (FDir fs') \<and> group_on_disk h fs')"
    if "map_of (st_groups (post_one e a s w)) m = Some h" for m h
    using that g pn es(3) by (auto simp: gs split: if_splits)
  moreover have "m \<in> dom (map_of (st_groups (post_one e a s w)))"
    if "map_of (AList.update n (FDir ?fs) (AList.update n (FDir fs) es)) m = Some nd" for m nd
    using that es(4) by (auto simp: gs split: if_splits)
  ultimately show ?thesis unfolding on_disk_def p(3) by blast
qed

lemma post_fold_disk:
  assumes io: "\<forall>p. ev_io e p" and a: "article_ok a"
    and "store_wf s" "room (length ws + k) s" "on_disk s"
    and "\<forall>w\<in>set ws. trim_space w = [] \<or> plain_name (trim_space w)"
  shows "on_disk (foldl (post_one e a) s ws)"
  using assms(3-)
proof (induction ws arbitrary: s)
  case (Cons w ws)
  have r: "room (Suc (length ws + k)) s" using Cons.prems(2) by simp
  have "on_disk (post_one e a s w)"
    using Cons.prems by (intro post_one_disk [OF io _ r _ a]) auto
  with Cons post_one_wf [OF Cons.prems(1) r] post_one_room [OF Cons.prems(1) r] show ?case by simp
qed simp

subsection \<open>Stamped articles\<close>

lemma digit_not_LF: "is_digit c \<Longrightarrow> c \<noteq> LF"
  by (auto simp: is_digit_def)

lemma digit_zero: "is_digit (CHR ''0'')"
  by (simp add: is_digit_def)

lemma pad0_digits: "c \<in> set (pad0 w n) \<Longrightarrow> is_digit c"
  by (auto simp: pad0_def digit_zero dest: nat_dec_digits)

lemma pad0_no_LF: "LF \<notin> set (pad0 w n)"
  using pad0_digits digit_not_LF by blast

lemma names_no_LF: "LF \<notin> set (day_name d)" "LF \<notin> set (month_name m)"
proof -
  have "day_name d \<in> set [''Sun'', ''Mon'', ''Tue'', ''Wed'', ''Thu'', ''Fri'', ''Sat'']"
    unfolding day_name_def by (rule nth_mem) simp
  then show "LF \<notin> set (day_name d)" by auto
  have "month_name m \<in> set [''Jan'', ''Feb'', ''Mar'', ''Apr'', ''May'', ''Jun'', ''Jul'', ''Aug'',
     ''Sep'', ''Oct'', ''Nov'', ''Dec'']"
    unfolding month_name_def by (rule nth_mem) simp
  then show "LF \<notin> set (month_name m)" by auto
qed

lemma date_no_LF: "LF \<notin> set (fmt_rfc1123z t)"
  by (simp add: fmt_rfc1123z_def pad0_no_LF names_no_LF)

lemma find_append:
  "find P (xs @ ys) = (case find P xs of None \<Rightarrow> find P ys | Some x \<Rightarrow> Some x)"
  by (induction xs) auto

lemma space_tail_snoc:
  "\<not> is_ascii_space c \<Longrightarrow> \<forall>e\<in>set wide_spaces. c \<noteq> last e \<Longrightarrow> space_tail (x @ [c]) = 0"
proof -
  assume c: "\<not> is_ascii_space c" "\<forall>e\<in>set wide_spaces. c \<noteq> last e"
  have "\<not> has_suffix (x @ [c]) e" if "e \<in> set wide_spaces" for e
  proof
    assume "has_suffix (x @ [c]) e"
    then obtain t where "x @ [c] = t @ e" by (auto simp: has_suffix_iff)
    moreover have "e \<noteq> []" using that wide_spaces_not_Nil by auto
    ultimately have "last e = c" by (metis last_appendR last_snoc)
    with c(2) that show False by auto
  qed
  with c(1) show ?thesis by (auto simp: space_tail_def find_Some_iff in_set_conv_nth split: option.splits)
qed

lemma trim_space_angle:
  "trim_space (CHR 0x20 # CHR ''<'' # x @ ''>'') = CHR ''<'' # x @ ''>''"
proof -
  let ?m = "CHR ''<'' # x @ ''>''"
  have sp: "is_ascii_space (CHR 0x20)" by (simp add: is_ascii_space_def)
  have h: "space_head ?m = 0" by (simp add: space_head_zero is_ascii_space_def wide_spaces_def)
  have "space_tail ((CHR ''<'' # x) @ [CHR ''>'']) = 0"
    by (rule space_tail_snoc) (auto simp: is_ascii_space_def wide_spaces_def)
  then have t: "space_tail ?m = 0" by simp
  have "trim_left_space (CHR 0x20 # ?m) = trim_left_space ?m"
    using sp by (simp add: trim_left_space.simps [of "CHR 0x20 # _"])
  also have "\<dots> = ?m" using h by (simp add: trim_left_space.simps [of ?m])
  finally show ?thesis using t by (simp add: trim_space_def trim_right_space.simps [of ?m])
qed

lemma lower_plain: "has_prefix (to_lower (''Message-ID: '' @ m)) (header_name ''Message-ID'')"
  "\<not> has_prefix (to_lower (''Date: '' @ m)) (header_name ''Message-ID'')"
  "length (header_name ''Message-ID'') = 11"
  by (simp_all add: header_name_def lower_char_def is_upper_def less_eq_char_def)

lemma stamp_article_ok:
  assumes "text_lines a" "art_msg_id a = article_header a ''Message-ID''"
    "art_msg_id a = [] \<Longrightarrow> \<forall>h\<in>set (art_headers a). \<not> has_prefix (to_lower h) (header_name ''Message-ID'')"
  shows "article_ok (stamp_article e a)"
proof -
  define m where "m = ''<'' @ itoa (ev_nano e) @ ''.'' @ itoa (ev_pid e) @ ''@nntpd>''"
  define a1 where "a1 = (if art_msg_id a = [] then a\<lparr>art_msg_id := m,
      art_headers := art_headers a @ [''Message-ID: '' @ m]\<rparr> else a)"
  have lf: "LF \<notin> set m" by (simp add: m_def itoa_no_special)
  have tl: "text_lines a1" using assms(1) lf by (auto simp: a1_def text_lines_def)
  have id: "art_msg_id a1 = article_header a1 ''Message-ID''"
  proof (cases "art_msg_id a = []")
    case True
    with assms(3) have "find (\<lambda>h. has_prefix (to_lower h) (header_name ''Message-ID'')) (art_headers a) = None"
      by (simp add: find_None_iff)
    moreover have "trim_space (drop 11 (''Message-ID: '' @ m)) = m"
      using trim_space_angle [of "itoa (ev_nano e) @ ''.'' @ itoa (ev_pid e) @ ''@nntpd''"]
      by (simp add: m_def)
    ultimately show ?thesis using True lower_plain(1) [of m] lower_plain(3)
      by (simp add: a1_def article_header_def header_in_def find_append del: to_lower.simps)
  qed (use assms(2) in \<open>simp add: a1_def\<close>)
  have s: "stamp_article e a = (if article_header a1 ''Date'' = []
      then a1\<lparr>art_headers := art_headers a1 @ [''Date: '' @ fmt_rfc1123z (ev_now e)]\<rparr> else a1)"
    by (simp add: stamp_article_def a1_def m_def Let_def)
  have d: "article_header (a1\<lparr>art_headers := art_headers a1 @ [''Date: '' @ x]\<rparr>) ''Message-ID''
      = article_header a1 ''Message-ID''" for x
    using lower_plain(2) [of x]
    by (simp add: article_header_def header_in_def find_append del: to_lower.simps split: option.splits)
  show ?thesis
    using tl id date_no_LF d by (auto simp: s article_ok_def text_lines_def)
qed

subsection \<open>A fresh server\<close>

lemma welcome_ok: "article_ok (welcome_article e)"
proof -
  have "text_lines (welcome_article e)"
    by (auto simp: text_lines_def welcome_article_def date_no_LF)
  moreover have "article_header (welcome_article e) ''Message-ID'' = ''<welcome-1@local.test>''"
  proof -
    have "trim_space '' <welcome-1@local.test>'' = ''<welcome-1@local.test>''"
      using trim_space_angle [of "''welcome-1@local.test''"] by simp
    then show ?thesis
      by (simp add: article_header_def header_in_def header_name_def welcome_article_def
          lower_char_def is_upper_def less_eq_char_def)
  qed
  ultimately show ?thesis by (simp add: article_ok_def welcome_article_def)
qed

lemma seed_store:
  assumes io: "\<forall>p. ev_io e p" and d: "node_at sp d = Some (FDir [])"
  defines "s \<equiv> seed_welcome_group e
      \<lparr>st_spool = sp, st_groups = [], st_by_msgid = [], st_disk = d\<rparr>"
  shows "store_wf s" "on_disk s" "st_spool s = sp"
    "st_groups s = [(''local.test'', \<lparr>grp_name = ''local.test'',
       grp_articles = [(1, welcome_article e)], grp_low = 1, grp_high = 1\<rparr>)]"
proof -
  define g where "g = \<lparr>grp_name = ''local.test'',
       grp_articles = [(1, welcome_article e)], grp_low = 1, grp_high = 1\<rparr>"
  have w: "art_number (welcome_article e) = 1" by (simp add: welcome_article_def)
  define s1 where "s1 = \<lparr>st_spool = sp, st_groups = [(''local.test'', g)],
      st_by_msgid = [(art_msg_id (welcome_article e), welcome_article e)], st_disk = d\<rparr>"
  have s: "s = write_article e ''local.test'' (welcome_article e) s1"
    by (simp add: s_def seed_welcome_group_def s1_def g_def empty_group_def Let_def)
  then show gs: "st_groups s = [(''local.test'', \<lparr>grp_name = ''local.test'',
       grp_articles = [(1, welcome_article e)], grp_low = 1, grp_high = 1\<rparr>)]"
    and sp: "st_spool s = sp" by (simp_all add: s1_def g_def)
  have "st_by_msgid s = [(art_msg_id (welcome_article e), welcome_article e)]"
    by (simp add: s s1_def)
  with gs w show "store_wf s"
    by (auto simp: store_wf_def group_wf_def keys_ok_def max_int64_def)
  have pn: "plain_name ''local.test''" by (simp add: plain_name_def)
  have "node_at (st_spool s1) (st_disk s1) = Some (FDir [])" using d by (simp add: s1_def)
  from write_article_disk [OF io pn this, of "[]" "welcome_article e"]
  have dk: "node_at sp (st_disk s) = Some (FDir [(''local.test'',
      FDir [(itoa 1, FFile (article_text (welcome_article e)))])])"
    by (simp add: s w s1_def)
  show "on_disk s"
    unfolding on_disk_def sp
    by (intro exI [of _ "[(''local.test'', FDir [(itoa 1, FFile (article_text (welcome_article e)))])]"])
      (auto simp: dk gs pn keys_ok_def group_on_disk_def welcome_ok split: if_splits)
qed

text \<open>
  A server started on a spool directory that is missing or empty comes up with the welcome group
  only, with a well-formed store and a directory that is in step with it.
\<close>

theorem fresh_server_ok:
  assumes "\<forall>p. ev_io e p" "mkdir_all sp disk = Some d" "node_at sp d = Some (FDir [])"
  shows "\<exists>s. new_store e sp disk = Some s \<and> store_wf s \<and> on_disk s
    \<and> map fst (st_groups s) = [''local.test'']"
proof -
  have "load_spool e \<lparr>st_spool = sp, st_groups = [], st_by_msgid = [], st_disk = d\<rparr>
      = Some \<lparr>st_spool = sp, st_groups = [], st_by_msgid = [], st_disk = d\<rparr>"
    using assms by (simp add: load_spool_def read_dir_def)
  then have "new_store e sp disk = Some (seed_welcome_group e
      \<lparr>st_spool = sp, st_groups = [], st_by_msgid = [], st_disk = d\<rparr>)"
    using assms(1,2) by (simp add: new_store_def)
  with seed_store [OF assms(1,3)] show ?thesis by simp
qed

definition sample_time :: gotime where
  "sample_time = \<lparr>tm_year = 2024, tm_month = 3, tm_day = 9, tm_hour = 7, tm_min = 5, tm_sec = 0,
     tm_wday = 6, tm_off = 60\<rparr>"

definition sample_env :: env where
  "sample_env = \<lparr>ev_now = sample_time, ev_utc = sample_time, ev_nano = 12, ev_pid = 3,
     ev_io = (\<lambda>_. True)\<rparr>"

theorem fresh_server_ok_witness:
  "\<exists>s. new_store sample_env [''var'', ''spool''] (FDir []) = Some s \<and> store_wf s \<and> on_disk s
    \<and> map fst (st_groups s) = [''local.test'']"
  by (rule fresh_server_ok [of _ _ _ "FDir [(''var'', FDir [(''spool'', FDir [])])]"])
    (simp_all add: sample_env_def)


definition sample_article :: article where
  "sample_article = \<lparr>art_number = 0, art_msg_id = [],
     art_headers = [''Newsgroups: a.b'', ''Subject: x''], art_body = [''.'', '''', ''hi'']\<rparr>"

definition sample_store :: store where
  "sample_store = \<lparr>st_spool = [''spool''], st_groups = [], st_by_msgid = [],
     st_disk = FDir [(''spool'', FDir [])]\<rparr>"

lemma sample_names: "post_names sample_article = [''a.b'']"
  by code_simp

lemma sample_store_ok: "store_wf sample_store" "on_disk sample_store" "room 9 sample_store"
  by (simp_all add: sample_store_def store_wf_def on_disk_def room_def max_int64_def)

lemma sample_article_ok: "text_lines sample_article"
  "art_msg_id sample_article = article_header sample_article ''Message-ID''"
  "\<forall>h\<in>set (art_headers sample_article). \<not> has_prefix (to_lower h) (header_name ''Message-ID'')"
  by code_simp+


text \<open>
  A post goes to every group it names: within range, each name in its Newsgroups header that is
  not blank gets the article, stamped, under a number above all numbers of that group so far; every
  article that was in the store is still there unchanged, and the store stays well-formed.
\<close>

theorem post_delivers:
  assumes "store_wf s" "room (length (post_names a)) s" "post e a s = Inr s'"
  shows "store_wf s'
    \<and> (\<forall>w\<in>set (post_names a). trim_space w \<noteq> [] \<longrightarrow>
      (\<exists>j. grp_high (the_group s (trim_space w)) < j
        \<and> map_of (grp_articles (the_group s' (trim_space w))) j
          = Some ((stamp_article e a)\<lparr>art_number := j\<rparr>)))
    \<and> (\<forall>n. map_of (grp_articles (the_group s n)) \<subseteq>\<^sub>m map_of (grp_articles (the_group s' n)))"
proof (intro conjI)
  show "store_wf s'" using post_wf [OF assms(1) _ assms(3), of 0] assms(2) by simp
  show "\<forall>w\<in>set (post_names a). trim_space w \<noteq> [] \<longrightarrow>
      (\<exists>j. grp_high (the_group s (trim_space w)) < j
        \<and> map_of (grp_articles (the_group s' (trim_space w))) j
          = Some ((stamp_article e a)\<lparr>art_number := j\<rparr>))"
    using post_delivers_to [OF assms] by blast
  show "\<forall>n. map_of (grp_articles (the_group s n)) \<subseteq>\<^sub>m map_of (grp_articles (the_group s' n))"
    using post_keeps [OF assms(1) _ assms(3), of 0] assms(2) by (auto simp: map_le_def dom_def)
qed

theorem post_delivers_witness:
  "\<exists>s'. post sample_env sample_article sample_store = Inr s' \<and> store_wf s'
     \<and> (\<exists>j>0. map_of (grp_articles (the_group s' ''a.b'')) j
          = Some ((stamp_article sample_env sample_article)\<lparr>art_number := j\<rparr>))"
proof -
  have nb: "article_header sample_article ''Newsgroups'' \<noteq> []" by code_simp
  obtain s' where s': "post sample_env sample_article sample_store = Inr s'"
    using nb by (auto simp: post_def Let_def)
  have r: "room (length (post_names sample_article)) sample_store"
    by (simp add: sample_names sample_store_def room_def max_int64_def)
  have t: "trim_space ''a.b'' = ''a.b''" by code_simp
  have h: "grp_high (the_group sample_store ''a.b'') = 0"
    by (simp add: the_group_def sample_store_def empty_group_def)
  from post_delivers [OF sample_store_ok(1) r s'] s' show ?thesis
    unfolding sample_names by (simp add: t h)
qed

definition empty_id_article :: article where
  "empty_id_article = \<lparr>art_number = 0, art_msg_id = [],
     art_headers = [''Newsgroups: a.b'', ''Message-ID:''], art_body = []\<rparr>"

definition msg_ids :: "store \<Rightarrow> (string \<times> string list) list" where
  "msg_ids s = map (\<lambda>(n, g). (n, map (art_msg_id \<circ> snd) (grp_articles g))) (st_groups s)"

definition ids_after_restart :: "env \<Rightarrow> store \<Rightarrow> (string \<times> string list) list option" where
  "ids_after_restart e s = map_option msg_ids (load_spool e
     \<lparr>st_spool = st_spool s, st_groups = [], st_by_msgid = [], st_disk = st_disk s\<rparr>)"

text \<open>
  The exception to the last two: an article posted with a Message-ID header that is empty
  is given a fresh id, but the header added for it comes after the empty one, so that a restart
  reads the empty value back and the article is no longer found by its id.
\<close>

theorem empty_msgid_lost_on_restart:
  "map_sum id (\<lambda>s. (msg_ids s, ids_after_restart sample_env s))
      (post sample_env empty_id_article sample_store)
    = Inr ([(''a.b'', [''<12.3@nntpd>''])], Some [(''a.b'', [''''])])"
  by code_simp

end
