(* ===== verification/NntpServer.thy ===== *)
theory NntpServer
  imports NntpPersist
begin

text \<open>
  The sessions of the news server (\<^verbatim>\<open>ops/pkgs/nntpd/nntpd.go\<close>): one definition per
  command, \<open>serve\<close> for the switch in \<^verbatim>\<open>handleConn\<close>, \<open>handle_loop\<close> for its
  loop over the incoming bytes, and \<open>net_step\<close> for many connections on one store. Commands
  return the session and the bytes written; the group pointer \<^verbatim>\<open>curGroup\<close> is the name of
  the group, since groups are never removed nor replaced. The nil and index panics of the code are
  results of their own. A command runs as one step: the store's lock is taken for each access, and
  what a command reads is only added to meanwhile.
\<close>

subsection \<open>Sessions and commands\<close>

record session =
  se_group :: "string option"
  se_art :: int

definition init_session :: session where
  "init_session = \<lparr>se_group = None, se_art = 0\<rparr>"

definition line :: "string \<Rightarrow> string" where
  "line s = s @ CRLF"

definition cmd_list :: "store \<Rightarrow> string list \<Rightarrow> string" where
  "cmd_list s args =
     (let sub = (case args of [] \<Rightarrow> ''ACTIVE'' | a # _ \<Rightarrow> to_upper a);
          names = sort (map fst (st_groups s))
      in if sub = ''NEWSGROUPS''
         then line ''215 List of newsgroups follows''
              @ write_dot_block (map (\<lambda>n. n @ '' -'') names)
         else line ''215 List of newsgroups follows''
              @ write_dot_block (map (\<lambda>n. n @ '' '' @ itoa (grp_high (the_group s n)) @ '' ''
                   @ itoa (grp_low (the_group s n)) @ '' y'') names))"

definition group_line :: "group \<Rightarrow> string" where
  "group_line g = line (''211 '' @ itoa (group_count g) @ '' '' @ itoa (grp_low g) @ '' ''
     @ itoa (grp_high g) @ '' '' @ grp_name g)"

definition cmd_group :: "store \<Rightarrow> session \<Rightarrow> string list \<Rightarrow> session \<times> string" where
  "cmd_group s se args =
     (if length args \<noteq> 1 then (se, line ''501 GROUP requires a newsgroup name'')
      else (case map_of (st_groups s) (hd args) of
              None \<Rightarrow> (se, line ''411 No such newsgroup'')
            | Some g \<Rightarrow>
                (\<lparr>se_group = Some (hd args),
                  se_art = (if group_count g > 0 then hd (sorted_numbers g) else 0)\<rparr>,
                 group_line g)))"

definition list_group_reply :: "session \<Rightarrow> string \<Rightarrow> group \<Rightarrow> session \<times> string" where
  "list_group_reply se n g =
     (let nums = sorted_numbers g
      in (\<lparr>se_group = Some n, se_art = (if nums \<noteq> [] then hd nums else se_art se)\<rparr>,
          group_line g @ write_dot_block (map itoa nums)))"

definition cmd_list_group :: "store \<Rightarrow> session \<Rightarrow> string list \<Rightarrow> session \<times> string" where
  "cmd_list_group s se args =
     (if length args = 1
      then (case map_of (st_groups s) (hd args) of
              None \<Rightarrow> (se, line ''411 No such newsgroup'')
            | Some g \<Rightarrow> list_group_reply se (hd args) g)
      else (case se_group se of
              None \<Rightarrow> (se, line ''412 No newsgroup selected'')
            | Some n \<Rightarrow> list_group_reply se n (the_group s n)))"

definition resolve_article ::
  "store \<Rightarrow> session \<Rightarrow> string \<Rightarrow> session \<times> (string + article)" where
  "resolve_article s se arg =
     (if has_prefix arg ''<''
      then (case map_of (st_by_msgid s) arg of
              None \<Rightarrow> (se, Inl ''430'') | Some a \<Rightarrow> (se, Inr a))
      else (case se_group se of
              None \<Rightarrow> (se, Inl ''412'')
            | Some n \<Rightarrow>
                if arg \<noteq> [] \<and> \<not> snd (atoi arg) then (se, Inl ''501'')
                else (let num = (if arg \<noteq> [] then fst (atoi arg) else se_art se)
                      in (case map_of (grp_articles (the_group s n)) num of
                            None \<Rightarrow> (se, Inl ''423'')
                          | Some a \<Rightarrow> (se\<lparr>se_art := num\<rparr>, Inr a)))))"

definition status_line :: "string \<Rightarrow> article \<Rightarrow> string" where
  "status_line code a = line (code @ '' '' @ itoa (art_number a) @ '' '' @ art_msg_id a)"

definition cmd_article :: "store \<Rightarrow> session \<Rightarrow> string \<Rightarrow> string list \<Rightarrow> session \<times> string" where
  "cmd_article s se cmd args =
     (case resolve_article s se (case args of [] \<Rightarrow> [] | a # _ \<Rightarrow> a) of
        (se', Inl err) \<Rightarrow>
          (se', if err = ''430'' then line ''430 No such article''
                else if err = ''412'' then line ''412 No newsgroup selected''
                else if err = ''423'' then line ''423 No such article number in this group''
                else line ''501 Syntax error'')
      | (se', Inr a) \<Rightarrow>
          (se', if cmd = ''STAT'' then status_line ''223'' a
                else if cmd = ''HEAD'' then status_line ''221'' a @ write_dot_block (art_headers a)
                else if cmd = ''BODY'' then status_line ''222'' a @ write_dot_block (art_body a)
                else if cmd = ''ARTICLE'' then status_line ''220'' a
                       @ write_dot_block (art_headers a @ [] # art_body a)
                else []))"

text \<open>The position of the current number in the sorted numbers, -1 if it is not there.\<close>

fun pos_of :: "int \<Rightarrow> int list \<Rightarrow> int" where
  "pos_of c [] = -1"
| "pos_of c (n # ns) = (if n = c then 0
     else (let i = pos_of c ns in if i < 0 then -1 else i + 1))"

text \<open>NEXT and LAST; None is the nil dereference if the article were missing.\<close>

definition cmd_next_last :: "store \<Rightarrow> session \<Rightarrow> int \<Rightarrow> (session \<times> string) option" where
  "cmd_next_last s se dir =
     (case se_group se of
        None \<Rightarrow> Some (se, line ''412 No newsgroup selected'')
      | Some n \<Rightarrow>
          (let g = the_group s n; nums = sorted_numbers g;
               idx = pos_of (se_art se) nums + dir
           in if idx < 0 \<or> idx \<ge> int (length nums)
              then Some (se, if dir > 0 then line ''421 No next article in this group''
                             else line ''422 No previous article in this group'')
              else (case map_of (grp_articles g) (nums ! nat idx) of
                      None \<Rightarrow> None
                    | Some a \<Rightarrow> Some (se\<lparr>se_art := nums ! nat idx\<rparr>, status_line ''223'' a))))"

text \<open>The range argument of XOVER: a part that is no number leaves the group's water mark.\<close>

definition over_range :: "group \<Rightarrow> string list \<Rightarrow> int \<times> int" where
  "over_range g args =
     (if length args = 1
      then (let rng = hd args in
            case index_of rng ''-'' of
              Some i \<Rightarrow>
                (let lo = atoi (take i rng); hi = atoi (drop (i + 1) rng)
                 in (if snd lo then fst lo else grp_low g,
                     if drop (i + 1) rng \<noteq> [] \<and> snd hi then fst hi else grp_high g))
            | None \<Rightarrow> (if snd (atoi rng) then (fst (atoi rng), fst (atoi rng))
                       else (grp_low g, grp_high g)))
      else (grp_low g, grp_high g))"

definition lines_size :: "string list \<Rightarrow> int" where
  "lines_size ls = int (sum_list (map (\<lambda>l. length l + 2) ls))"

definition over_line :: "int \<Rightarrow> article \<Rightarrow> string" where
  "over_line n a = join_with [TAB]
     [itoa n, article_header a ''Subject'', article_header a ''From'', article_header a ''Date'',
      art_msg_id a, article_header a ''References'',
      itoa (lines_size (art_headers a) + lines_size (art_body a)), itoa (int (length (art_body a)))]"

fun over_lines :: "group \<Rightarrow> int \<Rightarrow> int \<Rightarrow> int list \<Rightarrow> string list option" where
  "over_lines g lo hi [] = Some []"
| "over_lines g lo hi (n # ns) =
     (if n < lo \<or> n > hi then over_lines g lo hi ns
      else (case map_of (grp_articles g) n of
              None \<Rightarrow> None
            | Some a \<Rightarrow> map_option (\<lambda>ls. over_line n a # ls) (over_lines g lo hi ns)))"

definition cmd_over :: "store \<Rightarrow> session \<Rightarrow> string list \<Rightarrow> string option" where
  "cmd_over s se args =
     (case se_group se of
        None \<Rightarrow> Some (line ''412 No newsgroup selected'')
      | Some n \<Rightarrow>
          (let g = the_group s n
           in (case over_range g args of (lo, hi) \<Rightarrow>
                 map_option (\<lambda>ls. line ''224 Overview information follows'' @ write_dot_block ls)
                   (over_lines g lo hi (sorted_numbers g)))))"

text \<open>POST reads the article from the connection; on an unfinished block nothing is answered and
  the input is used up.\<close>

definition article_of_lines :: "string list \<Rightarrow> article" where
  "article_of_lines ls =
     (case split_headers ls of (hs, bs) \<Rightarrow>
        \<lparr>art_number = 0, art_msg_id = header_in hs ''Message-ID'', art_headers = hs, art_body = bs\<rparr>)"

definition cmd_post :: "env \<Rightarrow> store \<Rightarrow> string \<Rightarrow> store \<times> string \<times> string" where
  "cmd_post e s inp =
     (case read_dot_block inp of
        None \<Rightarrow> (s, line ''340 Send article to be posted'', [])
      | Some (lines, rest) \<Rightarrow>
          (case post e (article_of_lines lines) s of
             Inl err \<Rightarrow> (s, line ''340 Send article to be posted'' @ line (''441 Posting failed: '' @ err), rest)
           | Inr s' \<Rightarrow> (s', line ''340 Send article to be posted'' @ line ''240 Article posted'', rest)))"

subsection \<open>One command line\<close>

datatype after = Go_on | Hang_up | Crash

definition serve ::
  "env \<Rightarrow> store \<Rightarrow> session \<Rightarrow> string \<Rightarrow> string \<Rightarrow> store \<times> session \<times> string \<times> string \<times> after" where
  "serve e s se l inp =
     (case str_fields l of
        [] \<Rightarrow> (s, se, [], inp, Crash)
      | w # args \<Rightarrow>
          (let cmd = to_upper w in
           if cmd = ''CAPABILITIES'' then
             (s, se, line ''101 Capability list follows'' @ write_dot_block
                [''VERSION 2'', ''READER'', ''POST'', ''OVER'', ''LIST ACTIVE NEWSGROUPS''], inp, Go_on)
           else if cmd = ''MODE'' then (s, se, line ''200 Posting allowed'', inp, Go_on)
           else if cmd = ''LIST'' then (s, se, cmd_list s args, inp, Go_on)
           else if cmd = ''GROUP'' then
             (case cmd_group s se args of (se', out) \<Rightarrow> (s, se', out, inp, Go_on))
           else if cmd = ''LISTGROUP'' then
             (case cmd_list_group s se args of (se', out) \<Rightarrow> (s, se', out, inp, Go_on))
           else if cmd \<in> {''STAT'', ''HEAD'', ''BODY'', ''ARTICLE''} then
             (case cmd_article s se cmd args of (se', out) \<Rightarrow> (s, se', out, inp, Go_on))
           else if cmd = ''NEXT'' then
             (case cmd_next_last s se 1 of None \<Rightarrow> (s, se, [], inp, Crash)
              | Some (se', out) \<Rightarrow> (s, se', out, inp, Go_on))
           else if cmd = ''LAST'' then
             (case cmd_next_last s se (-1) of None \<Rightarrow> (s, se, [], inp, Crash)
              | Some (se', out) \<Rightarrow> (s, se', out, inp, Go_on))
           else if cmd \<in> {''XOVER'', ''OVER''} then
             (case cmd_over s se args of None \<Rightarrow> (s, se, [], inp, Crash)
              | Some out \<Rightarrow> (s, se, out, inp, Go_on))
           else if cmd = ''POST'' then
             (case cmd_post e s inp of (s', out, rest) \<Rightarrow> (s', se, out, rest, Go_on))
           else if cmd = ''DATE'' then (s, se, line (''111 '' @ fmt_compact (ev_utc e)), inp, Go_on)
           else if cmd = ''HELP'' then
             (s, se, line ''100 Help text follows'' @ write_dot_block
                [''CAPABILITIES, MODE READER, LIST, GROUP, LISTGROUP,'',
                 ''STAT, HEAD, BODY, ARTICLE, NEXT, LAST, XOVER, POST, DATE, QUIT''], inp, Go_on)
           else if cmd = ''QUIT'' then (s, se, line ''205 Bye'', inp, Hang_up)
           else (s, se, line ''500 Command not recognized'', inp, Go_on)))"

subsection \<open>A whole connection\<close>

text \<open>How a connection ends: its input ends, the client says QUIT, or the goroutine panics, which
  takes the whole server down.\<close>

datatype conn_end = Input_end | Said_quit | Panicked

lemma cmd_post_rest: "cmd_post e s inp = (s', out, rest) \<Longrightarrow> length rest \<le> length inp"
  by (auto simp: cmd_post_def read_dot_block_def split: option.splits sum.splits dest!: read_dot_length)

lemma serve_rest: "serve e s se l inp = (s', se', out, rest, c) \<Longrightarrow> length rest \<le> length inp"
  by (auto simp: serve_def Let_def dest!: cmd_post_rest split: list.splits if_splits option.splits prod.splits)

function handle_loop ::
  "(nat \<Rightarrow> env) \<Rightarrow> nat \<Rightarrow> store \<Rightarrow> session \<Rightarrow> string \<Rightarrow> store \<times> string \<times> conn_end" where
  "handle_loop env k s se inp =
     (case read_string inp of
        None \<Rightarrow> (s, [], Input_end)
      | Some (raw, rest) \<Rightarrow>
          (let l = trim_eol raw in
           if l = [] then handle_loop env (Suc k) s se rest
           else (case serve (env k) s se l rest of
                   (s', se', out, rest', Go_on) \<Rightarrow>
                     (case handle_loop env (Suc k) s' se' rest' of (s2, out2, how) \<Rightarrow> (s2, out @ out2, how))
                 | (s', se', out, rest', Hang_up) \<Rightarrow> (s', out, Said_quit)
                 | (s', se', out, rest', Crash) \<Rightarrow> (s', out, Panicked))))"
  by pat_completeness auto
termination
  by (relation "measure (\<lambda>(env, k, s, se, inp). length inp)")
    (fastforce dest: read_string_length serve_rest [OF sym])+

declare handle_loop.simps [simp del]

definition handle_conn ::
  "(nat \<Rightarrow> env) \<Rightarrow> string \<Rightarrow> store \<Rightarrow> string \<Rightarrow> store \<times> string \<times> conn_end" where
  "handle_conn env hostname s inp =
     (case handle_loop env 0 s init_session inp of
        (s', out, how) \<Rightarrow>
          (s', line (''200 '' @ hostname @ '' NNTP Service Ready, posting allowed'') @ out, how))"

subsection \<open>Numbers of a group\<close>

lemma set_sorted_numbers: "set (sorted_numbers g) = dom (map_of (grp_articles g))"
  by (simp add: sorted_numbers_def dom_map_of_conv_image_fst)

lemma sorted_numbers_props:
  "group_wf n g \<Longrightarrow> sorted (sorted_numbers g) \<and> distinct (sorted_numbers g)
     \<and> length (sorted_numbers g) = length (grp_articles g)"
  by (simp add: sorted_numbers_def group_wf_def keys_ok_def)

lemma number_article:
  "m \<in> set (sorted_numbers g) \<Longrightarrow> \<exists>a. map_of (grp_articles g) m = Some a"
  by (auto simp: set_sorted_numbers)

lemma pos_of_absent: "c \<notin> set ns \<Longrightarrow> pos_of c ns = -1"
  by (induction ns) (auto simp: Let_def)

lemma pos_of_nth: "distinct ns \<Longrightarrow> i < length ns \<Longrightarrow> pos_of (ns ! i) ns = int i"
proof (induction ns arbitrary: i)
  case (Cons n ns)
  then show ?case by (cases i) (auto simp: Let_def)
qed simp

lemma pos_of_range: "-1 \<le> pos_of c ns \<and> pos_of c ns < int (length ns)"
  by (induction ns) (auto simp: Let_def)

lemma next_last_total: "cmd_next_last s se dir \<noteq> None"
proof (cases "se_group se")
  case (Some n)
  let ?g = "the_group s n" and ?i = "pos_of (se_art se) (sorted_numbers (the_group s n)) + dir"
  show ?thesis
  proof (cases "?i < 0 \<or> ?i \<ge> int (length (sorted_numbers ?g))")
    case False
    then have "sorted_numbers ?g ! nat ?i \<in> set (sorted_numbers ?g)" by (intro nth_mem) linarith
    then obtain a where "map_of (grp_articles ?g) (sorted_numbers ?g ! nat ?i) = Some a"
      using number_article by blast
    with False Some show ?thesis by (simp add: cmd_next_last_def Let_def)
  qed (simp add: cmd_next_last_def Let_def Some)
qed (simp add: cmd_next_last_def)

text \<open>The article under a number, for numbers that are there.\<close>

definition art_at :: "group \<Rightarrow> int \<Rightarrow> article" where
  "art_at g n = the (map_of (grp_articles g) n)"

lemma over_lines_eq:
  "set ns \<subseteq> dom (map_of (grp_articles g)) \<Longrightarrow>
     over_lines g lo hi ns = Some (map (\<lambda>n. over_line n (art_at g n)) (filter (\<lambda>n. lo \<le> n \<and> n \<le> hi) ns))"
  by (induction ns) (auto simp: art_at_def)

lemma cmd_over_eq:
  "se_group se = Some n \<Longrightarrow> cmd_over s se args = Some (line ''224 Overview information follows''
     @ write_dot_block (map (\<lambda>k. over_line k (art_at (the_group s n) k))
         (filter (\<lambda>k. fst (over_range (the_group s n) args) \<le> k \<and> k \<le> snd (over_range (the_group s n) args))
           (sorted_numbers (the_group s n)))))"
  by (simp add: cmd_over_def Let_def split_beta over_lines_eq set_sorted_numbers)

lemma over_total: "cmd_over s se args \<noteq> None"
proof (cases "se_group se")
  case (Some n)
  then show ?thesis using cmd_over_eq [OF Some] by simp
qed (simp add: cmd_over_def)

subsection \<open>The only panic\<close>

lemma serve_crash_iff: "snd (snd (snd (snd (serve e s se l inp)))) = Crash \<longleftrightarrow> str_fields l = []"
  by (cases "str_fields l")
    (auto simp: serve_def Let_def split_beta next_last_total over_total split: option.splits)

subsection \<open>A connection keeps the invariant\<close>

lemma length_split_on: "length (split_on c w) \<le> Suc (length w)"
  by (induction w) (auto split: list.splits)

lemma length_trim_eol: "length (trim_eol l) \<le> length l"
  using length_dropWhile_le [of _ "rev l"] by (simp add: trim_eol_def)

lemma length_trim_space: "length (trim_space s) \<le> length s"
proof -
  obtain p q where "s = p @ trim_space s @ q" using trim_space_infix by blast
  then have "length s = length p + length (trim_space s) + length q" by (metis add.assoc length_append)
  then show ?thesis by simp
qed

lemma read_dot_from_size:
  "read_dot_from acc s = Some (ls, r) \<Longrightarrow>
     sum_list (map length ls) + length r \<le> sum_list (map length acc) + length s"
proof (induction "length s" arbitrary: acc s rule: less_induct)
  case less
  from less.prems show ?case
  proof (cases rule: read_dot_from_Some)
    case stop
    then show ?thesis by (auto dest: read_string_length)
  next
    case (more raw rest)
    let ?l = "if has_prefix (trim_eol raw) ''..'' then tl (trim_eol raw) else trim_eol raw"
    from read_string_Some [OF more(1)] have "s = raw @ rest" by blast
    moreover have "length ?l \<le> length raw" using length_trim_eol [of raw] by auto
    ultimately show ?thesis using less.hyps [OF read_string_length [OF more(1)] more(2)] by simp
  qed
qed

lemma elem_length_le: "x \<in> set xs \<Longrightarrow> length x \<le> sum_list (map length xs)"
  by (induction xs) auto

lemma newsgroups_length:
  assumes "header_in hs ''Newsgroups'' \<noteq> []"
  shows "Suc (length (header_in hs ''Newsgroups'')) \<le> sum_list (map length hs)"
proof -
  have n: "length (header_name ''Newsgroups'') = 11"
    by (simp add: header_name_def)
  from assms obtain h where h: "find (\<lambda>h. has_prefix (to_lower h) (header_name ''Newsgroups'')) hs = Some h"
    "header_in hs ''Newsgroups'' = trim_space (drop 11 h)"
    by (auto simp: header_in_def n split: option.splits)
  then have "h \<in> set hs" by (auto simp: find_Some_iff)
  moreover have "length (header_in hs ''Newsgroups'') \<le> length h - 11"
    using h(2) length_trim_space [of "drop 11 h"] by simp
  moreover have "0 < length (header_in hs ''Newsgroups'')" using assms by simp
  ultimately show ?thesis using elem_length_le [of h hs] by linarith
qed

lemma split_headers_size:
  "split_headers ls = (hs, bs) \<Longrightarrow> sum_list (map length hs) \<le> sum_list (map length ls)"
  by (induction ls arbitrary: hs bs) (fastforce split: prod.splits if_splits)+

lemma room_mono: "room k s \<Longrightarrow> j \<le> k \<Longrightarrow> room j s"
  unfolding room_def by (meson add_left_mono of_nat_mono order_trans)

text \<open>A post uses no more numbers than it has bytes, so that room for the bytes it takes is room
  enough.\<close>

lemma cmd_post_effect:
  assumes c: "cmd_post e s inp = (s', out, rest)"
  shows "s' = s \<or> (\<exists>a. post e a s = Inr s' \<and> length (post_names a) + length rest \<le> length inp)"
proof (cases "read_dot_block inp")
  case None
  with c show ?thesis by (auto simp: cmd_post_def)
next
  case (Some p)
  obtain ls r' where p: "p = (ls, r')" by (cases p)
  from Some p have size: "sum_list (map length ls) + length r' \<le> length inp"
    using read_dot_from_size [of "[]" inp ls r'] by (simp add: read_dot_block_def)
  show ?thesis
  proof (cases "post e (article_of_lines ls) s")
    case (Inl err)
    with Some p c show ?thesis by (auto simp: cmd_post_def)
  next
    case (Inr s2)
    with Some p c have s2: "s' = s2" "rest = r'" by (auto simp: cmd_post_def)
    obtain hs bs where hb: "split_headers ls = (hs, bs)" by (cases "split_headers ls")
    let ?w = "header_in hs ''Newsgroups''"
    have hw: "article_header (article_of_lines ls) ''Newsgroups'' = ?w"
      by (simp add: article_of_lines_def hb article_header_def)
    with Inr have "?w \<noteq> []" by (simp add: post_Inr)
    then have "Suc (length ?w) \<le> sum_list (map length ls)"
      using newsgroups_length split_headers_size [OF hb] le_trans by blast
    then have "length (post_names (article_of_lines ls)) + length r' \<le> length inp"
      using size length_split_on [of "CHR '',''" ?w] by (simp add: post_names_def hw)
    with Inr s2 show ?thesis by blast
  qed
qed

lemma serve_effect:
  assumes "serve e s se l inp = (s', se', out, rest, c)"
  shows "s' = s \<or> (\<exists>a. post e a s = Inr s' \<and> length (post_names a) + length rest \<le> length inp)"
proof (cases "s' = s")
  case False
  with assms have "\<exists>o2. cmd_post e s inp = (s', o2, rest)"
    by (auto simp: serve_def Let_def split: list.splits if_splits option.splits prod.splits)
  with cmd_post_effect show ?thesis by blast
qed simp

lemma serve_wf [inv_intros]:
  assumes "store_wf s" "room (length inp - length rest + k) s"
    "serve e s se l inp = (s', se', out, rest, c)"
  shows "store_wf s' \<and> room k s'"
  using serve_effect [OF assms(3)]
proof
  assume "s' = s"
  with assms(1) room_mono [OF assms(2)] show ?thesis by simp
next
  assume "\<exists>a. post e a s = Inr s' \<and> length (post_names a) + length rest \<le> length inp"
  then obtain a where a: "post e a s = Inr s'" "length (post_names a) + length rest \<le> length inp"
    by blast
  have "room (length (post_names a) + k) s" using assms(2) by (rule room_mono) (use a(2) in linarith)
  from post_wf [OF assms(1) this a(1)] show ?thesis by simp
qed

lemma handle_loop_wf:
  "store_wf s \<Longrightarrow> room (length inp) s \<Longrightarrow> store_wf (fst (handle_loop env k s se inp))"
proof (induction "length inp" arbitrary: k s se inp rule: less_induct)
  case less
  show ?case
  proof (cases "read_string inp")
    case None
    with less.prems show ?thesis by (simp add: handle_loop.simps [of env k])
  next
    case (Some p)
    then obtain raw rest where rd: "read_string inp = Some (raw, rest)" by (cases p) auto
    note len = read_string_length [OF rd]
    have rm: "room (length rest) s" using less.prems(2) by (rule room_mono) (use len in simp)
    show ?thesis
    proof (cases "trim_eol raw = []")
      case True
      with less.hyps [OF len less.prems(1) rm] rd show ?thesis by (simp add: handle_loop.simps [of env k])
    next
      case False
      obtain s' se' out rest' c where sv: "serve (env k) s se (trim_eol raw) rest = (s', se', out, rest', c)"
        by (metis prod_cases5)
      have "room (length rest - length rest' + length rest') s"
        using rm by (rule room_mono) (use serve_rest [OF sv] in simp)
      note w = serve_wf [OF less.prems(1) this sv]
      have "length rest' < length inp" using serve_rest [OF sv] len by simp
      from less.hyps [OF this] w have ih: "store_wf (fst (handle_loop env (Suc k) s' se' rest'))" by blast
      show ?thesis
        using rd False sv w ih
        by (subst handle_loop.simps) (simp add: Let_def split_beta split: after.split)
    qed
  qed
qed

subsection \<open>Stores only grow\<close>

definition grows :: "store \<Rightarrow> store \<Rightarrow> bool" where
  "grows s s' \<longleftrightarrow> dom (map_of (st_groups s)) \<subseteq> dom (map_of (st_groups s'))
     \<and> (\<forall>n. map_of (grp_articles (the_group s n)) \<subseteq>\<^sub>m map_of (grp_articles (the_group s' n)))"

lemma grows_refl [simp]: "grows s s"
  by (simp add: grows_def)

lemma grows_trans: "grows s s' \<Longrightarrow> grows s' s'' \<Longrightarrow> grows s s''"
  unfolding grows_def by (blast intro: map_le_trans)

lemma post_one_dom: "dom (map_of (st_groups s)) \<subseteq> dom (map_of (st_groups (post_one e a s w)))"
  by (auto simp: post_one_def Let_def)

lemma post_dom: "post e a s = Inr s' \<Longrightarrow> dom (map_of (st_groups s)) \<subseteq> dom (map_of (st_groups s'))"
proof -
  have "dom (map_of (st_groups s)) \<subseteq> dom (map_of (st_groups (foldl (post_one e b) s ws)))" for b ws s
  proof (induction ws arbitrary: s)
    case (Cons w ws)
    from post_one_dom [of s e b w] Cons.IH [of "post_one e b s w"] show ?case by simp
  qed simp
  then show "post e a s = Inr s' \<Longrightarrow> ?thesis" by (auto simp: post_Inr)
qed

lemma serve_grows:
  assumes "store_wf s" "room (length inp - length rest) s" "serve e s se l inp = (s', se', out, rest, c)"
  shows "grows s s'"
  using serve_effect [OF assms(3)]
proof
  assume "\<exists>a. post e a s = Inr s' \<and> length (post_names a) + length rest \<le> length inp"
  then obtain a where a: "post e a s = Inr s'" "length (post_names a) + length rest \<le> length inp"
    by blast
  have "room (length (post_names a) + 0) s" using assms(2) by (rule room_mono) (use a(2) in linarith)
  from post_keeps [OF assms(1) this a(1)] post_dom [OF a(1)] show ?thesis
    by (auto simp: grows_def map_le_def dom_def)
qed simp

text \<open>A session's group is one of the store's, which is why its name can stand for the pointer.\<close>

definition session_ok :: "store \<Rightarrow> session \<Rightarrow> bool" where
  "session_ok s se \<longleftrightarrow> (\<forall>n. se_group se = Some n \<longrightarrow> n \<in> dom (map_of (st_groups s)))"

lemma session_ok_grows: "session_ok s se \<Longrightarrow> grows s s' \<Longrightarrow> session_ok s' se"
  by (auto simp: session_ok_def grows_def)

lemma cmd_session_ok:
  "session_ok s se \<Longrightarrow> session_ok s (fst (cmd_group s se args))"
  "session_ok s se \<Longrightarrow> session_ok s (fst (cmd_list_group s se args))"
  "session_ok s se \<Longrightarrow> session_ok s (fst (cmd_article s se cmd args))"
  "session_ok s se \<Longrightarrow> cmd_next_last s se d = Some (se', out) \<Longrightarrow> session_ok s se'"
  by (auto simp: session_ok_def cmd_group_def cmd_list_group_def list_group_reply_def cmd_article_def
      resolve_article_def cmd_next_last_def Let_def split: option.splits if_splits sum.splits prod.splits list.splits)

lemma serve_session_ok:
  assumes "store_wf s" "room (length inp - length rest) s" "session_ok s se"
    "serve e s se l inp = (s', se', out, rest, c)"
  shows "session_ok s' se'"
proof (cases "str_fields l")
  case Nil
  with assms(3,4) show ?thesis by (simp add: serve_def)
next
  case (Cons w args)
  note g = session_ok_grows [OF assms(3) serve_grows [OF assms(1,2,4)]]
  have st: "s' = s" if "to_upper w \<noteq> ''POST''"
    using assms(4) Cons that by (auto simp: serve_def Let_def split: if_splits option.splits prod.splits)
  show ?thesis
  proof (cases "to_upper w = ''POST''")
    case True
    with assms(4) Cons g show ?thesis by (simp add: serve_def split_beta)
  next
    case False
    show ?thesis
      using assms(4) Cons False st [OF False] assms(3) cmd_session_ok [OF assms(3)]
      by (simp add: serve_def Let_def) (fastforce simp: split_beta split: if_splits option.splits prod.splits)
  qed
qed

subsection \<open>Many connections\<close>

text \<open>The accept loop of \<^verbatim>\<open>main\<close> and one goroutine per connection: any connection that
  has a line, or has ended, may move next. A step is counted with the input bytes it uses.\<close>

record conn =
  cn_session :: session
  cn_in :: string
  cn_out :: string

record network =
  nw_store :: store
  nw_conns :: "nat \<Rightarrow> conn option"
  nw_down :: bool

inductive net_step :: "nat \<Rightarrow> network \<Rightarrow> network \<Rightarrow> bool" where
  accept: "\<not> nw_down w \<Longrightarrow> nw_conns w i = None \<Longrightarrow>
     net_step 0 w (w\<lparr>nw_conns := (nw_conns w)(i \<mapsto> \<lparr>cn_session = init_session, cn_in = inp,
       cn_out = line (''200 '' @ hostname @ '' NNTP Service Ready, posting allowed'')\<rparr>)\<rparr>)"
| hangup: "\<not> nw_down w \<Longrightarrow> nw_conns w i = Some c \<Longrightarrow> read_string (cn_in c) = None \<Longrightarrow>
     net_step 0 w (w\<lparr>nw_conns := (nw_conns w)(i := None)\<rparr>)"
| blank: "\<not> nw_down w \<Longrightarrow> nw_conns w i = Some c \<Longrightarrow> read_string (cn_in c) = Some (raw, rest) \<Longrightarrow>
     trim_eol raw = [] \<Longrightarrow>
     net_step (length raw) w (w\<lparr>nw_conns := (nw_conns w)(i \<mapsto> c\<lparr>cn_in := rest\<rparr>)\<rparr>)"
| command: "\<not> nw_down w \<Longrightarrow> nw_conns w i = Some c \<Longrightarrow> read_string (cn_in c) = Some (raw, rest) \<Longrightarrow>
     trim_eol raw \<noteq> [] \<Longrightarrow>
     serve e (nw_store w) (cn_session c) (trim_eol raw) rest = (s', se', out, rest', Go_on) \<Longrightarrow>
     net_step (length (cn_in c) - length rest') w
       (w\<lparr>nw_store := s', nw_conns := (nw_conns w)(i \<mapsto>
           \<lparr>cn_session = se', cn_in = rest', cn_out = cn_out c @ out\<rparr>)\<rparr>)"
| quit: "\<not> nw_down w \<Longrightarrow> nw_conns w i = Some c \<Longrightarrow> read_string (cn_in c) = Some (raw, rest) \<Longrightarrow>
     trim_eol raw \<noteq> [] \<Longrightarrow>
     serve e (nw_store w) (cn_session c) (trim_eol raw) rest = (s', se', out, rest', Hang_up) \<Longrightarrow>
     net_step (length raw) w (w\<lparr>nw_conns := (nw_conns w)(i := None)\<rparr>)"
| crash: "\<not> nw_down w \<Longrightarrow> nw_conns w i = Some c \<Longrightarrow> read_string (cn_in c) = Some (raw, rest) \<Longrightarrow>
     trim_eol raw \<noteq> [] \<Longrightarrow>
     serve e (nw_store w) (cn_session c) (trim_eol raw) rest = (s', se', out, rest', Crash) \<Longrightarrow>
     net_step (length raw) w (w\<lparr>nw_down := True\<rparr>)"

inductive net_run :: "nat \<Rightarrow> network \<Rightarrow> network \<Rightarrow> bool" where
  done_run: "net_run 0 w w"
| more_run: "net_run n w w' \<Longrightarrow> net_step m w' w'' \<Longrightarrow> net_run (n + m) w w''"

inductive_cases net_step_down: "net_step n w w'"

definition sessions_ok :: "network \<Rightarrow> bool" where
  "sessions_ok w \<longleftrightarrow> (\<forall>i c. nw_conns w i = Some c \<longrightarrow> session_ok (nw_store w) (cn_session c))"

lemma net_step_inv:
  assumes "net_step n w w'" "store_wf (nw_store w)" "room (n + k) (nw_store w)" "sessions_ok w"
  shows "store_wf (nw_store w') \<and> room k (nw_store w') \<and> sessions_ok w'
    \<and> grows (nw_store w) (nw_store w')"
  using assms
proof cases
  case (command i c raw rest e s' se' out rest')
  note len = read_string_length [OF command(5)] and rst = serve_rest [OF command(7)]
  have r: "room (length rest - length rest' + k) (nw_store w)"
    using assms(3) by (rule room_mono) (use len command(1) in simp)
  then have r0: "room (length rest - length rest') (nw_store w)" by (rule room_mono) simp
  have so: "session_ok (nw_store w) (cn_session c)"
    using assms(4) command(4) by (auto simp: sessions_ok_def)
  note g = serve_grows [OF assms(2) r0 command(7)]
  note so' = serve_session_ok [OF assms(2) r0 so command(7)]
  have "session_ok s' (cn_session d)" if "nw_conns w' j = Some d" for j d
  proof (cases "j = i")
    case False
    with that assms(4) have "session_ok (nw_store w) (cn_session d)"
      by (simp add: command(2) sessions_ok_def)
    then show ?thesis using g by (rule session_ok_grows)
  qed (use that so' in \<open>auto simp: command(2)\<close>)
  then have "sessions_ok w'" by (simp add: sessions_ok_def command(2))
  with serve_wf [OF assms(2) r command(7)] g show ?thesis by (simp add: command(2))
qed (auto simp: sessions_ok_def session_ok_def init_session_def intro: room_mono)

lemma net_run_inv:
  "net_run n w w' \<Longrightarrow> store_wf (nw_store w) \<Longrightarrow> room (n + k) (nw_store w) \<Longrightarrow> sessions_ok w \<Longrightarrow>
     store_wf (nw_store w') \<and> room k (nw_store w') \<and> sessions_ok w' \<and> grows (nw_store w) (nw_store w')"
proof (induction arbitrary: k rule: net_run.induct)
  case (more_run n w w' m w'')
  from more_run.IH [of "m + k"] more_run.prems
  have ih: "store_wf (nw_store w')" "room (m + k) (nw_store w')" "sessions_ok w'"
    "grows (nw_store w) (nw_store w')" by (simp_all add: add.assoc)
  from net_step_inv [OF more_run.hyps(2) ih(1-3)] ih(4) show ?case by (blast intro: grows_trans)
qed simp

subsection \<open>Walking through a group\<close>

lemma handle_loop_line:
  assumes "LF \<notin> set l" "l \<noteq> []" "last l \<notin> {CR, LF}"
  shows "handle_loop env k s se (l @ CR # LF # inp) =
    (case serve (env k) s se l inp of
       (s', se', out, rest', Go_on) \<Rightarrow>
         (case handle_loop env (Suc k) s' se' rest' of (s2, out2, how) \<Rightarrow> (s2, out @ out2, how))
     | (s', se', out, rest', Hang_up) \<Rightarrow> (s', out, Said_quit)
     | (s', se', out, rest', Crash) \<Rightarrow> (s', out, Panicked))"
  using assms read_string_crlf [OF assms(1)] trim_eol_crlf [of l]
  by (subst handle_loop.simps) simp

lemma handle_loop_end [simp]: "handle_loop env k s se [] = (s, [], Input_end)"
  by (simp add: handle_loop.simps)

text \<open>NEXT from the number at position \<open>i\<close>.\<close>

lemma next_at:
  assumes "se_group se = Some n" "distinct (sorted_numbers (the_group s n))"
    "se_art se = sorted_numbers (the_group s n) ! i" "i < length (sorted_numbers (the_group s n))"
  shows "cmd_next_last s se 1 =
    (if Suc i < length (sorted_numbers (the_group s n))
     then Some (se\<lparr>se_art := sorted_numbers (the_group s n) ! Suc i\<rparr>,
            status_line ''223'' (art_at (the_group s n) (sorted_numbers (the_group s n) ! Suc i)))
     else Some (se, line ''421 No next article in this group''))"
proof -
  let ?ns = "sorted_numbers (the_group s n)"
  have p: "pos_of (se_art se) ?ns = int i" using assms(2-4) by (simp add: pos_of_nth)
  show ?thesis
  proof (cases "Suc i < length ?ns")
    case True
    then obtain a where "map_of (grp_articles (the_group s n)) (?ns ! Suc i) = Some a"
      using number_article nth_mem by blast
    moreover have "nat (int i + 1) = Suc i" by simp
    ultimately show ?thesis using True assms(1) p
      by (simp add: cmd_next_last_def Let_def art_at_def del: of_nat_Suc)
  qed (use assms(1) p in \<open>simp add: cmd_next_last_def Let_def\<close>)
qed

lemma next_at_end:
  assumes "se_group se = Some n" "sorted_numbers (the_group s n) = []"
  shows "cmd_next_last s se 1 = Some (se, line ''421 No next article in this group'')"
  using assms by (simp add: cmd_next_last_def)

text \<open>The replies to \<open>k\<close> NEXT commands, when \<open>ns\<close> are the numbers still ahead.\<close>

fun next_replies :: "group \<Rightarrow> int list \<Rightarrow> nat \<Rightarrow> string" where
  "next_replies g ns 0 = []"
| "next_replies g [] (Suc k) = line ''421 No next article in this group'' @ next_replies g [] k"
| "next_replies g (n # ns) (Suc k) = status_line ''223'' (art_at g n) @ next_replies g ns k"

lemma serve_word_next:
  "str_fields l = w # args \<Longrightarrow> to_upper w = ''NEXT'' \<Longrightarrow> cmd_next_last s se 1 = Some (se', out) \<Longrightarrow>
     serve e s se l inp = (s, se', out, inp, Go_on)"
  by (simp add: serve_def)

lemma serve_word_group:
  "str_fields l = w # args \<Longrightarrow> to_upper w = ''GROUP'' \<Longrightarrow>
     serve e s se l inp = (s, fst (cmd_group s se args), snd (cmd_group s se args), inp, Go_on)"
  by (simp add: serve_def split_beta)

lemma serve_next:
  assumes "cmd_next_last s se 1 = Some (se', out)"
  shows "serve e s se ''NEXT'' inp = (s, se', out, inp, Go_on)"
proof -
  have "str_fields ''NEXT'' = [''NEXT'']" "to_upper ''NEXT'' = ''NEXT''" by code_simp+
  then show ?thesis using assms by (rule serve_word_next)
qed

abbreviation next_cmds :: "nat \<Rightarrow> string" where
  "next_cmds k \<equiv> concat (replicate k (''NEXT'' @ CRLF))"

lemma loop_next:
  "cmd_next_last s se 1 = Some (se', out) \<Longrightarrow>
     handle_loop env j s se (next_cmds (Suc k)) =
       (case handle_loop env (Suc j) s se' (next_cmds k) of (s2, o2, how) \<Rightarrow> (s2, out @ o2, how))"
  using handle_loop_line [of "''NEXT''" env j s se "next_cmds k"] serve_next [of s se se' out "env j"]
  by (simp add: numeral_2_eq_2)

lemma walk_at_end:
  assumes "se_group se = Some n" "distinct (sorted_numbers (the_group s n))"
    "sorted_numbers (the_group s n) = [] \<or> se_art se = last (sorted_numbers (the_group s n))"
  shows "handle_loop env j s se (next_cmds k) = (s, next_replies (the_group s n) [] k, Input_end)"
proof (induction k arbitrary: j)
  case (Suc k)
  let ?ns = "sorted_numbers (the_group s n)"
  have "cmd_next_last s se 1 = Some (se, line ''421 No next article in this group'')"
  proof (cases "?ns = []")
    case True
    with next_at_end [OF assms(1)] show ?thesis by simp
  next
    case False
    with assms(3) have "se_art se = ?ns ! (length ?ns - 1)" by (simp add: last_conv_nth)
    from next_at [OF assms(1,2) this] False show ?thesis by simp
  qed
  from loop_next [OF this] Suc.IH show ?case by simp
qed simp

lemma walk_from:
  assumes "se_group se = Some n" "distinct (sorted_numbers (the_group s n))"
    "se_art se = sorted_numbers (the_group s n) ! i" "i < length (sorted_numbers (the_group s n))"
  shows "handle_loop env j s se (next_cmds k) =
    (s, next_replies (the_group s n) (drop (Suc i) (sorted_numbers (the_group s n))) k, Input_end)"
  using assms
proof (induction k arbitrary: se i j)
  case (Suc k)
  let ?ns = "sorted_numbers (the_group s n)"
  show ?case
  proof (cases "Suc i < length ?ns")
    case True
    with next_at [OF Suc.prems] have nx: "cmd_next_last s se 1 = Some (se\<lparr>se_art := ?ns ! Suc i\<rparr>,
        status_line ''223'' (art_at (the_group s n) (?ns ! Suc i)))" by simp
    have "drop (Suc i) ?ns = ?ns ! Suc i # drop (Suc (Suc i)) ?ns" using True by (simp add: Cons_nth_drop_Suc)
    with loop_next [OF nx] Suc.IH [of "se\<lparr>se_art := ?ns ! Suc i\<rparr>" "Suc i"] Suc.prems True
    show ?thesis by simp
  next
    case False
    with Suc.prems have "Suc i = length ?ns" by simp
    then have "se_art se = last ?ns" using Suc.prems(3)
      by (metis diff_Suc_1 last_conv_nth list.size(3) nat.distinct(1))
    with walk_at_end [OF Suc.prems(1,2), of env j "Suc k"] False show ?thesis by simp
  qed
qed simp

lemma serve_group:
  assumes "solid n" "n \<noteq> []"
  shows "serve e s se (''GROUP '' @ n) inp =
    (s, fst (cmd_group s se [n]), snd (cmd_group s se [n]), inp, Go_on)"
proof -
  have w: "solid ''GROUP''" by code_simp
  have f: "str_fields (''GROUP '' @ n) = [''GROUP'', n]"
    using fields_word [OF w, of "CHR '' ''" n] fields_single [OF assms] by (simp add: is_ascii_space_def)
  have "to_upper ''GROUP'' = ''GROUP''" by code_simp
  from serve_word_group [OF f this] show ?thesis by simp
qed

lemma solid_ends:
  assumes "solid n" "n \<noteq> []"
  shows "LF \<notin> set n" "last n \<notin> {CR, LF}" "\<forall>c\<in>set n. \<not> is_ascii_space c"
proof -
  show a: "\<forall>c\<in>set n. \<not> is_ascii_space c"
    using assms(1) by (induction n rule: solid.induct) (auto simp: space_head_zero)
  show "LF \<notin> set n" "last n \<notin> {CR, LF}" using a assms(2) by (auto simp: is_ascii_space_def)
qed

subsection \<open>Properties of the server\<close>


definition sample_network :: network where
  "sample_network = \<lparr>nw_store = sample_store, nw_conns = Map.empty, nw_down = False\<rparr>"

definition posting_client :: string where
  "posting_client = ''POST'' @ CRLF
     @ write_dot_block [''Newsgroups: a.b'', '''', ''hi''] @ ''GROUP a.b'' @ CRLF"

definition serve_at :: "store \<Rightarrow> string \<Rightarrow> string \<Rightarrow> store \<times> session \<times> string \<times> string \<times> after" where
  "serve_at s l inp = serve sample_env s init_session l inp"


text \<open>
  The server has exactly one way to panic: a command line ends the process if and only if it is
  not empty and has nothing but white space in it. So a client that sends one line of spaces takes
  the server down, at any time and whatever the store holds.
\<close>

theorem blank_line_panics:
  "(snd (snd (snd (snd (serve e s se l inp)))) = Crash \<longleftrightarrow> trim_left_space l = [])
   \<and> handle_loop env k s se (replicate (Suc n) (CHR 0x20) @ CRLF @ inp) = (s, [], Panicked)"
proof
  show "(snd (snd (snd (snd (serve e s se l inp)))) = Crash) = (trim_left_space l = [])"
    by (simp add: serve_crash_iff fields_empty_iff)
next
  let ?l = "replicate (Suc n) (CHR 0x20)"
  have "trim_left_space (replicate m (CHR 0x20)) = []" for m
  proof (induction m)
    case (Suc m)
    then show ?case by (subst trim_left_space.simps) (simp add: is_ascii_space_def)
  qed (simp add: trim_left_space.simps [of "[]"])
  then have "str_fields ?l = []" by (simp only: fields_empty_iff)
  then have sv: "serve (env k) s se ?l inp = (s, se, [], inp, Crash)" by (simp add: serve_def)
  have "LF \<notin> set ?l" "last ?l \<notin> {CR, LF}" by simp_all
  from handle_loop_line [OF this(1) _ this(2), of env k s se inp] sv
  show "handle_loop env k s se (?l @ CRLF @ inp) = (s, [], Panicked)" by simp
qed

text \<open>
  GROUP and NEXT walk through a group: after GROUP, a client that sends NEXT \<open>k\<close> times gets
  the group line and then the articles after the first in ascending order of their numbers, one per
  NEXT, and 421 for every NEXT beyond the last; the store does not change.
\<close>

theorem group_then_next_visits_all:
  assumes "store_wf s" "map_of (st_groups s) n = Some g" "solid n" "n \<noteq> []"
  shows "handle_loop env j s se (''GROUP '' @ n @ CRLF @ next_cmds k)
      = (s, group_line g @ next_replies g (tl (sorted_numbers g)) k, Input_end)
    \<and> sorted (sorted_numbers g) \<and> distinct (sorted_numbers g)
    \<and> set (sorted_numbers g) = dom (map_of (grp_articles g))"
proof -
  have gw: "group_wf n g" using assms(1,2) by (simp add: store_wf_def)
  note ps = sorted_numbers_props [OF gw]
  have tg: "the_group s n = g" using assms(2) by (simp add: the_group_def)
  let ?se = "fst (cmd_group s se [n])"
  have se: "se_group ?se = Some n" "snd (cmd_group s se [n]) = group_line g"
    "se_art ?se = (if group_count g > 0 then hd (sorted_numbers g) else 0)"
    using assms(2) by (simp_all add: cmd_group_def)
  note e = solid_ends [OF assms(3,4)]
  have "LF \<notin> set (''GROUP '' @ n)" "last (''GROUP '' @ n) \<notin> {CR, LF}"
    using e assms(4) by simp_all
  from handle_loop_line [OF this(1) _ this(2), of env j s se "next_cmds k"]
  have step: "handle_loop env j s se (''GROUP '' @ n @ CRLF @ next_cmds k)
     = (case handle_loop env (Suc j) s ?se (next_cmds k) of (s2, o2, how) \<Rightarrow> (s2, group_line g @ o2, how))"
    by (simp add: serve_group [OF assms(3,4), simplified] se(2))
  have "handle_loop env (Suc j) s ?se (next_cmds k)
     = (s, next_replies g (tl (sorted_numbers g)) k, Input_end)"
  proof (cases "sorted_numbers g = []")
    case True
    with walk_at_end [OF se(1)] show ?thesis by (simp add: tg)
  next
    case False
    then have "group_count g > 0" using ps by (auto simp: group_count_def)
    with se(3) False have "se_art ?se = sorted_numbers g ! 0" by (simp add: hd_conv_nth)
    with walk_from [OF se(1), where i = 0] ps False show ?thesis by (simp add: tg drop_Suc)
  qed
  with step ps set_sorted_numbers [of g] show ?thesis by simp
qed

lemma index_of_char: "c \<notin> set u \<Longrightarrow> index_of (u @ c # t) [c] = Some (length u)"
  by (induction u) auto

lemma no_dash: "0 \<le> i \<Longrightarrow> CHR ''-'' \<notin> set (itoa i)"
  using nat_dec_digits [of "CHR ''-''"] by (auto simp: itoa_def is_digit_def)

lemma over_range_closed:
  "0 \<le> lo \<Longrightarrow> lo \<le> max_int64 \<Longrightarrow> 0 \<le> hi \<Longrightarrow> hi \<le> max_int64 \<Longrightarrow>
     over_range g [itoa lo @ ''-'' @ itoa hi] = (lo, hi)"
  using index_of_char [OF no_dash [of lo]] atoi_itoa [of lo] atoi_itoa [of hi]
  by (simp add: over_range_def min_int64_def)

lemma over_range_open:
  "0 \<le> lo \<Longrightarrow> lo \<le> max_int64 \<Longrightarrow> over_range g [itoa lo @ ''-''] = (lo, grp_high g)"
  using index_of_char [OF no_dash [of lo], of "[]"] atoi_itoa [of lo]
  by (simp add: over_range_def min_int64_def)

text \<open>
  XOVER answers exactly the range asked for: for \<open>lo-hi\<close> the overview lines of the articles
  numbered from \<open>lo\<close> to \<open>hi\<close>, for \<open>lo-\<close> those from \<open>lo\<close> on, each article once and in
  ascending order.
\<close>

theorem xover_exact_range:
  assumes "store_wf s" "map_of (st_groups s) n = Some g" "se_group se = Some n"
    and "0 \<le> lo" "lo \<le> max_int64" "0 \<le> hi" "hi \<le> max_int64"
  shows "cmd_over s se [itoa lo @ ''-'' @ itoa hi] = Some (line ''224 Overview information follows''
      @ write_dot_block (map (\<lambda>k. over_line k (art_at g k)) (filter (\<lambda>k. lo \<le> k \<and> k \<le> hi) (sorted_numbers g))))
    \<and> cmd_over s se [itoa lo @ ''-''] = Some (line ''224 Overview information follows''
      @ write_dot_block (map (\<lambda>k. over_line k (art_at g k)) (filter (\<lambda>k. lo \<le> k) (sorted_numbers g))))"
proof
  have tg: "the_group s n = g" using assms(2) by (simp add: the_group_def)
  show "cmd_over s se [itoa lo @ ''-'' @ itoa hi] = Some (line ''224 Overview information follows''
      @ write_dot_block (map (\<lambda>k. over_line k (art_at g k)) (filter (\<lambda>k. lo \<le> k \<and> k \<le> hi) (sorted_numbers g))))"
    by (simp only: cmd_over_eq [OF assms(3)] tg over_range_closed [OF assms(4-7)] fst_conv snd_conv)
  have "group_wf n g" using assms(1,2) by (simp add: store_wf_def)
  then have "k \<le> grp_high g" if "k \<in> set (sorted_numbers g)" for k
    using that by (auto simp: set_sorted_numbers group_wf_def)
  then have "filter (\<lambda>k. lo \<le> k \<and> k \<le> grp_high g) (sorted_numbers g) = filter (\<lambda>k. lo \<le> k) (sorted_numbers g)"
    by (intro filter_cong) auto
  then show "cmd_over s se [itoa lo @ ''-''] = Some (line ''224 Overview information follows''
      @ write_dot_block (map (\<lambda>k. over_line k (art_at g k)) (filter (\<lambda>k. lo \<le> k) (sorted_numbers g))))"
    by (simp only: cmd_over_eq [OF assms(3)] tg over_range_open [OF assms(4,5)] fst_conv snd_conv)
qed

text \<open>A group with articles 1, 2 and 4, for the witnesses.\<close>

definition small_article :: "int \<Rightarrow> article" where
  "small_article k = \<lparr>art_number = k, art_msg_id = ''<'' @ itoa k @ ''@x>'',
     art_headers = [''Subject: s'' @ itoa k], art_body = [''hi'']\<rparr>"

definition small_group :: group where
  "small_group = \<lparr>grp_name = ''a.b'',
     grp_articles = [(2, small_article 2), (1, small_article 1), (4, small_article 4)],
     grp_low = 1, grp_high = 4\<rparr>"

definition small_store :: store where
  "small_store = \<lparr>st_spool = [''spool''], st_groups = [(''a.b'', small_group)], st_by_msgid = [],
     st_disk = FDir []\<rparr>"

lemma small_store_ok: "store_wf small_store" "map_of (st_groups small_store) ''a.b'' = Some small_group"
proof -
  have "group_wf ''a.b'' small_group"
    by (auto simp: group_wf_def small_group_def small_article_def keys_ok_def max_int64_def)
  then show "store_wf small_store" by (simp add: store_wf_def small_store_def keys_ok_def)
qed (simp add: small_store_def)

lemma group_then_next_witness:
  "\<exists>out. handle_loop (\<lambda>_. sample_env) 0 small_store init_session (''GROUP a.b'' @ CRLF @ next_cmds 3)
      = (small_store, group_line small_group @ out, Input_end)
    \<and> out = line ''223 2 <2@x>'' @ line ''223 4 <4@x>'' @ line ''421 No next article in this group''"
proof -
  have n: "solid ''a.b''" "''a.b'' \<noteq> []" by code_simp+
  have v: "next_replies small_group (tl (sorted_numbers small_group)) 3
     = line ''223 2 <2@x>'' @ line ''223 4 <4@x>'' @ line ''421 No next article in this group''"
    by code_simp
  from group_then_next_visits_all [OF small_store_ok n, of "\<lambda>_. sample_env" 0 init_session 3]
  show ?thesis by (simp add: v)
qed

lemma xover_exact_range_witness:
  "cmd_over small_store \<lparr>se_group = Some ''a.b'', se_art = 1\<rparr> [''2-3'']
     = Some (line ''224 Overview information follows'' @ write_dot_block [over_line 2 (small_article 2)])"
proof -
  have a: "itoa 2 @ ''-'' @ itoa 3 = ''2-3''" by code_simp
  have v: "map (\<lambda>k. over_line k (art_at small_group k)) (filter (\<lambda>k. 2 \<le> k \<and> k \<le> 3) (sorted_numbers small_group))
     = [over_line 2 (small_article 2)]" by code_simp
  have "(0::int) \<le> 2" "2 \<le> max_int64" "(0::int) \<le> 3" "3 \<le> max_int64" by (simp_all add: max_int64_def)
  from xover_exact_range [OF small_store_ok _ this, of "\<lparr>se_group = Some ''a.b'', se_art = 1\<rparr>"]
  show ?thesis by (simp only: a v) simp
qed

end
