(* ===== verification/Forest.thy ===== *)
theory Forest
  imports Main
begin

text \<open>
  Forests given by a parent function and lists of children, for the trees the programs build: the
  threads of the news client, the comments under a post, the tree of invitations. \<open>walk\<close> lists a
  forest depth first with depths; it carries the depth it may still descend, and the locale
  \<open>reply_forest\<close> shows that it ends, visits exactly the vertices whose chain of parents ends, each
  once, gives each its level, and lists parents before their children.
\<close>

subsection \<open>Walking a forest\<close>

fun walk :: "nat \<Rightarrow> ('v \<Rightarrow> 'v list) \<Rightarrow> 'v list \<Rightarrow> int \<Rightarrow> ('v \<times> int) list option" where
  "walk f ch [] d = Some []"
| "walk 0 ch (i # js) d = None"
| "walk (Suc f) ch (i # js) d =
     (case walk f ch (ch i) (d + 1) of
        None \<Rightarrow> None
      | Some below \<Rightarrow> map_option (\<lambda>rest. (i, d) # below @ rest) (walk (Suc f) ch js d))"

text \<open>\<open>sweep\<close> lists what lies below some vertices breadth first, in at most \<open>f\<close> steps.\<close>

fun sweep :: "nat \<Rightarrow> ('v \<Rightarrow> 'v list) \<Rightarrow> 'v list \<Rightarrow> 'v list option" where
  "sweep f ch [] = Some []"
| "sweep 0 ch (i # js) = None"
| "sweep (Suc f) ch (i # js) = map_option ((#) i) (sweep f ch (js @ ch i))"

lemma image_step: "R\<^sup>* `` {i} = insert i (R\<^sup>* `` (R `` {i}))"
  by (auto elim: converse_rtranclE intro: converse_rtrancl_into_rtrancl)

lemma sweep_set: "sweep f ch js = Some ps \<Longrightarrow> set ps = {(a, b). b \<in> set (ch a)}\<^sup>* `` set js"
proof (induction f ch js arbitrary: ps rule: sweep.induct)
  case (3 f ch i js)
  let ?R = "{(a, b). b \<in> set (ch a)}"
  from 3(2) obtain qs where q: "sweep f ch (js @ ch i) = Some qs" "ps = i # qs" by auto
  have "?R `` {i} = set (ch i)" by auto
  then have "?R\<^sup>* `` set (i # js) = insert i (?R\<^sup>* `` set (js @ ch i))"
    using image_step [of ?R i] by auto
  with 3(1) [OF q(1)] q(2) show ?case by simp
qed simp_all

lemma walk_append:
  "walk f ch (is @ js) d = (case walk f ch is d of
     None \<Rightarrow> None | Some ps \<Rightarrow> map_option (\<lambda>qs. ps @ qs) (walk f ch js d))"
proof (induction f ch "is" d rule: walk.induct)
  case (1 f ch d)
  show ?case by (cases "walk f ch js d") simp_all
next
  case (2 ch i is' d)
  then show ?case by simp
next
  case (3 f ch i is' d)
  then show ?case
    by (cases "walk f ch (ch i) (d + 1)"; cases "walk (Suc f) ch js d")
      (simp_all add: option.map_comp comp_def split: option.splits)
qed

subsection \<open>Forests given by parents\<close>

primrec level :: "('v \<Rightarrow> 'v option) \<Rightarrow> nat \<Rightarrow> 'v \<Rightarrow> bool" where
  "level par 0 i \<longleftrightarrow> par i = None"
| "level par (Suc n) i \<longleftrightarrow> (\<exists>p. par i = Some p \<and> level par n p)"

lemma level_unique: "level par n i \<Longrightarrow> level par m i \<Longrightarrow> n = m"
proof (induction n arbitrary: i m)
  case 0
  then show ?case by (cases m) auto
next
  case (Suc n)
  then show ?case by (cases m) auto
qed

text \<open>The interface a walk needs: child lists that agree with a parent function, on vertices that
  are all different.\<close>

locale reply_forest =
  fixes ok :: "'a \<Rightarrow> bool"
    and verts :: "'a \<Rightarrow> 'v list"
    and par :: "'a \<Rightarrow> 'v \<Rightarrow> 'v option"
    and ch :: "'a \<Rightarrow> 'v \<Rightarrow> 'v list"
    and tops :: "'a \<Rightarrow> 'v list"
  assumes ch_set: "ok v \<Longrightarrow> set (ch v i) = {j \<in> set (verts v). par v j = Some i}"
    and ch_distinct: "ok v \<Longrightarrow> distinct (ch v i)"
    and tops_set: "ok v \<Longrightarrow> set (tops v) = {j \<in> set (verts v). par v j = None}"
    and tops_distinct: "ok v \<Longrightarrow> distinct (tops v)"
begin

definition below :: "'a \<Rightarrow> ('v \<times> 'v) set" where
  "below v = {(a, b). b \<in> set (ch v a)}"

lemma below_par: "ok v \<Longrightarrow> (a, b) \<in> below v \<Longrightarrow> par v b = Some a \<and> b \<in> set (verts v)"
  by (simp add: below_def ch_set)

lemma walk_None_chain:
  "walk f (ch v) js d = None \<Longrightarrow> \<exists>p. length p = Suc f \<and> hd p \<in> set js
     \<and> successively (\<lambda>a b. b \<in> set (ch v a)) p"
proof (induction f "ch v" js d rule: walk.induct)
  case (2 i js d)
  show ?case by (intro exI [of _ "[i]"]) simp
next
  case (3 f i js d)
  show ?case
  proof (cases "walk f (ch v) (ch v i) (d + 1)")
    case None
    from 3(1) [OF None] obtain p where
      p: "length p = Suc f" "hd p \<in> set (ch v i)" "successively (\<lambda>a b. b \<in> set (ch v a)) p" by blast
    then have "p \<noteq> []" by auto
    with p show ?thesis by (intro exI [of _ "i # p"]) (auto simp: successively_Cons)
  next
    case (Some ps)
    with 3(3) have "walk (Suc f) (ch v) js d = None" by simp
    from 3(2) [OF Some this] show ?thesis by auto
  qed
qed simp

lemma chain_levels:
  "ok v \<Longrightarrow> successively (\<lambda>a b. b \<in> set (ch v a)) p \<Longrightarrow> p \<noteq> [] \<Longrightarrow> level (par v) n (hd p) \<Longrightarrow>
     k < length p \<Longrightarrow> level (par v) (n + k) (p ! k)"
proof (induction p arbitrary: n k)
  case (Cons a p)
  show ?case
  proof (cases k)
    case (Suc k')
    with Cons.prems have p: "p \<noteq> []" "hd p \<in> set (ch v a)" "successively (\<lambda>a b. b \<in> set (ch v a)) p"
      by (auto simp: successively_Cons)
    from p(2) Cons.prems(1,4) have "level (par v) (Suc n) (hd p)" by (simp add: ch_set)
    from Cons.IH [OF Cons.prems(1) p(3,1) this, of k'] Cons.prems(5) Suc show ?thesis by simp
  qed (use Cons.prems in simp)
qed simp

lemma chain_distinct:
  assumes "ok v" "successively (\<lambda>a b. b \<in> set (ch v a)) p" "p \<noteq> []" "level (par v) n (hd p)"
  shows "distinct p"
proof -
  have "i = j" if "i < length p" "j < length p" "p ! i = p ! j" for i j
    using level_unique chain_levels [OF assms that(1)] chain_levels [OF assms that(2)] that(3)
    by (metis add_left_cancel)
  then show ?thesis by (auto simp: distinct_conv_nth)
qed

lemma chain_in:
  "ok v \<Longrightarrow> successively (\<lambda>a b. b \<in> set (ch v a)) p \<Longrightarrow> p \<noteq> [] \<Longrightarrow> hd p \<in> set (verts v) \<Longrightarrow>
     set p \<subseteq> set (verts v)"
proof (induction p)
  case (Cons a p)
  show ?case
  proof (cases p)
    case (Cons b q)
    with Cons.prems(1,2) have "b \<in> set (verts v)" by (simp add: ch_set)
    with Cons.IH Cons.prems Cons show ?thesis by auto
  qed (use Cons.prems in simp)
qed simp

lemma walk_total:
  assumes "ok v" "length (verts v) \<le> f"
  shows "walk f (ch v) (tops v) d \<noteq> None"
proof
  assume "walk f (ch v) (tops v) d = None"
  from walk_None_chain [OF this] obtain p where
    p: "length p = Suc f" "hd p \<in> set (tops v)" "successively (\<lambda>a b. b \<in> set (ch v a)) p" by blast
  have h: "hd p \<in> set (verts v)" "level (par v) 0 (hd p)" using p(2) assms(1) by (auto simp: tops_set)
  have "p \<noteq> []" using p(1) by auto
  with chain_distinct [OF assms(1) p(3) _ h(2)] chain_in [OF assms(1) p(3) _ h(1)]
  have "length p \<le> card (set (verts v))" by (metis List.finite_set card_mono distinct_card)
  with p(1) assms(2) card_length [of "verts v"] show False by linarith
qed

lemma walk_set:
  "walk f (ch v) js d = Some ps \<Longrightarrow> fst ` set ps = (below v)\<^sup>* `` set js"
proof (induction f "ch v" js d arbitrary: ps rule: walk.induct)
  case (3 f i js d)
  from 3(3) obtain bs rs where w: "walk f (ch v) (ch v i) (d + 1) = Some bs"
    "walk (Suc f) (ch v) js d = Some rs" "ps = (i, d) # bs @ rs" by (auto split: option.splits)
  have "(below v)\<^sup>* `` {i} = insert i ((below v)\<^sup>* `` set (ch v i))"
    by (auto simp: below_def elim: converse_rtranclE intro: converse_rtrancl_into_rtrancl)
  then have "(below v)\<^sup>* `` set (i # js) = insert i ((below v)\<^sup>* `` set (ch v i)) \<union> (below v)\<^sup>* `` set js"
    by auto
  with 3(1) [OF w(1)] 3(2) [OF w(1,2)] w(3) show ?case by auto
qed simp_all

lemma below_level: "(a, b) \<in> (below v)\<^sup>* \<Longrightarrow> ok v \<Longrightarrow> level (par v) n a \<Longrightarrow> \<exists>k. level (par v) (n + k) b
    \<and> (k = 0 \<longrightarrow> a = b)"
proof (induction rule: rtrancl_induct)
  case base
  then show ?case by (intro exI [of _ 0]) simp
next
  case (step y z)
  from step.IH [OF step.prems] obtain k where "level (par v) (n + k) y" by blast
  with below_par [OF step.prems(1) step.hyps(2)] show ?case by (intro exI [of _ "Suc k"]) simp
qed

lemma same_top:
  assumes "ok v" "level (par v) n a" "level (par v) n b"
  shows "(a, x) \<in> (below v)\<^sup>* \<Longrightarrow> (b, x) \<in> (below v)\<^sup>* \<Longrightarrow> a = b"
proof (induction rule: rtrancl_induct)
  case base
  from below_level [OF base assms(1,3)] level_unique [OF assms(2)] show ?case by force
next
  case (step y z)
  from step.prems show ?case
  proof (cases rule: rtranclE)
    case base
    have "(a, z) \<in> (below v)\<^sup>*" using step.hyps by (rule rtrancl_into_rtrancl)
    from below_level [OF this assms(1,2)] level_unique [OF assms(3)] base show ?thesis by force
  next
    case (step y')
    then have "par v z = Some y'" "par v z = Some y"
      using below_par [OF assms(1)] \<open>(y, z) \<in> below v\<close> by blast+
    then have "y' = y" by simp
    with step(1) show ?thesis using \<open>(b, y) \<in> (below v)\<^sup>* \<Longrightarrow> a = b\<close> by blast
  qed
qed

lemma walk_distinct:
  "walk f (ch v) js d = Some ps \<Longrightarrow> ok v \<Longrightarrow> distinct js \<Longrightarrow> \<forall>j\<in>set js. level (par v) n j \<Longrightarrow>
     distinct (map fst ps)"
proof (induction f "ch v" js d arbitrary: ps n rule: walk.induct)
  case (3 f i js d)
  from 3(3) obtain bs rs where w: "walk f (ch v) (ch v i) (d + 1) = Some bs"
    "walk (Suc f) (ch v) js d = Some rs" "ps = (i, d) # bs @ rs" by (auto split: option.splits)
  have li: "level (par v) n i" and lj: "\<forall>j\<in>set js. level (par v) n j" using 3(6) by simp_all
  have lc: "\<forall>j\<in>set (ch v i). level (par v) (Suc n) j" using li 3(4) by (simp add: ch_set)
  have db: "distinct (map fst bs)" by (rule 3(1) [OF w(1) 3(4) ch_distinct [OF 3(4)] lc])
  have dr: "distinct (map fst rs)" using 3(2) [OF w(1,2) 3(4) _ lj] 3(5) by simp
  note sb = walk_set [OF w(1)] and sr = walk_set [OF w(2)]
  have b1: "x \<noteq> i \<and> (i, x) \<in> (below v)\<^sup>*" if "x \<in> fst ` set bs" for x
  proof -
    from that sb obtain c where c: "c \<in> set (ch v i)" "(c, x) \<in> (below v)\<^sup>*" by auto
    have "\<exists>k. level (par v) (Suc n + k) x" using below_level [OF c(2) 3(4)] lc c(1) by blast
    then have "x \<noteq> i" using level_unique [OF li] by fastforce
    moreover have "(i, c) \<in> below v" using c(1) by (simp add: below_def)
    ultimately show ?thesis using c(2) by (meson converse_rtrancl_into_rtrancl)
  qed
  have r1: "\<exists>j\<in>set js. (j, x) \<in> (below v)\<^sup>*" if "x \<in> fst ` set rs" for x using that sr by auto
  have "x \<notin> fst ` set rs" if "(i, x) \<in> (below v)\<^sup>*" for x
    using r1 same_top [OF 3(4) li _ that] lj 3(5) by fastforce
  with b1 have "fst ` set bs \<inter> fst ` set rs = {}" "i \<notin> fst ` set bs" "i \<notin> fst ` set rs" by blast+
  with db dr w(3) show ?case by simp
qed simp_all

lemma walk_depth:
  "walk f (ch v) js d = Some ps \<Longrightarrow> ok v \<Longrightarrow> d = int n \<Longrightarrow> \<forall>j\<in>set js. level (par v) n j \<Longrightarrow>
     (j, e) \<in> set ps \<Longrightarrow> \<exists>m. level (par v) m j \<and> e = int m"
proof (induction f "ch v" js d arbitrary: ps n rule: walk.induct)
  case (3 f i js d)
  from 3(3) obtain bs rs where w: "walk f (ch v) (ch v i) (d + 1) = Some bs"
    "walk (Suc f) (ch v) js d = Some rs" "ps = (i, d) # bs @ rs" by (auto split: option.splits)
  have lc: "\<forall>j\<in>set (ch v i). level (par v) (Suc n) j" using 3(4,6) by (simp add: ch_set)
  have "d + 1 = int (Suc n)" using 3(5) by simp
  note IHb = 3(1) [OF w(1) 3(4) this lc]
  have lj: "\<forall>j\<in>set js. level (par v) n j" using 3(6) by simp
  note IHr = 3(2) [OF w(1,2) 3(4,5) lj]
  from 3(7) w(3) consider "j = i \<and> e = d" | "(j, e) \<in> set bs" | "(j, e) \<in> set rs" by auto
  then show ?case
  proof cases
    case 1
    with 3(5,6) show ?thesis by auto
  qed (use IHb IHr in auto)
qed simp_all

lemma walk_parent:
  "walk f (ch v) js d = Some ps \<Longrightarrow> ok v \<Longrightarrow> k < length ps \<Longrightarrow> fst (ps ! k) \<notin> set js \<Longrightarrow>
     \<exists>m<k. par v (fst (ps ! k)) = Some (fst (ps ! m))"
proof (induction f "ch v" js d arbitrary: ps k rule: walk.induct)
  case (3 f i js d)
  from 3(3) obtain bs rs where w: "walk f (ch v) (ch v i) (d + 1) = Some bs"
    "walk (Suc f) (ch v) js d = Some rs" "ps = (i, d) # bs @ rs" by (auto split: option.splits)
  from 3(6) w(3) have "k \<noteq> 0" by (cases k) auto
  then obtain k' where k': "k = Suc k'" by (cases k) auto
  show ?case
  proof (cases "k' < length bs")
    case True
    then have x: "ps ! k = bs ! k'" using w(3) k' by (simp add: nth_append)
    show ?thesis
    proof (cases "fst (bs ! k') \<in> set (ch v i)")
      case True
      with 3(4) w(3) x k' show ?thesis by (intro exI [of _ 0]) (simp add: ch_set)
    next
      case False
      from 3(1) [OF w(1) 3(4) True this] obtain m where
        "m < k'" "par v (fst (bs ! k')) = Some (fst (bs ! m))" by blast
      with x k' w(3) True show ?thesis by (intro exI [of _ "Suc m"]) (simp add: nth_append)
    qed
  next
    case False
    let ?j = "k' - length bs"
    have j: "?j < length rs" "ps ! k = rs ! ?j" using False 3(5) w(3) k' by (auto simp: nth_append)
    then have "fst (rs ! ?j) \<notin> set js" using 3(6) by simp
    from 3(2) [OF w(1,2) 3(4) j(1) this] obtain m where
      "m < ?j" "par v (fst (rs ! ?j)) = Some (fst (rs ! m))" by blast
    with j(2) k' w(3) False show ?thesis by (intro exI [of _ "Suc (length bs + m)"]) (simp add: nth_append)
  qed
qed simp_all

lemma rooted_below:
  "ok v \<Longrightarrow> (\<And>j i n. par v j = Some i \<Longrightarrow> level (par v) n i \<Longrightarrow> i \<in> set (verts v)) \<Longrightarrow>
     j \<in> set (verts v) \<Longrightarrow> level (par v) n j \<Longrightarrow> j \<in> (below v)\<^sup>* `` set (tops v)"
proof (induction n arbitrary: j)
  case 0
  then have "j \<in> set (tops v)" by (simp add: tops_set)
  then show ?case by blast
next
  case (Suc n)
  then obtain p where p: "par v j = Some p" "level (par v) n p" by auto
  with Suc have "p \<in> (below v)\<^sup>* `` set (tops v)" by blast
  moreover have "(p, j) \<in> below v" using p(1) Suc.prems(1,3) by (simp add: below_def ch_set)
  ultimately show ?case by (blast intro: rtrancl_into_rtrancl)
qed

lemma tops_level: "ok v \<Longrightarrow> \<forall>j\<in>set (tops v). level (par v) 0 j"
  by (simp add: tops_set)

text \<open>What the walk from the tops lists: each vertex whose chain of parents ends, once.\<close>

lemma walk_flat:
  assumes "ok v" "walk f (ch v) (tops v) 0 = Some ps" "\<And>j i n. par v j = Some i \<Longrightarrow> level (par v) n i \<Longrightarrow> i \<in> set (verts v)"
  shows "distinct (map fst ps)" "fst ` set ps = {i \<in> set (verts v). \<exists>n. level (par v) n i}"
proof -
  show "distinct (map fst ps)"
    by (rule walk_distinct [OF assms(2,1) tops_distinct [OF assms(1)] tops_level [OF assms(1)]])
  show "fst ` set ps = {i \<in> set (verts v). \<exists>n. level (par v) n i}"
  proof (intro set_eqI iffI)
    fix i assume "i \<in> fst ` set ps"
    then obtain r where r: "r \<in> set (tops v)" "(r, i) \<in> (below v)\<^sup>*" using walk_set [OF assms(2)] by auto
    then have t: "r \<in> set (verts v)" "level (par v) 0 r" using assms(1) by (auto simp: tops_set)
    have "i \<in> set (verts v)" using r(2) t(1)
      by (induction rule: rtrancl_induct) (use below_par [OF assms(1)] in auto)
    with below_level [OF r(2) assms(1) t(2)] show "i \<in> {i \<in> set (verts v). \<exists>n. level (par v) n i}" by blast
  next
    fix i assume "i \<in> {i \<in> set (verts v). \<exists>n. level (par v) n i}"
    then show "i \<in> fst ` set ps"
      using rooted_below [OF assms(1,3), where j = i] walk_set [OF assms(2)] by auto
  qed
qed

text \<open>Depths and order: a top has depth 0, any other entry comes after its parent and is one deeper.\<close>

lemma walk_order:
  assumes "ok v" "walk f (ch v) (tops v) 0 = Some ps" "k < length ps"
  shows "case par v (fst (ps ! k)) of None \<Rightarrow> snd (ps ! k) = 0
    | Some p \<Rightarrow> \<exists>j<k. fst (ps ! j) = p \<and> snd (ps ! k) = snd (ps ! j) + 1"
proof -
  have lev: "\<exists>l. level (par v) l (fst (ps ! j)) \<and> snd (ps ! j) = int l" if "j < length ps" for j
    using walk_depth [OF assms(2,1) _ tops_level [OF assms(1)], of "fst (ps ! j)" "snd (ps ! j)"] that by simp
  from lev [OF assms(3)] obtain l where l: "level (par v) l (fst (ps ! k))" "snd (ps ! k) = int l" by blast
  show ?thesis
  proof (cases "par v (fst (ps ! k))")
    case None
    then have "level (par v) 0 (fst (ps ! k))" by simp
    with level_unique [OF l(1)] l(2) None show ?thesis by simp
  next
    case (Some p)
    then have "fst (ps ! k) \<notin> set (tops v)" using assms(1) by (simp add: tops_set)
    from walk_parent [OF assms(2,1,3) this] Some obtain j where j: "j < k" "fst (ps ! j) = p" by auto
    from l(1) Some obtain l' where l': "l = Suc l'" "level (par v) l' p" by (cases l) auto
    have "j < length ps" using j assms(3) by simp
    from lev [OF this] j(2) obtain l2 where l2: "level (par v) l2 p" "snd (ps ! j) = int l2" by auto
    have "l2 = l'" using level_unique [OF l2(1) l'(2)] .
    with l2(2) l(2) l'(1) Some j show ?thesis by auto
  qed
qed

subsection \<open>Sweeping\<close>

text \<open>Vertices of which none lies below another.\<close>

definition apart :: "'a \<Rightarrow> 'v list \<Rightarrow> bool" where
  "apart v js \<longleftrightarrow> distinct js \<and> (\<forall>a\<in>set js. \<exists>n. level (par v) n a)
     \<and> (\<forall>a\<in>set js. \<forall>b\<in>set js. \<forall>x. (a, x) \<in> (below v)\<^sup>* \<longrightarrow> (b, x) \<in> (below v)\<^sup>* \<longrightarrow> a = b)"

lemma below_self:
  assumes "ok v" "level (par v) n i" "j \<in> set (ch v i)"
  shows "(j, i) \<notin> (below v)\<^sup>*"
proof
  assume "(j, i) \<in> (below v)\<^sup>*"
  moreover have "level (par v) (Suc n) j" using assms by (simp add: ch_set)
  ultimately obtain k where "level (par v) (Suc n + k) i" using below_level [OF _ assms(1)] by blast
  from level_unique [OF this assms(2)] show False by simp
qed

lemma apart_step:
  assumes "ok v" "apart v (i # js)"
  shows "apart v (js @ ch v i)" "i \<notin> (below v)\<^sup>* `` set (js @ ch v i)"
proof -
  obtain n where n: "level (par v) n i" using assms(2) by (auto simp: apart_def)
  have c: "level (par v) (Suc n) j" "(i, j) \<in> below v" if "j \<in> set (ch v i)" for j
    using that n assms(1) by (simp_all add: ch_set below_def)
  have up: "(i, x) \<in> (below v)\<^sup>*" if "j \<in> set (ch v i)" "(j, x) \<in> (below v)\<^sup>*" for j x
    using c(2) [OF that(1)] that(2) by (rule converse_rtrancl_into_rtrancl)
  have sep: "b \<noteq> i \<and> \<not> ((b, x) \<in> (below v)\<^sup>* \<and> (i, x) \<in> (below v)\<^sup>*)" if "b \<in> set js" for b x
    using assms(2) that unfolding apart_def by auto
  have same: "a = b" if "a \<in> set (ch v i)" "b \<in> set (ch v i)" "(a, x) \<in> (below v)\<^sup>*" "(b, x) \<in> (below v)\<^sup>*" for a b x
    using same_top [OF assms(1) c(1) [OF that(1)] c(1) [OF that(2)] that(3,4)] .
  have disj: "a \<notin> set js" if "a \<in> set (ch v i)" for a
    using sep [of a a] up [OF that, of a] by blast
  show "apart v (js @ ch v i)"
    unfolding apart_def
  proof (intro conjI ballI allI impI)
    show "distinct (js @ ch v i)"
      using assms(2) ch_distinct [OF assms(1)] disj by (auto simp: apart_def)
    show "\<exists>n. level (par v) n a" if "a \<in> set (js @ ch v i)" for a
    proof (cases "a \<in> set js")
      case True
      with assms(2) show ?thesis unfolding apart_def by simp
    next
      case False
      with that c(1) have "level (par v) (Suc n) a" by (metis UnE set_append)
      then show ?thesis by blast
    qed
    show "a = b" if ab: "a \<in> set (js @ ch v i)" "b \<in> set (js @ ch v i)" "(a, x) \<in> (below v)\<^sup>*" "(b, x) \<in> (below v)\<^sup>*" for a b x
    proof -
      consider "a \<in> set js" "b \<in> set js" | "a \<in> set js" "b \<in> set (ch v i)"
        | "a \<in> set (ch v i)" "b \<in> set js" | "a \<in> set (ch v i)" "b \<in> set (ch v i)" using ab(1,2) by auto
      then show ?thesis
      proof cases
        case 1
        with ab(3,4) assms(2) show ?thesis unfolding apart_def by simp
      next
        case 2
        with sep [of a x] up [of b x] ab(3,4) show ?thesis by blast
      next
        case 3
        with sep [of b x] up [of a x] ab(3,4) show ?thesis by blast
      qed (use same ab(3,4) in blast)
    qed
  qed
  show "i \<notin> (below v)\<^sup>* `` set (js @ ch v i)"
    using sep [of _ i] below_self [OF assms(1) n] by auto
qed

lemma sweep_total:
  "ok v \<Longrightarrow> apart v js \<Longrightarrow> finite ((below v)\<^sup>* `` set js) \<Longrightarrow> card ((below v)\<^sup>* `` set js) \<le> f \<Longrightarrow>
     sweep f (ch v) js \<noteq> None"
proof (induction f arbitrary: js)
  case 0
  then have "(below v)\<^sup>* `` set js = {}" by simp
  then have "js = []" by (cases js) auto
  then show ?case by simp
next
  case (Suc f)
  show ?case
  proof (cases js)
    case (Cons i js')
    note st = apart_step [OF Suc.prems(1) Suc.prems(2) [unfolded Cons]]
    have "below v `` {i} = set (ch v i)" by (auto simp: below_def)
    then have eq: "(below v)\<^sup>* `` set js = insert i ((below v)\<^sup>* `` set (js' @ ch v i))"
      using image_step [of "below v" i] Cons by auto
    then have fin: "finite ((below v)\<^sup>* `` set (js' @ ch v i))" using Suc.prems(3) by simp
    then have "card ((below v)\<^sup>* `` set (js' @ ch v i)) \<le> f" using Suc.prems(4) eq st(2) by simp
    from Suc.IH [OF Suc.prems(1) st(1) fin this] Cons show ?thesis by simp
  qed simp
qed

text \<open>From one vertex with a level, as many steps as there are vertices are enough.\<close>

lemma sweep_one:
  assumes "ok v" "i \<in> set (verts v)" "level (par v) n i" "length (verts v) \<le> f"
  shows "sweep f (ch v) [i] \<noteq> None"
proof -
  have "x \<in> set (verts v)" if "(i, x) \<in> (below v)\<^sup>*" for x
    using that assms(2) by (induction rule: rtrancl_induct) (use below_par [OF assms(1)] in auto)
  then have sub: "(below v)\<^sup>* `` set [i] \<subseteq> set (verts v)" by auto
  then have "card ((below v)\<^sup>* `` set [i]) \<le> f"
    using card_mono [OF List.finite_set sub] card_length [of "verts v"] assms(4) by linarith
  moreover have "apart v [i]" using assms(3) by (auto simp: apart_def)
  ultimately show ?thesis
    using sweep_total [OF assms(1)] finite_subset [OF sub] by blast
qed

end

end
