(* ===== verification/ClientThreads.thy ===== *)
theory ClientThreads
  imports GoStrconv Forest "HOL-Library.Multiset"
begin

text \<open>
  The thread tree of the news client (\<^verbatim>\<open>buildTree\<close> in
  \<^verbatim>\<open>ops/pkgs/nntpc/nntpc.go\<close>). The nodes the code shares by pointer are cells of a map
  from Message-IDs; a child list holds Message-IDs. \<open>flatten\<close> carries the depth it may still
  descend: no tree of \<open>n\<close> articles is deeper than \<open>n\<close>, so that running out (None) is the
  endless recursion of the code.
\<close>

record overview =
  ov_number :: int
  ov_subject :: string
  ov_from :: string
  ov_date :: string
  ov_msg_id :: string
  ov_references :: string
  ov_lines :: int

record thread_node =
  tn_article :: overview
  tn_depth :: int
  tn_children :: "string list"

type_synonym nodes = "string \<Rightarrow> thread_node option"

subsection \<open>Building the tree\<close>

definition make_nodes :: "overview list \<Rightarrow> nodes" where
  "make_nodes ovs = foldl (\<lambda>m ov. m(ov_msg_id ov \<mapsto>
     \<lparr>tn_article = ov, tn_depth = 0, tn_children = []\<rparr>)) Map.empty ovs"

definition parent_id :: "nodes \<Rightarrow> overview \<Rightarrow> string option" where
  "parent_id m ov =
     (let refs = str_fields (ov_references ov)
      in if refs \<noteq> [] \<and> m (last refs) \<noteq> None then Some (last refs) else None)"

definition link_one :: "nodes \<times> string list \<Rightarrow> overview \<Rightarrow> nodes \<times> string list" where
  "link_one st ov = (case st of (m, roots) \<Rightarrow>
     (case parent_id m ov of
        None \<Rightarrow> (m, roots @ [ov_msg_id ov])
      | Some p \<Rightarrow> (m(p := map_option (\<lambda>n. n\<lparr>tn_children := tn_children n @ [ov_msg_id ov]\<rparr>) (m p)),
                   roots)))"

fun flatten :: "nat \<Rightarrow> nodes \<Rightarrow> string list \<Rightarrow> string list \<Rightarrow> int \<Rightarrow> (nodes \<times> string list) option" where
  "flatten f m flat [] d = Some (m, flat)"
| "flatten 0 m flat (i # ids) d = None"
| "flatten (Suc f) m flat (i # ids) d =
     (case flatten f (m(i := map_option (\<lambda>n. n\<lparr>tn_depth := d\<rparr>) (m i))) (flat @ [i])
            (case m i of None \<Rightarrow> [] | Some n \<Rightarrow> tn_children n) (d + 1) of
        None \<Rightarrow> None
      | Some (m', flat') \<Rightarrow> flatten (Suc f) m' flat' ids d)"

definition build_tree :: "overview list \<Rightarrow> (nodes \<times> string list) option" where
  "build_tree ovs =
     (case foldl link_one (make_nodes ovs, []) ovs of (m, roots) \<Rightarrow>
        flatten (Suc (length ovs)) m [] roots 0)"

subsection \<open>Parents and children as functions of the overviews\<close>

definition ids :: "overview list \<Rightarrow> string list" where
  "ids ovs = map ov_msg_id ovs"

definition reply_to :: "overview list \<Rightarrow> overview \<Rightarrow> string option" where
  "reply_to ovs ov =
     (let refs = str_fields (ov_references ov)
      in if refs \<noteq> [] \<and> last refs \<in> set (ids ovs) then Some (last refs) else None)"

definition roots_of :: "overview list \<Rightarrow> string list" where
  "roots_of ovs = map ov_msg_id (filter (\<lambda>ov. reply_to ovs ov = None) ovs)"

definition replies_to :: "overview list \<Rightarrow> string \<Rightarrow> string list" where
  "replies_to ovs p = map ov_msg_id (filter (\<lambda>ov. reply_to ovs ov = Some p) ovs)"

lemma make_nodes_snoc:
  "make_nodes (ovs @ [ov]) = (make_nodes ovs)(ov_msg_id ov \<mapsto>
     \<lparr>tn_article = ov, tn_depth = 0, tn_children = []\<rparr>)"
  by (simp add: make_nodes_def)

lemma make_nodes_children: "make_nodes ovs i = Some n \<Longrightarrow> tn_children n = []"
  by (induction ovs arbitrary: i n rule: rev_induct)
    (auto simp: make_nodes_snoc make_nodes_def [of "[]"] split: if_splits)

lemma dom_make_nodes: "dom (make_nodes ovs) = set (ids ovs)"
proof (induction ovs rule: rev_induct)
  case (snoc ov ovs)
  then show ?case unfolding make_nodes_snoc ids_def by (simp only: dom_fun_upd) simp
qed (simp add: make_nodes_def ids_def)

lemma make_nodes_article:
  "distinct (ids ovs) \<Longrightarrow> ov \<in> set ovs \<Longrightarrow>
     make_nodes ovs (ov_msg_id ov) = Some \<lparr>tn_article = ov, tn_depth = 0, tn_children = []\<rparr>"
  by (induction ovs rule: rev_induct) (auto simp: make_nodes_snoc ids_def image_iff)

definition children_in :: "nodes \<Rightarrow> string \<Rightarrow> string list" where
  "children_in m i = (case m i of None \<Rightarrow> [] | Some n \<Rightarrow> tn_children n)"

lemma parent_id_reply: "dom m = set (ids ovs) \<Longrightarrow> parent_id m ov = reply_to ovs ov"
  by (auto simp: parent_id_def reply_to_def Let_def)

lemma link_one_props:
  assumes "dom m = set (ids ovs)" "link_one (m, roots) ov = (m', roots')"
  shows "dom m' = set (ids ovs)"
    "roots' = roots @ (if reply_to ovs ov = None then [ov_msg_id ov] else [])"
    "children_in m' p = children_in m p @ (if reply_to ovs ov = Some p then [ov_msg_id ov] else [])"
    "map_option tn_article \<circ> m' = map_option tn_article \<circ> m"
proof -
  note r = parent_id_reply [OF assms(1)]
  consider "reply_to ovs ov = None" "m' = m" "roots' = roots @ [ov_msg_id ov]"
    | q where "reply_to ovs ov = Some q" "roots' = roots"
      "m' = m(q := map_option (\<lambda>n. n\<lparr>tn_children := tn_children n @ [ov_msg_id ov]\<rparr>) (m q))"
    using assms(2) by (auto simp: link_one_def r split: option.splits)
  note cs = this
  show "dom m' = set (ids ovs)" using assms(1) by (cases rule: cs) (simp_all only: map_upd_cell(1))
  show "roots' = roots @ (if reply_to ovs ov = None then [ov_msg_id ov] else [])"
    by (cases rule: cs) simp_all
  show "map_option tn_article \<circ> m' = map_option tn_article \<circ> m"
    by (cases rule: cs) (simp_all add: map_upd_cell(2))
  show "children_in m' p = children_in m p @ (if reply_to ovs ov = Some p then [ov_msg_id ov] else [])"
  proof (cases rule: cs)
    case (2 q)
    then have "q \<in> dom m" using assms(1) by (auto simp: reply_to_def Let_def split: if_splits)
    with 2 show ?thesis by (auto simp: children_in_def)
  qed simp
qed

lemma link_all:
  assumes "foldl link_one (make_nodes all, []) ovs = (m, roots)"
  shows "dom m = set (ids all)
    \<and> roots = map ov_msg_id (filter (\<lambda>ov. reply_to all ov = None) ovs)
    \<and> (\<forall>p. children_in m p = map ov_msg_id (filter (\<lambda>ov. reply_to all ov = Some p) ovs))
    \<and> map_option tn_article \<circ> m = map_option tn_article \<circ> make_nodes all"
  using assms
proof (induction ovs arbitrary: m roots rule: rev_induct)
  case Nil
  then have "m = make_nodes all" "roots = []" by simp_all
  moreover have "children_in (make_nodes all) p = []" for p
    by (auto simp: children_in_def dest: make_nodes_children split: option.splits)
  ultimately show ?case by (simp add: dom_make_nodes)
next
  case (snoc ov ovs)
  obtain m0 r0 where st: "foldl link_one (make_nodes all, []) ovs = (m0, r0)" by fastforce
  note ih = snoc.IH [OF st]
  from snoc.prems st have l: "link_one (m0, r0) ov = (m, roots)" by simp
  from link_one_props [OF _ l, of all] ih show ?case by auto
qed

subsection \<open>Flattening as a walk\<close>

definition set_depth :: "nodes \<Rightarrow> string \<times> int \<Rightarrow> nodes" where
  "set_depth m p = m(fst p := map_option (\<lambda>n. n\<lparr>tn_depth := snd p\<rparr>) (m (fst p)))"

lemma children_set_depth [simp]: "children_in (set_depth m p) = children_in m"
  by (auto simp: children_in_def set_depth_def fun_eq_iff split: option.splits)

lemma children_set_depths [simp]: "children_in (foldl set_depth m ps) = children_in m"
  by (induction ps arbitrary: m) simp_all

lemma flatten_walk:
  "flatten f m flat is d = map_option (\<lambda>ps. (foldl set_depth m ps, flat @ map fst ps))
     (walk f (children_in m) is d)"
proof (induction f m flat "is" d rule: flatten.induct)
  case (3 f m flat i is' d)
  let ?m1 = "set_depth m (i, d)"
  have m1: "m(i := map_option (\<lambda>n. n\<lparr>tn_depth := d\<rparr>) (m i)) = ?m1" by (simp add: set_depth_def)
  have ch: "(case m i of None \<Rightarrow> [] | Some n \<Rightarrow> tn_children n) = children_in m i"
    by (simp add: children_in_def)
  note IH1 = "3.IH"(1) [unfolded m1 ch, unfolded children_set_depth]
  show ?case
  proof (cases "walk f (children_in m) (children_in m i) (d + 1)")
    case None
    then show ?thesis by (simp add: m1 ch IH1)
  next
    case (Some below)
    then have fl: "flatten f ?m1 (flat @ [i]) (children_in m i) (d + 1)
        = Some (foldl set_depth ?m1 below, (flat @ [i]) @ map fst below)"
      by (simp add: IH1)
    from "3.IH"(2) [unfolded m1 ch, OF fl refl]
    show ?thesis by (simp add: m1 ch fl Some option.map_comp comp_def)
  qed
qed simp_all

lemma build_tree_walk:
  "\<exists>m. build_tree ovs = map_option (\<lambda>ps. (foldl set_depth m ps, map fst ps))
         (walk (Suc (length ovs)) (replies_to ovs) (roots_of ovs) 0)
     \<and> map_option tn_article \<circ> m = map_option tn_article \<circ> make_nodes ovs"
proof -
  obtain m roots where st: "foldl link_one (make_nodes ovs, []) ovs = (m, roots)" by fastforce
  note l = link_all [OF st]
  have "children_in m = replies_to ovs" "roots = roots_of ovs"
    using l by (auto simp: replies_to_def roots_of_def)
  with l show ?thesis by (intro exI [of _ m]) (simp add: build_tree_def st flatten_walk)
qed

subsection \<open>The tree of an overview\<close>

definition parent_of :: "overview list \<Rightarrow> string \<Rightarrow> string option" where
  "parent_of ovs i = (case find (\<lambda>ov. ov_msg_id ov = i) ovs of
     None \<Rightarrow> None | Some ov \<Rightarrow> reply_to ovs ov)"

lemma find_overview:
  "distinct (ids ovs) \<Longrightarrow> ov \<in> set ovs \<Longrightarrow> find (\<lambda>o'. ov_msg_id o' = ov_msg_id ov) ovs = Some ov"
  by (induction ovs) (auto simp: ids_def image_iff)

lemma parent_of_overview [simp]:
  "distinct (ids ovs) \<Longrightarrow> ov \<in> set ovs \<Longrightarrow> parent_of ovs (ov_msg_id ov) = reply_to ovs ov"
  by (simp add: parent_of_def find_overview)

lemma parent_of_in: "parent_of ovs j = Some i \<Longrightarrow> i \<in> set (ids ovs)"
  by (auto simp: parent_of_def reply_to_def Let_def split: option.splits if_splits)

lemma distinct_sublist_ids: "distinct (ids ovs) \<Longrightarrow> distinct (map ov_msg_id (filter P ovs))"
  by (simp add: ids_def distinct_map_filter)

interpretation threads: reply_forest "\<lambda>ovs. distinct (ids ovs)" ids parent_of replies_to roots_of
proof
  fix ovs i
  assume d: "distinct (ids ovs)"
  show "set (replies_to ovs i) = {j \<in> set (ids ovs). parent_of ovs j = Some i}"
    "set (roots_of ovs) = {j \<in> set (ids ovs). parent_of ovs j = None}"
    using parent_of_overview [OF d] by (auto simp: replies_to_def roots_of_def ids_def)
  show "distinct (replies_to ovs i)" "distinct (roots_of ovs)"
    using d by (simp_all add: replies_to_def roots_of_def distinct_sublist_ids)
qed

text \<open>An article is rooted if following its references up ends at an article without a parent.\<close>

definition rooted :: "overview list \<Rightarrow> string \<Rightarrow> bool" where
  "rooted ovs i \<longleftrightarrow> (\<exists>n. level (parent_of ovs) n i)"

lemma set_depths_at:
  "distinct (map fst ps) \<Longrightarrow> (i, d) \<in> set ps \<Longrightarrow> m i = Some n \<Longrightarrow>
     foldl set_depth m ps i = Some (n\<lparr>tn_depth := d\<rparr>)"
proof (induction ps rule: rev_induct)
  case (snoc p ps)
  show ?case
  proof (cases "p = (i, d)")
    case True
    then have "i \<notin> fst ` set ps" using snoc.prems(1) by auto
    then have "foldl set_depth m ps i = m i"
      by (induction ps rule: rev_induct) (auto simp: set_depth_def)
    then have "foldl set_depth m ps i = Some n" using snoc.prems(3) by simp
    with True show ?thesis by (simp add: set_depth_def [of "foldl set_depth m ps"])
  next
    case False
    with snoc.prems have "(i, d) \<in> set ps" "fst p \<noteq> i" by (auto simp: rev_image_eqI)
    with snoc show ?thesis by (simp add: set_depth_def [of "foldl set_depth m ps"])
  qed
qed simp

lemma build_tree_total:
  assumes d: "distinct (ids ovs)"
  obtains m ps where "build_tree ovs = Some (foldl set_depth m ps, map fst ps)"
    "walk (Suc (length ovs)) (replies_to ovs) (roots_of ovs) 0 = Some ps"
    "map_option tn_article \<circ> m = map_option tn_article \<circ> make_nodes ovs"
proof -
  have "length (ids ovs) \<le> Suc (length ovs)" by (simp add: ids_def)
  from threads.walk_total [OF d this] obtain ps where
    ps: "walk (Suc (length ovs)) (replies_to ovs) (roots_of ovs) 0 = Some ps" by blast
  with build_tree_walk [of ovs] that show thesis by auto
qed

lemma tree_flat:
  assumes "distinct (ids ovs)" "walk f (replies_to ovs) (roots_of ovs) 0 = Some ps"
  shows "distinct (map fst ps)" "fst ` set ps = {i \<in> set (ids ovs). rooted ovs i}"
  using threads.walk_flat [OF assms] parent_of_in by (simp_all add: rooted_def)

lemma tree_cell:
  assumes "distinct (ids ovs)" "walk f (replies_to ovs) (roots_of ovs) 0 = Some ps" "k < length ps"
    "map_option tn_article \<circ> m = map_option tn_article \<circ> make_nodes ovs"
  shows "\<exists>n. foldl set_depth m ps (fst (ps ! k)) = Some n \<and> tn_depth n = snd (ps ! k)
    \<and> tn_article n \<in> set ovs \<and> ov_msg_id (tn_article n) = fst (ps ! k)"
proof -
  note f = tree_flat [OF assms(1,2)]
  have mem: "(fst (ps ! k), snd (ps ! k)) \<in> set ps" using assms(3) by simp
  then have "fst (ps ! k) \<in> fst ` set ps" by force
  with f(2) have "fst (ps ! k) \<in> set (ids ovs)" by simp
  then obtain ov where ov: "ov \<in> set ovs" "ov_msg_id ov = fst (ps ! k)" by (auto simp: ids_def)
  have "map_option tn_article (m (fst (ps ! k))) = Some ov"
    using fun_cong [OF assms(4), of "fst (ps ! k)"] make_nodes_article [OF assms(1) ov(1)] ov(2) by simp
  then obtain n where n: "m (fst (ps ! k)) = Some n" "tn_article n = ov" by auto
  from set_depths_at [where m = m, OF f(1) mem n(1)] n(2) ov show ?thesis by simp
qed

text \<open>
  C16. For an overview whose Message-IDs are all different, building the thread tree ends, and its
  list holds exactly the rooted articles, each once: the node of an entry has the article of that
  id; the entry of an article without a parent has depth 0, every other entry comes after its
  parent and is one deeper.
\<close>

theorem thread_tree_correct:
  assumes d: "distinct (ids ovs)"
  shows "\<exists>m flat. build_tree ovs = Some (m, flat) \<and> distinct flat
    \<and> set flat = {i \<in> set (ids ovs). rooted ovs i}
    \<and> (\<forall>k<length flat. \<exists>n. m (flat ! k) = Some n \<and> tn_article n \<in> set ovs
          \<and> ov_msg_id (tn_article n) = flat ! k
          \<and> (case parent_of ovs (flat ! k) of
               None \<Rightarrow> tn_depth n = 0
             | Some p \<Rightarrow> (\<exists>j<k. flat ! j = p \<and> tn_depth n = tn_depth (the (m p)) + 1)))"
proof -
  obtain m ps where b: "build_tree ovs = Some (foldl set_depth m ps, map fst ps)"
    "walk (Suc (length ovs)) (replies_to ovs) (roots_of ovs) 0 = Some ps"
    "map_option tn_article \<circ> m = map_option tn_article \<circ> make_nodes ovs"
    using build_tree_total [OF d] .
  note f = tree_flat [OF d b(2)]
  have main: "\<exists>n. foldl set_depth m ps (map fst ps ! k) = Some n \<and> tn_article n \<in> set ovs
      \<and> ov_msg_id (tn_article n) = map fst ps ! k
      \<and> (case parent_of ovs (map fst ps ! k) of
           None \<Rightarrow> tn_depth n = 0
         | Some p \<Rightarrow> (\<exists>j<k. map fst ps ! j = p
              \<and> tn_depth n = tn_depth (the (foldl set_depth m ps p)) + 1))"
    if "k < length (map fst ps)" for k
  proof -
    from that have k: "k < length ps" by simp
    from tree_cell [OF d b(2) k b(3)] obtain n where n: "foldl set_depth m ps (fst (ps ! k)) = Some n"
      "tn_depth n = snd (ps ! k)" "tn_article n \<in> set ovs" "ov_msg_id (tn_article n) = fst (ps ! k)" by blast
    note ord = threads.walk_order [OF d b(2) k]
    show ?thesis
    proof (cases "parent_of ovs (fst (ps ! k))")
      case None
      with n ord k show ?thesis by simp
    next
      case (Some p)
      with ord obtain j where j: "j < k" "fst (ps ! j) = p" "snd (ps ! k) = snd (ps ! j) + 1" by auto
      then have "j < length ps" using k by simp
      from tree_cell [OF d b(2) this b(3)] j(2)
      have "tn_depth (the (foldl set_depth m ps p)) = snd (ps ! j)" by fastforce
      moreover have "map fst ps ! j = p" using j k by simp
      ultimately show ?thesis using n Some k j by auto
    qed
  qed
  show ?thesis
    by (intro exI [of _ "foldl set_depth m ps"] exI [of _ "map fst ps"] conjI b(1) f(1) allI impI main)
      (use f(2) in simp_all)
qed

text \<open>An overview of three articles: a thread of two and one that refers to itself.\<close>

definition sample_overview :: "int \<Rightarrow> string \<Rightarrow> string \<Rightarrow> overview" where
  "sample_overview n i refs = \<lparr>ov_number = n, ov_subject = ''s'', ov_from = ''f'', ov_date = [],
     ov_msg_id = i, ov_references = refs, ov_lines = 1\<rparr>"

definition sample_overviews :: "overview list" where
  "sample_overviews = [sample_overview 1 ''<1@x>'' [], sample_overview 2 ''<2@x>'' ''<1@x>'',
     sample_overview 3 ''<3@x>'' ''<9@x> <3@x>'']"

text \<open>Whatever the overview, an entry of the list has a node with an article of the overview.\<close>

lemma make_nodes_from: "make_nodes ovs i = Some n \<Longrightarrow> tn_article n \<in> set ovs"
  by (induction ovs rule: rev_induct) (auto simp: make_nodes_snoc make_nodes_def [of "[]"] split: if_splits)

lemma map_option_comp_eq:
  "map_option g \<circ> m = map_option g \<circ> m' \<Longrightarrow> m' i = Some n' \<Longrightarrow> \<exists>n. m i = Some n \<and> g n = g n'"
  by (drule fun_cong [of _ _ i]) auto

lemma set_depths_article: "map_option tn_article \<circ> foldl set_depth m ps = map_option tn_article \<circ> m"
proof (induction ps arbitrary: m)
  case (Cons p ps)
  have "map_option tn_article \<circ> set_depth m p = map_option tn_article \<circ> m"
    unfolding set_depth_def by (rule map_upd_cell(2)) simp
  with Cons [of "set_depth m p"] show ?case by (simp only: foldl_Cons)
qed simp

lemma build_tree_nodes:
  assumes "build_tree ovs = Some (m, flat)" "i \<in> set flat"
  shows "\<exists>n. m i = Some n \<and> tn_article n \<in> set ovs"
proof -
  obtain m0 where m0: "build_tree ovs = map_option (\<lambda>ps. (foldl set_depth m0 ps, map fst ps))
       (walk (Suc (length ovs)) (replies_to ovs) (roots_of ovs) 0)"
    "map_option tn_article \<circ> m0 = map_option tn_article \<circ> make_nodes ovs"
    using build_tree_walk by blast
  with assms(1) obtain ps where ps: "walk (Suc (length ovs)) (replies_to ovs) (roots_of ovs) 0 = Some ps"
    "m = foldl set_depth m0 ps" "flat = map fst ps" by auto
  from threads.walk_set [OF ps(1)] assms(2) ps(3) obtain r where
    r: "r \<in> set (roots_of ovs)" "(r, i) \<in> (threads.below ovs)\<^sup>*" by auto
  from r(2,1) have "i \<in> set (ids ovs)"
    by (induction rule: rtrancl_induct) (auto simp: threads.below_def replies_to_def roots_of_def ids_def)
  then obtain n' where n': "make_nodes ovs i = Some n'" by (metis domD dom_make_nodes)
  have "map_option tn_article \<circ> m = map_option tn_article \<circ> make_nodes ovs"
    unfolding ps(2) set_depths_article by (rule m0(2))
  from map_option_comp_eq [OF this n'] make_nodes_from [OF n'] show ?thesis by auto
qed

lemma thread_tree_correct_witness:
  "\<exists>m. build_tree sample_overviews = Some (m, [''<1@x>'', ''<2@x>''])
     \<and> {i \<in> set (ids sample_overviews). rooted sample_overviews i} = {''<1@x>'', ''<2@x>''}"
proof -
  have d: "distinct (ids sample_overviews)" by code_simp
  have v: "map_option snd (build_tree sample_overviews) = Some [''<1@x>'', ''<2@x>'']" by code_simp
  from thread_tree_correct [OF d] obtain m flat where
    "build_tree sample_overviews = Some (m, flat)"
    "set flat = {i \<in> set (ids sample_overviews). rooted sample_overviews i}" by blast
  with v show ?thesis by auto
qed

text \<open>
  In a group where every article that answers another one in the group comes after it, as when
  the numbers grow with the postings, the thread list shows every article exactly once.
\<close>

theorem threads_show_all:
  assumes d: "distinct (ids ovs)"
    and earlier: "\<forall>k<length ovs. \<forall>p. reply_to ovs (ovs ! k) = Some p \<longrightarrow> (\<exists>j<k. ov_msg_id (ovs ! j) = p)"
  shows "\<exists>m flat. build_tree ovs = Some (m, flat) \<and> mset flat = mset (ids ovs)"
proof -
  obtain m ps where b: "build_tree ovs = Some (foldl set_depth m ps, map fst ps)"
    "walk (Suc (length ovs)) (replies_to ovs) (roots_of ovs) 0 = Some ps"
    using build_tree_total [OF d] by metis
  note f = tree_flat [OF d b(2)]
  have "rooted ovs (ov_msg_id (ovs ! k))" if "k < length ovs" for k
    using that
  proof (induction k rule: less_induct)
    case (less k)
    have par: "parent_of ovs (ov_msg_id (ovs ! k)) = reply_to ovs (ovs ! k)" using d less.prems by simp
    show ?case
    proof (cases "reply_to ovs (ovs ! k)")
      case None
      with par show ?thesis unfolding rooted_def by (intro exI [of _ 0]) simp
    next
      case (Some p)
      with earlier less.prems obtain j where "j < k" "ov_msg_id (ovs ! j) = p" by blast
      with less.IH [of j] less.prems obtain n where "level (parent_of ovs) n p" by (auto simp: rooted_def)
      with par Some show ?thesis unfolding rooted_def by (intro exI [of _ "Suc n"]) simp
    qed
  qed
  then have "set (map fst ps) = set (ids ovs)" using f(2) by (auto simp: ids_def in_set_conv_nth)
  with f(1) d have "mset (map fst ps) = mset (ids ovs)" using set_eq_iff_mset_eq_distinct by blast
  with b(1) show ?thesis by blast
qed

lemma threads_show_all_witness:
  "\<exists>m flat. build_tree (take 2 sample_overviews) = Some (m, flat)
     \<and> mset flat = mset [''<1@x>'', ''<2@x>'']"
proof -
  have d: "distinct (ids (take 2 sample_overviews))" by code_simp
  have i: "ids (take 2 sample_overviews) = [''<1@x>'', ''<2@x>'']" by code_simp
  have r: "reply_to (take 2 sample_overviews) (take 2 sample_overviews ! 0) = None"
    "reply_to (take 2 sample_overviews) (take 2 sample_overviews ! 1) = Some ''<1@x>''"
    "ov_msg_id (take 2 sample_overviews ! 0) = ''<1@x>''" "length (take 2 sample_overviews) = 2"
    by code_simp+
  have "\<forall>k<length (take 2 sample_overviews). \<forall>p.
      reply_to (take 2 sample_overviews) (take 2 sample_overviews ! k) = Some p \<longrightarrow>
      (\<exists>j<k. ov_msg_id (take 2 sample_overviews ! j) = p)"
    using r by (auto simp: less_2_cases_iff)
  from threads_show_all [OF d this] show ?thesis unfolding i .
qed

lemma walk_cycle: "x \<in> set js \<Longrightarrow> x \<in> set (ch x) \<Longrightarrow> walk f ch js d = None"
proof (induction f ch js d rule: walk.induct)
  case (3 f ch i js d)
  then show ?case by (auto split: option.splits)
qed simp_all

text \<open>
  A Message-ID that occurs twice can hang the client: if one article with the id has no
  references and another article with the same id has that id as its last reference, the
  recursion that flattens the tree never ends, however deep it may go.
\<close>

theorem duplicate_id_never_ends:
  assumes "a \<in> set ovs" "b \<in> set ovs" "ov_msg_id a = x" "ov_msg_id b = x"
    and "str_fields (ov_references a) = []"
    and "str_fields (ov_references b) \<noteq> []" "last (str_fields (ov_references b)) = x"
    and "foldl link_one (make_nodes ovs, []) ovs = (m, roots)"
  shows "flatten f m [] roots 0 = None"
proof -
  note l = link_all [OF assms(8)]
  have "x \<in> set (ids ovs)" using assms(1,3) by (auto simp: ids_def)
  then have "reply_to ovs a = None" "reply_to ovs b = Some x"
    using assms(5-7) by (simp_all add: reply_to_def)
  then have "x \<in> set roots" "ov_msg_id b \<in> set (children_in m x)" using l assms(1-3) by force+
  then have "x \<in> set roots" "x \<in> set (children_in m x)" using assms(4) by simp_all
  then have "walk f (children_in m) roots 0 = None" by (rule walk_cycle)
  then show ?thesis by (simp add: flatten_walk)
qed

lemma duplicate_id_never_ends_witness:
  "case foldl link_one (make_nodes [sample_overview 1 ''<1@x>'' [], sample_overview 2 ''<1@x>'' ''<1@x>''], [])
      [sample_overview 1 ''<1@x>'' [], sample_overview 2 ''<1@x>'' ''<1@x>'']
    of (m, roots) \<Rightarrow> flatten 1000 m [] roots 0 = None"
proof -
  let ?a = "sample_overview 1 ''<1@x>'' []" and ?b = "sample_overview 2 ''<1@x>'' ''<1@x>''"
  obtain m roots where st: "foldl link_one (make_nodes [?a, ?b], []) [?a, ?b] = (m, roots)" by fastforce
  have s: "ov_msg_id ?a = ''<1@x>''" "ov_msg_id ?b = ''<1@x>''"
    "str_fields (ov_references ?a) = []" "str_fields (ov_references ?b) \<noteq> []"
    "last (str_fields (ov_references ?b)) = ''<1@x>''" by code_simp+
  have "flatten 1000 m [] roots 0 = None"
    by (rule duplicate_id_never_ends [of ?a "[?a, ?b]" ?b, OF _ _ s st]) simp_all
  with st show ?thesis by simp
qed

end
