(* ===== verification/NntpClient.thy ===== *)
theory NntpClient
  imports Wire ClientThreads
begin

text \<open>
  The news client (\<^verbatim>\<open>ops/pkgs/nntpc/nntpc.go\<close>): the \<^verbatim>\<open>App\<close> value with its two
  halves of the connection, the bytes still to come from the server (\<open>ap_in\<close>) and those sent so
  far (\<open>ap_out\<close>); the commands it sends and how it reads the replies; the key handler of
  \<^verbatim>\<open>run\<close>; signing, preview, editing and posting. What the terminal delivers is a list of
  reads, each with the number of rows the terminal has at that moment; an empty read, or the end of
  the list, is the end of standard input. The editor, minisign, the files they share and the user's
  environment are a parameter (\<open>host\<close>); programs get a running number so that they may answer
  differently each time. What is drawn on the screen is not part of the model.
\<close>

subsection \<open>State\<close>

record group_info =
  gi_name :: string
  gi_high :: int
  gi_low :: int

datatype view_state = View_groups | View_headers | View_article

record app =
  ap_in :: string
  ap_out :: string
  ap_groups :: "group_info list"
  ap_overviews :: "overview list"
  ap_nodes :: nodes
  ap_flat :: "string list"
  ap_article :: "string list"
  ap_cur_group :: string
  ap_view :: view_state
  ap_group_sel :: int
  ap_group_scroll :: int
  ap_header_sel :: int
  ap_header_scroll :: int
  ap_art_scroll :: int
  ap_status :: string
  ap_keys :: "(string \<times> int) list"
  ap_raw :: bool
  ap_runs :: nat

record host =
  h_minisign_key :: string
  h_minisign_pub :: string
  h_auto_sign :: bool
  h_user :: string
  h_home :: "string option"
  h_rows :: "nat \<Rightarrow> int"
  h_tty :: bool
  h_temp :: "nat \<Rightarrow> bool"
  h_exists :: "string \<Rightarrow> bool"
  h_has_minisign :: bool
  h_editor :: "nat \<Rightarrow> string \<Rightarrow> string option option"
  h_sign :: "nat \<Rightarrow> string \<Rightarrow> string \<Rightarrow> string + string + string"
  h_verify :: "nat \<Rightarrow> string \<Rightarrow> string \<Rightarrow> string \<Rightarrow> bool \<times> string"

text \<open>What an operation comes to: it may also panic on an index, or never return.\<close>

datatype 'a outcome = Done 'a | Panic | Hang

definition obind :: "'a outcome \<Rightarrow> ('a \<Rightarrow> 'b outcome) \<Rightarrow> 'b outcome" where
  "obind r f = (case r of Done x \<Rightarrow> f x | Panic \<Rightarrow> Panic | Hang \<Rightarrow> Hang)"

lemma obind_simps [simp]:
  "obind (Done x) f = f x" "obind Panic f = Panic" "obind Hang f = Hang"
  by (simp_all add: obind_def)

subsection \<open>Talking to the server\<close>

definition send_cmd :: "string \<Rightarrow> app \<Rightarrow> string option \<times> app" where
  "send_cmd cmd a =
     (let a = a\<lparr>ap_out := ap_out a @ cmd @ CRLF\<rparr> in
      case read_string (ap_in a) of
        None \<Rightarrow> (None, a\<lparr>ap_in := []\<rparr>)
      | Some (l, rest) \<Rightarrow> (Some (trim_eol l), a\<lparr>ap_in := rest\<rparr>))"

definition answered :: "string option \<Rightarrow> string \<Rightarrow> bool" where
  "answered resp code = (case resp of None \<Rightarrow> False | Some l \<Rightarrow> has_prefix l code)"

definition read_dot_lines :: "app \<Rightarrow> string list option \<times> app" where
  "read_dot_lines a =
     (case read_dot_block (ap_in a) of
        None \<Rightarrow> (None, a\<lparr>ap_in := []\<rparr>)
      | Some (ls, rest) \<Rightarrow> (Some ls, a\<lparr>ap_in := rest\<rparr>))"

definition group_of_line :: "string \<Rightarrow> group_info option" where
  "group_of_line l =
     (let f = str_fields l in
      if length f \<ge> 3
      then Some \<lparr>gi_name = f ! 0, gi_high = fst (atoi (f ! 1)), gi_low = fst (atoi (f ! 2))\<rparr>
      else None)"

definition fetch_groups :: "app \<Rightarrow> app" where
  "fetch_groups a =
     (case send_cmd ''LIST'' a of (resp, a) \<Rightarrow>
        if \<not> answered resp ''215'' then a\<lparr>ap_status := ''Failed to fetch groups''\<rparr>
        else (case read_dot_lines a of
                (None, a) \<Rightarrow> a
              | (Some ls, a) \<Rightarrow>
                  (let gs = List.map_filter group_of_line ls
                   in a\<lparr>ap_groups := gs,
                        ap_status := ''Loaded '' @ itoa (int (length gs)) @ '' group(s)''\<rparr>)))"

definition overview_of_line :: "string \<Rightarrow> overview option" where
  "overview_of_line l =
     (let f = split_on TAB l in
      if length f \<ge> 6
      then Some \<lparr>ov_number = fst (atoi (f ! 0)), ov_subject = f ! 1, ov_from = f ! 2, ov_date = f ! 3,
                 ov_msg_id = f ! 4, ov_references = f ! 5,
                 ov_lines = (if length f \<ge> 8 then fst (atoi (f ! 7)) else 0)\<rparr>
      else None)"

definition select_group :: "string \<Rightarrow> app \<Rightarrow> app outcome" where
  "select_group name a =
     (case send_cmd (''GROUP '' @ name) a of (resp, a) \<Rightarrow>
        if \<not> answered resp ''211'' then Done (a\<lparr>ap_status := ''Failed to select group''\<rparr>)
        else (case send_cmd ''XOVER'' (a\<lparr>ap_cur_group := name\<rparr>) of (resp, a) \<Rightarrow>
          if \<not> answered resp ''224'' then Done (a\<lparr>ap_status := ''Failed to fetch articles''\<rparr>)
          else (case read_dot_lines a of (ls, a) \<Rightarrow>
            (let ovs = List.map_filter overview_of_line (case ls of None \<Rightarrow> [] | Some ls \<Rightarrow> ls) in
             case build_tree ovs of
               None \<Rightarrow> Hang
             | Some (m, flat) \<Rightarrow>
                 Done (a\<lparr>ap_overviews := ovs, ap_nodes := m, ap_flat := flat, ap_header_sel := 0,
                   ap_header_scroll := 0, ap_view := View_headers,
                   ap_status := ''Group '' @ name @ '' ('' @ itoa (int (length flat)) @ '' articles)''\<rparr>)))))"

definition fetch_article :: "int \<Rightarrow> app \<Rightarrow> app" where
  "fetch_article num a =
     (case send_cmd (''ARTICLE '' @ itoa num) a of (resp, a) \<Rightarrow>
        if \<not> answered resp ''220'' then a\<lparr>ap_status := ''Failed to load article''\<rparr>
        else (case read_dot_lines a of (ls, a) \<Rightarrow>
          a\<lparr>ap_article := (case ls of None \<Rightarrow> [] | Some ls \<Rightarrow> ls), ap_art_scroll := 0,
            ap_view := View_article\<rparr>))"

subsection \<open>Signing and verifying\<close>

definition expand_path :: "host \<Rightarrow> string \<Rightarrow> string" where
  "expand_path h p =
     (if has_prefix p ''~/'' then (case h_home h of Some d \<Rightarrow> d @ drop 1 p | None \<Rightarrow> p) else p)"

definition restore_terminal :: "app \<Rightarrow> app" where
  "restore_terminal a = a\<lparr>ap_raw := False\<rparr>"

definition enable_raw_mode :: "host \<Rightarrow> app \<Rightarrow> app" where
  "enable_raw_mode h a = a\<lparr>ap_raw := h_tty h\<rparr>"

definition sig_marker :: string where
  "sig_marker = ''--- MINISIGN SIGNATURE ---''"

definition normalized :: "string \<Rightarrow> string" where
  "normalized body = trim_space (replace_all CRLF [LF] body)"

definition sign_content :: "host \<Rightarrow> string \<Rightarrow> app \<Rightarrow> string \<times> app" where
  "sign_content h body a =
     (if h_minisign_key h = [] then (body, a)
      else let path = expand_path h (h_minisign_key h) in
      if \<not> h_exists h path
        then (body, a\<lparr>ap_status := ''Signing aborted: Key file missing ('' @ path @ '')''\<rparr>)
      else if \<not> h_has_minisign h
        then (body, a\<lparr>ap_status := ''Signing aborted: 'minisign' not found in PATH''\<rparr>)
      else if \<not> h_temp h (ap_runs a)
        then (body, a\<lparr>ap_status := ''Sign error: temp message file failed''\<rparr>)
      else if \<not> h_temp h (Suc (ap_runs a))
        then (body, a\<lparr>ap_status := ''Sign error: temp signature file failed''\<rparr>)
      else let msg = normalized body;
               r = h_sign h (ap_runs a) path msg;
               a = enable_raw_mode h (restore_terminal (a\<lparr>ap_runs := Suc (ap_runs a)\<rparr>)) in
        (case r of
           Inl err \<Rightarrow> (body, a\<lparr>ap_status := ''Signing failed (Exit Code or Error): '' @ err\<rparr>)
         | Inr (Inl err) \<Rightarrow>
             (body, a\<lparr>ap_status := ''Minisign failed: could not read output file ('' @ err @ '')''\<rparr>)
         | Inr (Inr []) \<Rightarrow> (body, a\<lparr>ap_status := ''Minisign failed: signature file was generated empty''\<rparr>)
         | Inr (Inr sig) \<Rightarrow> (msg @ [LF, LF] @ sig_marker @ [LF] @ sig,
                              a\<lparr>ap_status := ''Post successfully signed!''\<rparr>)))"

text \<open>The message and the signature that the article shown is taken apart into.\<close>

definition signed_parts :: "string list \<Rightarrow> (string \<times> string) option" where
  "signed_parts art =
     (let full = join_with [LF] art in
      map_option (\<lambda>i. (trim_space (take i full), trim_space (drop (i + length sig_marker) full)))
        (index_of full sig_marker))"

definition verify_minisign :: "host \<Rightarrow> app \<Rightarrow> app" where
  "verify_minisign h a =
     (if h_minisign_pub h = [] then a\<lparr>ap_status := ''No public key set! Pass -minisign-pub''\<rparr>
      else let path = expand_path h (h_minisign_pub h) in
      if \<not> h_exists h path then a\<lparr>ap_status := ''Public key missing: '' @ path\<rparr>
      else if \<not> h_has_minisign h then a\<lparr>ap_status := ''CLI Error: 'minisign' not in PATH''\<rparr>
      else (case signed_parts (ap_article a) of
        None \<Rightarrow> a\<lparr>ap_status := ''No Minisign signature block found in post''\<rparr>
      | Some (msg, sig) \<Rightarrow>
          if \<not> h_temp h (ap_runs a) then a\<lparr>ap_status := ''Verification failed (temp file error)''\<rparr>
          else if \<not> h_temp h (Suc (ap_runs a)) then a\<lparr>ap_status := ''Verification failed (temp sig error)''\<rparr>
          else (case h_verify h (ap_runs a) path msg sig of (good, out) \<Rightarrow>
            a\<lparr>ap_runs := Suc (ap_runs a),
              ap_status := (if good then ''VALID SIGNATURE! Verified with Minisign.''
                            else ''INVALID SIGNATURE: '' @ trim_space out)\<rparr>)))"

subsection \<open>Preview, editing and posting\<close>

definition is_key :: "string \<Rightarrow> string \<Rightarrow> bool" where
  "is_key buf ks \<longleftrightarrow> hd buf \<in> set ks"

text \<open>An arrow key arrives as three bytes.\<close>

definition is_down :: "string \<Rightarrow> bool" where
  "is_down buf \<longleftrightarrow> hd buf = CHR ''j'' \<or> (length buf = 3 \<and> buf ! 2 = CHR ''B'')"

definition is_up :: "string \<Rightarrow> bool" where
  "is_up buf \<longleftrightarrow> hd buf = CHR ''k'' \<or> (length buf = 3 \<and> buf ! 2 = CHR ''A'')"

text \<open>The preview answers the question and tells whether the user cancelled: \<open>view\<close> rows of \<open>n\<close>
  lines are shown from \<open>scroll\<close> on.\<close>

fun preview :: "int \<Rightarrow> int \<Rightarrow> int \<Rightarrow> (string \<times> int) list \<Rightarrow> bool \<times> bool \<times> (string \<times> int) list" where
  "preview view n scroll [] = (False, False, [])"
| "preview view n scroll ((buf, _) # ks) =
     (if buf = [] then (False, False, ks)
      else if is_key buf ''yY'' then (True, False, ks)
      else if is_key buf ''cCq'' then (False, True, ks)
      else if is_key buf ''eE'' then (False, False, ks)
      else if is_down buf then preview view n (if scroll < n - view then scroll + 1 else scroll) ks
      else if is_up buf then preview view n (if scroll > 0 then scroll - 1 else scroll) ks
      else preview view n scroll ks)"

definition confirm_and_post :: "host \<Rightarrow> string \<Rightarrow> string \<Rightarrow> app \<Rightarrow> bool \<times> app" where
  "confirm_and_post h header_block body_block a =
     (let lines = split_on LF (header_block @ CRLF @ CRLF @ body_block);
          view = h_rows h (ap_runs a) - (if ap_status a \<noteq> [] then 6 else 5)
      in (case preview (if view < 1 then 1 else view) (int (length lines)) 0 (ap_keys a) of
            (yes, cancelled, ks) \<Rightarrow>
              (yes, a\<lparr>ap_keys := ks,
                ap_status := (if cancelled then ''Post cancelled by user'' else ap_status a)\<rparr>)))"

definition cut_article :: "string \<Rightarrow> string \<times> string" where
  "cut_article content =
     (let full = replace_all CRLF [LF] content in
      case index_of full [LF, LF] of
        None \<Rightarrow> (full, [])
      | Some i \<Rightarrow> (take i full, drop (i + 2) full))"

definition wire_article :: "string \<Rightarrow> string \<Rightarrow> string" where
  "wire_article header_block body_block =
     concat (map (\<lambda>l. l @ CRLF) (filter (\<lambda>l. trim_space l \<noteq> []) (split_on LF header_block)))
     @ CRLF @ write_dot_block (split_on LF body_block)"

definition send_article :: "string \<Rightarrow> string \<Rightarrow> app \<Rightarrow> app outcome" where
  "send_article header_block body_block a =
     (case send_cmd ''POST'' a of (resp, a) \<Rightarrow>
        if \<not> answered resp ''340'' then Done (a\<lparr>ap_status := ''Posting not allowed by server''\<rparr>)
        else (let a = a\<lparr>ap_out := ap_out a @ wire_article header_block body_block\<rparr>;
                  (resp, rest) = (case read_string (ap_in a) of
                     None \<Rightarrow> (ap_in a, []) | Some (l, rest) \<Rightarrow> (l, rest));
                  a = a\<lparr>ap_in := rest\<rparr>
              in if has_prefix resp ''240''
                 then select_group (ap_cur_group a) (a\<lparr>ap_status := ''Article posted successfully!''\<rparr>)
                 else Done (a\<lparr>ap_status := ''Post failed: '' @ resp\<rparr>)))"

definition new_post :: "host \<Rightarrow> app \<Rightarrow> string" where
  "new_post h a = ''Newsgroups: '' @ ap_cur_group a @ [LF] @ ''From: '' @ h_user h
     @ '' <user@nntpc>'' @ [LF] @ ''Subject: '' @ [LF, LF]"

text \<open>One round of the loop over editing and previewing: it ends the loop with a result, or asks
  for another round on the edited text. \<open>f\<close> bounds the rounds.\<close>

definition edit_round :: "host \<Rightarrow> string \<Rightarrow> app \<Rightarrow> app outcome + string \<times> app" where
  "edit_round h content a =
     (let a = restore_terminal a in
      if \<not> h_temp h (ap_runs a)
        then Inl (Done (enable_raw_mode h (a\<lparr>ap_status := ''Failed to create temp file''\<rparr>)))
      else let content = (if content = [] then new_post h a else content);
               edited = h_editor h (ap_runs a) content;
               a = enable_raw_mode h (a\<lparr>ap_runs := Suc (ap_runs a)\<rparr>) in
      (case edited of
         None \<Rightarrow> Inl (Done (a\<lparr>ap_status := ''Editing cancelled''\<rparr>))
       | Some None \<Rightarrow> Inl (Done (a\<lparr>ap_status := ''Post empty or unreadable''\<rparr>))
       | Some (Some []) \<Rightarrow> Inl (Done (a\<lparr>ap_status := ''Post empty or unreadable''\<rparr>))
       | Some (Some text) \<Rightarrow>
           (case cut_article text of (header_block, body_block) \<Rightarrow>
            (case (if h_minisign_key h \<noteq> [] \<and> h_auto_sign h then sign_content h body_block a
                   else (body_block, a)) of (body_block, a) \<Rightarrow>
             (case confirm_and_post h header_block body_block a of
                (True, a) \<Rightarrow> Inl (send_article header_block body_block a)
              | (False, a) \<Rightarrow>
                  if has_prefix (ap_status a) ''Post cancelled'' then Inl (Done a) else Inr (text, a))))))"

fun edit_loop :: "nat \<Rightarrow> host \<Rightarrow> string \<Rightarrow> app \<Rightarrow> app outcome" where
  "edit_loop 0 h content a = Hang"
| "edit_loop (Suc f) h content a =
     (case edit_round h content a of Inl r \<Rightarrow> r | Inr (text, a) \<Rightarrow> edit_loop f h text a)"

definition edit_and_post_article :: "nat \<Rightarrow> host \<Rightarrow> string \<Rightarrow> app \<Rightarrow> app outcome" where
  "edit_and_post_article f h content a = edit_loop f h content (a\<lparr>ap_status := []\<rparr>)"

text \<open>A line from the terminal outside raw mode; the reader's buffer, and with it the rest of the
  last read, is dropped.\<close>

fun read_key_line :: "string \<Rightarrow> (string \<times> int) list \<Rightarrow> string \<times> (string \<times> int) list" where
  "read_key_line acc [] = (acc, [])"
| "read_key_line acc ((buf, _) # ks) =
     (if buf = [] then (acc, ks)
      else if LF \<in> set buf then (acc @ takeWhile (\<lambda>c. c \<noteq> LF) buf @ [LF], ks)
      else read_key_line (acc @ buf) ks)"

definition create_newsgroup :: "nat \<Rightarrow> host \<Rightarrow> app \<Rightarrow> app outcome" where
  "create_newsgroup f h a =
     (case read_key_line [] (ap_keys a) of (l, ks) \<Rightarrow>
      let a = enable_raw_mode h (restore_terminal (a\<lparr>ap_keys := ks\<rparr>)); name = trim_space l in
      if name = [] then Done (a\<lparr>ap_status := ''Cancelled group creation''\<rparr>)
      else obind (edit_and_post_article f h (''Newsgroups: '' @ name @ [LF] @ ''From: '' @ h_user h
               @ '' <user@nntpc>'' @ [LF] @ ''Subject: Group Created'' @ [LF, LF] @ ''Welcome to '' @ name @ ''!'')
               (a\<lparr>ap_cur_group := name\<rparr>))
             (\<lambda>a. Done (fetch_groups a)))"

definition shown_article :: "app \<Rightarrow> int \<Rightarrow> overview option" where
  "shown_article a i =
     (if 0 \<le> i \<and> i < int (length (ap_flat a))
      then map_option tn_article (ap_nodes a (ap_flat a ! nat i)) else None)"

definition reply_template :: "host \<Rightarrow> app \<Rightarrow> overview \<Rightarrow> string" where
  "reply_template h a target =
     (let subj = (if has_prefix (to_lower (ov_subject target)) ''re:'' then ov_subject target
                  else ''Re: '' @ ov_subject target);
          refs = (if ov_references target \<noteq> [] then ov_references target @ '' '' @ ov_msg_id target
                  else ov_msg_id target)
      in ''Newsgroups: '' @ ap_cur_group a @ [LF] @ ''From: '' @ h_user h @ '' <user@nntpc>'' @ [LF]
         @ ''Subject: '' @ subj @ [LF] @ ''References: '' @ refs @ [LF, LF]
         @ concat (map (\<lambda>l. ''> '' @ l @ [LF]) (ap_article a)))"

definition reply_article :: "nat \<Rightarrow> host \<Rightarrow> app \<Rightarrow> app outcome" where
  "reply_article f h a =
     (if ap_flat a = [] \<or> ap_header_sel a \<ge> int (length (ap_flat a)) then Done a
      else (case shown_article a (ap_header_sel a) of
              None \<Rightarrow> Panic
            | Some target \<Rightarrow> edit_and_post_article f h (reply_template h a target) a))"

subsection \<open>The keys\<close>

definition content_rows :: "int \<Rightarrow> int" where
  "content_rows rows = (if rows - 4 < 1 then 1 else rows - 4)"

definition step_down :: "int \<Rightarrow> int \<Rightarrow> int \<times> int \<Rightarrow> int \<times> int" where
  "step_down rows n p = (case p of (sel, scroll) \<Rightarrow>
     if sel < n - 1
     then (sel + 1, if sel + 1 \<ge> scroll + content_rows rows - 1 then scroll + 1 else scroll)
     else (sel, scroll))"

definition step_up :: "int \<times> int \<Rightarrow> int \<times> int" where
  "step_up p = (case p of (sel, scroll) \<Rightarrow>
     if sel > 0 then (sel - 1, if sel - 1 < scroll then sel - 1 else scroll) else (sel, scroll))"

definition handle_groups :: "nat \<Rightarrow> host \<Rightarrow> string \<Rightarrow> int \<Rightarrow> app \<Rightarrow> app outcome" where
  "handle_groups f h buf rows a =
     (if is_down buf then
        (case step_down rows (int (length (ap_groups a))) (ap_group_sel a, ap_group_scroll a) of
           (sel, scroll) \<Rightarrow> Done (a\<lparr>ap_group_sel := sel, ap_group_scroll := scroll\<rparr>))
      else if is_up buf then
        (case step_up (ap_group_sel a, ap_group_scroll a) of
           (sel, scroll) \<Rightarrow> Done (a\<lparr>ap_group_sel := sel, ap_group_scroll := scroll\<rparr>))
      else if is_key buf [CR, LF] then
        (if ap_groups a = [] then Done a
         else if ap_group_sel a < 0 \<or> ap_group_sel a \<ge> int (length (ap_groups a)) then Panic
         else select_group (gi_name (ap_groups a ! nat (ap_group_sel a))) a)
      else if is_key buf ''c'' then create_newsgroup f h a
      else Done a)"

definition handle_headers :: "nat \<Rightarrow> host \<Rightarrow> string \<Rightarrow> int \<Rightarrow> app \<Rightarrow> app outcome" where
  "handle_headers f h buf rows a =
     (if is_down buf then
        (case step_down rows (int (length (ap_flat a))) (ap_header_sel a, ap_header_scroll a) of
           (sel, scroll) \<Rightarrow> Done (a\<lparr>ap_header_sel := sel, ap_header_scroll := scroll\<rparr>))
      else if is_up buf then
        (case step_up (ap_header_sel a, ap_header_scroll a) of
           (sel, scroll) \<Rightarrow> Done (a\<lparr>ap_header_sel := sel, ap_header_scroll := scroll\<rparr>))
      else if is_key buf [CR, LF] then
        (if ap_flat a = [] then Done a
         else (case shown_article a (ap_header_sel a) of
                 None \<Rightarrow> Panic
               | Some target \<Rightarrow> Done (fetch_article (ov_number target) a)))
      else if is_key buf ''b'' then Done (a\<lparr>ap_view := View_groups\<rparr>)
      else if is_key buf ''p'' then edit_and_post_article f h [] a
      else if is_key buf ''r'' then reply_article f h a
      else Done a)"

definition handle_article :: "nat \<Rightarrow> host \<Rightarrow> string \<Rightarrow> app \<Rightarrow> app outcome" where
  "handle_article f h buf a =
     (if is_down buf then
        Done (if ap_art_scroll a < int (length (ap_article a)) - 1
              then a\<lparr>ap_art_scroll := ap_art_scroll a + 1\<rparr> else a)
      else if is_up buf then
        Done (if ap_art_scroll a > 0 then a\<lparr>ap_art_scroll := ap_art_scroll a - 1\<rparr> else a)
      else if is_key buf ''b'' then Done (a\<lparr>ap_view := View_headers\<rparr>)
      else if is_key buf ''r'' then reply_article f h a
      else if is_key buf ''v'' then Done (verify_minisign h a)
      else Done a)"

definition handle_key :: "nat \<Rightarrow> host \<Rightarrow> string \<Rightarrow> int \<Rightarrow> app \<Rightarrow> app outcome" where
  "handle_key f h buf rows a =
     (case ap_view a of
        View_groups \<Rightarrow> handle_groups f h buf rows a
      | View_headers \<Rightarrow> handle_headers f h buf rows a
      | View_article \<Rightarrow> handle_article f h buf a)"

subsection \<open>Cursors stay in range\<close>

definition nav_ok :: "app \<Rightarrow> bool" where
  "nav_ok a \<longleftrightarrow> 0 \<le> ap_group_scroll a \<and> ap_group_scroll a \<le> ap_group_sel a
     \<and> 0 \<le> ap_header_scroll a \<and> ap_header_scroll a \<le> ap_header_sel a
     \<and> (if ap_flat a = [] then ap_header_sel a = 0 else ap_header_sel a < int (length (ap_flat a)))
     \<and> 0 \<le> ap_art_scroll a \<and> (ap_art_scroll a = 0 \<or> ap_art_scroll a < int (length (ap_article a)))
     \<and> (\<forall>i\<in>set (ap_flat a). ap_nodes a i \<noteq> None)"

text \<open>The fields the cursors depend on, so that an operation that leaves them alone keeps \<open>nav_ok\<close>.\<close>

definition nav_view :: "app \<Rightarrow> (int \<times> int \<times> int \<times> int \<times> int) \<times> string list \<times> nodes \<times> string list" where
  "nav_view a = ((ap_group_sel a, ap_group_scroll a, ap_header_sel a, ap_header_scroll a, ap_art_scroll a),
     ap_flat a, ap_nodes a, ap_article a)"

lemma nav_view_ok: "nav_view a = nav_view b \<Longrightarrow> nav_ok a = nav_ok b"
  by (simp add: nav_view_def nav_ok_def)

lemma send_cmd_nav: "send_cmd c a = (r, a') \<Longrightarrow> nav_view a' = nav_view a"
  by (auto simp: send_cmd_def Let_def nav_view_def split: option.splits)

lemma read_dot_lines_nav: "read_dot_lines a = (r, a') \<Longrightarrow> nav_view a' = nav_view a"
  by (auto simp: read_dot_lines_def nav_view_def split: option.splits)

lemma nav_updates [simp]:
  "nav_view (a\<lparr>ap_status := x\<rparr>) = nav_view a" "nav_view (a\<lparr>ap_keys := k\<rparr>) = nav_view a"
  "nav_view (a\<lparr>ap_cur_group := x\<rparr>) = nav_view a" "nav_view (a\<lparr>ap_raw := b\<rparr>) = nav_view a"
  "nav_view (a\<lparr>ap_runs := n\<rparr>) = nav_view a" "nav_view (a\<lparr>ap_in := x\<rparr>) = nav_view a"
  "nav_view (a\<lparr>ap_out := x\<rparr>) = nav_view a" "nav_view (a\<lparr>ap_view := v\<rparr>) = nav_view a"
  "nav_view (a\<lparr>ap_groups := g\<rparr>) = nav_view a"
  "nav_view (enable_raw_mode h a) = nav_view a" "nav_view (restore_terminal a) = nav_view a"
  by (simp_all add: nav_view_def enable_raw_mode_def restore_terminal_def)

lemma nav_ok_updates [simp]:
  "nav_ok (a\<lparr>ap_status := x\<rparr>) = nav_ok a" "nav_ok (a\<lparr>ap_keys := k\<rparr>) = nav_ok a"
  "nav_ok (a\<lparr>ap_cur_group := x\<rparr>) = nav_ok a" "nav_ok (a\<lparr>ap_view := v\<rparr>) = nav_ok a"
  "nav_ok (a\<lparr>ap_in := x\<rparr>) = nav_ok a" "nav_ok (a\<lparr>ap_out := x\<rparr>) = nav_ok a"
  "nav_ok (enable_raw_mode h a) = nav_ok a" "nav_ok (restore_terminal a) = nav_ok a"
  by (rule nav_view_ok; simp)+

subsection \<open>The keys are used up\<close>

lemma obind_Done: "obind r f = Done y \<longleftrightarrow> (\<exists>x. r = Done x \<and> f x = Done y)"
  by (cases r) simp_all

lemma send_cmd_keeps:
  "send_cmd c a = (r, a') \<Longrightarrow> ap_keys a' = ap_keys a \<and> ap_raw a' = ap_raw a \<and> ap_status a' = ap_status a"
  by (auto simp: send_cmd_def Let_def split: option.splits)

lemma read_dot_lines_keeps:
  "read_dot_lines a = (r, a') \<Longrightarrow> ap_keys a' = ap_keys a \<and> ap_raw a' = ap_raw a"
  by (auto simp: read_dot_lines_def split: option.splits)

lemma fetch_groups_keeps: "ap_keys (fetch_groups a) = ap_keys a" "ap_raw (fetch_groups a) = ap_raw a"
  by (auto simp: fetch_groups_def Let_def dest!: send_cmd_keeps read_dot_lines_keeps
      split: prod.splits option.splits)

lemma fetch_article_keeps: "ap_keys (fetch_article n a) = ap_keys a" "ap_raw (fetch_article n a) = ap_raw a"
  by (auto simp: fetch_article_def Let_def dest!: send_cmd_keeps read_dot_lines_keeps
      split: prod.splits option.splits)

lemma select_group_keeps:
  "select_group n a = Done a' \<Longrightarrow> ap_keys a' = ap_keys a \<and> ap_raw a' = ap_raw a"
  by (auto simp: select_group_def Let_def dest!: send_cmd_keeps read_dot_lines_keeps
      split: prod.splits option.splits if_splits)

lemma send_article_keeps:
  "send_article hb bb a = Done a' \<Longrightarrow> ap_keys a' = ap_keys a \<and> ap_raw a' = ap_raw a"
  by (auto simp: send_article_def Let_def dest!: send_cmd_keeps select_group_keeps
      split: prod.splits option.splits if_splits)

lemma sign_content_keeps:
  "sign_content h body a = (body', a') \<Longrightarrow> ap_keys a' = ap_keys a"
  by (auto simp: sign_content_def Let_def enable_raw_mode_def restore_terminal_def
      split: if_splits sum.splits list.splits)

lemma verify_keeps: "ap_keys (verify_minisign h a) = ap_keys a" "ap_raw (verify_minisign h a) = ap_raw a"
  by (auto simp: verify_minisign_def Let_def split: option.splits prod.splits)

lemma preview_length: "preview v n sc ks = (y, c, ks') \<Longrightarrow> length ks' \<le> length ks"
  by (induction v n sc ks rule: preview.induct) (auto split: if_splits)

lemma confirm_keys:
  "confirm_and_post h hb bb a = (y, a') \<Longrightarrow> length (ap_keys a') \<le> length (ap_keys a)"
  by (auto simp: confirm_and_post_def Let_def dest!: preview_length split: prod.splits)

text \<open>How a round goes: it stops early, or gets to the preview.\<close>

lemma edit_round_cases:
  obtains (stop) a' where "edit_round h c a = Inl (Done a')" "ap_keys a' = ap_keys a" "ap_raw a' = h_tty h"
    "nav_view a' = nav_view a"
  | (asked) tx hb bb a2 y a3 where
    "ap_keys a2 = ap_keys a" "ap_raw a2 = h_tty h" "nav_view a2 = nav_view a"
    "confirm_and_post h hb bb a2 = (y, a3)"
    "edit_round h c a = (if y then Inl (send_article hb bb a3)
       else if has_prefix (ap_status a3) ''Post cancelled'' then Inl (Done a3) else Inr (tx, a3))"
proof -
  let ?a0 = "restore_terminal a"
  let ?c = "if c = [] then new_post h ?a0 else c"
  let ?a1 = "enable_raw_mode h (?a0\<lparr>ap_runs := Suc (ap_runs ?a0)\<rparr>)"
  have k: "ap_keys ?a1 = ap_keys a" "ap_raw ?a1 = h_tty h" "ap_raw (enable_raw_mode h b) = h_tty h"
    "ap_keys (enable_raw_mode h ?a0) = ap_keys a" for b
    by (simp_all add: enable_raw_mode_def restore_terminal_def)
  show thesis
  proof (cases "h_temp h (ap_runs ?a0)")
    case False
    then show thesis
      by (intro stop [of "enable_raw_mode h (?a0\<lparr>ap_status := ''Failed to create temp file''\<rparr>)"])
        (simp_all add: edit_round_def Let_def enable_raw_mode_def restore_terminal_def)
  next
    case t: True
    show thesis
    proof (cases "h_editor h (ap_runs ?a0) ?c = None \<or> (\<exists>e. h_editor h (ap_runs ?a0) ?c = Some e \<and> (e = None \<or> e = Some []))")
      case True
      then obtain s where "edit_round h c a = Inl (Done (?a1\<lparr>ap_status := s\<rparr>))"
        using t by (auto simp: edit_round_def Let_def)
      then show thesis by (rule stop) (use k in simp_all)
    next
      case False
      then obtain x xs where ed: "h_editor h (ap_runs ?a0) ?c = Some (Some (x # xs))"
        by (metis list.exhaust option.exhaust)
      obtain hb bb where cut: "cut_article (x # xs) = (hb, bb)" by fastforce
      obtain bb' a2 where sg: "(if h_minisign_key h \<noteq> [] \<and> h_auto_sign h then sign_content h bb ?a1
          else (bb, ?a1)) = (bb', a2)" by fastforce
      obtain y a3 where cf: "confirm_and_post h hb bb' a2 = (y, a3)" by fastforce
      have "ap_keys a2 = ap_keys a \<and> ap_raw a2 = h_tty h \<and> nav_view a2 = nav_view a"
        using sg k by (auto simp: sign_content_def Let_def enable_raw_mode_def restore_terminal_def
            split: if_splits sum.splits list.splits)
      moreover have "edit_round h c a = (if y then Inl (send_article hb bb' a3)
         else if has_prefix (ap_status a3) ''Post cancelled'' then Inl (Done a3) else Inr (x # xs, a3))"
        using t ed cut sg cf by (simp add: edit_round_def Let_def split: bool.split)
      ultimately show thesis using cf asked by blast
    qed
  qed
qed

lemma edit_loop_keys:
  "edit_loop f h c a = Done a' \<Longrightarrow> length (ap_keys a') \<le> length (ap_keys a)"
proof (induction f h c a rule: edit_loop.induct)
  case (2 f h c a)
  show ?case
  proof (cases rule: edit_round_cases [of h c a])
    case (asked tx hb bb a2 y a3)
    note le = confirm_keys [OF asked(4)]
    show ?thesis
    proof (cases "edit_round h c a")
      case (Inl r)
      with 2(2) have "r = Done a'" by simp
      with Inl asked(5) have "a' = a3 \<or> send_article hb bb a3 = Done a'" by (auto split: if_splits)
      with le asked(1) show ?thesis by (auto dest!: send_article_keeps)
    next
      case (Inr p)
      with asked(5) have p: "p = (tx, a3)" by (auto split: if_splits)
      with 2 Inr have "length (ap_keys a') \<le> length (ap_keys a3)" by simp
      with le asked(1) show ?thesis by simp
    qed
  qed (use 2 in simp)
qed simp

lemma edit_and_post_keys:
  "edit_and_post_article f h c a = Done a' \<Longrightarrow> length (ap_keys a') \<le> length (ap_keys a)"
  using edit_loop_keys [of f h c "a\<lparr>ap_status := []\<rparr>"] by (simp add: edit_and_post_article_def)

lemma read_key_line_length: "read_key_line acc ks = (l, ks') \<Longrightarrow> length ks' \<le> length ks"
  by (induction acc ks rule: read_key_line.induct) (auto split: if_splits)

lemma create_newsgroup_keys:
  assumes "create_newsgroup f h a = Done a'"
  shows "length (ap_keys a') \<le> length (ap_keys a)"
proof -
  obtain l ks where r: "read_key_line [] (ap_keys a) = (l, ks)" by fastforce
  then have ks: "length ks \<le> length (ap_keys a)" by (rule read_key_line_length)
  from assms r show ?thesis
    using ks by (force simp: create_newsgroup_def Let_def obind_Done fetch_groups_keeps enable_raw_mode_def
        restore_terminal_def dest!: edit_and_post_keys split: if_splits)
qed

lemma reply_keys: "reply_article f h a = Done a' \<Longrightarrow> length (ap_keys a') \<le> length (ap_keys a)"
  by (auto simp: reply_article_def dest!: edit_and_post_keys split: if_splits option.splits)

lemma handle_key_keys:
  assumes "handle_key f h buf rows a = Done a'"
  shows "length (ap_keys a') \<le> length (ap_keys a)"
proof (cases "ap_view a")
  case View_groups
  with assms show ?thesis
    by (auto simp: handle_key_def handle_groups_def dest!: select_group_keeps create_newsgroup_keys
        split: if_splits prod.splits)
next
  case View_headers
  with assms show ?thesis
    by (auto simp: handle_key_def handle_headers_def fetch_article_keeps dest!: edit_and_post_keys reply_keys
        split: if_splits prod.splits option.splits)
next
  case View_article
  with assms show ?thesis
    by (auto simp: handle_key_def handle_article_def verify_keeps dest!: reply_keys split: if_splits)
qed

text \<open>The main loop: it ends at q and at the end of the input.\<close>

function run :: "host \<Rightarrow> nat \<Rightarrow> app \<Rightarrow> app outcome" where
  "run h f a =
     (case ap_keys a of
        [] \<Rightarrow> Done a
      | (buf, rows) # ks \<Rightarrow>
          (let a = a\<lparr>ap_keys := ks\<rparr> in
           if buf = [] \<or> hd buf = CHR ''q'' then Done a
           else (case handle_key f h buf rows a of
                   Done a' \<Rightarrow> run h f a' | Panic \<Rightarrow> Panic | Hang \<Rightarrow> Hang)))"
  by pat_completeness auto
termination
  by (relation "measure (\<lambda>(h, f, a). length (ap_keys a))") (fastforce dest: handle_key_keys)+

declare run.simps [simp del]

lemma fetch_groups_nav: "nav_view (fetch_groups a) = nav_view a"
  by (auto simp: fetch_groups_def Let_def dest!: send_cmd_nav read_dot_lines_nav
      split: prod.splits option.splits)

lemma select_group_nav:
  assumes "select_group n a = Done a'" "nav_ok a"
  shows "nav_ok a'"
proof -
  obtain r1 a1 where s1: "send_cmd (''GROUP '' @ n) a = (r1, a1)" by fastforce
  obtain r2 a2 where s2: "send_cmd ''XOVER'' (a1\<lparr>ap_cur_group := n\<rparr>) = (r2, a2)" by fastforce
  obtain ls a3 where s3: "read_dot_lines a2 = (ls, a3)" by fastforce
  have v: "nav_view a1 = nav_view a" "nav_view a2 = nav_view a" "nav_view a3 = nav_view a"
    using send_cmd_nav [OF s1] send_cmd_nav [OF s2] read_dot_lines_nav [OF s3] by simp_all
  note ok = v [THEN nav_view_ok]
  let ?ovs = "List.map_filter overview_of_line (case ls of None \<Rightarrow> [] | Some ls \<Rightarrow> ls)"
  show ?thesis
  proof (cases "answered r1 ''211'' \<and> answered r2 ''224''")
    case False
    with assms ok s1 s2 show ?thesis by (auto simp: select_group_def split: if_splits)
  next
    case True
    with assms(1) s1 s2 s3 obtain m flat s where b: "build_tree ?ovs = Some (m, flat)"
      "a' = a3\<lparr>ap_overviews := ?ovs, ap_nodes := m, ap_flat := flat, ap_header_sel := 0,
          ap_header_scroll := 0, ap_view := View_headers, ap_status := s\<rparr>"
      by (auto simp: select_group_def Let_def split: option.splits)
    from build_tree_nodes [OF b(1)] have "\<forall>i\<in>set flat. m i \<noteq> None" by blast
    with assms(2) ok b(2) show ?thesis by (auto simp: nav_ok_def)
  qed
qed

lemma send_article_nav: "send_article hb bb a = Done a' \<Longrightarrow> nav_ok a \<Longrightarrow> nav_ok a'"
  by (auto simp: send_article_def Let_def dest!: send_cmd_nav nav_view_ok intro: select_group_nav
      split: prod.splits option.splits if_splits elim!: select_group_nav)

lemma confirm_nav: "confirm_and_post h hb bb a = (y, a') \<Longrightarrow> nav_view a' = nav_view a"
  by (auto simp: confirm_and_post_def Let_def split: prod.splits)

lemma edit_loop_nav: "edit_loop f h c a = Done a' \<Longrightarrow> nav_ok a \<Longrightarrow> nav_ok a'"
proof (induction f h c a rule: edit_loop.induct)
  case (2 f h c a)
  show ?case
  proof (cases rule: edit_round_cases [of h c a])
    case (stop a1)
    with 2(2,3) nav_view_ok [OF stop(4)] show ?thesis by simp
  next
    case (asked tx hb bb a2 y a3)
    have ok: "nav_ok a3"
      using 2(3) nav_view_ok [OF asked(3)] nav_view_ok [OF confirm_nav [OF asked(4)]] by simp
    show ?thesis
    proof (cases "edit_round h c a")
      case (Inl r)
      with 2(2) have "r = Done a'" by simp
      with Inl asked(5) have "a' = a3 \<or> send_article hb bb a3 = Done a'" by (auto split: if_splits)
      with ok send_article_nav show ?thesis by blast
    next
      case (Inr p)
      with asked(5) have "p = (tx, a3)" by (auto split: if_splits)
      with 2 Inr ok show ?thesis by simp
    qed
  qed
qed simp

lemma edit_and_post_nav: "edit_and_post_article f h c a = Done a' \<Longrightarrow> nav_ok a \<Longrightarrow> nav_ok a'"
  using edit_loop_nav [of f h c "a\<lparr>ap_status := []\<rparr>"] by (simp add: edit_and_post_article_def)

lemma create_newsgroup_nav: "create_newsgroup f h a = Done a' \<Longrightarrow> nav_ok a \<Longrightarrow> nav_ok a'"
  by (auto simp: create_newsgroup_def Let_def obind_Done nav_view_ok [OF fetch_groups_nav]
      dest!: edit_and_post_nav split: prod.splits if_splits)

lemma reply_nav: "reply_article f h a = Done a' \<Longrightarrow> nav_ok a \<Longrightarrow> nav_ok a'"
  by (auto simp: reply_article_def dest!: edit_and_post_nav split: if_splits option.splits)

lemma fetch_article_nav: "nav_ok a \<Longrightarrow> nav_ok (fetch_article n a)"
  by (auto simp: fetch_article_def dest!: send_cmd_nav read_dot_lines_nav nav_view_ok split: prod.splits)
    (auto simp: nav_ok_def)

lemma verify_nav: "nav_view (verify_minisign h a) = nav_view a"
  by (auto simp: verify_minisign_def Let_def nav_view_def split: option.splits prod.splits)

lemma step_down_range:
  "0 \<le> sc \<Longrightarrow> sc \<le> sel \<Longrightarrow> step_down rows n (sel, sc) = (sel', sc') \<Longrightarrow>
     0 \<le> sc' \<and> sc' \<le> sel' \<and> sel \<le> sel' \<and> (sel' = sel \<or> sel' < n)"
  by (auto simp: step_down_def split: if_splits)

lemma step_up_range:
  "0 \<le> sc \<Longrightarrow> sc \<le> sel \<Longrightarrow> step_up (sel, sc) = (sel', sc') \<Longrightarrow>
     0 \<le> sc' \<and> sc' \<le> sel' \<and> sel' \<le> sel \<and> (sel = 0 \<longrightarrow> sel' = 0)"
  by (auto simp: step_up_def split: if_splits)

lemma handle_groups_nav:
  assumes "handle_groups f h buf rows a = Done a'" "nav_ok a"
  shows "nav_ok a'"
proof -
  have moved: "nav_ok (a\<lparr>ap_group_sel := sel, ap_group_scroll := sc\<rparr>)" if "0 \<le> sc" "sc \<le> sel" for sel sc
    using assms(2) that by (auto simp: nav_ok_def)
  have r: "0 \<le> ap_group_scroll a" "ap_group_scroll a \<le> ap_group_sel a" using assms(2) by (simp_all add: nav_ok_def)
  from assms show ?thesis
    by (auto simp: handle_groups_def intro!: moved elim!: select_group_nav create_newsgroup_nav
        dest!: step_down_range [OF r] step_up_range [OF r] split: if_splits prod.splits)
qed

lemma handle_headers_nav:
  assumes "handle_headers f h buf rows a = Done a'" "nav_ok a"
  shows "nav_ok a'"
proof -
  have moved: "nav_ok (a\<lparr>ap_header_sel := sel, ap_header_scroll := sc\<rparr>)"
    if "0 \<le> sc" "sc \<le> sel" "if ap_flat a = [] then sel = 0 else sel < int (length (ap_flat a))" for sel sc
    using assms(2) that by (auto simp: nav_ok_def)
  have r: "0 \<le> ap_header_scroll a" "ap_header_scroll a \<le> ap_header_sel a"
    "if ap_flat a = [] then ap_header_sel a = 0 else ap_header_sel a < int (length (ap_flat a))"
    using assms(2) by (simp_all add: nav_ok_def)
  obtain s1 c1 where sd: "step_down rows (int (length (ap_flat a))) (ap_header_sel a, ap_header_scroll a) = (s1, c1)"
    by fastforce
  obtain s2 c2 where su: "step_up (ap_header_sel a, ap_header_scroll a) = (s2, c2)" by fastforce
  have "nav_ok (a\<lparr>ap_header_sel := s1, ap_header_scroll := c1\<rparr>)"
    by (rule moved) (use step_down_range [OF r(1,2) sd] r in \<open>auto split: if_splits\<close>)
  moreover have "nav_ok (a\<lparr>ap_header_sel := s2, ap_header_scroll := c2\<rparr>)"
    by (rule moved) (use step_up_range [OF r(1,2) su] r in \<open>auto split: if_splits\<close>)
  ultimately show ?thesis
    using assms by (auto simp: handle_headers_def sd su elim!: edit_and_post_nav reply_nav fetch_article_nav
        split: if_splits option.splits)
qed

lemma handle_article_nav: "handle_article f h buf a = Done a' \<Longrightarrow> nav_ok a \<Longrightarrow> nav_ok a'"
  by (auto simp: handle_article_def nav_view_ok [OF verify_nav] elim!: reply_nav split: if_splits)
    (auto simp: nav_ok_def)

lemma handle_key_nav: "handle_key f h buf rows a = Done a' \<Longrightarrow> nav_ok a \<Longrightarrow> nav_ok a'"
  by (auto simp: handle_key_def elim!: handle_groups_nav handle_headers_nav handle_article_nav
      split: view_state.splits)

subsection \<open>Where it panics\<close>

lemma select_group_no_panic: "select_group n a \<noteq> Panic"
  by (auto simp: select_group_def Let_def split: prod.splits option.splits)

lemma send_article_no_panic: "send_article hb bb a \<noteq> Panic"
  using select_group_no_panic by (auto simp: send_article_def Let_def split: prod.splits option.splits)

lemma edit_loop_no_panic: "edit_loop f h c a \<noteq> Panic"
proof (induction f h c a rule: edit_loop.induct)
  case (2 f h c a)
  then show ?case
    by (cases rule: edit_round_cases [of h c a]) (auto simp: send_article_no_panic split: if_splits)
qed simp

lemma edit_and_post_no_panic: "edit_and_post_article f h c a \<noteq> Panic"
  by (simp add: edit_and_post_article_def edit_loop_no_panic)

lemma create_newsgroup_no_panic: "create_newsgroup f h a \<noteq> Panic"
  using edit_and_post_no_panic
  by (auto simp: create_newsgroup_def Let_def obind_def split: prod.splits outcome.splits)

lemma shown_article_ok: "nav_ok a \<Longrightarrow> ap_flat a \<noteq> [] \<Longrightarrow> shown_article a (ap_header_sel a) \<noteq> None"
  by (auto simp: nav_ok_def shown_article_def)

lemma reply_no_panic: "nav_ok a \<Longrightarrow> reply_article f h a \<noteq> Panic"
  by (cases "ap_flat a = []") (use shown_article_ok [of a] in
      \<open>auto simp: reply_article_def edit_and_post_no_panic split: option.splits\<close>)

definition init_app :: "string \<Rightarrow> (string \<times> int) list \<Rightarrow> app" where
  "init_app inp ks = \<lparr>ap_in = inp, ap_out = [], ap_groups = [], ap_overviews = [], ap_nodes = Map.empty,
     ap_flat = [], ap_article = [], ap_cur_group = [], ap_view = View_groups, ap_group_sel = 0,
     ap_group_scroll = 0, ap_header_sel = 0, ap_header_scroll = 0, ap_art_scroll = 0, ap_status = [],
     ap_keys = ks, ap_raw = True, ap_runs = 0\<rparr>"


definition sample_host :: host where
  "sample_host = \<lparr>h_minisign_key = [], h_minisign_pub = [], h_auto_sign = True, h_user = ''u'',
     h_home = None, h_rows = (\<lambda>_. 24), h_tty = True, h_temp = (\<lambda>_. True), h_exists = (\<lambda>_. True),
     h_has_minisign = True, h_editor = (\<lambda>_ c. Some (Some c)), h_sign = (\<lambda>_ _ _. Inl ''no key''),
     h_verify = (\<lambda>_ _ _ _. (False, []))\<rparr>"


text \<open>The one case: the second of two groups is selected, the list is fetched again while a group is
  created, and has one entry now.\<close>

definition is_panic :: "'a outcome \<Rightarrow> bool" where
  "is_panic r = (case r of Panic \<Rightarrow> True | _ \<Rightarrow> False)"

lemma is_panic_iff: "is_panic r \<longleftrightarrow> r = Panic"
  by (cases r) (simp_all add: is_panic_def)

definition shrinking_server :: string where
  "shrinking_server = ''215 list'' @ CRLF @ write_dot_block [''a 0 0 y'', ''b 0 0 y'']
     @ ''440 no'' @ CRLF @ ''215 list'' @ CRLF @ write_dot_block [''a 0 0 y'']"

lemma shrunk_list_panics:
  "run sample_host 9 (fetch_groups (init_app shrinking_server
     [(''j'', 24), (''c'', 24), (''x'' @ [LF], 24), (''y'', 24), ([CR], 24)])) = Panic"
proof -
  have "is_panic (run sample_host 9 (fetch_groups (init_app shrinking_server
     [(''j'', 24), (''c'', 24), (''x'' @ [LF], 24), (''y'', 24), ([CR], 24)])))"
    by code_simp
  then show ?thesis by (simp add: is_panic_iff)
qed

text \<open>
  At the end of the terminal's input the preview's question is taken for the answer to edit again:
  as long as the editor keeps saving a text that is not empty, the client then starts it over and
  over and never returns.
\<close>

theorem end_of_input_edits_forever:
  assumes "ap_keys a = []" "\<forall>n. h_temp h n"
    and "\<forall>n c. \<exists>t. t \<noteq> [] \<and> h_editor h n c = Some (Some t)"
  shows "edit_and_post_article f h content a = Hang"
proof -
  have "edit_loop f h content b = Hang" if "ap_keys b = []" "\<not> has_prefix (ap_status b) ''Post cancelled''" for content b
    using that
  proof (induction f arbitrary: content b)
    case (Suc f)
    let ?b0 = "restore_terminal b"
    let ?c = "if content = [] then new_post h ?b0 else content"
    let ?b1 = "enable_raw_mode h (?b0\<lparr>ap_runs := Suc (ap_runs ?b0)\<rparr>)"
    from assms(3) obtain x xs where ed: "h_editor h (ap_runs ?b0) ?c = Some (Some (x # xs))"
      by (metis list.exhaust)
    obtain hb bb where cut: "cut_article (x # xs) = (hb, bb)" by fastforce
    obtain bb' b2 where sg: "(if h_minisign_key h \<noteq> [] \<and> h_auto_sign h then sign_content h bb ?b1
        else (bb, ?b1)) = (bb', b2)" by fastforce
    have b1: "ap_keys ?b1 = []" "\<not> has_prefix (ap_status ?b1) ''Post cancelled''"
      using Suc.prems by (simp_all add: enable_raw_mode_def restore_terminal_def)
    have b2: "ap_keys b2 = []" "\<not> has_prefix (ap_status b2) ''Post cancelled''"
      using sg b1 by (auto simp: sign_content_def Let_def enable_raw_mode_def restore_terminal_def
          split: if_splits sum.splits list.splits)
    have "confirm_and_post h hb bb' b2 = (False, b2)" using b2(1) by (simp add: confirm_and_post_def Let_def)
    with assms(2) ed cut sg b2(2) have "edit_round h content b = Inr (x # xs, b2)"
      by (simp add: edit_round_def Let_def)
    with Suc.IH [OF b2] show ?case by simp
  qed simp
  then show ?thesis using assms(1) by (simp add: edit_and_post_article_def)
qed

lemma end_of_input_edits_forever_witness:
  "edit_and_post_article 500 (sample_host\<lparr>h_editor := \<lambda>_ c. Some (Some (CHR ''x'' # c))\<rparr>) []
     (init_app [] []) = Hang"
  by (rule end_of_input_edits_forever) (simp_all add: init_app_def sample_host_def)

end
