(* ===== verification/NewsEndToEnd.thy ===== *)
theory NewsEndToEnd
  imports NntpServer NntpClient
begin

text \<open>
  The news client against the news server of the same repository: what the client decodes is what
  the server stores. The server's replies are those of \<open>handle_loop\<close> on the bytes the client
  sends; the client's operations run with these replies as its input.
\<close>

subsection \<open>Lines both sides agree on\<close>

lemma answered_line: "has_prefix l code \<Longrightarrow> answered (Some l) code"
  by (simp add: answered_def)

lemma send_cmd_reply:
  assumes "ap_in a = line l @ rest" "LF \<notin> set l" "l \<noteq> []" "last l \<noteq> CR"
  shows "send_cmd c a = (Some l, a\<lparr>ap_out := ap_out a @ c @ CRLF, ap_in := rest\<rparr>)"
proof -
  have "last l \<noteq> LF" using assms(2,3) last_in_set by metis
  with assms read_string_crlf [OF assms(2), of rest] trim_eol_crlf [of l] show ?thesis
    by (simp add: send_cmd_def line_def)
qed

lemma read_dot_lines_reply:
  "ap_in a = write_dot_block ls @ rest \<Longrightarrow> wire_lines ls \<Longrightarrow>
     read_dot_lines a = (Some ls, a\<lparr>ap_in := rest\<rparr>)"
  by (simp add: read_dot_lines_def read_dot_write)

lemma serve_word:
  "str_fields l = [w] \<Longrightarrow> to_upper w = ''XOVER'' \<Longrightarrow> cmd_over s se [] = Some out \<Longrightarrow>
     serve e s se l inp = (s, se, out, inp, Go_on)"
  "str_fields l = [w] \<Longrightarrow> to_upper w = ''POST'' \<Longrightarrow> cmd_post e s inp = (s', out', rest) \<Longrightarrow>
     serve e s se l inp = (s', se, out', rest, Go_on)"
  "str_fields l = [w] \<Longrightarrow> to_upper w = ''LIST'' \<Longrightarrow>
     serve e s se l inp = (s, se, cmd_list s [], inp, Go_on)"
  "str_fields l = [w, x] \<Longrightarrow> to_upper w = ''ARTICLE'' \<Longrightarrow>
     serve e s se l inp = (s, fst (cmd_article s se ''ARTICLE'' [x]),
       snd (cmd_article s se ''ARTICLE'' [x]), inp, Go_on)"
  by (simp_all add: serve_def split_beta Let_def)

subsection \<open>The list of groups\<close>

definition listed_group :: "store \<Rightarrow> string \<Rightarrow> group_info" where
  "listed_group s n = \<lparr>gi_name = n, gi_high = grp_high (the_group s n), gi_low = grp_low (the_group s n)\<rparr>"

lemma in_int64:
  assumes "group_wf n g"
  shows "min_int64 \<le> grp_high g \<and> grp_high g \<le> max_int64 \<and> min_int64 \<le> grp_low g \<and> grp_low g \<le> max_int64"
  using assms by (fastforce simp: group_wf_def min_int64_def max_int64_def dom_def split: if_splits)

lemma list_line:
  assumes "solid n" "n \<noteq> []" "group_wf n (the_group s n)"
  shows "group_of_line (n @ '' '' @ itoa (grp_high (the_group s n)) @ '' '' @ itoa (grp_low (the_group s n)) @ '' y'')
    = Some (listed_group s n)"
    and "wire_line (n @ '' '' @ itoa (grp_high (the_group s n)) @ '' '' @ itoa (grp_low (the_group s n)) @ '' y'')"
proof -
  let ?ws = "[n, itoa (grp_high (the_group s n)), itoa (grp_low (the_group s n)), ''y'']"
  have "solid ''y''" by code_simp
  then have "\<forall>w\<in>set ?ws. solid w \<and> w \<noteq> []" using assms by simp
  then have "str_fields (join_with '' '' ?ws) = ?ws" by (rule fields_join)
  then have "str_fields (n @ '' '' @ itoa (grp_high (the_group s n)) @ '' '' @ itoa (grp_low (the_group s n)) @ '' y'') = ?ws"
    by simp
  with in_int64 [OF assms(3)] show "group_of_line (n @ '' '' @ itoa (grp_high (the_group s n)) @ '' ''
      @ itoa (grp_low (the_group s n)) @ '' y'') = Some (listed_group s n)"
    by (simp add: group_of_line_def listed_group_def atoi_itoa Let_def)
  show "wire_line (n @ '' '' @ itoa (grp_high (the_group s n)) @ '' '' @ itoa (grp_low (the_group s n)) @ '' y'')"
    using solid_ends(1) [OF assms(1,2)] by (simp add: wire_line_def itoa_no_special)
qed

text \<open>
  The client's group list is the server's: if every group has a name without white space, then
  from the answer to LIST the client decodes every group once, in the order of the names, with its
  low and high water mark.
\<close>

theorem client_lists_groups:
  assumes "store_wf s" "\<forall>n\<in>set (map fst (st_groups s)). solid n \<and> n \<noteq> []"
    and "handle_loop env j s se (''LIST'' @ CRLF) = (s', out, how)" "ap_in a = out"
  shows "s' = s \<and> ap_groups (fetch_groups a) = map (listed_group s) (sort (map fst (st_groups s)))
    \<and> ap_in (fetch_groups a) = [] \<and> ap_out (fetch_groups a) = ap_out a @ ''LIST'' @ CRLF"
proof -
  let ?ns = "sort (map fst (st_groups s))"
  let ?f = "\<lambda>n. n @ '' '' @ itoa (grp_high (the_group s n)) @ '' '' @ itoa (grp_low (the_group s n)) @ '' y''"
  have ok: "solid n \<and> n \<noteq> [] \<and> group_wf n (the_group s n)" if "n \<in> set ?ns" for n
  proof -
    from that obtain g where "map_of (st_groups s) n = Some g"
      by (metis dom_map_of_conv_image_fst domD list.set_map set_sort)
    then have "group_wf n (the_group s n)" using assms(1) by (simp add: store_wf_def the_group_def)
    with that assms(2) show ?thesis by auto
  qed
  have f: "str_fields ''LIST'' = [''LIST'']" "to_upper ''LIST'' = ''LIST''" by code_simp+
  have l: "LF \<notin> set ''LIST''" "''LIST'' \<noteq> []" "last ''LIST'' \<notin> {CR, LF}" by simp_all
  have srv: "s' = s" "out = line ''215 List of newsgroups follows'' @ write_dot_block (map ?f ?ns)"
    using assms(3) handle_loop_line [OF l, of env j s se "[]"]
    by (simp_all add: serve_word(3) [OF f, simplified] cmd_list_def)
  let ?a1 = "a\<lparr>ap_out := ap_out a @ ''LIST'' @ CRLF, ap_in := write_dot_block (map ?f ?ns)\<rparr>"
  have s1: "send_cmd ''LIST'' a = (Some ''215 List of newsgroups follows'', ?a1)"
    by (rule send_cmd_reply) (use assms(4) srv in simp_all)
  have s2: "read_dot_lines ?a1 = (Some (map ?f ?ns), ?a1\<lparr>ap_in := []\<rparr>)"
    by (rule read_dot_lines_reply) (use list_line(2) ok in simp_all)
  have m: "List.map_filter group_of_line (map ?f ns) = map (listed_group s) ns" if "set ns \<subseteq> set ?ns" for ns
    using that ok list_line(1) by (induction ns) (simp_all add: List.map_filter_simps)
  have "answered (Some ''215 List of newsgroups follows'') ''215''" by (simp add: answered_def)
  with s1 s2 m [of ?ns] srv(1) show ?thesis by (simp add: fetch_groups_def Let_def)
qed

lemma client_lists_groups_witness:
  "ap_groups (fetch_groups ((init_app [] [])\<lparr>ap_in :=
      fst (snd (handle_loop (\<lambda>_. sample_env) 0 small_store init_session (''LIST'' @ CRLF)))\<rparr>))
    = [\<lparr>gi_name = ''a.b'', gi_high = 4, gi_low = 1\<rparr>]"
proof -
  obtain s' out how where h: "handle_loop (\<lambda>_. sample_env) 0 small_store init_session (''LIST'' @ CRLF)
      = (s', out, how)" by (metis prod_cases3)
  have n: "\<forall>n\<in>set (map fst (st_groups small_store)). solid n \<and> n \<noteq> []" by code_simp
  have v: "map (listed_group small_store) (sort (map fst (st_groups small_store)))
      = [\<lparr>gi_name = ''a.b'', gi_high = 4, gi_low = 1\<rparr>]" by code_simp
  from client_lists_groups [OF small_store_ok(1) n h, of "(init_app [] [])\<lparr>ap_in := out\<rparr>"] h v
  show ?thesis by simp
qed

subsection \<open>Reading a group\<close>

text \<open>An article whose overview fields are single-line texts without a tab.\<close>

definition clean_field :: "string \<Rightarrow> bool" where
  "clean_field f \<longleftrightarrow> set f \<inter> {TAB, CR, LF} = {}"

definition clean_article :: "article \<Rightarrow> bool" where
  "clean_article a \<longleftrightarrow> (\<forall>f\<in>{article_header a ''Subject'', article_header a ''From'',
      article_header a ''Date'', art_msg_id a, article_header a ''References''}. clean_field f)
     \<and> int (length (art_body a)) \<le> max_int64"

text \<open>What the client should see of an article.\<close>

definition seen_overview :: "int \<Rightarrow> article \<Rightarrow> overview" where
  "seen_overview k a = \<lparr>ov_number = k, ov_subject = article_header a ''Subject'',
     ov_from = article_header a ''From'', ov_date = article_header a ''Date'',
     ov_msg_id = art_msg_id a, ov_references = article_header a ''References'',
     ov_lines = int (length (art_body a))\<rparr>"

lemma clean_itoa: "clean_field (itoa i)"
  using itoa_no_special by (auto simp: clean_field_def)

lemma overview_of_over_line:
  assumes "clean_article a" "1 \<le> k" "k \<le> max_int64"
  shows "overview_of_line (over_line k a) = Some (seen_overview k a)" "wire_line (over_line k a)"
proof -
  let ?fs = "[itoa k, article_header a ''Subject'', article_header a ''From'', article_header a ''Date'',
      art_msg_id a, article_header a ''References'',
      itoa (lines_size (art_headers a) + lines_size (art_body a)), itoa (int (length (art_body a)))]"
  have cl: "\<forall>f\<in>set ?fs. clean_field f" using assms(1) by (simp add: clean_article_def clean_itoa)
  then have "\<forall>f\<in>set ?fs. TAB \<notin> set f" by (auto simp: clean_field_def)
  then have "split_on TAB (join_with [TAB] ?fs) = ?fs" by (intro split_join) simp_all
  then have sp: "split_on TAB (over_line k a) = ?fs" by (simp only: over_line_def)
  have n: "fst (atoi (itoa k)) = k" "fst (atoi (itoa (int (length (art_body a))))) = int (length (art_body a))"
    using assms by (simp_all add: atoi_itoa clean_article_def min_int64_def)
  show "overview_of_line (over_line k a) = Some (seen_overview k a)"
    by (simp add: overview_of_line_def sp seen_overview_def n Let_def)
  have "LF \<notin> set (join_with [TAB] fs) \<and> CR \<notin> set (join_with [TAB] fs)" if "\<forall>f\<in>set fs. clean_field f" for fs
    using that by (induction "[TAB]" fs rule: join_with.induct) (auto simp: clean_field_def)
  from this [OF cl] show "wire_line (over_line k a)"
    unfolding over_line_def by (intro wire_line_no_LF_CR) simp_all
qed

lemma group_line_parts:
  assumes "solid n" "n \<noteq> []" "grp_name g = n"
  shows "\<exists>l. group_line g = line l \<and> LF \<notin> set l \<and> l \<noteq> [] \<and> last l \<noteq> CR \<and> has_prefix l ''211''"
proof -
  note e = solid_ends [OF assms(1,2)]
  show ?thesis
    by (intro exI [of _ "''211 '' @ itoa (group_count g) @ '' '' @ itoa (grp_low g) @ '' ''
     @ itoa (grp_high g) @ '' '' @ grp_name g"])
      (use e assms(2,3) in \<open>simp add: group_line_def itoa_no_special\<close>)
qed

text \<open>The server's side of selecting a group.\<close>

lemma server_select:
  assumes "store_wf s" "map_of (st_groups s) n = Some g" "solid n" "n \<noteq> []"
  shows "handle_loop env j s se (''GROUP '' @ n @ CRLF @ ''XOVER'' @ CRLF)
    = (s, group_line g @ line ''224 Overview information follows''
         @ write_dot_block (map (\<lambda>k. over_line k (art_at g k)) (sorted_numbers g)), Input_end)"
proof -
  let ?se = "fst (cmd_group s se [n])"
  have tg: "the_group s n = g" using assms(2) by (simp add: the_group_def)
  have gw: "group_wf n g" using assms(1,2) by (simp add: store_wf_def)
  have se: "se_group ?se = Some n" "snd (cmd_group s se [n]) = group_line g"
    using assms(2) by (simp_all add: cmd_group_def)
  note e = solid_ends [OF assms(3,4)]
  have l1: "LF \<notin> set (''GROUP '' @ n)" "''GROUP '' @ n \<noteq> []" "last (''GROUP '' @ n) \<notin> {CR, LF}"
    using e assms(4) by simp_all
  have "grp_low g \<le> k \<and> k \<le> grp_high g" if "k \<in> set (sorted_numbers g)" for k
    using gw that by (auto simp: set_sorted_numbers group_wf_def)
  then have f: "filter (\<lambda>k. grp_low g \<le> k \<and> k \<le> grp_high g) (sorted_numbers g) = sorted_numbers g"
    by (simp add: filter_id_conv)
  have ov: "cmd_over s ?se [] = Some (line ''224 Overview information follows''
      @ write_dot_block (map (\<lambda>k. over_line k (art_at g k)) (sorted_numbers g)))"
    by (simp add: cmd_over_eq [OF se(1)] tg over_range_def f)
  have "str_fields ''XOVER'' = [''XOVER'']" "to_upper ''XOVER'' = ''XOVER''" by code_simp+
  note sv = serve_word(1) [OF this ov]
  have l2: "LF \<notin> set ''XOVER''" "''XOVER'' \<noteq> []" "last ''XOVER'' \<notin> {CR, LF}" by simp_all
  have h2: "handle_loop env (Suc j) s ?se (''XOVER'' @ CRLF) = (s, line ''224 Overview information follows''
      @ write_dot_block (map (\<lambda>k. over_line k (art_at g k)) (sorted_numbers g)), Input_end)"
    by (simp only: handle_loop_line [OF l2, of env "Suc j" s ?se "[]"] sv) simp
  show ?thesis
    using handle_loop_line [OF l1, of env j s se "''XOVER'' @ CRLF"] h2
    by (simp add: serve_group [OF assms(3,4), simplified] se(2))
qed

text \<open>The overviews of a group, as the client should see them.\<close>

definition group_overviews :: "group \<Rightarrow> overview list" where
  "group_overviews g = map (\<lambda>k. seen_overview k (art_at g k)) (sorted_numbers g)"

definition clean_group :: "group \<Rightarrow> bool" where
  "clean_group g \<longleftrightarrow> (\<forall>(k, a)\<in>set (grp_articles g). clean_article a)"

lemma art_at_in:
  "m \<in> set (sorted_numbers g) \<Longrightarrow> (m, art_at g m) \<in> set (grp_articles g)"
  using number_article [of m g] by (auto simp: art_at_def dest: map_of_SomeD)

lemma group_lines:
  assumes "group_wf n g" "clean_group g"
  shows "List.map_filter overview_of_line (map (\<lambda>k. over_line k (art_at g k)) (sorted_numbers g))
      = group_overviews g"
    and "wire_lines (map (\<lambda>k. over_line k (art_at g k)) (sorted_numbers g))"
proof -
  have c: "clean_article (art_at g k) \<and> 1 \<le> k \<and> k \<le> max_int64" if "k \<in> set (sorted_numbers g)" for k
    using that assms art_at_in [OF that] by (force simp: set_sorted_numbers group_wf_def clean_group_def)
  then have "List.map_filter overview_of_line (map (\<lambda>k. over_line k (art_at g k)) ks)
      = map (\<lambda>k. seen_overview k (art_at g k)) ks" if "set ks \<subseteq> set (sorted_numbers g)" for ks
    using that by (induction ks) (simp_all add: overview_of_over_line List.map_filter_simps)
  then show "List.map_filter overview_of_line (map (\<lambda>k. over_line k (art_at g k)) (sorted_numbers g))
      = group_overviews g" by (simp add: group_overviews_def)
  show "wire_lines (map (\<lambda>k. over_line k (art_at g k)) (sorted_numbers g))"
    using c overview_of_over_line(2) by simp
qed


lemma small_clean: "clean_group small_group"
proof -
  have "\<forall>p\<in>set (grp_articles small_group). clean_article (snd p)" by code_simp
  then show ?thesis by (auto simp: clean_group_def)
qed


subsection \<open>Reading an article\<close>

text \<open>
  C15. Reading an article shows the article: with the group selected, the client sends ARTICLE with
  the number, and from the server's answer it gets exactly the stored headers, an empty line, and
  the stored body; lines that begin with a dot come through unchanged.
\<close>

theorem client_reads_article:
  assumes "store_wf s" "map_of (st_groups s) n = Some g" "se_group se = Some n"
    and "map_of (grp_articles g) k = Some b" "clean_field (art_msg_id b)"
    and "wire_lines (art_headers b)" "wire_lines (art_body b)"
    and "handle_loop env j s se (''ARTICLE '' @ itoa k @ CRLF) = (s', out, how)" "ap_in a = out"
  shows "s' = s \<and> fetch_article k a = a\<lparr>ap_in := [], ap_out := ap_out a @ ''ARTICLE '' @ itoa k @ CRLF,
      ap_article := art_headers b @ [] # art_body b, ap_art_scroll := 0, ap_view := View_article\<rparr>"
proof -
  have k: "1 \<le> k" "k \<le> max_int64" "art_number b = k"
    using assms(1,2,4) by (auto simp: store_wf_def group_wf_def)
  have tg: "the_group s n = g" using assms(2) by (simp add: the_group_def)
  have at: "atoi (itoa k) = (k, True)" using k by (simp add: atoi_itoa min_int64_def)
  have "\<not> has_prefix (itoa k) ''<''"
    using itoa_no_special(4) [of k] by (auto simp: has_prefix_iff)
  then have ca: "snd (cmd_article s se ''ARTICLE'' [itoa k])
      = status_line ''220'' b @ write_dot_block (art_headers b @ [] # art_body b)"
    using assms(3,4) at by (simp add: cmd_article_def resolve_article_def tg Let_def)
  have w: "solid ''ARTICLE''" by code_simp
  have f: "str_fields (''ARTICLE '' @ itoa k) = [''ARTICLE'', itoa k]"
    using fields_word [OF w, of "CHR '' ''" "itoa k"] fields_single [of "itoa k"] by (simp add: is_ascii_space_def)
  have "to_upper ''ARTICLE'' = ''ARTICLE''" by code_simp
  note sv = serve_word(4) [OF f this]
  note e = solid_ends [OF itoa_solid itoa_not_Nil, of k]
  have l: "LF \<notin> set (''ARTICLE '' @ itoa k)" "''ARTICLE '' @ itoa k \<noteq> []" "last (''ARTICLE '' @ itoa k) \<notin> {CR, LF}"
    using e by simp_all
  have srv: "s' = s" "out = status_line ''220'' b @ write_dot_block (art_headers b @ [] # art_body b)"
    using handle_loop_line [OF l, of env j s se "[]"] assms(8) by (simp_all add: sv [simplified] ca)
  let ?l = "''220 '' @ itoa (art_number b) @ '' '' @ art_msg_id b"
  have sl: "status_line ''220'' b = line ?l" by (simp add: status_line_def)
  have lp: "LF \<notin> set ?l" "?l \<noteq> []" "last ?l \<noteq> CR"
    using assms(5) by (auto simp: clean_field_def itoa_no_special dest: last_in_set split: if_splits)
  have s1: "send_cmd (''ARTICLE '' @ itoa k) a = (Some ?l,
      a\<lparr>ap_out := ap_out a @ (''ARTICLE '' @ itoa k) @ CRLF,
        ap_in := write_dot_block (art_headers b @ [] # art_body b)\<rparr>)"
    by (rule send_cmd_reply) (use assms(9) srv sl lp in simp_all)
  have s2: "read_dot_lines (a\<lparr>ap_out := ap_out a @ (''ARTICLE '' @ itoa k) @ CRLF,
        ap_in := write_dot_block (art_headers b @ [] # art_body b)\<rparr>)
     = (Some (art_headers b @ [] # art_body b), a\<lparr>ap_out := ap_out a @ (''ARTICLE '' @ itoa k) @ CRLF, ap_in := []\<rparr>)"
    by (subst read_dot_lines_reply [of _ "art_headers b @ [] # art_body b" "[]"]) (use assms(6,7) in auto)
  have "answered (Some ?l) ''220''" by (simp add: answered_def)
  then have "fetch_article k a = (a\<lparr>ap_out := ap_out a @ (''ARTICLE '' @ itoa k) @ CRLF, ap_in := []\<rparr>)
     \<lparr>ap_article := art_headers b @ [] # art_body b, ap_art_scroll := 0, ap_view := View_article\<rparr>"
    by (simp only: fetch_article_def s1 s2 prod.case option.case not_True_eq_False if_False)
  with srv(1) show ?thesis by simp
qed

lemma client_reads_article_witness:
  "ap_article (fetch_article 2 ((init_app [] [])\<lparr>ap_in := fst (snd (handle_loop (\<lambda>_. sample_env) 0 small_store
      \<lparr>se_group = Some ''a.b'', se_art = 1\<rparr> (''ARTICLE 2'' @ CRLF)))\<rparr>)) = [''Subject: s2'', '''', ''hi'']"
proof -
  obtain s' out how where h: "handle_loop (\<lambda>_. sample_env) 0 small_store \<lparr>se_group = Some ''a.b'', se_art = 1\<rparr>
      (''ARTICLE '' @ itoa 2 @ CRLF) = (s', out, how)" by (metis prod_cases3)
  have i: "itoa 2 = ''2''" by code_simp
  have b: "map_of (grp_articles small_group) 2 = Some (small_article 2)" by (simp add: small_group_def)
  have c: "clean_field (art_msg_id (small_article 2))" "wire_lines (art_headers (small_article 2))"
    "wire_lines (art_body (small_article 2))" by code_simp+
  have x: "art_headers (small_article 2) @ [] # art_body (small_article 2) = [''Subject: s2'', '''', ''hi'']"
    by code_simp
  from client_reads_article [OF small_store_ok _ b c h, of "(init_app [] [])\<lparr>ap_in := out\<rparr>"] h x i
  show ?thesis by simp
qed

subsection \<open>Posting\<close>

definition typed_headers :: "string \<Rightarrow> string list" where
  "typed_headers hb = filter (\<lambda>l. trim_space l \<noteq> []) (split_on LF hb)"

definition plain_lines :: "string list \<Rightarrow> bool" where
  "plain_lines ls \<longleftrightarrow> wire_lines ls \<and> (\<forall>l\<in>set ls. \<not> has_prefix l ''.'')"

lemma plain_dot_lines:
  "plain_lines hs \<Longrightarrow> concat (map (\<lambda>l. l @ CRLF) hs) = concat (map dot_line hs)"
  by (induction hs) (simp_all add: plain_lines_def dot_line_def)

lemma trim_space_Nil [simp]: "trim_space [] = []"
  by (simp add: trim_space_def trim_left_space.simps [of "[]"] trim_right_space.simps [of "[]"] space_tail_def)

lemma typed_headers_not_Nil: "[] \<notin> set (typed_headers hb)"
  by (auto simp: typed_headers_def)

lemma wire_article_block:
  assumes "plain_lines (typed_headers hb)"
  shows "wire_article hb bb = write_dot_block (typed_headers hb @ [] # split_on LF bb)"
  using plain_dot_lines [OF assms]
  by (simp add: wire_article_def typed_headers_def write_dot_block_def) (simp add: dot_line_def)

definition typed_article :: "string \<Rightarrow> string \<Rightarrow> article" where
  "typed_article hb bb = \<lparr>art_number = 0, art_msg_id = header_in (typed_headers hb) ''Message-ID'',
     art_headers = typed_headers hb, art_body = split_on LF bb\<rparr>"

lemma server_takes_post:
  assumes "plain_lines (typed_headers hb)" "wire_lines (split_on LF bb)"
    "post e (typed_article hb bb) s = Inr s'"
  shows "cmd_post e s (wire_article hb bb @ rest)
    = (s', line ''340 Send article to be posted'' @ line ''240 Article posted'', rest)"
proof -
  have w: "wire_lines (typed_headers hb @ [] # split_on LF bb)"
    using assms(1,2) by (auto simp: plain_lines_def)
  have "\<forall>h\<in>set (typed_headers hb). h \<noteq> []" using typed_headers_not_Nil by fastforce
  from split_headers_concat [OF this] have "article_of_lines (typed_headers hb @ [] # split_on LF bb) = typed_article hb bb"
    by (simp add: article_of_lines_def typed_article_def)
  with read_dot_write [OF w] assms(3) show ?thesis
    by (simp add: cmd_post_def wire_article_block [OF assms(1)])
qed

lemma stamp_keeps:
  "art_body (stamp_article e a) = art_body a \<and> (\<exists>x. art_headers (stamp_article e a) = art_headers a @ x)"
  by (simp add: stamp_article_def Let_def)

text \<open>
  C3. What the user typed is what the server stores: if no header line starts with a dot and the
  server accepts the article, the client's bytes for POST lead to the answer 340 and 240, the client
  takes it for a success and selects its group again, and every group the article names then has an
  article whose body is the typed body line by line and whose headers are the typed lines, except
  blank ones, followed only by what the server adds.
\<close>

theorem posted_article_is_stored:
  assumes "store_wf s" "room (length (post_names (typed_article hb bb))) s"
    and "plain_lines (typed_headers hb)" "wire_lines (split_on LF bb)"
    and "post (env j) (typed_article hb bb) s = Inr s'"
    and "ap_in a = line ''340 Send article to be posted'' @ line ''240 Article posted'' @ rest"
  shows "handle_loop env j s se (''POST'' @ CRLF @ wire_article hb bb)
      = (s', line ''340 Send article to be posted'' @ line ''240 Article posted'', Input_end)
    \<and> send_article hb bb a = select_group (ap_cur_group a)
        (a\<lparr>ap_out := ap_out a @ ''POST'' @ CRLF @ wire_article hb bb, ap_in := rest,
           ap_status := ''Article posted successfully!''\<rparr>)
    \<and> (\<forall>w\<in>set (post_names (typed_article hb bb)). trim_space w \<noteq> [] \<longrightarrow>
        (\<exists>k b x. map_of (grp_articles (the_group s' (trim_space w))) k = Some b
           \<and> art_body b = split_on LF bb \<and> art_headers b = typed_headers hb @ x))"
proof (intro conjI ballI impI)
  have f: "str_fields ''POST'' = [''POST'']" "to_upper ''POST'' = ''POST''" by code_simp+
  note cp = server_takes_post [OF assms(3-5), of "[]"]
  have l: "LF \<notin> set ''POST''" "''POST'' \<noteq> []" "last ''POST'' \<notin> {CR, LF}" by simp_all
  show "handle_loop env j s se (''POST'' @ CRLF @ wire_article hb bb)
      = (s', line ''340 Send article to be posted'' @ line ''240 Article posted'', Input_end)"
    using handle_loop_line [OF l, of env j s se "wire_article hb bb"] serve_word(2) [OF f cp [simplified]]
    by simp
next
  let ?a1 = "a\<lparr>ap_out := ap_out a @ ''POST'' @ CRLF, ap_in := line ''240 Article posted'' @ rest\<rparr>"
  have "send_cmd ''POST'' a = (Some ''340 Send article to be posted'', ?a1)"
    by (rule send_cmd_reply) (use assms(6) in simp_all)
  moreover have "read_string (line ''240 Article posted'' @ rest) = Some (''240 Article posted'' @ CRLF, rest)"
    using read_string_crlf [of "''240 Article posted''" rest] by (simp add: line_def)
  ultimately show "send_article hb bb a = select_group (ap_cur_group a)
        (a\<lparr>ap_out := ap_out a @ ''POST'' @ CRLF @ wire_article hb bb, ap_in := rest,
           ap_status := ''Article posted successfully!''\<rparr>)"
    by (simp add: send_article_def answered_def Let_def)
next
  fix w assume w: "w \<in> set (post_names (typed_article hb bb))" "trim_space w \<noteq> []"
  from post_delivers_to [OF assms(1,2,5) w] obtain k where
    "map_of (grp_articles (the_group s' (trim_space w))) k
       = Some ((stamp_article (env j) (typed_article hb bb))\<lparr>art_number := k\<rparr>)" by blast
  then show "\<exists>k b x. map_of (grp_articles (the_group s' (trim_space w))) k = Some b
           \<and> art_body b = split_on LF bb \<and> art_headers b = typed_headers hb @ x"
    using stamp_keeps [of "env j" "typed_article hb bb"] by (fastforce simp: typed_article_def)
qed

lemma posted_article_is_stored_witness:
  "\<exists>s' k b x. post sample_env (typed_article ''Newsgroups: a.b'' (''hi'' @ [LF] @ ''.'')) sample_store = Inr s'
     \<and> map_of (grp_articles (the_group s' ''a.b'')) k = Some b
     \<and> art_body b = [''hi'', ''.''] \<and> art_headers b = [''Newsgroups: a.b''] @ x"
proof -
  let ?hb = "''Newsgroups: a.b''" and ?bb = "''hi'' @ [LF] @ ''.''"
  have v: "typed_headers ?hb = [?hb]" "split_on LF ?bb = [''hi'', ''.'']"
    "post_names (typed_article ?hb ?bb) = [''a.b'']" "trim_space ''a.b'' = ''a.b''"
    "article_header (typed_article ?hb ?bb) ''Newsgroups'' \<noteq> []" by code_simp+
  then obtain s' where s': "post sample_env (typed_article ?hb ?bb) sample_store = Inr s'"
    using post_Inr by blast
  have r: "room (length (post_names (typed_article ?hb ?bb))) sample_store"
    unfolding v(3) using sample_store_ok(3) by (rule room_mono) simp
  have p: "plain_lines (typed_headers ?hb)" "wire_lines (split_on LF ?bb)"
    unfolding v(1,2) by (simp_all add: plain_lines_def wire_line_def)
  let ?a = "(init_app [] [])\<lparr>ap_in := line ''340 Send article to be posted'' @ line ''240 Article posted'' @ []\<rparr>"
  have i: "ap_in ?a = line ''340 Send article to be posted'' @ line ''240 Article posted'' @ []" by simp
  from posted_article_is_stored [OF sample_store_ok(1) r p, of "\<lambda>_. sample_env" 0, OF s' i, of init_session]
  show ?thesis unfolding v(1,2,3) using s' v(4) by simp
qed

subsection \<open>A dot in the headers\<close>

lemma read_dot_lines_then:
  "wire_lines ls \<Longrightarrow> read_dot_from acc (concat (map dot_line ls) @ rest) = read_dot_from (acc @ ls) rest"
proof (induction ls arbitrary: acc)
  case (Cons l ls)
  then show ?case using read_dot_line [of l acc "concat (map dot_line ls) @ rest"] by simp
qed simp

text \<open>
  The client does not double the dots of header lines, only those of the body: a header line
  that is a single dot ends the article for the server, which takes the header lines before it for
  the whole article; what the user typed after it, further headers and the whole body, stays in the
  connection, where the server reads it as commands.
\<close>

theorem header_dot_ends_article:
  assumes "typed_headers hb = hs1 @ ''.'' # hs2" "plain_lines hs1"
  shows "read_dot_block (wire_article hb bb)
    = Some (hs1, concat (map (\<lambda>l. l @ CRLF) hs2) @ CRLF @ write_dot_block (split_on LF bb))"
proof -
  let ?rest = "concat (map (\<lambda>l. l @ CRLF) hs2) @ CRLF @ write_dot_block (split_on LF bb)"
  have "wire_article hb bb = concat (map dot_line hs1) @ ''.'' @ CRLF @ ?rest"
    using assms(1) plain_dot_lines [OF assms(2)] by (simp add: wire_article_def typed_headers_def)
  then show ?thesis
    using read_dot_lines_then [of hs1 "[]" "''.'' @ CRLF @ ?rest"] read_dot_end [of hs1 ?rest] assms(2)
    by (simp add: read_dot_block_def plain_lines_def)
qed

lemma header_dot_ends_article_witness:
  "read_dot_block (wire_article (''Newsgroups: a.b'' @ [LF] @ ''.'' @ [LF] @ ''QUIT'') ''hi'')
     = Some ([''Newsgroups: a.b''], ''QUIT'' @ CRLF @ CRLF @ ''hi'' @ CRLF @ ''.'' @ CRLF)"
proof -
  have t: "typed_headers (''Newsgroups: a.b'' @ [LF] @ ''.'' @ [LF] @ ''QUIT'')
     = [''Newsgroups: a.b''] @ ''.'' # [''QUIT'']" by code_simp
  have p: "plain_lines [''Newsgroups: a.b'']" by (simp add: plain_lines_def wire_line_def)
  from header_dot_ends_article [OF t p, of "''hi''"] show ?thesis
    by (simp add: write_dot_block_def dot_line_def)
qed

subsection \<open>Signatures\<close>

lemma no_LF_in_wide: "e \<in> set wide_spaces \<Longrightarrow> LF \<notin> set e"
  by (rule wide_spaces_no_ascii) (simp_all add: is_ascii_space_def)

lemma has_suffix_behind: "has_suffix (x @ c # m) e \<Longrightarrow> c \<notin> set e \<Longrightarrow> has_suffix m e"
  using has_prefix_before [of "rev m" c "rev x" "rev e"] by (simp add: has_suffix_def)

lemma space_tail_zero:
  "s \<noteq> [] \<Longrightarrow> space_tail s = 0 \<longleftrightarrow> \<not> is_ascii_space (last s) \<and> (\<forall>e\<in>set wide_spaces. \<not> has_suffix s e)"
  using wide_spaces_not_Nil
  by (auto simp: space_tail_def find_None_iff find_Some_iff split: option.splits) (metis nth_mem)+

lemma space_tail_behind:
  assumes "m \<noteq> []" "space_tail m = 0"
  shows "space_tail (x @ LF # m) = 0"
  using assms has_suffix_behind [of x LF m] no_LF_in_wide by (auto simp: space_tail_zero)

lemma trim_right_LF: "trim_right_space (s @ [LF]) = trim_right_space s"
proof -
  have "space_tail (s @ [LF]) = 1" by (simp add: space_tail_def is_ascii_space_def)
  then show ?thesis by (simp add: trim_right_space.simps [of "s @ [LF]"])
qed

lemma trim_right_idem: "space_tail (trim_right_space s) = 0"
  by (induction s rule: trim_right_space.induct) (metis trim_right_space.simps)

lemma join_append:
  "xs \<noteq> [] \<Longrightarrow> ys \<noteq> [] \<Longrightarrow> join_with sep (xs @ ys) = join_with sep xs @ sep @ join_with sep ys"
proof (induction xs)
  case (Cons x xs)
  obtain y ys' where "ys = y # ys'" using Cons.prems(2) by (cases ys) auto
  with Cons show ?case by (cases xs) simp_all
qed simp

lemma join_shown:
  "hs \<noteq> [] \<Longrightarrow> join_with [LF] (hs @ [] # split_on LF b) = join_with [LF] hs @ [LF, LF] @ b"
proof -
  obtain w ws where "split_on LF b = w # ws" by (cases "split_on LF b") simp_all
  then have "join_with [LF] ([] # split_on LF b) = [LF] @ b"
    using join_split [of LF b] by simp
  then show "hs \<noteq> [] \<Longrightarrow> ?thesis" by (simp add: join_append)
qed

lemma trim_between:
  assumes "space_head (u @ LF # t) = 0" "m \<noteq> []" "space_tail m = 0" "u @ LF # t = v @ LF # m"
  shows "trim_space (u @ LF # t @ [LF, LF]) = u @ LF # t"
proof -
  have "u \<noteq> []" using assms(1) by (auto simp: is_ascii_space_def)
  moreover have "space_head u = 0 \<or> True" by simp
  ultimately have h: "space_head ((u @ LF # t) @ [LF, LF]) = 0"
    using space_head_before [of "u @ LF # t" LF "[LF]"] assms(1) by (simp add: is_ascii_space_def)
  then have "trim_left_space ((u @ LF # t) @ [LF, LF]) = (u @ LF # t) @ [LF, LF]"
    by (simp add: trim_left_space.simps)
  moreover have "trim_right_space ((u @ LF # t) @ [LF, LF]) = trim_right_space (u @ LF # t)"
    using trim_right_LF [of "(u @ LF # t) @ [LF]"] trim_right_LF [of "u @ LF # t"] by simp
  moreover have "space_tail (u @ LF # t) = 0" unfolding assms(4) by (rule space_tail_behind [OF assms(2,3)])
  ultimately show ?thesis by (simp add: trim_space_def trim_right_space.simps [of "u @ LF # t"])
qed

lemma trim_space_LF: "trim_space (LF # s) = trim_space s"
proof -
  have "space_head (LF # s) = 1" by (simp add: is_ascii_space_def)
  then show ?thesis by (simp add: trim_space_def trim_left_space.simps [of "LF # s"])
qed

lemma signed_parts_at:
  "join_with [LF] art = x @ sig_marker @ y \<Longrightarrow> index_of (x @ sig_marker @ y) sig_marker = Some (length x) \<Longrightarrow>
     signed_parts art = Some (trim_space x, trim_space y)"
  by (simp add: signed_parts_def)

lemma sign_content_signed:
  assumes "sign_content h body a = (body', a')" "body' \<noteq> body"
  shows "\<exists>sig. body' = normalized body @ [LF, LF] @ sig_marker @ [LF] @ sig"
  using assms by (auto simp: sign_content_def Let_def split: if_splits sum.splits list.splits)

text \<open>
  A signature never covers what is verified: the client signs the body alone, but verifies the
  article as it is shown, headers included. For a signed post whose signature marker comes first
  where the client put it, the message handed to minisign for verification is the header lines, an
  empty line and then the signed message, and so never the signed message itself.
\<close>

theorem signed_and_verified_differ:
  assumes "sign_content h body a = (body', a')" "body' \<noteq> body" "normalized body \<noteq> []"
    and "hs \<noteq> []" "hd hs \<noteq> []" "space_head (hd hs) = 0"
    and "index_of (join_with [LF] hs @ [LF, LF] @ body') sig_marker
        = Some (length (join_with [LF] hs) + 2 + length (normalized body) + 2)"
  shows "\<exists>sig. signed_parts (hs @ [] # split_on LF body')
      = Some (join_with [LF] hs @ [LF, LF] @ normalized body, sig)
    \<and> join_with [LF] hs @ [LF, LF] @ normalized body \<noteq> normalized body"
proof -
  let ?H = "join_with [LF] hs" and ?m = "normalized body"
  obtain sig where b: "body' = ?m @ [LF, LF] @ sig_marker @ [LF] @ sig"
    using sign_content_signed [OF assms(1,2)] by blast
  let ?x = "?H @ [LF, LF] @ ?m"
  obtain hs' where hs: "hs = hd hs # hs'" using assms(4) by (cases hs) simp_all
  have full: "join_with [LF] (hs @ [] # split_on LF body') = (?x @ [LF, LF]) @ sig_marker @ [LF] @ sig"
    by (simp add: join_shown [OF assms(4)] b)
  have idx: "index_of ((?x @ [LF, LF]) @ sig_marker @ [LF] @ sig) sig_marker = Some (length (?x @ [LF, LF]))"
    using assms(7) by (simp add: b)
  have st: "space_tail ?m = 0" by (simp add: normalized_def trim_space_def trim_right_idem)
  have "\<exists>t. ?x = hd hs @ LF # t"
  proof (cases hs')
    case (Cons h2 t)
    with hs show ?thesis by (metis append_Cons append_Nil append_assoc join_with.simps(3))
  qed (use hs in \<open>metis append_Cons append_Nil join_with.simps(2)\<close>)
  then obtain t where t: "?x = hd hs @ LF # t" by blast
  have "space_head (hd hs @ LF # t) = 0"
    using space_head_before [OF assms(5,6), of LF t] by (simp add: is_ascii_space_def)
  from trim_between [OF this assms(3) st, of "?H @ [LF]"] t
  have tr: "trim_space (?x @ [LF, LF]) = ?x" by simp
  have "signed_parts (hs @ [] # split_on LF body') = Some (?x, trim_space sig)"
    using signed_parts_at [OF full idx] tr by (simp add: trim_space_LF)
  moreover have "?x \<noteq> ?m" by (rule notI, drule arg_cong [of _ _ length]) simp
  ultimately show ?thesis by blast
qed

text \<open>A host whose minisign accepts exactly the message that was signed.\<close>

definition signing_host :: host where
  "signing_host = sample_host\<lparr>h_minisign_key := ''k'', h_minisign_pub := ''p'',
     h_sign := \<lambda>_ _ m. Inr (Inr (''sig:'' @ m)), h_verify := \<lambda>_ _ m sig. (sig = ''sig:'' @ m, ''bad'')\<rparr>"

lemma signed_and_verified_differ_witness:
  "signed_parts ([''Newsgroups: a.b''] @ [] # split_on LF (fst (sign_content signing_host ''hi'' (init_app [] []))))
     = Some (''Newsgroups: a.b'' @ [LF, LF] @ ''hi'', ''sig:hi'')
   \<and> ap_status (verify_minisign signing_host ((init_app [] [])\<lparr>ap_article := [''Newsgroups: a.b'']
        @ [] # split_on LF (fst (sign_content signing_host ''hi'' (init_app [] [])))\<rparr>)) = ''INVALID SIGNATURE: bad''"
proof -
  let ?hs = "[''Newsgroups: a.b'']"
  obtain b a' where s: "sign_content signing_host ''hi'' (init_app [] []) = (b, a')" by fastforce
  have v: "fst (sign_content signing_host ''hi'' (init_app [] [])) = ''hi'' @ [LF, LF] @ sig_marker @ [LF] @ ''sig:hi''"
    "normalized ''hi'' = ''hi''" "space_head (hd ?hs) = 0"
    "index_of (join_with [LF] ?hs @ [LF, LF] @ ''hi'' @ [LF, LF] @ sig_marker @ [LF] @ ''sig:hi'') sig_marker
      = Some (length (join_with [LF] ?hs) + 2 + length ''hi'' + 2)"
    "map_option snd (signed_parts (?hs @ [] # split_on LF (''hi'' @ [LF, LF] @ sig_marker @ [LF] @ ''sig:hi'')))
      = Some ''sig:hi''"
    "ap_status (verify_minisign signing_host ((init_app [] [])\<lparr>ap_article := ?hs
        @ [] # split_on LF (fst (sign_content signing_host ''hi'' (init_app [] [])))\<rparr>)) = ''INVALID SIGNATURE: bad''"
    by code_simp+
  have b: "b = ''hi'' @ [LF, LF] @ sig_marker @ [LF] @ ''sig:hi''" using v(1) s by simp
  have "\<exists>sig. signed_parts (?hs @ [] # split_on LF b)
      = Some (join_with [LF] ?hs @ [LF, LF] @ normalized ''hi'', sig)
    \<and> join_with [LF] ?hs @ [LF, LF] @ normalized ''hi'' \<noteq> normalized ''hi''"
    by (rule signed_and_verified_differ [OF s]) (use v(2-4) b in simp_all)
  with v(2,5,6) s b show ?thesis by auto
qed

end
