(* ===== verification/Tables.thy ===== *)
theory Tables
  imports Prelude
begin

text \<open>
  Tables of a relational store, as the link aggregator uses them: rows under an automatic key
  (\<^verbatim>\<open>INTEGER PRIMARY KEY AUTOINCREMENT\<close>) that is never given out twice, kept in the order
  of the keys. A table is the last key given out with the list of rows. Keys stay far from 64 bits,
  where the database refuses an insert.
\<close>

type_synonym 'r tbl = "int \<times> (int \<times> 'r) list"

definition tbl_get :: "'r tbl \<Rightarrow> int \<Rightarrow> 'r option" where
  "tbl_get t i = map_of (snd t) i"

definition tbl_insert :: "'r \<Rightarrow> 'r tbl \<Rightarrow> int \<times> 'r tbl" where
  "tbl_insert r t = (fst t + 1, (fst t + 1, snd t @ [(fst t + 1, r)]))"

definition tbl_update :: "(int \<Rightarrow> 'r \<Rightarrow> bool) \<Rightarrow> ('r \<Rightarrow> 'r) \<Rightarrow> 'r tbl \<Rightarrow> 'r tbl" where
  "tbl_update P f t = (fst t, map (\<lambda>(i, r). (i, if P i r then f r else r)) (snd t))"

definition tbl_delete :: "(int \<Rightarrow> 'r \<Rightarrow> bool) \<Rightarrow> 'r tbl \<Rightarrow> 'r tbl" where
  "tbl_delete P t = (fst t, filter (\<lambda>(i, r). \<not> P i r) (snd t))"

definition tbl_select :: "(int \<Rightarrow> 'r \<Rightarrow> bool) \<Rightarrow> 'r tbl \<Rightarrow> (int \<times> 'r) list" where
  "tbl_select P t = filter (\<lambda>(i, r). P i r) (snd t)"

text \<open>One row of a query without an order: at most one row matches where the columns are unique.\<close>

definition tbl_find :: "(int \<Rightarrow> 'r \<Rightarrow> bool) \<Rightarrow> 'r tbl \<Rightarrow> (int \<times> 'r) option" where
  "tbl_find P t = find (\<lambda>(i, r). P i r) (snd t)"

definition tbl_count :: "(int \<Rightarrow> 'r \<Rightarrow> bool) \<Rightarrow> 'r tbl \<Rightarrow> int" where
  "tbl_count P t = int (length (tbl_select P t))"

definition tbl_ok :: "'r tbl \<Rightarrow> bool" where
  "tbl_ok t \<longleftrightarrow> sorted (map fst (snd t)) \<and> distinct (map fst (snd t)) \<and> (\<forall>(i, r)\<in>set (snd t). 1 \<le> i \<and> i \<le> fst t) \<and> 0 \<le> fst t"

definition empty_tbl :: "'r tbl" where
  "empty_tbl = (0, [])"

named_theorems tbl_simps

lemma empty_tbl [tbl_simps]: "tbl_ok empty_tbl" "tbl_get empty_tbl i = None"
  by (simp_all add: tbl_ok_def empty_tbl_def tbl_get_def)

lemma tbl_in_get: "tbl_ok t \<Longrightarrow> (i, r) \<in> set (snd t) \<longleftrightarrow> tbl_get t i = Some r"
  by (auto simp: tbl_ok_def tbl_get_def dest: map_of_SomeD)

lemma tbl_get_range: "tbl_ok t \<Longrightarrow> tbl_get t i = Some r \<Longrightarrow> 1 \<le> i \<and> i \<le> fst t"
  by (auto simp: tbl_ok_def tbl_get_def dest!: map_of_SomeD)

lemma tbl_insert_ok [inv_intros]: "tbl_ok t \<Longrightarrow> tbl_insert r t = (i, t') \<Longrightarrow> tbl_ok t'"
  by (fastforce simp: tbl_ok_def tbl_insert_def sorted_append)

lemma tbl_insert_get:
  assumes "tbl_ok t" "tbl_insert r t = (i, t')"
  shows "tbl_get t' j = (if j = i then Some r else tbl_get t j)" "tbl_get t i = None" "i = fst t + 1"
proof -
  have new: "fst t + 1 \<notin> fst ` set (snd t)" using assms(1) by (auto simp: tbl_ok_def)
  then have "map_of (snd t) (fst t + 1) = None" by (simp add: map_of_eq_None_iff)
  with assms(2) show "tbl_get t' j = (if j = i then Some r else tbl_get t j)" "tbl_get t i = None"
    "i = fst t + 1"
    by (auto simp: tbl_insert_def tbl_get_def map_add_def split: option.splits)
qed

lemma tbl_update_ok [inv_intros]: "tbl_ok t \<Longrightarrow> tbl_ok (tbl_update P f t)"
proof -
  have "map fst (map (\<lambda>(i, r). (i, if P i r then f r else r)) xs) = map fst xs" for xs
    by (induction xs) auto
  moreover have "(\<forall>(i, r)\<in>set (map (\<lambda>(i, r). (i, if P i r then f r else r)) (snd t)). 1 \<le> i \<and> i \<le> fst t)
      = (\<forall>(i, r)\<in>set (snd t). 1 \<le> i \<and> i \<le> fst t)" by fastforce
  ultimately show "tbl_ok t \<Longrightarrow> ?thesis" by (simp only: tbl_ok_def tbl_update_def fst_conv snd_conv) simp
qed

lemma tbl_update_get [tbl_simps]:
  "tbl_get (tbl_update P f t) i = map_option (\<lambda>r. if P i r then f r else r) (tbl_get t i)"
proof -
  have "map_of (map (\<lambda>(i, r). (i, if P i r then f r else r)) xs) i
      = map_option (\<lambda>r. if P i r then f r else r) (map_of xs i)" for xs
    by (induction xs) auto
  then show ?thesis by (simp add: tbl_get_def tbl_update_def)
qed

lemma tbl_delete_ok [inv_intros]: "tbl_ok t \<Longrightarrow> tbl_ok (tbl_delete P t)"
  by (auto simp: tbl_ok_def tbl_delete_def distinct_map_filter sorted_filter)

lemma tbl_delete_get:
  assumes "tbl_ok t"
  shows "tbl_get (tbl_delete P t) i
    = (case tbl_get t i of None \<Rightarrow> None | Some r \<Rightarrow> if P i r then None else Some r)"
proof -
  note ok = tbl_delete_ok [OF assms, of P]
  show ?thesis
  proof (cases "tbl_get (tbl_delete P t) i")
    case None
    have "P i r" if "tbl_get t i = Some r" for r
    proof (rule ccontr)
      assume "\<not> P i r"
      with that tbl_in_get [OF assms] have "(i, r) \<in> set (snd (tbl_delete P t))" by (simp add: tbl_delete_def)
      with None tbl_in_get [OF ok] show False by simp
    qed
    with None show ?thesis by (simp split: option.splits)
  next
    case (Some r)
    then have "(i, r) \<in> set (snd (tbl_delete P t))" using tbl_in_get [OF ok] by simp
    then have "tbl_get t i = Some r" "\<not> P i r" using tbl_in_get [OF assms] by (auto simp: tbl_delete_def)
    with Some show ?thesis by simp
  qed
qed

lemma tbl_find_Some: "tbl_ok t \<Longrightarrow> tbl_find P t = Some (i, r) \<Longrightarrow> tbl_get t i = Some r \<and> P i r"
  by (auto simp: tbl_find_def find_Some_iff tbl_in_get [symmetric]) (metis nth_mem)

lemma tbl_find_None: "tbl_ok t \<Longrightarrow> tbl_find P t = None \<longleftrightarrow> (\<forall>i r. tbl_get t i = Some r \<longrightarrow> \<not> P i r)"
  by (auto simp: tbl_find_def find_None_iff tbl_in_get [symmetric])

lemma tbl_count_pos: "tbl_ok t \<Longrightarrow> 0 < tbl_count P t \<longleftrightarrow> (\<exists>i r. tbl_get t i = Some r \<and> P i r)"
  by (auto simp: tbl_count_def tbl_select_def filter_empty_conv tbl_in_get [symmetric])

lemma tbl_count_nonneg [simp]: "0 \<le> tbl_count P t"
  by (simp add: tbl_count_def)

lemma tbl_count_zero: "tbl_ok t \<Longrightarrow> tbl_count P t = 0 \<longleftrightarrow> (\<forall>i r. tbl_get t i = Some r \<longrightarrow> \<not> P i r)"
  using tbl_count_pos [of t P] tbl_count_nonneg [of P t] by (metis less_le)

lemma tbl_count_insert [tbl_simps]:
  "tbl_insert r t = (i, t') \<Longrightarrow> tbl_count P t' = tbl_count P t + (if P i r then 1 else 0)"
  by (auto simp: tbl_count_def tbl_select_def tbl_insert_def)

lemma tbl_count_delete_other:
  "(\<And>i r. tbl_get t i = Some r \<Longrightarrow> P i r \<Longrightarrow> \<not> Q i r) \<Longrightarrow> tbl_ok t \<Longrightarrow>
     tbl_count P (tbl_delete Q t) = tbl_count P t"
proof -
  assume a: "\<And>i r. tbl_get t i = Some r \<Longrightarrow> P i r \<Longrightarrow> \<not> Q i r" "tbl_ok t"
  have "filter (\<lambda>(i, r). P i r) (filter (\<lambda>(i, r). \<not> Q i r) (snd t)) = filter (\<lambda>(i, r). P i r) (snd t)"
    unfolding filter_filter using a by (intro filter_cong) (auto simp: tbl_in_get)
  then show ?thesis by (simp add: tbl_count_def tbl_select_def tbl_delete_def)
qed

lemma length_filter_remove_key:
  "distinct (map fst xs) \<Longrightarrow> (k, r) \<in> set xs \<Longrightarrow> P k r \<Longrightarrow>
     length (filter (\<lambda>(i, r). P i r) xs)
       = Suc (length (filter (\<lambda>(i, r). P i r) (filter (\<lambda>(i, r). i \<noteq> k) xs)))"
proof (induction xs)
  case (Cons x xs)
  obtain i q where x: "x = (i, q)" by (cases x)
  show ?case
  proof (cases "i = k")
    case True
    with Cons.prems x have "k \<notin> fst ` set xs" by auto
    then have "(k, b) \<notin> set xs" for b by force
    then have "filter (\<lambda>(i, r). i \<noteq> k) xs = xs" by (auto simp: filter_id_conv)
    moreover have "q = r" using Cons.prems x True by (auto simp: rev_image_eqI)
    ultimately show ?thesis using x True Cons.prems(3) by simp
  qed (use Cons x in auto)
qed simp

lemma tbl_count_delete_one:
  assumes "tbl_ok t" "tbl_get t k = Some r" "P k r"
  shows "tbl_count P (tbl_delete (\<lambda>i _. i = k) t) = tbl_count P t - 1"
proof -
  have "distinct (map fst (snd t))" "(k, r) \<in> set (snd t)"
    using assms(1,2) by (simp_all add: tbl_ok_def tbl_in_get)
  from length_filter_remove_key [where P = P, OF this assms(3)] show ?thesis
    by (simp add: tbl_count_def tbl_select_def tbl_delete_def case_prod_unfold)
qed

text \<open>A column without two equal entries.\<close>

definition tbl_unique :: "('r \<Rightarrow> 'c) \<Rightarrow> 'r tbl \<Rightarrow> bool" where
  "tbl_unique f t \<longleftrightarrow> (\<forall>i j r q. tbl_get t i = Some r \<longrightarrow> tbl_get t j = Some q \<longrightarrow> f r = f q \<longrightarrow> i = j)"

lemma tbl_unique_empty [simp]: "tbl_unique f empty_tbl"
  by (simp add: tbl_unique_def empty_tbl)

lemma tbl_unique_insert:
  assumes "tbl_ok t" "tbl_unique f t" "\<And>i r'. tbl_get t i = Some r' \<Longrightarrow> f r' \<noteq> f r"
  shows "tbl_unique f (snd (tbl_insert r t))"
proof -
  obtain i t' where ins: "tbl_insert r t = (i, t')" by (metis surj_pair)
  note g = tbl_insert_get(1) [OF assms(1) ins]
  show ?thesis unfolding ins snd_conv tbl_unique_def g
    using assms(2,3) unfolding tbl_unique_def by (metis option.inject)
qed

lemma tbl_unique_update:
  "tbl_unique f t \<Longrightarrow> (\<And>i r. tbl_get t i = Some r \<Longrightarrow> P i r \<Longrightarrow> f (g r) = f r) \<Longrightarrow>
     tbl_unique f (tbl_update P g t)"
proof -
  assume a: "tbl_unique f t" "\<And>i r. tbl_get t i = Some r \<Longrightarrow> P i r \<Longrightarrow> f (g r) = f r"
  have "\<exists>r0. tbl_get t i = Some r0 \<and> f r = f r0" if "tbl_get (tbl_update P g t) i = Some r" for i r
    using that a(2) by (auto simp: tbl_update_get split: if_splits)
  with a(1) show ?thesis unfolding tbl_unique_def by metis
qed

lemma tbl_unique_delete: "tbl_ok t \<Longrightarrow> tbl_unique f t \<Longrightarrow> tbl_unique f (tbl_delete P t)"
proof -
  assume a: "tbl_ok t" "tbl_unique f t"
  have "tbl_get t i = Some r" if "tbl_get (tbl_delete P t) i = Some r" for i r
    using that by (auto simp: tbl_delete_get [OF a(1)] split: option.splits if_splits)
  with a(2) show ?thesis unfolding tbl_unique_def by blast
qed

lemma tbl_unique_set_one:
  assumes "tbl_unique f t" "\<And>i r. tbl_get t i = Some r \<Longrightarrow> i \<noteq> k \<Longrightarrow> f r \<noteq> c" "\<And>r. f (g r) = c"
  shows "tbl_unique f (tbl_update (\<lambda>i _. i = k) g t)"
  unfolding tbl_unique_def
proof (intro allI impI)
  fix i j r q
  assume a: "tbl_get (tbl_update (\<lambda>i _. i = k) g t) i = Some r"
    "tbl_get (tbl_update (\<lambda>i _. i = k) g t) j = Some q" "f r = f q"
  from a(1) obtain r0 where r0: "tbl_get t i = Some r0" "r = (if i = k then g r0 else r0)"
    by (auto simp: tbl_update_get)
  from a(2) obtain q0 where q0: "tbl_get t j = Some q0" "q = (if j = k then g q0 else q0)"
    by (auto simp: tbl_update_get)
  show "i = j"
  proof (cases "i = k \<or> j = k")
    case True
    with r0 q0 a(3) assms(2,3) show ?thesis by metis
  next
    case False
    with r0 q0 a(3) assms(1) show ?thesis unfolding tbl_unique_def by metis
  qed
qed

end
