(* ===== verification/MakhorDb.thy ===== *)
theory MakhorDb
  imports Tables
begin

text \<open>
  The database of the link aggregator (\<^verbatim>\<open>tools/makhor/pkg/db/db.go\<close>, the schema in
  \<^verbatim>\<open>migrate\<close>) and the values its methods return
  (\<^verbatim>\<open>tools/makhor/pkg/models/models.go\<close>). The SQL engine is not part of the repository: a
  statement either does what its text says or fails on a constraint of the schema; failures of the
  disk, of locks and of the connection are left out. Foreign keys are checked only on the connection
  that ran the PRAGMA, one of a pool, so whether the statement at hand is checked (\<open>dv_fk\<close>) comes with
  the environment of a call, like the time, in seconds, and the random token. Stored times and
  \<^verbatim>\<open>datetime('now')\<close> are compared as instants, which the text comparison of the driver
  gives when the process runs in UTC.
\<close>

datatype db_error = User_not_found | User_exists | Invalid_token | Invalid_invite | Post_not_found
  | Comment_not_found | Tag_not_found | Hat_not_found | Collection_not_found | No_rows | Constraint_failed
  | Token_used | Token_expired

record denv =
  dv_now :: int
  dv_token :: string
  dv_fk :: bool

record user_row =
  us_username :: string
  us_email :: string
  us_created_at :: int
  us_invited_by :: "int option"
  us_is_admin :: bool
  us_is_banned :: bool
  us_about :: string
  us_avatar :: "string option"
  us_avatar_type :: "string option"
  us_ban_reason :: string
  us_ban_expires_at :: "int option"
  us_banned_by :: "int option"

record login_token_row =
  lt_email :: string
  lt_token :: string
  lt_created_at :: int
  lt_expires_at :: int
  lt_used :: bool

record email_token_row =
  et_user_id :: int
  et_new_email :: string
  et_token :: string
  et_created_at :: int
  et_expires_at :: int
  et_used :: bool

record session_row =
  ss_user_id :: int
  ss_token :: string
  ss_created_at :: int
  ss_expires_at :: int

record invite_row =
  iv_code :: string
  iv_created_by :: int
  iv_created_at :: int
  iv_used_by :: "int option"
  iv_used_at :: "int option"
  iv_note :: string

record tag_row =
  tg_name :: string
  tg_description :: string
  tg_creator_id :: "int option"
  tg_created_at :: "int option"
  tg_is_active :: bool

record tag_admin_row =
  ta_tag_id :: int
  ta_user_id :: int
  ta_granted_by :: "int option"
  ta_granted_at :: int

record post_row =
  po_user_id :: int
  po_title :: string
  po_url :: "string option"
  po_body :: "string option"
  po_created_at :: int
  po_updated_at :: int
  po_score :: int
  po_is_deleted :: bool
  po_source_type :: string
  po_source_id :: "int option"
  po_hat_id :: "int option"

record comment_row =
  co_post_id :: int
  co_user_id :: int
  co_parent_id :: "int option"
  co_body :: string
  co_created_at :: int
  co_updated_at :: int
  co_score :: int
  co_is_deleted :: bool
  co_is_blurred :: bool
  co_hat_id :: "int option"

record hat_row =
  ht_user_id :: int
  ht_name :: string
  ht_organization :: string
  ht_link :: "string option"
  ht_granted_by :: "int option"
  ht_granted_at :: int
  ht_is_active :: bool

record vote_row =
  vt_user_id :: int
  vt_post_id :: "int option"
  vt_comment_id :: "int option"
  vt_value :: int
  vt_created_at :: int

record revision_row =
  rv_post_id :: int
  rv_user_id :: int
  rv_title :: string
  rv_body :: "string option"
  rv_created_at :: int

record feed_row =
  fd_url :: string
  fd_title :: string
  fd_tag_id :: int
  fd_created_by :: "int option"
  fd_interval_minutes :: int
  fd_last_polled :: "int option"
  fd_last_error :: "string option"
  fd_is_active :: bool
  fd_poll_on_view :: bool
  fd_auto_approve :: bool
  fd_max_items_per_poll :: int
  fd_created_at :: int

record item_row =
  it_feed_id :: int
  it_guid :: string
  it_post_id :: "int option"
  it_imported_at :: int

record poll_row =
  pl_feed_id :: int
  pl_polled_at :: int
  pl_success :: bool
  pl_http_status :: int
  pl_items_found :: int
  pl_items_imported :: int
  pl_error_message :: string
  pl_duration_ms :: int

record action_row =
  ac_user_id :: "int option"
  ac_action :: string
  ac_target_type :: string
  ac_target_id :: int
  ac_details :: string
  ac_ip_address :: string
  ac_created_at :: int

record moderation_row =
  md_moderator_id :: int
  md_action :: string
  md_target_user_id :: "int option"
  md_target_post_id :: "int option"
  md_target_comment_id :: "int option"
  md_reason :: string
  md_created_at :: int

record collection_row =
  cl_user_id :: int
  cl_name :: string
  cl_description :: string
  cl_created_at :: int

text \<open>
  The tables; \<open>db_post_tags\<close> has the pair of its columns as key, and
  \<open>db_collection_tags\<close> has its pairs under keys of their own.
\<close>

record db =
  db_users :: "user_row tbl"
  db_login_tokens :: "login_token_row tbl"
  db_email_tokens :: "email_token_row tbl"
  db_sessions :: "session_row tbl"
  db_invites :: "invite_row tbl"
  db_tags :: "tag_row tbl"
  db_tag_admins :: "tag_admin_row tbl"
  db_posts :: "post_row tbl"
  db_post_tags :: "(int \<times> int) list"
  db_comments :: "comment_row tbl"
  db_hats :: "hat_row tbl"
  db_votes :: "vote_row tbl"
  db_revisions :: "revision_row tbl"
  db_feeds :: "feed_row tbl"
  db_items :: "item_row tbl"
  db_polls :: "poll_row tbl"
  db_actions :: "action_row tbl"
  db_moderation :: "moderation_row tbl"
  db_collections :: "collection_row tbl"
  db_collection_tags :: "(int \<times> int) tbl"

definition empty_db :: db where
  "empty_db = \<lparr>db_users = empty_tbl, db_login_tokens = empty_tbl, db_email_tokens = empty_tbl,
     db_sessions = empty_tbl, db_invites = empty_tbl, db_tags = empty_tbl, db_tag_admins = empty_tbl,
     db_posts = empty_tbl, db_post_tags = [], db_comments = empty_tbl, db_hats = empty_tbl,
     db_votes = empty_tbl, db_revisions = empty_tbl, db_feeds = empty_tbl,
     db_items = empty_tbl, db_polls = empty_tbl, db_actions = empty_tbl, db_moderation = empty_tbl,
     db_collections = empty_tbl, db_collection_tags = empty_tbl\<rparr>"

text \<open>A foreign key column is fine if it is NULL, if its row exists, or if nothing checks it.\<close>

definition fk_ok :: "denv \<Rightarrow> 'r tbl \<Rightarrow> int option \<Rightarrow> bool" where
  "fk_ok e t i \<longleftrightarrow> (dv_fk e \<longrightarrow> (case i of None \<Rightarrow> True | Some k \<Rightarrow> tbl_get t k \<noteq> None))"

text \<open>
  A feed that is deleted takes its items and its poll log with it (\<^verbatim>\<open>ON DELETE CASCADE\<close>), where
  foreign keys are looked after.
\<close>

definition delete_feeds :: "denv \<Rightarrow> (int \<Rightarrow> feed_row \<Rightarrow> bool) \<Rightarrow> db \<Rightarrow> db" where
  "delete_feeds e P d =
     (let gone = (\<lambda>f. case tbl_get (db_feeds d) f of None \<Rightarrow> False | Some r \<Rightarrow> P f r);
          d' = d\<lparr>db_feeds := tbl_delete P (db_feeds d)\<rparr>
      in if dv_fk e
         then d'\<lparr>db_items := tbl_delete (\<lambda>_ r. gone (it_feed_id r)) (db_items d),
                 db_polls := tbl_delete (\<lambda>_ r. gone (pl_feed_id r)) (db_polls d)\<rparr>
         else d')"

text \<open>The users the methods return.\<close>

record user =
  ur_id :: int
  ur_username :: string
  ur_email :: string
  ur_created_at :: int
  ur_invited_by :: "int option"
  ur_is_admin :: bool
  ur_is_banned :: bool
  ur_about :: string
  ur_avatar :: "string option"
  ur_avatar_type :: string
  ur_ban_reason :: string
  ur_ban_expires_at :: "int option"
  ur_banned_by :: "int option"
  ur_banned_by_username :: string

definition or_empty :: "string option \<Rightarrow> string" where
  "or_empty s = (case s of None \<Rightarrow> [] | Some t \<Rightarrow> t)"

definition username_of :: "db \<Rightarrow> int option \<Rightarrow> string" where
  "username_of d i = (case i of None \<Rightarrow> []
     | Some k \<Rightarrow> (case tbl_get (db_users d) k of None \<Rightarrow> [] | Some u \<Rightarrow> us_username u))"

definition get_user_by_id :: "db \<Rightarrow> int \<Rightarrow> db_error + user" where
  "get_user_by_id d i =
     (case tbl_get (db_users d) i of
        None \<Rightarrow> Inl User_not_found
      | Some u \<Rightarrow> Inr \<lparr>ur_id = i, ur_username = us_username u, ur_email = us_email u,
          ur_created_at = us_created_at u, ur_invited_by = us_invited_by u, ur_is_admin = us_is_admin u,
          ur_is_banned = us_is_banned u, ur_about = us_about u, ur_avatar = us_avatar u,
          ur_avatar_type = or_empty (us_avatar_type u), ur_ban_reason = us_ban_reason u,
          ur_ban_expires_at = us_ban_expires_at u, ur_banned_by = us_banned_by u,
          ur_banned_by_username = username_of d (us_banned_by u)\<rparr>)"

end
