(* ===== verification/Accounts.thy ===== *)
theory Accounts
  imports MakhorDb Forest
begin

text \<open>
  Accounts of the link aggregator (\<^verbatim>\<open>tools/makhor/pkg/db/users.go\<close> and
  \<^verbatim>\<open>invites.go\<close>): login tokens, sessions, users, bans, changes of the email address,
  invitations and the tree they form. Each method is one definition on the database, in the order of
  its statements; a transaction that fails gives the database back unchanged.
\<close>

subsection \<open>Tokens and sessions\<close>

definition create_login_token :: "denv \<Rightarrow> string \<Rightarrow> db \<Rightarrow> (db_error + string) \<times> db" where
  "create_login_token e email d =
     (if tbl_find (\<lambda>_ r. lt_token r = dv_token e) (db_login_tokens d) \<noteq> None
      then (Inl Constraint_failed, d)
      else (Inr (dv_token e), d\<lparr>db_login_tokens := snd (tbl_insert
        \<lparr>lt_email = email, lt_token = dv_token e, lt_created_at = dv_now e,
         lt_expires_at = dv_now e + 15 * 60, lt_used = False\<rparr> (db_login_tokens d))\<rparr>))"

definition token_open :: "int \<Rightarrow> string \<Rightarrow> login_token_row \<Rightarrow> bool" where
  "token_open now t r \<longleftrightarrow> lt_token r = t \<and> \<not> lt_used r \<and> lt_expires_at r > now"

definition validate_login_token :: "denv \<Rightarrow> string \<Rightarrow> db \<Rightarrow> (db_error + string) \<times> db" where
  "validate_login_token e t d =
     (case tbl_find (\<lambda>_ r. token_open (dv_now e) t r) (db_login_tokens d) of
        None \<Rightarrow> (Inl Invalid_token, d)
      | Some (_, r) \<Rightarrow> (Inr (lt_email r), d\<lparr>db_login_tokens :=
          tbl_update (\<lambda>_ r. token_open (dv_now e) t r) (\<lambda>r. r\<lparr>lt_used := True\<rparr>) (db_login_tokens d)\<rparr>))"

definition create_session :: "denv \<Rightarrow> int \<Rightarrow> db \<Rightarrow> (db_error + string) \<times> db" where
  "create_session e u d =
     (if tbl_find (\<lambda>_ r. ss_token r = dv_token e) (db_sessions d) \<noteq> None \<or> \<not> fk_ok e (db_users d) (Some u)
      then (Inl Constraint_failed, d)
      else (Inr (dv_token e), d\<lparr>db_sessions := snd (tbl_insert
        \<lparr>ss_user_id = u, ss_token = dv_token e, ss_created_at = dv_now e,
         ss_expires_at = dv_now e + 30 * 24 * 60 * 60\<rparr> (db_sessions d))\<rparr>))"

definition validate_session :: "denv \<Rightarrow> string \<Rightarrow> db \<Rightarrow> (db_error + user) \<times> db" where
  "validate_session e t d =
     (case tbl_find (\<lambda>_ r. ss_token r = t \<and> ss_expires_at r > dv_now e) (db_sessions d) of
        None \<Rightarrow> (Inl Invalid_token, d\<lparr>db_sessions :=
          tbl_delete (\<lambda>_ r. ss_token r = t \<and> ss_expires_at r \<le> dv_now e) (db_sessions d)\<rparr>)
      | Some (_, r) \<Rightarrow> (get_user_by_id d (ss_user_id r), d))"

definition delete_session :: "string \<Rightarrow> db \<Rightarrow> db" where
  "delete_session t d = d\<lparr>db_sessions := tbl_delete (\<lambda>_ r. ss_token r = t) (db_sessions d)\<rparr>"

text \<open>
  The civil date of a day counted from the epoch, and back; \<^verbatim>\<open>AddDate\<close> lets a day that the
  month does not have run over into the next month, as \<open>days_from_civil\<close> does.
\<close>

definition days_from_civil :: "int \<Rightarrow> int \<Rightarrow> int \<Rightarrow> int" where
  "days_from_civil y m day =
     (let y' = (if m \<le> 2 then y - 1 else y);
          doy = (153 * (if m > 2 then m - 3 else m + 9) + 2) div 5 + day - 1
      in 365 * y' + y' div 4 - y' div 100 + y' div 400 + doy - 719468)"

definition civil_from_days :: "int \<Rightarrow> int \<times> int \<times> int" where
  "civil_from_days z =
     (let era = (z + 719468) div 146097; doe = (z + 719468) mod 146097;
          yoe = (doe - doe div 1460 + doe div 36524 - doe div 146096) div 365;
          doy = doe - (365 * yoe + yoe div 4 - yoe div 100);
          mp = (5 * doy + 2) div 153;
          m = (if mp < 10 then mp + 3 else mp - 9)
      in (yoe + era * 400 + (if m \<le> 2 then 1 else 0), m, doy - (153 * mp + 2) div 5 + 1))"

definition year_before :: "int \<Rightarrow> int" where
  "year_before t = (case civil_from_days (t div 86400) of
     (y, m, day) \<Rightarrow> days_from_civil (y - 1) m day * 86400 + t mod 86400)"

definition cleanup_expired :: "denv \<Rightarrow> db \<Rightarrow> db" where
  "cleanup_expired e d =
     d\<lparr>db_sessions := tbl_delete (\<lambda>_ r. ss_expires_at r < dv_now e) (db_sessions d),
       db_login_tokens := tbl_delete (\<lambda>_ r. lt_expires_at r < dv_now e) (db_login_tokens d),
       db_email_tokens := tbl_delete (\<lambda>_ r. et_expires_at r < dv_now e) (db_email_tokens d),
       db_actions := tbl_delete (\<lambda>_ r. ac_created_at r < dv_now e - 90 * 86400) (db_actions d),
       db_moderation := tbl_delete (\<lambda>_ r. md_created_at r < year_before (dv_now e)) (db_moderation d)\<rparr>"

subsection \<open>Users\<close>

definition create_user :: "denv \<Rightarrow> string \<Rightarrow> string \<Rightarrow> int option \<Rightarrow> db \<Rightarrow> (db_error + user) \<times> db" where
  "create_user e name email invited_by d =
     (if tbl_count (\<lambda>_ r. us_username r = name \<or> us_email r = email) (db_users d) > 0
      then (Inl User_exists, d)
      else if \<not> fk_ok e (db_users d) invited_by then (Inl Constraint_failed, d)
      else (case tbl_insert \<lparr>us_username = name, us_email = email, us_created_at = dv_now e,
              us_invited_by = invited_by, us_is_admin = False, us_is_banned = False, us_about = [],
              us_avatar = None, us_avatar_type = None, us_ban_reason = [], us_ban_expires_at = None,
              us_banned_by = None\<rparr> (db_users d) of
            (i, t) \<Rightarrow> (get_user_by_id (d\<lparr>db_users := t\<rparr>) i, d\<lparr>db_users := t\<rparr>)))"

definition get_user_by_username :: "db \<Rightarrow> string \<Rightarrow> db_error + user" where
  "get_user_by_username d name =
     (case tbl_find (\<lambda>_ r. us_username r = name) (db_users d) of
        None \<Rightarrow> Inl User_not_found | Some (i, _) \<Rightarrow> get_user_by_id d i)"

definition get_user_by_email :: "db \<Rightarrow> string \<Rightarrow> db_error + user" where
  "get_user_by_email d email =
     (case tbl_find (\<lambda>_ r. us_email r = email) (db_users d) of
        None \<Rightarrow> Inl User_not_found | Some (i, _) \<Rightarrow> get_user_by_id d i)"

definition set_user :: "int \<Rightarrow> (user_row \<Rightarrow> user_row) \<Rightarrow> db \<Rightarrow> db" where
  "set_user i f d = d\<lparr>db_users := tbl_update (\<lambda>k _. k = i) f (db_users d)\<rparr>"

definition update_user :: "int \<Rightarrow> string \<Rightarrow> db \<Rightarrow> db" where
  "update_user i about = set_user i (\<lambda>u. u\<lparr>us_about := about\<rparr>)"

definition update_user_avatar :: "int \<Rightarrow> string \<Rightarrow> string \<Rightarrow> db \<Rightarrow> db" where
  "update_user_avatar i avatar kind =
     set_user i (\<lambda>u. u\<lparr>us_avatar := Some avatar, us_avatar_type := Some kind\<rparr>)"

definition clear_ban :: "user_row \<Rightarrow> user_row" where
  "clear_ban u = u\<lparr>us_is_banned := False, us_ban_reason := [], us_ban_expires_at := None, us_banned_by := None\<rparr>"

definition set_user_banned :: "int \<Rightarrow> bool \<Rightarrow> db \<Rightarrow> db" where
  "set_user_banned i banned =
     set_user i (if banned then (\<lambda>u. u\<lparr>us_is_banned := True\<rparr>) else clear_ban)"

definition ban_user :: "denv \<Rightarrow> int \<Rightarrow> string \<Rightarrow> int option \<Rightarrow> int \<Rightarrow> db \<Rightarrow> (db_error + unit) \<times> db" where
  "ban_user e i reason expires by d =
     (if tbl_get (db_users d) i \<noteq> None \<and> \<not> fk_ok e (db_users d) (Some by) then (Inl Constraint_failed, d)
      else (Inr (), set_user i (\<lambda>u. u\<lparr>us_is_banned := True, us_ban_reason := reason,
        us_ban_expires_at := expires, us_banned_by := Some by\<rparr>) d))"

definition ban_over :: "int \<Rightarrow> user_row \<Rightarrow> bool" where
  "ban_over now u \<longleftrightarrow> us_is_banned u \<and> (case us_ban_expires_at u of None \<Rightarrow> False | Some t \<Rightarrow> t < now)"

definition check_and_clear_expired_bans :: "denv \<Rightarrow> int \<Rightarrow> db \<Rightarrow> bool \<times> db" where
  "check_and_clear_expired_bans e i d =
     (tbl_count (\<lambda>k u. k = i \<and> ban_over (dv_now e) u) (db_users d) > 0,
      d\<lparr>db_users := tbl_update (\<lambda>k u. k = i \<and> ban_over (dv_now e) u) clear_ban (db_users d)\<rparr>)"

subsection \<open>Changing the email address\<close>

definition create_email_change_token ::
  "denv \<Rightarrow> int \<Rightarrow> string \<Rightarrow> string \<Rightarrow> db \<Rightarrow> (db_error + unit) \<times> db" where
  "create_email_change_token e u new_email t d =
     (if tbl_find (\<lambda>_ r. et_token r = t) (db_email_tokens d) \<noteq> None \<or> \<not> fk_ok e (db_users d) (Some u)
      then (Inl Constraint_failed, d)
      else (Inr (), d\<lparr>db_email_tokens := snd (tbl_insert
        \<lparr>et_user_id = u, et_new_email = new_email, et_token = t, et_created_at = dv_now e,
         et_expires_at = dv_now e + 24 * 60 * 60, et_used = False\<rparr> (db_email_tokens d))\<rparr>))"

definition get_email_change_token :: "denv \<Rightarrow> string \<Rightarrow> db \<Rightarrow> db_error + int \<times> string" where
  "get_email_change_token e t d =
     (case tbl_find (\<lambda>_ r. et_token r = t) (db_email_tokens d) of
        None \<Rightarrow> Inl Invalid_token
      | Some (_, r) \<Rightarrow> if et_used r then Inl Token_used
          else if dv_now e > et_expires_at r then Inl Token_expired
          else Inr (et_user_id r, et_new_email r))"

definition email_token_open :: "int \<Rightarrow> string \<Rightarrow> email_token_row \<Rightarrow> bool" where
  "email_token_open now t r \<longleftrightarrow> et_token r = t \<and> \<not> et_used r \<and> et_expires_at r > now"

definition use_email_change_token :: "denv \<Rightarrow> string \<Rightarrow> db \<Rightarrow> (db_error + unit) \<times> db" where
  "use_email_change_token e t d =
     (case tbl_find (\<lambda>_ r. email_token_open (dv_now e) t r) (db_email_tokens d) of
        None \<Rightarrow> (Inl Invalid_token, d)
      | Some (_, r) \<Rightarrow>
          if tbl_get (db_users d) (et_user_id r) \<noteq> None
             \<and> tbl_find (\<lambda>i u. i \<noteq> et_user_id r \<and> us_email u = et_new_email r) (db_users d) \<noteq> None
          then (Inl Constraint_failed, d)
          else (Inr (), set_user (et_user_id r) (\<lambda>u. u\<lparr>us_email := et_new_email r\<rparr>)
            (d\<lparr>db_email_tokens := tbl_update (\<lambda>_ r. email_token_open (dv_now e) t r)
                 (\<lambda>r. r\<lparr>et_used := True\<rparr>) (db_email_tokens d)\<rparr>)))"

subsection \<open>Invitations\<close>

definition get_invite_by_id :: "db \<Rightarrow> int \<Rightarrow> db_error + int \<times> invite_row" where
  "get_invite_by_id d i =
     (case tbl_get (db_invites d) i of None \<Rightarrow> Inl Invalid_invite | Some r \<Rightarrow> Inr (i, r))"

definition create_invite :: "denv \<Rightarrow> int \<Rightarrow> string \<Rightarrow> db \<Rightarrow> (db_error + int \<times> invite_row) \<times> db" where
  "create_invite e u note d =
     (if tbl_find (\<lambda>_ r. iv_code r = dv_token e) (db_invites d) \<noteq> None \<or> \<not> fk_ok e (db_users d) (Some u)
      then (Inl Constraint_failed, d)
      else (case tbl_insert \<lparr>iv_code = dv_token e, iv_created_by = u, iv_created_at = dv_now e,
              iv_used_by = None, iv_used_at = None, iv_note = note\<rparr> (db_invites d) of
            (i, t) \<Rightarrow> (get_invite_by_id (d\<lparr>db_invites := t\<rparr>) i, d\<lparr>db_invites := t\<rparr>)))"

definition get_invite_by_code :: "db \<Rightarrow> string \<Rightarrow> db_error + int \<times> invite_row" where
  "get_invite_by_code d code =
     (case tbl_find (\<lambda>_ r. iv_code r = code) (db_invites d) of
        None \<Rightarrow> Inl Invalid_invite | Some (i, _) \<Rightarrow> get_invite_by_id d i)"

definition use_invite :: "denv \<Rightarrow> string \<Rightarrow> int \<Rightarrow> db \<Rightarrow> (db_error + unit) \<times> db" where
  "use_invite e code u d =
     (let open_row = (\<lambda>_ r. iv_code r = code \<and> iv_used_by r = None) in
      if tbl_count open_row (db_invites d) = 0 then (Inl Invalid_invite, d)
      else if \<not> fk_ok e (db_users d) (Some u) then (Inl Constraint_failed, d)
      else (Inr (), d\<lparr>db_invites := tbl_update open_row
        (\<lambda>r. r\<lparr>iv_used_by := Some u, iv_used_at := Some (dv_now e)\<rparr>) (db_invites d)\<rparr>))"

text \<open>The invites of a user, the newest first; equal times keep some order, here that of the keys.\<close>

definition get_user_invites :: "db \<Rightarrow> int \<Rightarrow> (int \<times> invite_row \<times> string) list" where
  "get_user_invites d u = map (\<lambda>(i, r). (i, r, username_of d (iv_used_by r)))
     (sort_key (\<lambda>(i, r). - iv_created_at r) (tbl_select (\<lambda>_ r. iv_created_by r = u) (db_invites d)))"

definition get_pending_invite_count :: "db \<Rightarrow> int \<Rightarrow> int" where
  "get_pending_invite_count d u =
     tbl_count (\<lambda>_ r. iv_created_by r = u \<and> iv_used_by r = None) (db_invites d)"

datatype invite_tree = Invite_node user "invite_tree list"

text \<open>The recursion of \<^verbatim>\<open>GetInviteTree\<close>; \<open>f\<close> bounds its depth, None is the recursion
  that does not end.\<close>

definition invitees :: "db \<Rightarrow> int \<Rightarrow> int list" where
  "invitees d u = map fst (tbl_select (\<lambda>_ r. us_invited_by r = Some u) (db_users d))"

fun get_invite_tree :: "nat \<Rightarrow> db \<Rightarrow> int \<Rightarrow> (db_error + invite_tree) option"
  and get_invite_trees :: "nat \<Rightarrow> db \<Rightarrow> int list \<Rightarrow> (db_error + invite_tree list) option" where
  "get_invite_tree 0 d u = None"
| "get_invite_tree (Suc f) d u =
     (case get_user_by_id d u of
        Inl err \<Rightarrow> Some (Inl err)
      | Inr usr \<Rightarrow> (case get_invite_trees f d (invitees d u) of
            None \<Rightarrow> None
          | Some (Inl err) \<Rightarrow> Some (Inl err)
          | Some (Inr ts) \<Rightarrow> Some (Inr (Invite_node usr ts))))"
| "get_invite_trees f d [] = Some (Inr [])"
| "get_invite_trees f d (u # us) =
     (case get_invite_tree f d u of
        None \<Rightarrow> None
      | Some (Inl err) \<Rightarrow> Some (Inl err)
      | Some (Inr t) \<Rightarrow> (case get_invite_trees f d us of
            None \<Rightarrow> None
          | Some (Inl err) \<Rightarrow> Some (Inl err)
          | Some (Inr ts) \<Rightarrow> Some (Inr (t # ts))))"

definition get_user_inviter :: "db \<Rightarrow> int \<Rightarrow> db_error + user option" where
  "get_user_inviter d u =
     (case tbl_get (db_users d) u of
        None \<Rightarrow> Inl No_rows
      | Some r \<Rightarrow> (case us_invited_by r of
            None \<Rightarrow> Inr None
          | Some i \<Rightarrow> map_sum id Some (get_user_by_id d i)))"

definition is_invited_by :: "db \<Rightarrow> int \<Rightarrow> int \<Rightarrow> bool" where
  "is_invited_by d target inviter =
     (case tbl_get (db_users d) target of None \<Rightarrow> False | Some r \<Rightarrow> us_invited_by r = Some inviter)"

subsection \<open>Sequences of operations\<close>

datatype account_op = Create_login_token string | Validate_login_token string | Create_session int
  | Validate_session string | Delete_session string | Cleanup_expired
  | Create_user string string "int option" | Update_user int string | Update_user_avatar int string string
  | Set_user_banned int bool | Ban_user int string "int option" int | Check_expired_bans int
  | Create_email_token int string string | Use_email_token string
  | Create_invite int string | Use_invite string int

fun account_step :: "denv \<times> account_op \<Rightarrow> db \<Rightarrow> db" where
  "account_step (e, Create_login_token m) d = snd (create_login_token e m d)"
| "account_step (e, Validate_login_token t) d = snd (validate_login_token e t d)"
| "account_step (e, Create_session u) d = snd (create_session e u d)"
| "account_step (e, Validate_session t) d = snd (validate_session e t d)"
| "account_step (e, Delete_session t) d = delete_session t d"
| "account_step (e, Cleanup_expired) d = cleanup_expired e d"
| "account_step (e, Create_user n m i) d = snd (create_user e n m i d)"
| "account_step (e, Update_user u a) d = update_user u a d"
| "account_step (e, Update_user_avatar u a k) d = update_user_avatar u a k d"
| "account_step (e, Set_user_banned u b) d = set_user_banned u b d"
| "account_step (e, Ban_user u r x b) d = snd (ban_user e u r x b d)"
| "account_step (e, Check_expired_bans u) d = snd (check_and_clear_expired_bans e u d)"
| "account_step (e, Create_email_token u m t) d = snd (create_email_change_token e u m t d)"
| "account_step (e, Use_email_token t) d = snd (use_email_change_token e t d)"
| "account_step (e, Create_invite u n) d = snd (create_invite e u n d)"
| "account_step (e, Use_invite c u) d = snd (use_invite e c u d)"

definition accounts_run :: "(denv \<times> account_op) list \<Rightarrow> db \<Rightarrow> db" where
  "accounts_run ops d = fold account_step ops d"

lemma accounts_run_simps [simp]:
  "accounts_run [] d = d" "accounts_run (p # ops) d = accounts_run ops (account_step p d)"
  by (simp_all add: accounts_run_def)

text \<open>The invariant of the account tables: automatic keys, and no two rows with the same name,
  address, token or code.\<close>

definition users_ok :: "user_row tbl \<Rightarrow> bool" where
  "users_ok t \<longleftrightarrow> tbl_ok t \<and> tbl_unique us_username t \<and> tbl_unique us_email t"

definition accounts_ok :: "db \<Rightarrow> bool" where
  "accounts_ok d \<longleftrightarrow> users_ok (db_users d)
     \<and> tbl_ok (db_login_tokens d) \<and> tbl_unique lt_token (db_login_tokens d)
     \<and> tbl_ok (db_sessions d) \<and> tbl_unique ss_token (db_sessions d)
     \<and> tbl_ok (db_email_tokens d) \<and> tbl_unique et_token (db_email_tokens d)
     \<and> tbl_ok (db_invites d) \<and> tbl_unique iv_code (db_invites d)"

text \<open>An insert that checked its unique column.\<close>

lemma checked_insert:
  assumes "tbl_ok t" "tbl_unique f t" "tbl_find (\<lambda>_ q. f q = c) t = None" "f r = c"
  shows "tbl_ok (snd (tbl_insert r t)) \<and> tbl_unique f (snd (tbl_insert r t))"
  using assms tbl_insert_ok [of t r "fst (tbl_insert r t)" "snd (tbl_insert r t)"]
    tbl_unique_insert [of t f r] tbl_find_None [of t "\<lambda>_ q. f q = c"] by auto

lemma users_ok_update:
  assumes "users_ok t" "\<And>u. us_username (f u) = us_username u" "\<And>u. us_email (f u) = us_email u"
  shows "users_ok (tbl_update P f t)"
  using assms by (auto simp: users_ok_def intro!: tbl_update_ok tbl_unique_update)

lemma set_user_ok:
  "accounts_ok d \<Longrightarrow> (\<And>u. us_username (f u) = us_username u) \<Longrightarrow> (\<And>u. us_email (f u) = us_email u) \<Longrightarrow>
     accounts_ok (set_user i f d)"
  by (simp add: accounts_ok_def set_user_def users_ok_update)

lemma create_user_ok:
  assumes "accounts_ok d"
  shows "accounts_ok (snd (create_user e n m i d))"
proof (cases "tbl_count (\<lambda>_ r. us_username r = n \<or> us_email r = m) (db_users d) > 0 \<or> \<not> fk_ok e (db_users d) i")
  case False
  let ?r = "\<lparr>us_username = n, us_email = m, us_created_at = dv_now e, us_invited_by = i, us_is_admin = False,
     us_is_banned = False, us_about = [], us_avatar = None, us_avatar_type = None, us_ban_reason = [],
     us_ban_expires_at = None, us_banned_by = None\<rparr>"
  have ok: "tbl_ok (db_users d)" "tbl_unique us_username (db_users d)" "tbl_unique us_email (db_users d)"
    using assms by (simp_all add: accounts_ok_def users_ok_def)
  have new: "us_username r \<noteq> n \<and> us_email r \<noteq> m" if "tbl_get (db_users d) k = Some r" for k r
    using False tbl_count_pos [OF ok(1), of "\<lambda>_ r. us_username r = n \<or> us_email r = m"] that by blast
  have "users_ok (snd (tbl_insert ?r (db_users d)))"
    using ok new tbl_insert_ok [OF ok(1), of ?r "fst (tbl_insert ?r (db_users d))"]
    by (auto simp: users_ok_def intro!: tbl_unique_insert)
  with False assms show ?thesis by (simp add: create_user_def split_beta accounts_ok_def)
qed (use assms in \<open>auto simp: create_user_def\<close>)

lemma use_email_ok:
  assumes "accounts_ok d"
  shows "accounts_ok (snd (use_email_change_token e t d))"
proof (cases "tbl_find (\<lambda>_ r. email_token_open (dv_now e) t r) (db_email_tokens d)")
  case (Some p)
  obtain k r where p: "p = (k, r)" by fastforce
  let ?t = "tbl_update (\<lambda>_ r. email_token_open (dv_now e) t r) (\<lambda>r. r\<lparr>et_used := True\<rparr>) (db_email_tokens d)"
  let ?us = "tbl_update (\<lambda>k _. k = et_user_id r) (\<lambda>u. u\<lparr>us_email := et_new_email r\<rparr>) (db_users d)"
  have ok: "tbl_ok (db_users d)" "tbl_unique us_username (db_users d)" "tbl_unique us_email (db_users d)"
    using assms by (simp_all add: accounts_ok_def users_ok_def)
  have et: "tbl_ok ?t" "tbl_unique et_token ?t"
    using assms by (auto simp: accounts_ok_def intro!: tbl_update_ok tbl_unique_update)
  show ?thesis
  proof (cases "tbl_get (db_users d) (et_user_id r) \<noteq> None
      \<and> tbl_find (\<lambda>i u. i \<noteq> et_user_id r \<and> us_email u = et_new_email r) (db_users d) \<noteq> None")
    case False
    have free: "us_email u \<noteq> et_new_email r"
      if "tbl_get (db_users d) (et_user_id r) \<noteq> None" "tbl_get (db_users d) i = Some u" "i \<noteq> et_user_id r" for i u
      using False that tbl_find_None [OF ok(1), of "\<lambda>i u. i \<noteq> et_user_id r \<and> us_email u = et_new_email r"] by auto
    have "tbl_unique us_email ?us"
    proof (cases "tbl_get (db_users d) (et_user_id r) = None")
      case True
      then show ?thesis by (intro tbl_unique_update [OF ok(3)]) auto
    next
      case False
      with free show ?thesis by (intro tbl_unique_set_one [OF ok(3)]) simp_all
    qed
    moreover have "tbl_unique us_username ?us" by (rule tbl_unique_update [OF ok(2)]) simp
    ultimately have us: "users_ok ?us" using tbl_update_ok [OF ok(1)] by (simp add: users_ok_def)
    have "use_email_change_token e t d = (Inr (), d\<lparr>db_email_tokens := ?t, db_users := ?us\<rparr>)"
      unfolding use_email_change_token_def Some p option.case prod.case if_not_P [OF False]
      by (simp add: set_user_def)
    with us et assms show ?thesis by (simp add: accounts_ok_def)
  qed (use Some p assms in \<open>simp add: use_email_change_token_def\<close>)
qed (use assms in \<open>simp add: use_email_change_token_def\<close>)

lemma tokens_ok:
  assumes "accounts_ok d"
  shows "accounts_ok (snd (create_login_token e m d))" "accounts_ok (snd (validate_login_token e t d))"
    "accounts_ok (snd (create_session e u d))" "accounts_ok (snd (validate_session e t d))"
    "accounts_ok (delete_session t d)" "accounts_ok (cleanup_expired e d)"
    "accounts_ok (snd (create_email_change_token e u m t d))"
    "accounts_ok (snd (create_invite e u n d))" "accounts_ok (snd (use_invite e c u d))"
proof -
  have ok: "tbl_ok (db_login_tokens d)" "tbl_unique lt_token (db_login_tokens d)"
    "tbl_ok (db_sessions d)" "tbl_unique ss_token (db_sessions d)"
    "tbl_ok (db_email_tokens d)" "tbl_unique et_token (db_email_tokens d)"
    "tbl_ok (db_invites d)" "tbl_unique iv_code (db_invites d)"
    using assms by (simp_all add: accounts_ok_def)
  note ins = checked_insert [OF ok(1,2)] checked_insert [OF ok(3,4)] checked_insert [OF ok(5,6)]
    checked_insert [OF ok(7,8)]
  note del = tbl_delete_ok [OF ok(1)] tbl_unique_delete [OF ok(1,2)] tbl_delete_ok [OF ok(3)]
    tbl_unique_delete [OF ok(3,4)] tbl_delete_ok [OF ok(5)] tbl_unique_delete [OF ok(5,6)]
  note upd = tbl_update_ok [OF ok(1)] tbl_update_ok [OF ok(7)]
    tbl_unique_update [OF ok(2)] tbl_unique_update [OF ok(8)]
  show "accounts_ok (snd (create_login_token e m d))"
    using assms by (cases "tbl_find (\<lambda>_ r. lt_token r = dv_token e) (db_login_tokens d) = None")
      (simp_all add: create_login_token_def accounts_ok_def ins(1))
  show "accounts_ok (snd (validate_login_token e t d))"
    using assms upd(1,3) by (auto simp: validate_login_token_def accounts_ok_def split: option.splits)
  show "accounts_ok (snd (create_session e u d))"
    using assms by (cases "tbl_find (\<lambda>_ r. ss_token r = dv_token e) (db_sessions d) = None")
      (simp_all add: create_session_def accounts_ok_def ins(2))
  show "accounts_ok (snd (validate_session e t d))"
    using assms del(3,4) by (auto simp: validate_session_def accounts_ok_def split: option.splits)
  show "accounts_ok (delete_session t d)" "accounts_ok (cleanup_expired e d)"
    using assms del by (simp_all add: delete_session_def cleanup_expired_def accounts_ok_def)
  show "accounts_ok (snd (create_email_change_token e u m t d))"
    using assms by (cases "tbl_find (\<lambda>_ r. et_token r = t) (db_email_tokens d) = None")
      (simp_all add: create_email_change_token_def accounts_ok_def ins(3))
  show "accounts_ok (snd (create_invite e u n d))"
    using assms by (cases "tbl_find (\<lambda>_ r. iv_code r = dv_token e) (db_invites d) = None")
      (simp_all add: create_invite_def accounts_ok_def ins(4) split_beta)
  show "accounts_ok (snd (use_invite e c u d))"
    using assms upd(2,4) by (auto simp: use_invite_def accounts_ok_def Let_def)
qed

lemma account_step_ok [inv_intros]: "accounts_ok d \<Longrightarrow> accounts_ok (account_step p d)"
proof (induction p d rule: account_step.induct)
  case (11 e u r x b d)
  then show ?case by (simp add: ban_user_def set_user_ok)
next
  case (12 e u d)
  then show ?case by (simp add: check_and_clear_expired_bans_def accounts_ok_def users_ok_update clear_ban_def)
qed (simp_all add: tokens_ok create_user_ok use_email_ok set_user_ok update_user_def update_user_avatar_def
    set_user_banned_def clear_ban_def)

lemma accounts_run_ok: "accounts_ok d \<Longrightarrow> accounts_ok (accounts_run ops d)"
  by (induction ops arbitrary: d) (simp_all add: account_step_ok)

lemma empty_db_ok: "accounts_ok empty_db"
  by (simp add: accounts_ok_def users_ok_def empty_db_def empty_tbl)

subsection \<open>What is spent stays spent\<close>

text \<open>No row with this login token can be used any more; the same for an invitation code.\<close>

definition token_dead :: "string \<Rightarrow> db \<Rightarrow> bool" where
  "token_dead t d \<longleftrightarrow> (\<forall>i r. tbl_get (db_login_tokens d) i = Some r \<longrightarrow> lt_token r = t \<longrightarrow> lt_used r)"

definition invite_spent :: "string \<Rightarrow> db \<Rightarrow> bool" where
  "invite_spent c d \<longleftrightarrow> (\<forall>i r. tbl_get (db_invites d) i = Some r \<longrightarrow> iv_code r = c \<longrightarrow> iv_used_by r \<noteq> None)"

text \<open>The operations that make a new row with the given token or code.\<close>

definition makes_login :: "string \<Rightarrow> denv \<times> account_op \<Rightarrow> bool" where
  "makes_login t p \<longleftrightarrow> (case p of (e, Create_login_token _) \<Rightarrow> dv_token e = t | _ \<Rightarrow> False)"

definition makes_invite :: "string \<Rightarrow> denv \<times> account_op \<Rightarrow> bool" where
  "makes_invite c p \<longleftrightarrow> (case p of (e, Create_invite _ _) \<Rightarrow> dv_token e = c | _ \<Rightarrow> False)"

lemma insert_keeps_all:
  assumes "tbl_ok t" "\<forall>i r. tbl_get t i = Some r \<longrightarrow> P r" "P r'"
  shows "\<forall>i r. tbl_get (snd (tbl_insert r' t)) i = Some r \<longrightarrow> P r"
proof -
  obtain i t' where ins: "tbl_insert r' t = (i, t')" by (metis surj_pair)
  from assms show ?thesis by (auto simp: ins tbl_insert_get(1) [OF assms(1) ins] split: if_splits)
qed

lemma delete_keeps_all:
  "tbl_ok t \<Longrightarrow> \<forall>i r. tbl_get t i = Some r \<longrightarrow> P r \<Longrightarrow>
     \<forall>i r. tbl_get (tbl_delete Q t) i = Some r \<longrightarrow> P r"
  by (auto simp: tbl_delete_get split: option.splits if_splits)

lemma other_tables:
  "db_login_tokens (snd (create_session e u d)) = db_login_tokens d"
  "db_login_tokens (snd (validate_session e t d)) = db_login_tokens d"
  "db_login_tokens (delete_session t d) = db_login_tokens d"
  "db_login_tokens (snd (create_user e n m i d)) = db_login_tokens d"
  "db_login_tokens (set_user k f d) = db_login_tokens d"
  "db_login_tokens (snd (ban_user e u r x b d)) = db_login_tokens d"
  "db_login_tokens (snd (check_and_clear_expired_bans e u d)) = db_login_tokens d"
  "db_login_tokens (snd (create_email_change_token e u m t d)) = db_login_tokens d"
  "db_login_tokens (snd (use_email_change_token e t d)) = db_login_tokens d"
  "db_login_tokens (snd (create_invite e u m d)) = db_login_tokens d"
  "db_login_tokens (snd (use_invite e t u d)) = db_login_tokens d"
  "db_invites (snd (create_session e u d)) = db_invites d"
  "db_invites (snd (validate_session e t d)) = db_invites d"
  "db_invites (delete_session t d) = db_invites d"
  "db_invites (snd (create_user e n m i d)) = db_invites d"
  "db_invites (set_user k f d) = db_invites d"
  "db_invites (snd (ban_user e u r x b d)) = db_invites d"
  "db_invites (snd (check_and_clear_expired_bans e u d)) = db_invites d"
  "db_invites (snd (create_email_change_token e u m t d)) = db_invites d"
  "db_invites (snd (use_email_change_token e t d)) = db_invites d"
  "db_invites (snd (create_login_token e m d)) = db_invites d"
  "db_invites (snd (validate_login_token e t d)) = db_invites d"
  "db_invites (cleanup_expired e d) = db_invites d"
  by (auto simp: create_session_def validate_session_def delete_session_def create_user_def set_user_def
      ban_user_def check_and_clear_expired_bans_def create_email_change_token_def use_email_change_token_def
      create_invite_def use_invite_def create_login_token_def validate_login_token_def cleanup_expired_def
      Let_def split: option.splits prod.splits)

lemma token_dead_step:
  assumes "accounts_ok d" "token_dead t d" "\<not> makes_login t p"
  shows "token_dead t (account_step p d)"
proof -
  have ok: "tbl_ok (db_login_tokens d)" using assms(1) by (simp add: accounts_ok_def)
  have a: "\<forall>i r. tbl_get (db_login_tokens d) i = Some r \<longrightarrow> (lt_token r = t \<longrightarrow> lt_used r)"
    using assms(2) by (simp add: token_dead_def)
  have ins: "token_dead t (snd (create_login_token e m d))" if "dv_token e \<noteq> t" for e m
    using insert_keeps_all [OF ok a, of "\<lparr>lt_email = m, lt_token = dv_token e, lt_created_at = dv_now e,
        lt_expires_at = dv_now e + 15 * 60, lt_used = False\<rparr>"] that a
    by (simp add: create_login_token_def token_dead_def)
  have val: "token_dead t (snd (validate_login_token e t' d))" for e t'
    using a by (auto simp: validate_login_token_def token_dead_def tbl_update_get split: option.splits)
  have cl: "token_dead t (cleanup_expired e d)" for e
    using delete_keeps_all [OF ok a] by (simp add: cleanup_expired_def token_dead_def)
  show ?thesis
    using assms(3) ins val cl a
    by (induction p d rule: account_step.induct)
      (simp_all add: makes_login_def token_dead_def other_tables update_user_def update_user_avatar_def
        set_user_banned_def)
qed

lemma invite_spent_step:
  assumes "accounts_ok d" "invite_spent c d" "\<not> makes_invite c p"
  shows "invite_spent c (account_step p d)"
proof -
  have ok: "tbl_ok (db_invites d)" using assms(1) by (simp add: accounts_ok_def)
  have a: "\<forall>i r. tbl_get (db_invites d) i = Some r \<longrightarrow> (iv_code r = c \<longrightarrow> iv_used_by r \<noteq> None)"
    using assms(2) by (simp add: invite_spent_def)
  have ins: "invite_spent c (snd (create_invite e u n d))" if "dv_token e \<noteq> c" for e u n
    using insert_keeps_all [OF ok a, of "\<lparr>iv_code = dv_token e, iv_created_by = u, iv_created_at = dv_now e,
        iv_used_by = None, iv_used_at = None, iv_note = n\<rparr>"] that a
    by (simp add: create_invite_def invite_spent_def split_beta)
  have use: "invite_spent c (snd (use_invite e c' u d))" for e c' u
    using a by (auto simp: use_invite_def invite_spent_def tbl_update_get Let_def)
  show ?thesis
    using assms(3) ins use a
    by (induction p d rule: account_step.induct)
      (simp_all add: makes_invite_def invite_spent_def other_tables update_user_def update_user_avatar_def
        set_user_banned_def)
qed

lemma spent_run:
  assumes "accounts_ok d"
  shows "token_dead t d \<Longrightarrow> \<forall>p\<in>set ops. \<not> makes_login t p \<Longrightarrow> token_dead t (accounts_run ops d)"
    "invite_spent c d \<Longrightarrow> \<forall>p\<in>set ops. \<not> makes_invite c p \<Longrightarrow> invite_spent c (accounts_run ops d)"
  using assms
  by (induction ops arbitrary: d) (simp_all add: account_step_ok token_dead_step invite_spent_step)

subsection \<open>Properties of accounts\<close>

text \<open>
  C35. Accounts stay consistent: any sequence of account operations, at any times, with any tokens
  and whether or not foreign keys are checked, keeps user names, addresses, login tokens, session
  tokens, email tokens and invitation codes unique and the automatic keys in order.
\<close>

theorem accounts_stay_consistent:
  assumes "accounts_ok d"
  shows "accounts_ok (accounts_run ops d)"
  using assms by (rule accounts_run_ok)

definition now0 :: denv where
  "now0 = \<lparr>dv_now = 1000, dv_token = ''tok'', dv_fk = True\<rparr>"

text \<open>A database with a first user, who has an open invitation with code ''inv''.\<close>

definition two_users :: db where
  "two_users = accounts_run [(now0, Create_user ''root'' ''r@x.de'' None),
     (now0\<lparr>dv_token := ''inv''\<rparr>, Create_invite 1 [])] empty_db"

lemma two_users_invites: "length (snd (db_invites two_users)) = 1"
  by code_simp

lemma two_users_ok: "accounts_ok two_users"
  unfolding two_users_def by (rule accounts_run_ok [OF empty_db_ok])

lemma accounts_stay_consistent_witness:
  "accounts_ok (accounts_run [(now0, Create_user ''root'' ''r@x.de'' None)] empty_db)
   \<and> length (snd (db_users (accounts_run [(now0, Create_user ''root'' ''r@x.de'' None)] empty_db))) = 1"
proof -
  have "length (snd (db_users (accounts_run [(now0, Create_user ''root'' ''r@x.de'' None)] empty_db))) = 1"
    by code_simp
  with accounts_stay_consistent [OF empty_db_ok, of "[(now0, Create_user ''root'' ''r@x.de'' None)]"]
  show ?thesis by simp
qed

lemma get_user_by_id_sessions: "get_user_by_id (d\<lparr>db_sessions := x\<rparr>) u = get_user_by_id d u"
proof -
  have "username_of (d\<lparr>db_sessions := x\<rparr>) i = username_of d i" for i
    by (cases i) (simp_all add: username_of_def)
  then show ?thesis by (cases "tbl_get (db_users d) u") (simp_all add: get_user_by_id_def)
qed

lemma validated_dead:
  assumes "accounts_ok d" "validate_login_token e t d = (Inr m, d')"
  shows "token_dead t d'"
proof -
  have ok: "tbl_ok (db_login_tokens d)" "tbl_unique lt_token (db_login_tokens d)"
    using assms(1) by (simp_all add: accounts_ok_def)
  from assms(2) obtain i r where f: "tbl_find (\<lambda>_ r. token_open (dv_now e) t r) (db_login_tokens d) = Some (i, r)"
    "db_login_tokens d' = tbl_update (\<lambda>_ r. token_open (dv_now e) t r) (\<lambda>r. r\<lparr>lt_used := True\<rparr>) (db_login_tokens d)"
    by (auto simp: validate_login_token_def split: option.splits)
  note g = tbl_find_Some [OF ok(1) f(1)]
  have same: "q = r" if "tbl_get (db_login_tokens d) j = Some q" "lt_token q = t" for j q
    using ok(2) g that unfolding tbl_unique_def token_open_def by (metis option.inject)
  have "lt_used q" if q: "tbl_get (db_login_tokens d') j = Some q" "lt_token q = t" for j q
  proof -
    from q(1) obtain q0 where q0: "tbl_get (db_login_tokens d) j = Some q0"
      "q = (if token_open (dv_now e) t q0 then q0\<lparr>lt_used := True\<rparr> else q0)"
      unfolding f(2) tbl_update_get by (cases "tbl_get (db_login_tokens d) j") auto
    with q(2) have "lt_token q0 = t" by (simp split: if_splits)
    with same [OF q0(1)] g have "token_open (dv_now e) t q0" by simp
    with q0(2) show ?thesis by simp
  qed
  then show ?thesis by (simp add: token_dead_def)
qed

lemma dead_fails: "accounts_ok d \<Longrightarrow> token_dead t d \<Longrightarrow> validate_login_token e t d = (Inl Invalid_token, d)"
proof -
  assume a: "accounts_ok d" "token_dead t d"
  have ok: "tbl_ok (db_login_tokens d)" using a(1) by (simp add: accounts_ok_def)
  have "tbl_find (\<lambda>_ r. token_open (dv_now e) t r) (db_login_tokens d) = None"
    unfolding tbl_find_None [OF ok] using a(2) by (auto simp: token_dead_def token_open_def)
  then show ?thesis by (simp add: validate_login_token_def)
qed

lemma login_token_accepted:
  assumes "accounts_ok d" "create_login_token e m d = (Inr t, d')" "dv_now e' < dv_now e + 15 * 60"
  shows "fst (validate_login_token e' t d') = Inr m"
proof -
  define life :: int where "life = 15 * 60"
  let ?r = "\<lparr>lt_email = m, lt_token = t, lt_created_at = dv_now e, lt_expires_at = dv_now e + life, lt_used = False\<rparr>"
  have "accounts_ok d'" using tokens_ok(1) [OF assms(1), of e m] assms(2) by simp
  then have s: "tbl_ok (db_login_tokens d)" "tbl_ok (db_login_tokens d')" "tbl_unique lt_token (db_login_tokens d')"
    using assms(1) by (simp_all add: accounts_ok_def)
  from assms(2) have d': "t = dv_token e" "d' = d\<lparr>db_login_tokens := snd (tbl_insert ?r (db_login_tokens d))\<rparr>"
    unfolding create_login_token_def life_def [symmetric] by (auto split: if_splits)
  obtain k ts where ins: "tbl_insert ?r (db_login_tokens d) = (k, ts)" by (metis surj_pair)
  have row: "tbl_get (db_login_tokens d') k = Some ?r"
    using tbl_insert_get(1) [OF s(1) ins] by (simp add: d'(2) ins)
  have op: "token_open (dv_now e') t ?r" using assms(3) by (simp add: token_open_def life_def)
  then obtain i r where p: "tbl_find (\<lambda>_ r. token_open (dv_now e') t r) (db_login_tokens d') = Some (i, r)"
    using tbl_find_None [OF s(2), of "\<lambda>_ r. token_open (dv_now e') t r"] row by fastforce
  from tbl_find_Some [OF s(2) p] have "tbl_get (db_login_tokens d') i = Some r" "lt_token r = t"
    by (simp_all add: token_open_def)
  then have "r = ?r" using s(3) row unfolding tbl_unique_def
    by (metis option.inject login_token_row.select_convs(2))
  with p show ?thesis by (simp add: validate_login_token_def)
qed

text \<open>
  C31. A login link works once: after a login token has been accepted, it is refused ever after,
  whatever account operations come in between, as long as the random generator does not give the
  same token out again.
\<close>

theorem login_link_works_once:
  assumes "accounts_ok d" "validate_login_token e t d = (Inr m, d')"
    and "\<forall>p\<in>set ops. \<not> makes_login t p"
  shows "validate_login_token e' t (accounts_run ops d') = (Inl Invalid_token, accounts_run ops d')"
proof -
  have ok: "accounts_ok d'" using tokens_ok(2) [OF assms(1), of e t] assms(2) by simp
  have "token_dead t (accounts_run ops d')"
    using spent_run(1) [OF ok validated_dead [OF assms(1,2)] assms(3)] .
  then show ?thesis using dead_fails accounts_run_ok [OF ok] by blast
qed

lemma login_link_works_once_witness:
  "\<exists>d'. validate_login_token now0 ''tok'' (accounts_run [(now0, Create_login_token ''r@x.de'')] two_users)
       = (Inr ''r@x.de'', d')
     \<and> validate_login_token now0 ''tok'' (accounts_run [(now0, Cleanup_expired)] d')
       = (Inl Invalid_token, accounts_run [(now0, Cleanup_expired)] d')"
proof -
  let ?d = "accounts_run [(now0, Create_login_token ''r@x.de'')] two_users"
  have ok: "accounts_ok ?d" by (rule accounts_run_ok [OF two_users_ok])
  have v: "fst (validate_login_token now0 ''tok'' ?d) = Inr ''r@x.de''" by code_simp
  then obtain d' where d': "validate_login_token now0 ''tok'' ?d = (Inr ''r@x.de'', d')" by (metis surjective_pairing)
  have "\<forall>p\<in>set [(now0, Cleanup_expired)]. \<not> makes_login ''tok'' p" by (simp add: makes_login_def)
  from login_link_works_once [OF ok d' this] d' show ?thesis by blast
qed

lemma session_validity:
  assumes "accounts_ok d" "create_session e u d = (Inr t, d')" "get_user_by_id d u = Inr usr"
  shows "fst (validate_session e' t d')
      = (if dv_now e' < dv_now e + 30 * 24 * 60 * 60 then Inr usr else Inl Invalid_token)"
proof -
  define life :: int where "life = 30 * 24 * 60 * 60"
  let ?r = "\<lparr>ss_user_id = u, ss_token = t, ss_created_at = dv_now e, ss_expires_at = dv_now e + life\<rparr>"
  have ok: "accounts_ok d'" using tokens_ok(3) [OF assms(1), of e u] assms(2) by simp
  have s: "tbl_ok (db_sessions d)" "tbl_ok (db_sessions d')" "tbl_unique ss_token (db_sessions d')"
    using assms(1) ok by (simp_all add: accounts_ok_def)
  from assms(2) have d': "t = dv_token e" "d' = d\<lparr>db_sessions := snd (tbl_insert ?r (db_sessions d))\<rparr>"
    unfolding create_session_def life_def [symmetric] by (auto split: if_splits)
  obtain k ss where ins: "tbl_insert ?r (db_sessions d) = (k, ss)" by (metis surj_pair)
  have row: "tbl_get (db_sessions d') k = Some ?r"
    using tbl_insert_get(1) [OF s(1) ins] by (simp add: d'(2) ins)
  have only: "r = ?r" if "tbl_get (db_sessions d') i = Some r" "ss_token r = t" for i r
    using s(3) row that unfolding tbl_unique_def by (metis option.inject session_row.select_convs(2))
  have user: "get_user_by_id d' u = Inr usr" using assms(3) by (simp add: d'(2) get_user_by_id_sessions)
  have "fst (validate_session e' t d')
      = (if dv_now e' < dv_now e + life then Inr usr else Inl Invalid_token)"
  proof (cases "tbl_find (\<lambda>_ r. ss_token r = t \<and> ss_expires_at r > dv_now e') (db_sessions d')")
    case None
    then have no: "\<forall>i r. tbl_get (db_sessions d') i = Some r \<longrightarrow> \<not> (ss_token r = t \<and> ss_expires_at r > dv_now e')"
      by (simp only: tbl_find_None [OF s(2)])
    have "\<not> (ss_token ?r = t \<and> ss_expires_at ?r > dv_now e')" by (rule no [rule_format, OF row])
    then have "\<not> dv_now e' < dv_now e + life" by simp
    with None show ?thesis by (simp add: validate_session_def)
  next
    case (Some p)
    then obtain i r where p: "tbl_find (\<lambda>_ r. ss_token r = t \<and> ss_expires_at r > dv_now e') (db_sessions d') = Some (i, r)"
      by (cases p) auto
    from tbl_find_Some [OF s(2) p] only have "r = ?r" "dv_now e' < ss_expires_at r" by auto
    with p user show ?thesis by (simp add: validate_session_def)
  qed
  then show ?thesis by (simp only: life_def)
qed

text \<open>
  A session lives exactly thirty days: the token made for a user is accepted, and gives that
  user, as long as less than thirty days have passed, and is refused from then on; after a logout
  the database refuses it at once.
\<close>

theorem session_lifetime:
  assumes "accounts_ok d" "create_session e u d = (Inr t, d')" "get_user_by_id d u = Inr usr"
  shows "fst (validate_session e' t d')
      = (if dv_now e' < dv_now e + 30 * 24 * 60 * 60 then Inr usr else Inl Invalid_token)
    \<and> fst (validate_session e' t (delete_session t d')) = Inl Invalid_token"
proof -
  have "tbl_ok (db_sessions d')" using tokens_ok(3) [OF assms(1), of e u] assms(2) by (simp add: accounts_ok_def)
  note ok = this
  have "tbl_find (\<lambda>_ r. ss_token r = t \<and> ss_expires_at r > dv_now e') (db_sessions (delete_session t d')) = None"
    using tbl_find_None [OF tbl_delete_ok [OF ok]]
    by (auto simp: delete_session_def tbl_delete_get [OF ok] split: option.splits)
  then have "fst (validate_session e' t (delete_session t d')) = Inl Invalid_token"
    by (simp add: validate_session_def)
  with session_validity [OF assms] show ?thesis by blast
qed

lemma session_lifetime_witness:
  "\<exists>d' usr. create_session now0 1 two_users = (Inr ''tok'', d') \<and> ur_username usr = ''root''
     \<and> fst (validate_session (now0\<lparr>dv_now := 2592999\<rparr>) ''tok'' d') = Inr usr
     \<and> fst (validate_session (now0\<lparr>dv_now := 2593000\<rparr>) ''tok'' d') = Inl Invalid_token"
proof -
  have v: "fst (create_session now0 1 two_users) = Inr ''tok''"
    "map_sum id ur_username (get_user_by_id two_users 1) = Inr ''root''" by code_simp+
  from v(1) obtain d' where d': "create_session now0 1 two_users = (Inr ''tok'', d')" by (metis surjective_pairing)
  from v(2) obtain usr where usr: "get_user_by_id two_users 1 = Inr usr" "ur_username usr = ''root''"
    by (cases "get_user_by_id two_users 1") auto
  from session_lifetime [OF two_users_ok d' usr(1), of "now0\<lparr>dv_now := 2592999\<rparr>"]
    session_lifetime [OF two_users_ok d' usr(1), of "now0\<lparr>dv_now := 2593000\<rparr>"] d' usr(2)
  show ?thesis by (auto simp: now0_def)
qed

lemma used_spent:
  assumes "accounts_ok d" "use_invite e c u d = (Inr (), d')"
  shows "invite_spent c d'"
proof -
  from assms(2) have d': "db_invites d' = tbl_update (\<lambda>_ r. iv_code r = c \<and> iv_used_by r = None)
      (\<lambda>r. r\<lparr>iv_used_by := Some u, iv_used_at := Some (dv_now e)\<rparr>) (db_invites d)"
    by (auto simp: use_invite_def Let_def split: if_splits)
  have "iv_used_by r \<noteq> None" if r: "tbl_get (db_invites d') j = Some r" "iv_code r = c" for j r
  proof -
    from r(1) obtain q where "tbl_get (db_invites d) j = Some q"
      "r = (if iv_code q = c \<and> iv_used_by q = None
            then q\<lparr>iv_used_by := Some u, iv_used_at := Some (dv_now e)\<rparr> else q)"
      unfolding d' tbl_update_get by (cases "tbl_get (db_invites d) j") auto
    with r(2) show ?thesis by (cases "iv_code q = c \<and> iv_used_by q = None") auto
  qed
  then show ?thesis by (simp add: invite_spent_def)
qed

text \<open>
  An invitation is redeemed once: after a successful redemption every later one fails, whatever
  account operations come in between, as long as the same code is not given out again.
\<close>

theorem invite_redeemed_once:
  assumes "accounts_ok d" "use_invite e c u d = (Inr (), d')" "\<forall>p\<in>set ops. \<not> makes_invite c p"
  shows "use_invite e' c u' (accounts_run ops d') = (Inl Invalid_invite, accounts_run ops d')"
proof -
  have ok: "accounts_ok d'" using tokens_ok(9) [OF assms(1), of e c u] assms(2) by simp
  let ?d = "accounts_run ops d'"
  have sp: "invite_spent c ?d" using spent_run(2) [OF ok used_spent [OF assms(1,2)] assms(3)] .
  have "tbl_ok (db_invites ?d)" using accounts_run_ok [OF ok] by (simp add: accounts_ok_def)
  from tbl_count_zero [OF this, of "\<lambda>_ r. iv_code r = c \<and> iv_used_by r = None"] sp
  have "tbl_count (\<lambda>_ r. iv_code r = c \<and> iv_used_by r = None) (db_invites ?d) = 0"
    by (auto simp: invite_spent_def)
  then show ?thesis by (simp add: use_invite_def)
qed

lemma invite_redeemed_once_witness:
  "\<exists>d'. use_invite now0 ''inv'' 1 two_users = (Inr (), d')
     \<and> use_invite now0 ''inv'' 1 (accounts_run [(now0, Create_invite 1 [])] d')
       = (Inl Invalid_invite, accounts_run [(now0, Create_invite 1 [])] d')"
proof -
  have "fst (use_invite now0 ''inv'' 1 two_users) = Inr ()" by code_simp
  then obtain d' where d': "use_invite now0 ''inv'' 1 two_users = (Inr (), d')" by (metis surjective_pairing)
  have "\<forall>p\<in>set [(now0, Create_invite 1 [])]. \<not> makes_invite ''inv'' p"
    by (simp add: makes_invite_def now0_def)
  from invite_redeemed_once [OF two_users_ok d' this] d' show ?thesis by blast
qed

end
