(* ===== verification/Pagination.thy ===== *)
theory Pagination
  imports Prelude "HOL-Library.Signed_Division"
begin

text \<open>
  Pagination of the link aggregator (\<^verbatim>\<open>tools/makhor/pkg/models/models.go\<close>). Go's ints are
  mathematical integers with \<open>wrap64\<close> after every operation that can leave 64 bits; division
  truncates toward zero.
\<close>

record pagination =
  pg_page :: int
  pg_per_page :: int
  pg_total :: int
  pg_total_pages :: int

definition new_pagination :: "int \<Rightarrow> int \<Rightarrow> int \<Rightarrow> pagination" where
  "new_pagination page0 per_page0 items =
     (let page = (if page0 < 1 then 1 else page0);
          per_page1 = (if per_page0 < 1 then 30 else per_page0);
          per_page = (if per_page1 > 100 then 100 else per_page1);
          pages = items sdiv per_page
      in \<lparr>pg_page = page, pg_per_page = per_page, pg_total = items,
          pg_total_pages = (if items smod per_page > 0 then wrap64 (pages + 1) else pages)\<rparr>)"

definition offset :: "pagination \<Rightarrow> int" where
  "offset p = wrap64 (wrap64 (pg_page p - 1) * pg_per_page p)"

definition has_prev :: "pagination \<Rightarrow> bool" where
  "has_prev p \<longleftrightarrow> pg_page p > 1"

definition has_next :: "pagination \<Rightarrow> bool" where
  "has_next p \<longleftrightarrow> pg_page p < pg_total_pages p"

text \<open>The window of page numbers: first, last, and whether pages are left out before and after.\<close>

definition page_window :: "pagination \<Rightarrow> int \<Rightarrow> int \<times> int \<times> bool \<times> bool" where
  "page_window p max_pages =
     (if pg_total_pages p \<le> max_pages then (1, pg_total_pages p, False, False)
      else let before = wrap64 (max_pages - 1) sdiv 2;
               after = wrap64 (wrap64 (max_pages - 1) - before);
               start0 = wrap64 (pg_page p - before);
               end0 = wrap64 (pg_page p + after);
               end1 = (if start0 < 1 then wrap64 (end0 + wrap64 (1 - start0)) else end0);
               start1 = (if start0 < 1 then 1 else start0);
               start2 = (if end1 > pg_total_pages p
                         then wrap64 (start1 - wrap64 (end1 - pg_total_pages p)) else start1);
               end2 = (if end1 > pg_total_pages p then pg_total_pages p else end1);
               start = (if start2 < 1 then 1 else start2)
           in (start, end2, start > 1, end2 < pg_total_pages p))"

definition window_pages :: "pagination \<Rightarrow> int list" where
  "window_pages p = (case page_window p 10 of (start, stop, _) \<Rightarrow> [start..stop])"

definition show_first_page :: "pagination \<Rightarrow> bool" where
  "show_first_page p = (case page_window p 10 of (_, _, f, _) \<Rightarrow> f)"

definition show_last_page :: "pagination \<Rightarrow> bool" where
  "show_last_page p = (case page_window p 10 of (_, _, _, l) \<Rightarrow> l)"

subsection \<open>The number of pages\<close>

lemma sdiv_nonneg: "0 \<le> a \<Longrightarrow> 0 < b \<Longrightarrow> a sdiv b = a div (b::int) \<and> a smod b = a mod b"
  by (auto simp: signed_divide_int_def signed_modulo_int_def sgn_if)

lemma total_pages_eq:
  fixes page per_page :: int
  assumes "0 \<le> items" "items < max_int64"
  defines "p \<equiv> new_pagination page per_page items"
  shows "1 \<le> pg_page p" "1 \<le> pg_per_page p" "pg_per_page p \<le> 100" "pg_total p = items"
    "pg_total_pages p = (if items mod pg_per_page p > 0 then items div pg_per_page p + 1
       else items div pg_per_page p)"
proof -
  show b: "1 \<le> pg_page p" "1 \<le> pg_per_page p" "pg_per_page p \<le> 100" "pg_total p = items"
    by (simp_all add: p_def new_pagination_def Let_def)
  let ?n = "pg_per_page p"
  have tp: "pg_total_pages p = (if items mod ?n > 0 then wrap64 (items div ?n + 1) else items div ?n)"
    using assms(1) b(2) sdiv_nonneg by (simp add: p_def new_pagination_def Let_def)
  have "0 \<le> items div ?n" using assms(1) b(2) by (simp add: pos_imp_zdiv_nonneg_iff)
  moreover have "items div ?n \<le> items" using zdiv_mono2 [of items 1 ?n] assms(1) b(2) by simp
  ultimately have "wrap64 (items div ?n + 1) = items div ?n + 1"
    using assms(2) by (intro wrap64_id) (simp_all add: min_int64_def)
  with tp show "pg_total_pages p = (if items mod ?n > 0 then items div ?n + 1 else items div ?n)" by simp
qed

lemma pages_bounds:
  fixes page per_page :: int
  assumes "0 \<le> items" "items < max_int64"
  defines "p \<equiv> new_pagination page per_page items"
  shows "items \<le> pg_total_pages p * pg_per_page p"
    and "1 \<le> k \<Longrightarrow> k \<le> pg_total_pages p \<Longrightarrow> (k - 1) * pg_per_page p < items"
proof -
  note tp = total_pages_eq [OF assms(1,2), of page per_page, folded p_def]
  let ?n = "pg_per_page p"
  have d: "items = items div ?n * ?n + items mod ?n" by simp
  have r: "0 \<le> items mod ?n" "items mod ?n < ?n" using tp(2) by simp_all
  have "(items div ?n + 1) * ?n = items div ?n * ?n + ?n" by (simp add: distrib_right)
  then have m: "pg_total_pages p * ?n = items div ?n * ?n + (if items mod ?n > 0 then ?n else 0)"
    by (simp add: tp(5))
  show "items \<le> pg_total_pages p * ?n"
  proof (cases "items mod ?n > 0")
    case True
    with m have "pg_total_pages p * ?n = items div ?n * ?n + ?n" by simp
    with d r show ?thesis by linarith
  next
    case False
    with m have "pg_total_pages p * ?n = items div ?n * ?n" by simp
    with d r False show ?thesis by linarith
  qed
  assume k: "1 \<le> k" "k \<le> pg_total_pages p"
  show "(k - 1) * ?n < items"
  proof (cases "items mod ?n > 0")
    case True
    then have "k - 1 \<le> items div ?n" using k(2) tp(5) by simp
    then have "(k - 1) * ?n \<le> items div ?n * ?n" using tp(2) by (intro mult_right_mono) simp_all
    with d True show ?thesis by linarith
  next
    case False
    then have "k - 1 \<le> items div ?n - 1" using k(2) tp(5) by simp
    then have "(k - 1) * ?n \<le> (items div ?n - 1) * ?n" using tp(2) by (intro mult_right_mono) simp_all
    also have "\<dots> = items div ?n * ?n - ?n" by (simp add: algebra_simps)
    finally show ?thesis using d r tp(2) by linarith
  qed
qed

lemma offset_plain:
  assumes "1 \<le> k" "(k - 1) * pg_per_page p \<le> max_int64" "1 \<le> pg_per_page p"
  shows "offset (p\<lparr>pg_page := k\<rparr>) = (k - 1) * pg_per_page p"
proof -
  have "(k - 1) * 1 \<le> (k - 1) * pg_per_page p" using assms(1,3) by (intro mult_left_mono) simp_all
  then have "wrap64 (k - 1) = k - 1" using assms(1,2) by (intro wrap64_id) (simp_all add: min_int64_def)
  moreover have "0 \<le> (k - 1) * pg_per_page p" using assms(1,3) by simp
  then have "wrap64 ((k - 1) * pg_per_page p) = (k - 1) * pg_per_page p"
    using assms(2) by (intro wrap64_id) (simp_all add: min_int64_def)
  ultimately show ?thesis by (simp add: offset_def)
qed

text \<open>
  The pages partition the list: for any total, page size and page asked for, every item lies on
  exactly one of the pages 1 to the number of pages, where a page holds the items from its offset on,
  as many as the page size; and there is no page without an item.
\<close>

theorem pages_partition:
  assumes "0 \<le> items" "items < max_int64" "p = new_pagination page per_page items"
  shows "(\<forall>i. 0 \<le> i \<and> i < items \<longrightarrow>
       (\<exists>!k. 1 \<le> k \<and> k \<le> pg_total_pages p \<and> offset (p\<lparr>pg_page := k\<rparr>) \<le> i
           \<and> i < offset (p\<lparr>pg_page := k\<rparr>) + pg_per_page p))
    \<and> (\<forall>k. 1 \<le> k \<and> k \<le> pg_total_pages p \<longrightarrow>
         0 \<le> offset (p\<lparr>pg_page := k\<rparr>) \<and> offset (p\<lparr>pg_page := k\<rparr>) < items)"
proof -
  note tp = total_pages_eq [OF assms(1,2), of page per_page, folded assms(3)]
  note pb = pages_bounds [OF assms(1,2), where page = page and per_page = per_page, folded assms(3)]
  let ?n = "pg_per_page p" and ?m = "pg_total_pages p"
  have off: "offset (p\<lparr>pg_page := k\<rparr>) = (k - 1) * ?n" if "1 \<le> k" "k \<le> ?m" for k
    using pb(2) [OF that] assms(2) tp(2) that(1) by (intro offset_plain) simp_all
  have "\<exists>!k. 1 \<le> k \<and> k \<le> ?m \<and> (k - 1) * ?n \<le> i \<and> i < (k - 1) * ?n + ?n" if i: "0 \<le> i" "i < items" for i
  proof (rule ex1I [of _ "i div ?n + 1"])
    have d: "i = i div ?n * ?n + i mod ?n" by simp
    have "0 \<le> i mod ?n" "i mod ?n < ?n" using tp(2) by simp_all
    moreover have "0 \<le> i div ?n" using i(1) tp(2) by (simp add: pos_imp_zdiv_nonneg_iff)
    moreover have "i div ?n < ?m"
    proof (rule ccontr)
      assume "\<not> i div ?n < ?m"
      then have "?m * ?n \<le> i div ?n * ?n" using tp(2) by (intro mult_right_mono) simp_all
      with pb(1) i(2) d \<open>0 \<le> i mod ?n\<close> show False by linarith
    qed
    moreover have "i div ?n * ?n \<le> i" "i < i div ?n * ?n + ?n" using d calculation(1,2) by linarith+
    ultimately show "1 \<le> i div ?n + 1 \<and> i div ?n + 1 \<le> ?m \<and> (i div ?n + 1 - 1) * ?n \<le> i
        \<and> i < (i div ?n + 1 - 1) * ?n + ?n" by simp
  next
    fix k assume "1 \<le> k \<and> k \<le> ?m \<and> (k - 1) * ?n \<le> i \<and> i < (k - 1) * ?n + ?n"
    then have "i div ?n = k - 1"
      by (intro int_div_pos_eq [of i ?n "k - 1" "i - (k - 1) * ?n"]) (auto simp: algebra_simps)
    then show "k = i div ?n + 1" by simp
  qed
  moreover have "0 \<le> (k - 1) * ?n" if "1 \<le> k" for k using that tp(2) by simp
  ultimately show ?thesis using off pb(2) by (simp cong: conj_cong)
qed

lemma pages_partition_witness:
  "pg_total_pages (new_pagination 0 20 41) = 3
   \<and> (\<exists>!k. 1 \<le> k \<and> k \<le> 3 \<and> offset ((new_pagination 0 20 41)\<lparr>pg_page := k\<rparr>) \<le> 40
           \<and> 40 < offset ((new_pagination 0 20 41)\<lparr>pg_page := k\<rparr>) + 20)"
proof -
  have v: "pg_total_pages (new_pagination 0 20 41) = 3" "pg_per_page (new_pagination 0 20 41) = 20"
    by code_simp+
  have "(0::int) \<le> 41" "41 < max_int64" by (simp_all add: max_int64_def)
  from pages_partition [OF this refl, of 0 20, THEN conjunct1, rule_format, of 40] v show ?thesis by simp
qed

subsection \<open>The window of pages\<close>

text \<open>The window without wrapping, for numbers that are far from the limits.\<close>

definition plain_window :: "int \<Rightarrow> int \<Rightarrow> int \<Rightarrow> int \<times> int" where
  "plain_window page pages n =
     (if pages \<le> n then (1, pages)
      else let first = page - (n - 1) div 2 in
           if first < 1 then (1, n)
           else if first + n - 1 > pages then (pages - n + 1, pages)
           else (first, first + n - 1))"

lemma page_window_plain:
  assumes "1 \<le> n" "n \<le> 1000" "1 \<le> pg_page p" "pg_page p \<le> max_int64 - 2000"
    "0 \<le> pg_total_pages p" "pg_total_pages p \<le> max_int64"
  shows "page_window p n = (case plain_window (pg_page p) (pg_total_pages p) n of
    (start, stop) \<Rightarrow> (start, stop, start > 1 \<and> pg_total_pages p > n, stop < pg_total_pages p \<and> pg_total_pages p > n))"
proof -
  define b where "b = (n - 1) div 2"
  have w: "wrap64 (n - 1) = n - 1" using assms by (simp add: wrap64_id min_int64_def max_int64_def)
  have b: "(n - 1) sdiv 2 = b" using assms(1) sdiv_nonneg by (simp add: b_def)
  have br: "0 \<le> b" "b \<le> n - 1" using assms(1) by (simp_all add: b_def)
  have small: "wrap64 i = i" if "- 9000 \<le> i" "i \<le> max_int64" for i
    using that by (intro wrap64_id) (simp_all add: min_int64_def)
  have w2: "wrap64 (n - 1 - b) = n - 1 - b" "wrap64 (pg_page p - b) = pg_page p - b"
    "wrap64 (pg_page p + (n - 1 - b)) = pg_page p + (n - 1 - b)"
    by (rule small; use br assms in simp)+
  show ?thesis
  proof (cases "pg_total_pages p \<le> n")
    case True
    then show ?thesis by (simp add: page_window_def plain_window_def)
  next
    case False
    show ?thesis
    proof (cases "pg_page p - b < 1")
      case True
      have "wrap64 (1 - (pg_page p - b)) = 1 - (pg_page p - b)" "wrap64 n = n"
        by (rule small; use br assms True in \<open>simp add: max_int64_def\<close>)+
      with True False show ?thesis
        by (simp add: page_window_def plain_window_def w b w2 Let_def b_def [symmetric])
    next
      case start: False
      show ?thesis
      proof (cases "pg_page p + (n - 1 - b) > pg_total_pages p")
        case True
        have "wrap64 (pg_page p + (n - 1 - b) - pg_total_pages p) = pg_page p + (n - 1 - b) - pg_total_pages p"
          "wrap64 (pg_page p - b - (pg_page p + (n - 1 - b) - pg_total_pages p)) = pg_total_pages p - n + 1"
          by (rule small [THEN trans]; use br assms True False in simp)+
        with True False start show ?thesis
          by (simp add: page_window_def plain_window_def w b w2 Let_def b_def [symmetric])
      next
        case stop: False
        have e: "pg_page p - b + n - 1 = pg_page p + (n - 1 - b)" by simp
        show ?thesis using stop start False
          by (simp add: page_window_def plain_window_def w b w2 Let_def b_def [symmetric] e)
      qed
    qed
  qed
qed

text \<open>
  The window of page numbers is right for every page that can be asked for: if there are more
  than ten pages, it has exactly ten, all between 1 and the last page, and holds the current page, or
  the last page when the current one is beyond it; the marks for left-out pages are set exactly when
  the window does not begin at 1 or does not end at the last page. With ten pages or fewer it shows
  them all.
\<close>

theorem window_shows_ten_pages:
  assumes "1 \<le> pg_page p" "pg_page p \<le> max_int64 - 2000" "0 \<le> pg_total_pages p" "pg_total_pages p \<le> max_int64"
  shows "(if pg_total_pages p \<le> 10
      then window_pages p = [1..pg_total_pages p] \<and> \<not> show_first_page p \<and> \<not> show_last_page p
      else length (window_pages p) = 10 \<and> set (window_pages p) \<subseteq> {1..pg_total_pages p}
        \<and> min (pg_page p) (pg_total_pages p) \<in> set (window_pages p)
        \<and> show_first_page p = (1 \<notin> set (window_pages p))
        \<and> show_last_page p = (pg_total_pages p \<notin> set (window_pages p)))"
proof -
  have pw: "page_window p 10 = (case plain_window (pg_page p) (pg_total_pages p) 10 of
    (start, stop) \<Rightarrow> (start, stop, start > 1 \<and> pg_total_pages p > 10, stop < pg_total_pages p \<and> pg_total_pages p > 10))"
    by (rule page_window_plain) (use assms in simp_all)
  show ?thesis
    unfolding window_pages_def show_first_page_def show_last_page_def pw
    using assms(1,3) by (auto simp: plain_window_def Let_def)
qed

lemma window_shows_ten_pages_witness:
  "window_pages (new_pagination 12 10 500) = [8, 9, 10, 11, 12, 13, 14, 15, 16, 17]
   \<and> length (window_pages (new_pagination 12 10 500)) = 10"
proof -
  have v: "pg_page (new_pagination 12 10 500) = 12" "pg_total_pages (new_pagination 12 10 500) = 50"
    "window_pages (new_pagination 12 10 500) = [8, 9, 10, 11, 12, 13, 14, 15, 16, 17]" by code_simp+
  then have "1 \<le> pg_page (new_pagination 12 10 500)" "pg_page (new_pagination 12 10 500) \<le> max_int64 - 2000"
    "0 \<le> pg_total_pages (new_pagination 12 10 500)" "pg_total_pages (new_pagination 12 10 500) \<le> max_int64"
    by (simp_all add: max_int64_def)
  from window_shows_ten_pages [OF this] v show ?thesis by simp
qed

end
