(* ===== verification/Paging.thy ===== *)
theory Paging
  imports Pagination
begin

text \<open>
  Lists shown page by page: the LIMIT and OFFSET of a query, and the interface between a paged query of
  the link aggregator and the pagination of its pages
  (\<^verbatim>\<open>tools/makhor/pkg/models/models.go\<close>). Every paged query of the development is an
  instance of the interface.
\<close>

text \<open>A LIMIT with an OFFSET; a negative limit is none, a negative offset is zero.\<close>

definition limit_offset :: "int \<Rightarrow> int \<Rightarrow> 'a list \<Rightarrow> 'a list" where
  "limit_offset n k xs = (if n < 0 then drop (nat k) xs else take (nat n) (drop (nat k) xs))"

definition page_of :: "int \<Rightarrow> int \<Rightarrow> 'a list \<Rightarrow> 'a list" where
  "page_of page per_page = limit_offset per_page (wrap64 (wrap64 (page - 1) * per_page))"

lemma page_of_eq:
  assumes "0 < n" "int (k * n) \<le> max_int64"
  shows "page_of (int k + 1) (int n) xs = take n (drop (k * n) xs)"
proof -
  have "k * 1 \<le> k * n" using assms(1) by (intro mult_le_mono2) simp
  then have "int k \<le> max_int64" using assms(2) by linarith
  then have "wrap64 (int k + 1 - 1) = int k" by (simp add: wrap64_id min_int64_def)
  moreover have "wrap64 (int k * int n) = int (k * n)"
    using assms(2) by (intro wrap64_id [THEN trans]) (simp_all add: min_int64_def order_trans [OF _ mult_nonneg_nonneg])
  ultimately show ?thesis using assms(1) by (simp add: page_of_def limit_offset_def nat_mult_distrib)
qed

lemma pages_concat:
  fixes per_page :: int
  assumes "1 \<le> per_page" "per_page \<le> 100" "int (length xs) < max_int64"
  shows "concat (map (\<lambda>k. page_of k per_page xs) [1..pg_total_pages (new_pagination page per_page (int (length xs)))]) = xs"
proof -
  let ?p = "new_pagination page per_page (int (length xs))"
  obtain n where n: "per_page = int n" "0 < n" using assms(1) by (metis zero_less_one_class.zero_le_one order_trans nonneg_int_cases of_nat_0_less_iff zero_less_one order_less_le_trans)
  have per: "pg_per_page ?p = int n" using assms(1,2) n(1) by (simp add: new_pagination_def Let_def)
  note tp = total_pages_eq [of "int (length xs)" page per_page, OF of_nat_0_le_iff assms(3)]
  note pb = pages_bounds [of "int (length xs)", OF of_nat_0_le_iff assms(3), where page = page and per_page = per_page, unfolded per]
  have pre: "int k \<le> pg_total_pages ?p \<Longrightarrow> concat (map (\<lambda>k. page_of k per_page xs) [1..int k]) = take (k * n) xs" for k
  proof (induction k)
    case (Suc k)
    have "(int (Suc k) - 1) * int n < int (length xs)" using Suc.prems by (intro pb(2)) simp_all
    then have "int (k * n) \<le> max_int64" using assms(3) by simp
    then have "page_of (int k + 1) per_page xs = take n (drop (k * n) xs)" unfolding n(1) by (rule page_of_eq [OF n(2)])
    moreover have "[1..int (Suc k)] = [1..int k] @ [int k + 1]" by (simp add: upto_rec2)
    moreover have "take (Suc k * n) xs = take (k * n) xs @ take n (drop (k * n) xs)"
      using take_add [of "k * n" n xs] by (simp add: add.commute)
    ultimately show ?case using Suc by simp
  qed simp
  obtain m where m: "pg_total_pages ?p = int m"
    using tp(2,5) by (metis (no_types, lifting) nonneg_int_cases of_nat_0_le_iff pos_imp_zdiv_nonneg_iff
      add_nonneg_nonneg zero_le_one zero_less_one order_less_le_trans)
  have "int (length xs) \<le> int m * int n" using pb(1) m by simp
  then have "length xs \<le> m * n" by (metis of_nat_le_iff of_nat_mult)
  with pre [of m] m show ?thesis by simp
qed

lemma page_of_Nil: "page_of k n [] = []"
  by (simp add: page_of_def limit_offset_def)

lemma page_of_map: "map f (page_of k n xs) = page_of k n (map f xs)"
  by (simp add: page_of_def limit_offset_def take_map drop_map)

text \<open>
  What the pages rely on: a page is a stretch of one list that does not depend on the page asked for,
  and the total is the length of that list.
\<close>

locale paged_list =
  fixes listing :: "'s \<Rightarrow> int \<Rightarrow> int \<Rightarrow> 'a list \<times> int"
    and whole :: "'s \<Rightarrow> 'a list"
    and good :: "'s \<Rightarrow> bool"
  assumes page_law: "fst (listing d page per_page) = page_of page per_page (whole d)"
    and total_law: "good d \<Longrightarrow> snd (listing d page per_page) = int (length (whole d))"
    and size_law: "good d \<Longrightarrow> int (length (whole d)) < max_int64"
begin

lemma pages_complete:
  assumes "good d" "1 \<le> per_page" "per_page \<le> 100"
  shows "concat (map (\<lambda>k. fst (listing d k per_page))
      [1..pg_total_pages (new_pagination page per_page (snd (listing d page per_page)))]) = whole d"
  unfolding total_law [OF assms(1)] page_law by (rule pages_concat [OF assms(2,3) size_law [OF assms(1)]])

end

end
