(* ===== verification/AuditLog.thy ===== *)
theory AuditLog
  imports Accounts Paging GoStrconv
begin

text \<open>
  The record of what users did and the public record of moderation
  (\<^verbatim>\<open>tools/makhor/pkg/db/actionlog.go\<close>, \<^verbatim>\<open>modlog.go\<close>): what is
  entered, and how the lists of entries are filtered and come in pages.
\<close>

subsection \<open>Entering\<close>

definition log_action :: "denv \<Rightarrow> int option \<Rightarrow> string \<Rightarrow> string \<Rightarrow> int \<Rightarrow> string \<Rightarrow> string \<Rightarrow> db \<Rightarrow>
    (db_error + unit) \<times> db" where
  "log_action e u action target_type target details ip d =
     (if \<not> fk_ok e (db_users d) u then (Inl Constraint_failed, d)
      else (Inr (), d\<lparr>db_actions := snd (tbl_insert \<lparr>ac_user_id = u, ac_action = action,
        ac_target_type = target_type, ac_target_id = target, ac_details = details, ac_ip_address = ip,
        ac_created_at = dv_now e\<rparr> (db_actions d))\<rparr>))"

definition log_moderation :: "denv \<Rightarrow> int \<Rightarrow> string \<Rightarrow> int option \<Rightarrow> int option \<Rightarrow> int option \<Rightarrow> string \<Rightarrow> db \<Rightarrow>
    (db_error + unit) \<times> db" where
  "log_moderation e m action user post comment reason d =
     (if \<not> fk_ok e (db_users d) (Some m) \<or> \<not> fk_ok e (db_users d) user \<or> \<not> fk_ok e (db_posts d) post
         \<or> \<not> fk_ok e (db_comments d) comment then (Inl Constraint_failed, d)
      else (Inr (), d\<lparr>db_moderation := snd (tbl_insert \<lparr>md_moderator_id = m, md_action = action,
        md_target_user_id = user, md_target_post_id = post, md_target_comment_id = comment,
        md_reason = reason, md_created_at = dv_now e\<rparr> (db_moderation d))\<rparr>))"

subsection \<open>The action log\<close>

record action_log_filter =
  lf_category :: string
  lf_username :: string
  lf_target_type :: string
  lf_action :: string

definition action_categories :: "(string \<times> string list) list" where
  "action_categories =
     [(''post'', [''post_create'', ''post_update'', ''post_delete'', ''vote_post'', ''remove_post_tag'']),
      (''comment'', [''comment_create'', ''comment_update'', ''comment_delete'', ''vote_comment'',
         ''comment_blur'', ''comment_unblur'', ''comment_tree_delete'']),
      (''admin'', [''mod_ban'', ''mod_unban'', ''hat_grant'', ''hat_revoke'', ''tag_create'', ''tag_admin_add'',
         ''tag_admin_remove'', ''feed_add'', ''feed_update'', ''feed_delete'']),
      (''user'', [''user_create'', ''user_login'', ''user_update'', ''invite_create'', ''invite_use''])]"

definition log_user :: "db \<Rightarrow> action_row \<Rightarrow> string option" where
  "log_user d r = (case ac_user_id r of None \<Rightarrow> None | Some u \<Rightarrow> map_option us_username (tbl_get (db_users d) u))"

definition log_matches :: "db \<Rightarrow> action_log_filter \<Rightarrow> action_row \<Rightarrow> bool" where
  "log_matches d f r \<longleftrightarrow>
     (if lf_category f \<noteq> [] \<and> lf_category f \<noteq> ''all''
      then (case map_of action_categories (lf_category f) of None \<Rightarrow> True | Some as \<Rightarrow> ac_action r \<in> set as)
      else True)
     \<and> (if lf_username f \<noteq> [] then log_user d r = Some (lf_username f) else True)
     \<and> (if lf_target_type f \<noteq> [] then ac_target_type r = lf_target_type f else True)
     \<and> (if lf_action f \<noteq> [] then ac_action r = lf_action f else True)"

record action_log =
  al_id :: int
  al_user_id :: "int option"
  al_action :: string
  al_target_type :: string
  al_target_id :: int
  al_details :: string
  al_ip_address :: string
  al_created_at :: int
  al_username :: string
  al_target_info :: string

text \<open>A text that is shown up to its fiftieth byte.\<close>

definition cut50 :: "string \<Rightarrow> string" where
  "cut50 s = (if length s > 50 then take 50 s @ ''...'' else s)"

definition get_target_info :: "db \<Rightarrow> string \<Rightarrow> int \<Rightarrow> string" where
  "get_target_info d kind i =
     (let number = kind @ '' #'' @ itoa i;
          named = (\<lambda>s. if s \<noteq> [] then s else number);
          cut = (\<lambda>s. if s \<noteq> [] then cut50 s else number)
      in if kind = ''post'' then cut (case tbl_get (db_posts d) i of None \<Rightarrow> [] | Some p \<Rightarrow> po_title p)
      else if kind = ''comment'' then cut (case tbl_get (db_comments d) i of None \<Rightarrow> [] | Some c \<Rightarrow> co_body c)
      else if kind = ''user'' then named (username_of d (Some i))
      else if kind = ''tag'' then named (case tbl_get (db_tags d) i of None \<Rightarrow> [] | Some t \<Rightarrow> tg_name t)
      else if kind = ''hat'' then (case tbl_get (db_hats d) i of None \<Rightarrow> number
        | Some h \<Rightarrow> if ht_name h \<noteq> [] \<and> ht_organization h \<noteq> [] then ht_name h @ '' @ '' @ ht_organization h
            else named (ht_name h))
      else if kind = ''feed'' then named (case tbl_get (db_feeds d) i of None \<Rightarrow> [] | Some f \<Rightarrow> fd_title f)
      else number)"

definition action_log_of :: "db \<Rightarrow> int \<Rightarrow> action_row \<Rightarrow> action_log" where
  "action_log_of d i r = \<lparr>al_id = i, al_user_id = ac_user_id r, al_action = ac_action r,
     al_target_type = ac_target_type r, al_target_id = ac_target_id r, al_details = ac_details r,
     al_ip_address = ac_ip_address r, al_created_at = ac_created_at r,
     al_username = (case log_user d r of None \<Rightarrow> ''anonymous'' | Some n \<Rightarrow> n),
     al_target_info = get_target_info d (ac_target_type r) (ac_target_id r)\<rparr>"

definition actions_newest :: "(action_row \<Rightarrow> bool) \<Rightarrow> db \<Rightarrow> action_log list" where
  "actions_newest P d = map (\<lambda>(i, r). action_log_of d i r)
     (sort_key (\<lambda>(i, r). - ac_created_at r) (tbl_select (\<lambda>_ r. P r) (db_actions d)))"

definition get_action_log_filtered ::
  "db \<Rightarrow> action_log_filter \<Rightarrow> int \<Rightarrow> int \<Rightarrow> action_log list \<times> int" where
  "get_action_log_filtered d f page per_page =
     (page_of page per_page (actions_newest (log_matches d f) d),
      tbl_count (\<lambda>_ r. log_matches d f r) (db_actions d))"

definition get_action_log :: "db \<Rightarrow> int \<Rightarrow> int \<Rightarrow> action_log list \<times> int" where
  "get_action_log d page per_page = get_action_log_filtered d
     \<lparr>lf_category = [], lf_username = [], lf_target_type = [], lf_action = []\<rparr> page per_page"

definition get_user_action_log :: "db \<Rightarrow> int \<Rightarrow> int \<Rightarrow> int \<Rightarrow> action_log list \<times> int" where
  "get_user_action_log d u page per_page =
     (page_of page per_page (actions_newest (\<lambda>r. ac_user_id r = Some u) d),
      tbl_count (\<lambda>_ r. ac_user_id r = Some u) (db_actions d))"

definition get_recent_actions :: "db \<Rightarrow> int \<Rightarrow> action_log list" where
  "get_recent_actions d n = limit_offset n 0 (actions_newest (\<lambda>_. True) d)"

subsection \<open>The moderation log\<close>

record moderation_log_entry =
  me_id :: int
  me_moderator_id :: int
  me_moderator_name :: string
  me_action :: string
  me_target_user_id :: "int option"
  me_target_username :: "string option"
  me_target_post_id :: "int option"
  me_target_post_title :: "string option"
  me_target_comment_id :: "int option"
  me_reason :: string
  me_created_at :: int

definition get_moderation_log :: "db \<Rightarrow> int \<Rightarrow> int \<Rightarrow> moderation_log_entry list \<times> pagination" where
  "get_moderation_log d page per_page =
     (page_of page per_page (map (\<lambda>(i, r). \<lparr>me_id = i, me_moderator_id = md_moderator_id r,
          me_moderator_name = username_of d (Some (md_moderator_id r)), me_action = md_action r,
          me_target_user_id = md_target_user_id r,
          me_target_username = (case md_target_user_id r of None \<Rightarrow> None
            | Some u \<Rightarrow> map_option us_username (tbl_get (db_users d) u)),
          me_target_post_id = md_target_post_id r,
          me_target_post_title = (case md_target_post_id r of None \<Rightarrow> None
            | Some p \<Rightarrow> map_option po_title (tbl_get (db_posts d) p)),
          me_target_comment_id = md_target_comment_id r, me_reason = md_reason r, me_created_at = md_created_at r\<rparr>)
        (sort_key (\<lambda>(i, r). - md_created_at r)
          (tbl_select (\<lambda>_ r. tbl_get (db_users d) (md_moderator_id r) \<noteq> None) (db_moderation d)))),
      new_pagination page per_page (tbl_count (\<lambda>_ _. True) (db_moderation d)))"

subsection \<open>The log comes in pages\<close>

definition log_fits :: "db \<Rightarrow> bool" where
  "log_fits d \<longleftrightarrow> int (length (snd (db_actions d))) < max_int64"

lemma log_total:
  "int (length (actions_newest P d)) = tbl_count (\<lambda>_ r. P r) (db_actions d)"
  by (simp add: actions_newest_def tbl_count_def tbl_select_def)

lemma log_few: "log_fits d \<Longrightarrow> tbl_count (\<lambda>_ r. P r) (db_actions d) < max_int64"
  unfolding log_fits_def tbl_count_def tbl_select_def
  using length_filter_le [of "\<lambda>(i, r). P r" "snd (db_actions d)"] by linarith

interpretation action_pages: paged_list "\<lambda>d. get_action_log_filtered d f"
  "\<lambda>d. actions_newest (log_matches d f) d" log_fits for f
  by unfold_locales (simp_all add: get_action_log_filtered_def log_total log_few)

interpretation user_action_pages: paged_list "\<lambda>d. get_user_action_log d u"
  "actions_newest (\<lambda>r. ac_user_id r = Some u)" log_fits for u
  by unfold_locales (simp_all add: get_user_action_log_def log_total log_few)

end
