(* ===== verification/RateLimit.thy ===== *)
theory RateLimit
  imports GoStrings
begin

text \<open>
  The rate limiter of the link aggregator's sensitive pages and the address it counts by
  (\<^verbatim>\<open>RateLimiter\<close> and \<^verbatim>\<open>GetClientIP\<close> in
  \<^verbatim>\<open>tools/makhor/pkg/middleware/middleware.go\<close>). Times are instants and durations in
  nanoseconds; a method runs under the limiter's mutex, so its calls are a sequence.
\<close>

subsection \<open>The client's address\<close>

record request =
  rq_forwarded_for :: string
  rq_real_ip :: string
  rq_remote_addr :: string

definition get_client_ip :: "request \<Rightarrow> string" where
  "get_client_ip r =
     (if rq_forwarded_for r \<noteq> [] then trim_space (hd (split_on (CHR '','') (rq_forwarded_for r)))
      else if rq_real_ip r \<noteq> [] then trim_space (rq_real_ip r)
      else (let addr = rq_remote_addr r in
        case last_index (CHR '':'') addr of
          None \<Rightarrow> addr
        | Some i \<Rightarrow>
            if has_prefix addr ''['' then
              (case last_index (CHR '']'') addr of
                 None \<Rightarrow> addr
               | Some b \<Rightarrow> if i > b then take i addr else addr)
            else take i addr))"

subsection \<open>The limiter\<close>

record limiter =
  rl_requests :: "(string \<times> int list) list"
  rl_limit :: int
  rl_window :: int

definition new_rate_limiter :: "int \<Rightarrow> int \<Rightarrow> limiter" where
  "new_rate_limiter limit window = \<lparr>rl_requests = [], rl_limit = limit, rl_window = window\<rparr>"

definition max_tracked_ips :: nat where
  "max_tracked_ips = 10000"

definition recent_of :: "int \<Rightarrow> string \<Rightarrow> limiter \<Rightarrow> int list" where
  "recent_of now ip l = filter (\<lambda>t. t > now - rl_window l)
     (case map_of (rl_requests l) ip of None \<Rightarrow> [] | Some ts \<Rightarrow> ts)"

definition allow :: "int \<Rightarrow> string \<Rightarrow> limiter \<Rightarrow> bool \<times> limiter" where
  "allow now ip l =
     (let recent = recent_of now ip l in
      if int (length recent) \<ge> rl_limit l
        then (False, l\<lparr>rl_requests := AList.update ip recent (rl_requests l)\<rparr>)
      else if recent = [] \<and> length (rl_requests l) \<ge> max_tracked_ips then (True, l)
      else (True, l\<lparr>rl_requests := AList.update ip (recent @ [now]) (rl_requests l)\<rparr>))"

definition cleanup :: "int \<Rightarrow> limiter \<Rightarrow> limiter" where
  "cleanup now l = l\<lparr>rl_requests := filter (\<lambda>(ip, ts). ts \<noteq> [])
     (map (\<lambda>(ip, ts). (ip, filter (\<lambda>t. t > now - rl_window l) ts)) (rl_requests l))\<rparr>"

subsection \<open>Runs\<close>

text \<open>Calls at given times: a request from an address, or a tick of the cleanup. The answers are those
  to the requests.\<close>

type_synonym event = "int \<times> string option"

fun limiter_run :: "event list \<Rightarrow> limiter \<Rightarrow> bool list \<times> limiter" where
  "limiter_run [] l = ([], l)"
| "limiter_run ((now, None) # es) l = limiter_run es (cleanup now l)"
| "limiter_run ((now, Some ip) # es) l =
     (case allow now ip l of (a, l') \<Rightarrow> (case limiter_run es l' of (as, l'') \<Rightarrow> (a # as, l'')))"

text \<open>The specification: a request is let through if fewer than the limit were let through from its
  address in the window before it. The history has the requests let through, the last first.\<close>

definition allowed_in :: "(int \<times> string) list \<Rightarrow> string \<Rightarrow> int \<Rightarrow> int" where
  "allowed_in hist ip cutoff = int (length (filter (\<lambda>(t, i). i = ip \<and> t > cutoff) hist))"

fun spec_run :: "int \<Rightarrow> int \<Rightarrow> event list \<Rightarrow> (int \<times> string) list \<Rightarrow> bool list \<times> (int \<times> string) list" where
  "spec_run limit window [] hist = ([], hist)"
| "spec_run limit window ((now, None) # es) hist = spec_run limit window es hist"
| "spec_run limit window ((now, Some ip) # es) hist =
     (let a = allowed_in hist ip (now - window) < limit in
      case spec_run limit window es (if a then (now, ip) # hist else hist) of (as, h) \<Rightarrow> (a # as, h))"

text \<open>Times do not go back, and only the given addresses make requests.\<close>

definition in_order :: "int \<Rightarrow> event list \<Rightarrow> bool" where
  "in_order now es \<longleftrightarrow> sorted (now # map fst es)"

definition only_from :: "string set \<Rightarrow> event list \<Rightarrow> bool" where
  "only_from ips es \<longleftrightarrow> (\<forall>(t, i)\<in>set es. case i of None \<Rightarrow> True | Some ip \<Rightarrow> ip \<in> ips)"

subsection \<open>The limiter implements its specification\<close>

text \<open>The times kept for an address are, from the window on, those of the requests let through.\<close>

definition times_of :: "limiter \<Rightarrow> string \<Rightarrow> int list" where
  "times_of l ip = (case map_of (rl_requests l) ip of None \<Rightarrow> [] | Some ts \<Rightarrow> ts)"

definition tracks :: "int \<Rightarrow> string set \<Rightarrow> limiter \<Rightarrow> (int \<times> string) list \<Rightarrow> bool" where
  "tracks now ips l hist \<longleftrightarrow> keys_ok (rl_requests l) \<and> fst ` set (rl_requests l) \<subseteq> ips
     \<and> (\<forall>ip cutoff. now - rl_window l \<le> cutoff \<longrightarrow>
          int (length (filter (\<lambda>t. t > cutoff) (times_of l ip))) = allowed_in hist ip cutoff)"

lemma tracks_later: "tracks now ips l hist \<Longrightarrow> now \<le> now' \<Longrightarrow> tracks now' ips l hist"
  unfolding tracks_def by (meson diff_right_mono order_trans)

lemma filter_later: "a \<le> c \<Longrightarrow> filter (\<lambda>t. t > c) (filter (\<lambda>t. t > a) ts) = filter (\<lambda>t. t > (c :: int)) ts"
  unfolding filter_filter by (rule filter_cong) auto

lemma times_update: "times_of (l\<lparr>rl_requests := AList.update ip ts (rl_requests l)\<rparr>) i = (if i = ip then ts else times_of l i)"
  by (simp add: times_of_def)

lemma times_cleanup:
  assumes "keys_ok (rl_requests l)"
  shows "times_of (cleanup now l) ip = filter (\<lambda>t. t > now - rl_window l) (times_of l ip)"
proof -
  let ?f = "\<lambda>(ip, ts). (ip, filter (\<lambda>t. t > now - rl_window l) ts)"
  have "keys_ok xs \<Longrightarrow> (case map_of (filter (\<lambda>(ip, ts). ts \<noteq> []) (map ?f xs)) ip of None \<Rightarrow> [] | Some ts \<Rightarrow> ts)
      = filter (\<lambda>t. t > now - rl_window l) (case map_of xs ip of None \<Rightarrow> [] | Some ts \<Rightarrow> ts)" for xs
  proof (induction xs)
    case (Cons x xs)
    obtain i ts where x: "x = (i, ts)" by (cases x)
    have no: "i \<notin> fst ` set xs" using Cons.prems x by (simp add: keys_ok_def)
    then have none: "map_of xs i = None" by (simp add: map_of_None_iff)
    have "i \<notin> fst ` set (filter (\<lambda>(ip, ts). ts \<noteq> []) (map ?f xs))" using no by force
    then have none': "map_of (filter (\<lambda>(ip, ts). ts \<noteq> []) (map ?f xs)) i = None" by (simp add: map_of_None_iff)
    have ih: "(case map_of (filter (\<lambda>(ip, ts). ts \<noteq> []) (map ?f xs)) ip of None \<Rightarrow> [] | Some ts \<Rightarrow> ts)
      = filter (\<lambda>t. t > now - rl_window l) (case map_of xs ip of None \<Rightarrow> [] | Some ts \<Rightarrow> ts)"
      using Cons by (simp add: keys_ok_def)
    show ?case
    proof (cases "ip = i")
      case True
      then show ?thesis
        by (cases "filter (\<lambda>t. t > now - rl_window l) ts = []") (simp_all add: x none')
    next
      case False
      with ih show ?thesis by (simp add: x)
    qed
  qed simp
  with assms show ?thesis by (simp add: times_of_def cleanup_def)
qed

lemma keys_ok_kept: "keys_ok xs \<Longrightarrow> keys_ok (filter Q (map (\<lambda>(ip, ts). (ip, filter P ts)) xs))"
  unfolding keys_ok_def by (rule distinct_map_filter) (simp add: case_prod_unfold comp_def)

lemma cleanup_keys:
  "keys_ok (rl_requests l) \<Longrightarrow> keys_ok (rl_requests (cleanup now l))"
  "fst ` set (rl_requests (cleanup now l)) \<subseteq> fst ` set (rl_requests l)"
  "rl_window (cleanup now l) = rl_window l" "rl_limit (cleanup now l) = rl_limit l"
  by (simp_all add: cleanup_def keys_ok_kept) force

lemma tracks_cleanup:
  assumes "tracks now ips l hist"
  shows "tracks now ips (cleanup now l) hist"
proof -
  have k: "keys_ok (rl_requests l)" "fst ` set (rl_requests l) \<subseteq> ips" using assms by (simp_all add: tracks_def)
  have "filter (\<lambda>t. t > cutoff) (times_of (cleanup now l) ip) = filter (\<lambda>t. t > cutoff) (times_of l ip)"
    if "now - rl_window l \<le> cutoff" for ip cutoff
    unfolding times_cleanup [OF k(1)] by (rule filter_later [OF that])
  moreover have "fst ` set (rl_requests (cleanup now l)) \<subseteq> ips"
    using cleanup_keys(2) k(2) by (rule subset_trans)
  ultimately show ?thesis using assms k(1) by (simp add: tracks_def cleanup_keys)
qed

lemma allowed_in_Cons:
  "allowed_in ((t, i) # hist) ip cutoff = allowed_in hist ip cutoff + (if i = ip \<and> t > cutoff then 1 else 0)"
  by (simp add: allowed_in_def)

lemma allow_spec:
  assumes "tracks now ips l hist" "ip \<in> ips" "finite ips" "card ips < max_tracked_ips"
  shows "fst (allow now ip l) = (allowed_in hist ip (now - rl_window l) < rl_limit l)"
    "tracks now ips (snd (allow now ip l)) (if fst (allow now ip l) then (now, ip) # hist else hist)"
    "rl_window (snd (allow now ip l)) = rl_window l" "rl_limit (snd (allow now ip l)) = rl_limit l"
proof -
  have k: "keys_ok (rl_requests l)" "fst ` set (rl_requests l) \<subseteq> ips" using assms(1) by (simp_all add: tracks_def)
  have "length (rl_requests l) = card (fst ` set (rl_requests l))"
    using distinct_card [of "map fst (rl_requests l)"] k(1) by (simp add: keys_ok_def)
  also have "\<dots> \<le> card ips" using k(2) assms(3) by (rule card_mono [rotated])
  finally have few: "\<not> length (rl_requests l) \<ge> max_tracked_ips" using assms(4) by simp
  let ?r = "recent_of now ip l"
  have r: "?r = filter (\<lambda>t. t > now - rl_window l) (times_of l ip)" by (simp add: recent_of_def times_of_def)
  then have n: "int (length ?r) = allowed_in hist ip (now - rl_window l)" using assms(1) by (simp add: tracks_def)
  then show "fst (allow now ip l) = (allowed_in hist ip (now - rl_window l) < rl_limit l)"
    using few by (auto simp: allow_def Let_def)
  show "rl_window (snd (allow now ip l)) = rl_window l" "rl_limit (snd (allow now ip l)) = rl_limit l"
    by (simp_all add: allow_def Let_def)
  have keys: "fst ` set (AList.update ip ts (rl_requests l)) \<subseteq> ips" for ts
    using set_keys_update [of ip ts "rl_requests l"] k(2) assms(2) by auto
  have cut: "filter (\<lambda>t. t > cutoff) ?r = filter (\<lambda>t. t > cutoff) (times_of l ip)" if "now - rl_window l \<le> cutoff" for cutoff
    unfolding r by (rule filter_later [OF that])
  show "tracks now ips (snd (allow now ip l)) (if fst (allow now ip l) then (now, ip) # hist else hist)"
    using assms(1) keys k(1) few cut unfolding tracks_def allow_def Let_def
    by (auto simp: times_update allowed_in_Cons)
qed

lemma limiter_refines:
  assumes "finite ips" "card ips < max_tracked_ips"
  shows "tracks now ips l hist \<Longrightarrow> in_order now es \<Longrightarrow> only_from ips es \<Longrightarrow>
     fst (limiter_run es l) = fst (spec_run (rl_limit l) (rl_window l) es hist)"
proof (induction es arbitrary: now l hist)
  case (Cons e es)
  obtain t i where e: "e = (t, i)" by (cases e)
  have o1: "now \<le> t" "in_order t es" using Cons.prems(2) by (auto simp: in_order_def e)
  have of: "only_from ips es" using Cons.prems(3) by (simp add: only_from_def)
  note tr = tracks_later [OF Cons.prems(1) o1(1)]
  show ?case
  proof (cases i)
    case None
    with Cons.IH [OF tracks_cleanup [OF tr] o1(2) of] show ?thesis by (simp add: e cleanup_keys)
  next
    case (Some ip)
    then have "ip \<in> ips" using Cons.prems(3) by (simp add: only_from_def e)
    note a = allow_spec [OF tr this assms]
    obtain b l' where al: "allow t ip l = (b, l')" by (metis surj_pair)
    from Cons.IH [OF a(2) o1(2) of] a(1,3,4) show ?thesis
      by (simp add: e Some al Let_def case_prod_unfold)
  qed
qed simp

subsection \<open>Properties of the limiter\<close>

text \<open>
  C20. The rate limiter is exact: as long as fewer than ten thousand addresses make requests, and the
  clock does not go back, a request is let through if and only if fewer than the limit were let through
  from its address in the window before it, wherever the cleanup ticks fall.
\<close>

theorem rate_limiter_exact:
  assumes "finite ips" "card ips < max_tracked_ips" "in_order now es" "only_from ips es"
  shows "fst (limiter_run es (new_rate_limiter limit window)) = fst (spec_run limit window es [])"
proof -
  have "tracks now ips (new_rate_limiter limit window) []"
    by (simp add: tracks_def new_rate_limiter_def times_of_def allowed_in_def)
  from limiter_refines [OF assms(1,2) this assms(3,4)] show ?thesis by (simp add: new_rate_limiter_def)
qed

theorem rate_limiter_exact_witness:
  "fst (limiter_run
     [(0, Some ''a''), (1, Some ''a''), (2, Some ''b''), (3, Some ''a''), (9, None), (10, Some ''a'')]
     (new_rate_limiter 2 10)) = [True, True, True, False, True]"
proof -
  let ?es = "[(0, Some ''a''), (1, Some ''a''), (2, Some ''b''), (3, Some ''a''), (9, None), (10, Some ''a'')] :: event list"
  have "finite {''a'', ''b''}" "card {''a'', ''b''} < max_tracked_ips" by (simp_all add: max_tracked_ips_def)
  moreover have "in_order 0 ?es" by (simp add: in_order_def)
  moreover have "only_from {''a'', ''b''} ?es" by (simp add: only_from_def)
  ultimately have "fst (limiter_run ?es (new_rate_limiter 2 10)) = fst (spec_run 2 10 ?es [])"
    by (rule rate_limiter_exact)
  also have "\<dots> = [True, True, True, False, True]" by (simp add: allowed_in_def Let_def)
  finally show ?thesis .
qed

end
