(* ===== verification/GoUrl.thy ===== *)
theory GoUrl
  imports GoStrconv
begin

text \<open>
  \<^verbatim>\<open>net/url\<close>, as far as the programs use it: which texts parse, and the scheme, host and
  path they have. It is the parser of Go 1.25.4, the version \<^verbatim>\<open>go.mod\<close> asks for, whose hosts
  in brackets have to be IPv6 addresses. Errors are None; their texts are not looked at.
\<close>

subsection \<open>Characters\<close>

definition is_hex :: "char \<Rightarrow> bool" where
  "is_hex c \<longleftrightarrow> c \<in> set ''0123456789abcdefABCDEF''"

definition hex_val :: "char \<Rightarrow> nat" where
  "hex_val c = length (takeWhile (\<lambda>d. d \<noteq> lower_char c) ''0123456789abcdef'')"

definition is_ctl :: "char \<Rightarrow> bool" where
  "is_ctl c \<longleftrightarrow> (of_char c :: nat) < 32 \<or> c = CHR 0x7F"

text \<open>What stands for itself in a host.\<close>

definition host_char :: "char \<Rightarrow> bool" where
  "host_char c \<longleftrightarrow> is_alnum c \<or> c \<in> set ''!$&()*+,;=:[]<>-_.~'' \<or> c = CHR 0x22 \<or> c = CHR 0x27"

subsection \<open>Escapes\<close>

datatype escape_mode = In_path | In_host | In_zone

fun unescape :: "escape_mode \<Rightarrow> string \<Rightarrow> string option" where
  "unescape m [] = Some []"
| "unescape m (c # cs) =
     (if c = CHR ''%''
      then (case cs of
              a # b # rest \<Rightarrow>
                (let v = char_of (16 * hex_val a + hex_val b); percent = (a = CHR ''2'' \<and> b = CHR ''5'')
                 in if \<not> is_hex a \<or> \<not> is_hex b then None
                    else if m = In_host \<and> hex_val a < 8 \<and> \<not> percent then None
                    else if m = In_zone \<and> \<not> percent \<and> v \<noteq> CHR 0x20 \<and> \<not> host_char v then None
                    else map_option (Cons v) (unescape m rest))
            | _ \<Rightarrow> None)
      else if m \<noteq> In_path \<and> (of_char c :: nat) < 128 \<and> \<not> host_char c then None
      else map_option (Cons c) (unescape m cs))"

subsection \<open>Addresses in brackets\<close>

text \<open>\<^verbatim>\<open>netip.ParseAddr\<close>, for the question whether a text is an IPv6 address.\<close>

definition ipv4_field_ok :: "string \<Rightarrow> bool" where
  "ipv4_field_ok s \<longleftrightarrow> s \<noteq> [] \<and> list_all is_digit s \<and> (hd s = CHR ''0'' \<longrightarrow> length s = 1) \<and> length s \<le> 3
     \<and> fst (atoi s) \<le> 255"

definition ipv4_ok :: "string \<Rightarrow> bool" where
  "ipv4_ok s \<longleftrightarrow> length (split_on (CHR ''.'') s) = 4 \<and> list_all ipv4_field_ok (split_on (CHR ''.'') s)"

text \<open>The loop over the groups: \<open>n\<close> bytes are there, \<open>seen\<close> tells whether the pair of colons was.\<close>

function ipv6_groups :: "nat \<Rightarrow> bool \<Rightarrow> string \<Rightarrow> bool" where
  "ipv6_groups n seen s =
     (let ds = takeWhile is_hex s; rest = dropWhile is_hex s; n' = n + 2 in
      if n \<ge> 16 then s = [] \<and> \<not> seen
      else if ds = [] \<or> length ds > 4 then False
      else if has_prefix rest ''.'' then (seen \<or> n = 12) \<and> n + 4 \<le> 16 \<and> ipv4_ok s \<and> (n + 4 < 16 \<longleftrightarrow> seen)
      else (case rest of
              [] \<Rightarrow> (n' < 16 \<longleftrightarrow> seen)
            | c # cs \<Rightarrow>
                if c \<noteq> CHR '':'' \<or> cs = [] then False
                else if hd cs = CHR '':''
                then \<not> seen \<and> (if tl cs = [] then n' < 16 else ipv6_groups n' True (tl cs))
                else ipv6_groups n' seen cs))"
  by pat_completeness auto
termination
  by (relation "measure (\<lambda>(n, seen, s). 16 - n)") (auto simp: Let_def)

definition ipv6_ok :: "string \<Rightarrow> bool" where
  "ipv6_ok addr =
     (let s = takeWhile (\<lambda>c. c \<noteq> CHR ''%'') addr; zone = dropWhile (\<lambda>c. c \<noteq> CHR ''%'') addr
      in CHR '':'' \<in> set (takeWhile (\<lambda>c. c \<noteq> CHR ''.'' \<and> c \<noteq> CHR ''%'') addr) \<and> zone \<noteq> ''%''
         \<and> (if has_prefix s ''::'' then drop 2 s = [] \<or> ipv6_groups 0 True (drop 2 s) else ipv6_groups 0 False s))"

subsection \<open>The authority\<close>

definition valid_optional_port :: "string \<Rightarrow> bool" where
  "valid_optional_port p \<longleftrightarrow> (case p of [] \<Rightarrow> True | c # cs \<Rightarrow> c = CHR '':'' \<and> list_all is_digit cs)"

definition parse_host :: "string \<Rightarrow> string option" where
  "parse_host host =
     (case last_index (CHR ''['') host of
        Some i \<Rightarrow> (case last_index (CHR '']'') host of
            None \<Rightarrow> None
          | Some j \<Rightarrow>
              (let port = drop (Suc j) host; name = drop (Suc i) (take j host);
                   zone = index_of name ''%25'';
                   plain = (case zone of
                       None \<Rightarrow> unescape In_host name
                     | Some k \<Rightarrow> (case (unescape In_host (take k name), unescape In_zone (drop k name)) of
                           (Some a, Some b) \<Rightarrow> Some (a @ b) | _ \<Rightarrow> None))
               in if \<not> valid_optional_port port then None
                  else (case (unescape In_host port, plain) of
                          (Some p, Some a) \<Rightarrow> if ipv6_ok a then Some (''['' @ a @ '']'' @ p) else None
                        | _ \<Rightarrow> None)))
      | None \<Rightarrow>
          if (case last_index (CHR '':'') host of None \<Rightarrow> False | Some i \<Rightarrow> \<not> valid_optional_port (drop i host))
          then None else unescape In_host host)"

definition valid_userinfo :: "string \<Rightarrow> bool" where
  "valid_userinfo s \<longleftrightarrow> list_all (\<lambda>c. is_alnum c \<or> c \<in> set ''-._:~!$&()*+,;=%@'' \<or> c = CHR 0x27) s"

definition parse_authority :: "string \<Rightarrow> string option" where
  "parse_authority a =
     (case last_index (CHR ''@'') a of
        None \<Rightarrow> parse_host a
      | Some i \<Rightarrow> (case parse_host (drop (Suc i) a) of
          None \<Rightarrow> None
        | Some h \<Rightarrow> if valid_userinfo (take i a) \<and> unescape In_path (take i a) \<noteq> None then Some h else None))"

subsection \<open>The whole\<close>

record url =
  url_scheme :: string
  url_opaque :: string
  url_host :: string
  url_path :: string
  url_query :: string

definition get_scheme :: "string \<Rightarrow> (string \<times> string) option" where
  "get_scheme s =
     (let scheme_char = (\<lambda>c. is_alnum c \<or> c \<in> set ''+-.'') in
      case s of
        [] \<Rightarrow> Some ([], s)
      | c # _ \<Rightarrow>
          if c = CHR '':'' then None
          else if \<not> is_letter c then Some ([], s)
          else (case dropWhile scheme_char s of
                  [] \<Rightarrow> Some ([], s)
                | x # rest \<Rightarrow> if x = CHR '':'' then Some (takeWhile scheme_char s, rest) else Some ([], s)))"

definition parse_url :: "bool \<Rightarrow> string \<Rightarrow> url option" where
  "parse_url via_request s =
     (if list_ex is_ctl s \<or> s = [] \<and> via_request then None
      else if s = ''*'' then Some \<lparr>url_scheme = [], url_opaque = [], url_host = [], url_path = s, url_query = []\<rparr>
      else (case get_scheme s of
              None \<Rightarrow> None
            | Some (scheme, after) \<Rightarrow>
                (let rest = takeWhile (\<lambda>c. c \<noteq> CHR ''?'') after; query = tl (dropWhile (\<lambda>c. c \<noteq> CHR ''?'') after);
                     u = \<lparr>url_scheme = to_lower scheme, url_opaque = [], url_host = [], url_path = [], url_query = query\<rparr>
                 in if \<not> has_prefix rest ''/'' \<and> scheme \<noteq> [] then Some (u\<lparr>url_opaque := rest\<rparr>)
                    else if \<not> has_prefix rest ''/''
                      \<and> (via_request \<or> CHR '':'' \<in> set (takeWhile (\<lambda>c. c \<noteq> CHR ''/'') rest)) then None
                    else (let slashes = has_prefix rest ''//'' \<and> (scheme \<noteq> [] \<or> \<not> via_request \<and> \<not> has_prefix rest ''///'');
                              host = (if slashes then parse_authority (takeWhile (\<lambda>c. c \<noteq> CHR ''/'') (drop 2 rest)) else Some []);
                              path = unescape In_path (if slashes then dropWhile (\<lambda>c. c \<noteq> CHR ''/'') (drop 2 rest) else rest)
                          in (case (host, path) of
                                (Some h, Some p) \<Rightarrow> Some (u\<lparr>url_host := h, url_path := p\<rparr>)
                              | _ \<Rightarrow> None)))))"

text \<open>\<^verbatim>\<open>url.ParseRequestURI\<close> and \<^verbatim>\<open>url.Parse\<close>; only the latter knows fragments.\<close>

definition parse_request_uri :: "string \<Rightarrow> url option" where
  "parse_request_uri s = parse_url True s"

definition url_parse :: "string \<Rightarrow> url option" where
  "url_parse s =
     (case parse_url False (takeWhile (\<lambda>c. c \<noteq> CHR ''#'') s) of
        None \<Rightarrow> None
      | Some u \<Rightarrow>
          if unescape In_path (tl (dropWhile (\<lambda>c. c \<noteq> CHR ''#'') s)) = None then None else Some u)"

end
