(* ===== verification/Web.thy ===== *)
theory Web
  imports AuditLog RateLimit GoUrl
begin

text \<open>
  What the request handlers of the link aggregator share
  (\<^verbatim>\<open>tools/makhor/pkg/middleware/middleware.go\<close>,
  \<^verbatim>\<open>pkg/handlers/handlers.go\<close>): requests and responses, the cache of sessions and
  the loading of the current user, and the helpers of the handlers. A response is the page with the
  messages put on it, an error or a redirect; the data shown with a page is left out, as are the
  templates. \<^verbatim>\<open>http.Redirect\<close> gets the address as it is given here; whether a referer
  is safe to go back to is the concern of the URL parser, so going back is a response of its own that
  names the address used otherwise.
\<close>

subsection \<open>Requests and responses\<close>

text \<open>The fields of the form are None where parsing it fails.\<close>

record web_request = request +
  rq_post :: bool
  rq_path :: string
  rq_host :: string
  rq_referer :: string
  rq_query :: "(string \<times> string) list"
  rq_form :: "(string \<times> string) list option"
  rq_session :: "string option"

datatype response = Page string "(string \<times> string) list" | Error_page int string | Redirect string
  | Plain_error int string | Set_session string response | Clear_session response

record site =
  st_base_url :: string
  st_subpath :: string
  st_mail :: bool

definition query_get :: "web_request \<Rightarrow> string \<Rightarrow> string" where
  "query_get r k = or_empty (map_of (rq_query r) k)"

text \<open>\<^verbatim>\<open>FormValue\<close> prefers the body to the query.\<close>

definition form_value :: "web_request \<Rightarrow> string \<Rightarrow> string" where
  "form_value r k = or_empty (map_of ((case rq_form r of None \<Rightarrow> [] | Some f \<Rightarrow> f) @ rq_query r) k)"

definition redirect :: "site \<Rightarrow> string \<Rightarrow> response" where
  "redirect s url = Redirect (if st_subpath s \<noteq> [] \<and> has_prefix url ''/'' then st_subpath s @ url else url)"

text \<open>Back to where the request came from, when that is safe; the empty text when it is not.\<close>

definition safe_redirect_url :: "string \<Rightarrow> string \<Rightarrow> string" where
  "safe_redirect_url referer host =
     (if referer = [] then []
      else (case url_parse referer of
              None \<Rightarrow> []
            | Some u \<Rightarrow> if url_host u = [] \<or> url_host u = host then referer else []))"

definition redirect_back :: "site \<Rightarrow> web_request \<Rightarrow> string \<Rightarrow> response" where
  "redirect_back s r url =
     (let safe = safe_redirect_url (rq_referer r) (rq_host r) in redirect s (if safe \<noteq> [] then safe else url))"

definition strip_subpath :: "string \<Rightarrow> string \<Rightarrow> string" where
  "strip_subpath subpath path =
     (if subpath = [] then path
      else if has_prefix path subpath
      then (if trim_prefix path subpath = [] then ''/'' else trim_prefix path subpath)
      else path)"

definition parse_int :: "string \<Rightarrow> int option" where
  "parse_int s = (case atoi s of (n, ok) \<Rightarrow> if ok then Some n else None)"

definition get_int_param :: "web_request \<Rightarrow> string \<Rightarrow> int \<Rightarrow> int" where
  "get_int_param r k dflt =
     (let v = query_get r k in
      if v = [] then dflt
      else (case atoi v of (i, ok) \<Rightarrow> if \<not> ok \<or> i < 1 then dflt else i))"

definition get_path_id :: "web_request \<Rightarrow> string \<Rightarrow> int option" where
  "get_path_id r front = parse_int (hd (split_on (CHR ''/'') (trim_suffix (trim_prefix (rq_path r) front) ''/'')))"

subsection \<open>Texts on pages\<close>

text \<open>The difference to now is in nanoseconds; the date of an older instant is that of the zone UTC.\<close>

definition time_ago :: "int \<Rightarrow> int \<Rightarrow> string" where
  "time_ago now t =
     (let diff = now - t; second = 1000000000;
          count = (\<lambda>n unit. if n = 1 then ''1 '' @ unit @ '' ago'' else itoa n @ '' '' @ unit @ ''s ago'')
      in if diff < 60 * second then ''just now''
      else if diff < 3600 * second then count (diff div (60 * second)) ''minute''
      else if diff < 86400 * second then count (diff div (3600 * second)) ''hour''
      else if diff < 30 * 86400 * second then count (diff div (86400 * second)) ''day''
      else (case civil_from_days (t div (86400 * second)) of
              (y, m, day) \<Rightarrow> month_name (nat m) @ '' '' @ itoa day @ '', '' @ pad0 4 (nat y)))"

text \<open>None is the panic of a slice with a negative end.\<close>

definition truncate_text :: "string \<Rightarrow> nat \<Rightarrow> string option" where
  "truncate_text s n = (if length s \<le> n then Some s else if n < 3 then None else Some (take (n - 3) s @ ''...''))"

definition seq :: "int \<Rightarrow> int \<Rightarrow> int list" where
  "seq from until = (if from > until then [] else [from..until])"

definition indent :: "int \<Rightarrow> string" where
  "indent depth = concat (replicate (nat (if depth > 10 then 10 else depth)) ''  '')"

text \<open>The part of a name behind the last pair of colons.\<close>

fun short_from :: "string \<Rightarrow> string option" where
  "short_from [] = None"
| "short_from (c # cs) = (case short_from cs of Some s \<Rightarrow> Some s
     | None \<Rightarrow> if has_prefix (c # cs) ''::'' then Some (drop 2 (c # cs)) else None)"

definition short_tag_name :: "string \<Rightarrow> string" where
  "short_tag_name name = (case short_from name of None \<Rightarrow> name | Some s \<Rightarrow> s)"

subsection \<open>The cache of sessions\<close>

text \<open>A user and the instant, in nanoseconds, until which the entry counts, by the session's token.\<close>

type_synonym session_cache = "(string \<times> user \<times> int) list"

definition session_cache_ttl :: int where
  "session_cache_ttl = 30 * 1000000000"

definition cache_get :: "int \<Rightarrow> string \<Rightarrow> session_cache \<Rightarrow> user option" where
  "cache_get now t c = (case map_of c t of None \<Rightarrow> None | Some (u, expires) \<Rightarrow> if now < expires then Some u else None)"

definition cache_set :: "int \<Rightarrow> string \<Rightarrow> user \<Rightarrow> session_cache \<Rightarrow> session_cache" where
  "cache_set now t u c = AList.update t (u, now + session_cache_ttl) c"

definition cache_invalidate :: "string \<Rightarrow> session_cache \<Rightarrow> session_cache" where
  "cache_invalidate t c = AList.delete t c"

definition cache_cleanup :: "int \<Rightarrow> session_cache \<Rightarrow> session_cache" where
  "cache_cleanup now c = filter (\<lambda>(t, u, expires). \<not> now > expires) c"

text \<open>
  The user a request is made by, from its session cookie: from the cache, or from the database, which
  then fills the cache. A banned user counts as none.
\<close>

definition unless_banned :: "user \<Rightarrow> user option" where
  "unless_banned u = (if \<not> ur_is_banned u then Some u else None)"

definition authenticate :: "int \<Rightarrow> denv \<Rightarrow> string option \<Rightarrow> session_cache \<Rightarrow> db \<Rightarrow> user option \<times> session_cache \<times> db" where
  "authenticate now e cookie c d =
     (case cookie of
        None \<Rightarrow> (None, c, d)
      | Some t \<Rightarrow>
          if t = [] then (None, c, d)
          else (case cache_get now t c of
                  Some u \<Rightarrow> (unless_banned u, c, d)
                | None \<Rightarrow> (case validate_session e t d of
                      (Inl _, d') \<Rightarrow> (None, c, d')
                    | (Inr u, d') \<Rightarrow> (unless_banned u, cache_set now t u c, d'))))"

definition require_auth :: "user option \<Rightarrow> response \<Rightarrow> response" where
  "require_auth user next = (case user of None \<Rightarrow> Redirect ''/login'' | Some _ \<Rightarrow> next)"

definition require_admin :: "user option \<Rightarrow> response \<Rightarrow> response" where
  "require_admin user next =
     (case user of None \<Rightarrow> Plain_error 403 ''Forbidden''
      | Some u \<Rightarrow> if \<not> ur_is_admin u then Plain_error 403 ''Forbidden'' else next)"

text \<open>The limiter in front of a handler.\<close>

definition limit_requests :: "int \<Rightarrow> web_request \<Rightarrow> limiter \<Rightarrow> (unit \<Rightarrow> response \<times> 'w) \<Rightarrow> 'w \<Rightarrow> response \<times> 'w \<times> limiter" where
  "limit_requests now r l next w =
     (case allow now (get_client_ip (request.truncate r)) l of
        (False, l') \<Rightarrow> (Plain_error 429 ''Too Many Requests'', w, l')
      | (True, l') \<Rightarrow> (case next () of (a, w') \<Rightarrow> (a, w', l')))"

subsection \<open>The state of the program and its handlers\<close>

text \<open>Besides the database and the cache, the mails handed to the mailer, the last first.\<close>

record web =
  wb_db :: db
  wb_cache :: session_cache
  wb_mails :: "(string \<times> string \<times> string) list"

definition map_db :: "(db \<Rightarrow> db) \<Rightarrow> web \<Rightarrow> web" where
  "map_db f w = w\<lparr>wb_db := f (wb_db w)\<rparr>"

definition send_mail :: "site \<Rightarrow> string \<Rightarrow> string \<Rightarrow> string \<Rightarrow> web \<Rightarrow> web" where
  "send_mail s recipient subject body w =
     (if st_mail s then w\<lparr>wb_mails := (recipient, subject, body) # wb_mails w\<rparr> else w)"

text \<open>The entry into the action log; an error is only reported.\<close>

definition log_as :: "denv \<Rightarrow> web_request \<Rightarrow> user option \<Rightarrow> string \<Rightarrow> string \<Rightarrow> int \<Rightarrow> string \<Rightarrow> web \<Rightarrow> web" where
  "log_as e r user action kind i details =
     map_db (\<lambda>d. snd (log_action e (map_option ur_id user) action kind i details (get_client_ip (request.truncate r)) d))"

definition get_user_context :: "user option \<Rightarrow> int option \<times> bool" where
  "get_user_context user = (case user of None \<Rightarrow> (None, False) | Some u \<Rightarrow> (Some (ur_id u), ur_is_admin u))"

subsection \<open>How old a login may be\<close>

text \<open>
  A run of the server as the cache sees it: requests with a session cookie, ticks of the cleanup, and
  whatever happens to the database in between. The trace has each event with the database before it and
  the user it was answered as.
\<close>

datatype auth_event = Auth_request "string option" | Cache_tick | Meanwhile "db \<Rightarrow> db"

fun auth_trace :: "(int \<times> denv \<times> auth_event) list \<Rightarrow> session_cache \<Rightarrow> db \<Rightarrow>
    (int \<times> denv \<times> auth_event \<times> db \<times> user option) list" where
  "auth_trace [] c d = []"
| "auth_trace ((now, e, Auth_request t) # evs) c d =
     (case authenticate now e t c d of (u, c', d') \<Rightarrow> (now, e, Auth_request t, d, u) # auth_trace evs c' d')"
| "auth_trace ((now, e, Cache_tick) # evs) c d =
     (now, e, Cache_tick, d, None) # auth_trace evs (cache_cleanup now c) d"
| "auth_trace ((now, e, Meanwhile f) # evs) c d = (now, e, Meanwhile f, d, None) # auth_trace evs c (f d)"

text \<open>A login that the database confirmed at an instant of the trace.\<close>

definition confirmed :: "(int \<times> denv \<times> auth_event \<times> db \<times> user option) list \<Rightarrow> int \<Rightarrow> string \<Rightarrow> user \<Rightarrow> bool" where
  "confirmed h now t u \<longleftrightarrow> (\<exists>e d a. (now, e, Auth_request (Some t), d, a) \<in> set h
     \<and> fst (validate_session e t d) = Inr u)"

definition cache_from :: "(int \<times> denv \<times> auth_event \<times> db \<times> user option) list \<Rightarrow> session_cache \<Rightarrow> bool" where
  "cache_from h c \<longleftrightarrow> keys_ok c \<and> (\<forall>t u x. map_of c t = Some (u, x) \<longrightarrow> confirmed h (x - session_cache_ttl) t u)"

lemma confirmed_more: "confirmed h now t u \<Longrightarrow> set h \<subseteq> set h' \<Longrightarrow> confirmed h' now t u"
  unfolding confirmed_def by blast

lemma cache_from_more: "cache_from h c \<Longrightarrow> cache_from (h @ [x]) c"
proof -
  have "set h \<subseteq> set (h @ [x])" by auto
  then show "cache_from h c \<Longrightarrow> ?thesis" unfolding cache_from_def using confirmed_more by blast
qed

lemma cleanup_from: "cache_from h c \<Longrightarrow> cache_from h (cache_cleanup now c)"
proof -
  assume a: "cache_from h c"
  have k: "keys_ok c" using a by (simp add: cache_from_def)
  then have "keys_ok (cache_cleanup now c)" by (simp add: keys_ok_def cache_cleanup_def distinct_map_filter)
  moreover have "map_of c t = Some p" if "map_of (cache_cleanup now c) t = Some p" for t p
    using map_of_SomeD [OF that] keys_ok_map_of [OF k] by (simp add: cache_cleanup_def)
  ultimately show ?thesis using a unfolding cache_from_def by blast
qed

lemma authenticate_from:
  assumes "cache_from h c" "authenticate now e cookie c d = (a, c', d')"
  defines "h' \<equiv> h @ [(now, e, Auth_request cookie, d, a)]"
  shows "cache_from h' c'"
    "a = Some u \<Longrightarrow> \<exists>t now'. cookie = Some t \<and> now - session_cache_ttl < now' \<and> confirmed h' now' t u \<and> \<not> ur_is_banned u"
proof -
  have keep: "cache_from h' c" using cache_from_more [OF assms(1)] by (simp add: h'_def)
  obtain t where t: "c' = c \<and> a = None
    \<or> cookie = Some t \<and> (\<exists>v. cache_get now t c = Some v \<and> c' = c \<and> a = unless_banned v)
    \<or> cookie = Some t \<and> (\<exists>v. fst (validate_session e t d) = Inr v \<and> c' = cache_set now t v c \<and> a = unless_banned v)"
  proof (cases cookie)
    case (Some t)
    show ?thesis
    proof (cases "t = []")
      case False
      show ?thesis
      proof (cases "cache_get now t c")
        case None
        obtain v d'' where v: "validate_session e t d = (v, d'')" by fastforce
        show ?thesis using assms(2) Some False None v by (intro that [of t]) (cases v; simp add: authenticate_def)
      next
        case (Some v)
        show ?thesis using assms(2) \<open>cookie = Some t\<close> False Some by (intro that [of t]) (simp add: authenticate_def)
      qed
    qed (use assms(2) Some that in \<open>simp add: authenticate_def\<close>)
  qed (use assms(2) that in \<open>simp add: authenticate_def\<close>)
  then consider (none) "c' = c" "a = None"
    | (cached) v where "cookie = Some t" "cache_get now t c = Some v" "c' = c" "a = unless_banned v"
    | (fresh) v where "cookie = Some t" "fst (validate_session e t d) = Inr v"
        "c' = cache_set now t v c" "a = unless_banned v" by blast
  then have "cache_from h' c' \<and> (a = Some u \<longrightarrow>
     (\<exists>t now'. cookie = Some t \<and> now - session_cache_ttl < now' \<and> confirmed h' now' t u \<and> \<not> ur_is_banned u))"
  proof cases
    case none
    then show ?thesis using keep by simp
  next
    case cached
    from cached(2) obtain x where "map_of c t = Some (v, x)" "now < x"
      by (auto simp: cache_get_def split: option.splits if_splits)
    with keep have "confirmed h' (x - session_cache_ttl) t v" "now - session_cache_ttl < x - session_cache_ttl"
      by (simp_all add: cache_from_def)
    with cached keep show ?thesis
      by (auto simp: unless_banned_def split: if_splits intro!: exI [of _ "x - session_cache_ttl"])
  next
    case fresh
    have c: "confirmed h' now t v" using fresh(1,2) by (auto simp: confirmed_def h'_def)
    with keep have "cache_from h' c'" by (simp add: cache_from_def fresh(3) cache_set_def)
    moreover have "now - session_cache_ttl < now" by (simp add: session_cache_ttl_def)
    ultimately show ?thesis using c fresh(1,4)
      by (auto simp: unless_banned_def split: if_splits intro!: exI [of _ now])
  qed
  then show "cache_from h' c'" "a = Some u \<Longrightarrow> \<exists>t now'. cookie = Some t \<and> now - session_cache_ttl < now'
      \<and> confirmed h' now' t u \<and> \<not> ur_is_banned u" by blast+
qed

lemma trace_recent:
  "cache_from h c \<Longrightarrow> auth_trace evs c d = xs @ (now, e, Auth_request cookie, d', Some u) # ys \<Longrightarrow>
     \<exists>t now'. cookie = Some t \<and> now - session_cache_ttl < now'
       \<and> confirmed (h @ xs @ [(now, e, Auth_request cookie, d', Some u)]) now' t u \<and> \<not> ur_is_banned u"
proof (induction evs c d arbitrary: h xs rule: auth_trace.induct)
  case (2 n e' t evs c d)
  obtain a c' d'' where au: "authenticate n e' t c d = (a, c', d'')" by (metis prod_cases3)
  note au_from = authenticate_from [OF "2.prems"(1) au]
  show ?case
  proof (cases xs)
    case Nil
    with "2.prems"(2) au au_from(2) show ?thesis by simp
  next
    case (Cons x xs')
    with "2.prems"(2) au have "x = (n, e', Auth_request t, d, a)"
      "auth_trace evs c' d'' = xs' @ (now, e, Auth_request cookie, d', Some u) # ys" by simp_all
    with "2.IH" [OF au [symmetric] refl au_from(1) this(2)] Cons show ?thesis by simp
  qed
next
  case (3 n e' evs c d)
  then obtain xs' where x: "xs = (n, e', Cache_tick, d, None) # xs'" by (cases xs) auto
  with "3.prems"(2) have "auth_trace evs (cache_cleanup n c) d = xs' @ (now, e, Auth_request cookie, d', Some u) # ys" by simp
  with "3.IH" [OF cache_from_more [OF cleanup_from [OF "3.prems"(1)]] this] x show ?case by simp
next
  case (4 n e' f evs c d)
  then obtain xs' where x: "xs = (n, e', Meanwhile f, d, None) # xs'" by (cases xs) auto
  with "4.prems"(2) have "auth_trace evs c (f d) = xs' @ (now, e, Auth_request cookie, d', Some u) # ys" by simp
  with "4.IH" [OF cache_from_more [OF "4.prems"(1)] this] x show ?case by simp
qed simp

text \<open>
  C30. A login is never older than half a minute: whatever happens to the database and in whatever order,
  a request that is answered as some user carries the token of a session, and at an instant less than
  thirty seconds before, no later in the run, the database confirmed that this token was the session of
  this user, who was not banned then.
\<close>

theorem login_is_recent:
  assumes "auth_trace evs [] d = xs @ (now, e, Auth_request cookie, d', Some u) # ys"
  shows "\<exists>t now'. cookie = Some t \<and> now - 30 * 1000000000 < now' \<and> \<not> ur_is_banned u
    \<and> confirmed (xs @ [(now, e, Auth_request cookie, d', Some u)]) now' t u"
  using trace_recent [OF _ assms, of "[]"] by (auto simp: cache_from_def session_cache_ttl_def)

text \<open>A session of the first of two users; a request with it is answered as this user.\<close>

lemma login_is_recent_witness:
  "\<exists>u. ur_username u = ''root'' \<and> (\<exists>t now'. Some ''tok'' = Some t \<and> 5 - 30 * 1000000000 < now' \<and> \<not> ur_is_banned u
     \<and> confirmed [(5, now0, Auth_request (Some ''tok''), snd (create_session now0 1 two_users), Some u)] now' t u)"
proof -
  let ?d = "snd (create_session now0 1 two_users)"
  have "map_option ur_username (fst (authenticate 5 now0 (Some ''tok'') [] ?d)) = Some ''root''" by code_simp
  then obtain u where u: "fst (authenticate 5 now0 (Some ''tok'') [] ?d) = Some u" "ur_username u = ''root''" by auto
  have "auth_trace [(5, now0, Auth_request (Some ''tok''))] [] ?d
      = [] @ (5, now0, Auth_request (Some ''tok''), ?d, Some u) # []"
    using u(1) by (simp add: case_prod_unfold)
  from login_is_recent [OF this] u(2) show ?thesis by (simp only: append_Nil) blast
qed

end
