(* ===== verification/WebAuth.thy ===== *)
theory WebAuth
  imports Web
begin

text \<open>
  Logging in and out, registering, inviting and changing the address
  (\<^verbatim>\<open>tools/makhor/pkg/handlers/auth.go\<close>, \<^verbatim>\<open>users.go\<close>). A handler
  gets the time and the random token of its call, the site's configuration, the request, the user it is
  made by and the state, and gives the response and the new state. Lines the program prints to its own
  log are left out.
\<close>

subsection \<open>Addresses and names\<close>

text \<open>
  \<^verbatim>\<open>emailRegex\<close>: letters, digits and some signs, an at sign, letters, digits, dots and
  hyphens, a dot, and two letters or more. What is behind the last dot has no dot in it.
\<close>

definition email_ok :: "string \<Rightarrow> bool" where
  "email_ok s = (case split_on (CHR ''@'') s of
     [local, rest] \<Rightarrow> local \<noteq> [] \<and> list_all (\<lambda>c. is_alnum c \<or> c \<in> set ''._%+-'') local
       \<and> (case last_index (CHR ''.'') rest of
            None \<Rightarrow> False
          | Some i \<Rightarrow> i > 0 \<and> list_all (\<lambda>c. is_alnum c \<or> c \<in> set ''.-'') (take i rest)
              \<and> length (drop (Suc i) rest) \<ge> 2 \<and> list_all is_letter (drop (Suc i) rest))
   | _ \<Rightarrow> False)"

definition username_ok :: "string \<Rightarrow> bool" where
  "username_ok s = (case s of [] \<Rightarrow> False
     | c # cs \<Rightarrow> is_letter c \<and> list_all (\<lambda>x. is_alnum x \<or> x = CHR ''_'') cs \<and> 2 \<le> length cs \<and> length cs \<le> 19)"

subsection \<open>Login and logout\<close>

definition login_page :: "site \<Rightarrow> user option \<Rightarrow> response" where
  "login_page s user = (if user \<noteq> None then redirect s ''/'' else Page ''login.html'' [])"

definition link_sent :: response where
  "link_sent = Page ''login.html''
     [(''Message'', ''If an account exists with this email, a login link has been sent.'')]"

definition login_url :: "site \<Rightarrow> string \<Rightarrow> string" where
  "login_url s t = st_base_url s @ ''/login/verify?token='' @ t"

definition login_mail :: "string \<Rightarrow> string \<Rightarrow> string" where
  "login_mail name url = join_with [LF] [''Hello '' @ name @ '','', [],
     ''Click the link below to log in to makhor:'', [], url, [], ''This link will expire in 15 minutes.'', [],
     ''If you did not request this login, you can safely ignore this email.'', []]"

definition login_submit :: "denv \<Rightarrow> site \<Rightarrow> web_request \<Rightarrow> web \<Rightarrow> response \<times> web" where
  "login_submit e s r w =
     (if rq_form r = None then (Error_page 400 ''Invalid form data'', w)
      else let email = trim_space (to_lower (form_value r ''email'')) in
      if \<not> email_ok email
      then (Page ''login.html'' [(''Error'', ''Please enter a valid email address''), (''Email'', email)], w)
      else (case get_user_by_email (wb_db w) email of
              Inl err \<Rightarrow> if err = User_not_found then (link_sent, w) else (Error_page 500 ''Database error'', w)
            | Inr u \<Rightarrow>
                if ur_is_banned u then (Page ''login.html'' [(''Error'', ''This account has been banned'')], w)
                else (case create_login_token e email (wb_db w) of
                    (Inl _, d) \<Rightarrow> (Error_page 500 ''Could not create login token'', w\<lparr>wb_db := d\<rparr>)
                  | (Inr t, d) \<Rightarrow> (link_sent, send_mail s email ''Login to makhor''
                      (login_mail (ur_username u) (login_url s t)) (w\<lparr>wb_db := d\<rparr>)))))"

definition login_verify :: "denv \<Rightarrow> site \<Rightarrow> web_request \<Rightarrow> user option \<Rightarrow> web \<Rightarrow> response \<times> web" where
  "login_verify e s r user w =
     (let t = query_get r ''token'' in
      if t = [] then (Error_page 400 ''Missing token'', w)
      else (case validate_login_token e t (wb_db w) of
              (Inl err, d) \<Rightarrow> (if err = Invalid_token
                 then Page ''login.html'' [(''Error'', ''Invalid or expired login link. Please request a new one.'')]
                 else Error_page 500 ''Database error'', w\<lparr>wb_db := d\<rparr>)
            | (Inr email, d) \<Rightarrow> (case get_user_by_email d email of
                  Inl _ \<Rightarrow> (Error_page 500 ''User not found'', w\<lparr>wb_db := d\<rparr>)
                | Inr u \<Rightarrow> (case create_session e (ur_id u) d of
                      (Inl _, d) \<Rightarrow> (Error_page 500 ''Could not create session'', w\<lparr>wb_db := d\<rparr>)
                    | (Inr st, d) \<Rightarrow> (Set_session st (redirect s ''/''),
                        log_as e r user ''user_login'' ''user'' (ur_id u) [] (w\<lparr>wb_db := d\<rparr>))))))"

definition logout :: "site \<Rightarrow> web_request \<Rightarrow> web \<Rightarrow> response \<times> web" where
  "logout s r w = (Clear_session (redirect s ''/''),
     (case rq_session r of None \<Rightarrow> w | Some t \<Rightarrow> map_db (delete_session t) w))"

subsection \<open>Registration\<close>

definition register_page :: "site \<Rightarrow> web_request \<Rightarrow> user option \<Rightarrow> response" where
  "register_page s r user = (if user \<noteq> None then redirect s ''/''
     else Page ''register.html'' [(''InviteCode'', query_get r ''invite'')])"

definition welcome_mail :: "string \<Rightarrow> string \<Rightarrow> string" where
  "welcome_mail name url = join_with [LF] [''Welcome to makhor, '' @ name @ ''!'', [],
     ''Your account has been created. Click the link below to log in:'', [], url, [],
     ''This link will expire in 15 minutes.'', []]"

text \<open>
  The messages on a form that is refused, and the inviter where the code is good. The entry in the log
  prints the pointer to the inviter's id, \<open>ptr\<close>, and not the id.
\<close>

definition check_registration :: "db \<Rightarrow> string \<Rightarrow> string \<Rightarrow> string \<Rightarrow> string list \<times> int option" where
  "check_registration d name email code =
     (let name_err = (if \<not> username_ok name then [''Username must be 3-20 characters, start with a letter, and contain only letters, numbers, and underscores''] else []);
          email_err = (if \<not> email_ok email then [''Please enter a valid email address''] else [])
      in if code = [] then (name_err @ email_err @ [''An invite code is required to register''], None)
         else (case get_invite_by_code d code of
                 Inl _ \<Rightarrow> (name_err @ email_err @ [''Invalid or already used invite code''], None)
               | Inr (_, v) \<Rightarrow> if iv_used_by v \<noteq> None
                   then (name_err @ email_err @ [''Invalid or already used invite code''], None)
                   else (name_err @ email_err, Some (iv_created_by v))))"

definition register_errors :: "string list \<Rightarrow> string \<Rightarrow> string \<Rightarrow> string \<Rightarrow> response" where
  "register_errors errs name email code = Page ''register.html''
     (map (\<lambda>m. (''Errors'', m)) errs @ [(''Username'', name), (''Email'', email), (''InviteCode'', code)])"

definition register_submit :: "denv \<Rightarrow> string \<Rightarrow> site \<Rightarrow> web_request \<Rightarrow> user option \<Rightarrow> web \<Rightarrow> response \<times> web" where
  "register_submit e ptr s r user w =
     (if rq_form r = None then (Error_page 400 ''Invalid form data'', w)
      else let name = trim_space (form_value r ''username'');
               email = trim_space (to_lower (form_value r ''email''));
               code = trim_space (form_value r ''invite_code'')
      in (case check_registration (wb_db w) name email code of
            (errs, inviter) \<Rightarrow>
              if errs \<noteq> [] then (register_errors errs name email code, w)
              else (case create_user e name email inviter (wb_db w) of
                  (Inl err, d) \<Rightarrow> (if err = User_exists
                     then register_errors [''Username or email already taken''] name email code
                     else Error_page 500 ''Could not create account'', w\<lparr>wb_db := d\<rparr>)
                | (Inr u, d) \<Rightarrow>
                    (let d = (if code \<noteq> [] then snd (use_invite e code (ur_id u) d) else d);
                         w = log_as e r user ''user_create'' ''user'' (ur_id u) (''invited_by='' @ ptr) (w\<lparr>wb_db := d\<rparr>)
                     in (case create_login_token e email (wb_db w) of
                           (Inl _, d) \<Rightarrow> (Error_page 500 ''Could not create login token'', w\<lparr>wb_db := d\<rparr>)
                         | (Inr t, d) \<Rightarrow>
                             (Page ''register.html'' [(''Success'', ''Account created! Check your email for a login link.'')],
                              send_mail s email ''Welcome to makhor'' (welcome_mail name (login_url s t))
                                (w\<lparr>wb_db := d\<rparr>)))))))"

subsection \<open>Invitations\<close>

definition too_many_invites :: string where
  "too_many_invites = ''You have too many pending invites. Wait for some to be used.''"

definition make_invite :: "denv \<Rightarrow> web_request \<Rightarrow> user \<Rightarrow> response \<Rightarrow> response \<Rightarrow> web \<Rightarrow> response \<times> web" where
  "make_invite e r u refused done w =
     (let note = trim_space (form_value r ''note'') in
      if get_pending_invite_count (wb_db w) (ur_id u) \<ge> 5 then (refused, w)
      else (case create_invite e (ur_id u) note (wb_db w) of
              (Inl _, d) \<Rightarrow> (Error_page 500 ''Could not create invite'', w\<lparr>wb_db := d\<rparr>)
            | (Inr (i, _), d) \<Rightarrow> (done, log_as e r (Some u) ''invite_create'' ''invite'' i note (w\<lparr>wb_db := d\<rparr>))))"

definition invite_submit :: "denv \<Rightarrow> site \<Rightarrow> web_request \<Rightarrow> user option \<Rightarrow> web \<Rightarrow> response \<times> web" where
  "invite_submit e s r user w =
     (case user of None \<Rightarrow> (redirect s ''/login'', w)
      | Some u \<Rightarrow>
          if rq_form r = None then (Error_page 400 ''Invalid form data'', w)
          else make_invite e r u (Page ''invites.html'' [(''Error'', too_many_invites)]) (redirect s ''/invites'') w)"

text \<open>The same from the page of the own profile.\<close>

definition user_create_invite :: "denv \<Rightarrow> site \<Rightarrow> web_request \<Rightarrow> user \<Rightarrow> web \<Rightarrow> response \<times> web" where
  "user_create_invite e s r u w =
     (if rq_form r = None then (Error_page 400 ''Invalid form data'', w)
      else make_invite e r u (Page ''user.html'' [(''Error'', too_many_invites)])
        (redirect s (''/users/'' @ ur_username u @ ''?section=invites'')) w)"

text \<open>The tree is shown from the first user on: the id is looked for in the path, which has none.\<close>

definition invite_tree_root :: "web_request \<Rightarrow> int" where
  "invite_tree_root r = (if query_get r ''user'' \<noteq> []
     then (case get_path_id r [] of None \<Rightarrow> 1 | Some i \<Rightarrow> i) else 1)"

subsection \<open>The address of a user\<close>

definition settings_page :: "string \<Rightarrow> string \<Rightarrow> response" where
  "settings_page k m = Page ''user.html'' [(k, m)]"

definition change_mail :: "string \<Rightarrow> string \<Rightarrow> string \<Rightarrow> string" where
  "change_mail name email url = join_with [LF] [''Hello '' @ name @ '','', [],
     ''You requested to change your email address to: '' @ email, [],
     ''Click the link below to confirm this change:'', [], url, [], ''This link will expire in 24 hours.'', [],
     ''If you did not request this change, you can safely ignore this email and your email will remain unchanged.'', []]"

definition change_email_submit :: "denv \<Rightarrow> site \<Rightarrow> web_request \<Rightarrow> user option \<Rightarrow> web \<Rightarrow> response \<times> web" where
  "change_email_submit e s r user w =
     (case user of None \<Rightarrow> (redirect s ''/login'', w)
      | Some u \<Rightarrow>
          if rq_form r = None then (Error_page 400 ''Invalid form data'', w)
          else let email = trim_space (to_lower (form_value r ''new_email'')) in
          if \<not> email_ok email then (settings_page ''Error'' ''Please enter a valid email address'', w)
          else if email = ur_email u then (settings_page ''Error'' ''New email is the same as your current email'', w)
          else (case get_user_by_email (wb_db w) email of
                  Inr _ \<Rightarrow> (settings_page ''Error'' ''This email is already in use'', w)
                | Inl err \<Rightarrow>
                    if err \<noteq> User_not_found then (Error_page 500 ''Database error'', w)
                    else (case create_email_change_token e (ur_id u) email (dv_token e) (wb_db w) of
                        (Inl _, d) \<Rightarrow> (Error_page 500 ''Could not create token'', w\<lparr>wb_db := d\<rparr>)
                      | (Inr _, d) \<Rightarrow>
                          (settings_page ''Success'' ''A verification link has been sent to your current email address.'',
                           log_as e r user ''user_update'' ''user'' (ur_id u) (''email change requested to '' @ email)
                             (send_mail s (ur_email u) ''Confirm email change - makhor''
                               (change_mail (ur_username u) email
                                 (st_base_url s @ ''/settings/email/verify?token='' @ dv_token e))
                               (w\<lparr>wb_db := d\<rparr>))))))"

definition verify_email_change :: "denv \<Rightarrow> web_request \<Rightarrow> web \<Rightarrow> response \<times> web" where
  "verify_email_change e r w =
     (let t = query_get r ''token'' in
      if t = [] then (Error_page 400 ''Missing token'', w)
      else (case use_email_change_token e t (wb_db w) of
              (Inl _, d) \<Rightarrow> (Page ''message.html'' [(''Title'', ''Email Change Failed''),
                 (''Message'', ''Invalid or expired email change link. Please request a new one.'')], w\<lparr>wb_db := d\<rparr>)
            | (Inr _, d) \<Rightarrow> (Page ''message.html'' [(''Title'', ''Email Changed''),
                 (''Message'', ''Your email address has been updated successfully.'')], w\<lparr>wb_db := d\<rparr>)))"

text \<open>The page of settings of its own, which only sets what the user tells about themselves.\<close>

definition user_settings_submit :: "denv \<Rightarrow> site \<Rightarrow> web_request \<Rightarrow> user option \<Rightarrow> web \<Rightarrow> response \<times> web" where
  "user_settings_submit e s r user w =
     (case user of None \<Rightarrow> (redirect s ''/login'', w)
      | Some u \<Rightarrow>
          if rq_form r = None then (Error_page 400 ''Invalid form data'', w)
          else (Page ''settings.html'' [(''Success'', ''Profile updated'')],
            log_as e r user ''user_update'' ''user'' (ur_id u) ''about updated''
              (map_db (update_user (ur_id u) (take 1000 (trim_space (form_value r ''about'')))) w)))"

subsection \<open>Sequences of requests\<close>

datatype auth_op = Login_submit | Login_verify | Logout | Register_submit string | Invite_submit
  | User_create_invite user | Change_email_submit | Verify_email_change | User_settings_submit

fun auth_op_step :: "denv \<times> site \<times> web_request \<times> user option \<times> auth_op \<Rightarrow> web \<Rightarrow> response \<times> web" where
  "auth_op_step (e, s, r, user, Login_submit) w = login_submit e s r w"
| "auth_op_step (e, s, r, user, Login_verify) w = login_verify e s r user w"
| "auth_op_step (e, s, r, user, Logout) w = logout s r w"
| "auth_op_step (e, s, r, user, Register_submit ptr) w = register_submit e ptr s r user w"
| "auth_op_step (e, s, r, user, Invite_submit) w = invite_submit e s r user w"
| "auth_op_step (e, s, r, user, User_create_invite u) w = user_create_invite e s r u w"
| "auth_op_step (e, s, r, user, Change_email_submit) w = change_email_submit e s r user w"
| "auth_op_step (e, s, r, user, Verify_email_change) w = verify_email_change e r w"
| "auth_op_step (e, s, r, user, User_settings_submit) w = user_settings_submit e s r user w"

definition auth_ops_run :: "(denv \<times> site \<times> web_request \<times> user option \<times> auth_op) list \<Rightarrow> web \<Rightarrow> web" where
  "auth_ops_run ops w = fold (\<lambda>p w. snd (auth_op_step p w)) ops w"

text \<open>The account tables are in order, and no user has more than five open invitations.\<close>

definition accounts_bounded :: "db \<Rightarrow> bool" where
  "accounts_bounded d \<longleftrightarrow> accounts_ok d \<and> (\<forall>u. get_pending_invite_count d u \<le> 5)"

lemma bounded_same_invites:
  "accounts_bounded d \<Longrightarrow> accounts_ok d' \<Longrightarrow> db_invites d' = db_invites d \<Longrightarrow> accounts_bounded d'"
  by (simp add: accounts_bounded_def get_pending_invite_count_def)

lemma open_invites_used:
  "length (filter (\<lambda>(i, r). iv_created_by r = v \<and> iv_used_by r = None)
      (map (\<lambda>(i, r). (i, if P i r then r\<lparr>iv_used_by := Some u, iv_used_at := a\<rparr> else r)) xs))
    \<le> length (filter (\<lambda>(i, r). iv_created_by r = v \<and> iv_used_by r = None) xs)"
proof (induction xs)
  case (Cons x xs)
  then show ?case by (cases x; cases "P (fst x) (snd x)") auto
qed simp

lemma bounded_db_op:
  assumes "accounts_bounded d"
  shows "create_login_token e m d = (x, d') \<Longrightarrow> accounts_bounded d'"
    "validate_login_token e t d = (x, d') \<Longrightarrow> accounts_bounded d'"
    "create_session e u d = (x, d') \<Longrightarrow> accounts_bounded d'"
    "create_user e n m i d = (y, d') \<Longrightarrow> accounts_bounded d'"
    "create_email_change_token e u m t d = (z, d') \<Longrightarrow> accounts_bounded d'"
    "use_email_change_token e t d = (z, d') \<Longrightarrow> accounts_bounded d'"
    "accounts_bounded (delete_session t d)" "accounts_bounded (update_user u a d)"
    "accounts_bounded (d\<lparr>db_actions := l\<rparr>)" "accounts_bounded (snd (use_invite e c u d))"
proof -
  have ok: "accounts_ok d" using assms by (simp add: accounts_bounded_def)
  note keep = bounded_same_invites [OF assms]
  show "create_login_token e m d = (x, d') \<Longrightarrow> accounts_bounded d'"
    using keep tokens_ok(1) [OF ok] other_tables(21) by (metis snd_conv)
  show "validate_login_token e t d = (x, d') \<Longrightarrow> accounts_bounded d'"
    using keep tokens_ok(2) [OF ok] other_tables(22) by (metis snd_conv)
  show "create_session e u d = (x, d') \<Longrightarrow> accounts_bounded d'"
    using keep tokens_ok(3) [OF ok] other_tables(12) by (metis snd_conv)
  show "create_user e n m i d = (y, d') \<Longrightarrow> accounts_bounded d'"
    using keep create_user_ok [OF ok] other_tables(15) by (metis snd_conv)
  show "create_email_change_token e u m t d = (z, d') \<Longrightarrow> accounts_bounded d'"
    using keep tokens_ok(7) [OF ok] other_tables(19) by (metis snd_conv)
  show "use_email_change_token e t d = (z, d') \<Longrightarrow> accounts_bounded d'"
    using keep use_email_ok [OF ok] other_tables(20) by (metis snd_conv)
  show "accounts_bounded (delete_session t d)" by (rule keep [OF tokens_ok(5) [OF ok] other_tables(14)])
  show "accounts_bounded (update_user u a d)"
    unfolding update_user_def by (rule keep [OF set_user_ok [OF ok] other_tables(16)]) simp_all
  show "accounts_bounded (d\<lparr>db_actions := l\<rparr>)" using ok by (intro keep) (simp_all add: accounts_ok_def)
  have "get_pending_invite_count (snd (use_invite e c u d)) v \<le> get_pending_invite_count d v" for v
    unfolding use_invite_def Let_def get_pending_invite_count_def tbl_count_def tbl_select_def tbl_update_def
    using open_invites_used [of v "\<lambda>_ r. iv_code r = c \<and> iv_used_by r = None" "Some (dv_now e)" u "snd (db_invites d)"]
    by simp
  then show "accounts_bounded (snd (use_invite e c u d))"
    using assms tokens_ok(9) [OF ok, of e c u] unfolding accounts_bounded_def by (meson order_trans)
qed

lemma bounded_create_invite:
  assumes "accounts_bounded d" "get_pending_invite_count d u < 5" "create_invite e u nt d = (x, d')"
  shows "accounts_bounded d'"
proof -
  have ok: "accounts_ok d'" using tokens_ok(8) [of d e u nt] assms(1,3) by (simp add: accounts_bounded_def)
  have few: "get_pending_invite_count d' v \<le> (if v = u then 5 else get_pending_invite_count d v)" for v
  proof (cases "d' = d")
    case False
    then obtain i t where ins: "tbl_insert \<lparr>iv_code = dv_token e, iv_created_by = u, iv_created_at = dv_now e,
        iv_used_by = None, iv_used_at = None, iv_note = nt\<rparr> (db_invites d) = (i, t)" "d' = d\<lparr>db_invites := t\<rparr>"
      using assms(3) unfolding create_invite_def by (auto split: if_splits prod.splits)
    show ?thesis using assms(2) tbl_count_insert [OF ins(1), of "\<lambda>_ r. iv_created_by r = v \<and> iv_used_by r = None"]
      by (simp add: get_pending_invite_count_def ins(2))
  qed (use assms(2) in simp)
  have "get_pending_invite_count d' v \<le> 5" for v
    using few [of v] assms(1) by (cases "v = u") (auto simp: accounts_bounded_def intro: order_trans)
  with ok show ?thesis by (simp add: accounts_bounded_def)
qed

lemma log_as_actions: "\<exists>l. wb_db (log_as e r u a k i x w) = (wb_db w)\<lparr>db_actions := l\<rparr>"
proof (cases "fk_ok e (db_users (wb_db w)) (map_option ur_id u)")
  case True
  then show ?thesis unfolding log_as_def map_db_def log_action_def 
    by (intro exI [of _ "snd (tbl_insert \<lparr>ac_user_id = map_option ur_id u, ac_action = a, ac_target_type = k,
      ac_target_id = i, ac_details = x, ac_ip_address = get_client_ip (request.truncate r), ac_created_at = dv_now e\<rparr>
      (db_actions (wb_db w)))"]) simp
next
  case False
  then show ?thesis unfolding log_as_def map_db_def log_action_def
    by (intro exI [of _ "db_actions (wb_db w)"]) simp
qed

lemma log_as_bounded: "accounts_bounded (wb_db (log_as e r u a k i x w)) \<longleftrightarrow> accounts_bounded (wb_db w)"
proof -
  obtain l where l: "wb_db (log_as e r u a k i x w) = (wb_db w)\<lparr>db_actions := l\<rparr>"
    using log_as_actions by blast
  have "((wb_db w)\<lparr>db_actions := l\<rparr>)\<lparr>db_actions := db_actions (wb_db w)\<rparr> = wb_db w" by simp
  then show ?thesis unfolding l using bounded_db_op(9) by metis
qed

lemmas auth_bounded = bounded_db_op bounded_create_invite log_as_bounded

lemma make_invite_bounded:
  "accounts_bounded (wb_db w) \<Longrightarrow> accounts_bounded (wb_db (snd (make_invite e r u x y w)))"
  by (auto simp: make_invite_def Let_def log_as_bounded dest: bounded_create_invite [rotated 2] split: prod.splits sum.splits)

lemma send_mail_db [simp]: "wb_db (send_mail s m x b w) = wb_db w"
  by (simp add: send_mail_def)

lemma handlers_bounded:
  assumes "accounts_bounded (wb_db w)"
  shows "accounts_bounded (wb_db (snd (login_submit e s r w)))"
    "accounts_bounded (wb_db (snd (login_verify e s r user w)))"
    "accounts_bounded (wb_db (snd (logout s r w)))"
    "accounts_bounded (wb_db (snd (change_email_submit e s r user w)))"
    "accounts_bounded (wb_db (snd (verify_email_change e r w)))"
    "accounts_bounded (wb_db (snd (user_settings_submit e s r user w)))"
proof -
  note db = bounded_db_op [OF assms]
  show "accounts_bounded (wb_db (snd (login_submit e s r w)))"
    using assms db(1) by (auto simp: login_submit_def Let_def split: sum.splits prod.splits)
  show "accounts_bounded (wb_db (snd (login_verify e s r user w)))"
    using assms db(2)
    by (auto simp: login_verify_def Let_def log_as_bounded split: sum.splits prod.splits
      elim: bounded_db_op(3) [OF db(2), rotated])
  show "accounts_bounded (wb_db (snd (logout s r w)))"
    using assms db(7) by (simp add: logout_def map_db_def split: option.splits)
  show "accounts_bounded (wb_db (snd (change_email_submit e s r user w)))"
    using assms db(5) by (auto simp: change_email_submit_def Let_def log_as_bounded split: sum.splits prod.splits option.splits)
  show "accounts_bounded (wb_db (snd (verify_email_change e r w)))"
    using assms db(6) by (auto simp: verify_email_change_def Let_def split: sum.splits prod.splits)
  show "accounts_bounded (wb_db (snd (user_settings_submit e s r user w)))"
    using assms db(8) by (simp add: user_settings_submit_def log_as_bounded map_db_def split: option.splits)
qed

lemma register_bounded:
  assumes "accounts_bounded (wb_db w)"
  shows "accounts_bounded (wb_db (snd (register_submit e ptr s r user w)))"
proof -
  define name email code where "name = trim_space (form_value r ''username'')"
    and "email = trim_space (to_lower (form_value r ''email''))" and "code = trim_space (form_value r ''invite_code'')"
  obtain errs inviter where c: "check_registration (wb_db w) name email code = (errs, inviter)" by fastforce
  obtain y d where u: "create_user e name email inviter (wb_db w) = (y, d)" by fastforce
  have d: "accounts_bounded d" by (rule bounded_db_op(4) [OF assms u])
  then have d': "accounts_bounded (if code \<noteq> [] then snd (use_invite e code i d) else d)" for i
    using bounded_db_op(10) by simp
  have "accounts_bounded d''"
    if "create_login_token e email (wb_db (log_as e r user a k i x (w\<lparr>wb_db := if code \<noteq> [] then snd (use_invite e code j d) else d\<rparr>))) = (z, d'')"
    for a k i x j z d''
    using d' [of j] by (intro bounded_db_op(1) [OF _ that]) (simp add: log_as_bounded)
  with assms c u d show ?thesis
    unfolding register_submit_def Let_def name_def [symmetric] email_def [symmetric] code_def [symmetric]
    by (auto split: sum.splits prod.splits)
qed

lemma auth_op_step_bounded:
  "accounts_bounded (wb_db w) \<Longrightarrow> accounts_bounded (wb_db (snd (auth_op_step p w)))"
  by (induction p w rule: auth_op_step.induct)
    (auto simp: handlers_bounded register_bounded make_invite_bounded invite_submit_def user_create_invite_def
      split: option.splits)

text \<open>
  C32. Nobody ever has more than five open invitations, however the requests to log in, register, invite
  and change an address follow each other, as long as each handler runs by itself: the counts are five
  at most in every state reached from one where they are, and the tables stay in order.
\<close>

theorem invites_bounded:
  assumes "accounts_bounded (wb_db w)"
  shows "accounts_ok (wb_db (auth_ops_run ops w)) \<and> get_pending_invite_count (wb_db (auth_ops_run ops w)) u \<le> 5"
proof -
  have "accounts_bounded (wb_db (auth_ops_run ops w))"
    unfolding auth_ops_run_def using assms
    by (induction ops arbitrary: w) (simp_all add: auth_op_step_bounded)
  then show ?thesis by (simp add: accounts_bounded_def)
qed

definition web0 :: web where
  "web0 = \<lparr>wb_db = two_users, wb_cache = [], wb_mails = []\<rparr>"

definition site0 :: site where
  "site0 = \<lparr>st_base_url = ''https://m.de'', st_subpath = [], st_mail = True\<rparr>"

definition request0 :: web_request where
  "request0 = \<lparr>rq_forwarded_for = [], rq_real_ip = [], rq_remote_addr = ''[::1]:80'', rq_post = True, rq_path = ''/'',
     rq_host = ''m.de'', rq_referer = [],
     rq_query = [], rq_form = Some [(''email'', '' R@X.de''), (''username'', ''Bea''), (''invite_code'', ''inv'')],
     rq_session = None\<rparr>"

lemma web0_bounded: "accounts_bounded (wb_db web0)"
proof -
  have "length (filter P (snd (db_invites two_users))) \<le> 1" for P
    using length_filter_le [of P "snd (db_invites two_users)"] two_users_invites by simp
  then have "get_pending_invite_count two_users u \<le> 1" for u
    by (simp add: get_pending_invite_count_def tbl_count_def tbl_select_def)
  then have "get_pending_invite_count two_users u \<le> 5" for u by (meson dual_order.trans one_le_numeral)
  then show ?thesis using two_users_ok by (simp add: web0_def accounts_bounded_def)
qed

text \<open>The first user has one open invitation and asks for six more; only four are made.\<close>

lemma invites_bounded_witness:
  "\<exists>u. let ops = map (\<lambda>t. (now0\<lparr>dv_token := t\<rparr>, site0, request0, None, User_create_invite u)) [''a'', ''b'', ''c'', ''d'', ''e'', ''f'']
   in get_user_by_id two_users 1 = Inr u \<and> get_pending_invite_count (wb_db (auth_ops_run ops web0)) 1 = 5
     \<and> accounts_ok (wb_db (auth_ops_run ops web0)) \<and> get_pending_invite_count (wb_db (auth_ops_run ops web0)) 1 \<le> 5"
proof -
  let ?ops = "\<lambda>u. map (\<lambda>t. (now0\<lparr>dv_token := t\<rparr>, site0, request0, None, User_create_invite u)) [''a'', ''b'', ''c'', ''d'', ''e'', ''f'']"
  have "map_sum id (\<lambda>u. get_pending_invite_count (wb_db (auth_ops_run (?ops u) web0)) 1) (get_user_by_id two_users 1) = Inr 5"
    by code_simp
  then obtain u where u: "get_user_by_id two_users 1 = Inr u"
    "get_pending_invite_count (wb_db (auth_ops_run (?ops u) web0)) 1 = 5"
    by (cases "get_user_by_id two_users 1") auto
  with invites_bounded [OF web0_bounded, of "?ops u" 1] show ?thesis unfolding Let_def by blast
qed

subsection \<open>Addresses\<close>

text \<open>
  The check of an address is the match of the pattern the source compiles: a text passes exactly
  when it is a part of at least one letter, digit or sign of the first class, an at sign, a part of at
  least one letter, digit, dot or hyphen, a dot, and at least two letters, whatever way the greedy
  repetitions share out the dots.
\<close>

theorem email_ok_pattern:
  "email_ok s \<longleftrightarrow> (\<exists>loc dom tld. s = loc @ CHR ''@'' # dom @ CHR ''.'' # tld
     \<and> loc \<noteq> [] \<and> (\<forall>c\<in>set loc. is_alnum c \<or> c \<in> set ''._%+-'')
     \<and> dom \<noteq> [] \<and> (\<forall>c\<in>set dom. is_alnum c \<or> c \<in> set ''.-'')
     \<and> 2 \<le> length tld \<and> (\<forall>c\<in>set tld. is_letter c))"
proof
  assume e: "email_ok s"
  obtain loc rest where sp: "split_on (CHR ''@'') s = [loc, rest]"
    using e by (auto simp: email_ok_def split: list.splits)
  with e obtain i where i: "last_index (CHR ''.'') rest = Some i"
    by (auto simp: email_ok_def split: option.splits)
  from sp have s: "s = loc @ CHR ''@'' # rest" using join_split [of "CHR ''@''" s] by simp
  obtain a b where ab: "rest = a @ CHR ''.'' # b" "CHR ''.'' \<notin> set b"
    using i split_list_last [of "CHR ''.''" rest] by (auto simp: last_index_def split: if_splits)
  with i last_index_append [of "CHR ''.''" b a] have "i = length a" by simp
  with e sp i ab s show "\<exists>loc dom tld. s = loc @ CHR ''@'' # dom @ CHR ''.'' # tld
     \<and> loc \<noteq> [] \<and> (\<forall>c\<in>set loc. is_alnum c \<or> c \<in> set ''._%+-'')
     \<and> dom \<noteq> [] \<and> (\<forall>c\<in>set dom. is_alnum c \<or> c \<in> set ''.-'')
     \<and> 2 \<le> length tld \<and> (\<forall>c\<in>set tld. is_letter c)"
    by (intro exI [of _ loc] exI [of _ a] exI [of _ b]) (simp add: email_ok_def list_all_iff)
next
  have no: "\<not> is_alnum (CHR ''@'')" "\<not> is_letter (CHR ''.'')" "\<not> is_letter (CHR ''@'')"
    by (simp_all add: is_alnum_def is_letter_def is_upper_def is_lower_def is_digit_def)
  assume "\<exists>loc dom tld. s = loc @ CHR ''@'' # dom @ CHR ''.'' # tld
     \<and> loc \<noteq> [] \<and> (\<forall>c\<in>set loc. is_alnum c \<or> c \<in> set ''._%+-'')
     \<and> dom \<noteq> [] \<and> (\<forall>c\<in>set dom. is_alnum c \<or> c \<in> set ''.-'')
     \<and> 2 \<le> length tld \<and> (\<forall>c\<in>set tld. is_letter c)"
  then obtain loc dom tld where p: "s = loc @ CHR ''@'' # dom @ CHR ''.'' # tld"
    "loc \<noteq> []" "\<forall>c\<in>set loc. is_alnum c \<or> c \<in> set ''._%+-''" "dom \<noteq> []"
    "\<forall>c\<in>set dom. is_alnum c \<or> c \<in> set ''.-''" "2 \<le> length tld" "\<forall>c\<in>set tld. is_letter c" by blast
  have at_free: "CHR ''@'' \<notin> set loc" "CHR ''@'' \<notin> set (dom @ CHR ''.'' # tld)" "CHR ''.'' \<notin> set tld"
    using p(3,5,7) no by auto
  then have "split_on (CHR ''@'') s = [loc, dom @ CHR ''.'' # tld]"
    by (simp add: p(1) split_on_app split_on_none)
  with p at_free(3) show "email_ok s" by (simp add: email_ok_def last_index_append list_all_iff)
qed

lemma email_ok_pattern_witness: "email_ok ''ab@c.d.ef''"
proof -
  have "\<forall>c\<in>set ''ab''. is_alnum c \<or> c \<in> set ''._%+-''" "\<forall>c\<in>set ''c.d''. is_alnum c \<or> c \<in> set ''.-''"
    "\<forall>c\<in>set ''ef''. is_letter c" by code_simp+
  then show ?thesis unfolding email_ok_pattern
    by (intro exI [of _ "''ab''"] exI [of _ "''c.d''"] exI [of _ "''ef''"]) simp
qed

subsection \<open>The way in\<close>

lemma users_only:
  "db_users d' = db_users d \<Longrightarrow> get_user_by_id d' i = get_user_by_id d i"
  "db_users d' = db_users d \<Longrightarrow> get_user_by_email d' m = get_user_by_email d m"
proof -
  assume a: "db_users d' = db_users d"
  have "username_of d' x = username_of d x" for x by (simp add: username_of_def a split: option.splits)
  then show id: "get_user_by_id d' i = get_user_by_id d i" for i by (simp add: get_user_by_id_def a split: option.splits)
  show "get_user_by_email d' m = get_user_by_email d m" by (simp add: get_user_by_email_def a id split: option.splits)
qed

lemma email_user_id:
  assumes "accounts_ok d" "get_user_by_email d m = Inr u"
  shows "get_user_by_id d (ur_id u) = Inr u" "tbl_get (db_users d) (ur_id u) \<noteq> None"
  using assms by (auto simp: get_user_by_email_def get_user_by_id_def split: option.splits)

lemma session_after_log:
  "fst (validate_session e t (wb_db (log_as e' r u a k i x w))) = fst (validate_session e t (wb_db w))"
proof -
  obtain l where l: "wb_db (log_as e' r u a k i x w) = (wb_db w)\<lparr>db_actions := l\<rparr>" using log_as_actions by blast
  have "get_user_by_id ((wb_db w)\<lparr>db_actions := l\<rparr>) j = get_user_by_id (wb_db w) j" for j by (rule users_only) simp
  then show ?thesis by (simp add: l validate_session_def split: option.splits)
qed

text \<open>
  C36. Who has an account gets in. For the address of a user who is not banned, given with any case and
  white space around it, the form to log in sends the user, and nobody else, a mail with the link of a
  new token; the link, visited within fifteen minutes, opens a session; and a request with the cookie of
  the session is answered as this user when it comes within thirty days. The random tokens have to be
  fresh, which the source leaves to thirty-two random bytes.
\<close>

theorem login_flow:
  assumes ok: "accounts_ok (wb_db w)"
    and form: "rq_form r \<noteq> None" "trim_space (to_lower (form_value r ''email'')) = m" "email_ok m"
    and usr: "get_user_by_email (wb_db w) m = Inr u" "\<not> ur_is_banned u"
    and mail: "st_mail s"
    and fresh: "fst (create_login_token e m (wb_db w)) = Inr t" "t \<noteq> []"
    and visit: "query_get r' ''token'' = t" "dv_now e' < dv_now e + 15 * 60"
    and fresh': "\<forall>i q. tbl_get (db_sessions (wb_db w)) i = Some q \<longrightarrow> ss_token q \<noteq> dv_token e'" "dv_token e' \<noteq> []"
    and back_in: "dv_now e'' < dv_now e' + 30 * 24 * 60 * 60" "cache_get now (dv_token e') c = None"
  shows "\<exists>w1 w2. login_submit e s r w = (link_sent, w1)
    \<and> wb_mails w1 = (m, ''Login to makhor'', login_mail (ur_username u) (login_url s t)) # wb_mails w
    \<and> login_verify e' s r' None w1 = (Set_session (dv_token e') (redirect s ''/''), w2)
    \<and> fst (authenticate now e'' (Some (dv_token e')) c (wb_db w2)) = Some u"
proof -
  obtain d1 where d1: "create_login_token e m (wb_db w) = (Inr t, d1)" using fresh(1) by (metis prod.collapse)
  define w1 where "w1 = send_mail s m ''Login to makhor'' (login_mail (ur_username u) (login_url s t)) (w\<lparr>wb_db := d1\<rparr>)"
  have sub: "login_submit e s r w = (link_sent, w1)" using form usr d1 by (auto simp: login_submit_def w1_def)
  have db1: "wb_db w1 = d1" by (simp add: w1_def)
  have ok1: "accounts_ok d1" using tokens_ok(1) [OF ok, of e m] d1 by simp
  have same1: "db_users d1 = db_users (wb_db w)" "db_sessions d1 = db_sessions (wb_db w)"
    using d1 by (auto simp: create_login_token_def split: if_splits)
  obtain d2 where d2: "validate_login_token e' t d1 = (Inr m, d2)"
    using login_token_accepted [OF ok d1 visit(2)] by (metis prod.collapse)
  have same2: "db_users d2 = db_users (wb_db w)" "db_sessions d2 = db_sessions (wb_db w)"
    using d2 same1 by (auto simp: validate_login_token_def split: option.splits)
  have ok2: "accounts_ok d2" using tokens_ok(2) [OF ok1, of e' t] d2 by simp
  have u2: "get_user_by_email d2 m = Inr u" using users_only(2) [OF same2(1)] usr(1) by simp
  note id2 = email_user_id [OF ok2 u2]
  have "tbl_find (\<lambda>_ q. ss_token q = dv_token e') (db_sessions d2) = None"
    using tbl_find_None fresh'(1) ok2 by (fastforce simp: accounts_ok_def same2)
  with id2(2) obtain d3 where d3: "create_session e' (ur_id u) d2 = (Inr (dv_token e'), d3)"
    by (auto simp: create_session_def fk_ok_def)
  define w2 where "w2 = log_as e' r' None ''user_login'' ''user'' (ur_id u) [] (w1\<lparr>wb_db := d3\<rparr>)"
  have ver: "login_verify e' s r' None w1 = (Set_session (dv_token e') (redirect s ''/''), w2)"
    using visit(1) fresh(2) d2 u2 d3 by (simp add: login_verify_def db1 w2_def)
  have "fst (validate_session e'' (dv_token e') (wb_db w2)) = Inr u"
    using session_validity [OF ok2 d3 id2(1)] back_in(1) by (simp add: w2_def session_after_log)
  then have "fst (authenticate now e'' (Some (dv_token e')) c (wb_db w2)) = Some u"
    using fresh'(2) back_in(2) usr(2) by (auto simp: authenticate_def unless_banned_def split: prod.splits)
  moreover have "wb_mails w1 = (m, ''Login to makhor'', login_mail (ur_username u) (login_url s t)) # wb_mails w"
    using mail by (simp add: w1_def send_mail_def)
  ultimately show ?thesis using sub ver by blast
qed

lemma login_flow_witness:
  "\<exists>u w1 w2. ur_username u = ''root'' \<and> login_submit now0 site0 request0 web0 = (link_sent, w1)
    \<and> wb_mails w1 = (''r@x.de'', ''Login to makhor'', login_mail ''root'' ''https://m.de/login/verify?token=tok'') # []
    \<and> login_verify (now0\<lparr>dv_now := 1899\<rparr>) site0 (request0\<lparr>rq_query := [(''token'', ''tok'')]\<rparr>) None w1
        = (Set_session ''tok'' (redirect site0 ''/''), w2)
    \<and> fst (authenticate 7 (now0\<lparr>dv_now := 2000000\<rparr>) (Some ''tok'') [] (wb_db w2)) = Some u"
proof -
  have "map_sum id (\<lambda>u. (ur_username u, ur_is_banned u)) (get_user_by_email (wb_db web0) ''r@x.de'') = Inr (''root'', False)"
    by code_simp
  then obtain u where u: "get_user_by_email (wb_db web0) ''r@x.de'' = Inr u" "ur_username u = ''root''" "\<not> ur_is_banned u"
    by (cases "get_user_by_email (wb_db web0) ''r@x.de''") auto
  have h: "accounts_ok (wb_db web0)" "rq_form request0 \<noteq> None"
    "trim_space (to_lower (form_value request0 ''email'')) = ''r@x.de''" "email_ok ''r@x.de''" "st_mail site0"
    "fst (create_login_token now0 ''r@x.de'' (wb_db web0)) = Inr ''tok''"
    "query_get (request0\<lparr>rq_query := [(''token'', ''tok'')]\<rparr>) ''token'' = ''tok''"
    using web0_bounded by (simp add: accounts_bounded_def) code_simp+
  have "snd (db_sessions (wb_db web0)) = []" by code_simp
  then have s: "\<forall>i q. tbl_get (db_sessions (wb_db web0)) i = Some q \<longrightarrow> ss_token q \<noteq> dv_token (now0\<lparr>dv_now := 1899\<rparr>)"
    by (simp add: tbl_get_def)
  have url: "login_url site0 ''tok'' = ''https://m.de/login/verify?token=tok''" "wb_mails web0 = []" by code_simp+
  from login_flow [OF h(1-4) u(1,3) h(5,6) _ h(7) _ s, of "now0\<lparr>dv_now := 2000000\<rparr>" 7 "[]"]
  show ?thesis using u(2) by (simp add: url now0_def cache_get_def) blast
qed

subsection \<open>Registration and logout\<close>

lemma check_registration_passed:
  assumes "check_registration d name email code = ([], inviter)"
  obtains i v where "username_ok name" "email_ok email" "code \<noteq> []" "get_invite_by_code d code = Inr (i, v)"
    "iv_used_by v = None" "inviter = Some (iv_created_by v)"
  using assms by (auto simp: check_registration_def Let_def split: if_splits sum.splits)

lemma invite_by_code:
  assumes "accounts_ok d" "get_invite_by_code d code = Inr (i, v)"
  shows "tbl_get (db_invites d) i = Some v" "iv_code v = code"
  using assms tbl_find_Some [of "db_invites d" "\<lambda>_ r. iv_code r = code"]
  by (auto simp: accounts_ok_def get_invite_by_code_def get_invite_by_id_def split: option.splits)

lemma use_open_invite:
  assumes "accounts_ok d" "tbl_get (db_invites d) i = Some v" "iv_used_by v = None" "tbl_get (db_users d) u \<noteq> None"
  shows "tbl_get (db_invites (snd (use_invite e (iv_code v) u d))) i
      = Some (v\<lparr>iv_used_by := Some u, iv_used_at := Some (dv_now e)\<rparr>)"
    "db_users (snd (use_invite e (iv_code v) u d)) = db_users d"
proof -
  have "0 < tbl_count (\<lambda>_ r. iv_code r = iv_code v \<and> iv_used_by r = None) (db_invites d)"
    using assms(1-3) by (auto simp: accounts_ok_def tbl_count_pos)
  with assms(2-4) show "tbl_get (db_invites (snd (use_invite e (iv_code v) u d))) i
      = Some (v\<lparr>iv_used_by := Some u, iv_used_at := Some (dv_now e)\<rparr>)"
    "db_users (snd (use_invite e (iv_code v) u d)) = db_users d"
    by (auto simp: use_invite_def Let_def fk_ok_def tbl_update_get)
qed

lemma create_user_row:
  assumes "accounts_ok d" "create_user e name email iby d = (x, d')"
  shows "db_users d' = db_users d \<and> (\<exists>err. x = Inl err)
    \<or> (\<exists>u. x = Inr u \<and> tbl_get (db_users d) (ur_id u) = None \<and> db_invites d' = db_invites d
       \<and> tbl_get (db_users d') (ur_id u) = Some \<lparr>us_username = name, us_email = email, us_created_at = dv_now e,
              us_invited_by = iby, us_is_admin = False, us_is_banned = False, us_about = [],
              us_avatar = None, us_avatar_type = None, us_ban_reason = [], us_ban_expires_at = None,
              us_banned_by = None\<rparr>)"
proof (cases "tbl_count (\<lambda>_ r. us_username r = name \<or> us_email r = email) (db_users d) > 0 \<or> \<not> fk_ok e (db_users d) iby")
  case False
  let ?r = "\<lparr>us_username = name, us_email = email, us_created_at = dv_now e,
    us_invited_by = iby, us_is_admin = False, us_is_banned = False, us_about = [],
    us_avatar = None, us_avatar_type = None, us_ban_reason = [], us_ban_expires_at = None, us_banned_by = None\<rparr>"
  obtain i t where ins: "tbl_insert ?r (db_users d) = (i, t)" by (metis surj_pair)
  have "tbl_ok (db_users d)" using assms(1) by (simp add: accounts_ok_def users_ok_def)
  note g = tbl_insert_get [OF this ins]
  from assms(2) False ins g(1) show ?thesis
    by (auto simp: create_user_def get_user_by_id_def g(2))
qed (use assms(2) in \<open>auto simp: create_user_def split: if_splits\<close>)

text \<open>
  Nobody gets in without an invitation, and an invitation gets one person in. Whenever the form to
  register changes the table of users, the code in it was that of an open invitation; the user added is
  no administrator, has a name and an address of the required form, and counts as invited by the owner
  of the invitation, which from then on is used up by this very user.
\<close>

theorem registration_consumes_invite:
  assumes ok: "accounts_ok (wb_db w)" and reg: "register_submit e ptr s r user w = (resp, w')"
    and grew: "db_users (wb_db w') \<noteq> db_users (wb_db w)"
  shows "\<exists>i v k row. tbl_get (db_invites (wb_db w)) i = Some v
    \<and> iv_code v = trim_space (form_value r ''invite_code'') \<and> iv_used_by v = None
    \<and> tbl_get (db_users (wb_db w)) k = None \<and> tbl_get (db_users (wb_db w')) k = Some row
    \<and> username_ok (us_username row) \<and> email_ok (us_email row) \<and> \<not> us_is_admin row
    \<and> us_invited_by row = Some (iv_created_by v)
    \<and> tbl_get (db_invites (wb_db w')) i = Some (v\<lparr>iv_used_by := Some k, iv_used_at := Some (dv_now e)\<rparr>)"
proof -
  define name email code where "name = trim_space (form_value r ''username'')"
    and "email = trim_space (to_lower (form_value r ''email''))" and "code = trim_space (form_value r ''invite_code'')"
  obtain errs inviter where c: "check_registration (wb_db w) name email code = (errs, inviter)" by fastforce
  obtain x d where cu: "create_user e name email inviter (wb_db w) = (x, d)" by fastforce
  note unf = register_submit_def Let_def name_def [symmetric] email_def [symmetric] code_def [symmetric]
  have "rq_form r \<noteq> None" "errs = []" using reg grew c by (auto simp: unf split: if_splits)
  with c obtain i v where iv: "username_ok name" "email_ok email" "code \<noteq> []"
    "get_invite_by_code (wb_db w) code = Inr (i, v)" "iv_used_by v = None" "inviter = Some (iv_created_by v)"
    by (blast elim: check_registration_passed)
  note vi = invite_by_code [OF ok iv(4)]
  have "\<not> (\<exists>err. x = Inl err) \<or> db_users d \<noteq> db_users (wb_db w)"
    using reg grew c cu \<open>errs = []\<close> \<open>rq_form r \<noteq> None\<close> by (auto simp: unf)
  with create_user_row [OF ok cu] obtain u where u: "x = Inr u" "tbl_get (db_users (wb_db w)) (ur_id u) = None"
    "db_invites d = db_invites (wb_db w)"
    "tbl_get (db_users d) (ur_id u) = Some \<lparr>us_username = name, us_email = email, us_created_at = dv_now e,
       us_invited_by = inviter, us_is_admin = False, us_is_banned = False, us_about = [], us_avatar = None,
       us_avatar_type = None, us_ban_reason = [], us_ban_expires_at = None, us_banned_by = None\<rparr>" by auto
  let ?d = "snd (use_invite e code (ur_id u) d)"
  let ?w = "log_as e r user ''user_create'' ''user'' (ur_id u) (''invited_by='' @ ptr) (w\<lparr>wb_db := ?d\<rparr>)"
  have okd: "accounts_ok d" using create_user_ok [OF ok, of e name email inviter] cu by simp
  have "tbl_get (db_invites d) i = Some v" using vi(1) u(3) by simp
  from use_open_invite [OF okd this iv(5), of "ur_id u" e] u(4) vi(2)
  have used: "tbl_get (db_invites ?d) i = Some (v\<lparr>iv_used_by := Some (ur_id u), iv_used_at := Some (dv_now e)\<rparr>)"
    "db_users ?d = db_users d" by simp_all
  obtain l where l: "wb_db ?w = ?d\<lparr>db_actions := l\<rparr>"
    using log_as_actions [of e r user "''user_create''" "''user''" "ur_id u" "''invited_by='' @ ptr" "w\<lparr>wb_db := ?d\<rparr>"]
    by auto
  have "wb_db w' = snd (create_login_token e email (wb_db ?w))"
    using reg c cu u(1) \<open>errs = []\<close> \<open>rq_form r \<noteq> None\<close> iv(3)
    by (auto simp: unf split: sum.splits prod.splits)
  moreover have "db_users (snd (create_login_token e m d')) = db_users d'"
    "db_invites (snd (create_login_token e m d')) = db_invites d'" for m d' by (simp_all add: create_login_token_def)
  ultimately have "db_users (wb_db w') = db_users d" "db_invites (wb_db w') = db_invites ?d"
    unfolding l using used(2) by simp_all
  with vi iv u used show ?thesis
    by (intro exI [of _ i] exI [of _ v] exI [of _ "ur_id u"] exI) (auto simp: code_def)
qed

text \<open>Bea registers with the code of the open invitation of the first user.\<close>

lemma registration_consumes_invite_witness:
  "let w' = snd (register_submit (now0\<lparr>dv_token := ''t2''\<rparr>) ''0xc0'' site0
       (request0\<lparr>rq_form := Some [(''email'', ''b@x.de''), (''username'', ''Bea''), (''invite_code'', ''inv'')]\<rparr>) None web0)
   in \<exists>i v k row. tbl_get (db_invites (wb_db web0)) i = Some v \<and> iv_code v = ''inv'' \<and> iv_used_by v = None
    \<and> tbl_get (db_users (wb_db web0)) k = None \<and> tbl_get (db_users (wb_db w')) k = Some row
    \<and> username_ok (us_username row) \<and> email_ok (us_email row) \<and> \<not> us_is_admin row
    \<and> us_invited_by row = Some (iv_created_by v)
    \<and> tbl_get (db_invites (wb_db w')) i = Some (v\<lparr>iv_used_by := Some k, iv_used_at := Some 1000\<rparr>)"
proof -
  let ?r = "request0\<lparr>rq_form := Some [(''email'', ''b@x.de''), (''username'', ''Bea''), (''invite_code'', ''inv'')]\<rparr>"
  obtain resp w' where w': "register_submit (now0\<lparr>dv_token := ''t2''\<rparr>) ''0xc0'' site0 ?r None web0 = (resp, w')"
    by fastforce
  have "length (snd (db_users (wb_db (snd (register_submit (now0\<lparr>dv_token := ''t2''\<rparr>) ''0xc0'' site0 ?r None web0))))) = 2"
    "length (snd (db_users (wb_db web0))) = 1" by code_simp+
  then have "db_users (wb_db w') \<noteq> db_users (wb_db web0)" by (auto simp: w')
  moreover have "accounts_ok (wb_db web0)" using web0_bounded by (simp add: accounts_bounded_def)
  moreover have "trim_space (form_value ?r ''invite_code'') = ''inv''" by code_simp
  ultimately show ?thesis
    using registration_consumes_invite [OF _ w'] by (simp only: w' Let_def snd_conv) (simp add: now0_def)
qed

text \<open>
  Logging out does not log out at once. The session is gone from the database, but the cache is not
  told: a request with the same cookie, ten seconds later, is still answered as the user; only the next
  one after the half minute of the cache is not.
\<close>

theorem logout_leaves_login:
  "let w = web0\<lparr>wb_db := snd (create_session now0 1 two_users)\<rparr>;
       r = request0\<lparr>rq_session := Some ''tok''\<rparr>;
       c = fst (snd (authenticate 0 now0 (rq_session r) [] (wb_db w)));
       w' = snd (logout site0 r w);
       second = 1000000000
   in fst (validate_session now0 ''tok'' (wb_db w')) = Inl Invalid_token
      \<and> map_option ur_username (fst (authenticate (10 * second) now0 (rq_session r) c (wb_db w'))) = Some ''root''
      \<and> fst (authenticate (30 * second) now0 (rq_session r) c (wb_db w')) = None"
  by code_simp

end
