(* ===== verification/Posts.thy ===== *)
theory Posts
  imports MakhorDb
begin

text \<open>
  Posts, their tags and revisions, hats, and the votes on posts and comments
  (\<^verbatim>\<open>tools/makhor/pkg/db/posts.go\<close>, \<^verbatim>\<open>hats.go\<close>,
  \<^verbatim>\<open>votes.go\<close>). The domain of a post's address, which is only displayed, is left out of the
  posts returned. A transaction that fails leaves the database as it was.
\<close>

subsection \<open>Hats\<close>

record hat =
  hr_id :: int
  hr_user_id :: int
  hr_name :: string
  hr_organization :: string
  hr_link :: string
  hr_granted_by :: "int option"
  hr_granted_at :: int
  hr_is_active :: bool
  hr_username :: string

definition hat_of_row :: "int \<Rightarrow> hat_row \<Rightarrow> string \<Rightarrow> hat" where
  "hat_of_row i h name = \<lparr>hr_id = i, hr_user_id = ht_user_id h, hr_name = ht_name h,
     hr_organization = ht_organization h, hr_link = or_empty (ht_link h),
     hr_granted_by = ht_granted_by h, hr_granted_at = ht_granted_at h, hr_is_active = ht_is_active h,
     hr_username = name\<rparr>"

definition get_hat_by_id :: "db \<Rightarrow> int \<Rightarrow> db_error + hat" where
  "get_hat_by_id d i =
     (case tbl_get (db_hats d) i of None \<Rightarrow> Inl Hat_not_found | Some h \<Rightarrow> Inr (hat_of_row i h []))"

definition same_hat :: "int \<Rightarrow> string \<Rightarrow> string \<Rightarrow> hat_row \<Rightarrow> bool" where
  "same_hat u name org h \<longleftrightarrow> ht_user_id h = u \<and> ht_name h = name \<and> ht_organization h = org"

definition create_hat ::
  "denv \<Rightarrow> int \<Rightarrow> string \<Rightarrow> string \<Rightarrow> string \<Rightarrow> int option \<Rightarrow> db \<Rightarrow> (db_error + hat) \<times> db" where
  "create_hat e u name org link by d =
     (if tbl_find (\<lambda>_ h. same_hat u name org h) (db_hats d) \<noteq> None
         \<or> \<not> fk_ok e (db_users d) (Some u) \<or> \<not> fk_ok e (db_users d) by
      then (Inl Constraint_failed, d)
      else (case tbl_insert \<lparr>ht_user_id = u, ht_name = name, ht_organization = org, ht_link = Some link,
              ht_granted_by = by, ht_granted_at = dv_now e, ht_is_active = True\<rparr> (db_hats d) of
            (i, t) \<Rightarrow> (get_hat_by_id (d\<lparr>db_hats := t\<rparr>) i, d\<lparr>db_hats := t\<rparr>)))"

definition get_user_hats :: "db \<Rightarrow> int \<Rightarrow> hat list" where
  "get_user_hats d u = map (\<lambda>(i, h). hat_of_row i h [])
     (sort_key (\<lambda>(i, h). - ht_granted_at h)
       (tbl_select (\<lambda>_ h. ht_user_id h = u \<and> ht_is_active h) (db_hats d)))"

definition user_owns_hat :: "db \<Rightarrow> int \<Rightarrow> int \<Rightarrow> bool" where
  "user_owns_hat d u i \<longleftrightarrow>
     (case tbl_get (db_hats d) i of None \<Rightarrow> False | Some h \<Rightarrow> ht_user_id h = u \<and> ht_is_active h)"

definition set_hat :: "int \<Rightarrow> (hat_row \<Rightarrow> hat_row) \<Rightarrow> db \<Rightarrow> db" where
  "set_hat i f d = d\<lparr>db_hats := tbl_update (\<lambda>k _. k = i) f (db_hats d)\<rparr>"

definition revoke_hat :: "int \<Rightarrow> db \<Rightarrow> db" where
  "revoke_hat i = set_hat i (\<lambda>h. h\<lparr>ht_is_active := False\<rparr>)"

definition reactivate_hat :: "int \<Rightarrow> db \<Rightarrow> db" where
  "reactivate_hat i = set_hat i (\<lambda>h. h\<lparr>ht_is_active := True\<rparr>)"

definition update_hat :: "int \<Rightarrow> string \<Rightarrow> string \<Rightarrow> string \<Rightarrow> db \<Rightarrow> (db_error + unit) \<times> db" where
  "update_hat i name org link d =
     (case tbl_get (db_hats d) i of
        None \<Rightarrow> (Inr (), d)
      | Some h \<Rightarrow>
          if tbl_find (\<lambda>k q. k \<noteq> i \<and> same_hat (ht_user_id h) name org q) (db_hats d) \<noteq> None
          then (Inl Constraint_failed, d)
          else (Inr (), set_hat i (\<lambda>h. h\<lparr>ht_name := name, ht_organization := org, ht_link := Some link\<rparr>) d))"

definition get_all_hats :: "db \<Rightarrow> hat list" where
  "get_all_hats d = map (\<lambda>(i, h). hat_of_row i h (username_of d (Some (ht_user_id h))))
     (sort_key (\<lambda>(i, h). - ht_granted_at h)
       (tbl_select (\<lambda>_ h. tbl_get (db_users d) (ht_user_id h) \<noteq> None) (db_hats d)))"

subsection \<open>Posts\<close>

record tag =
  tr_id :: int
  tr_name :: string
  tr_description :: string
  tr_creator_id :: "int option"
  tr_created_at :: "int option"
  tr_is_active :: bool

definition tag_of_row :: "int \<Rightarrow> tag_row \<Rightarrow> tag" where
  "tag_of_row i t = \<lparr>tr_id = i, tr_name = tg_name t, tr_description = tg_description t,
     tr_creator_id = tg_creator_id t, tr_created_at = tg_created_at t, tr_is_active = tg_is_active t\<rparr>"

record post =
  pr_id :: int
  pr_user_id :: int
  pr_title :: string
  pr_url :: string
  pr_body :: string
  pr_created_at :: int
  pr_updated_at :: int
  pr_score :: int
  pr_is_deleted :: bool
  pr_source_type :: string
  pr_source_id :: "int option"
  pr_hat_id :: "int option"
  pr_username :: string
  pr_tags :: "tag list"
  pr_comment_count :: int
  pr_user_voted :: bool
  pr_hat :: "hat option"

definition get_post_tags :: "db \<Rightarrow> int \<Rightarrow> tag list" where
  "get_post_tags d i = concat (map (\<lambda>(p, t). if p \<noteq> i then []
     else (case tbl_get (db_tags d) t of None \<Rightarrow> [] | Some r \<Rightarrow> [tag_of_row t r])) (db_post_tags d))"

definition hat_of :: "db \<Rightarrow> int option \<Rightarrow> hat option" where
  "hat_of d i = (case i of None \<Rightarrow> None
     | Some k \<Rightarrow> (case get_hat_by_id d k of Inl _ \<Rightarrow> None | Inr h \<Rightarrow> Some h))"

text \<open>What a vote is for: a row of \<open>db_votes\<close> refers to a post or to a comment.\<close>

datatype vote_target = Post_target | Comment_target

definition vote_ref :: "vote_target \<Rightarrow> vote_row \<Rightarrow> int option" where
  "vote_ref t r = (case t of Post_target \<Rightarrow> vt_post_id r | Comment_target \<Rightarrow> vt_comment_id r)"

definition vote_on :: "vote_target \<Rightarrow> int \<Rightarrow> int \<Rightarrow> vote_row \<Rightarrow> bool" where
  "vote_on t u i r \<longleftrightarrow> vt_user_id r = u \<and> vote_ref t r = Some i"

definition has_voted :: "db \<Rightarrow> int \<Rightarrow> int \<Rightarrow> vote_target \<Rightarrow> bool" where
  "has_voted d u i t \<longleftrightarrow> tbl_count (\<lambda>_ r. vote_on t u i r) (db_votes d) > 0"

definition get_post_by_id :: "db \<Rightarrow> int \<Rightarrow> int option \<Rightarrow> db_error + post" where
  "get_post_by_id d i viewer =
     (case tbl_get (db_posts d) i of
        None \<Rightarrow> Inl Post_not_found
      | Some p \<Rightarrow> (case tbl_get (db_users d) (po_user_id p) of
            None \<Rightarrow> Inl Post_not_found
          | Some u \<Rightarrow> Inr \<lparr>pr_id = i, pr_user_id = po_user_id p, pr_title = po_title p,
              pr_url = or_empty (po_url p), pr_body = or_empty (po_body p),
              pr_created_at = po_created_at p, pr_updated_at = po_updated_at p, pr_score = po_score p,
              pr_is_deleted = po_is_deleted p, pr_source_type = po_source_type p,
              pr_source_id = po_source_id p, pr_hat_id = po_hat_id p, pr_username = us_username u,
              pr_tags = get_post_tags d i,
              pr_comment_count = tbl_count (\<lambda>_ c. co_post_id c = i \<and> \<not> co_is_deleted c) (db_comments d),
              pr_user_voted = (case viewer of None \<Rightarrow> False | Some v \<Rightarrow> has_voted d v i Post_target),
              pr_hat = hat_of d (po_hat_id p)\<rparr>))"

text \<open>The loop that adds the tags of a new post; a tag named twice breaks the primary key.\<close>

fun add_post_tags :: "denv \<Rightarrow> int \<Rightarrow> int list \<Rightarrow> db \<Rightarrow> (db_error + unit) \<times> db" where
  "add_post_tags e i [] d = (Inr (), d)"
| "add_post_tags e i (t # ts) d =
     (if (i, t) \<in> set (db_post_tags d) \<or> \<not> fk_ok e (db_tags d) (Some t) \<or> \<not> fk_ok e (db_posts d) (Some i)
      then (Inl Constraint_failed, d)
      else add_post_tags e i ts (d\<lparr>db_post_tags := db_post_tags d @ [(i, t)]\<rparr>))"

definition create_post_full :: "denv \<Rightarrow> int \<Rightarrow> string \<Rightarrow> string \<Rightarrow> string \<Rightarrow> int list \<Rightarrow> string \<Rightarrow>
    int option \<Rightarrow> int option \<Rightarrow> int option \<Rightarrow> db \<Rightarrow> (db_error + post) \<times> db" where
  "create_post_full e u title url body tags src src_id hat created d =
     (if \<not> fk_ok e (db_users d) (Some u) \<or> \<not> fk_ok e (db_hats d) hat then (Inl Constraint_failed, d)
      else (let at = (case created of None \<Rightarrow> dv_now e | Some t \<Rightarrow> t) in
        (case tbl_insert \<lparr>po_user_id = u, po_title = title, po_url = Some url, po_body = Some body,
            po_created_at = at, po_updated_at = at, po_score = 0, po_is_deleted = False,
            po_source_type = src, po_source_id = src_id, po_hat_id = hat\<rparr> (db_posts d) of
          (i, t) \<Rightarrow> (case add_post_tags e i tags (d\<lparr>db_posts := t\<rparr>) of
              (Inl err, _) \<Rightarrow> (Inl err, d)
            | (Inr _, d') \<Rightarrow> (get_post_by_id d' i None, d')))))"

definition create_post_with_source_and_hat :: "denv \<Rightarrow> int \<Rightarrow> string \<Rightarrow> string \<Rightarrow> string \<Rightarrow> int list \<Rightarrow>
    string \<Rightarrow> int option \<Rightarrow> int option \<Rightarrow> db \<Rightarrow> (db_error + post) \<times> db" where
  "create_post_with_source_and_hat e u title url body tags src src_id hat =
     create_post_full e u title url body tags src src_id hat None"

definition create_post ::
  "denv \<Rightarrow> int \<Rightarrow> string \<Rightarrow> string \<Rightarrow> string \<Rightarrow> int list \<Rightarrow> db \<Rightarrow> (db_error + post) \<times> db" where
  "create_post e u title url body tags =
     create_post_with_source_and_hat e u title url body tags ''user'' None None"

definition set_post :: "int \<Rightarrow> (post_row \<Rightarrow> post_row) \<Rightarrow> db \<Rightarrow> db" where
  "set_post i f d = d\<lparr>db_posts := tbl_update (\<lambda>k _. k = i) f (db_posts d)\<rparr>"

definition update_post :: "denv \<Rightarrow> int \<Rightarrow> string \<Rightarrow> string \<Rightarrow> db \<Rightarrow> db" where
  "update_post e i title body =
     set_post i (\<lambda>p. p\<lparr>po_title := title, po_body := Some body, po_updated_at := dv_now e\<rparr>)"

definition update_post_with_revision ::
  "denv \<Rightarrow> int \<Rightarrow> int \<Rightarrow> string \<Rightarrow> string \<Rightarrow> string \<Rightarrow> string \<Rightarrow> db \<Rightarrow> (db_error + unit) \<times> db" where
  "update_post_with_revision e i editor old_title old_body title body d =
     (if \<not> fk_ok e (db_posts d) (Some i) \<or> \<not> fk_ok e (db_users d) (Some editor)
      then (Inl Constraint_failed, d)
      else (Inr (), update_post e i title body (d\<lparr>db_revisions := snd (tbl_insert
        \<lparr>rv_post_id = i, rv_user_id = editor, rv_title = old_title, rv_body = Some old_body,
         rv_created_at = dv_now e\<rparr> (db_revisions d))\<rparr>)))"

definition get_post_revisions :: "db \<Rightarrow> int \<Rightarrow> (int \<times> revision_row \<times> string) list" where
  "get_post_revisions d i = map (\<lambda>(k, r). (k, r, username_of d (Some (rv_user_id r))))
     (sort_key (\<lambda>(k, r). - rv_created_at r) (tbl_select (\<lambda>_ r. rv_post_id r = i
        \<and> tbl_get (db_users d) (rv_user_id r) \<noteq> None) (db_revisions d)))"

definition get_post_revision_count :: "db \<Rightarrow> int \<Rightarrow> int" where
  "get_post_revision_count d i = tbl_count (\<lambda>_ r. rv_post_id r = i) (db_revisions d)"

definition delete_post :: "int \<Rightarrow> db \<Rightarrow> db" where
  "delete_post i = set_post i (\<lambda>p. p\<lparr>po_is_deleted := True\<rparr>)"

subsection \<open>Votes\<close>

definition set_comment :: "int \<Rightarrow> (comment_row \<Rightarrow> comment_row) \<Rightarrow> db \<Rightarrow> db" where
  "set_comment i f d = d\<lparr>db_comments := tbl_update (\<lambda>k _. k = i) f (db_comments d)\<rparr>"

definition score_of :: "vote_target \<Rightarrow> db \<Rightarrow> int \<Rightarrow> int option" where
  "score_of t d i = (case t of
     Post_target \<Rightarrow> map_option po_score (tbl_get (db_posts d) i)
   | Comment_target \<Rightarrow> map_option co_score (tbl_get (db_comments d) i))"

definition add_score :: "vote_target \<Rightarrow> int \<Rightarrow> int \<Rightarrow> db \<Rightarrow> db" where
  "add_score t i k = (case t of
     Post_target \<Rightarrow> set_post i (\<lambda>p. p\<lparr>po_score := po_score p + k\<rparr>)
   | Comment_target \<Rightarrow> set_comment i (\<lambda>c. c\<lparr>co_score := co_score c + k\<rparr>))"

definition target_fk_ok :: "denv \<Rightarrow> vote_target \<Rightarrow> db \<Rightarrow> int \<Rightarrow> bool" where
  "target_fk_ok e t d i = (case t of
     Post_target \<Rightarrow> fk_ok e (db_posts d) (Some i) | Comment_target \<Rightarrow> fk_ok e (db_comments d) (Some i))"

definition new_vote :: "denv \<Rightarrow> int \<Rightarrow> int \<Rightarrow> vote_target \<Rightarrow> vote_row" where
  "new_vote e u i t = \<lparr>vt_user_id = u, vt_post_id = (if t = Post_target then Some i else None),
     vt_comment_id = (if t = Comment_target then Some i else None), vt_value = 1, vt_created_at = dv_now e\<rparr>"

definition toggle_vote ::
  "denv \<Rightarrow> int \<Rightarrow> int \<Rightarrow> vote_target \<Rightarrow> db \<Rightarrow> (db_error + int \<times> bool) \<times> db" where
  "toggle_vote e u i t d =
     (case tbl_find (\<lambda>_ r. vote_on t u i r) (db_votes d) of
        Some (k, _) \<Rightarrow>
          (let d' = add_score t i (-1) (d\<lparr>db_votes := tbl_delete (\<lambda>j _. j = k) (db_votes d)\<rparr>)
           in (case score_of t d' i of None \<Rightarrow> (Inl No_rows, d) | Some s \<Rightarrow> (Inr (s, False), d')))
      | None \<Rightarrow>
          if \<not> fk_ok e (db_users d) (Some u) \<or> \<not> target_fk_ok e t d i then (Inl Constraint_failed, d)
          else (let d' = add_score t i 1
                  (d\<lparr>db_votes := snd (tbl_insert (new_vote e u i t) (db_votes d))\<rparr>)
                in (case score_of t d' i of None \<Rightarrow> (Inl No_rows, d) | Some s \<Rightarrow> (Inr (s, True), d'))))"

definition vote_post :: "denv \<Rightarrow> int \<Rightarrow> int \<Rightarrow> db \<Rightarrow> (db_error + int \<times> bool) \<times> db" where
  "vote_post e u i = toggle_vote e u i Post_target"

definition vote_comment :: "denv \<Rightarrow> int \<Rightarrow> int \<Rightarrow> db \<Rightarrow> (db_error + int \<times> bool) \<times> db" where
  "vote_comment e u i = toggle_vote e u i Comment_target"

definition get_user_voted :: "db \<Rightarrow> int \<Rightarrow> vote_target \<Rightarrow> int list \<Rightarrow> int \<Rightarrow> bool" where
  "get_user_voted d u t ids i \<longleftrightarrow> i \<in> set ids \<and> tbl_find (\<lambda>_ r. vote_on t u i r) (db_votes d) \<noteq> None"

end
