(* ===== verification/Tags.thy ===== *)
theory Tags
  imports Posts GoStrconv
begin

text \<open>
  Tags: their hierarchy in the names, who may moderate them and create below them
  (\<^verbatim>\<open>tools/makhor/pkg/db/tags.go\<close>), and the lists of tags
  (\<^verbatim>\<open>tools/makhor/pkg/db/posts.go\<close>). Rows that an ORDER BY leaves tied come in the order
  of their keys.
\<close>

subsection \<open>LIKE\<close>

text \<open>
  The \<^verbatim>\<open>LIKE\<close> of the database: a percent sign for any text, an underscore for one
  character, letters A-Z without regard to case. An underscore is matched with one byte, which is a
  character in names, where only ASCII is let in; the texts searched in get no underscore from the
  program, only from a user.
\<close>

function like :: "string \<Rightarrow> string \<Rightarrow> bool" where
  "like [] s = (s = [])"
| "like (p # ps) [] = (p = CHR ''%'' \<and> like ps [])"
| "like (p # ps) (c # s) =
     (if p = CHR ''%'' then like ps (c # s) \<or> like (p # ps) s
      else if p = CHR ''_'' then like ps s
      else lower_char p = lower_char c \<and> like ps s)"
  by pat_completeness auto
termination by (relation "measure (\<lambda>(p, s). length p + length s)") auto

definition plain_pattern :: "string \<Rightarrow> bool" where
  "plain_pattern p \<longleftrightarrow> CHR ''%'' \<notin> set p \<and> CHR ''_'' \<notin> set p"

lemma like_any: "like ''%'' s"
  by (induction s) auto

lemma like_prefix:
  "plain_pattern p \<Longrightarrow> like (p @ ''%'') s \<longleftrightarrow> has_prefix (map lower_char s) (map lower_char p)"
proof (induction p arbitrary: s)
  case (Cons c p)
  then have c: "c \<noteq> CHR ''%''" "c \<noteq> CHR ''_''" "plain_pattern p" by (auto simp: plain_pattern_def)
  show ?case
  proof (cases s)
    case (Cons x xs)
    with Cons.IH [OF c(3)] c show ?thesis by auto
  qed (use c in simp)
qed (simp add: like_any)

lemma like_exact: "plain_pattern p \<Longrightarrow> like p s \<longleftrightarrow> map lower_char s = map lower_char p"
proof (induction p arbitrary: s)
  case (Cons c p)
  then have c: "c \<noteq> CHR ''%''" "c \<noteq> CHR ''_''" "plain_pattern p" by (auto simp: plain_pattern_def)
  show ?case
  proof (cases s)
    case (Cons x xs)
    with Cons.IH [OF c(3)] c show ?thesis by auto
  qed (use c in simp)
qed (auto split: list.splits)

subsection \<open>The tags and their owners\<close>

record tag_admin =
  tm_id :: int
  tm_tag_id :: int
  tm_user_id :: int
  tm_granted_by :: "int option"
  tm_granted_at :: int
  tm_username :: string
  tm_granted_by_name :: string

record owned_tag = tag +
  tr_creator_username :: string
  tr_admins :: "tag_admin list"

definition get_tag_admins :: "db \<Rightarrow> int \<Rightarrow> tag_admin list" where
  "get_tag_admins d i = map (\<lambda>(k, a). \<lparr>tm_id = k, tm_tag_id = ta_tag_id a, tm_user_id = ta_user_id a,
       tm_granted_by = ta_granted_by a, tm_granted_at = ta_granted_at a,
       tm_username = username_of d (Some (ta_user_id a)),
       tm_granted_by_name = username_of d (ta_granted_by a)\<rparr>)
     (sort_key (\<lambda>(k, a). ta_granted_at a) (tbl_select (\<lambda>_ a. ta_tag_id a = i
        \<and> tbl_get (db_users d) (ta_user_id a) \<noteq> None) (db_tag_admins d)))"

definition owned_tag_of_row :: "db \<Rightarrow> int \<Rightarrow> tag_row \<Rightarrow> owned_tag" where
  "owned_tag_of_row d i t = \<lparr>tr_id = i, tr_name = tg_name t, tr_description = tg_description t,
     tr_creator_id = tg_creator_id t, tr_created_at = tg_created_at t, tr_is_active = tg_is_active t,
     tr_creator_username = username_of d (tg_creator_id t), tr_admins = get_tag_admins d i\<rparr>"

definition get_tag_by_id :: "db \<Rightarrow> int \<Rightarrow> db_error + owned_tag" where
  "get_tag_by_id d i =
     (case tbl_get (db_tags d) i of None \<Rightarrow> Inl No_rows | Some t \<Rightarrow> Inr (owned_tag_of_row d i t))"

definition create_tag :: "denv \<Rightarrow> string \<Rightarrow> string \<Rightarrow> int \<Rightarrow> db \<Rightarrow> (db_error + owned_tag) \<times> db" where
  "create_tag e name desc creator d =
     (if tbl_find (\<lambda>_ t. tg_name t = name) (db_tags d) \<noteq> None \<or> \<not> fk_ok e (db_users d) (Some creator)
      then (Inl Constraint_failed, d)
      else (case tbl_insert \<lparr>tg_name = name, tg_description = desc, tg_creator_id = Some creator,
              tg_created_at = Some (dv_now e), tg_is_active = True\<rparr> (db_tags d) of
            (i, t) \<Rightarrow> (get_tag_by_id (d\<lparr>db_tags := t\<rparr>) i, d\<lparr>db_tags := t\<rparr>)))"

definition active_tag :: "db \<Rightarrow> string \<Rightarrow> (int \<times> tag_row) option" where
  "active_tag d name = tbl_find (\<lambda>_ t. tg_name t = name \<and> tg_is_active t) (db_tags d)"

definition get_tag_by_name_with_ownership :: "db \<Rightarrow> string \<Rightarrow> db_error + owned_tag" where
  "get_tag_by_name_with_ownership d name =
     (case active_tag d name of None \<Rightarrow> Inl No_rows | Some (i, t) \<Rightarrow> Inr (owned_tag_of_row d i t))"

definition get_tag_by_name :: "db \<Rightarrow> string \<Rightarrow> db_error + tag" where
  "get_tag_by_name d name =
     (case active_tag d name of None \<Rightarrow> Inl No_rows | Some (i, t) \<Rightarrow> Inr (tag_of_row i t))"

definition add_tag_admin :: "denv \<Rightarrow> int \<Rightarrow> int \<Rightarrow> int \<Rightarrow> db \<Rightarrow> (db_error + unit) \<times> db" where
  "add_tag_admin e t u by d =
     (if tbl_find (\<lambda>_ a. ta_tag_id a = t \<and> ta_user_id a = u) (db_tag_admins d) \<noteq> None then (Inr (), d)
      else if \<not> fk_ok e (db_tags d) (Some t) \<or> \<not> fk_ok e (db_users d) (Some u)
        \<or> \<not> fk_ok e (db_users d) (Some by) then (Inl Constraint_failed, d)
      else (Inr (), d\<lparr>db_tag_admins := snd (tbl_insert \<lparr>ta_tag_id = t, ta_user_id = u,
        ta_granted_by = Some by, ta_granted_at = dv_now e\<rparr> (db_tag_admins d))\<rparr>))"

definition remove_tag_admin :: "int \<Rightarrow> int \<Rightarrow> db \<Rightarrow> db" where
  "remove_tag_admin t u d =
     d\<lparr>db_tag_admins := tbl_delete (\<lambda>_ a. ta_tag_id a = t \<and> ta_user_id a = u) (db_tag_admins d)\<rparr>"

subsection \<open>Rights\<close>

definition is_site_admin :: "db \<Rightarrow> int \<Rightarrow> bool" where
  "is_site_admin d u = (case tbl_get (db_users d) u of None \<Rightarrow> False | Some r \<Rightarrow> us_is_admin r)"

definition is_tag_creator :: "db \<Rightarrow> int \<Rightarrow> int \<Rightarrow> bool" where
  "is_tag_creator d t u \<longleftrightarrow> tbl_count (\<lambda>i r. i = t \<and> tg_creator_id r = Some u) (db_tags d) > 0"

definition is_tag_admin :: "db \<Rightarrow> int \<Rightarrow> int \<Rightarrow> bool" where
  "is_tag_admin d t u \<longleftrightarrow> tbl_count (\<lambda>_ a. ta_tag_id a = t \<and> ta_user_id a = u) (db_tag_admins d) > 0"

definition can_moderate_tag :: "db \<Rightarrow> int \<Rightarrow> int \<Rightarrow> bool" where
  "can_moderate_tag d t u =
     (if is_site_admin d u then True else if is_tag_creator d t u then True else is_tag_admin d t u)"

definition can_manage_tag_admins :: "db \<Rightarrow> int \<Rightarrow> int \<Rightarrow> bool" where
  "can_manage_tag_admins d t u = (if is_site_admin d u then True else is_tag_creator d t u)"

definition can_delete_tag :: "db \<Rightarrow> int \<Rightarrow> int \<Rightarrow> bool" where
  "can_delete_tag d t u = (if is_site_admin d u then True else is_tag_creator d t u)"

definition tag_exists :: "db \<Rightarrow> string \<Rightarrow> bool" where
  "tag_exists d name \<longleftrightarrow> tbl_count (\<lambda>_ t. tg_name t = name) (db_tags d) > 0"

text \<open>The loop runs down from the end of the name.\<close>

fun parent_from :: "string \<Rightarrow> nat \<Rightarrow> string" where
  "parent_from name 0 = []"
| "parent_from name (Suc i) =
     (if name ! i = CHR '':'' \<and> i > 0 \<and> name ! (i - 1) = CHR '':'' then take (i - 1) name
      else parent_from name i)"

definition get_parent_tag_name :: "string \<Rightarrow> string" where
  "get_parent_tag_name name = parent_from name (length name)"

lemma parent_from_length: "n \<le> length name \<Longrightarrow> parent_from name n = [] \<or> length (parent_from name n) < n"
  by (induction name n rule: parent_from.induct) auto

function can_create_subtag :: "db \<Rightarrow> string \<Rightarrow> int \<Rightarrow> bool" where
  "can_create_subtag d parent u =
     (if is_site_admin d u then True
      else (case get_tag_by_name d parent of
              Inl _ \<Rightarrow> False
            | Inr t \<Rightarrow>
                if is_tag_creator d (tr_id t) u \<or> is_tag_admin d (tr_id t) u then True
                else if get_parent_tag_name parent \<noteq> []
                then can_create_subtag d (get_parent_tag_name parent) u
                else False))"
  by pat_completeness auto
termination
proof (relation "measure (\<lambda>(d, parent, u). length parent)")
  fix d :: db and parent :: string and u :: int
  assume "get_parent_tag_name parent \<noteq> []"
  then show "((d, get_parent_tag_name parent, u), (d, parent, u)) \<in> measure (\<lambda>(d, parent, u). length parent)"
    using parent_from_length [of "length parent" parent] by (simp add: get_parent_tag_name_def)
qed simp

declare can_create_subtag.simps [simp del]

lemma parent_from_skip:
  "m \<le> n \<Longrightarrow> \<forall>i. m \<le> i \<longrightarrow> i < n \<longrightarrow> name ! i \<noteq> CHR '':'' \<Longrightarrow> parent_from name n = parent_from name m"
proof (induction n)
  case (Suc n)
  then show ?case by (cases "m = Suc n") auto
qed simp

lemma parent_of_root: "CHR '':'' \<notin> set s \<Longrightarrow> get_parent_tag_name s = []"
  using parent_from_skip [of 0 "length s" s] by (force simp: get_parent_tag_name_def in_set_conv_nth)

lemma parent_of_sub: "CHR '':'' \<notin> set s \<Longrightarrow> get_parent_tag_name (p @ ''::'' @ s) = p"
proof -
  assume s: "CHR '':'' \<notin> set s"
  let ?n = "p @ ''::'' @ s"
  have "?n ! i \<noteq> CHR '':''" if "Suc (Suc (length p)) \<le> i" "i < length ?n" for i
  proof -
    have "?n ! i = s ! (i - Suc (Suc (length p)))" using that(1)
      by (simp add: nth_append nth_Cons' Suc_diff_Suc numeral_2_eq_2)
    moreover have "i - Suc (Suc (length p)) < length s" using that by simp
    ultimately show ?thesis using s by (metis nth_mem)
  qed
  then have "parent_from ?n (length ?n) = parent_from ?n (Suc (Suc (length p)))"
    by (intro parent_from_skip) auto
  also have "\<dots> = p" by (simp add: nth_append)
  finally show ?thesis by (simp add: get_parent_tag_name_def)
qed

lemma join_snoc: "ws \<noteq> [] \<Longrightarrow> join_with sep (ws @ [w]) = join_with sep ws @ sep @ w"
  by (induction sep ws rule: join_with.induct) auto

lemma join_not_Nil: "ws \<noteq> [] \<Longrightarrow> [] \<notin> set ws \<Longrightarrow> join_with sep ws \<noteq> []"
  by (cases ws rule: remdups_adj.cases) auto

text \<open>
  The tag that the first \<open>n\<close> words of a name are the name of, and whether a user is its creator or
  one of its administrators.
\<close>

definition tag_path :: "string list \<Rightarrow> nat \<Rightarrow> string" where
  "tag_path ws n = join_with ''::'' (take n ws)"

definition owns_tag :: "db \<Rightarrow> string \<Rightarrow> int \<Rightarrow> bool" where
  "owns_tag d name u = (case active_tag d name of None \<Rightarrow> False
     | Some (i, t) \<Rightarrow> is_tag_creator d i u \<or> is_tag_admin d i u)"

definition tag_words :: "string list \<Rightarrow> bool" where
  "tag_words ws \<longleftrightarrow> ws \<noteq> [] \<and> (\<forall>w\<in>set ws. w \<noteq> [] \<and> CHR '':'' \<notin> set w)"

lemma can_create_step:
  "can_create_subtag d name u \<longleftrightarrow> is_site_admin d u \<or> active_tag d name \<noteq> None \<and>
     (owns_tag d name u \<or> get_parent_tag_name name \<noteq> [] \<and> can_create_subtag d (get_parent_tag_name name) u)"
  by (subst can_create_subtag.simps)
    (auto simp: owns_tag_def get_tag_by_name_def tag_of_row_def split: option.splits prod.splits)

lemma all_up_to_Suc: "n \<le> k \<Longrightarrow> (\<forall>m. n \<le> m \<longrightarrow> m \<le> Suc k \<longrightarrow> P m) \<longleftrightarrow> (\<forall>m. n \<le> m \<longrightarrow> m \<le> k \<longrightarrow> P m) \<and> P (Suc k)"
  by (metis le_SucE le_SucI le_refl)

text \<open>
  The right to create below a tag is inherited: a user who is not a site administrator may create a
  subtag of a tag exactly if the user is the creator or an administrator of that tag or of one of the
  tags above it, and the tags from there down to the parent are all active.
\<close>

theorem subtag_rights:
  assumes "tag_words ws"
  shows "can_create_subtag d (join_with ''::'' ws) u \<longleftrightarrow> is_site_admin d u \<or>
     (\<exists>n. 0 < n \<and> n \<le> length ws \<and> owns_tag d (tag_path ws n) u
        \<and> (\<forall>m. n \<le> m \<longrightarrow> m \<le> length ws \<longrightarrow> active_tag d (tag_path ws m) \<noteq> None))"
  using assms
proof (induction ws rule: rev_induct)
  case (snoc w ws)
  let ?name = "join_with ''::'' (ws @ [w])"
  have w: "w \<noteq> []" "CHR '':'' \<notin> set w" using snoc.prems by (simp_all add: tag_words_def)
  have top: "tag_path (ws @ [w]) (Suc (length ws)) = ?name" by (simp add: tag_path_def)
  have low: "tag_path (ws @ [w]) n = tag_path ws n" if "n \<le> length ws" for n using that by (simp add: tag_path_def)
  let ?R = "\<lambda>n. owns_tag d (tag_path (ws @ [w]) n) u
     \<and> (\<forall>m. n \<le> m \<longrightarrow> m \<le> Suc (length ws) \<longrightarrow> active_tag d (tag_path (ws @ [w]) m) \<noteq> None)"
  let ?Q = "\<lambda>n. owns_tag d (tag_path ws n) u
     \<and> (\<forall>m. n \<le> m \<longrightarrow> m \<le> length ws \<longrightarrow> active_tag d (tag_path ws m) \<noteq> None)"
  have R: "?R n \<longleftrightarrow> ?Q n \<and> active_tag d ?name \<noteq> None" if "n \<le> length ws" for n
    unfolding all_up_to_Suc [OF that] top low [OF that] using low by auto
  have Rtop: "?R (Suc (length ws)) \<longleftrightarrow> owns_tag d ?name u \<and> active_tag d ?name \<noteq> None"
    using top by (auto dest: le_antisym)
  have E: "(\<exists>n. 0 < n \<and> n \<le> length ws \<and> ?R n) \<longleftrightarrow>
      active_tag d ?name \<noteq> None \<and> (\<exists>n. 0 < n \<and> n \<le> length ws \<and> ?Q n)"
    using R by (simp only: conj_ac cong: conj_cong) blast
  have split: "(\<exists>n. 0 < n \<and> n \<le> Suc (length ws) \<and> ?R n) \<longleftrightarrow>
      ?R (Suc (length ws)) \<or> (\<exists>n. 0 < n \<and> n \<le> length ws \<and> ?R n)"
    by (auto simp: le_Suc_eq)
  have below: "get_parent_tag_name ?name \<noteq> [] \<and> can_create_subtag d (get_parent_tag_name ?name) u
      \<longleftrightarrow> ws \<noteq> [] \<and> can_create_subtag d (join_with ''::'' ws) u"
  proof (cases "ws = []")
    case True
    with w parent_of_root show ?thesis by simp
  next
    case False
    then have "join_with ''::'' ws \<noteq> []" using snoc.prems by (intro join_not_Nil) (auto simp: tag_words_def)
    with False show ?thesis using parent_of_sub [OF w(2)] by (simp add: join_snoc)
  qed
  have ih: "ws \<noteq> [] \<Longrightarrow> can_create_subtag d (join_with ''::'' ws) u \<longleftrightarrow>
      is_site_admin d u \<or> (\<exists>n. 0 < n \<and> n \<le> length ws \<and> ?Q n)"
    using snoc by (simp add: tag_words_def)
  show ?case
  proof (cases "is_site_admin d u")
    case True
    then show ?thesis by (subst can_create_step) simp
  next
    case False
    have "can_create_subtag d ?name u \<longleftrightarrow> active_tag d ?name \<noteq> None
        \<and> (owns_tag d ?name u \<or> ws \<noteq> [] \<and> can_create_subtag d (join_with ''::'' ws) u)"
      using False by (subst can_create_step) (simp only: below simp_thms)
    also have "\<dots> \<longleftrightarrow> ?R (Suc (length ws)) \<or> (\<exists>n. 0 < n \<and> n \<le> length ws \<and> ?R n)"
      unfolding Rtop E using ih False by (cases "ws = []") auto
    finally show ?thesis using False split by (simp only: length_append_singleton simp_thms)
  qed
qed (simp add: tag_words_def)

text \<open>A tag administered by the second user, and a tag of the first user below it.\<close>

definition plain_user :: "string \<Rightarrow> user_row" where
  "plain_user name = \<lparr>us_username = name, us_email = name @ ''@x'', us_created_at = 0, us_invited_by = None,
     us_is_admin = False, us_is_banned = False, us_about = [], us_avatar = None, us_avatar_type = None,
     us_ban_reason = [], us_ban_expires_at = None, us_banned_by = None\<rparr>"

definition plain_tag :: "string \<Rightarrow> tag_row" where
  "plain_tag name = \<lparr>tg_name = name, tg_description = [], tg_creator_id = Some 1, tg_created_at = None, tg_is_active = True\<rparr>"

definition tag_board :: db where
  "tag_board = empty_db\<lparr>db_users := (2, [(1, plain_user ''a''), (2, plain_user ''b'')]),
     db_tags := (2, [(1, plain_tag ''go''), (2, plain_tag ''go::web'')]),
     db_tag_admins := (1, [(1, \<lparr>ta_tag_id = 1, ta_user_id = 2, ta_granted_by = Some 1, ta_granted_at = 0\<rparr>)])\<rparr>"

lemma subtag_rights_witness:
  "can_create_subtag tag_board ''go::web'' 2 \<and> \<not> owns_tag tag_board ''go::web'' 2"
proof -
  have w: "tag_words [''go'', ''web'']" "join_with ''::'' [''go'', ''web''] = ''go::web''"
    by (simp_all add: tag_words_def)
  have o: "owns_tag tag_board (tag_path [''go'', ''web''] 1) 2" by code_simp
  have "active_tag tag_board (tag_path [''go'', ''web''] 1) \<noteq> None" "active_tag tag_board (tag_path [''go'', ''web''] 2) \<noteq> None"
    by code_simp+
  then have a: "active_tag tag_board (tag_path [''go'', ''web''] m) \<noteq> None" if "1 \<le> m" "m \<le> 2" for m
    using that by (metis le_antisym not_less_eq_eq numeral_2_eq_2 One_nat_def)
  have "\<not> owns_tag tag_board ''go::web'' 2" by code_simp
  moreover have "can_create_subtag tag_board ''go::web'' 2"
    unfolding w(2) [symmetric] subtag_rights [OF w(1)] using o a
    by (intro disjI2 exI [of _ 1]) simp
  ultimately show ?thesis by blast
qed

subsection \<open>Changes\<close>

text \<open>The root user, the first administrator, becomes the creator of the tags without one.\<close>

definition first_admin :: "db \<Rightarrow> int option" where
  "first_admin d = map_option fst (tbl_find (\<lambda>_ r. us_is_admin r) (db_users d))"

definition seed_tag_creators :: "db \<Rightarrow> db" where
  "seed_tag_creators d = (case first_admin d of None \<Rightarrow> d
     | Some u \<Rightarrow> d\<lparr>db_tags := tbl_update (\<lambda>_ t. tg_creator_id t = None)
         (\<lambda>t. t\<lparr>tg_creator_id := Some u\<rparr>) (db_tags d)\<rparr>)"

definition remove_tag_from_post :: "int \<Rightarrow> int \<Rightarrow> db \<Rightarrow> db" where
  "remove_tag_from_post p t d = d\<lparr>db_post_tags := filter (\<lambda>x. x \<noteq> (p, t)) (db_post_tags d)\<rparr>"

definition update_tag_description :: "int \<Rightarrow> string \<Rightarrow> db \<Rightarrow> db" where
  "update_tag_description t desc d =
     d\<lparr>db_tags := tbl_update (\<lambda>i _. i = t) (\<lambda>r. r\<lparr>tg_description := desc\<rparr>) (db_tags d)\<rparr>"

definition get_post_tag_ids :: "db \<Rightarrow> int \<Rightarrow> int list" where
  "get_post_tag_ids d p = map snd (filter (\<lambda>(i, t). i = p) (db_post_tags d))"

definition delete_tag :: "denv \<Rightarrow> int \<Rightarrow> db \<Rightarrow> db" where
  "delete_tag e t d =
     (let d = d\<lparr>db_post_tags := filter (\<lambda>(p, k). k \<noteq> t) (db_post_tags d)\<rparr>;
          d = delete_feeds e (\<lambda>_ f. fd_tag_id f = t) d;
          d = d\<lparr>db_tag_admins := tbl_delete (\<lambda>_ a. ta_tag_id a = t) (db_tag_admins d)\<rparr>
      in d\<lparr>db_tags := tbl_update (\<lambda>i _. i = t) (\<lambda>r. r\<lparr>tg_is_active := False\<rparr>) (db_tags d)\<rparr>)"

subsection \<open>Lists of tags\<close>

definition get_tag_post_count :: "db \<Rightarrow> int \<Rightarrow> int" where
  "get_tag_post_count d t = int (length (filter (\<lambda>(p, k). k = t) (db_post_tags d)))"

definition get_tag_child_count :: "db \<Rightarrow> string \<Rightarrow> int" where
  "get_tag_child_count d name = tbl_count (\<lambda>_ t. like (name @ ''::%'') (tg_name t) \<and> tg_is_active t) (db_tags d)"

definition tags_by_name :: "(int \<Rightarrow> tag_row \<Rightarrow> bool) \<Rightarrow> db \<Rightarrow> (int \<times> tag_row) list" where
  "tags_by_name P d = sort_key (\<lambda>(i, t). tg_name t) (tbl_select (\<lambda>i t. P i t \<and> tg_is_active t) (db_tags d))"

definition get_all_tags :: "db \<Rightarrow> tag list" where
  "get_all_tags d = map (\<lambda>(i, t). tag_of_row i t) (tags_by_name (\<lambda>_ _. True) d)"

record tag_with_count = tag +
  tc_post_count :: int
  tc_subtag_count :: int
  tc_creator_username :: string

definition counted_tag :: "db \<Rightarrow> int \<Rightarrow> tag_row \<Rightarrow> int \<Rightarrow> int \<Rightarrow> tag_with_count" where
  "counted_tag d i t posts subtags = \<lparr>tr_id = i, tr_name = tg_name t, tr_description = tg_description t,
     tr_creator_id = tg_creator_id t, tr_created_at = tg_created_at t, tr_is_active = tg_is_active t,
     tc_post_count = posts, tc_subtag_count = subtags,
     tc_creator_username = username_of d (tg_creator_id t)\<rparr>"

definition live_post :: "db \<Rightarrow> int \<Rightarrow> bool" where
  "live_post d p = (case tbl_get (db_posts d) p of None \<Rightarrow> False | Some r \<Rightarrow> \<not> po_is_deleted r)"

text \<open>The posts that carry a tag whose name is fitting, once each.\<close>

definition posts_tagged :: "db \<Rightarrow> (tag_row \<Rightarrow> bool) \<Rightarrow> int list" where
  "posts_tagged d P = remdups (map fst (filter (\<lambda>(p, t). live_post d p
     \<and> (case tbl_get (db_tags d) t of None \<Rightarrow> False | Some r \<Rightarrow> P r)) (db_post_tags d)))"

definition tag_or_below :: "string \<Rightarrow> string \<Rightarrow> bool" where
  "tag_or_below name n \<longleftrightarrow> n = name \<or> like (name @ ''::%'') n"

text \<open>The counts by name, of the tags that have a post.\<close>

definition post_counts :: "db \<Rightarrow> (string \<times> int) list" where
  "post_counts d = filter (\<lambda>(n, c). c > 0) (map (\<lambda>(i, t). (tg_name t,
     int (length (posts_tagged d (\<lambda>r. tg_name r = tg_name t \<and> tg_is_active r))))) (tbl_select (\<lambda>_ t. tg_is_active t) (db_tags d)))"

definition get_all_tags_with_counts :: "db \<Rightarrow> tag_with_count list" where
  "get_all_tags_with_counts d =
     (let counts = post_counts d in
      map (\<lambda>(i, t). counted_tag d i t
        ((case map_of counts (tg_name t) of None \<Rightarrow> 0 | Some c \<Rightarrow> c)
         + sum_list (map snd (filter (\<lambda>(n, c). has_prefix n (tg_name t @ ''::'')) counts))) 0)
       (tags_by_name (\<lambda>_ _. True) d))"

definition get_child_tags :: "db \<Rightarrow> string \<Rightarrow> tag_with_count list" where
  "get_child_tags d parent = map (\<lambda>(i, t). counted_tag d i t
       (int (length (posts_tagged d (\<lambda>r. tag_or_below (tg_name t) (tg_name r))))) 0)
     (tags_by_name (\<lambda>_ t. like (parent @ ''::%'') (tg_name t) \<and> \<not> like (parent @ ''::_%::%'') (tg_name t)) d)"

definition get_root_tags :: "db \<Rightarrow> tag_with_count list" where
  "get_root_tags d = map (\<lambda>(i, t). counted_tag d i t
       (int (length (posts_tagged d (\<lambda>r. tag_or_below (tg_name t) (tg_name r)))))
       (tbl_count (\<lambda>_ q. tg_is_active q \<and> like (tg_name t @ ''::%'') (tg_name q)
          \<and> \<not> like (tg_name t @ ''::_%::%'') (tg_name q)) (db_tags d)))
     (tags_by_name (\<lambda>_ t. \<not> like ''%::%'' (tg_name t)) d)"

end
