(* ===== verification/Listings.thy ===== *)
theory Listings
  imports Tags Comments Complex_Main
begin

text \<open>
  The paged lists of posts (\<^verbatim>\<open>tools/makhor/pkg/db/posts.go\<close>): by date, by score, by
  tag, by domain, by user, and the search by title. The text of each query is its condition on a post,
  its order and its page. The domain shown with an address is left out, as in the posts of
  \<^verbatim>\<open>GetPostByID\<close>. A page size is not negative: the program asks with constants and with
  sizes it has cut to a range.
\<close>

subsection \<open>Rows into posts\<close>

record listed_post = post +
  pr_source_name :: string

definition get_tags_for_posts :: "db \<Rightarrow> int list \<Rightarrow> int \<Rightarrow> tag list" where
  "get_tags_for_posts d ks i = (if i \<notin> set ks then []
     else map (\<lambda>(t, r). tag_of_row t r) (sort_key (\<lambda>(t, r). tg_name r) (concat (map (\<lambda>(p, t).
       if p \<noteq> i then [] else (case tbl_get (db_tags d) t of None \<Rightarrow> [] | Some r \<Rightarrow> [(t, r)])) (db_post_tags d)))))"

definition get_hats_for_posts :: "db \<Rightarrow> int list \<Rightarrow> int \<Rightarrow> hat option" where
  "get_hats_for_posts d ks i = (if i \<notin> set ks then None
     else (case tbl_get (db_posts d) i of None \<Rightarrow> None | Some p \<Rightarrow> hat_of d (po_hat_id p)))"

text \<open>The feed a post came from is joined in for the posts of feeds.\<close>

definition source_name :: "db \<Rightarrow> post_row \<Rightarrow> string" where
  "source_name d p = (case po_source_id p of None \<Rightarrow> []
     | Some f \<Rightarrow> if po_source_type p \<noteq> ''rss'' then []
         else (case tbl_get (db_feeds d) f of None \<Rightarrow> [] | Some r \<Rightarrow> fd_title r))"

definition listed_row :: "db \<Rightarrow> int \<Rightarrow> post_row \<Rightarrow> listed_post" where
  "listed_row d i p = \<lparr>pr_id = i, pr_user_id = po_user_id p, pr_title = po_title p,
     pr_url = or_empty (po_url p), pr_body = or_empty (po_body p), pr_created_at = po_created_at p,
     pr_updated_at = po_updated_at p, pr_score = po_score p, pr_is_deleted = po_is_deleted p,
     pr_source_type = [], pr_source_id = None, pr_hat_id = None,
     pr_username = username_of d (Some (po_user_id p)), pr_tags = [],
     pr_comment_count = tbl_count (\<lambda>_ c. co_post_id c = i \<and> \<not> co_is_deleted c) (db_comments d),
     pr_user_voted = False, pr_hat = None, pr_source_name = []\<rparr>"

text \<open>What is loaded for the posts of a page at once.\<close>

definition load_posts :: "db \<Rightarrow> int option \<Rightarrow> listed_post list \<Rightarrow> listed_post list" where
  "load_posts d viewer ps =
     (let ks = map pr_id ps;
          ps = map (\<lambda>p. p\<lparr>pr_tags := get_tags_for_posts d ks (pr_id p)\<rparr>) ps;
          ps = (case viewer of None \<Rightarrow> ps
            | Some v \<Rightarrow> map (\<lambda>p. p\<lparr>pr_user_voted := get_user_voted d v Post_target ks (pr_id p)\<rparr>) ps)
      in map (\<lambda>p. p\<lparr>pr_hat := get_hats_for_posts d ks (pr_id p)\<rparr>) ps)"

definition scan_posts :: "db \<Rightarrow> int option \<Rightarrow> (int \<times> post_row) list \<Rightarrow> listed_post list" where
  "scan_posts d viewer rows = load_posts d viewer (map (\<lambda>(i, p). listed_row d i p) rows)"

definition scan_posts_with_source :: "db \<Rightarrow> int option \<Rightarrow> (int \<times> post_row) list \<Rightarrow> listed_post list" where
  "scan_posts_with_source d viewer rows = load_posts d viewer (map (\<lambda>(i, p). (listed_row d i p)
     \<lparr>pr_source_type := po_source_type p, pr_source_id := po_source_id p, pr_source_name := source_name d p\<rparr>) rows)"

subsection \<open>Queries\<close>

definition post_rows_of :: "(int \<Rightarrow> post_row \<Rightarrow> bool) \<Rightarrow> db \<Rightarrow> (int \<times> post_row) list" where
  "post_rows_of P d = tbl_select (\<lambda>i p. tbl_get (db_users d) (po_user_id p) \<noteq> None \<and> P i p) (db_posts d)"

definition count_posts :: "(int \<Rightarrow> post_row \<Rightarrow> bool) \<Rightarrow> db \<Rightarrow> int" where
  "count_posts P d = tbl_count P (db_posts d)"

definition newest_first :: "(int \<times> post_row) list \<Rightarrow> (int \<times> post_row) list" where
  "newest_first = sort_key (\<lambda>(i, p). - po_created_at p)"

text \<open>By score, and by date where the scores are the same.\<close>

definition best_first :: "(int \<times> post_row) list \<Rightarrow> (int \<times> post_row) list" where
  "best_first rows = sort_key (\<lambda>(i, p). - po_score p) (newest_first rows)"

definition has_tag :: "db \<Rightarrow> int \<Rightarrow> bool" where
  "has_tag d i \<longleftrightarrow> list_ex (\<lambda>(p, t). p = i) (db_post_tags d)"

text \<open>Posts without a tag are hidden unless the user is the author or an administrator.\<close>

definition tag_filter :: "db \<Rightarrow> int option \<Rightarrow> bool \<Rightarrow> int \<Rightarrow> post_row \<Rightarrow> bool" where
  "tag_filter d viewer admin i p \<longleftrightarrow> admin \<or> has_tag d i \<or> viewer = Some (po_user_id p)"

definition in_tag_tree :: "db \<Rightarrow> string \<Rightarrow> int \<Rightarrow> bool" where
  "in_tag_tree d name i \<longleftrightarrow> list_ex (\<lambda>(p, t). p = i \<and>
     (case tbl_get (db_tags d) t of None \<Rightarrow> False | Some r \<Rightarrow> tag_or_below name (tg_name r))) (db_post_tags d)"

definition get_posts :: "db \<Rightarrow> int \<Rightarrow> int \<Rightarrow> string \<Rightarrow> int option \<Rightarrow> bool \<Rightarrow> listed_post list \<times> int" where
  "get_posts d page per_page tag viewer admin =
     (let P = (\<lambda>i p. \<not> po_is_deleted p \<and>
            (if tag \<noteq> [] then in_tag_tree d tag i else tag_filter d viewer admin i p))
      in (scan_posts_with_source d viewer (page_of page per_page (best_first (post_rows_of P d))), count_posts P d))"

text \<open>The address contains the domain, with or without a path and with or without \<^verbatim>\<open>www\<close>.\<close>

definition on_domain :: "string \<Rightarrow> post_row \<Rightarrow> bool" where
  "on_domain domain p = (case po_url p of None \<Rightarrow> False
     | Some url \<Rightarrow> url \<noteq> [] \<and> (like (''%://'' @ domain @ ''/%'') url \<or> like (''%://'' @ domain) url
         \<or> like (''%://www.'' @ domain @ ''/%'') url \<or> like (''%://www.'' @ domain) url))"

definition get_posts_by_domain ::
  "db \<Rightarrow> string \<Rightarrow> int \<Rightarrow> int \<Rightarrow> int option \<Rightarrow> bool \<Rightarrow> listed_post list \<times> int" where
  "get_posts_by_domain d domain page per_page viewer admin =
     (let P = (\<lambda>i p. \<not> po_is_deleted p \<and> on_domain domain p)
      in (scan_posts_with_source d viewer (page_of page per_page (newest_first (post_rows_of P d))), count_posts P d))"

text \<open>An instant some hours ago, which a query starts from unless the hours are zero.\<close>

definition since :: "denv \<Rightarrow> int \<Rightarrow> post_row \<Rightarrow> bool" where
  "since e hours p \<longleftrightarrow> (if hours > 0 then po_created_at p \<ge> dv_now e - hours * 3600 else True)"

text \<open>The orders a query by tag may ask for; another text counts as the first.\<close>

definition valid_order_by_clauses :: "string list" where
  "valid_order_by_clauses = [''p.created_at DESC'', ''p.score DESC, p.created_at DESC'', ''p.score DESC'']"

definition order_rows :: "string \<Rightarrow> (int \<times> post_row) list \<Rightarrow> (int \<times> post_row) list" where
  "order_rows order rows =
     (let order = (if order \<notin> set valid_order_by_clauses then ''p.created_at DESC'' else order) in
      if order = ''p.score DESC, p.created_at DESC'' then best_first rows
      else if order = ''p.score DESC'' then sort_key (\<lambda>(i, p). - po_score p) rows
      else newest_first rows)"

definition get_posts_by_tag ::
  "denv \<Rightarrow> db \<Rightarrow> int \<Rightarrow> int \<Rightarrow> string \<Rightarrow> int option \<Rightarrow> string \<Rightarrow> int \<Rightarrow> listed_post list \<times> int" where
  "get_posts_by_tag e d page per_page tag viewer order hours =
     (let P = (\<lambda>i p. \<not> po_is_deleted p \<and> in_tag_tree d tag i \<and> since e hours p)
      in (scan_posts_with_source d viewer (page_of page per_page (order_rows order (post_rows_of P d))), count_posts P d))"

definition get_posts_by_tag_newest ::
  "denv \<Rightarrow> db \<Rightarrow> int \<Rightarrow> int \<Rightarrow> string \<Rightarrow> int option \<Rightarrow> listed_post list \<times> int" where
  "get_posts_by_tag_newest e d page per_page tag viewer =
     get_posts_by_tag e d page per_page tag viewer ''p.created_at DESC'' 0"

definition get_posts_by_tag_top ::
  "denv \<Rightarrow> db \<Rightarrow> int \<Rightarrow> int \<Rightarrow> string \<Rightarrow> int \<Rightarrow> int option \<Rightarrow> listed_post list \<times> int" where
  "get_posts_by_tag_top e d page per_page tag hours viewer =
     get_posts_by_tag e d page per_page tag viewer ''p.score DESC, p.created_at DESC'' hours"

definition get_newest_posts :: "db \<Rightarrow> int \<Rightarrow> int \<Rightarrow> int option \<Rightarrow> bool \<Rightarrow> listed_post list \<times> int" where
  "get_newest_posts d page per_page viewer admin =
     (let P = (\<lambda>i p. \<not> po_is_deleted p \<and> tag_filter d viewer admin i p)
      in (scan_posts_with_source d viewer (page_of page per_page (newest_first (post_rows_of P d))), count_posts P d))"

definition get_user_posts :: "db \<Rightarrow> int \<Rightarrow> int \<Rightarrow> int \<Rightarrow> listed_post list \<times> int" where
  "get_user_posts d u page per_page =
     (let P = (\<lambda>i p. po_user_id p = u \<and> \<not> po_is_deleted p)
      in (scan_posts d None (page_of page per_page (newest_first (post_rows_of P d))), count_posts P d))"

definition get_top_posts ::
  "denv \<Rightarrow> db \<Rightarrow> int \<Rightarrow> int \<Rightarrow> int \<Rightarrow> int option \<Rightarrow> bool \<Rightarrow> listed_post list \<times> int" where
  "get_top_posts e d page per_page hours viewer admin =
     (let P = (\<lambda>i p. \<not> po_is_deleted p \<and> since e hours p \<and> tag_filter d viewer admin i p)
      in (scan_posts_with_source d viewer (page_of page per_page (best_first (post_rows_of P d))), count_posts P d))"

text \<open>
  The rank of a hot post is its score by the age in hours plus two to the power of one and a half. Its
  square, with the sign of the score, gives the same order without a root: the exact order, not that of
  the rounded numbers of the database. A post dated two hours or more into the future has no rank (its
  power is not a number) and comes last.
\<close>

definition hot_rank :: "denv \<Rightarrow> post_row \<Rightarrow> rat option" where
  "hot_rank e p = (let age = dv_now e - po_created_at p + 7200 in
     if age \<le> 0 then None
     else Some (Fract (po_score p * \<bar>po_score p\<bar> * 3600 ^ 3) (age ^ 3)))"

definition hottest_first :: "denv \<Rightarrow> (int \<times> post_row) list \<Rightarrow> (int \<times> post_row) list" where
  "hottest_first e rows = sort_key (\<lambda>(i, p). case hot_rank e p of None \<Rightarrow> (1::int) | Some q \<Rightarrow> 0)
     (sort_key (\<lambda>(i, p). case hot_rank e p of None \<Rightarrow> 0 | Some q \<Rightarrow> - q) (newest_first rows))"

definition get_hot_posts :: "denv \<Rightarrow> db \<Rightarrow> int \<Rightarrow> int \<Rightarrow> int option \<Rightarrow> bool \<Rightarrow> listed_post list \<times> int" where
  "get_hot_posts e d page per_page viewer admin =
     (let P = (\<lambda>i p. \<not> po_is_deleted p \<and> since e 48 p \<and> tag_filter d viewer admin i p)
      in (scan_posts_with_source d viewer (page_of page per_page (hottest_first e (post_rows_of P d))), count_posts P d))"

definition search_posts :: "db \<Rightarrow> string \<Rightarrow> int \<Rightarrow> int \<Rightarrow> int option \<Rightarrow> listed_post list \<times> int" where
  "search_posts d query page per_page viewer =
     (let P = (\<lambda>i p. \<not> po_is_deleted p \<and> like (''%'' @ query @ ''%'') (po_title p))
      in (scan_posts d viewer (page_of page per_page (best_first (post_rows_of P d))), count_posts P d))"

definition get_posts_by_tags :: "db \<Rightarrow> string list \<Rightarrow> int \<Rightarrow> int \<Rightarrow> listed_post list" where
  "get_posts_by_tags d names page per_page =
     (if names = [] then []
      else scan_posts d None (page_of page per_page (newest_first (post_rows_of (\<lambda>i p. \<not> po_is_deleted p \<and>
        list_ex (\<lambda>(k, t). k = i \<and> (case tbl_get (db_tags d) t of None \<Rightarrow> False
          | Some r \<Rightarrow> tg_name r \<in> set names)) (db_post_tags d)) d))))"

subsection \<open>The lists of posts come in pages\<close>

text \<open>The total is counted without the authors, so it is right where every post has one.\<close>

definition authors_known :: "db \<Rightarrow> bool" where
  "authors_known d \<longleftrightarrow> (\<forall>i p. tbl_get (db_posts d) i = Some p \<longrightarrow> tbl_get (db_users d) (po_user_id p) \<noteq> None)"

definition pages_ok :: "db \<Rightarrow> bool" where
  "pages_ok d \<longleftrightarrow> tbl_ok (db_posts d) \<and> authors_known d \<and> int (length (snd (db_posts d))) < max_int64"

definition load_one :: "db \<Rightarrow> int option \<Rightarrow> int list \<Rightarrow> listed_post \<Rightarrow> listed_post" where
  "load_one d viewer ks p = (let p = p\<lparr>pr_tags := get_tags_for_posts d ks (pr_id p)\<rparr>;
     p = (case viewer of None \<Rightarrow> p
       | Some v \<Rightarrow> p\<lparr>pr_user_voted := get_user_voted d v Post_target ks (pr_id p)\<rparr>)
     in p\<lparr>pr_hat := get_hats_for_posts d ks (pr_id p)\<rparr>)"

lemma load_posts_one: "load_posts d viewer ps = map (load_one d viewer (map pr_id ps)) ps"
  by (cases viewer) (simp_all add: load_posts_def load_one_def Let_def)

lemma load_one_alone: "pr_id p \<in> set ks \<Longrightarrow> load_one d viewer ks p = load_one d viewer [pr_id p] p"
  by (cases viewer) (simp_all add: load_one_def Let_def get_tags_for_posts_def get_user_voted_def get_hats_for_posts_def)

lemma load_posts_map: "load_posts d viewer ps = map (\<lambda>p. load_one d viewer [pr_id p] p) ps"
  unfolding load_posts_one by (rule map_cong [OF refl], rule load_one_alone) simp

lemma load_one_id: "pr_id (load_one d viewer ks p) = pr_id p"
  by (cases viewer) (simp_all add: load_one_def Let_def)

lemma scan_page:
  "scan_posts d viewer (page_of k n rows) = page_of k n (scan_posts d viewer rows)"
  "scan_posts_with_source d viewer (page_of k n rows) = page_of k n (scan_posts_with_source d viewer rows)"
  by (simp_all add: scan_posts_def scan_posts_with_source_def load_posts_map page_of_map)

lemma scan_ids:
  "map pr_id (scan_posts d viewer rows) = map fst rows"
  "map pr_id (scan_posts_with_source d viewer rows) = map fst rows"
  by (simp_all add: scan_posts_def scan_posts_with_source_def load_posts_map load_one_id listed_row_def
    case_prod_unfold comp_def)

lemma scan_length:
  "length (scan_posts d viewer rows) = length rows" "length (scan_posts_with_source d viewer rows) = length rows"
  by (simp_all add: scan_posts_def scan_posts_with_source_def load_posts_map)

lemma post_rows_all: "pages_ok d \<Longrightarrow> post_rows_of P d = tbl_select P (db_posts d)"
  unfolding post_rows_of_def tbl_select_def
  by (rule filter_cong [OF refl]) (auto simp: pages_ok_def authors_known_def tbl_in_get)

lemma count_rows: "pages_ok d \<Longrightarrow> int (length (post_rows_of P d)) = count_posts P d"
  by (simp add: post_rows_all count_posts_def tbl_count_def)

lemma few_rows: "pages_ok d \<Longrightarrow> count_posts P d < max_int64"
  unfolding count_posts_def tbl_count_def tbl_select_def pages_ok_def
  using length_filter_le [of "\<lambda>(i, p). P i p" "snd (db_posts d)"] by linarith

lemma order_lengths:
  "length (newest_first rows) = length rows" "length (best_first rows) = length rows"
  "length (hottest_first e rows) = length rows" "length (order_rows order rows) = length rows"
  by (simp_all add: newest_first_def best_first_def hottest_first_def order_rows_def Let_def)

lemma order_sets:
  "set (newest_first rows) = set rows" "set (best_first rows) = set rows"
  "set (hottest_first e rows) = set rows" "set (order_rows order rows) = set rows"
  by (simp_all add: newest_first_def best_first_def hottest_first_def order_rows_def Let_def)

lemmas page_facts = scan_page scan_length count_rows few_rows order_lengths

interpretation newest_pages: paged_list "\<lambda>d k n. get_newest_posts d k n viewer admin"
  "\<lambda>d. scan_posts_with_source d viewer (newest_first (post_rows_of
     (\<lambda>i p. \<not> po_is_deleted p \<and> tag_filter d viewer admin i p) d))" pages_ok for viewer admin
  by unfold_locales (simp_all add: get_newest_posts_def Let_def page_facts)

interpretation top_pages: paged_list "\<lambda>d k n. get_top_posts e d k n hours viewer admin"
  "\<lambda>d. scan_posts_with_source d viewer (best_first (post_rows_of
     (\<lambda>i p. \<not> po_is_deleted p \<and> since e hours p \<and> tag_filter d viewer admin i p) d))" pages_ok for e hours viewer admin
  by unfold_locales (simp_all add: get_top_posts_def Let_def page_facts)

interpretation hot_pages: paged_list "\<lambda>d k n. get_hot_posts e d k n viewer admin"
  "\<lambda>d. scan_posts_with_source d viewer (hottest_first e (post_rows_of
     (\<lambda>i p. \<not> po_is_deleted p \<and> since e 48 p \<and> tag_filter d viewer admin i p) d))" pages_ok for e viewer admin
  by unfold_locales (simp_all add: get_hot_posts_def Let_def page_facts)

interpretation filtered_pages: paged_list "\<lambda>d k n. get_posts d k n tag viewer admin"
  "\<lambda>d. scan_posts_with_source d viewer (best_first (post_rows_of (\<lambda>i p. \<not> po_is_deleted p \<and>
     (if tag \<noteq> [] then in_tag_tree d tag i else tag_filter d viewer admin i p)) d))" pages_ok for tag viewer admin
  by unfold_locales (simp_all add: get_posts_def Let_def page_facts)

interpretation user_pages: paged_list "\<lambda>d k n. get_user_posts d u k n"
  "\<lambda>d. scan_posts d None (newest_first (post_rows_of (\<lambda>i p. po_user_id p = u \<and> \<not> po_is_deleted p) d))" pages_ok for u
  by unfold_locales (simp_all add: get_user_posts_def Let_def page_facts)

subsection \<open>Properties of the lists\<close>

lemma concat_ids: "concat (map (\<lambda>k. map pr_id (g k)) ks) = map pr_id (concat (map g ks))"
  by (simp add: map_concat comp_def)

lemma rows_ids:
  assumes "pages_ok d"
  shows "distinct (map fst (post_rows_of P d))" "sorted_wrt (<) (map fst (post_rows_of P d))"
    "fst ` set (post_rows_of P d) = {i. \<exists>p. tbl_get (db_posts d) i = Some p \<and> P i p}"
    "(i, p) \<in> set (post_rows_of P d) \<Longrightarrow> tbl_get (db_posts d) i = Some p"
proof -
  have ok: "tbl_ok (db_posts d)" using assms by (simp add: pages_ok_def)
  have r: "post_rows_of P d = filter (\<lambda>(i, p). P i p) (snd (db_posts d))"
    using post_rows_all [OF assms] by (simp add: tbl_select_def)
  show dist: "distinct (map fst (post_rows_of P d))" using ok by (simp add: r tbl_ok_def distinct_map_filter)
  have "sorted (map fst (post_rows_of P d))" using ok by (simp add: r tbl_ok_def sorted_filter)
  with dist show "sorted_wrt (<) (map fst (post_rows_of P d))" by (simp add: strict_sorted_iff)
  show "fst ` set (post_rows_of P d) = {i. \<exists>p. tbl_get (db_posts d) i = Some p \<and> P i p}"
    unfolding r using tbl_in_get [OF ok] by force
  show "(i, p) \<in> set (post_rows_of P d) \<Longrightarrow> tbl_get (db_posts d) i = Some p"
    unfolding r using tbl_in_get [OF ok] by auto
qed

lemma distinct_order:
  assumes "distinct (map fst rows)"
  shows "distinct (map fst (newest_first rows))" "distinct (map fst (best_first rows))"
  using assms by (simp_all add: newest_first_def best_first_def distinct_map distinct_sort)

text \<open>A post comes before another: it is newer, or as old and entered earlier.\<close>

definition post_date :: "db \<Rightarrow> int \<Rightarrow> int" where
  "post_date d i = (case tbl_get (db_posts d) i of None \<Rightarrow> 0 | Some p \<Rightarrow> po_created_at p)"

definition newer :: "db \<Rightarrow> int \<Rightarrow> int \<Rightarrow> bool" where
  "newer d i j \<longleftrightarrow> post_date d i > post_date d j \<or> post_date d i = post_date d j \<and> i < j"

lemma newest_sorted:
  assumes "pages_ok d"
  shows "sorted_wrt (newer d) (map fst (newest_first (post_rows_of P d)))"
proof -
  let ?rows = "newest_first (post_rows_of P d)"
  let ?f = "\<lambda>(i, p). - po_created_at p" 
  have "sorted_wrt (\<lambda>a b. ?f a < ?f b \<or> ?f a = ?f b \<and> fst a < fst b) ?rows"
    unfolding newest_first_def by (rule sort_key_stable_wrt [OF rows_ids(2) [OF assms]])
  moreover have "post_date d (fst a) = - ?f a" if "a \<in> set ?rows" for a
    using rows_ids(4) [OF assms, of "fst a" "snd a" P] that by (simp add: order_sets post_date_def case_prod_unfold)
  ultimately have "sorted_wrt (\<lambda>a b. newer d (fst a) (fst b)) ?rows"
    by (elim sorted_wrt_mono_rel [rotated]) (auto simp: newer_def)
  then show ?thesis by (simp add: sorted_wrt_map)
qed

text \<open>
  C39. The pages of the newest posts are complete: put together, from the first to the last page that
  the pagination counts, they list every post the viewer may see once, the newest first. A post may be
  seen if it is not deleted and has a tag, or is the viewer's own, or the viewer is an administrator.
\<close>

theorem newest_pages_complete:
  assumes "pages_ok d" "1 \<le> n" "n \<le> 100"
    "shown = concat (map (\<lambda>k. map pr_id (fst (get_newest_posts d k n viewer admin)))
       [1..pg_total_pages (new_pagination page n (snd (get_newest_posts d page n viewer admin)))])"
  shows "distinct shown \<and> sorted_wrt (newer d) shown \<and>
     set shown = {i. \<exists>p. tbl_get (db_posts d) i = Some p \<and> \<not> po_is_deleted p
       \<and> (admin \<or> has_tag d i \<or> viewer = Some (po_user_id p))}"
proof -
  let ?rows = "post_rows_of (\<lambda>i p. \<not> po_is_deleted p \<and> tag_filter d viewer admin i p) d"
  have s: "shown = map fst (newest_first ?rows)"
    unfolding assms(4) concat_ids newest_pages.pages_complete [OF assms(1-3)] scan_ids ..
  show ?thesis unfolding s
    using newest_sorted [OF assms(1)] distinct_order(1) [OF rows_ids(1) [OF assms(1)]]
    by (simp add: order_sets rows_ids(3) [OF assms(1)] tag_filter_def)
qed

text \<open>
  The list of a tag holds the posts of its whole subtree: put together, its pages list, once each,
  the posts that are not deleted and carry the tag or one whose name begins with its name and two
  colons.
\<close>

theorem tag_pages_complete:
  assumes "pages_ok d" "1 \<le> n" "n \<le> 100" "tag \<noteq> []" "plain_pattern tag" "map lower_char tag = tag"
    "\<forall>i r. tbl_get (db_tags d) i = Some r \<longrightarrow> map lower_char (tg_name r) = tg_name r"
    "shown = concat (map (\<lambda>k. map pr_id (fst (get_posts d k n tag viewer admin)))
       [1..pg_total_pages (new_pagination page n (snd (get_posts d page n tag viewer admin)))])"
  shows "distinct shown \<and> set shown = {i. \<exists>p t r. tbl_get (db_posts d) i = Some p \<and> \<not> po_is_deleted p
     \<and> (i, t) \<in> set (db_post_tags d) \<and> tbl_get (db_tags d) t = Some r
     \<and> (tg_name r = tag \<or> has_prefix (tg_name r) (tag @ ''::''))}"
proof -
  let ?rows = "post_rows_of (\<lambda>i p. \<not> po_is_deleted p \<and>
     (if tag \<noteq> [] then in_tag_tree d tag i else tag_filter d viewer admin i p)) d"
  have s: "shown = map fst (best_first ?rows)"
    unfolding assms(8) concat_ids filtered_pages.pages_complete [OF assms(1-3)] scan_ids ..
  have "plain_pattern (tag @ ''::'')" using assms(5) by (simp add: plain_pattern_def)
  from like_prefix [OF this] assms(6)
  have below: "like (tag @ ''::%'') m \<longleftrightarrow> has_prefix (map lower_char m) (tag @ ''::'')" for m
    by (simp add: lower_char_def is_upper_def)
  have "in_tag_tree d tag i \<longleftrightarrow> (\<exists>t r. (i, t) \<in> set (db_post_tags d) \<and> tbl_get (db_tags d) t = Some r
      \<and> (tg_name r = tag \<or> has_prefix (tg_name r) (tag @ ''::'')))" for i
    using assms(7) unfolding in_tag_tree_def tag_or_below_def below
    by (fastforce simp: list_ex_iff split: option.splits)
  then show ?thesis unfolding s
    using distinct_order(2) [OF rows_ids(1) [OF assms(1)]] assms(4)
    by (simp add: order_sets rows_ids(3) [OF assms(1)])
qed

text \<open>
  A board with two users, a tag with one below it, and four posts: two with a tag, one deleted, and one
  of the second user without a tag.
\<close>

definition plain_post :: "int \<Rightarrow> int \<Rightarrow> bool \<Rightarrow> post_row" where
  "plain_post u born del = \<lparr>po_user_id = u, po_title = ''t'', po_url = Some ''https://a.org/x'', po_body = None,
     po_created_at = born, po_updated_at = born, po_score = 0, po_is_deleted = del, po_source_type = ''user'',
     po_source_id = None, po_hat_id = None\<rparr>"

definition board :: db where
  "board = empty_db\<lparr>db_users := (2, [(1, plain_user ''a''), (2, plain_user ''b'')]),
     db_tags := (2, [(1, plain_tag ''go''), (2, plain_tag ''go::web'')]),
     db_posts := (4, [(1, plain_post 1 10 False), (2, plain_post 1 20 False), (3, plain_post 1 30 True), (4, plain_post 2 40 False)]),
     db_post_tags := [(1, 2), (2, 1), (3, 1)]\<rparr>"

lemma board_ok: "pages_ok board"
  by (simp add: pages_ok_def board_def tbl_ok_def authors_known_def tbl_get_def plain_post_def max_int64_def)

lemma board_posts: "tbl_get (db_posts board) i = (if i = 1 then Some (plain_post 1 10 False)
    else if i = 2 then Some (plain_post 1 20 False) else if i = 3 then Some (plain_post 1 30 True)
    else if i = 4 then Some (plain_post 2 40 False) else None)"
  by (simp add: board_def tbl_get_def)

text \<open>Two pages of one post each, and none of them the post without a tag.\<close>

lemma newest_pages_complete_witness:
  "map (\<lambda>k. map pr_id (fst (get_newest_posts board k 1 None False))) [1, 2] = [[2], [1]]
   \<and> set (concat (map (\<lambda>k. map pr_id (fst (get_newest_posts board k 1 None False))) [1, 2])) = {1, 2}"
proof -
  have n: "[1..pg_total_pages (new_pagination 1 1 (snd (get_newest_posts board 1 1 None False)))] = [1, 2]"
    by code_simp
  have v: "map (\<lambda>k. map pr_id (fst (get_newest_posts board k 1 None False))) [1, 2] = [[2], [1]]"
    by code_simp
  from newest_pages_complete [OF board_ok, of 1 _ None False 1] n
  have "set (concat (map (\<lambda>k. map pr_id (fst (get_newest_posts board k 1 None False))) [1, 2])) =
     {i. \<exists>p. tbl_get (db_posts board) i = Some p \<and> \<not> po_is_deleted p \<and> has_tag board i}" by simp
  also have "\<dots> = {1, 2}" unfolding board_posts
    by (auto simp: plain_post_def board_def has_tag_def split: if_splits)
  finally show ?thesis using v by (intro conjI)
qed

lemma tag_pages_complete_witness:
  "set (concat (map (\<lambda>k. map pr_id (fst (get_posts board k 30 ''go'' None False))) [1])) = {1, 2}"
proof -
  have n: "[1..pg_total_pages (new_pagination 1 30 (snd (get_posts board 1 30 ''go'' None False)))] = [1]"
    by code_simp
  have low: "\<forall>i r. tbl_get (db_tags board) i = Some r \<longrightarrow> map lower_char (tg_name r) = tg_name r"
    by (auto simp: board_def tbl_get_def plain_tag_def lower_char_def is_upper_def split: if_splits)
  have "plain_pattern ''go''" "map lower_char ''go'' = ''go''" by code_simp+
  from tag_pages_complete [OF board_ok, of 30 "''go''", OF _ _ _ this low refl, of None False 1] n
  have "set (concat (map (\<lambda>k. map pr_id (fst (get_posts board k 30 ''go'' None False))) [1])) =
     {i. \<exists>p t r. tbl_get (db_posts board) i = Some p \<and> \<not> po_is_deleted p \<and> (i, t) \<in> set (db_post_tags board)
        \<and> tbl_get (db_tags board) t = Some r \<and> (tg_name r = ''go'' \<or> has_prefix (tg_name r) ''go::'')}" by simp
  also have "\<dots> = {1, 2}" unfolding board_posts
    by (auto simp: plain_post_def board_def plain_tag_def tbl_get_def split: if_splits)
  finally show ?thesis .
qed

text \<open>
  The page of a domain shows what the other lists hide: a post without a tag, of another user, that
  no page of the newest posts has for a visitor is on the visitor's page of its domain.
\<close>

theorem domain_page_shows_hidden:
  "4 \<in> set (map pr_id (fst (get_posts_by_domain board ''a.org'' 1 30 None False)))
   \<and> (\<forall>k. 4 \<notin> set (map pr_id (fst (get_newest_posts board k 30 None False))))"
proof -
  have "4 \<notin> set (map pr_id (fst (get_newest_posts board k 30 None False)))" for k
  proof -
    let ?P = "\<lambda>i p. \<not> po_is_deleted p \<and> tag_filter board None False i p"
    have "map fst (newest_first (post_rows_of ?P board)) = [2, 1]" by code_simp
    moreover have "set (page_of k 30 xs) \<subseteq> set xs" for xs :: "'a list"
      by (auto simp: page_of_def limit_offset_def dest: in_set_takeD in_set_dropD)
    ultimately have "set (map fst (page_of k 30 (newest_first (post_rows_of ?P board)))) \<subseteq> {2, 1}"
      unfolding page_of_map by (metis list.simps(15) empty_set)
    then show ?thesis by (auto simp: get_newest_posts_def Let_def scan_ids simp del: set_map)
  qed
  moreover have "4 \<in> set (map pr_id (fst (get_posts_by_domain board ''a.org'' 1 30 None False)))" by code_simp
  ultimately show ?thesis by blast
qed

end
