(* ===== verification/Scores.thy ===== *)
theory Scores
  imports Comments
begin

text \<open>
  The invariant of posts, comments and votes: every vote is on one existing post or comment, no user
  votes twice for the same, and every score is the number of votes, whatever the order of the
  operations and whether or not the database checks foreign keys.
\<close>

subsection \<open>Sequences of operations\<close>

datatype content_op =
    Create_post int string string string "int list" string "int option" "int option" "int option"
  | Update_post int string string
  | Update_post_with_revision int int string string string string
  | Delete_post int
  | Create_comment int int "int option" "int option" string
  | Update_comment int string
  | Delete_comment int
  | Delete_comment_tree nat int
  | Blur_comment int
  | Unblur_comment int
  | Vote int int vote_target

fun content_step :: "denv \<times> content_op \<Rightarrow> db \<Rightarrow> db" where
  "content_step (e, Create_post u title url body tags src src_id hat at) d =
     snd (create_post_full e u title url body tags src src_id hat at d)"
| "content_step (e, Update_post i title body) d = update_post e i title body d"
| "content_step (e, Update_post_with_revision i u t b t' b') d =
     snd (update_post_with_revision e i u t b t' b' d)"
| "content_step (e, Delete_post i) d = delete_post i d"
| "content_step (e, Create_comment p u parent hat body) d = snd (create_comment e p u parent hat body d)"
| "content_step (e, Update_comment i body) d = update_comment e i body d"
| "content_step (e, Delete_comment i) d = delete_comment i d"
| "content_step (e, Delete_comment_tree f i) d =
     (case delete_comment_tree f i d of None \<Rightarrow> d | Some d' \<Rightarrow> d')"
| "content_step (e, Blur_comment i) d = blur_comment i d"
| "content_step (e, Unblur_comment i) d = unblur_comment i d"
| "content_step (e, Vote u i t) d = snd (toggle_vote e u i t d)"

definition content_run :: "(denv \<times> content_op) list \<Rightarrow> db \<Rightarrow> db" where
  "content_run ops d = fold content_step ops d"

lemma content_run_simps [simp]:
  "content_run [] d = d" "content_run (p # ops) d = content_run ops (content_step p d)"
  by (simp_all add: content_run_def)

subsection \<open>The invariant\<close>

definition votes_for :: "vote_target \<Rightarrow> int \<Rightarrow> db \<Rightarrow> int" where
  "votes_for t i d = tbl_count (\<lambda>_ r. vote_ref t r = Some i) (db_votes d)"

definition vote_ok :: "db \<Rightarrow> vote_row \<Rightarrow> bool" where
  "vote_ok d r \<longleftrightarrow> vt_value r = 1 \<and> (\<exists>t i. vote_ref t r = Some i \<and> score_of t d i \<noteq> None
     \<and> (\<forall>t'. t' \<noteq> t \<longrightarrow> vote_ref t' r = None))"

definition one_vote_each :: "db \<Rightarrow> bool" where
  "one_vote_each d \<longleftrightarrow> (\<forall>k k' r r' t i. tbl_get (db_votes d) k = Some r \<longrightarrow> tbl_get (db_votes d) k' = Some r' \<longrightarrow>
     vt_user_id r = vt_user_id r' \<longrightarrow> vote_ref t r = Some i \<longrightarrow> vote_ref t r' = Some i \<longrightarrow> k = k')"

definition tables_ok :: "db \<Rightarrow> bool" where
  "tables_ok d \<longleftrightarrow> tbl_ok (db_posts d) \<and> tbl_ok (db_comments d) \<and> tbl_ok (db_votes d)"

definition scores_ok :: "db \<Rightarrow> bool" where
  "scores_ok d \<longleftrightarrow> (\<forall>t i s. score_of t d i = Some s \<longrightarrow> s = votes_for t i d)"

definition content_ok :: "db \<Rightarrow> bool" where
  "content_ok d \<longleftrightarrow> tables_ok d \<and> scores_ok d \<and> one_vote_each d
     \<and> (\<forall>k r. tbl_get (db_votes d) k = Some r \<longrightarrow> vote_ok d r)"

lemma content_ok_tables:
  assumes "content_ok d"
  shows "tbl_ok (db_posts d)" "tbl_ok (db_comments d)" "tbl_ok (db_votes d)"
  using assms by (simp_all add: content_ok_def tables_ok_def)

text \<open>Operations that leave the scores and votes alone.\<close>

lemma content_ok_same:
  assumes "content_ok d" "tables_ok d'" "db_votes d' = db_votes d" "\<And>t i. score_of t d' i = score_of t d i"
  shows "content_ok d'"
  using assms by (simp add: content_ok_def scores_ok_def votes_for_def one_vote_each_def vote_ok_def)

lemma score_set_post:
  "score_of t (set_post i f d) j = (if t = Post_target \<and> i = j
     then map_option (po_score \<circ> f) (tbl_get (db_posts d) j) else score_of t d j)"
  by (cases t) (auto simp: score_of_def set_post_def tbl_update_get option.map_comp comp_def)

lemma score_set_comment:
  "score_of t (set_comment i f d) j = (if t = Comment_target \<and> i = j
     then map_option (co_score \<circ> f) (tbl_get (db_comments d) j) else score_of t d j)"
  by (cases t) (auto simp: score_of_def set_comment_def tbl_update_get option.map_comp comp_def)

lemma tables_set:
  "tables_ok d \<Longrightarrow> tables_ok (set_post i f d)" "tables_ok d \<Longrightarrow> tables_ok (set_comment i g d)"
  by (simp_all add: tables_ok_def set_post_def set_comment_def tbl_update_ok)

lemma votes_set [simp]:
  "db_votes (set_post i f d) = db_votes d" "db_votes (set_comment i g d) = db_votes d"
  "db_votes (add_score t i k d) = db_votes d"
  by (cases t; simp add: set_post_def set_comment_def add_score_def)+

lemma set_post_ok: "content_ok d \<Longrightarrow> (\<And>p. po_score (f p) = po_score p) \<Longrightarrow> content_ok (set_post i f d)"
proof (rule content_ok_same [where d = d])
  assume f: "\<And>p. po_score (f p) = po_score p"
  show "score_of t (set_post i f d) j = score_of t d j" for t j
    unfolding score_set_post by (cases t) (simp_all add: score_of_def comp_def f)
qed (simp_all add: tables_set content_ok_def)

lemma set_comment_ok: "content_ok d \<Longrightarrow> (\<And>c. co_score (f c) = co_score c) \<Longrightarrow> content_ok (set_comment i f d)"
proof (rule content_ok_same [where d = d])
  assume f: "\<And>c. co_score (f c) = co_score c"
  show "score_of t (set_comment i f d) j = score_of t d j" for t j
    unfolding score_set_comment by (cases t) (simp_all add: score_of_def comp_def f)
qed (simp_all add: tables_set content_ok_def)

text \<open>New rows start without votes, since votes are on rows that exist.\<close>

lemma no_votes_yet:
  assumes "content_ok d" "score_of t d i = None"
  shows "votes_for t i d = 0"
proof -
  have "vote_ref t r \<noteq> Some i" if "tbl_get (db_votes d) k = Some r" for k r
  proof -
    from assms(1) that have "vote_ok d r" unfolding content_ok_def by blast
    then obtain t' j where "vote_ref t' r = Some j" "score_of t' d j \<noteq> None" "\<forall>t2. t2 \<noteq> t' \<longrightarrow> vote_ref t2 r = None"
      unfolding vote_ok_def by blast
    with assms(2) show ?thesis by (cases "t = t'") auto
  qed
  then show ?thesis
    unfolding votes_for_def tbl_count_zero [OF content_ok_tables(3) [OF assms(1)]] by blast
qed

lemma new_row_ok:
  assumes "content_ok d" "tables_ok d'" "db_votes d' = db_votes d" "score_of t d k = None"
    and "\<And>t' i. score_of t' d' i = (if t' = t \<and> i = k then Some 0 else score_of t' d i)"
  shows "content_ok d'"
proof -
  have v: "votes_for t' i d' = votes_for t' i d" for t' i by (simp add: votes_for_def assms(3))
  have "s = votes_for t' i d'" if "score_of t' d' i = Some s" for t' i s
  proof (cases "t' = t \<and> i = k")
    case True
    with that have "s = 0" unfolding assms(5) by simp
    with no_votes_yet [OF assms(1,4)] True v show ?thesis by simp
  next
    case False
    with that have "score_of t' d i = Some s" unfolding assms(5) by simp
    with assms(1) v show ?thesis by (simp add: content_ok_def scores_ok_def)
  qed
  moreover have "vote_ok d' r" if "vote_ok d r" for r
    using that unfolding vote_ok_def assms(5) by (metis option.simps(3))
  ultimately show ?thesis
    using assms(1,2) unfolding content_ok_def scores_ok_def one_vote_each_def assms(3) by blast
qed

lemma add_post_tags_other:
  "db_posts (snd (add_post_tags e i ts d)) = db_posts d" "db_comments (snd (add_post_tags e i ts d)) = db_comments d"
  "db_votes (snd (add_post_tags e i ts d)) = db_votes d" "db_users (snd (add_post_tags e i ts d)) = db_users d"
  by (induction e i ts d rule: add_post_tags.induct) simp_all

lemma create_post_ok:
  assumes "content_ok d"
  shows "content_ok (snd (create_post_full e u title url body tags src src_id hat at d))"
proof -
  let ?at = "case at of None \<Rightarrow> dv_now e | Some t \<Rightarrow> t"
  let ?r = "\<lparr>po_user_id = u, po_title = title, po_url = Some url, po_body = Some body, po_created_at = ?at,
    po_updated_at = ?at, po_score = 0, po_is_deleted = False, po_source_type = src, po_source_id = src_id,
    po_hat_id = hat\<rparr>"
  obtain i t where ins: "tbl_insert ?r (db_posts d) = (i, t)" by (metis surj_pair)
  note g = tbl_insert_get [OF content_ok_tables(1) [OF assms] ins]
  obtain res d' where add: "add_post_tags e i tags (d\<lparr>db_posts := t\<rparr>) = (res, d')" by (metis surj_pair)
  note other = add_post_tags_other [of e i tags "d\<lparr>db_posts := t\<rparr>", unfolded add, simplified]
  have "content_ok d'"
  proof (rule new_row_ok [where d = d and t = Post_target and k = i, OF assms])
    show "tables_ok d'" using other content_ok_tables [OF assms]
      tbl_insert_ok [OF content_ok_tables(1) [OF assms] ins] by (simp add: tables_ok_def)
    show "score_of Post_target d i = None" by (simp add: score_of_def g(2))
    show "score_of t' d' j = (if t' = Post_target \<and> j = i then Some 0 else score_of t' d j)" for t' j
      by (cases t') (simp_all add: score_of_def other g(1))
  qed (use other in simp)
  then show ?thesis using assms
    by (cases res) (simp_all add: create_post_full_def Let_def ins add)
qed

lemma create_comment_ok:
  assumes "content_ok d"
  shows "content_ok (snd (create_comment e p u parent hat body d))"
proof -
  let ?r = "\<lparr>co_post_id = p, co_user_id = u, co_parent_id = parent, co_body = body, co_created_at = dv_now e,
    co_updated_at = dv_now e, co_score = 0, co_is_deleted = False, co_is_blurred = False, co_hat_id = hat\<rparr>"
  obtain i t where ins: "tbl_insert ?r (db_comments d) = (i, t)" by (metis surj_pair)
  note g = tbl_insert_get [OF content_ok_tables(2) [OF assms] ins]
  have "content_ok (d\<lparr>db_comments := t\<rparr>)"
  proof (rule new_row_ok [where d = d and t = Comment_target and k = i, OF assms])
    show "tables_ok (d\<lparr>db_comments := t\<rparr>)" using content_ok_tables [OF assms]
      tbl_insert_ok [OF content_ok_tables(2) [OF assms] ins] by (simp add: tables_ok_def)
    show "score_of Comment_target d i = None" by (simp add: score_of_def g(2))
    show "score_of t' (d\<lparr>db_comments := t\<rparr>) j = (if t' = Comment_target \<and> j = i then Some 0 else score_of t' d j)" for t' j
      by (cases t') (simp_all add: score_of_def g(1))
  qed simp
  then show ?thesis using assms by (simp add: create_comment_def ins)
qed

lemma fold_delete_ok: "content_ok d \<Longrightarrow> content_ok (fold delete_comment ids d)"
  by (induction ids arbitrary: d) (simp_all add: delete_comment_def set_comment_ok)

subsection \<open>Toggling a vote\<close>

lemma score_add:
  "score_of t' (add_score t i k d) j = (if t' = t \<and> i = j then map_option (\<lambda>s. s + k) (score_of t d j) else score_of t' d j)"
  by (cases t; cases t') (simp_all add: add_score_def set_post_def set_comment_def tbl_update_get
      score_of_def option.map_comp comp_def)

lemma score_votes [simp]: "score_of t (d\<lparr>db_votes := v\<rparr>) i = score_of t d i"
  by (cases t) (simp_all add: score_of_def)

lemma tables_add: "tables_ok d \<Longrightarrow> tables_ok (add_score t i k d)"
  by (cases t) (simp_all add: add_score_def tables_set)

lemma vote_refs:
  assumes "content_ok d" "tbl_get (db_votes d) k = Some r" "vote_on t u i r"
  shows "vote_ref t' r = Some j \<longleftrightarrow> t' = t \<and> i = j"
proof -
  from assms(1,2) have "vote_ok d r" unfolding content_ok_def by blast
  then obtain t0 i0 where "vote_ref t0 r = Some i0" "\<forall>t'. t' \<noteq> t0 \<longrightarrow> vote_ref t' r = None"
    unfolding vote_ok_def by blast
  with assms(3) show ?thesis unfolding vote_on_def by (metis option.distinct(1) option.inject)
qed

lemma votes_ref_new [simp]: "vote_ref t' (new_vote e u i t) = (if t' = t then Some i else None)"
  by (cases t; cases t') (simp_all add: vote_ref_def new_vote_def)

lemma remove_vote_ok:
  assumes "content_ok d" "tbl_get (db_votes d) k = Some r" "vote_on t u i r"
  defines "d' \<equiv> add_score t i (-1) (d\<lparr>db_votes := tbl_delete (\<lambda>j _. j = k) (db_votes d)\<rparr>)"
  shows "content_ok d'" "votes_for t' j d' = votes_for t' j d - (if t' = t \<and> i = j then 1 else 0)"
proof -
  note ok = content_ok_tables [OF assms(1)]
  have v: "db_votes d' = tbl_delete (\<lambda>j _. j = k) (db_votes d)" by (simp add: d'_def)
  have sc: "score_of t' d' j = (if t' = t \<and> i = j then map_option (\<lambda>s. s - 1) (score_of t d j) else score_of t' d j)" for t' j
    by (simp add: d'_def score_add)
  show cnt: "votes_for t' j d' = votes_for t' j d - (if t' = t \<and> i = j then 1 else 0)" for t' j
  proof (cases "vote_ref t' r = Some j")
    case True
    with vote_refs [OF assms(1-3)] tbl_count_delete_one [OF ok(3) assms(2), of "\<lambda>_ r. vote_ref t' r = Some j"]
    show ?thesis by (simp add: votes_for_def v)
  next
    case False
    have "tbl_count (\<lambda>_ r. vote_ref t' r = Some j) (tbl_delete (\<lambda>j _. j = k) (db_votes d))
        = tbl_count (\<lambda>_ r. vote_ref t' r = Some j) (db_votes d)"
      by (rule tbl_count_delete_other [OF _ ok(3)]) (use False assms(2) in auto)
    with False vote_refs [OF assms(1-3)] show ?thesis by (auto simp: votes_for_def v)
  qed
  have g: "tbl_get (db_votes d) k' = Some q" if "tbl_get (db_votes d') k' = Some q" for k' q
    using that by (auto simp: v tbl_delete_get [OF ok(3)] split: option.splits if_splits)
  have "tables_ok d'" using ok tbl_delete_ok [OF ok(3)] unfolding d'_def by (intro tables_add) (simp add: tables_ok_def)
  moreover have "scores_ok d'"
    using assms(1) unfolding scores_ok_def sc cnt content_ok_def by auto
  moreover have "one_vote_each d'"
    using assms(1) g unfolding content_ok_def one_vote_each_def by metis
  moreover have "vote_ok d' q" if "tbl_get (db_votes d') k' = Some q" for k' q
  proof -
    have "vote_ok d q" using assms(1) g [OF that] unfolding content_ok_def by blast
    then show ?thesis unfolding vote_ok_def sc by (metis option.map_disc_iff)
  qed
  ultimately show "content_ok d'" unfolding content_ok_def by blast
qed

lemma add_vote_ok:
  fixes e :: denv
  assumes "content_ok d" "tbl_find (\<lambda>_ r. vote_on t u i r) (db_votes d) = None" "score_of t d i = Some s"
  defines "d' \<equiv> add_score t i 1 (d\<lparr>db_votes := snd (tbl_insert (new_vote e u i t) (db_votes d))\<rparr>)"
  shows "content_ok d'" "votes_for t' j d' = votes_for t' j d + (if t' = t \<and> i = j then 1 else 0)"
proof -
  note ok = content_ok_tables [OF assms(1)]
  obtain k vs where ins: "tbl_insert (new_vote e u i t) (db_votes d) = (k, vs)" by (metis surj_pair)
  note g = tbl_insert_get [OF ok(3) ins]
  have v: "db_votes d' = vs" by (simp add: d'_def ins)
  have sc: "score_of t' d' j = (if t' = t \<and> i = j then map_option (\<lambda>s. s + 1) (score_of t d j) else score_of t' d j)" for t' j
    by (simp add: d'_def score_add)
  show cnt: "votes_for t' j d' = votes_for t' j d + (if t' = t \<and> i = j then 1 else 0)" for t' j
    using tbl_count_insert [OF ins, of "\<lambda>_ r. vote_ref t' r = Some j"] by (auto simp: votes_for_def v)
  have new: "\<not> (vt_user_id q = u \<and> vote_ref t q = Some i)" if "tbl_get (db_votes d) k' = Some q" for k' q
    using assms(2) that unfolding tbl_find_None [OF ok(3)] vote_on_def by blast
  have "tables_ok d'" using ok tbl_insert_ok [OF ok(3) ins] unfolding d'_def by (intro tables_add) (simp add: tables_ok_def ins)
  moreover have "scores_ok d'"
    using assms(1) unfolding scores_ok_def sc cnt content_ok_def by auto
  moreover have "one_vote_each d'"
    unfolding one_vote_each_def v g(1)
  proof (intro allI impI)
    fix a b q r t' j
    assume as: "(if a = k then Some (new_vote e u i t) else tbl_get (db_votes d) a) = Some q"
      "(if b = k then Some (new_vote e u i t) else tbl_get (db_votes d) b) = Some r"
      "vt_user_id q = vt_user_id r" "vote_ref t' q = Some j" "vote_ref t' r = Some j"
    have u: "vt_user_id (new_vote e u i t) = u" by (simp add: new_vote_def)
    consider "a = k" "b = k" | "a = k" "b \<noteq> k" | "a \<noteq> k" "b = k" | "a \<noteq> k" "b \<noteq> k" by blast
    then show "a = b"
    proof cases
      case 2
      with as u have "t' = t" "j = i" "tbl_get (db_votes d) b = Some r" "vt_user_id r = u"
        by (auto split: if_splits)
      with new as(5) show ?thesis by blast
    next
      case 3
      with as u have "t' = t" "j = i" "tbl_get (db_votes d) a = Some q" "vt_user_id q = u"
        by (auto split: if_splits)
      with new as(4) show ?thesis by blast
    next
      case 4
      then have "tbl_get (db_votes d) a = Some q" "tbl_get (db_votes d) b = Some r" using as(1,2) by simp_all
      with as(3-5) assms(1) show ?thesis unfolding content_ok_def one_vote_each_def by blast
    qed simp
  qed
  moreover have "vote_ok d' q" if "tbl_get (db_votes d') k' = Some q" for k' q
  proof (cases "k' = k")
    case True
    with that have q: "q = new_vote e u i t" by (simp add: v g(1))
    have "score_of t d' i \<noteq> None" using assms(3) by (simp add: sc)
    moreover have "vt_value q = 1" by (simp add: q new_vote_def)
    moreover have "vote_ref t q = Some i \<and> (\<forall>t'. t' \<noteq> t \<longrightarrow> vote_ref t' q = None)" by (simp add: q)
    ultimately show ?thesis unfolding vote_ok_def by blast
  next
    case False
    with that have "vote_ok d q" using assms(1) unfolding content_ok_def by (simp add: v g(1))
    then show ?thesis unfolding vote_ok_def sc by (metis option.map_disc_iff)
  qed
  ultimately show "content_ok d'" unfolding content_ok_def by blast
qed

text \<open>What a vote does, in terms of who has voted.\<close>

lemma has_voted_iff:
  "content_ok d \<Longrightarrow> has_voted d u i t \<longleftrightarrow> tbl_find (\<lambda>_ r. vote_on t u i r) (db_votes d) \<noteq> None"
proof -
  assume "content_ok d"
  note ok = content_ok_tables(3) [OF this]
  show ?thesis
    using tbl_count_pos [OF ok, of "\<lambda>_ r. vote_on t u i r"] tbl_find_None [OF ok, of "\<lambda>_ r. vote_on t u i r"]
    by (auto simp: has_voted_def)
qed

lemma toggle_cases:
  assumes "content_ok d"
  obtains (refused) err where "toggle_vote e u i t d = (Inl err, d)"
  | (taken) k r s where "tbl_get (db_votes d) k = Some r" "vote_on t u i r" "score_of t d i = Some s"
      "toggle_vote e u i t d = (Inr (s - 1, False),
         add_score t i (-1) (d\<lparr>db_votes := tbl_delete (\<lambda>j _. j = k) (db_votes d)\<rparr>))"
  | (given) s where "tbl_find (\<lambda>_ r. vote_on t u i r) (db_votes d) = None" "score_of t d i = Some s"
      "toggle_vote e u i t d = (Inr (s + 1, True),
         add_score t i 1 (d\<lparr>db_votes := snd (tbl_insert (new_vote e u i t) (db_votes d))\<rparr>))"
proof (cases "tbl_find (\<lambda>_ r. vote_on t u i r) (db_votes d)")
  case None
  show thesis
  proof (cases "score_of t d i")
    case sn: None
    with None show thesis
      by (intro refused [of "if \<not> fk_ok e (db_users d) (Some u) \<or> \<not> target_fk_ok e t d i then Constraint_failed else No_rows"])
        (simp add: toggle_vote_def score_add)
  next
    case (Some s)
    with None show thesis
      using refused [of Constraint_failed] given [of s]
      by (cases "\<not> fk_ok e (db_users d) (Some u) \<or> \<not> target_fk_ok e t d i") (simp_all add: toggle_vote_def score_add)
  qed
next
  case (Some p)
  obtain k r where p: "p = (k, r)" by (metis surj_pair)
  note g = tbl_find_Some [OF content_ok_tables(3) [OF assms] Some [unfolded p]]
  show thesis
  proof (cases "score_of t d i")
    case None
    with Some p show thesis by (intro refused [of No_rows]) (simp add: toggle_vote_def score_add)
  next
    case sn: (Some s)
    with Some p g show thesis by (intro taken [of k r s]) (simp_all add: toggle_vote_def score_add)
  qed
qed

lemma toggle_ok: "content_ok d \<Longrightarrow> content_ok (snd (toggle_vote e u i t d))"
proof -
  assume ok: "content_ok d"
  then show ?thesis
  proof (cases rule: toggle_cases [where e = e and u = u and i = i and t = t])
    case (taken k r s)
    from remove_vote_ok(1) [OF ok taken(1,2)] taken(4) show ?thesis by simp
  next
    case (given s)
    from add_vote_ok(1) [OF ok given(1,2)] given(3) show ?thesis by simp
  qed (use ok in simp)
qed

lemma content_step_ok [inv_intros]: "content_ok d \<Longrightarrow> content_ok (content_step p d)"
proof (induction p d rule: content_step.induct)
  case (3 e i u t b t' b' d)
  have "content_ok (d\<lparr>db_revisions := x\<rparr>)" for x
    by (rule content_ok_same [OF 3]) (use 3 in \<open>auto simp: content_ok_def tables_ok_def score_of_def split: vote_target.splits\<close>)
  then show ?case using 3 by (simp add: update_post_with_revision_def update_post_def set_post_ok)
qed (auto simp: create_post_ok create_comment_ok fold_delete_ok toggle_ok update_post_def delete_post_def
    update_comment_def delete_comment_def blur_comment_def unblur_comment_def delete_comment_tree_def
    set_post_ok set_comment_ok split: option.splits)

lemma content_run_ok: "content_ok d \<Longrightarrow> content_ok (content_run ops d)"
  by (induction ops arbitrary: d) (simp_all add: content_step_ok)

lemma empty_content_ok: "content_ok empty_db"
proof -
  have "votes_for t i empty_db = 0" for t i
    by (simp add: votes_for_def empty_db_def empty_tbl_def tbl_count_def tbl_select_def)
  moreover have "score_of t empty_db i = None" for t i
    by (cases t) (simp_all add: score_of_def empty_db_def tbl_get_def empty_tbl_def)
  moreover have "db_votes empty_db = empty_tbl" by (simp add: empty_db_def)
  ultimately show ?thesis
    by (simp add: content_ok_def tables_ok_def scores_ok_def one_vote_each_def tbl_simps)
      (simp add: empty_db_def tbl_simps)
qed

subsection \<open>Properties of scores and votes\<close>

text \<open>
  C19. Scores count votes: after any sequence of posting, commenting, editing, deleting, moderating and
  voting, at any times and whether or not foreign keys are checked, every vote is on one existing post
  or comment, nobody has two votes on the same one, and the score of every post and comment is the
  number of its votes.
\<close>

theorem scores_count_votes:
  assumes "content_ok d"
  shows "content_ok (content_run ops d)
    \<and> (\<forall>t i s. score_of t (content_run ops d) i = Some s \<longrightarrow> s = votes_for t i (content_run ops d))"
  using content_run_ok [OF assms, of ops] by (simp add: content_ok_def scores_ok_def)

definition vote_env :: denv where
  "vote_env = \<lparr>dv_now = 100, dv_token = [], dv_fk = True\<rparr>"

text \<open>A database with a user, a post and a comment.\<close>

definition small_db :: db where
  "small_db = content_run [(vote_env, Create_post 1 ''t'' ''u'' ''b'' [] ''user'' None None None),
     (vote_env, Create_comment 1 1 None None ''c'')]
     (empty_db\<lparr>db_users := (1, [(1, \<lparr>us_username = ''a'', us_email = ''e'', us_created_at = 0,
        us_invited_by = None, us_is_admin = False, us_is_banned = False, us_about = [], us_avatar = None,
        us_avatar_type = None, us_ban_reason = [], us_ban_expires_at = None, us_banned_by = None\<rparr>)])\<rparr>)"

lemma small_db_ok: "content_ok small_db"
proof -
  have "content_ok (empty_db\<lparr>db_users := x\<rparr>)" for x
  proof (rule content_ok_same [OF empty_content_ok])
    show "score_of t (empty_db\<lparr>db_users := x\<rparr>) i = score_of t empty_db i" for t i
      by (cases t) (simp_all add: score_of_def)
  qed (use empty_content_ok in \<open>simp_all add: content_ok_def tables_ok_def\<close>)
  then show ?thesis unfolding small_db_def by (rule content_run_ok)
qed

lemma scores_count_votes_witness:
  "score_of Comment_target (content_run [(vote_env, Vote 1 1 Comment_target)] small_db) 1 = Some 1
   \<and> votes_for Comment_target 1 (content_run [(vote_env, Vote 1 1 Comment_target)] small_db) = 1"
proof -
  let ?d = "content_run [(vote_env, Vote 1 1 Comment_target)] small_db"
  have s: "score_of Comment_target ?d 1 = Some 1" by code_simp
  with scores_count_votes [OF small_db_ok, of "[(vote_env, Vote 1 1 Comment_target)]"] have "votes_for Comment_target 1 ?d = 1"
    by metis
  with s show ?thesis by blast
qed

lemma has_voted_add:
  assumes "content_ok d" "score_of t d i = Some s" "tbl_find (\<lambda>_ r. vote_on t u i r) (db_votes d) = None"
  shows "has_voted (add_score t i 1 (d\<lparr>db_votes := snd (tbl_insert (new_vote e u i t) (db_votes d))\<rparr>)) u' j t'
    \<longleftrightarrow> has_voted d u' j t' \<or> (u' = u \<and> j = i \<and> t' = t)"
proof -
  obtain k vs where ins: "tbl_insert (new_vote e u i t) (db_votes d) = (k, vs)" by (metis surj_pair)
  have u: "vt_user_id (new_vote e u i t) = u" by (simp add: new_vote_def)
  from tbl_count_insert [OF ins, of "\<lambda>_ r. vote_on t' u' j r"] show ?thesis
    using tbl_count_nonneg [of "\<lambda>_ r. vote_on t' u' j r" "db_votes d"]
    by (auto simp: has_voted_def ins vote_on_def u split: if_splits)
qed

lemma has_voted_remove:
  assumes "content_ok d" "tbl_get (db_votes d) k = Some r" "vote_on t u i r"
  shows "has_voted (add_score t i (-1) (d\<lparr>db_votes := tbl_delete (\<lambda>j _. j = k) (db_votes d)\<rparr>)) u' j t'
    \<longleftrightarrow> has_voted d u' j t' \<and> \<not> (u' = u \<and> j = i \<and> t' = t)"
proof -
  note ok = content_ok_tables(3) [OF assms(1)]
  have r: "vote_on t' u' j r \<longleftrightarrow> u' = u \<and> j = i \<and> t' = t"
    using vote_refs [OF assms, of t' j] assms(3) by (auto simp: vote_on_def)
  have uniq: "k' = k" if "tbl_get (db_votes d) k' = Some q" "vote_on t u i q" for k' q
    using assms that unfolding content_ok_def one_vote_each_def vote_on_def by metis
  have g: "tbl_get (tbl_delete (\<lambda>j _. j = k) (db_votes d)) k' = Some q \<longleftrightarrow> tbl_get (db_votes d) k' = Some q \<and> k' \<noteq> k" for k' q
    by (auto simp: tbl_delete_get [OF ok] split: option.splits)
  have new: "has_voted (add_score t i (-1) (d\<lparr>db_votes := tbl_delete (\<lambda>j _. j = k) (db_votes d)\<rparr>)) u' j t'
      \<longleftrightarrow> (\<exists>k' q. tbl_get (db_votes d) k' = Some q \<and> k' \<noteq> k \<and> vote_on t' u' j q)"
    using tbl_count_pos [OF tbl_delete_ok [OF ok, of "\<lambda>j _. j = k"], of "\<lambda>_ r. vote_on t' u' j r", unfolded g]
    by (simp add: has_voted_def)
  have old: "has_voted d u' j t' \<longleftrightarrow> (\<exists>k' q. tbl_get (db_votes d) k' = Some q \<and> vote_on t' u' j q)"
    using tbl_count_pos [OF ok, of "\<lambda>_ r. vote_on t' u' j r"] by (simp add: has_voted_def)
  show ?thesis
  proof (cases "u' = u \<and> j = i \<and> t' = t")
    case True
    with new uniq show ?thesis by blast
  next
    case False
    with r assms(2) have "k' \<noteq> k" if "tbl_get (db_votes d) k' = Some q" "vote_on t' u' j q" for k' q
      using that by auto
    with new old False show ?thesis by blast
  qed
qed

text \<open>
  Voting toggles: a vote that is accepted gives the new score, which is the number of votes, and
  whether the user now has one; it changes no other user's vote and nothing about any other post or
  comment; and voting again, if the user's row may be referred to, gives the old score and state back.
\<close>

theorem vote_toggles:
  assumes "content_ok d" "toggle_vote e u i t d = (Inr (s, voted), d')" "fk_ok e' (db_users d) (Some u)"
  shows "s = votes_for t i d' \<and> voted = (\<not> has_voted d u i t) \<and> has_voted d' u i t = voted
    \<and> (\<forall>u' j t'. (u', j, t') \<noteq> (u, i, t) \<longrightarrow> has_voted d' u' j t' = has_voted d u' j t')
    \<and> (\<forall>j t'. (j, t') \<noteq> (i, t) \<longrightarrow> votes_for t' j d' = votes_for t' j d)
    \<and> fst (toggle_vote e' u i t d') = Inr (votes_for t i d, \<not> voted)"
proof -
  have ok': "content_ok d'" using toggle_ok [OF assms(1), of e u i t] assms(2) by simp
  have sc: "s = votes_for t i d" if "score_of t d i = Some s" for s
    using assms(1) that by (simp add: content_ok_def scores_ok_def)
  have us: "db_users (add_score t i k x) = db_users x" for k x
    by (cases t) (simp_all add: add_score_def set_post_def set_comment_def)
  from assms(1) show ?thesis
  proof (cases rule: toggle_cases [where e = e and u = u and i = i and t = t])
    case (refused err)
    with assms(2) show ?thesis by simp
  next
    case (taken k r s0)
    with assms(2) have r: "s = s0 - 1" "voted = False"
      "d' = add_score t i (-1) (d\<lparr>db_votes := tbl_delete (\<lambda>j _. j = k) (db_votes d)\<rparr>)" by simp_all
    note v = remove_vote_ok(2) [OF assms(1) taken(1,2), folded r(3)]
    note h = has_voted_remove [OF assms(1) taken(1,2), folded r(3)]
    have old: "has_voted d u i t"
      using tbl_count_pos [OF content_ok_tables(3) [OF assms(1)], of "\<lambda>_ r. vote_on t u i r"] taken(1,2)
      by (auto simp: has_voted_def)
    have s': "score_of t d' i = Some s" using taken(3) r by (simp add: score_add)
    then have "target_fk_ok e' t d' i" by (cases t) (auto simp: target_fk_ok_def fk_ok_def score_of_def)
    moreover have "fk_ok e' (db_users d') (Some u)" using assms(3) by (simp add: r(3) us)
    moreover have "\<not> has_voted d' u i t" using h [of u i t] by simp
    then have "tbl_find (\<lambda>_ r. vote_on t u i r) (db_votes d') = None"
      using has_voted_iff [OF ok', of u i t] by blast
    ultimately have "fst (toggle_vote e' u i t d') = Inr (s + 1, True)"
      using s' by (simp add: toggle_vote_def score_add)
    with r(1,2) v sc [OF taken(3)] h old show ?thesis by auto
  next
    case (given s0)
    with assms(2) have r: "s = s0 + 1" "voted = True"
      "d' = add_score t i 1 (d\<lparr>db_votes := snd (tbl_insert (new_vote e u i t) (db_votes d))\<rparr>)" by simp_all
    note v = add_vote_ok(2) [OF assms(1) given(1,2), of _ _ e, folded r(3)]
    note h = has_voted_add [OF assms(1) given(2,1), of e, folded r(3)]
    have old: "\<not> has_voted d u i t" using has_voted_iff [OF assms(1)] given(1) by simp
    have s': "score_of t d' i = Some s" using given(2) r by (simp add: score_add)
    have "tbl_find (\<lambda>_ r. vote_on t u i r) (db_votes d') \<noteq> None"
      using h [of u i t] has_voted_iff [OF ok', of u i t] by simp
    then have "fst (toggle_vote e' u i t d') = Inr (s - 1, False)"
      using s' by (auto simp: toggle_vote_def score_add)
    with r(1,2) v sc [OF given(2)] h old show ?thesis by auto
  qed
qed

lemma vote_toggles_witness:
  "\<exists>d'. toggle_vote vote_env 1 1 Post_target small_db = (Inr (1, True), d')
     \<and> fst (toggle_vote vote_env 1 1 Post_target d') = Inr (0, False)"
proof -
  have v: "fst (toggle_vote vote_env 1 1 Post_target small_db) = Inr (1, True)"
    "fk_ok vote_env (db_users small_db) (Some 1)" "votes_for Post_target 1 small_db = 0" by code_simp+
  from v(1) obtain d' where d': "toggle_vote vote_env 1 1 Post_target small_db = (Inr (1, True), d')"
    by (metis surjective_pairing)
  have "fst (toggle_vote vote_env 1 1 Post_target d') = Inr (votes_for Post_target 1 small_db, \<not> True)"
    using vote_toggles [OF small_db_ok d' v(2)] by blast
  with d' v(3) show ?thesis by auto
qed

end
