(* ===== verification/CommentThreads.thy ===== *)
theory CommentThreads
  imports Scores
begin

text \<open>
  The comments under a post as threads: \<^verbatim>\<open>GetPostComments\<close> ends and lists every comment
  whose chain of parents stays on the post, parents first, blurred threads last.
\<close>

subsection \<open>The links as functions of the comments\<close>

definition cids :: "comment list \<Rightarrow> int list" where
  "cids cs = map cr_id cs"

text \<open>A comment that is not in the list is its own parent here, so that no chain through it ends.\<close>

definition parent_in :: "comment list \<Rightarrow> int \<Rightarrow> int option" where
  "parent_in cs i = (case find (\<lambda>c. cr_id c = i) cs of None \<Rightarrow> Some i | Some c \<Rightarrow> cr_parent_id c)"

definition answers_in :: "comment list \<Rightarrow> int \<Rightarrow> int list" where
  "answers_in cs p = map cr_id (filter (\<lambda>c. cr_parent_id c = Some p) cs)"

definition plain_tops :: "comment list \<Rightarrow> int list" where
  "plain_tops cs = map cr_id (filter (\<lambda>c. cr_parent_id c = None \<and> \<not> cr_is_blurred c) cs)"

definition blurred_tops :: "comment list \<Rightarrow> int list" where
  "blurred_tops cs = map cr_id (filter (\<lambda>c. cr_parent_id c = None \<and> cr_is_blurred c) cs)"

lemma find_comment:
  "distinct (cids cs) \<Longrightarrow> c \<in> set cs \<Longrightarrow> find (\<lambda>c'. cr_id c' = cr_id c) cs = Some c"
  by (induction cs) (auto simp: cids_def image_iff)

lemma parent_in_comment [simp]:
  "distinct (cids cs) \<Longrightarrow> c \<in> set cs \<Longrightarrow> parent_in cs (cr_id c) = cr_parent_id c"
  by (simp add: parent_in_def find_comment)

lemma parent_in_outside: "i \<notin> set (cids cs) \<Longrightarrow> parent_in cs i = Some i"
  by (auto simp: parent_in_def cids_def find_Some_iff split: option.splits dest!: nth_mem)

lemma no_level_outside: "i \<notin> set (cids cs) \<Longrightarrow> \<not> level (parent_in cs) n i"
  by (induction n) (simp_all add: parent_in_outside)

lemma distinct_filter_ids: "distinct (cids cs) \<Longrightarrow> distinct (map cr_id (filter P cs))"
  by (simp add: cids_def distinct_map_filter)

lemma same_comment: "distinct (cids cs) \<Longrightarrow> c \<in> set cs \<Longrightarrow> c' \<in> set cs \<Longrightarrow> cr_id c = cr_id c' \<Longrightarrow> c = c'"
  by (metis find_comment option.inject)

interpretation comment_tree: reply_forest "\<lambda>cs. distinct (cids cs)" cids parent_in answers_in
  "\<lambda>cs. plain_tops cs @ blurred_tops cs"
proof
  fix cs i
  assume d: "distinct (cids cs)"
  show "set (answers_in cs i) = {j \<in> set (cids cs). parent_in cs j = Some i}"
    using parent_in_comment [OF d] by (auto simp: answers_in_def cids_def)
  show "set (plain_tops cs @ blurred_tops cs) = {j \<in> set (cids cs). parent_in cs j = None}"
    using parent_in_comment [OF d] by (auto simp: plain_tops_def blurred_tops_def cids_def)
  have "i \<notin> set (blurred_tops cs)" if i: "i \<in> set (plain_tops cs)" for i
  proof
    assume "i \<in> set (blurred_tops cs)"
    then obtain c' where c': "c' \<in> set cs" "cr_is_blurred c'" "cr_id c' = i" by (auto simp: blurred_tops_def)
    from i obtain c where c: "c \<in> set cs" "\<not> cr_is_blurred c" "cr_id c = i" by (auto simp: plain_tops_def)
    have "c = c'" by (rule same_comment [OF d c(1) c'(1)]) (simp add: c(3) c'(3))
    with c(2) c'(2) show False by simp
  qed
  then show "distinct (plain_tops cs @ blurred_tops cs)"
    using d distinct_filter_ids unfolding distinct_append plain_tops_def blurred_tops_def by blast
  show "distinct (answers_in cs i)" using d by (simp add: answers_in_def distinct_filter_ids)
qed

subsection \<open>The loop that links\<close>

definition kids :: "comment_map \<Rightarrow> int \<Rightarrow> int list" where
  "kids m i = (case m i of None \<Rightarrow> [] | Some n \<Rightarrow> cn_children n)"

lemma comment_nodes_snoc:
  "comment_nodes (cs @ [c]) = (comment_nodes cs)(cr_id c \<mapsto> \<lparr>cn_comment = c, cn_depth = 0, cn_children = []\<rparr>)"
  by (simp add: comment_nodes_def)

lemma comment_nodes_at:
  "comment_nodes cs i = Some n \<Longrightarrow> cn_children n = [] \<and> cn_depth n = 0 \<and> cn_comment n \<in> set cs \<and> cr_id (cn_comment n) = i"
  by (induction cs arbitrary: i n rule: rev_induct)
    (auto simp: comment_nodes_snoc comment_nodes_def [of "[]"] split: if_splits)

lemma dom_comment_nodes: "dom (comment_nodes cs) = set (cids cs)"
proof (induction cs rule: rev_induct)
  case (snoc c cs)
  then show ?case unfolding comment_nodes_snoc cids_def by (simp only: dom_fun_upd) simp
qed (simp add: comment_nodes_def cids_def)

lemma link_comment_cases:
  assumes "link_comment (m, r, b) c = (m', r', b')"
  obtains (top) "cr_parent_id c = None" "m' = m"
      "r' = r @ (if cr_is_blurred c then [] else [cr_id c])" "b' = b @ (if cr_is_blurred c then [cr_id c] else [])"
    | (lost) p where "cr_parent_id c = Some p" "m p = None" "m' = m" "r' = r" "b' = b"
    | (reply) p n m1 where "cr_parent_id c = Some p" "m p = Some n" "r' = r" "b' = b"
      "m1 = m(cr_id c := map_option (\<lambda>q. q\<lparr>cn_depth := cn_depth n + 1\<rparr>) (m (cr_id c)))"
      "m' = m1(p := map_option (\<lambda>q. q\<lparr>cn_children := cn_children q @ [cr_id c]\<rparr>) (m1 p))"
proof (cases "cr_parent_id c")
  case None
  with assms show thesis by (intro that(1)) (simp_all add: link_comment_def split: if_splits)
next
  case (Some p)
  show thesis
  proof (cases "m p")
    case None
    from Some None assms show thesis by (intro that(2)) (simp_all add: link_comment_def)
  next
    case n: (Some n)
    from Some n assms show thesis by (intro that(3) [OF _ _ _ _ refl]) (auto simp: link_comment_def Let_def)
  qed
qed

lemma link_comment_step:
  assumes "link_comment (m, r, b) c = (m', r', b')" "dom m = set (cids all)" "c \<in> set all"
  shows "dom m' = set (cids all)"
    "r' = r @ (if cr_parent_id c = None \<and> \<not> cr_is_blurred c then [cr_id c] else [])"
    "b' = b @ (if cr_parent_id c = None \<and> cr_is_blurred c then [cr_id c] else [])"
    "p \<in> set (cids all) \<Longrightarrow> kids m' p = kids m p @ (if cr_parent_id c = Some p then [cr_id c] else [])"
    "map_option cn_comment (m' i) = map_option cn_comment (m i)"
    "map_option cn_depth (m' i) = (if i = cr_id c then (case cr_parent_id c of
         None \<Rightarrow> map_option cn_depth (m i)
       | Some p \<Rightarrow> (case m p of None \<Rightarrow> map_option cn_depth (m i) | Some n \<Rightarrow> Some (cn_depth n + 1)))
       else map_option cn_depth (m i))"
proof -
  have "cr_id c \<in> dom m" using assms(2,3) by (simp add: cids_def)
  then have c: "m (cr_id c) \<noteq> None" by (simp add: domIff)
  note cs = link_comment_cases [OF assms(1), case_names top lost reply]
  have dom1: "dom m' = dom m" by (cases rule: cs) (simp_all only: map_upd_cell(1))
  then show "dom m' = set (cids all)" using assms(2) by simp
  show "r' = r @ (if cr_parent_id c = None \<and> \<not> cr_is_blurred c then [cr_id c] else [])"
    "b' = b @ (if cr_parent_id c = None \<and> cr_is_blurred c then [cr_id c] else [])"
    by (cases rule: cs; simp)+
  show "map_option cn_comment (m' i) = map_option cn_comment (m i)"
  proof (cases rule: cs)
    case (reply p n m1)
    show ?thesis unfolding reply(6) map_upd_cell_at unfolding reply(5) map_upd_cell_at by (simp add: comp_def)
  qed simp_all
  show "kids m' p = kids m p @ (if cr_parent_id c = Some p then [cr_id c] else [])" if "p \<in> set (cids all)"
  proof -
    from that assms(2) have "p \<in> dom m" by simp
    then have p: "m p \<noteq> None" by (simp add: domIff)
    show ?thesis
    proof (cases rule: cs)
      case (lost q)
      with p have "q \<noteq> p" by auto
      with lost show ?thesis by simp
    next
      case (reply q n m1)
      have m1: "kids m1 i = kids m i" "m1 i = None \<longleftrightarrow> m i = None" for i
        by (auto simp: kids_def reply(5) split: option.splits)
      from p m1(2) [of p] obtain n1 where "m1 p = Some n1" by (cases "m1 p") auto
      with reply(1,6) m1(1) [of p] show ?thesis by (auto simp: kids_def)
    qed simp
  qed
  show "map_option cn_depth (m' i) = (if i = cr_id c then (case cr_parent_id c of
         None \<Rightarrow> map_option cn_depth (m i)
       | Some p \<Rightarrow> (case m p of None \<Rightarrow> map_option cn_depth (m i) | Some n \<Rightarrow> Some (cn_depth n + 1)))
       else map_option cn_depth (m i))"
  proof (cases rule: cs)
    case (reply p n m1)
    from c obtain q where q: "m (cr_id c) = Some q" by blast
    show ?thesis unfolding reply(6) map_upd_cell_at unfolding reply(5) map_upd_cell_at
      by (simp add: comp_def reply(1,2) q)
  qed simp_all
qed

lemma link_comments:
  assumes "foldl link_comment (comment_nodes all, [], []) cs = (m, r, b)" "set cs \<subseteq> set all"
  shows "dom m = set (cids all) \<and> r = plain_tops cs \<and> b = blurred_tops cs
    \<and> (\<forall>p\<in>set (cids all). kids m p = answers_in cs p)
    \<and> (\<forall>i. map_option cn_comment (m i) = map_option cn_comment (comment_nodes all i))"
  using assms
proof (induction cs arbitrary: m r b rule: rev_induct)
  case Nil
  then have "m = comment_nodes all" "r = []" "b = []" by simp_all
  moreover have "kids (comment_nodes all) p = []" for p
    by (auto simp: kids_def dest: comment_nodes_at split: option.splits)
  ultimately show ?case
    by (simp add: dom_comment_nodes plain_tops_def blurred_tops_def answers_in_def)
next
  case (snoc c cs)
  obtain m0 r0 b0 where st: "foldl link_comment (comment_nodes all, [], []) cs = (m0, r0, b0)"
    by (metis surj_pair)
  have "set cs \<subseteq> set all" "c \<in> set all" using snoc.prems(2) by simp_all
  note ih = snoc.IH [OF st this(1)]
  from snoc.prems(1) st have l: "link_comment (m0, r0, b0) c = (m, r, b)" by simp
  note s = link_comment_step [OF l conjunct1 [OF ih] \<open>c \<in> set all\<close>]
  show ?case
    using s(1-3,5) ih s(4) by (auto simp: plain_tops_def blurred_tops_def answers_in_def)
qed

subsection \<open>Depths\<close>

text \<open>Every answer comes after what it answers, if that is in the list.\<close>

definition parents_first :: "comment list \<Rightarrow> bool" where
  "parents_first cs \<longleftrightarrow> (\<forall>k<length cs. \<forall>p\<in>set (cids cs). cr_parent_id (cs ! k) = Some p \<longrightarrow> p \<in> set (cids (take k cs)))"

lemma id_not_before:
  assumes d: "distinct (cids all)" and k: "k < length all"
  shows "cr_id (all ! k) \<notin> set (cids (take k all))"
proof
  assume "cr_id (all ! k) \<in> set (cids (take k all))"
  then obtain j where j: "j < k" "cr_id (all ! j) = cr_id (all ! k)" using k by (auto simp: cids_def in_set_conv_nth)
  then have "cids all ! j = cids all ! k" using k by (simp add: cids_def)
  with nth_eq_iff_index_eq [OF d, of j k] j(1) k show False by (simp add: cids_def)
qed

lemma nodes_depth_zero: "i \<in> set (cids all) \<Longrightarrow> map_option cn_depth (comment_nodes all i) = Some 0"
  using dom_comment_nodes [of all] comment_nodes_at [of all i] by (cases "comment_nodes all i") auto

text \<open>Linking one more comment sets its depth, and that of no other.\<close>

lemma link_depth_one:
  assumes d: "distinct (cids all)" and c: "c \<in> set all" and lv: "level (parent_in all) n (cr_id c)"
    and dep: "map_option cn_depth (m (cr_id c)) = (case cr_parent_id c of
         None \<Rightarrow> map_option cn_depth (m0 (cr_id c))
       | Some p \<Rightarrow> (case m0 p of None \<Rightarrow> map_option cn_depth (m0 (cr_id c)) | Some q \<Rightarrow> Some (cn_depth q + 1)))"
    and zero: "map_option cn_depth (m0 (cr_id c)) = Some 0"
    and before: "\<And>p n'. cr_parent_id c = Some p \<Longrightarrow> level (parent_in all) n' p \<Longrightarrow> map_option cn_depth (m0 p) = Some (int n')"
  shows "map_option cn_depth (m (cr_id c)) = Some (int n)"
proof (cases "cr_parent_id c")
  case None
  then have "n = 0" using lv d c by (cases n) auto
  then show ?thesis using dep None zero by simp
next
  case (Some p)
  then obtain n' where n: "n = Suc n'" "level (parent_in all) n' p" using lv d c by (cases n) auto
  from before [OF Some n(2)] obtain q where "m0 p = Some q" "cn_depth q = int n'" by (cases "m0 p") auto
  with dep Some n(1) show ?thesis by (simp add: add.commute)
qed

lemma link_depths:
  assumes d: "distinct (cids all)" and pf: "parents_first all"
  shows "k \<le> length all \<Longrightarrow> foldl link_comment (comment_nodes all, [], []) (take k all) = (m, r, b) \<Longrightarrow>
    (\<forall>i n. i \<in> set (cids (take k all)) \<longrightarrow> level (parent_in all) n i \<longrightarrow> map_option cn_depth (m i) = Some (int n))
    \<and> (\<forall>i\<in>set (cids all) - set (cids (take k all)). map_option cn_depth (m i) = Some 0)"
proof (induction k arbitrary: m r b)
  case 0
  then have m: "m = comment_nodes all" by simp
  then show ?case by (simp add: cids_def nodes_depth_zero [unfolded cids_def])
next
  case (Suc k)
  let ?c = "all ! k"
  have k: "k < length all" using Suc.prems(1) by simp
  then have tk: "take (Suc k) all = take k all @ [?c]" by (simp add: take_Suc_conv_app_nth)
  obtain m0 r0 b0 where st: "foldl link_comment (comment_nodes all, [], []) (take k all) = (m0, r0, b0)"
    by (metis surj_pair)
  note ih = Suc.IH [OF less_imp_le [OF k] st]
  have l: "link_comment (m0, r0, b0) ?c = (m, r, b)" using Suc.prems(2) st by (simp add: tk)
  have dm: "dom m0 = set (cids all)" using link_comments [OF st set_take_subset] by blast
  have c: "?c \<in> set all" using k by simp
  note dep = link_comment_step(6) [OF l dm c]
  have new: "cr_id ?c \<notin> set (cids (take k all))" by (rule id_not_before [OF d k])
  have old: "map_option cn_depth (m i) = map_option cn_depth (m0 i)" if "i \<noteq> cr_id ?c" for i
    using dep [of i] that by simp
  have at: "map_option cn_depth (m (cr_id ?c)) = Some (int n)" if lv: "level (parent_in all) n (cr_id ?c)" for n
  proof (rule link_depth_one [OF d c lv])
    show "map_option cn_depth (m (cr_id ?c)) = (case cr_parent_id ?c of None \<Rightarrow> map_option cn_depth (m0 (cr_id ?c))
        | Some p \<Rightarrow> (case m0 p of None \<Rightarrow> map_option cn_depth (m0 (cr_id ?c)) | Some q \<Rightarrow> Some (cn_depth q + 1)))"
      using dep [of "cr_id ?c"] by simp
    show "map_option cn_depth (m0 (cr_id ?c)) = Some 0" using conjunct2 [OF ih] new c by (simp add: cids_def)
    show "map_option cn_depth (m0 p) = Some (int n')" if "cr_parent_id ?c = Some p" "level (parent_in all) n' p" for p n'
    proof -
      have "p \<in> set (cids all)" using that(2) no_level_outside by blast
      with pf k that(1) have "p \<in> set (cids (take k all))" unfolding parents_first_def by blast
      with conjunct1 [OF ih] that(2) show ?thesis by blast
    qed
  qed
  have ids: "set (cids (take (Suc k) all)) = insert (cr_id ?c) (set (cids (take k all)))"
    by (simp add: tk cids_def)
  show ?case
  proof (intro conjI allI impI ballI)
    show "map_option cn_depth (m i) = Some (int n)"
      if "i \<in> set (cids (take (Suc k) all))" "level (parent_in all) n i" for i n
    proof (cases "i = cr_id ?c")
      case True
      with that(2) have "level (parent_in all) n (cr_id ?c)" by simp
      from at [OF this] show ?thesis unfolding True .
    next
      case False
      with that(1) have "i \<in> set (cids (take k all))" by (simp add: ids)
      with conjunct1 [OF ih] that(2) show ?thesis unfolding old [OF False] by blast
    qed
    show "map_option cn_depth (m i) = Some 0" if "i \<in> set (cids all) - set (cids (take (Suc k) all))" for i
    proof -
      from that have "i \<noteq> cr_id ?c" "i \<in> set (cids all) - set (cids (take k all))" by (simp_all add: ids)
      with conjunct2 [OF ih] old show ?thesis by simp
    qed
  qed
qed

subsection \<open>The list\<close>

lemma flatten_comments_walk:
  "set is \<subseteq> set (cids cs) \<Longrightarrow> \<forall>p\<in>set (cids cs). kids m p = answers_in cs p \<Longrightarrow>
     flatten_comments f m is = map_option (map fst) (walk f (answers_in cs) is d)"
proof (induction f m "is" arbitrary: d rule: flatten_comments.induct)
  case (3 f m i js)
  have ch: "(case m i of None \<Rightarrow> [] | Some n \<Rightarrow> cn_children n) = answers_in cs i"
    using 3(3,4) by (simp add: kids_def)
  have "set (answers_in cs i) \<subseteq> set (cids cs)" by (auto simp: answers_in_def cids_def)
  note IH1 = 3(1) [unfolded ch, OF this 3(4), of "d + 1"]
  have IH2: "flatten_comments (Suc f) m js = map_option (map fst) (walk (Suc f) (answers_in cs) js d)"
    if "walk f (answers_in cs) (answers_in cs i) (d + 1) = Some below" for below
    using 3(2) [unfolded ch IH1 that, of "map fst below" d] 3(3,4) by simp
  show ?case
    by (cases "walk f (answers_in cs) (answers_in cs i) (d + 1)")
      (simp_all add: ch IH1 IH2 option.map_comp comp_def)
qed simp_all

text \<open>The list is the walk, with each comment in its node.\<close>

lemma thread_comments_walk:
  assumes d: "distinct (cids cs)"
  shows "\<exists>(m :: comment_map) ps xs ys.
    thread_comments cs = Some (map (\<lambda>(i, _). (cn_comment (the (m i)), cn_depth (the (m i)))) ps)
    \<and> ps = xs @ ys \<and> walk (Suc (length cs)) (answers_in cs) (plain_tops cs) 0 = Some xs
    \<and> walk (Suc (length cs)) (answers_in cs) (blurred_tops cs) 0 = Some ys
    \<and> walk (Suc (length cs)) (answers_in cs) (plain_tops cs @ blurred_tops cs) 0 = Some ps
    \<and> (\<forall>i\<in>set (cids cs). \<exists>n. m i = Some n \<and> cn_comment n \<in> set cs \<and> cr_id (cn_comment n) = i)
    \<and> (parents_first cs \<longrightarrow> (\<forall>i\<in>set (cids cs). \<forall>n. level (parent_in cs) n i \<longrightarrow> cn_depth (the (m i)) = int n))"
proof -
  obtain m r b where st: "foldl link_comment (comment_nodes cs, [], []) cs = (m, r, b)" by (metis surj_pair)
  note l = link_comments [OF st subset_refl]
  have "length (cids cs) \<le> Suc (length cs)" by (simp add: cids_def)
  from comment_tree.walk_total [OF d this] obtain ps where
    ps: "walk (Suc (length cs)) (answers_in cs) (plain_tops cs @ blurred_tops cs) 0 = Some ps" by blast
  from ps obtain xs ys where w: "walk (Suc (length cs)) (answers_in cs) (plain_tops cs) 0 = Some xs"
    "walk (Suc (length cs)) (answers_in cs) (blurred_tops cs) 0 = Some ys" "ps = xs @ ys"
    by (auto simp: walk_append split: option.splits)
  have sub: "set (plain_tops cs) \<subseteq> set (cids cs)" "set (blurred_tops cs) \<subseteq> set (cids cs)"
    by (auto simp: plain_tops_def blurred_tops_def cids_def)
  have "flatten_comments (Suc (length cs)) m r = Some (map fst xs)"
    "flatten_comments (Suc (length cs)) m b = Some (map fst ys)"
    using flatten_comments_walk [OF sub(1), of m "Suc (length cs)" 0]
      flatten_comments_walk [OF sub(2), of m "Suc (length cs)" 0] w l by simp_all
  then have t: "thread_comments cs = Some (map (\<lambda>(i, _). (cn_comment (the (m i)), cn_depth (the (m i)))) ps)"
    by (simp add: thread_comments_def st w(3) comp_def case_prod_unfold)
  have cell: "\<exists>n. m i = Some n \<and> cn_comment n \<in> set cs \<and> cr_id (cn_comment n) = i" if "i \<in> set (cids cs)" for i
  proof -
    from that dom_comment_nodes obtain n0 where n0: "comment_nodes cs i = Some n0" by (metis domD)
    with l have "map_option cn_comment (m i) = Some (cn_comment n0)" by (metis option.simps(9))
    then obtain n where "m i = Some n" "cn_comment n = cn_comment n0" by auto
    with comment_nodes_at [OF n0] show ?thesis by simp
  qed
  have dep: "cn_depth (the (m i)) = int n"
    if "parents_first cs" "i \<in> set (cids cs)" "level (parent_in cs) n i" for i n
  proof -
    have "map_option cn_depth (m i) = Some (int n)"
      using link_depths [OF d that(1), of "length cs"] st that(2,3) by simp
    then show ?thesis by (cases "m i") simp_all
  qed
  show ?thesis
    by (intro exI [of _ m] exI [of _ ps] exI [of _ xs] exI [of _ ys] conjI t ps w) (use cell dep in blast)+
qed

subsection \<open>The rows of a post\<close>

definition post_rows :: "db \<Rightarrow> int \<Rightarrow> (int \<times> comment_row) list" where
  "post_rows d p = sort_key (\<lambda>(i, c). co_created_at c)
     (tbl_select (\<lambda>_ c. co_post_id c = p \<and> tbl_get (db_users d) (co_user_id c) \<noteq> None) (db_comments d))"

text \<open>The rows and the comments made from them agree in number, key, parent and blur.\<close>

definition comment_key :: "comment \<Rightarrow> int \<times> int option \<times> bool" where
  "comment_key c = (cr_id c, cr_parent_id c, cr_is_blurred c)"

lemma post_comments_rows:
  "map comment_key (post_comments d p v) = map (\<lambda>(i, c). (i, co_parent_id c, co_is_blurred c)) (post_rows d p)"
  by (auto simp: post_comments_def post_rows_def Let_def comment_key_def comment_of_row_def comp_def
      split: option.splits prod.splits)

lemma row_in:
  "tbl_ok (db_comments d) \<Longrightarrow> (i, c) \<in> set (post_rows d p) \<longleftrightarrow>
     tbl_get (db_comments d) i = Some c \<and> co_post_id c = p \<and> tbl_get (db_users d) (co_user_id c) \<noteq> None"
  by (auto simp: post_rows_def tbl_select_def tbl_in_get)

lemma comment_in_row:
  assumes "tbl_ok (db_comments d)" "x \<in> set (post_comments d p v)" "cr_id x = i"
  obtains c where "tbl_get (db_comments d) i = Some c" "co_post_id c = p"
    "tbl_get (db_users d) (co_user_id c) \<noteq> None" "cr_parent_id x = co_parent_id c" "cr_is_blurred x = co_is_blurred c"
proof -
  have "comment_key x \<in> set (map comment_key (post_comments d p v))" using assms(2) by simp
  then obtain i c where "(i, c) \<in> set (post_rows d p)" "comment_key x = (i, co_parent_id c, co_is_blurred c)"
    unfolding post_comments_rows by auto
  with that row_in [OF assms(1)] assms(3) show thesis by (simp add: comment_key_def)
qed

lemma row_is_comment:
  assumes "tbl_ok (db_comments d)" "tbl_get (db_comments d) i = Some c" "co_post_id c = p"
    "tbl_get (db_users d) (co_user_id c) \<noteq> None"
  obtains x where "x \<in> set (post_comments d p v)" "cr_id x = i" "cr_parent_id x = co_parent_id c"
proof -
  have "(i, c) \<in> set (post_rows d p)" using row_in [OF assms(1)] assms(2-4) by simp
  then have "(i, co_parent_id c, co_is_blurred c) \<in> set (map comment_key (post_comments d p v))"
    unfolding post_comments_rows by force
  with that show thesis by (auto simp: comment_key_def)
qed

lemma cids_rows: "cids (post_comments d p v) = map fst (post_rows d p)"
proof -
  have "cids cs = map fst (map comment_key cs)" for cs by (simp add: cids_def comment_key_def comp_def)
  then show ?thesis by (simp only: post_comments_rows) (simp add: comp_def case_prod_unfold)
qed

lemma distinct_rows: "tbl_ok (db_comments d) \<Longrightarrow> distinct (cids (post_comments d p v))"
proof -
  assume ok: "tbl_ok (db_comments d)"
  let ?xs = "tbl_select (\<lambda>_ c. co_post_id c = p \<and> tbl_get (db_users d) (co_user_id c) \<noteq> None) (db_comments d)"
  have "distinct (map fst ?xs)" using ok by (simp add: tbl_select_def tbl_ok_def distinct_map_filter)
  then have "distinct ?xs" "inj_on fst (set ?xs)" by (simp_all add: distinct_map)
  then show ?thesis by (simp add: cids_rows post_rows_def distinct_map)
qed

text \<open>Times and keys agree with the order of writing.\<close>

definition written_in_order :: "db \<Rightarrow> bool" where
  "written_in_order d \<longleftrightarrow> (\<forall>i c q c'. tbl_get (db_comments d) i = Some c \<longrightarrow> co_parent_id c = Some q \<longrightarrow>
     tbl_get (db_comments d) q = Some c' \<longrightarrow> q < i \<and> co_created_at c' \<le> co_created_at c)"

lemma rows_parents_first:
  assumes "tbl_ok (db_comments d)" "written_in_order d"
  shows "parents_first (post_comments d p v)"
  unfolding parents_first_def
proof (intro allI impI ballI)
  let ?cs = "post_comments d p v" and ?rows = "post_rows d p"
  fix k q
  assume k: "k < length ?cs" and q: "q \<in> set (cids ?cs)" and par: "cr_parent_id (?cs ! k) = Some q"
  have len: "length ?rows = length ?cs" using arg_cong [OF post_comments_rows [of d p v], of length] by simp
  obtain i c where r: "?rows ! k = (i, c)" by (metis surj_pair)
  have "comment_key (?cs ! k) = (i, co_parent_id c, co_is_blurred c)"
    using arg_cong [OF post_comments_rows [of d p v], of "\<lambda>l. l ! k"] k len r by simp
  then have pc: "co_parent_id c = Some q" using par by (simp add: comment_key_def)
  from q obtain j where j: "j < length ?rows" "fst (?rows ! j) = q" by (auto simp: cids_rows in_set_conv_nth)
  obtain c' where r': "?rows ! j = (q, c')" using j(2) by (metis prod.collapse)
  have "(i, c) \<in> set ?rows" "(q, c') \<in> set ?rows" using k len j(1) r r' nth_mem by metis+
  then have o1: "q < i \<and> co_created_at c' \<le> co_created_at c"
    using assms(2) pc row_in [OF assms(1)] unfolding written_in_order_def by blast
  have "sorted_wrt (<) (map fst (tbl_select P (db_comments d)))" for P
    using assms(1) by (simp add: tbl_ok_def tbl_select_def strict_sorted_iff distinct_map_filter sorted_filter)
  from sort_key_stable_wrt [OF this] have st: "sorted_wrt (\<lambda>a b. (case a of (i, c) \<Rightarrow> co_created_at c) < (case b of (i, c) \<Rightarrow> co_created_at c)
      \<or> (case a of (i, c) \<Rightarrow> co_created_at c) = (case b of (i, c) \<Rightarrow> co_created_at c) \<and> fst a < fst b) ?rows"
    unfolding post_rows_def .
  have "\<not> k < j" using sorted_wrt_nth_less [OF st _ j(1), of k] o1 r r' by auto
  moreover have "k \<noteq> j" using o1 r r' by auto
  ultimately have "j < k" by simp
  then have "cids ?cs ! j = q" "j < length (take k ?cs)" using j k len r' by (simp_all add: cids_rows)
  then have "take k ?cs ! j \<in> set (take k ?cs)" "cr_id (take k ?cs ! j) = q"
    using \<open>j < k\<close> k by (simp_all only: nth_mem) (simp add: cids_def)
  then show "q \<in> set (cids (take k ?cs))" by (force simp: cids_def)
qed


subsection \<open>Properties of the threads\<close>

text \<open>The comments of a post that can be seen: top-level ones, and answers to those that can be seen,
  as long as their writers exist.\<close>

inductive shown :: "db \<Rightarrow> int \<Rightarrow> int \<Rightarrow> bool" for d p where
  top: "tbl_get (db_comments d) i = Some c \<Longrightarrow> co_post_id c = p \<Longrightarrow> tbl_get (db_users d) (co_user_id c) \<noteq> None \<Longrightarrow>
    co_parent_id c = None \<Longrightarrow> shown d p i"
| answer: "tbl_get (db_comments d) i = Some c \<Longrightarrow> co_post_id c = p \<Longrightarrow> tbl_get (db_users d) (co_user_id c) \<noteq> None \<Longrightarrow>
    co_parent_id c = Some q \<Longrightarrow> shown d p q \<Longrightarrow> shown d p i"

lemma shown_level:
  assumes ok: "tbl_ok (db_comments d)"
  shows "shown d p i \<longleftrightarrow> i \<in> set (cids (post_comments d p v)) \<and> (\<exists>n. level (parent_in (post_comments d p v)) n i)"
    (is "_ \<longleftrightarrow> i \<in> set (cids ?cs) \<and> _")
proof
  note dis = distinct_rows [OF ok, of p v]
  have at: "i \<in> set (cids ?cs) \<and> parent_in ?cs i = co_parent_id c"
    if c: "tbl_get (db_comments d) i = Some c" "co_post_id c = p" "tbl_get (db_users d) (co_user_id c) \<noteq> None" for i c
  proof -
    obtain x where x: "x \<in> set ?cs" "cr_id x = i" "cr_parent_id x = co_parent_id c"
      using row_is_comment [OF ok c, of v] by blast
    have "cr_id x \<in> set (cids ?cs)" using x(1) by (simp add: cids_def)
    moreover have "parent_in ?cs (cr_id x) = cr_parent_id x" by (rule parent_in_comment [OF dis x(1)])
    ultimately show ?thesis using x(2,3) by simp
  qed
  show "i \<in> set (cids ?cs) \<and> (\<exists>n. level (parent_in ?cs) n i)" if "shown d p i"
    using that
  proof induction
    case (top i c)
    with at [OF top(1-3)] have "level (parent_in ?cs) 0 i" by simp
    with at [OF top(1-3)] show ?case by blast
  next
    case (answer i c q)
    then obtain n where "level (parent_in ?cs) n q" by blast
    with at [OF answer(1-3)] answer(4) have "level (parent_in ?cs) (Suc n) i" by simp
    with at [OF answer(1-3)] show ?case by blast
  qed
  have conv: "shown d p i" if "level (parent_in ?cs) n i" "i \<in> set (cids ?cs)" for n i
    using that
  proof (induction n arbitrary: i)
    case (0 i)
    then obtain x where x: "x \<in> set ?cs" "cr_id x = i" by (auto simp: cids_def)
    obtain c where c: "tbl_get (db_comments d) i = Some c" "co_post_id c = p"
      "tbl_get (db_users d) (co_user_id c) \<noteq> None" "cr_parent_id x = co_parent_id c"
      by (rule comment_in_row [OF ok x]) (rule that; assumption)
    have "co_parent_id c = None" using 0(1) parent_in_comment [OF dis x(1)] x(2) c(4) by simp
    from shown.top [OF c(1-3) this] show ?case .
  next
    case (Suc n i)
    then obtain x where x: "x \<in> set ?cs" "cr_id x = i" by (auto simp: cids_def)
    obtain c where c: "tbl_get (db_comments d) i = Some c" "co_post_id c = p"
      "tbl_get (db_users d) (co_user_id c) \<noteq> None" "cr_parent_id x = co_parent_id c"
      by (rule comment_in_row [OF ok x]) (rule that; assumption)
    obtain q where q: "co_parent_id c = Some q" "level (parent_in ?cs) n q"
      using Suc.prems(1) parent_in_comment [OF dis x(1)] x(2) c(4) by auto
    have "q \<in> set (cids ?cs)" using no_level_outside q(2) by blast
    from Suc.IH [OF q(2) this] show ?case by (rule shown.answer [OF c(1-3) q(1)])
  qed
  show "shown d p i" if "i \<in> set (cids ?cs) \<and> (\<exists>n. level (parent_in ?cs) n i)"
    using that conv by (elim conjE exE)
qed

text \<open>The list that is made of the walks through the threads: first the plain ones, then the blurred.\<close>

definition thread_rows :: "comment_map \<Rightarrow> (int \<times> int) list \<Rightarrow> (comment \<times> int) list" where
  "thread_rows m ps = map (\<lambda>(i, _). (cn_comment (the (m i)), cn_depth (the (m i)))) ps"

definition walked :: "comment list \<Rightarrow> comment_map \<Rightarrow> (int \<times> int) list \<Rightarrow> (int \<times> int) list \<Rightarrow> bool" where
  "walked cs m us bs \<longleftrightarrow> distinct (cids cs)
     \<and> walk (Suc (length cs)) (answers_in cs) (plain_tops cs) 0 = Some us
     \<and> walk (Suc (length cs)) (answers_in cs) (blurred_tops cs) 0 = Some bs
     \<and> walk (Suc (length cs)) (answers_in cs) (plain_tops cs @ blurred_tops cs) 0 = Some (us @ bs)
     \<and> (\<forall>i\<in>set (cids cs). \<exists>n. m i = Some n \<and> cn_comment n \<in> set cs \<and> cr_id (cn_comment n) = i)"

lemma length_thread_rows [simp]: "length (thread_rows m ps) = length ps"
  by (simp add: thread_rows_def)

lemma thread_rows_nth: "k < length ps \<Longrightarrow> thread_rows m ps ! k = (cn_comment (the (m (fst (ps ! k)))), cn_depth (the (m (fst (ps ! k)))))"
  by (simp add: thread_rows_def case_prod_unfold)

lemma walked_parts:
  assumes "walked cs m us bs"
  shows "distinct (cids cs)" "walk (Suc (length cs)) (answers_in cs) (plain_tops cs) 0 = Some us"
    "walk (Suc (length cs)) (answers_in cs) (blurred_tops cs) 0 = Some bs"
    "walk (Suc (length cs)) (answers_in cs) (plain_tops cs @ blurred_tops cs) 0 = Some (us @ bs)"
  using assms unfolding walked_def by blast+

lemma walked_flat:
  assumes "walked cs m us bs"
  shows "distinct (map fst (us @ bs))" "fst ` set (us @ bs) = {i \<in> set (cids cs). \<exists>n. level (parent_in cs) n i}"
  by (rule comment_tree.walk_flat [OF walked_parts(1,4) [OF assms]]; erule exE [OF exI]; insert no_level_outside; blast)+

lemma walked_at:
  assumes "walked cs m us bs" "k < length (us @ bs)"
  shows "fst (thread_rows m (us @ bs) ! k) \<in> set cs" "cr_id (fst (thread_rows m (us @ bs) ! k)) = fst ((us @ bs) ! k)"
    "parent_in cs (fst ((us @ bs) ! k)) = cr_parent_id (fst (thread_rows m (us @ bs) ! k))"
    "fst ((us @ bs) ! k) \<in> set (cids cs)"
proof -
  have "fst ((us @ bs) ! k) \<in> fst ` set (us @ bs)" using assms(2) by (metis image_eqI nth_mem)
  with walked_flat(2) [OF assms(1)] show i: "fst ((us @ bs) ! k) \<in> set (cids cs)" by blast
  with assms(1) obtain n where n: "m (fst ((us @ bs) ! k)) = Some n" "cn_comment n \<in> set cs"
    "cr_id (cn_comment n) = fst ((us @ bs) ! k)" unfolding walked_def by blast
  have r: "thread_rows m (us @ bs) ! k = (cn_comment n, cn_depth n)"
    unfolding thread_rows_nth [OF assms(2)] by (simp add: n(1))
  show "fst (thread_rows m (us @ bs) ! k) \<in> set cs" "cr_id (fst (thread_rows m (us @ bs) ! k)) = fst ((us @ bs) ! k)"
    "parent_in cs (fst ((us @ bs) ! k)) = cr_parent_id (fst (thread_rows m (us @ bs) ! k))"
    using n(2,3) parent_in_comment [OF walked_parts(1) [OF assms(1)] n(2)] unfolding r by simp_all
qed

lemma walked_ids: "walked cs m us bs \<Longrightarrow> map (cr_id \<circ> fst) (thread_rows m (us @ bs)) = map fst (us @ bs)"
  by (rule nth_equalityI) (simp_all only: length_map length_thread_rows nth_map comp_apply walked_at(2))

lemma walk_from_top:
  assumes "distinct (cids cs)" "i \<in> fst ` set qs" "walk f (answers_in cs) js 0 = Some qs" "parent_in cs i = None"
  shows "i \<in> set js"
proof -
  from comment_tree.walk_set [OF assms(3)] assms(2) obtain r where
    r: "r \<in> set js" "(r, i) \<in> (comment_tree.below cs)\<^sup>*" by auto
  from r(2) show ?thesis
    by (cases rule: rtranclE) (use r(1) assms(4) comment_tree.below_par [OF assms(1)] in auto)
qed

lemma tops_blurred:
  assumes "distinct (cids cs)" "c \<in> set cs"
  shows "cr_id c \<in> set (plain_tops cs) \<Longrightarrow> \<not> cr_is_blurred c" "cr_id c \<in> set (blurred_tops cs) \<Longrightarrow> cr_is_blurred c"
  using assms same_comment [OF assms(1)] by (auto simp: plain_tops_def blurred_tops_def)

lemma walked_last:
  assumes w: "walked cs m us bs" and "j < k" "k < length (us @ bs)"
    and "cr_parent_id (fst (thread_rows m (us @ bs) ! j)) = None" "cr_parent_id (fst (thread_rows m (us @ bs) ! k)) = None"
    and "cr_is_blurred (fst (thread_rows m (us @ bs) ! j))"
  shows "cr_is_blurred (fst (thread_rows m (us @ bs) ! k))"
proof -
  note d = walked_parts(1) [OF w]
  have j: "j < length (us @ bs)" using assms(2,3) by simp
  have "length us \<le> j"
  proof (rule ccontr)
    assume "\<not> length us \<le> j"
    then have "fst ((us @ bs) ! j) \<in> fst ` set us" by (simp add: nth_append)
    from walk_from_top [OF d this walked_parts(2) [OF w]] walked_at(3) [OF w j] assms(4)
    have "cr_id (fst (thread_rows m (us @ bs) ! j)) \<in> set (plain_tops cs)" unfolding walked_at(2) [OF w j] by simp
    from tops_blurred(1) [OF d walked_at(1) [OF w j] this] assms(6) show False by (rule notE)
  qed
  then have "fst ((us @ bs) ! k) \<in> fst ` set bs" using assms(2,3) by (simp add: nth_append)
  from walk_from_top [OF d this walked_parts(3) [OF w]] walked_at(3) [OF w assms(3)] assms(5)
  have "cr_id (fst (thread_rows m (us @ bs) ! k)) \<in> set (blurred_tops cs)" unfolding walked_at(2) [OF w assms(3)] by simp
  from tops_blurred(2) [OF d walked_at(1) [OF w assms(3)] this] show ?thesis .
qed

lemma walked_order:
  assumes w: "walked cs m us bs" and k: "k < length (us @ bs)" and q: "cr_parent_id (fst (thread_rows m (us @ bs) ! k)) = Some q"
  obtains j where "j < k" "cr_id (fst (thread_rows m (us @ bs) ! j)) = q" "snd ((us @ bs) ! k) = snd ((us @ bs) ! j) + 1"
proof -
  have "parent_in cs (fst ((us @ bs) ! k)) = Some q" using walked_at(3) [OF w k] q by simp
  with comment_tree.walk_order [OF walked_parts(1,4) [OF w] k] obtain j where
    j: "j < k" "fst ((us @ bs) ! j) = q" "snd ((us @ bs) ! k) = snd ((us @ bs) ! j) + 1" by auto
  then have "j < length (us @ bs)" using k by simp
  from walked_at(2) [OF w this] j(2) have "cr_id (fst (thread_rows m (us @ bs) ! j)) = q" by simp
  from that [OF j(1) this j(3)] show thesis .
qed

lemma walked_depth:
  assumes w: "walked cs m us bs" and k: "k < length (us @ bs)"
    and depth: "\<forall>i\<in>set (cids cs). \<forall>n. level (parent_in cs) n i \<longrightarrow> cn_depth (the (m i)) = int n"
  shows "snd (thread_rows m (us @ bs) ! k) = snd ((us @ bs) ! k)"
proof -
  have "(fst ((us @ bs) ! k), snd ((us @ bs) ! k)) \<in> set (us @ bs)" using k by (metis nth_mem prod.collapse)
  from comment_tree.walk_depth [OF walked_parts(4,1) [OF w] _ comment_tree.tops_level [OF walked_parts(1) [OF w]] this]
  obtain n where "level (parent_in cs) n (fst ((us @ bs) ! k))" "snd ((us @ bs) ! k) = int n" by auto
  with depth walked_at(4) [OF w k] show ?thesis unfolding thread_rows_nth [OF k] by simp
qed

lemma walked_depths:
  assumes w: "walked cs m us bs" and k: "k < length (us @ bs)"
    and depth: "\<forall>i\<in>set (cids cs). \<forall>n. level (parent_in cs) n i \<longrightarrow> cn_depth (the (m i)) = int n"
  shows "case cr_parent_id (fst (thread_rows m (us @ bs) ! k)) of None \<Rightarrow> snd (thread_rows m (us @ bs) ! k) = 0
    | Some q \<Rightarrow> \<exists>j<k. cr_id (fst (thread_rows m (us @ bs) ! j)) = q \<and> snd (thread_rows m (us @ bs) ! k) = snd (thread_rows m (us @ bs) ! j) + 1"
proof (cases "cr_parent_id (fst (thread_rows m (us @ bs) ! k))")
  case None
  with comment_tree.walk_order [OF walked_parts(1,4) [OF w] k] walked_at(3) [OF w k] walked_depth [OF w k depth]
  show ?thesis by simp
next
  case (Some q)
  from walked_order [OF w k this] obtain j where j: "j < k" "cr_id (fst (thread_rows m (us @ bs) ! j)) = q"
    "snd ((us @ bs) ! k) = snd ((us @ bs) ! j) + 1" .
  then have "j < length (us @ bs)" using k by simp
  from walked_depth [OF w this depth] walked_depth [OF w k depth] j
  have "snd (thread_rows m (us @ bs) ! k) = snd (thread_rows m (us @ bs) ! j) + 1" by simp
  with j(1,2) Some show ?thesis by auto
qed

lemma thread_list:
  assumes "tbl_ok (db_comments d)"
  shows "\<exists>xs. get_post_comments d p v = Some xs \<and> distinct (map (cr_id \<circ> fst) xs)
    \<and> cr_id ` fst ` set xs = {i. shown d p i} \<and> fst ` set xs \<subseteq> set (post_comments d p v)
    \<and> (\<forall>k<length xs. case cr_parent_id (fst (xs ! k)) of None \<Rightarrow> True
         | Some q \<Rightarrow> \<exists>j<k. cr_id (fst (xs ! j)) = q)
    \<and> (\<forall>j k. j < k \<and> k < length xs \<and> cr_parent_id (fst (xs ! j)) = None \<and> cr_parent_id (fst (xs ! k)) = None
         \<and> cr_is_blurred (fst (xs ! j)) \<longrightarrow> cr_is_blurred (fst (xs ! k)))
    \<and> (written_in_order d \<longrightarrow> (\<forall>k<length xs. case cr_parent_id (fst (xs ! k)) of None \<Rightarrow> snd (xs ! k) = 0
         | Some q \<Rightarrow> \<exists>j<k. cr_id (fst (xs ! j)) = q \<and> snd (xs ! k) = snd (xs ! j) + 1))"
proof -
  let ?cs = "post_comments d p v"
  note dis = distinct_rows [OF assms, of p v]
  obtain m :: comment_map and ps us bs where t: "thread_comments ?cs = Some (thread_rows m ps)" and e: "ps = us @ bs"
    and walks: "walk (Suc (length ?cs)) (answers_in ?cs) (plain_tops ?cs) 0 = Some us"
      "walk (Suc (length ?cs)) (answers_in ?cs) (blurred_tops ?cs) 0 = Some bs"
      "walk (Suc (length ?cs)) (answers_in ?cs) (plain_tops ?cs @ blurred_tops ?cs) 0 = Some ps"
      "\<forall>i\<in>set (cids ?cs). \<exists>n. m i = Some n \<and> cn_comment n \<in> set ?cs \<and> cr_id (cn_comment n) = i"
    and depth: "parents_first ?cs \<longrightarrow> (\<forall>i\<in>set (cids ?cs). \<forall>n. level (parent_in ?cs) n i \<longrightarrow> cn_depth (the (m i)) = int n)"
    using thread_comments_walk [OF dis, folded thread_rows_def] by (elim exE conjE) (rule that; assumption)
  have w: "walked ?cs m us bs" unfolding walked_def e [symmetric] using dis walks by (intro conjI)
  let ?xs = "thread_rows m (us @ bs)"
  note ids = walked_ids [OF w]
  have "cr_id ` fst ` set ?xs = fst ` set (us @ bs)"
    using arg_cong [OF ids, of set] by (simp only: set_map image_comp o_assoc)
  then have sh: "cr_id ` fst ` set ?xs = {i. shown d p i}"
    unfolding walked_flat(2) [OF w] by (auto simp: shown_level [OF assms, where v = v])
  have sub: "fst ` set ?xs \<subseteq> set ?cs" using walked_at(1) [OF w] by (fastforce simp: in_set_conv_nth)
  have dx: "distinct (map (cr_id \<circ> fst) ?xs)" unfolding ids by (rule walked_flat(1) [OF w])
  have "\<exists>j<k. cr_id (fst (?xs ! j)) = q" if "k < length (us @ bs)" "cr_parent_id (fst (?xs ! k)) = Some q" for k q
    using walked_order [OF w that] by blast
  then have ord: "\<forall>k<length ?xs. case cr_parent_id (fst (?xs ! k)) of None \<Rightarrow> True | Some q \<Rightarrow> \<exists>j<k. cr_id (fst (?xs ! j)) = q"
    unfolding length_thread_rows by (simp split: option.split)
  have bl: "\<forall>j k. j < k \<and> k < length ?xs \<and> cr_parent_id (fst (?xs ! j)) = None \<and> cr_parent_id (fst (?xs ! k)) = None
      \<and> cr_is_blurred (fst (?xs ! j)) \<longrightarrow> cr_is_blurred (fst (?xs ! k))"
    unfolding length_thread_rows by (intro allI impI, elim conjE) (rule walked_last [OF w])
  have dp: "written_in_order d \<longrightarrow> (\<forall>k<length ?xs. case cr_parent_id (fst (?xs ! k)) of None \<Rightarrow> snd (?xs ! k) = 0
      | Some q \<Rightarrow> \<exists>j<k. cr_id (fst (?xs ! j)) = q \<and> snd (?xs ! k) = snd (?xs ! j) + 1)"
    unfolding length_thread_rows using depth rows_parents_first [OF assms] by (intro allI impI walked_depths [OF w]) blast+
  show ?thesis
    by (intro exI [of _ ?xs] conjI t [folded get_post_comments_def, unfolded e] dx sh sub ord bl dp)
qed


text \<open>A post with a blurred comment and its answer, and another comment with two answers below.\<close>

definition discussion :: db where
  "discussion = content_run [(vote_env, Create_comment 1 1 None None ''a''), (vote_env, Blur_comment 2),
     (vote_env, Create_comment 1 1 (Some 2) None ''b''), (vote_env, Create_comment 1 1 (Some 1) None ''c''),
     (vote_env, Create_comment 1 1 (Some 4) None ''d'')] small_db"

lemma discussion_ok: "tbl_ok (db_comments discussion)"
  unfolding discussion_def by (rule content_ok_tables(2) [OF content_run_ok [OF small_db_ok]])

text \<open>Conditions on all comments, checked on the rows.\<close>

lemma all_comments:
  "tbl_ok (db_comments d) \<Longrightarrow> (\<forall>i c. tbl_get (db_comments d) i = Some c \<longrightarrow> P i c)
     \<longleftrightarrow> list_all (\<lambda>(i, c). P i c) (snd (db_comments d))"
  by (auto simp: list_all_iff tbl_in_get [symmetric])

lemma discussion_in_order: "written_in_order discussion"
proof -
  let ?P = "\<lambda>i c. case co_parent_id c of None \<Rightarrow> True | Some q \<Rightarrow> (case tbl_get (db_comments discussion) q of
     None \<Rightarrow> True | Some c' \<Rightarrow> q < i \<and> co_created_at c' \<le> co_created_at c)"
  have "list_all (\<lambda>(i, c). ?P i c) (snd (db_comments discussion))" by code_simp
  then have "\<forall>i c. tbl_get (db_comments discussion) i = Some c \<longrightarrow> ?P i c"
    using all_comments [OF discussion_ok, of ?P] by simp
  then show ?thesis unfolding written_in_order_def by (auto split: option.splits)
qed

lemma discussion_listed:
  "map_option (map (\<lambda>(c, n). (cr_id c, n))) (get_post_comments discussion 1 None) = Some [(1, 0), (4, 1), (5, 2), (2, 0), (3, 1)]"
  by code_simp


text \<open>
  Nothing under a post is lost and depths are right: if comments were written in the order of
  their keys and times, and every answer is on the same post as what it answers, then the list has
  every comment of the post whose writer exists, top-level comments with depth 0 and every answer one
  deeper than what it answers.
\<close>

theorem comment_depths:
  assumes "tbl_ok (db_comments d)" "written_in_order d"
    and "\<forall>i c q. tbl_get (db_comments d) i = Some c \<and> co_parent_id c = Some q \<longrightarrow>
      (\<exists>c'. tbl_get (db_comments d) q = Some c' \<and> co_post_id c' = co_post_id c
         \<and> tbl_get (db_users d) (co_user_id c') \<noteq> None)"
  shows "\<exists>xs. get_post_comments d p v = Some xs \<and> distinct (map (cr_id \<circ> fst) xs)
    \<and> cr_id ` fst ` set xs = {i. \<exists>c. tbl_get (db_comments d) i = Some c \<and> co_post_id c = p
         \<and> tbl_get (db_users d) (co_user_id c) \<noteq> None}
    \<and> (\<forall>k<length xs. case cr_parent_id (fst (xs ! k)) of None \<Rightarrow> snd (xs ! k) = 0
         | Some q \<Rightarrow> \<exists>j<k. cr_id (fst (xs ! j)) = q \<and> snd (xs ! k) = snd (xs ! j) + 1)"
proof -
  have "shown d p i" if "tbl_get (db_comments d) i = Some c" "co_post_id c = p"
    "tbl_get (db_users d) (co_user_id c) \<noteq> None" for i c
    using that
  proof (induction "nat i" arbitrary: i c rule: less_induct)
    case less
    show ?case
    proof (cases "co_parent_id c")
      case None
      from shown.top [OF less.prems this] show ?thesis .
    next
      case (Some q)
      then obtain c' where c': "tbl_get (db_comments d) q = Some c'" "co_post_id c' = co_post_id c"
        "tbl_get (db_users d) (co_user_id c') \<noteq> None" using assms(3) less.prems(1) by blast
      have "q < i" using assms(2) less.prems(1) Some c'(1) unfolding written_in_order_def by blast
      moreover have "1 \<le> q" using tbl_get_range [OF assms(1) c'(1)] by simp
      ultimately have "nat q < nat i" by simp
      from less.hyps [OF this c'(1) _ c'(3)] c'(2) less.prems(2) have "shown d p q" by simp
      from shown.answer [OF less.prems Some this] show ?thesis .
    qed
  qed
  moreover have "\<exists>c. tbl_get (db_comments d) i = Some c \<and> co_post_id c = p \<and> tbl_get (db_users d) (co_user_id c) \<noteq> None"
    if "shown d p i" for i using that by cases blast+
  ultimately have "{i. shown d p i} = {i. \<exists>c. tbl_get (db_comments d) i = Some c \<and> co_post_id c = p
      \<and> tbl_get (db_users d) (co_user_id c) \<noteq> None}" by blast
  with thread_list [OF assms(1), of p v] assms(2) show ?thesis
    by (elim exE conjE) (intro exI conjI; (assumption | simp only: simp_thms))
qed

lemma comment_depths_witness:
  "\<exists>xs. get_post_comments discussion 1 None = Some xs
     \<and> map (\<lambda>(c, n). (cr_id c, n)) xs = [(1, 0), (4, 1), (5, 2), (2, 0), (3, 1)]
     \<and> cr_id ` fst ` set xs = {i. \<exists>c. tbl_get (db_comments discussion) i = Some c \<and> co_post_id c = 1
         \<and> tbl_get (db_users discussion) (co_user_id c) \<noteq> None}"
proof -
  let ?P = "\<lambda>i c. case co_parent_id c of None \<Rightarrow> True | Some q \<Rightarrow> (case tbl_get (db_comments discussion) q of
     None \<Rightarrow> False | Some c' \<Rightarrow> co_post_id c' = co_post_id c \<and> tbl_get (db_users discussion) (co_user_id c') \<noteq> None)"
  have "list_all (\<lambda>(i, c). ?P i c) (snd (db_comments discussion))" by code_simp
  then have "\<forall>i c. tbl_get (db_comments discussion) i = Some c \<longrightarrow> ?P i c"
    using all_comments [OF discussion_ok, of ?P] by simp
  then have "\<forall>i c q. tbl_get (db_comments discussion) i = Some c \<and> co_parent_id c = Some q \<longrightarrow>
      (\<exists>c'. tbl_get (db_comments discussion) q = Some c' \<and> co_post_id c' = co_post_id c
         \<and> tbl_get (db_users discussion) (co_user_id c') \<noteq> None)" by (fastforce split: option.splits)
  from comment_depths [OF discussion_ok discussion_in_order this, of 1 None] discussion_listed show ?thesis
    by auto
qed

subsection \<open>Deleting a comment with everything below it\<close>

definition comment_ids :: "db \<Rightarrow> int list" where
  "comment_ids d = map fst (snd (db_comments d))"

definition answered_by :: "db \<Rightarrow> int \<Rightarrow> int option" where
  "answered_by d i = (case tbl_get (db_comments d) i of None \<Rightarrow> None | Some c \<Rightarrow> co_parent_id c)"

definition top_comments :: "db \<Rightarrow> int list" where
  "top_comments d = map fst (tbl_select (\<lambda>_ c. co_parent_id c = None) (db_comments d))"

interpretation all_threads: reply_forest "\<lambda>d :: db. tbl_ok (db_comments d)" comment_ids answered_by replies_of top_comments
proof
  fix d :: db and i
  assume ok: "tbl_ok (db_comments d)"
  have row: "(j, c) \<in> set (snd (db_comments d)) \<longleftrightarrow> tbl_get (db_comments d) j = Some c" for j c
    by (rule tbl_in_get [OF ok])
  show "set (replies_of d i) = {j \<in> set (comment_ids d). answered_by d j = Some i}"
    "set (top_comments d) = {j \<in> set (comment_ids d). answered_by d j = None}"
    by (auto simp: replies_of_def top_comments_def comment_ids_def answered_by_def tbl_select_def row image_iff
        split: option.splits)
  have "distinct (comment_ids d)" using ok by (simp add: comment_ids_def tbl_ok_def)
  then show "distinct (replies_of d i)" "distinct (top_comments d)"
    by (simp_all add: replies_of_def top_comments_def comment_ids_def tbl_select_def distinct_map_filter)
qed

lemma fold_delete_get:
  "tbl_get (db_comments (fold delete_comment ids d)) j
     = map_option (\<lambda>c. if j \<in> set ids then c\<lparr>co_is_deleted := True\<rparr> else c) (tbl_get (db_comments d) j)"
proof (induction ids arbitrary: d)
  case Nil
  then show ?case by (cases "tbl_get (db_comments d) j") simp_all
next
  case (Cons i ids)
  then show ?case
    by (cases "tbl_get (db_comments d) j") (simp_all add: delete_comment_def set_comment_def tbl_update_get)
qed

lemma fold_delete_rest: "\<exists>t. fold delete_comment ids d = d\<lparr>db_comments := t\<rparr>"
proof (induction ids arbitrary: d)
  case Nil
  have "fold delete_comment [] d = d\<lparr>db_comments := db_comments d\<rparr>" by simp
  then show ?case by blast
next
  case (Cons i ids)
  obtain u where u: "delete_comment i d = d\<lparr>db_comments := u\<rparr>"
    unfolding delete_comment_def set_comment_def by blast
  obtain t where "fold delete_comment ids (d\<lparr>db_comments := u\<rparr>) = d\<lparr>db_comments := u\<rparr>\<lparr>db_comments := t\<rparr>"
    using Cons.IH by blast
  then show ?case by (intro exI [of _ t]) (simp add: u)
qed

lemma answers_levelled:
  assumes "tbl_ok (db_comments d)" "written_in_order d"
  shows "\<exists>n. level (answered_by d) n j"
proof (induction "nat j" arbitrary: j rule: less_induct)
  case (less j)
  show ?case
  proof (cases "answered_by d j")
    case None
    then have "level (answered_by d) 0 j" by simp
    then show ?thesis by blast
  next
    case (Some q)
    then obtain c where c: "tbl_get (db_comments d) j = Some c" "co_parent_id c = Some q"
      by (auto simp: answered_by_def split: option.splits)
    have "\<exists>n. level (answered_by d) n q"
    proof (cases "tbl_get (db_comments d) q")
      case None
      then have "level (answered_by d) 0 q" by (simp add: answered_by_def)
      then show ?thesis by blast
    next
      case (Some c')
      with assms(2) c have "q < j" unfolding written_in_order_def by blast
      moreover have "1 \<le> q" using tbl_get_range [OF assms(1) Some] by simp
      ultimately show ?thesis by (intro less.hyps) simp
    qed
    then obtain n where "level (answered_by d) n q" by blast
    with Some have "level (answered_by d) (Suc n) j" by simp
    then show ?thesis by blast
  qed
qed



end
