(* ===== verification/WebContent.thy ===== *)
theory WebContent
  imports WebAuth Listings CommentThreads
begin

text \<open>
  Posting, commenting and voting over the web (\<^verbatim>\<open>tools/makhor/pkg/handlers/posts.go\<close>,
  \<^verbatim>\<open>comments.go\<close>, and the routers of \<^verbatim>\<open>tools/makhor/cmd/makhor/main.go\<close>),
  and who may do it: whatever requests come, a post or a comment is changed only by its author, an
  administrator, or, for the parts that moderators decide on, a moderator of one of the post's tags.
\<close>

subsection \<open>What the handlers begin with\<close>

definition as_user :: "site \<Rightarrow> user option \<Rightarrow> web \<Rightarrow> (user \<Rightarrow> response \<times> web) \<Rightarrow> response \<times> web" where
  "as_user s user w k = (case user of None \<Rightarrow> (redirect s ''/login'', w) | Some u \<Rightarrow> k u)"

definition as_admin :: "user option \<Rightarrow> web \<Rightarrow> (user \<Rightarrow> response \<times> web) \<Rightarrow> response \<times> web" where
  "as_admin user w k = (case user of None \<Rightarrow> (Error_page 403 ''Forbidden'', w)
     | Some u \<Rightarrow> if \<not> ur_is_admin u then (Error_page 403 ''Forbidden'', w) else k u)"

definition on_post :: "web_request \<Rightarrow> web \<Rightarrow> (int \<Rightarrow> post \<Rightarrow> response \<times> web) \<Rightarrow> response \<times> web" where
  "on_post r w k =
     (case get_path_id r ''/posts/'' of
        None \<Rightarrow> (Error_page 400 ''Invalid post ID'', w)
      | Some i \<Rightarrow> (case get_post_by_id (wb_db w) i None of
          Inl _ \<Rightarrow> (Error_page 404 ''Post not found'', w)
        | Inr p \<Rightarrow> k i p))"

definition on_comment :: "web_request \<Rightarrow> web \<Rightarrow> (int \<Rightarrow> comment \<Rightarrow> response \<times> web) \<Rightarrow> response \<times> web" where
  "on_comment r w k =
     (case get_path_id r ''/comments/'' of
        None \<Rightarrow> (Error_page 400 ''Invalid comment ID'', w)
      | Some i \<Rightarrow> (case get_comment_by_id (wb_db w) i None of
          Inl _ \<Rightarrow> (Error_page 404 ''Comment not found'', w)
        | Inr c \<Rightarrow> k i c))"

definition verify_user_hat :: "db \<Rightarrow> string \<Rightarrow> int \<Rightarrow> int option" where
  "verify_user_hat d hat u =
     (if hat = [] then None
      else (case parse_int hat of None \<Rightarrow> None | Some h \<Rightarrow> if user_owns_hat d u h then Some h else None))"

definition post_url :: "int \<Rightarrow> string" where
  "post_url i = ''/posts/'' @ itoa i"

definition comment_url :: "int \<Rightarrow> int \<Rightarrow> string" where
  "comment_url p c = post_url p @ ''#c'' @ itoa c"

subsection \<open>Posts\<close>

text \<open>The tags named in a form, divided into those there are and those unknown.\<close>

fun named_tags :: "db \<Rightarrow> string list \<Rightarrow> int list \<times> string list" where
  "named_tags d [] = ([], [])"
| "named_tags d (n # ns) =
     (case named_tags d ns of (known, unknown) \<Rightarrow>
        (let name = trim_space n in
         if name = [] then (known, unknown)
         else (case get_tag_by_name d name of
                 Inl _ \<Rightarrow> (known, name # unknown) | Inr t \<Rightarrow> (tr_id t # known, unknown))))"

definition title_ok :: "string \<Rightarrow> bool" where
  "title_ok title \<longleftrightarrow> \<not> (length title < 3 \<or> length title > 200)"

definition submit_errors :: "string \<Rightarrow> string \<Rightarrow> string \<Rightarrow> int list \<Rightarrow> string list \<Rightarrow> string list" where
  "submit_errors title url body known unknown =
     (if \<not> title_ok title then [''Title must be between 3 and 200 characters''] else [])
     @ (if url \<noteq> [] \<and> parse_request_uri url = None then [''Invalid URL''] else [])
     @ (if url = [] \<and> body = [] then [''Either URL or body text is required''] else [])
     @ (if unknown \<noteq> [] then [''Unknown tag(s): '' @ join_with '', '' unknown] else [])
     @ (if known = [] then [''At least one valid tag is required''] else [])"

definition submit_post :: "denv \<Rightarrow> site \<Rightarrow> web_request \<Rightarrow> user option \<Rightarrow> web \<Rightarrow> response \<times> web" where
  "submit_post e s r user w = as_user s user w (\<lambda>u.
     if rq_form r = None then (Error_page 400 ''Invalid form data'', w)
     else let title = trim_space (form_value r ''title''); url = trim_space (form_value r ''url'');
              body = trim_space (form_value r ''body''); tags = trim_space (form_value r ''tags'');
              d = wb_db w; hat = verify_user_hat d (form_value r ''hat_id'') (ur_id u)
     in (case (if tags = [] then ([], []) else named_tags d (split_on (CHR '','') tags)) of
           (known, unknown) \<Rightarrow>
             (let errors = submit_errors title url body known unknown in
              if errors \<noteq> []
              then (Page ''submit.html'' (map (\<lambda>m. (''Errors'', m)) errors @
                      [(''Title'', title), (''URL'', url), (''Body'', body), (''SelectedTags'', tags)]), w)
              else (case create_post_with_source_and_hat e (ur_id u) title url body known ''user'' None hat d of
                  (Inl _, d') \<Rightarrow> (Error_page 500 ''Could not create post'', w\<lparr>wb_db := d'\<rparr>)
                | (Inr p, d') \<Rightarrow> (redirect s (post_url (pr_id p)),
                    log_as e r user ''post_create'' ''post'' (pr_id p) title (w\<lparr>wb_db := d'\<rparr>))))))"

definition edit_post_page :: "site \<Rightarrow> web_request \<Rightarrow> user option \<Rightarrow> web \<Rightarrow> response \<times> web" where
  "edit_post_page s r user w = as_user s user w (\<lambda>u. on_post r w (\<lambda>i p.
     if pr_user_id p \<noteq> ur_id u \<and> \<not> ur_is_admin u then (Error_page 403 ''You cannot edit this post'', w)
     else (Page ''edit_post.html'' [], w)))"

definition edit_post_submit :: "denv \<Rightarrow> site \<Rightarrow> web_request \<Rightarrow> user option \<Rightarrow> web \<Rightarrow> response \<times> web" where
  "edit_post_submit e s r user w = as_user s user w (\<lambda>u. on_post r w (\<lambda>i p.
     if pr_user_id p \<noteq> ur_id u \<and> \<not> ur_is_admin u then (Error_page 403 ''You cannot edit this post'', w)
     else if rq_form r = None then (Error_page 400 ''Invalid form data'', w)
     else let title = trim_space (form_value r ''title''); body = trim_space (form_value r ''body'');
              done = (\<lambda>w. (redirect s (post_url i), log_as e r user ''post_update'' ''post'' i [] w))
     in if \<not> title_ok title
        then (Page ''edit_post.html'' [(''Error'', ''Title must be between 3 and 200 characters'')], w)
        else if title \<noteq> pr_title p \<or> body \<noteq> pr_body p
        then (case update_post_with_revision e i (ur_id u) (pr_title p) (pr_body p) title body (wb_db w) of
            (Inl _, d) \<Rightarrow> (Error_page 500 ''Could not update post'', w\<lparr>wb_db := d\<rparr>)
          | (Inr _, d) \<Rightarrow> done (w\<lparr>wb_db := d\<rparr>))
        else done w))"

definition web_delete_post :: "denv \<Rightarrow> site \<Rightarrow> web_request \<Rightarrow> user option \<Rightarrow> web \<Rightarrow> response \<times> web" where
  "web_delete_post e s r user w = as_user s user w (\<lambda>u. on_post r w (\<lambda>i p.
     if pr_user_id p \<noteq> ur_id u \<and> \<not> ur_is_admin u then (Error_page 403 ''You cannot delete this post'', w)
     else (redirect s ''/'',
       log_as e r user ''post_delete'' ''post'' i (pr_title p) (map_db (delete_post i) w))))"

definition web_vote_post :: "denv \<Rightarrow> site \<Rightarrow> web_request \<Rightarrow> user option \<Rightarrow> web \<Rightarrow> response \<times> web" where
  "web_vote_post e s r user w = as_user s user w (\<lambda>u.
     (case get_path_id r ''/posts/'' of
        None \<Rightarrow> (Error_page 400 ''Invalid post ID'', w)
      | Some i \<Rightarrow> (case vote_post e (ur_id u) i (wb_db w) of
            (Inl _, d) \<Rightarrow> (Error_page 500 ''Could not vote'', w\<lparr>wb_db := d\<rparr>)
          | (Inr (_, voted), d) \<Rightarrow> (redirect_back s r (post_url i),
              if voted then log_as e r user ''vote_post'' ''post'' i ''upvote'' (w\<lparr>wb_db := d\<rparr>) else w\<lparr>wb_db := d\<rparr>))))"

definition remove_post_tag :: "denv \<Rightarrow> site \<Rightarrow> web_request \<Rightarrow> user option \<Rightarrow> web \<Rightarrow> response \<times> web" where
  "remove_post_tag e s r user w = as_user s user w (\<lambda>u.
     (case (parse_int (query_get r ''post''), parse_int (query_get r ''tag'')) of
        (None, _) \<Rightarrow> (Error_page 400 ''Invalid post ID'', w)
      | (Some _, None) \<Rightarrow> (Error_page 400 ''Invalid tag ID'', w)
      | (Some i, Some t) \<Rightarrow> (case get_post_by_id (wb_db w) i None of
            Inl _ \<Rightarrow> (Error_page 404 ''Post not found'', w)
          | Inr p \<Rightarrow>
              if pr_user_id p \<noteq> ur_id u \<and> \<not> can_moderate_tag (wb_db w) t (ur_id u) \<and> \<not> ur_is_admin u
              then (Error_page 403 ''You cannot remove this tag'', w)
              else (redirect s (post_url i), log_as e r user ''remove_post_tag'' ''post'' i (''tag_id='' @ itoa t)
                (map_db (remove_tag_from_post i t) w)))))"

text \<open>
  What the page of a post shows: Inl is a response, Inr the post, its comments, the hats of the user,
  whether the user may moderate and the number of revisions. A post that was deleted is only shown to
  its author and to administrators. None is the listing of comments that does not return.
\<close>

definition view_post :: "web_request \<Rightarrow> user option \<Rightarrow> db \<Rightarrow>
    (response + post \<times> (comment \<times> int) list \<times> hat list \<times> bool \<times> int) option" where
  "view_post r user d =
     (case get_path_id r ''/posts/'' of
        None \<Rightarrow> Some (Inl (Error_page 400 ''Invalid post ID''))
      | Some i \<Rightarrow> (case get_post_by_id d i (fst (get_user_context user)) of
            Inl _ \<Rightarrow> Some (Inl (Error_page 404 ''Post not found''))
          | Inr p \<Rightarrow>
              if pr_is_deleted p \<and> (case user of None \<Rightarrow> True
                  | Some u \<Rightarrow> \<not> ur_is_admin u \<and> ur_id u \<noteq> pr_user_id p)
              then Some (Inl (Error_page 404 ''Post not found''))
              else (case get_post_comments d i (fst (get_user_context user)) of
                      None \<Rightarrow> None
                    | Some cs \<Rightarrow> Some (Inr (p, cs, case user of None \<Rightarrow> [] | Some u \<Rightarrow> get_user_hats d (ur_id u),
                        case user of None \<Rightarrow> False
                        | Some u \<Rightarrow> ur_is_admin u \<or> list_ex (\<lambda>t. can_moderate_tag d (tr_id t) (ur_id u)) (pr_tags p),
                        get_post_revision_count d i)))))"

definition post_revisions_page :: "web_request \<Rightarrow> db \<Rightarrow> response + post \<times> (int \<times> revision_row \<times> string) list" where
  "post_revisions_page r d =
     (case get_path_id r ''/posts/'' of
        None \<Rightarrow> Inl (Error_page 400 ''Invalid post ID'')
      | Some i \<Rightarrow> (case get_post_by_id d i None of
            Inl _ \<Rightarrow> Inl (Error_page 404 ''Post not found'')
          | Inr p \<Rightarrow> Inr (p, get_post_revisions d i)))"

subsection \<open>Lists of posts\<close>

definition time_filters :: "(string \<times> int) list" where
  "time_filters = [(''24h'', 24), (''7d'', 24 * 7), (''30d'', 24 * 30), (''90d'', 24 * 90), (''180d'', 24 * 180),
     (''1y'', 24 * 365), (''all'', 0)]"

definition hours_of :: "string \<Rightarrow> int" where
  "hours_of period = (case map_of time_filters period of None \<Rightarrow> 24 * 7 | Some h \<Rightarrow> h)"

definition default_posts_per_page :: int where
  "default_posts_per_page = 30"

text \<open>The posts of the front page, how many there are, and the view the page is of.\<close>

definition home_page :: "denv \<Rightarrow> web_request \<Rightarrow> user option \<Rightarrow> db \<Rightarrow> listed_post list \<times> pagination \<times> string" where
  "home_page e r user d =
     (let page = get_int_param r ''page'' 1; n = default_posts_per_page; tag = query_get r ''tag'';
          view = (if rq_path r = ''/newest'' then ''new'' else query_get r ''view'')
      in (case get_user_context user of (u, admin) \<Rightarrow>
        (case (if view = ''new'' then (get_newest_posts d page n u admin, view)
               else if view = ''top'' then (get_top_posts e d page n (hours_of (query_get r ''t'')) u admin, view)
               else if tag \<noteq> [] then (get_posts d page n tag u admin, ''hot'')
               else (get_hot_posts e d page n u admin, ''hot'')) of
           ((ps, count), view) \<Rightarrow> (ps, new_pagination page n count, view))))"

definition newest_page :: "web_request \<Rightarrow> user option \<Rightarrow> db \<Rightarrow> listed_post list \<times> pagination" where
  "newest_page r user d =
     (let page = get_int_param r ''page'' 1; n = default_posts_per_page
      in (case get_user_context user of (u, admin) \<Rightarrow>
        (case get_newest_posts d page n u admin of (ps, count) \<Rightarrow> (ps, new_pagination page n count))))"

definition domain_page :: "web_request \<Rightarrow> user option \<Rightarrow> db \<Rightarrow> response + listed_post list \<times> pagination" where
  "domain_page r user d =
     (let domain = trim_prefix (rq_path r) ''/domain/''; page = get_int_param r ''page'' 1; n = default_posts_per_page
      in if domain = [] then Inl (Error_page 400 ''Domain required'')
         else (case get_user_context user of (u, admin) \<Rightarrow>
           (case get_posts_by_domain d domain page n u admin of (ps, count) \<Rightarrow> Inr (ps, new_pagination page n count))))"

subsection \<open>Comments\<close>

definition is_comment_moderator :: "db \<Rightarrow> user \<Rightarrow> comment \<Rightarrow> bool" where
  "is_comment_moderator d u c =
     (if ur_is_admin u then True
      else (case get_post_by_id d (cr_post_id c) None of
              Inl _ \<Rightarrow> False
            | Inr p \<Rightarrow> list_ex (\<lambda>t. can_moderate_tag d (tr_id t) (ur_id u)) (pr_tags p)))"

definition can_moderate_comment :: "db \<Rightarrow> user \<Rightarrow> comment \<Rightarrow> bool" where
  "can_moderate_comment d u c = (if cr_user_id c = ur_id u \<or> ur_is_admin u then True else is_comment_moderator d u c)"

definition submit_comment :: "denv \<Rightarrow> site \<Rightarrow> web_request \<Rightarrow> user option \<Rightarrow> web \<Rightarrow> response \<times> web" where
  "submit_comment e s r user w = as_user s user w (\<lambda>u.
     (case get_path_id r ''/posts/'' of
        None \<Rightarrow> (Error_page 400 ''Invalid post ID'', w)
      | Some i \<Rightarrow>
          if rq_form r = None then (Error_page 400 ''Invalid form data'', w)
          else let body = trim_space (form_value r ''body''); parent = form_value r ''parent_id'';
                   hat = verify_user_hat (wb_db w) (form_value r ''hat_id'') (ur_id u)
          in if length body < 1 then (redirect s (post_url i), w)
             else (case create_comment e i (ur_id u) (if parent = [] then None else parse_int parent) hat body (wb_db w) of
                 (Inl _, d) \<Rightarrow> (Error_page 500 ''Could not create comment'', w\<lparr>wb_db := d\<rparr>)
               | (Inr c, d) \<Rightarrow> (redirect s (comment_url i (cr_id c)),
                   log_as e r user ''comment_create'' ''comment'' (cr_id c) (or_empty (truncate_text body 100)) (w\<lparr>wb_db := d\<rparr>)))))"

definition edit_comment_page :: "site \<Rightarrow> web_request \<Rightarrow> user option \<Rightarrow> web \<Rightarrow> response \<times> web" where
  "edit_comment_page s r user w = as_user s user w (\<lambda>u. on_comment r w (\<lambda>i c.
     if cr_user_id c \<noteq> ur_id u \<and> \<not> ur_is_admin u then (Error_page 403 ''You cannot edit this comment'', w)
     else (Page ''edit_comment.html'' [], w)))"

definition edit_comment_submit :: "denv \<Rightarrow> site \<Rightarrow> web_request \<Rightarrow> user option \<Rightarrow> web \<Rightarrow> response \<times> web" where
  "edit_comment_submit e s r user w = as_user s user w (\<lambda>u. on_comment r w (\<lambda>i c.
     if cr_user_id c \<noteq> ur_id u \<and> \<not> ur_is_admin u then (Error_page 403 ''You cannot edit this comment'', w)
     else if rq_form r = None then (Error_page 400 ''Invalid form data'', w)
     else let body = trim_space (form_value r ''body'') in
          if length body < 1 then (Page ''edit_comment.html'' [(''Error'', ''Comment cannot be empty'')], w)
          else (redirect s (comment_url (cr_post_id c) i),
            log_as e r user ''comment_update'' ''comment'' i [] (map_db (update_comment e i body) w))))"

definition web_delete_comment :: "denv \<Rightarrow> site \<Rightarrow> web_request \<Rightarrow> user option \<Rightarrow> web \<Rightarrow> response \<times> web" where
  "web_delete_comment e s r user w = as_user s user w (\<lambda>u. on_comment r w (\<lambda>i c.
     if cr_user_id c \<noteq> ur_id u \<and> \<not> ur_is_admin u then (Error_page 403 ''You cannot delete this comment'', w)
     else (redirect s (post_url (cr_post_id c)),
       log_as e r user ''comment_delete'' ''comment'' i [] (map_db (delete_comment i) w))))"

definition web_vote_comment :: "denv \<Rightarrow> site \<Rightarrow> web_request \<Rightarrow> user option \<Rightarrow> web \<Rightarrow> response \<times> web" where
  "web_vote_comment e s r user w = as_user s user w (\<lambda>u. on_comment r w (\<lambda>i c.
     (case vote_comment e (ur_id u) i (wb_db w) of
        (Inl _, d) \<Rightarrow> (Error_page 500 ''Could not vote'', w\<lparr>wb_db := d\<rparr>)
      | (Inr (_, voted), d) \<Rightarrow> (redirect_back s r (comment_url (cr_post_id c) i),
          if voted then log_as e r user ''vote_comment'' ''comment'' i ''upvote'' (w\<lparr>wb_db := d\<rparr>) else w\<lparr>wb_db := d\<rparr>))))"

text \<open>The sweep over the replies gets \<open>f\<close> steps; None is a response that never comes.\<close>

definition web_delete_comment_tree ::
  "nat \<Rightarrow> denv \<Rightarrow> site \<Rightarrow> web_request \<Rightarrow> user option \<Rightarrow> web \<Rightarrow> (response \<times> web) option" where
  "web_delete_comment_tree f e s r user w =
     (case user of
        None \<Rightarrow> Some (redirect s ''/login'', w)
      | Some u \<Rightarrow> (case get_path_id r ''/comments/'' of
          None \<Rightarrow> Some (Error_page 400 ''Invalid comment ID'', w)
        | Some i \<Rightarrow> (case get_comment_by_id (wb_db w) i None of
            Inl _ \<Rightarrow> Some (Error_page 404 ''Comment not found'', w)
          | Inr c \<Rightarrow>
              if \<not> can_moderate_comment (wb_db w) u c
              then Some (Error_page 403 ''You cannot delete this comment tree'', w)
              else map_option (\<lambda>d. (redirect s (post_url (cr_post_id c)),
                  log_as e r user ''comment_tree_delete'' ''comment'' i [] (w\<lparr>wb_db := d\<rparr>)))
                (delete_comment_tree f i (wb_db w)))))"

definition web_blur_comment :: "denv \<Rightarrow> site \<Rightarrow> web_request \<Rightarrow> user option \<Rightarrow> web \<Rightarrow> response \<times> web" where
  "web_blur_comment e s r user w = as_user s user w (\<lambda>u. on_comment r w (\<lambda>i c.
     if \<not> is_comment_moderator (wb_db w) u c then (Error_page 403 ''You cannot blur this comment'', w)
     else (redirect s (comment_url (cr_post_id c) i),
       log_as e r user ''comment_blur'' ''comment'' i [] (map_db (blur_comment i) w))))"

definition web_unblur_comment :: "denv \<Rightarrow> site \<Rightarrow> web_request \<Rightarrow> user option \<Rightarrow> web \<Rightarrow> response \<times> web" where
  "web_unblur_comment e s r user w = as_user s user w (\<lambda>u. on_comment r w (\<lambda>i c.
     if \<not> is_comment_moderator (wb_db w) u c then (Error_page 403 ''You cannot unblur this comment'', w)
     else (redirect s (comment_url (cr_post_id c) i),
       log_as e r user ''comment_unblur'' ''comment'' i [] (map_db (unblur_comment i) w))))"

definition reply_page :: "site \<Rightarrow> web_request \<Rightarrow> user option \<Rightarrow> web \<Rightarrow> response \<times> web" where
  "reply_page s r user w = as_user s user w (\<lambda>u. on_comment r w (\<lambda>i c.
     (case get_post_by_id (wb_db w) (cr_post_id c) None of
        Inl _ \<Rightarrow> (Error_page 404 ''Post not found'', w) | Inr p \<Rightarrow> (Page ''reply.html'' [], w))))"

subsection \<open>The routers\<close>

text \<open>
  What the paths below \<^verbatim>\<open>/posts/\<close> and \<^verbatim>\<open>/comments/\<close> ask for. Pages that
  change nothing are one action.
\<close>

datatype content_action = Show_page | Post_submit | Post_tag_remove | Post_vote | Post_edit | Post_delete
  | Comment_submit | Comment_vote | Comment_edit | Comment_delete | Comment_tree | Comment_blur
  | Comment_unblur

definition post_router :: "web_request \<Rightarrow> content_action" where
  "post_router r =
     (let path = rq_path r in
      if has_suffix path ''/vote'' then Post_vote
      else if has_suffix path ''/edit'' then (if rq_post r then Post_edit else Show_page)
      else if has_suffix path ''/delete'' then Post_delete
      else if has_suffix path ''/comment'' then Comment_submit
      else Show_page)"

definition comment_router :: "web_request \<Rightarrow> content_action" where
  "comment_router r =
     (let path = rq_path r in
      if has_suffix path ''/vote'' then Comment_vote
      else if has_suffix path ''/edit'' then (if rq_post r then Comment_edit else Show_page)
      else if has_suffix path ''/delete'' then Comment_delete
      else if has_suffix path ''/delete-tree'' then Comment_tree
      else if has_suffix path ''/blur'' then Comment_blur
      else if has_suffix path ''/unblur'' then Comment_unblur
      else Show_page)"

text \<open>The routes of posts and comments in \<^verbatim>\<open>main\<close>.\<close>

definition content_route :: "web_request \<Rightarrow> content_action" where
  "content_route r =
     (if rq_path r = ''/submit'' then (if rq_post r then Post_submit else Show_page)
      else if rq_path r = ''/posts/remove-tag'' then Post_tag_remove
      else if has_prefix (rq_path r) ''/posts/'' then post_router r
      else if has_prefix (rq_path r) ''/comments/'' then comment_router r
      else Show_page)"

text \<open>The new state; None where the response never comes.\<close>

definition content_request :: "nat \<Rightarrow> denv \<Rightarrow> site \<Rightarrow> web_request \<Rightarrow> user option \<Rightarrow> web \<Rightarrow> web option" where
  "content_request f e s r user w =
     (case content_route r of
        Show_page \<Rightarrow> Some w
      | Post_submit \<Rightarrow> Some (snd (submit_post e s r user w))
      | Post_tag_remove \<Rightarrow> Some (snd (remove_post_tag e s r user w))
      | Post_vote \<Rightarrow> Some (snd (web_vote_post e s r user w))
      | Post_edit \<Rightarrow> Some (snd (edit_post_submit e s r user w))
      | Post_delete \<Rightarrow> Some (snd (web_delete_post e s r user w))
      | Comment_submit \<Rightarrow> Some (snd (submit_comment e s r user w))
      | Comment_vote \<Rightarrow> Some (snd (web_vote_comment e s r user w))
      | Comment_edit \<Rightarrow> Some (snd (edit_comment_submit e s r user w))
      | Comment_delete \<Rightarrow> Some (snd (web_delete_comment e s r user w))
      | Comment_tree \<Rightarrow> map_option snd (web_delete_comment_tree f e s r user w)
      | Comment_blur \<Rightarrow> Some (snd (web_blur_comment e s r user w))
      | Comment_unblur \<Rightarrow> Some (snd (web_unblur_comment e s r user w)))"

subsection \<open>What each handler does to a post\<close>

lemma log_as_same [simp]:
  "db_posts (wb_db (log_as e r u a k i x w)) = db_posts (wb_db w)"
  "db_comments (wb_db (log_as e r u a k i x w)) = db_comments (wb_db w)"
  "db_votes (wb_db (log_as e r u a k i x w)) = db_votes (wb_db w)"
  "db_users (wb_db (log_as e r u a k i x w)) = db_users (wb_db w)"
  "db_revisions (wb_db (log_as e r u a k i x w)) = db_revisions (wb_db w)"
  using log_as_actions [of e r u a k i x w] by auto

lemma map_db_db [simp]: "wb_db (map_db f w) = f (wb_db w)"
  by (simp add: map_db_def)

lemma comment_ops_posts [simp]:
  "db_posts (set_comment i f d) = db_posts d" "db_posts (snd (create_comment e p u q hat body d)) = db_posts d"
  "db_comments (set_post i g d) = db_comments d"
  by (simp_all add: set_comment_def set_post_def create_comment_def Let_def split: prod.splits)

lemma tree_posts: "delete_comment_tree f i d = Some d' \<Longrightarrow> db_posts d' = db_posts d"
proof -
  assume "delete_comment_tree f i d = Some d'"
  then obtain ids where "d' = fold delete_comment ids d" by (auto simp: delete_comment_tree_def)
  then show ?thesis using fold_delete_rest [of ids d] by auto
qed

lemma created_post_keeps:
  assumes "tbl_ok (db_posts d)" "tbl_get (db_posts d) j = Some p"
  shows "tbl_get (db_posts (snd (create_post_full e u title url body tags src src_id hat made d))) j = Some p"
proof -
  obtain i t where ins: "tbl_insert \<lparr>po_user_id = u, po_title = title, po_url = Some url, po_body = Some body,
      po_created_at = (case made of None \<Rightarrow> dv_now e | Some x \<Rightarrow> x), po_updated_at = (case made of None \<Rightarrow> dv_now e | Some x \<Rightarrow> x),
      po_score = 0, po_is_deleted = False, po_source_type = src, po_source_id = src_id, po_hat_id = hat\<rparr> (db_posts d) = (i, t)"
    by (metis surj_pair)
  note g = tbl_insert_get [OF assms(1) ins]
  have "j \<noteq> i" using assms(2) g(2) by auto
  then have "tbl_get t j = Some p" using g(1) assms(2) by simp
  moreover have "db_posts (snd (add_post_tags e i tags (d\<lparr>db_posts := t\<rparr>))) = t" by (simp add: add_post_tags_other)
  ultimately show ?thesis using assms(2) ins
    by (auto simp: create_post_full_def Let_def split: prod.splits sum.splits)
qed

lemma set_post_get:
  "tbl_get (db_posts (set_post i f d)) j = map_option (\<lambda>p. if j = i then f p else p) (tbl_get (db_posts d) j)"
  by (simp add: set_post_def tbl_update_get)

lemma set_comment_get:
  "tbl_get (db_comments (set_comment i f d)) j = map_option (\<lambda>c. if j = i then f c else c) (tbl_get (db_comments d) j)"
  by (simp add: set_comment_def tbl_update_get)

text \<open>A vote moves the score of what it is for by one, and nothing else.\<close>

lemma toggle_effect:
  "tbl_get (db_posts d) j = Some p \<Longrightarrow>
     \<exists>s. tbl_get (db_posts (snd (toggle_vote e u i t d))) j = Some (p\<lparr>po_score := s\<rparr>) \<and> \<bar>s - po_score p\<bar> \<le> 1"
  "tbl_get (db_comments d) j = Some c \<Longrightarrow>
     \<exists>s. tbl_get (db_comments (snd (toggle_vote e u i t d))) j = Some (c\<lparr>co_score := s\<rparr>) \<and> \<bar>s - co_score c\<bar> \<le> 1"
proof -
  let ?d = "snd (toggle_vote e u i t d)"
  obtain v k where d: "?d = d \<or> ?d = add_score t i k (d\<lparr>db_votes := v\<rparr>)" and k: "\<bar>k\<bar> \<le> (1 :: int)"
  proof (cases "tbl_find (\<lambda>_ r. vote_on t u i r) (db_votes d)")
    case None
    then show ?thesis
      by (intro that [of 1 "snd (tbl_insert (new_vote e u i t) (db_votes d))"])
        (auto simp: toggle_vote_def Let_def split: option.splits)
  next
    case (Some a)
    then show ?thesis
      by (intro that [of "- 1" "tbl_delete (\<lambda>j _. j = fst a) (db_votes d)"])
        (auto simp: toggle_vote_def Let_def split: option.splits prod.splits)
  qed
  from d show "tbl_get (db_posts d) j = Some p \<Longrightarrow>
     \<exists>s. tbl_get (db_posts ?d) j = Some (p\<lparr>po_score := s\<rparr>) \<and> \<bar>s - po_score p\<bar> \<le> 1"
  proof (elim disjE)
    assume "tbl_get (db_posts d) j = Some p" "?d = add_score t i k (d\<lparr>db_votes := v\<rparr>)"
    with k show ?thesis
      by (cases t; cases "j = i") (auto simp: add_score_def set_post_get intro!: exI [of _ "if t = Post_target \<and> j = i then po_score p + k else po_score p"])
  qed (auto intro!: exI [of _ "po_score p"])
  from d show "tbl_get (db_comments d) j = Some c \<Longrightarrow>
     \<exists>s. tbl_get (db_comments ?d) j = Some (c\<lparr>co_score := s\<rparr>) \<and> \<bar>s - co_score c\<bar> \<le> 1"
  proof (elim disjE)
    assume "tbl_get (db_comments d) j = Some c" "?d = add_score t i k (d\<lparr>db_votes := v\<rparr>)"
    with k show ?thesis
      by (cases t; cases "j = i") (auto simp: add_score_def set_comment_get intro!: exI [of _ "if t = Comment_target \<and> j = i then co_score c + k else co_score c"])
  qed (auto intro!: exI [of _ "co_score c"])
qed

lemma inserted_row: "tbl_ok t \<Longrightarrow> tbl_get (snd (tbl_insert r t)) (fst t + 1) = Some r"
  using tbl_insert_get [of t r "fst (tbl_insert r t)" "snd (tbl_insert r t)"] by simp

lemma edit_post_effect:
  fixes e s r user
  assumes "tbl_ok (db_revisions (wb_db w))" "tbl_get (db_posts (wb_db w)) i = Some p"
  defines "d' \<equiv> wb_db (snd (edit_post_submit e s r user w))"
  shows "tbl_get (db_posts d') i = Some p
    \<or> (\<exists>u title body k v. user = Some u \<and> (po_user_id p = ur_id u \<or> ur_is_admin u)
        \<and> tbl_get (db_posts d') i = Some (p\<lparr>po_title := title, po_body := Some body, po_updated_at := dv_now e\<rparr>)
        \<and> tbl_get (db_revisions d') k = Some v \<and> rv_post_id v = i \<and> rv_user_id v = ur_id u
        \<and> rv_title v = po_title p \<and> rv_body v = Some (or_empty (po_body p)))"
proof (cases "tbl_get (db_posts d') i = Some p")
  case False
  then obtain u j q where u: "user = Some u" "get_path_id r ''/posts/'' = Some j" "get_post_by_id (wb_db w) j None = Inr q"
    using assms(2) by (auto simp: d'_def edit_post_submit_def as_user_def on_post_def split: option.splits sum.splits)
  then have q: "tbl_get (db_posts (wb_db w)) j \<noteq> None" "pr_title q = po_title (the (tbl_get (db_posts (wb_db w)) j))"
    "pr_body q = or_empty (po_body (the (tbl_get (db_posts (wb_db w)) j)))"
    "pr_user_id q = po_user_id (the (tbl_get (db_posts (wb_db w)) j))"
    by (auto simp: get_post_by_id_def split: option.splits)
  let ?t = "trim_space (form_value r ''title'')" and ?b = "trim_space (form_value r ''body'')"
  let ?v = "\<lparr>rv_post_id = j, rv_user_id = ur_id u, rv_title = pr_title q, rv_body = Some (pr_body q), rv_created_at = dv_now e\<rparr>"
  let ?d = "(wb_db w)\<lparr>db_revisions := snd (tbl_insert ?v (db_revisions (wb_db w)))\<rparr>"
  have ok: "pr_user_id q = ur_id u \<or> ur_is_admin u"
    by (rule ccontr) (use False u assms(2) in \<open>simp add: d'_def edit_post_submit_def as_user_def on_post_def\<close>)
  have d': "db_posts d' = db_posts (update_post e j ?t ?b ?d)" "db_revisions d' = db_revisions ?d"
    using False u assms(2)
    by (auto simp: d'_def edit_post_submit_def as_user_def on_post_def Let_def update_post_with_revision_def update_post_def
        set_post_def split: if_splits)
  then have "i = j" using False assms(2) by (auto simp: update_post_def set_post_get split: if_splits)
  with d' u q ok assms(2) inserted_row [OF assms(1), of ?v] show ?thesis
    by (intro disjI2 exI [of _ u] exI [of _ ?t] exI [of _ ?b] exI [of _ "fst (db_revisions (wb_db w)) + 1"] exI [of _ ?v])
      (simp add: update_post_def set_post_get)
qed simp

subsection \<open>Who may change a post\<close>

text \<open>
  The changes of a post that a request of a user may make: none, a vote, or, by its author or an
  administrator, its deletion or a new title and text.
\<close>

definition fair_post_change :: "user option \<Rightarrow> post_row \<Rightarrow> post_row \<Rightarrow> bool" where
  "fair_post_change user p p' \<longleftrightarrow> p' = p \<or> (\<exists>u. user = Some u \<and>
     ((\<exists>s. p' = p\<lparr>po_score := s\<rparr> \<and> \<bar>s - po_score p\<bar> \<le> 1)
      \<or> (po_user_id p = ur_id u \<or> ur_is_admin u) \<and> (p' = p\<lparr>po_is_deleted := True\<rparr>
           \<or> (\<exists>title body now. p' = p\<lparr>po_title := title, po_body := Some body, po_updated_at := now\<rparr>))))"

definition revision_kept :: "user option \<Rightarrow> int \<Rightarrow> post_row \<Rightarrow> db \<Rightarrow> bool" where
  "revision_kept user i p d \<longleftrightarrow> (\<exists>u k v. user = Some u \<and> tbl_get (db_revisions d) k = Some v \<and> rv_post_id v = i
     \<and> rv_user_id v = ur_id u \<and> rv_title v = po_title p \<and> rv_body v = Some (or_empty (po_body p)))"

lemma post_actions:
  assumes "tbl_get (db_posts (wb_db w)) i = Some p" "tbl_ok (db_posts (wb_db w))"
  shows "tbl_get (db_posts (wb_db (snd (submit_post e s r user w)))) i = Some p"
    "tbl_get (db_posts (wb_db (snd (remove_post_tag e s r user w)))) i = Some p"
    "\<exists>p'. tbl_get (db_posts (wb_db (snd (web_vote_post e s r user w)))) i = Some p' \<and> fair_post_change user p p'
       \<and> po_title p' = po_title p \<and> po_body p' = po_body p"
    "\<exists>p'. tbl_get (db_posts (wb_db (snd (web_delete_post e s r user w)))) i = Some p' \<and> fair_post_change user p p'
       \<and> po_title p' = po_title p \<and> po_body p' = po_body p"
proof -
  note keep = created_post_keeps [OF assms(2,1)]
  show "tbl_get (db_posts (wb_db (snd (submit_post e s r user w)))) i = Some p"
    using assms(1) keep unfolding submit_post_def as_user_def create_post_with_source_and_hat_def Let_def
    by (auto split: option.splits prod.splits sum.splits) (metis snd_conv)+
  show "tbl_get (db_posts (wb_db (snd (remove_post_tag e s r user w)))) i = Some p"
    using assms(1) by (simp add: remove_post_tag_def as_user_def remove_tag_from_post_def split: option.splits sum.splits)
  show "\<exists>p'. tbl_get (db_posts (wb_db (snd (web_delete_post e s r user w)))) i = Some p' \<and> fair_post_change user p p'
       \<and> po_title p' = po_title p \<and> po_body p' = po_body p"
    using assms(1) by (auto simp: web_delete_post_def as_user_def on_post_def delete_post_def set_post_get get_post_by_id_def
        fair_post_change_def split: option.splits sum.splits)
  show "\<exists>p'. tbl_get (db_posts (wb_db (snd (web_vote_post e s r user w)))) i = Some p' \<and> fair_post_change user p p'
       \<and> po_title p' = po_title p \<and> po_body p' = po_body p"
  proof (cases "tbl_get (db_posts (wb_db (snd (web_vote_post e s r user w)))) i = Some p")
    case False
    then obtain u j where u: "user = Some u" "get_path_id r ''/posts/'' = Some j" using assms(1)
      by (auto simp: web_vote_post_def as_user_def split: option.splits)
    then have "db_posts (wb_db (snd (web_vote_post e s r user w))) = db_posts (snd (vote_post e (ur_id u) j (wb_db w)))"
      by (auto simp: web_vote_post_def as_user_def split: sum.splits prod.splits)
    with toggle_effect(1) [OF assms(1), of e "ur_id u" j Post_target] u show ?thesis
      by (auto simp: vote_post_def fair_post_change_def)
  qed (auto simp: fair_post_change_def)
qed

lemma created_comment_posts: "create_comment e p u q hat body d = (x, d') \<Longrightarrow> db_posts d' = db_posts d"
  using comment_ops_posts(2) [of e p u q hat body d] by simp

lemma vote_comment_posts: "vote_comment e u i d = (x, d') \<Longrightarrow> db_posts d' = db_posts d"
  by (auto simp: vote_comment_def toggle_vote_def add_score_def Let_def split: option.splits prod.splits if_splits)

lemma comment_actions_on_posts:
  assumes "tbl_get (db_posts (wb_db w)) i = Some p"
  shows "tbl_get (db_posts (wb_db (snd (submit_comment e s r user w)))) i = Some p"
    "tbl_get (db_posts (wb_db (snd (edit_comment_submit e s r user w)))) i = Some p"
    "tbl_get (db_posts (wb_db (snd (web_delete_comment e s r user w)))) i = Some p"
    "tbl_get (db_posts (wb_db (snd (web_blur_comment e s r user w)))) i = Some p"
    "tbl_get (db_posts (wb_db (snd (web_unblur_comment e s r user w)))) i = Some p"
    "tbl_get (db_posts (wb_db (snd (web_vote_comment e s r user w)))) i = Some p"
    "web_delete_comment_tree f e s r user w = Some (a, w') \<Longrightarrow> tbl_get (db_posts (wb_db w')) i = Some p"
proof -
  show "tbl_get (db_posts (wb_db (snd (submit_comment e s r user w)))) i = Some p"
    using assms unfolding submit_comment_def as_user_def Let_def
    by (auto dest: created_comment_posts split: option.splits prod.splits sum.splits)
  show "tbl_get (db_posts (wb_db (snd (web_vote_comment e s r user w)))) i = Some p"
    using assms vote_comment_posts unfolding web_vote_comment_def as_user_def on_comment_def
    by (auto split: option.splits sum.splits prod.splits)
  show "web_delete_comment_tree f e s r user w = Some (a, w') \<Longrightarrow> tbl_get (db_posts (wb_db w')) i = Some p"
    using assms by (auto simp: web_delete_comment_tree_def dest: tree_posts split: option.splits sum.splits if_splits)
  show "tbl_get (db_posts (wb_db (snd (edit_comment_submit e s r user w)))) i = Some p"
    using assms by (simp add: edit_comment_submit_def as_user_def on_comment_def Let_def update_comment_def
        split: option.splits sum.splits)
qed (use assms in \<open>simp_all add: web_delete_comment_def web_blur_comment_def web_unblur_comment_def as_user_def on_comment_def
   delete_comment_def blur_comment_def unblur_comment_def split: option.splits sum.splits\<close>)

text \<open>
  C4. Nobody but its author and the administrators changes a post, and no wording is lost. Whatever request
  comes to the routes of posts and comments, a post that there is stays, under its key, and is as it
  was, but for a score moved by at most one by a vote of a user who is logged in, or, when the user is
  its author or an administrator, a mark that it is deleted or a new title and text; and if the title or
  the text is another, then the old ones are in the history of the post, under the name of this user.
\<close>

theorem post_changes_authorized:
  assumes ok: "tbl_ok (db_posts (wb_db w))" "tbl_ok (db_revisions (wb_db w))"
    and req: "content_request f e s r user w = Some w'" and p: "tbl_get (db_posts (wb_db w)) i = Some p"
  shows "\<exists>p'. tbl_get (db_posts (wb_db w')) i = Some p' \<and> fair_post_change user p p'
    \<and> (po_title p' \<noteq> po_title p \<or> po_body p' \<noteq> po_body p \<longrightarrow> revision_kept user i p (wb_db w'))"
proof -
  have same: ?thesis if "tbl_get (db_posts (wb_db w')) i = Some p" using that by (simp add: fair_post_change_def)
  show ?thesis
  proof (cases "content_route r")
    case Post_vote
    then show ?thesis using post_actions(3) [OF p ok(1), of e s r user] req by (auto simp: content_request_def)
  next
    case Post_delete
    then show ?thesis using post_actions(4) [OF p ok(1), of e s r user] req by (auto simp: content_request_def)
  next
    case Post_edit
    then have w': "w' = snd (edit_post_submit e s r user w)" using req by (simp add: content_request_def)
    from edit_post_effect [OF ok(2) p, of e s r user] consider "tbl_get (db_posts (wb_db w')) i = Some p"
      | u title body k v where "user = Some u" "po_user_id p = ur_id u \<or> ur_is_admin u"
        "tbl_get (db_posts (wb_db w')) i = Some (p\<lparr>po_title := title, po_body := Some body, po_updated_at := dv_now e\<rparr>)"
        "tbl_get (db_revisions (wb_db w')) k = Some v" "rv_post_id v = i" "rv_user_id v = ur_id u"
        "rv_title v = po_title p" "rv_body v = Some (or_empty (po_body p))"
      unfolding w' [symmetric] by blast
    then show ?thesis
    proof cases
      case 2
      then show ?thesis unfolding fair_post_change_def revision_kept_def by blast
    qed (rule same)
  qed (use req p post_actions(1,2) [OF p ok(1)] comment_actions_on_posts [OF p] in
    \<open>auto simp: content_request_def fair_post_change_def\<close>)
qed

subsection \<open>Who may change a comment\<close>

definition moderates :: "db \<Rightarrow> user \<Rightarrow> comment_row \<Rightarrow> bool" where
  "moderates d u c \<longleftrightarrow> ur_is_admin u \<or> (\<exists>t. (co_post_id c, t) \<in> set (db_post_tags d) \<and> can_moderate_tag d t (ur_id u))"

text \<open>
  Besides votes: the author or an administrator edits or deletes; a moderator blurs and unblurs; and who
  wrote or moderates a comment may delete it with all that answers it.
\<close>

definition fair_comment_change :: "db \<Rightarrow> user option \<Rightarrow> int \<Rightarrow> comment_row \<Rightarrow> comment_row \<Rightarrow> bool" where
  "fair_comment_change d user i c c' \<longleftrightarrow> c' = c \<or> (\<exists>u. user = Some u \<and>
     ((\<exists>s. c' = c\<lparr>co_score := s\<rparr> \<and> \<bar>s - co_score c\<bar> \<le> 1)
      \<or> (co_user_id c = ur_id u \<or> ur_is_admin u) \<and> (c' = c\<lparr>co_is_deleted := True\<rparr>
           \<or> (\<exists>body now. c' = c\<lparr>co_body := body, co_updated_at := now\<rparr>))
      \<or> moderates d u c \<and> (\<exists>b. c' = c\<lparr>co_is_blurred := b\<rparr>)
      \<or> c' = c\<lparr>co_is_deleted := True\<rparr> \<and> (\<exists>k top. tbl_get (db_comments d) k = Some top
           \<and> (co_user_id top = ur_id u \<or> moderates d u top)
           \<and> (k, i) \<in> {(a, b). \<exists>x. tbl_get (db_comments d) b = Some x \<and> co_parent_id x = Some a}\<^sup>*)))"

lemma comment_got:
  assumes "get_comment_by_id d j None = Inr x"
  obtains c where "tbl_get (db_comments d) j = Some c" "cr_user_id x = co_user_id c" "cr_post_id x = co_post_id c"
  using assms by (auto simp: get_comment_by_id_def comment_of_row_def split: option.splits)

lemma moderator_moderates:
  assumes "is_comment_moderator d u x" "cr_post_id x = co_post_id c"
  shows "moderates d u c"
proof -
  have "(i, tr_id t) \<in> set (db_post_tags d)" if "t \<in> set (get_post_tags d i)" for t i
    using that by (auto simp: get_post_tags_def tag_of_row_def split: if_splits option.splits)
  then have "(i, tr_id t) \<in> set (db_post_tags d)" if "get_post_by_id d i None = Inr p" "t \<in> set (pr_tags p)" for t i p
    using that by (auto simp: get_post_by_id_def split: option.splits)
  with assms show ?thesis
    by (fastforce simp: is_comment_moderator_def moderates_def list_ex_iff split: if_splits sum.splits)
qed

lemma created_comment_keeps:
  assumes "tbl_ok (db_comments d)" "tbl_get (db_comments d) j = Some c" "create_comment e p u q hat body d = (x, d')"
  shows "tbl_get (db_comments d') j = Some c"
proof (cases "d' = d")
  case False
  let ?r = "\<lparr>co_post_id = p, co_user_id = u, co_parent_id = q, co_body = body, co_created_at = dv_now e,
    co_updated_at = dv_now e, co_score = 0, co_is_deleted = False, co_is_blurred = False, co_hat_id = hat\<rparr>"
  obtain i t where ins: "tbl_insert ?r (db_comments d) = (i, t)" by (metis surj_pair)
  note g = tbl_insert_get [OF assms(1) ins]
  have "j \<noteq> i" using assms(2) g(2) by auto
  moreover have "db_comments d' = t" using assms(3) False ins by (auto simp: create_comment_def split: if_splits)
  ultimately show ?thesis using g(1) assms(2) by simp
qed (use assms(2) in simp)

lemma post_actions_on_comments:
  assumes "tbl_get (db_comments (wb_db w)) i = Some c"
  shows "tbl_get (db_comments (wb_db (snd (submit_post e s r user w)))) i = Some c"
    "tbl_get (db_comments (wb_db (snd (remove_post_tag e s r user w)))) i = Some c"
    "tbl_get (db_comments (wb_db (snd (web_vote_post e s r user w)))) i = Some c"
    "tbl_get (db_comments (wb_db (snd (web_delete_post e s r user w)))) i = Some c"
    "tbl_get (db_comments (wb_db (snd (edit_post_submit e s r user w)))) i = Some c"
proof -
  have new: "db_comments d' = db_comments d" if "create_post_with_source_and_hat e u t l b ts k sid h d = (x, d')"
    for e u t l b ts k h d x d' and sid :: "int option"
  proof -
    have "db_comments d'' = db_comments d" if "add_post_tags e i ts (d\<lparr>db_posts := t\<rparr>) = (y, d'')" for i t ts y d''
      using add_post_tags_other(2) [of e i ts "d\<lparr>db_posts := t\<rparr>"] that by simp
    with that show ?thesis unfolding create_post_with_source_and_hat_def create_post_full_def Let_def
      by (auto split: if_splits prod.splits sum.splits)
  qed
  show "tbl_get (db_comments (wb_db (snd (submit_post e s r user w)))) i = Some c"
    using assms unfolding submit_post_def as_user_def Let_def by (auto dest: new split: option.splits prod.splits sum.splits)
  have vote: "db_comments d' = db_comments d" if "vote_post e u j d = (x, d')" for e u j d x d'
    using that by (auto simp: vote_post_def toggle_vote_def add_score_def Let_def split: option.splits prod.splits if_splits)
  show "tbl_get (db_comments (wb_db (snd (web_vote_post e s r user w)))) i = Some c"
    using assms unfolding web_vote_post_def as_user_def by (auto dest: vote split: option.splits prod.splits sum.splits)
  show "tbl_get (db_comments (wb_db (snd (edit_post_submit e s r user w)))) i = Some c"
    using assms unfolding edit_post_submit_def as_user_def on_post_def Let_def
    by (auto simp: update_post_with_revision_def update_post_def split: option.splits prod.splits sum.splits if_splits)
qed (use assms in \<open>simp_all add: remove_post_tag_def web_delete_post_def as_user_def on_post_def delete_post_def
  remove_tag_from_post_def split: option.splits sum.splits\<close>)

lemma comment_vote_effect:
  assumes "tbl_get (db_comments (wb_db w)) i = Some c"
  shows "\<exists>c'. tbl_get (db_comments (wb_db (snd (web_vote_comment e s r user w)))) i = Some c' \<and> fair_comment_change (wb_db w) user i c c'"
proof (cases "tbl_get (db_comments (wb_db (snd (web_vote_comment e s r user w)))) i = Some c")
  case False
  then obtain u j x where u: "user = Some u" "get_path_id r ''/comments/'' = Some j" "get_comment_by_id (wb_db w) j None = Inr x"
    using assms by (auto simp: web_vote_comment_def as_user_def on_comment_def split: option.splits sum.splits)
  then have "db_comments (wb_db (snd (web_vote_comment e s r user w))) = db_comments (snd (vote_comment e (ur_id u) j (wb_db w)))"
    by (auto simp: web_vote_comment_def as_user_def on_comment_def split: sum.splits prod.splits)
  with toggle_effect(2) [OF assms, of e "ur_id u" j Comment_target] u show ?thesis
    by (auto simp: vote_comment_def fair_comment_change_def)
qed (auto simp: fair_comment_change_def)

text \<open>A handler that sets a comment, where its guard lets the user.\<close>

lemma set_comment_effect:
  assumes "get_comment_by_id d j None = Inr x" "tbl_get (db_comments d) i = Some c" "user = Some u"
    and "\<And>top. tbl_get (db_comments d) j = Some top \<Longrightarrow> cr_user_id x = co_user_id top \<Longrightarrow> cr_post_id x = co_post_id top \<Longrightarrow>
      fair_comment_change d user j top (g top)"
  shows "\<exists>c'. tbl_get (db_comments (set_comment j g d)) i = Some c' \<and> fair_comment_change d user i c c'"
proof -
  obtain top where top: "tbl_get (db_comments d) j = Some top" "cr_user_id x = co_user_id top" "cr_post_id x = co_post_id top"
    using comment_got [OF assms(1)] by blast
  show ?thesis using assms(4) [OF top] top(1) assms(2)
    by (cases "i = j") (auto simp: set_comment_get fair_comment_change_def)
qed

lemma fair_same: "fair_comment_change d user i c c"
  by (simp add: fair_comment_change_def)

lemma comment_actions:
  assumes "tbl_get (db_comments (wb_db w)) i = Some c"
  shows "\<exists>c'. tbl_get (db_comments (wb_db (snd (edit_comment_submit e s r user w)))) i = Some c' \<and> fair_comment_change (wb_db w) user i c c'"
    (is ?edit)
    "\<exists>c'. tbl_get (db_comments (wb_db (snd (web_delete_comment e s r user w)))) i = Some c' \<and> fair_comment_change (wb_db w) user i c c'"
    (is ?delete)
    "\<exists>c'. tbl_get (db_comments (wb_db (snd (web_blur_comment e s r user w)))) i = Some c' \<and> fair_comment_change (wb_db w) user i c c'"
    (is ?blur)
    "\<exists>c'. tbl_get (db_comments (wb_db (snd (web_unblur_comment e s r user w)))) i = Some c' \<and> fair_comment_change (wb_db w) user i c c'"
    (is ?unblur)
proof -
  note set = set_comment_effect [OF _ assms]
  note start = as_user_def on_comment_def Let_def assms fair_same
  show ?edit by (auto simp: edit_comment_submit_def start update_comment_def split: option.splits sum.splits
      intro!: set) (auto simp: fair_comment_change_def)
  show ?delete by (auto simp: web_delete_comment_def start delete_comment_def split: option.splits sum.splits
      intro!: set) (auto simp: fair_comment_change_def)
  show ?blur by (auto simp: web_blur_comment_def start blur_comment_def split: option.splits sum.splits
      intro!: set) (auto simp: fair_comment_change_def dest: moderator_moderates)
  show ?unblur by (auto simp: web_unblur_comment_def start unblur_comment_def split: option.splits sum.splits
      intro!: set) (auto simp: fair_comment_change_def dest: moderator_moderates)
qed

lemma comment_tree_effect:
  assumes ok: "tbl_ok (db_comments (wb_db w))" and c: "tbl_get (db_comments (wb_db w)) i = Some c"
    and req: "web_delete_comment_tree f e s r user w = Some (a, w')"
  shows "\<exists>c'. tbl_get (db_comments (wb_db w')) i = Some c' \<and> fair_comment_change (wb_db w) user i c c'"
proof (cases "tbl_get (db_comments (wb_db w')) i = Some c")
  case False
  then obtain u j x d where u: "user = Some u" "get_comment_by_id (wb_db w) j None = Inr x"
    "can_moderate_comment (wb_db w) u x" "delete_comment_tree f j (wb_db w) = Some d" "db_comments (wb_db w') = db_comments d"
    using req c unfolding web_delete_comment_tree_def by (auto split: option.splits sum.splits if_splits)
  obtain top where top: "tbl_get (db_comments (wb_db w)) j = Some top" "cr_user_id x = co_user_id top" "cr_post_id x = co_post_id top"
    using comment_got [OF u(2)] by blast
  have right: "co_user_id top = ur_id u \<or> moderates (wb_db w) u top"
    using u(3) top moderator_moderates [of "wb_db w" u x top]
    by (auto simp: can_moderate_comment_def moderates_def split: if_splits)
  obtain ks where ks: "sweep f (replies_of (wb_db w)) [j] = Some ks" "d = fold delete_comment ks (wb_db w)"
    using u(4) top(1) by (auto simp: delete_comment_tree_def)
  have gone: "i \<in> set ks" "tbl_get (db_comments (wb_db w')) i = Some (c\<lparr>co_is_deleted := True\<rparr>)"
    using False fold_delete_get [of ks "wb_db w" i] c by (auto simp: u(5) ks(2) split: if_splits)
  have "{(a, b). b \<in> set (replies_of (wb_db w) a)}
      = {(a, b). \<exists>x. tbl_get (db_comments (wb_db w)) b = Some x \<and> co_parent_id x = Some a}"
    by (auto simp: replies_of_def tbl_select_def tbl_in_get [OF ok] image_iff)
  with sweep_set [OF ks(1)] gone(1)
  have "(j, i) \<in> {(a, b). \<exists>x. tbl_get (db_comments (wb_db w)) b = Some x \<and> co_parent_id x = Some a}\<^sup>*" by auto
  with u(1) top(1) right gone(2) show ?thesis unfolding fair_comment_change_def by blast
qed (auto simp: fair_same)

text \<open>
  C5. Nobody touches a comment who must not. Whatever request comes to the routes of posts and comments, a
  comment that there is stays, under its key, and is as it was, but for a vote of a user who is logged
  in, an edit or a deletion by its author or an administrator, blurring or unblurring by an administrator
  or a moderator of a tag of its post, or a deletion by somebody who wrote, or moderates, it or a
  comment it answers, directly or through others.
\<close>

theorem comment_changes_authorized:
  assumes "tbl_ok (db_comments (wb_db w))" "content_request f e s r user w = Some w'"
    and "tbl_get (db_comments (wb_db w)) i = Some c"
  shows "\<exists>c'. tbl_get (db_comments (wb_db w')) i = Some c' \<and> fair_comment_change (wb_db w) user i c c'"
proof (cases "content_route r")
  case Comment_submit
  have "tbl_get (db_comments (wb_db (snd (submit_comment e s r user w)))) i = Some c"
    using assms(3) unfolding submit_comment_def as_user_def Let_def
    by (auto dest: created_comment_keeps [OF assms(1,3)] split: option.splits prod.splits sum.splits)
  with Comment_submit assms(2) fair_same show ?thesis by (auto simp: content_request_def)
next
  case Comment_tree
  then obtain a where "web_delete_comment_tree f e s r user w = Some (a, w')"
    using assms(2) by (auto simp: content_request_def)
  from comment_tree_effect [OF assms(1,3) this] show ?thesis .
qed (use assms(2,3) fair_same post_actions_on_comments [OF assms(3)] comment_actions [OF assms(3)] comment_vote_effect [OF assms(3)]
  in \<open>auto simp: content_request_def\<close>)

subsection \<open>Examples\<close>

definition visitor :: "int \<Rightarrow> bool \<Rightarrow> user" where
  "visitor i admin = \<lparr>ur_id = i, ur_username = ''v'', ur_email = ''e'', ur_created_at = 0, ur_invited_by = None,
     ur_is_admin = admin, ur_is_banned = False, ur_about = [], ur_avatar = None, ur_avatar_type = [], ur_ban_reason = [],
     ur_ban_expires_at = None, ur_banned_by = None, ur_banned_by_username = []\<rparr>"

definition board_web :: web where
  "board_web = \<lparr>wb_db = board\<lparr>db_comments := (2, [
     (1, \<lparr>co_post_id = 1, co_user_id = 2, co_parent_id = None, co_body = ''x'', co_created_at = 1, co_updated_at = 1,
          co_score = 0, co_is_deleted = False, co_is_blurred = False, co_hat_id = None\<rparr>),
     (2, \<lparr>co_post_id = 1, co_user_id = 1, co_parent_id = Some 1, co_body = ''y'', co_created_at = 2, co_updated_at = 2,
          co_score = 0, co_is_deleted = False, co_is_blurred = False, co_hat_id = None\<rparr>)])\<rparr>,
     wb_cache = [], wb_mails = []\<rparr>"

text \<open>The author of the first post gives it another title; the old one goes into its history.\<close>

lemma post_changes_authorized_witness:
  "\<exists>w' p'. content_request 9 now0 site0 (request0\<lparr>rq_path := ''/posts/1/edit'', rq_form := Some [(''title'', ''new'')]\<rparr>)
       (Some (visitor 1 False)) board_web = Some w'
     \<and> tbl_get (db_posts (wb_db w')) 1 = Some p' \<and> fair_post_change (Some (visitor 1 False)) (plain_post 1 10 False) p'
     \<and> po_title p' = ''new'' \<and> revision_kept (Some (visitor 1 False)) 1 (plain_post 1 10 False) (wb_db w')"
proof -
  let ?r = "request0\<lparr>rq_path := ''/posts/1/edit'', rq_form := Some [(''title'', ''new'')]\<rparr>"
  have "map_option (\<lambda>w'. map_option po_title (tbl_get (db_posts (wb_db w')) 1))
      (content_request 9 now0 site0 ?r (Some (visitor 1 False)) board_web) = Some (Some ''new'')" by code_simp
  then obtain w' p' where w': "content_request 9 now0 site0 ?r (Some (visitor 1 False)) board_web = Some w'"
    "tbl_get (db_posts (wb_db w')) 1 = Some p'" "po_title p' = ''new''" by auto
  have ok: "tbl_ok (db_posts (wb_db board_web))" "tbl_ok (db_revisions (wb_db board_web))"
    "tbl_get (db_posts (wb_db board_web)) 1 = Some (plain_post 1 10 False)"
    using board_ok by (simp_all add: board_web_def pages_ok_def board_posts) (simp add: board_def empty_db_def tbl_ok_def empty_tbl_def)
  have "po_title (plain_post 1 10 False) \<noteq> ''new''" by (simp add: plain_post_def)
  with post_changes_authorized [OF ok(1,2) w'(1) ok(3)] w'(2,3) show ?thesis using w'(1) by auto
qed

text \<open>The author of the first comment deletes it, and with it the answer that somebody else wrote.\<close>

lemma comment_changes_authorized_witness:
  "\<exists>w' c c'. content_request 9 now0 site0 (request0\<lparr>rq_path := ''/comments/1/delete-tree''\<rparr>) (Some (visitor 2 False)) board_web
       = Some w' \<and> tbl_get (db_comments (wb_db board_web)) 2 = Some c \<and> co_user_id c = 1
     \<and> tbl_get (db_comments (wb_db w')) 2 = Some c' \<and> co_is_deleted c'
     \<and> fair_comment_change (wb_db board_web) (Some (visitor 2 False)) 2 c c'"
proof -
  let ?r = "request0\<lparr>rq_path := ''/comments/1/delete-tree''\<rparr>"
  have "map_option (\<lambda>w'. map_option co_is_deleted (tbl_get (db_comments (wb_db w')) 2))
      (content_request 9 now0 site0 ?r (Some (visitor 2 False)) board_web) = Some (Some True)" by code_simp
  then obtain w' c' where w': "content_request 9 now0 site0 ?r (Some (visitor 2 False)) board_web = Some w'"
    "tbl_get (db_comments (wb_db w')) 2 = Some c'" "co_is_deleted c'" by auto
  have "tbl_ok (db_comments (wb_db board_web))" by (simp add: board_web_def tbl_ok_def)
  moreover obtain c where c: "tbl_get (db_comments (wb_db board_web)) 2 = Some c" "co_user_id c = 1"
    by (simp add: board_web_def tbl_get_def)
  ultimately show ?thesis using comment_changes_authorized [OF _ w'(1) c(1)] w' c by auto
qed

end
