(* ===== verification/Collections.thy ===== *)
theory Collections
  imports Listings
begin

text \<open>
  The collections of tags a user keeps (\<^verbatim>\<open>tools/makhor/pkg/db/collections.go\<close>).
  A tag in a collection is returned with its number, name and description only.
\<close>

record collection =
  cn_id :: int
  cn_user_id :: int
  cn_name :: string
  cn_description :: string
  cn_created_at :: int
  cn_tags :: "tag list"
  cn_tag_count :: int

definition collection_tag_rows :: "db \<Rightarrow> int \<Rightarrow> (int \<times> tag_row) list" where
  "collection_tag_rows d c = sort_key (\<lambda>(t, r). tg_name r) (concat (map (\<lambda>(k, c', t). if c' \<noteq> c then []
     else (case tbl_get (db_tags d) t of None \<Rightarrow> [] | Some r \<Rightarrow> [(t, r)])) (snd (db_collection_tags d))))"

definition get_collection_tags :: "db \<Rightarrow> int \<Rightarrow> tag list" where
  "get_collection_tags d c = map (\<lambda>(t, r). \<lparr>tr_id = t, tr_name = tg_name r,
     tr_description = tg_description r, tr_creator_id = None, tr_created_at = None, tr_is_active = False\<rparr>)
     (collection_tag_rows d c)"

definition get_collection_tag_names :: "db \<Rightarrow> int \<Rightarrow> string list" where
  "get_collection_tag_names d c = map (\<lambda>(t, r). tg_name r) (collection_tag_rows d c)"

definition get_collection_by_id :: "db \<Rightarrow> int \<Rightarrow> int \<Rightarrow> db_error + collection" where
  "get_collection_by_id d c u =
     (case tbl_find (\<lambda>k r. k = c \<and> cl_user_id r = u) (db_collections d) of
        None \<Rightarrow> Inl Collection_not_found
      | Some (_, r) \<Rightarrow> (let tags = get_collection_tags d c in
          Inr \<lparr>cn_id = c, cn_user_id = cl_user_id r, cn_name = cl_name r, cn_description = cl_description r,
            cn_created_at = cl_created_at r, cn_tags = tags, cn_tag_count = int (length tags)\<rparr>))"

definition create_collection :: "denv \<Rightarrow> int \<Rightarrow> string \<Rightarrow> string \<Rightarrow> db \<Rightarrow> (db_error + collection) \<times> db" where
  "create_collection e u name desc d =
     (if tbl_find (\<lambda>_ r. cl_user_id r = u \<and> cl_name r = name) (db_collections d) \<noteq> None
         \<or> \<not> fk_ok e (db_users d) (Some u)
      then (Inl Constraint_failed, d)
      else (case tbl_insert \<lparr>cl_user_id = u, cl_name = name, cl_description = desc,
              cl_created_at = dv_now e\<rparr> (db_collections d) of
            (i, t) \<Rightarrow> (get_collection_by_id (d\<lparr>db_collections := t\<rparr>) i u, d\<lparr>db_collections := t\<rparr>)))"

definition get_user_collections :: "db \<Rightarrow> int \<Rightarrow> collection list" where
  "get_user_collections d u = map (\<lambda>(i, r). \<lparr>cn_id = i, cn_user_id = cl_user_id r, cn_name = cl_name r,
       cn_description = cl_description r, cn_created_at = cl_created_at r, cn_tags = [],
       cn_tag_count = tbl_count (\<lambda>_ (c, t). c = i) (db_collection_tags d)\<rparr>)
     (sort_key (\<lambda>(i, r). cl_name r) (tbl_select (\<lambda>_ r. cl_user_id r = u) (db_collections d)))"

text \<open>Another collection of the user under the new name breaks the unique constraint.\<close>

definition update_collection :: "int \<Rightarrow> int \<Rightarrow> string \<Rightarrow> string \<Rightarrow> db \<Rightarrow> (db_error + unit) \<times> db" where
  "update_collection c u name desc d =
     (let mine = (\<lambda>k r. k = c \<and> cl_user_id r = u) in
      if tbl_find mine (db_collections d) \<noteq> None
         \<and> tbl_find (\<lambda>k r. k \<noteq> c \<and> cl_user_id r = u \<and> cl_name r = name) (db_collections d) \<noteq> None
      then (Inl Constraint_failed, d)
      else (Inr (), d\<lparr>db_collections := tbl_update mine
        (\<lambda>r. r\<lparr>cl_name := name, cl_description := desc\<rparr>) (db_collections d)\<rparr>))"

text \<open>The tags of a collection go with it where foreign keys are looked after.\<close>

definition delete_collection :: "denv \<Rightarrow> int \<Rightarrow> int \<Rightarrow> db \<Rightarrow> db" where
  "delete_collection e c u d =
     (let mine = (\<lambda>k r. k = c \<and> cl_user_id r = u); d' = d\<lparr>db_collections := tbl_delete mine (db_collections d)\<rparr>
      in if dv_fk e \<and> tbl_find mine (db_collections d) \<noteq> None
         then d'\<lparr>db_collection_tags := tbl_delete (\<lambda>_ (c', t). c' = c) (db_collection_tags d)\<rparr>
         else d')"

definition add_tag_to_collection :: "denv \<Rightarrow> int \<Rightarrow> int \<Rightarrow> db \<Rightarrow> (db_error + unit) \<times> db" where
  "add_tag_to_collection e c t d =
     (if tbl_find (\<lambda>_ p. p = (c, t)) (db_collection_tags d) \<noteq> None then (Inr (), d)
      else if \<not> fk_ok e (db_collections d) (Some c) \<or> \<not> fk_ok e (db_tags d) (Some t)
      then (Inl Constraint_failed, d)
      else (Inr (), d\<lparr>db_collection_tags := snd (tbl_insert (c, t) (db_collection_tags d))\<rparr>))"

definition remove_tag_from_collection :: "int \<Rightarrow> int \<Rightarrow> db \<Rightarrow> db" where
  "remove_tag_from_collection c t d =
     d\<lparr>db_collection_tags := tbl_delete (\<lambda>_ p. p = (c, t)) (db_collection_tags d)\<rparr>"

definition in_collection :: "db \<Rightarrow> int \<Rightarrow> int \<Rightarrow> bool" where
  "in_collection d c i \<longleftrightarrow> list_ex (\<lambda>(p, t). p = i \<and> tbl_find (\<lambda>_ x. x = (c, t)) (db_collection_tags d) \<noteq> None) (db_post_tags d)"

definition get_posts_for_collection ::
  "db \<Rightarrow> int \<Rightarrow> int \<Rightarrow> int \<Rightarrow> int option \<Rightarrow> listed_post list \<times> int" where
  "get_posts_for_collection d c page per_page viewer =
     (let P = (\<lambda>i p. \<not> po_is_deleted p \<and> in_collection d c i)
      in if tbl_select (\<lambda>_ (c', t). c' = c) (db_collection_tags d) = [] then ([], 0)
         else (scan_posts_with_source d viewer (page_of page per_page (newest_first (post_rows_of P d))), count_posts P d))"

lemma max_int64_pos: "0 < max_int64"
  by (simp add: max_int64_def)

interpretation collection_pages: paged_list "\<lambda>d k n. get_posts_for_collection d c k n viewer"
  "\<lambda>d. if tbl_select (\<lambda>_ (c', t). c' = c) (db_collection_tags d) = [] then []
     else scan_posts_with_source d viewer (newest_first (post_rows_of
       (\<lambda>i p. \<not> po_is_deleted p \<and> in_collection d c i) d))" pages_ok for c viewer
  by unfold_locales (simp_all add: get_posts_for_collection_def Let_def page_facts page_of_Nil max_int64_pos)

end
