(* ===== verification/Feeds.thy ===== *)
theory Feeds
  imports Listings
begin

text \<open>
  The RSS feeds of tags, their items and the log of their polls
  (\<^verbatim>\<open>tools/makhor/pkg/db/rss.go\<close>). The rates of the statistics are kept as exact
  fractions where the program rounds to floating point numbers.
\<close>

subsection \<open>Feeds\<close>

record rss_feed =
  rf_id :: int
  rf_url :: string
  rf_title :: string
  rf_tag_id :: int
  rf_tag_name :: string
  rf_created_by :: "int option"
  rf_created_by_name :: string
  rf_interval_minutes :: int
  rf_last_polled :: "int option"
  rf_last_error :: string
  rf_is_active :: bool
  rf_poll_on_view :: bool
  rf_auto_approve :: bool
  rf_max_items_per_poll :: int
  rf_created_at :: int
  rf_item_count :: int

definition get_rss_item_count :: "db \<Rightarrow> int \<Rightarrow> int" where
  "get_rss_item_count d f = tbl_count (\<lambda>_ r. it_feed_id r = f) (db_items d)"

definition feed_of_row :: "db \<Rightarrow> int \<Rightarrow> feed_row \<Rightarrow> tag_row \<Rightarrow> rss_feed" where
  "feed_of_row d i f t = \<lparr>rf_id = i, rf_url = fd_url f, rf_title = fd_title f, rf_tag_id = fd_tag_id f,
     rf_tag_name = tg_name t, rf_created_by = fd_created_by f,
     rf_created_by_name = username_of d (fd_created_by f), rf_interval_minutes = fd_interval_minutes f,
     rf_last_polled = fd_last_polled f, rf_last_error = or_empty (fd_last_error f),
     rf_is_active = fd_is_active f, rf_poll_on_view = fd_poll_on_view f,
     rf_auto_approve = fd_auto_approve f, rf_max_items_per_poll = fd_max_items_per_poll f,
     rf_created_at = fd_created_at f, rf_item_count = get_rss_item_count d i\<rparr>"

definition get_rss_feed_by_id :: "db \<Rightarrow> int \<Rightarrow> db_error + rss_feed" where
  "get_rss_feed_by_id d i =
     (case tbl_get (db_feeds d) i of
        None \<Rightarrow> Inl No_rows
      | Some f \<Rightarrow> (case tbl_get (db_tags d) (fd_tag_id f) of
          None \<Rightarrow> Inl No_rows | Some t \<Rightarrow> Inr (feed_of_row d i f t)))"

record feed_options =
  fo_url :: string
  fo_title :: string
  fo_tag_id :: int
  fo_created_by :: int
  fo_interval_minutes :: int
  fo_poll_on_view :: bool
  fo_auto_approve :: bool
  fo_max_items_per_poll :: int

definition create_rss_feed_with_options ::
  "denv \<Rightarrow> feed_options \<Rightarrow> db \<Rightarrow> (db_error + rss_feed) \<times> db" where
  "create_rss_feed_with_options e opts d =
     (if tbl_get (db_tags d) (fo_tag_id opts) = None then (Inl Tag_not_found, d)
      else
        (let interval = (if fo_interval_minutes opts < 5 then 60 else fo_interval_minutes opts);
             items = (if fo_max_items_per_poll opts < 1 then 10 else fo_max_items_per_poll opts);
             by = (if fo_created_by opts > 0 then Some (fo_created_by opts) else None)
         in if tbl_find (\<lambda>_ f. fd_url f = fo_url opts) (db_feeds d) \<noteq> None
               \<or> \<not> fk_ok e (db_users d) by \<or> \<not> fk_ok e (db_tags d) (Some (fo_tag_id opts))
            then (Inl Constraint_failed, d)
            else (case tbl_insert \<lparr>fd_url = fo_url opts, fd_title = fo_title opts,
                    fd_tag_id = fo_tag_id opts, fd_created_by = by, fd_interval_minutes = interval,
                    fd_last_polled = None, fd_last_error = None, fd_is_active = True,
                    fd_poll_on_view = fo_poll_on_view opts, fd_auto_approve = fo_auto_approve opts,
                    fd_max_items_per_poll = items, fd_created_at = dv_now e\<rparr> (db_feeds d) of
                  (i, t) \<Rightarrow> (get_rss_feed_by_id (d\<lparr>db_feeds := t\<rparr>) i, d\<lparr>db_feeds := t\<rparr>))))"

definition create_rss_feed ::
  "denv \<Rightarrow> string \<Rightarrow> string \<Rightarrow> int \<Rightarrow> int \<Rightarrow> db \<Rightarrow> (db_error + rss_feed) \<times> db" where
  "create_rss_feed e url title tag interval =
     create_rss_feed_with_options e \<lparr>fo_url = url, fo_title = title, fo_tag_id = tag, fo_created_by = 0,
       fo_interval_minutes = interval, fo_poll_on_view = False, fo_auto_approve = True,
       fo_max_items_per_poll = 10\<rparr>"

text \<open>The rows of a query, with the tag of each joined in.\<close>

definition scan_feeds :: "db \<Rightarrow> (int \<times> feed_row) list \<Rightarrow> rss_feed list" where
  "scan_feeds d rows = concat (map (\<lambda>(i, f). case tbl_get (db_tags d) (fd_tag_id f) of
     None \<Rightarrow> [] | Some t \<Rightarrow> [feed_of_row d i f t]) rows)"

definition get_all_rss_feeds :: "db \<Rightarrow> rss_feed list" where
  "get_all_rss_feeds d = scan_feeds d (sort_key (\<lambda>(i, f). - fd_created_at f) (snd (db_feeds d)))"

definition get_rss_feeds_by_tag :: "db \<Rightarrow> int \<Rightarrow> rss_feed list" where
  "get_rss_feeds_by_tag d t = scan_feeds d (sort_key (\<lambda>(i, f). - fd_created_at f)
     (tbl_select (\<lambda>_ f. fd_tag_id f = t) (db_feeds d)))"

text \<open>
  A feed is due when it has never been polled, or its interval has gone by. The modifier a query
  builds from a negative interval has two signs and gives NULL, so such a feed is never due again.
\<close>

definition interval_over :: "denv \<Rightarrow> feed_row \<Rightarrow> bool" where
  "interval_over e f \<longleftrightarrow> (case fd_last_polled f of None \<Rightarrow> True
     | Some t \<Rightarrow> fd_interval_minutes f \<ge> 0 \<and> t + fd_interval_minutes f * 60 \<le> dv_now e)"

definition oldest_poll_first :: "(int \<times> feed_row) list \<Rightarrow> (int \<times> feed_row) list" where
  "oldest_poll_first rows = filter (\<lambda>(i, f). fd_last_polled f = None) rows
     @ sort_key (\<lambda>(i, f). the (fd_last_polled f)) (filter (\<lambda>(i, f). fd_last_polled f \<noteq> None) rows)"

definition get_feeds_due_for_polling :: "denv \<Rightarrow> db \<Rightarrow> rss_feed list" where
  "get_feeds_due_for_polling e d = scan_feeds d (oldest_poll_first (tbl_select
     (\<lambda>_ f. fd_is_active f \<and> \<not> fd_poll_on_view f \<and> interval_over e f) (db_feeds d)))"

definition get_feeds_due_for_view_polling :: "denv \<Rightarrow> db \<Rightarrow> int \<Rightarrow> rss_feed list" where
  "get_feeds_due_for_view_polling e d t = scan_feeds d (oldest_poll_first (tbl_select
     (\<lambda>_ f. fd_is_active f \<and> fd_tag_id f = t \<and> fd_poll_on_view f \<and> interval_over e f) (db_feeds d)))"

definition set_feed :: "int \<Rightarrow> (feed_row \<Rightarrow> feed_row) \<Rightarrow> db \<Rightarrow> db" where
  "set_feed i g d = d\<lparr>db_feeds := tbl_update (\<lambda>k _. k = i) g (db_feeds d)\<rparr>"

definition update_rss_feed :: "int \<Rightarrow> int \<Rightarrow> bool \<Rightarrow> bool \<Rightarrow> int \<Rightarrow> bool \<Rightarrow> db \<Rightarrow> db" where
  "update_rss_feed i interval on_view approve items active =
     set_feed i (\<lambda>f. f\<lparr>fd_interval_minutes := interval, fd_poll_on_view := on_view,
       fd_auto_approve := approve, fd_max_items_per_poll := items, fd_is_active := active\<rparr>)"

definition update_feed_polled :: "denv \<Rightarrow> int \<Rightarrow> db \<Rightarrow> db" where
  "update_feed_polled e i = set_feed i (\<lambda>f. f\<lparr>fd_last_polled := Some (dv_now e), fd_last_error := None\<rparr>)"

definition update_feed_error :: "denv \<Rightarrow> int \<Rightarrow> string \<Rightarrow> db \<Rightarrow> db" where
  "update_feed_error e i msg =
     set_feed i (\<lambda>f. f\<lparr>fd_last_polled := Some (dv_now e), fd_last_error := Some msg\<rparr>)"

definition update_rss_feed_full :: "int \<Rightarrow> string \<Rightarrow> string \<Rightarrow> int \<Rightarrow> bool \<Rightarrow> bool \<Rightarrow> int \<Rightarrow> bool \<Rightarrow>
    db \<Rightarrow> (db_error + unit) \<times> db" where
  "update_rss_feed_full i url title interval on_view approve items active d =
     (if tbl_get (db_feeds d) i \<noteq> None \<and> tbl_find (\<lambda>k f. k \<noteq> i \<and> fd_url f = url) (db_feeds d) \<noteq> None
      then (Inl Constraint_failed, d)
      else (Inr (), set_feed i (\<lambda>f. f\<lparr>fd_url := url, fd_title := title, fd_interval_minutes := interval,
        fd_poll_on_view := on_view, fd_auto_approve := approve, fd_max_items_per_poll := items,
        fd_is_active := active\<rparr>) d))"

definition delete_rss_feed :: "denv \<Rightarrow> int \<Rightarrow> db \<Rightarrow> db" where
  "delete_rss_feed e i = delete_feeds e (\<lambda>k _. k = i)"

subsection \<open>Items\<close>

definition has_rss_item :: "db \<Rightarrow> int \<Rightarrow> string \<Rightarrow> bool" where
  "has_rss_item d f g \<longleftrightarrow> tbl_count (\<lambda>_ r. it_feed_id r = f \<and> it_guid r = g) (db_items d) > 0"

definition create_rss_item :: "denv \<Rightarrow> int \<Rightarrow> string \<Rightarrow> int \<Rightarrow> db \<Rightarrow> (db_error + unit) \<times> db" where
  "create_rss_item e f g p d =
     (if tbl_find (\<lambda>_ r. it_feed_id r = f \<and> it_guid r = g) (db_items d) \<noteq> None
         \<or> \<not> fk_ok e (db_feeds d) (Some f) \<or> \<not> fk_ok e (db_posts d) (Some p)
      then (Inl Constraint_failed, d)
      else (Inr (), d\<lparr>db_items := snd (tbl_insert \<lparr>it_feed_id = f, it_guid = g, it_post_id = Some p,
        it_imported_at = dv_now e\<rparr> (db_items d))\<rparr>))"

text \<open>The columns this query selects leave out the hat and who voted.\<close>

definition from_feed :: "int \<Rightarrow> post_row \<Rightarrow> bool" where
  "from_feed f p \<longleftrightarrow> po_source_type p = ''rss'' \<and> po_source_id p = Some f \<and> \<not> po_is_deleted p"

definition feed_post :: "db \<Rightarrow> int \<Rightarrow> int \<Rightarrow> post_row \<Rightarrow> listed_post" where
  "feed_post d f i p = (listed_row d i p)\<lparr>pr_source_type := ''rss'', pr_source_id := Some f,
     pr_tags := get_post_tags d i\<rparr>"

definition get_posts_by_feed :: "db \<Rightarrow> int \<Rightarrow> int \<Rightarrow> int \<Rightarrow> listed_post list \<times> int" where
  "get_posts_by_feed d f page per_page =
     (map (\<lambda>(i, p). feed_post d f i p)
        (page_of page per_page (newest_first (post_rows_of (\<lambda>i p. from_feed f p) d))),
      count_posts (\<lambda>i p. from_feed f p) d)"

interpretation feed_pages: paged_list "\<lambda>d k n. get_posts_by_feed d f k n"
  "\<lambda>d. map (\<lambda>(i, p). feed_post d f i p) (newest_first (post_rows_of (\<lambda>i p. from_feed f p) d))" pages_ok for f
  by unfold_locales (simp_all add: get_posts_by_feed_def page_of_map page_facts)

subsection \<open>Rights\<close>

definition can_manage_tag_feed :: "db \<Rightarrow> int \<Rightarrow> int \<Rightarrow> bool" where
  "can_manage_tag_feed d u t =
     (if is_site_admin d u then True
      else if (case tbl_get (db_tags d) t of None \<Rightarrow> False | Some r \<Rightarrow> tg_creator_id r = Some u) then True
      else tbl_count (\<lambda>_ a. ta_tag_id a = t \<and> ta_user_id a = u) (db_tag_admins d) > 0)"

definition can_edit_feed :: "db \<Rightarrow> int \<Rightarrow> int \<Rightarrow> bool" where
  "can_edit_feed d u i =
     (if is_site_admin d u then True
      else (case tbl_get (db_feeds d) i of
          None \<Rightarrow> False
        | Some f \<Rightarrow> if fd_created_by f = Some u then True else can_manage_tag_feed d u (fd_tag_id f)))"

lemma manage_is_moderate:
  "tbl_ok (db_tags d) \<Longrightarrow> can_manage_tag_feed d u t \<longleftrightarrow> can_moderate_tag d t u"
  by (auto simp: can_manage_tag_feed_def can_moderate_tag_def is_tag_creator_def is_tag_admin_def
    tbl_count_pos split: option.splits)

subsection \<open>The log of polls\<close>

definition log_rss_poll ::
  "denv \<Rightarrow> int \<Rightarrow> bool \<Rightarrow> int \<Rightarrow> int \<Rightarrow> int \<Rightarrow> string \<Rightarrow> int \<Rightarrow> db \<Rightarrow> (db_error + unit) \<times> db" where
  "log_rss_poll e f success status found imported msg ms d =
     (if \<not> fk_ok e (db_feeds d) (Some f) then (Inl Constraint_failed, d)
      else (Inr (), d\<lparr>db_polls := snd (tbl_insert \<lparr>pl_feed_id = f, pl_polled_at = dv_now e,
        pl_success = success, pl_http_status = status, pl_items_found = found,
        pl_items_imported = imported, pl_error_message = msg, pl_duration_ms = ms\<rparr> (db_polls d))\<rparr>))"

record feed_stats =
  fs_total_polls :: int
  fs_successful_polls :: int
  fs_failed_polls :: int
  fs_total_items_found :: int
  fs_total_items_imported :: int
  fs_avg_items_per_poll :: rat
  fs_success_rate :: rat
  fs_fail_rate_24h :: rat
  fs_last_polls :: "(int \<times> poll_row) list"
  fs_status_counts :: "(int \<times> int) list"

text \<open>A sum over no rows is NULL, which the program cannot read into a number: an error (\<open>None\<close>).\<close>

definition get_rss_feed_stats :: "denv \<Rightarrow> db \<Rightarrow> int \<Rightarrow> feed_stats option" where
  "get_rss_feed_stats e d f =
     (let polls = tbl_select (\<lambda>_ r. pl_feed_id r = f) (db_polls d);
          num = (\<lambda>P. int (length (filter (\<lambda>(k, r). P r) polls)));
          total = int (length polls);
          imported = sum_list (map (\<lambda>(k, r). pl_items_imported r) polls);
          recent = (\<lambda>r. pl_polled_at r \<ge> dv_now e - 86400)
      in if polls = [] then None
         else Some \<lparr>fs_total_polls = total, fs_successful_polls = num pl_success,
           fs_failed_polls = num (\<lambda>r. \<not> pl_success r),
           fs_total_items_found = sum_list (map (\<lambda>(k, r). pl_items_found r) polls),
           fs_total_items_imported = imported, fs_avg_items_per_poll = Fract imported total,
           fs_success_rate = Fract (num pl_success) total * 100,
           fs_fail_rate_24h = (if num recent > 0
             then Fract (num (\<lambda>r. recent r \<and> \<not> pl_success r)) (num recent) * 100 else 0),
           fs_last_polls = take 20 (sort_key (\<lambda>(k, r). - pl_polled_at r) polls),
           fs_status_counts = map (\<lambda>s. (s, num (\<lambda>r. pl_http_status r = s)))
             (remdups (filter (\<lambda>s. s > 0) (map (\<lambda>(k, r). pl_http_status r) polls)))\<rparr>)"

text \<open>A negative age gives a modifier with two signs, and nothing is older than NULL.\<close>

definition clean_old_poll_logs :: "denv \<Rightarrow> int \<Rightarrow> db \<Rightarrow> int \<times> db" where
  "clean_old_poll_logs e seconds d =
     (let old = (\<lambda>_ r. seconds \<ge> 0 \<and> pl_polled_at r < dv_now e - seconds)
      in (tbl_count old (db_polls d), d\<lparr>db_polls := tbl_delete old (db_polls d)\<rparr>))"

end
