(* ===== verification/Poller.thy ===== *)
theory Poller
  imports Feeds
begin

text \<open>
  The poller of RSS and Atom feeds (\<^verbatim>\<open>tools/makhor/pkg/rsspoll/poller.go\<close>): what a
  poll makes of a feed document, the posts it imports, and the loop over the feeds that are due. The
  answer of the remote server, the XML decoder, the table of HTML entities and the date formats of the
  time library are parameters; the times of one poll are those of its environment. The feeds of a tag
  are polled concurrently by the program: here one after the other, in an order given from outside.
\<close>

subsection \<open>Text\<close>

text \<open>
  The bytes of the first character of a UTF-8 text, 0 if they are not one: what \<^verbatim>\<open>range\<close>
  over a string steps by (by one byte, which it reads as U+FFFD, in the latter case).
\<close>

definition cont_byte :: "nat \<Rightarrow> bool" where
  "cont_byte b \<longleftrightarrow> 128 \<le> b \<and> b \<le> 191"

definition rune_size :: "nat \<Rightarrow> nat" where
  "rune_size x = (if x < 128 then 1 else if 194 \<le> x \<and> x \<le> 223 then 2
     else if 224 \<le> x \<and> x \<le> 239 then 3 else if 240 \<le> x \<and> x \<le> 244 then 4 else 0)"

definition second_ok :: "nat \<Rightarrow> nat \<Rightarrow> bool" where
  "second_ok x y \<longleftrightarrow> (if x = 224 then 160 else if x = 240 then 144 else 128) \<le> y
     \<and> y \<le> (if x = 237 then 159 else if x = 244 then 143 else 191)"

fun rune_tail_ok :: "nat list \<Rightarrow> bool" where
  "rune_tail_ok (x # y # ys) \<longleftrightarrow> second_ok x y \<and> list_all cont_byte ys"
| "rune_tail_ok _ \<longleftrightarrow> True"

fun rune_width :: "string \<Rightarrow> nat" where
  "rune_width [] = 0"
| "rune_width (c # cs) = (let k = rune_size (of_char c) in
     if k \<le> length (c # cs) \<and> rune_tail_ok (map of_char (take k (c # cs))) then k else 0)"

definition replacement_rune :: string where
  "replacement_rune = map char_of [239, 191, 189 :: nat]"

lemma rune_width_le: "rune_width s \<le> length s"
  by (cases s) (auto simp: Let_def)

text \<open>The loop that keeps what is outside angle brackets.\<close>

function strip_tags :: "bool \<Rightarrow> string \<Rightarrow> string" where
  "strip_tags in_tag [] = []"
| "strip_tags in_tag (c # cs) =
     (if c = CHR ''<'' then strip_tags True cs
      else if c = CHR ''>'' then strip_tags False cs
      else (let n = rune_width (c # cs) in
        (if in_tag then [] else if n = 0 then replacement_rune else take n (c # cs))
          @ strip_tags in_tag (drop (n - 1) cs)))"
  by pat_completeness auto
termination by (relation "measure (length \<circ> snd)") auto

text \<open>\<^verbatim>\<open>[ \t]+\<close> becomes one space.\<close>

fun collapse_blanks :: "string \<Rightarrow> string" where
  "collapse_blanks [] = []"
| "collapse_blanks (c # cs) =
     (if c = CHR '' '' \<or> c = CHR 0x09
      then CHR '' '' # dropWhile (\<lambda>x. x = CHR '' '' \<or> x = CHR 0x09) (collapse_blanks cs)
      else c # collapse_blanks cs)"

text \<open>\<^verbatim>\<open>\n{3,}\<close> becomes two newlines.\<close>

fun collapse_newlines :: "nat \<Rightarrow> string \<Rightarrow> string" where
  "collapse_newlines k [] = []"
| "collapse_newlines k (c # cs) =
     (if c = CHR 0x0A then (if k < 2 then c # collapse_newlines (k + 1) cs else collapse_newlines k cs)
      else c # collapse_newlines 0 cs)"

definition block_breaks :: "(string \<times> string) list" where
  "block_breaks = [(''<br>'', [CHR 0x0A]), (''<br/>'', [CHR 0x0A]), (''<br />'', [CHR 0x0A]),
     (''</p>'', [CHR 0x0A, CHR 0x0A]), (''</div>'', [CHR 0x0A]), (''</li>'', [CHR 0x0A]),
     (''</tr>'', [CHR 0x0A]), (''</h1>'', [CHR 0x0A, CHR 0x0A]), (''</h2>'', [CHR 0x0A, CHR 0x0A]),
     (''</h3>'', [CHR 0x0A, CHR 0x0A]), (''</h4>'', [CHR 0x0A]), (''</blockquote>'', [CHR 0x0A])]"

definition strip_html :: "string \<Rightarrow> string" where
  "strip_html s =
     (let s = fold (\<lambda>(old, new). replace_all old new) block_breaks s;
          body = strip_tags False s;
          lines = map (\<lambda>l. trim_space (collapse_blanks l)) (split_on (CHR 0x0A) body)
      in trim_space (collapse_newlines 0 (join_with [CHR 0x0A] lines)))"

subsection \<open>Feed documents\<close>

record rss_entry =
  re_title :: string
  re_link :: string
  re_description :: string
  re_content_encoded :: string
  re_guid :: string
  re_pub_date :: string

record atom_entry =
  ae_title :: string
  ae_link_href :: string
  ae_link_rel :: string
  ae_id :: string
  ae_summary :: string
  ae_content :: string
  ae_updated :: string

record feed_item =
  fi_title :: string
  fi_link :: string
  fi_description :: string
  fi_guid :: string
  fi_published_at :: "int option"

datatype fetch = Fetch_failed string | Fetched int "string + string"

text \<open>
  What a poll meets: the answer to a request, the decoders (None for an error), the parser of a date in
  a format, the entities, the database, and how long it took.
\<close>

record poll_env =
  pe_get :: "string \<Rightarrow> fetch"
  pe_rss :: "string \<Rightarrow> rss_entry list option"
  pe_atom :: "string \<Rightarrow> atom_entry list option"
  pe_time :: "string \<Rightarrow> string \<Rightarrow> int option"
  pe_unescape :: "string \<Rightarrow> string"
  pe_db :: denv
  pe_ms :: int

definition date_formats :: "string list" where
  "date_formats = [''Mon, 02 Jan 2006 15:04:05 -0700'', ''Mon, 02 Jan 2006 15:04:05 MST'',
     ''2006-01-02T15:04:05Z07:00'', ''2006-01-02T15:04:05.999999999Z07:00'', ''2006-01-02T15:04:05Z'',
     ''2006-01-02T15:04:05-07:00'', ''2006-01-02 15:04:05'', ''Mon, 2 Jan 2006 15:04:05 -0700'',
     ''Mon, 2 Jan 2006 15:04:05 MST'', ''02 Jan 2006 15:04:05 -0700'', ''2 Jan 2006 15:04:05 -0700'']"

fun first_date :: "(string \<Rightarrow> string \<Rightarrow> int option) \<Rightarrow> string \<Rightarrow> string list \<Rightarrow> int option" where
  "first_date parse s [] = None"
| "first_date parse s (f # fs) = (case parse f s of Some t \<Rightarrow> Some t | None \<Rightarrow> first_date parse s fs)"

definition parse_rss_date :: "poll_env \<Rightarrow> string \<Rightarrow> int option" where
  "parse_rss_date pe s = first_date (pe_time pe) (trim_space s) date_formats"

definition item_of_rss :: "poll_env \<Rightarrow> rss_entry \<Rightarrow> feed_item" where
  "item_of_rss pe i = \<lparr>fi_title = re_title i, fi_link = re_link i,
     fi_description = (if re_content_encoded i = [] then re_description i else re_content_encoded i),
     fi_guid = re_guid i,
     fi_published_at = (if re_pub_date i \<noteq> [] then parse_rss_date pe (re_pub_date i) else None)\<rparr>"

definition item_of_atom :: "poll_env \<Rightarrow> atom_entry \<Rightarrow> feed_item" where
  "item_of_atom pe a = \<lparr>fi_title = ae_title a, fi_link = ae_link_href a,
     fi_description = (if ae_summary a = [] then ae_content a else ae_summary a),
     fi_guid = ae_id a,
     fi_published_at = (if ae_updated a \<noteq> [] then parse_rss_date pe (ae_updated a) else None)\<rparr>"

definition parse_rss :: "poll_env \<Rightarrow> string \<Rightarrow> string + feed_item list" where
  "parse_rss pe doc =
     (case pe_rss pe doc of
        Some (i # is) \<Rightarrow> Inr (map (item_of_rss pe) (i # is))
      | _ \<Rightarrow> (case pe_atom pe doc of
            Some (a # as) \<Rightarrow> Inr (map (item_of_atom pe) (a # as))
          | _ \<Rightarrow> Inl ''could not parse as RSS or Atom''))"

subsection \<open>A poll\<close>

definition item_key :: "feed_item \<Rightarrow> string" where
  "item_key i = (if fi_guid i = [] then fi_link i else fi_guid i)"

definition item_post_title :: "poll_env \<Rightarrow> feed_item \<Rightarrow> string" where
  "item_post_title pe i = (let t = pe_unescape pe (fi_title i) in
     if length t > 200 then take 197 t @ ''...'' else t)"

definition cut_point :: "string \<Rightarrow> nat" where
  "cut_point body = (case find (\<lambda>i. body ! i = CHR ''.'' \<or> body ! i = CHR 0x0A) [4900..<min 5000 (length body)] of
     None \<Rightarrow> 4900 | Some i \<Rightarrow> i + 1)"

definition item_post_body :: "poll_env \<Rightarrow> feed_item \<Rightarrow> string" where
  "item_post_body pe i =
     (if fi_description i = [] then []
      else let body = pe_unescape pe (strip_html (fi_description i)) in
        if length body > 5000 then trim_space (take (cut_point body) body) @ ''...'' else body)"

text \<open>The loop over the items, with the number imported so far.\<close>

fun import_items :: "poll_env \<Rightarrow> int \<Rightarrow> rss_feed \<Rightarrow> feed_item list \<Rightarrow> int \<Rightarrow> db \<Rightarrow> int \<times> db" where
  "import_items pe owner feed [] n d = (n, d)"
| "import_items pe owner feed (i # items) n d =
     (if item_key i = [] then import_items pe owner feed items n d
      else if has_rss_item d (rf_id feed) (item_key i) then import_items pe owner feed items n d
      else (case create_post_full (pe_db pe) owner (item_post_title pe i) (fi_link i) (item_post_body pe i)
              [rf_tag_id feed] ''rss'' (Some (rf_id feed)) None (fi_published_at i) d of
          (Inl _, d) \<Rightarrow> import_items pe owner feed items n d
        | (Inr p, d) \<Rightarrow>
            (let d = snd (create_rss_item (pe_db pe) (rf_id feed) (item_key i) (pr_id p) d) in
              if rf_max_items_per_poll feed > 0 \<and> n + 1 \<ge> rf_max_items_per_poll feed then (n + 1, d)
              else import_items pe owner feed items (n + 1) d)))"

text \<open>The deferred call writes the log last; the error of a poll is its text.\<close>

definition poll_feed :: "poll_env \<Rightarrow> int \<Rightarrow> rss_feed \<Rightarrow> db \<Rightarrow> string option \<times> db" where
  "poll_feed pe owner feed d =
     (let failed = (\<lambda>status msg.
            (Some msg, snd (log_rss_poll (pe_db pe) (rf_id feed) False status 0 0 msg (pe_ms pe) d)))
      in case pe_get pe (rf_url feed) of
           Fetch_failed err \<Rightarrow> failed 0 (''fetching feed: '' @ err)
         | Fetched status body \<Rightarrow>
             if status \<noteq> 200 then failed status (''HTTP '' @ itoa status)
             else (case body of
                 Inl err \<Rightarrow> failed status (''reading body: '' @ err)
               | Inr doc \<Rightarrow> (case parse_rss pe doc of
                     Inl err \<Rightarrow> failed status (''parsing RSS: '' @ err)
                   | Inr items \<Rightarrow> (case import_items pe owner feed items 0 d of
                       (n, d) \<Rightarrow> (None, snd (log_rss_poll (pe_db pe) (rf_id feed) True status
                         (int (length items)) n [] (pe_ms pe) d))))))"

definition poll_and_mark :: "poll_env \<Rightarrow> int \<Rightarrow> rss_feed \<Rightarrow> db \<Rightarrow> string option \<times> db" where
  "poll_and_mark pe owner feed d =
     (case poll_feed pe owner feed d of
        (Some err, d) \<Rightarrow> (Some err, update_feed_error (pe_db pe) (rf_id feed) err d)
      | (None, d) \<Rightarrow> (None, update_feed_polled (pe_db pe) (rf_id feed) d))"

definition poll_all :: "poll_env \<Rightarrow> int \<Rightarrow> db \<Rightarrow> db" where
  "poll_all pe owner d =
     fold (\<lambda>f d. snd (poll_and_mark pe owner f d)) (get_feeds_due_for_polling (pe_db pe) d) d"

text \<open>The order in which the goroutines of the feeds ran.\<close>

definition poll_tag_feeds :: "(rss_feed list \<Rightarrow> rss_feed list) \<Rightarrow> poll_env \<Rightarrow> int \<Rightarrow> int \<Rightarrow> db \<Rightarrow> db" where
  "poll_tag_feeds order pe owner tag d =
     fold (\<lambda>f d. snd (poll_and_mark pe owner f d))
       (order (get_feeds_due_for_view_polling (pe_db pe) d tag)) d"

definition poll_feed_now :: "poll_env \<Rightarrow> int \<Rightarrow> int \<Rightarrow> db \<Rightarrow> string option \<times> db" where
  "poll_feed_now pe owner feed_id d =
     (case get_rss_feed_by_id d feed_id of
        Inl _ \<Rightarrow> (Some ''feed not found: sql: no rows in result set'', d)
      | Inr feed \<Rightarrow> poll_and_mark pe owner feed d)"

end
