(* ===== verification/WebAdmin.thy ===== *)
theory WebAdmin
  imports WebContent Collections Poller
begin

text \<open>
  The handlers of administrators, inviters and the owners of tags
  (\<^verbatim>\<open>tools/makhor/pkg/handlers/admin.go\<close>, \<^verbatim>\<open>tags.go\<close>,
  \<^verbatim>\<open>collections.go\<close> and the feed pages of \<^verbatim>\<open>rss.go\<close>): bans,
  hats, tags, the administrators and feeds of tags, and collections; and who may change what by them. The
  end of a ban is computed in UTC. Pages that only show a table are left out.
\<close>

definition with_id :: "string \<Rightarrow> string \<Rightarrow> web \<Rightarrow> (int \<Rightarrow> response \<times> web) \<Rightarrow> response \<times> web" where
  "with_id s msg w k = (case parse_int s of None \<Rightarrow> (Error_page 400 msg, w) | Some i \<Rightarrow> k i)"

definition with_form :: "web_request \<Rightarrow> web \<Rightarrow> response \<times> web \<Rightarrow> response \<times> web" where
  "with_form r w k = (if rq_form r = None then (Error_page 400 ''Invalid form data'', w) else k)"

definition field :: "web_request \<Rightarrow> string \<Rightarrow> string" where
  "field r k = trim_space (form_value r k)"

text \<open>All the values of a field of the form.\<close>

definition form_values :: "web_request \<Rightarrow> string \<Rightarrow> string list" where
  "form_values r k = map snd (filter (\<lambda>p. fst p = k) ((case rq_form r of None \<Rightarrow> [] | Some f \<Rightarrow> f) @ rq_query r))"

definition moderate :: "denv \<Rightarrow> user \<Rightarrow> string \<Rightarrow> int option \<Rightarrow> string \<Rightarrow> web \<Rightarrow> web" where
  "moderate e u action who reason = map_db (\<lambda>d. snd (log_moderation e (ur_id u) action who None None reason d))"

subsection \<open>Bans\<close>

definition date_text :: "int \<Rightarrow> string" where
  "date_text t = (case civil_from_days (t div 86400) of (y, m, day) \<Rightarrow>
     (if y < 0 then ''-'' else []) @ pad0 4 (nat \<bar>y\<bar>) @ ''-'' @ pad0 2 (nat m) @ ''-'' @ pad0 2 (nat day))"

definition can_ban :: "db \<Rightarrow> user \<Rightarrow> user \<Rightarrow> bool" where
  "can_ban d u target \<longleftrightarrow> ur_is_admin u \<or> is_invited_by d (ur_id target) (ur_id u)"

text \<open>The guards that the form and its submission share.\<close>

definition on_ban :: "web_request \<Rightarrow> user option \<Rightarrow> web \<Rightarrow> (user \<Rightarrow> user \<Rightarrow> string \<Rightarrow> response \<times> web) \<Rightarrow> response \<times> web" where
  "on_ban r user w k =
     (case user of
        None \<Rightarrow> (Error_page 403 ''Forbidden'', w)
      | Some u \<Rightarrow> (let name = query_get r ''username'' in
          if name = [] then (Error_page 400 ''Missing username'', w)
          else (case get_user_by_username (wb_db w) name of
                  Inl _ \<Rightarrow> (Error_page 404 ''User not found'', w)
                | Inr target \<Rightarrow>
                    if ur_id target = ur_id u then (Error_page 400 ''Cannot ban yourself'', w)
                    else if \<not> can_ban (wb_db w) u target then (Error_page 403 ''Forbidden'', w)
                    else k u target name)))"

definition admin_ban_user_page :: "web_request \<Rightarrow> user option \<Rightarrow> web \<Rightarrow> response \<times> web" where
  "admin_ban_user_page r user w = on_ban r user w (\<lambda>u target name. (Page ''admin_ban.html'' [], w))"

text \<open>Inl is a duration that is not a number of days; None is no end.\<close>

definition ban_expiry :: "int \<Rightarrow> string \<Rightarrow> unit + int option" where
  "ban_expiry now duration =
     (if duration \<noteq> [] \<and> duration \<noteq> ''permanent''
      then (case parse_int duration of
              None \<Rightarrow> Inl ()
            | Some days \<Rightarrow> if days < 1 then Inl () else Inr (Some (wrap64 (now + days * 86400))))
      else Inr None)"

definition admin_ban_user_submit :: "denv \<Rightarrow> site \<Rightarrow> web_request \<Rightarrow> user option \<Rightarrow> web \<Rightarrow> response \<times> web" where
  "admin_ban_user_submit e s r user w = on_ban r user w (\<lambda>u target name. with_form r w
     (let reason = field r ''reason''; duration = field r ''duration'' in
      (case ban_expiry (dv_now e) duration of
         Inl _ \<Rightarrow> (Page ''admin_ban.html'' [(''Error'',
           ''Invalid duration - must be a positive number of days or empty for permanent''),
           (''Reason'', reason), (''Duration'', duration)], w)
       | Inr expires \<Rightarrow> (case ban_user e (ur_id target) reason expires (ur_id u) (wb_db w) of
             (Inl _, d) \<Rightarrow> (Error_page 500 ''Could not ban user'', w\<lparr>wb_db := d\<rparr>)
           | (Inr _, d) \<Rightarrow>
               (let details = (case expires of None \<Rightarrow> reason | Some t \<Rightarrow> reason @ '' (expires: '' @ date_text t @ '')'')
                in (redirect s (''/users/'' @ name),
                    moderate e u ''ban'' (Some (ur_id target)) details
                      (log_as e r user ''mod_ban'' ''user'' (ur_id target) name (w\<lparr>wb_db := d\<rparr>))))))))"

definition admin_unban_user :: "denv \<Rightarrow> site \<Rightarrow> web_request \<Rightarrow> user option \<Rightarrow> web \<Rightarrow> response \<times> web" where
  "admin_unban_user e s r user w = as_admin user w (\<lambda>u.
     (let name = query_get r ''username'' in
      if name = [] then (Error_page 400 ''Missing username'', w)
      else (case get_user_by_username (wb_db w) name of
              Inl _ \<Rightarrow> (Error_page 404 ''User not found'', w)
            | Inr target \<Rightarrow> (redirect s (''/users/'' @ name),
                moderate e u ''unban'' (Some (ur_id target)) []
                  (log_as e r user ''mod_unban'' ''user'' (ur_id target) name
                    (map_db (set_user_banned (ur_id target) False) w))))))"

subsection \<open>Hats\<close>

definition grant_form :: "string \<Rightarrow> string \<Rightarrow> string \<Rightarrow> string \<Rightarrow> string \<Rightarrow> response" where
  "grant_form err username name org link = Page ''admin_grant_hat.html'' [(''Error'', err),
     (''Username'', username), (''Name'', name), (''Organization'', org), (''Link'', link)]"

definition admin_grant_hat_submit :: "denv \<Rightarrow> site \<Rightarrow> web_request \<Rightarrow> user option \<Rightarrow> web \<Rightarrow> response \<times> web" where
  "admin_grant_hat_submit e s r user w = as_admin user w (\<lambda>u. with_form r w
     (let username = field r ''username''; name = field r ''name'';
          org = field r ''organization''; link = field r ''link'' in
      if username = [] \<or> name = [] \<or> org = []
      then (grant_form ''Username, name, and organization are required'' username name org link, w)
      else (case get_user_by_username (wb_db w) username of
              Inl _ \<Rightarrow> (grant_form ''User not found'' username name org link, w)
            | Inr target \<Rightarrow> (case create_hat e (ur_id target) name org link (Some (ur_id u)) (wb_db w) of
                  (Inl _, d) \<Rightarrow> (Error_page 500 ''Could not grant hat'', w\<lparr>wb_db := d\<rparr>)
                | (Inr h, d) \<Rightarrow> (redirect s ''/admin/hats'',
                    moderate e u ''grant_hat'' (Some (ur_id target)) (name @ '' @ '' @ org)
                      (log_as e r user ''hat_grant'' ''hat'' (hr_id h) username (w\<lparr>wb_db := d\<rparr>)))))))"

definition admin_revoke_hat :: "denv \<Rightarrow> site \<Rightarrow> web_request \<Rightarrow> user option \<Rightarrow> web \<Rightarrow> response \<times> web" where
  "admin_revoke_hat e s r user w = as_admin user w (\<lambda>u.
     with_id (query_get r ''id'') ''Invalid hat ID'' w (\<lambda>i. (redirect s ''/admin/hats'',
       moderate e u ''revoke_hat'' None []
         (log_as e r user ''hat_revoke'' ''hat'' i [] (map_db (revoke_hat i) w)))))"

definition on_hat :: "web_request \<Rightarrow> user option \<Rightarrow> web \<Rightarrow> (int \<Rightarrow> hat \<Rightarrow> response \<times> web) \<Rightarrow> response \<times> web" where
  "on_hat r user w k = as_admin user w (\<lambda>u. with_id (query_get r ''id'') ''Invalid hat ID'' w (\<lambda>i.
     (case get_hat_by_id (wb_db w) i of Inl _ \<Rightarrow> (Error_page 404 ''Hat not found'', w) | Inr h \<Rightarrow> k i h)))"

definition admin_edit_hat_page :: "web_request \<Rightarrow> user option \<Rightarrow> web \<Rightarrow> response \<times> web" where
  "admin_edit_hat_page r user w = on_hat r user w (\<lambda>i h.
     (case get_user_by_id (wb_db w) (hr_user_id h) of
        Inl _ \<Rightarrow> (Error_page 500 ''Could not load user'', w)
      | Inr u \<Rightarrow> (Page ''admin_edit_hat.html'' [(''Username'', ur_username u)], w)))"

definition admin_edit_hat_submit :: "denv \<Rightarrow> site \<Rightarrow> web_request \<Rightarrow> user option \<Rightarrow> web \<Rightarrow> response \<times> web" where
  "admin_edit_hat_submit e s r user w = on_hat r user w (\<lambda>i h. with_form r w
     (let name = field r ''name''; org = field r ''organization''; link = field r ''link'' in
      if name = [] \<or> org = []
      then (Page ''admin_edit_hat.html'' [(''Error'', ''Name and organization are required''),
          (''Username'', username_of (wb_db w) (Some (hr_user_id h))),
          (''Name'', name), (''Organization'', org), (''Link'', link)], w)
      else (case update_hat i name org link (wb_db w) of
              (Inl _, d) \<Rightarrow> (Error_page 500 ''Could not update hat'', w\<lparr>wb_db := d\<rparr>)
            | (Inr _, d) \<Rightarrow> (redirect s ''/admin/hats'',
                log_as e r user ''hat_grant'' ''hat'' i ''updated'' (w\<lparr>wb_db := d\<rparr>)))))"

definition admin_reactivate_hat :: "denv \<Rightarrow> site \<Rightarrow> web_request \<Rightarrow> user option \<Rightarrow> web \<Rightarrow> response \<times> web" where
  "admin_reactivate_hat e s r user w = as_admin user w (\<lambda>u.
     with_id (query_get r ''id'') ''Invalid hat ID'' w (\<lambda>i. (redirect s ''/admin/hats'',
       log_as e r user ''hat_grant'' ''hat'' i ''reactivated'' (map_db (reactivate_hat i) w))))"

definition admin_logs_per_page :: int where
  "admin_logs_per_page = 50"

definition admin_log_page :: "web_request \<Rightarrow> user option \<Rightarrow> db \<Rightarrow> response + action_log list \<times> pagination" where
  "admin_log_page r user d =
     (if (case user of None \<Rightarrow> True | Some u \<Rightarrow> \<not> ur_is_admin u) then Inl (Error_page 403 ''Forbidden'')
      else (let page = get_int_param r ''page'' 1; n = admin_logs_per_page;
                f = \<lparr>lf_category = query_get r ''category'', lf_username = trim_space (query_get r ''username''),
                     lf_target_type = query_get r ''target_type'', lf_action = query_get r ''action''\<rparr>
            in (case get_action_log_filtered d f page n of (ls, count) \<Rightarrow> Inr (ls, new_pagination page n count))))"

definition moderation_log_page :: "web_request \<Rightarrow> db \<Rightarrow> moderation_log_entry list \<times> pagination" where
  "moderation_log_page r d = get_moderation_log d (get_int_param r ''page'' 1) admin_logs_per_page"

subsection \<open>Tags\<close>

text \<open>
  A name of lower case words joined by hyphens, in levels joined by two colons: the parts between single
  colons are words and, between two of them, the empty text.
\<close>

definition tag_word :: "string \<Rightarrow> bool" where
  "tag_word w \<longleftrightarrow> (\<forall>p\<in>set (split_on (CHR ''-'') w). p \<noteq> [] \<and> (\<forall>c\<in>set p. is_lower c \<or> is_digit c))"

fun tag_levels_ok :: "string list \<Rightarrow> bool" where
  "tag_levels_ok [] \<longleftrightarrow> False"
| "tag_levels_ok [w] \<longleftrightarrow> tag_word w"
| "tag_levels_ok (w # v # ws) \<longleftrightarrow> tag_word w \<and> v = [] \<and> tag_levels_ok ws"

definition tag_name_ok :: "string \<Rightarrow> bool" where
  "tag_name_ok name \<longleftrightarrow> tag_levels_ok (split_on (CHR '':'') name)"

definition full_tag_name :: "web_request \<Rightarrow> string" where
  "full_tag_name r = (let name = to_lower (field r ''name''); parent = field r ''parent''
     in if parent \<noteq> [] then parent @ ''::'' @ name else name)"

definition create_tag_errors :: "web_request \<Rightarrow> db \<Rightarrow> string list" where
  "create_tag_errors r d =
     (let name = to_lower (field r ''name''); parent = field r ''parent''; full = full_tag_name r in
      (if length name < 2 \<or> length name > 50 then [''Tag name must be between 2 and 50 characters''] else [])
      @ (if \<not> tag_name_ok full then [''Tag name can only contain lowercase letters, numbers, and hyphens''] else [])
      @ (if tag_exists d full then [''A tag with this name already exists''] else [])
      @ (if parent \<noteq> [] \<and> (case get_tag_by_name d parent of Inl _ \<Rightarrow> True | Inr _ \<Rightarrow> False)
         then [''Parent tag does not exist''] else []))"

definition tag_url :: "string \<Rightarrow> string" where
  "tag_url name = ''/tags/'' @ name"

definition create_tag_submit :: "denv \<Rightarrow> site \<Rightarrow> web_request \<Rightarrow> user option \<Rightarrow> web \<Rightarrow> response \<times> web" where
  "create_tag_submit e s r user w = as_user s user w (\<lambda>u. with_form r w
     (let name = to_lower (field r ''name''); desc = field r ''description''; parent = field r ''parent'';
          full = full_tag_name r; errors = create_tag_errors r (wb_db w) in
      if parent = [] \<and> \<not> ur_is_admin u
      then (Error_page 403 ''Only site admins can create root-level tags'', w)
      else if parent \<noteq> [] \<and> \<not> can_create_subtag (wb_db w) parent (ur_id u)
      then (Error_page 403 ''You cannot create subtags under this tag'', w)
      else if errors \<noteq> []
      then (Page ''create_tag.html'' (map (\<lambda>m. (''Errors'', m)) errors @
              [(''Name'', name), (''Description'', desc)]), w)
      else (case create_tag e full desc (ur_id u) (wb_db w) of
              (Inl _, d) \<Rightarrow> (Error_page 500 ''Could not create tag'', w\<lparr>wb_db := d\<rparr>)
            | (Inr t, d) \<Rightarrow> (redirect s (tag_url full),
                log_as e r user ''tag_create'' ''tag'' (tr_id t) full (w\<lparr>wb_db := d\<rparr>)))))"

definition on_tag :: "string \<Rightarrow> web \<Rightarrow> (int \<Rightarrow> owned_tag \<Rightarrow> response \<times> web) \<Rightarrow> response \<times> web" where
  "on_tag v w k = with_id v ''Invalid tag ID'' w (\<lambda>i.
     (case get_tag_by_id (wb_db w) i of Inl _ \<Rightarrow> (Error_page 404 ''Tag not found'', w) | Inr t \<Rightarrow> k i t))"

definition web_update_tag_description :: "denv \<Rightarrow> site \<Rightarrow> web_request \<Rightarrow> user option \<Rightarrow> web \<Rightarrow> response \<times> web" where
  "web_update_tag_description e s r user w = as_user s user w (\<lambda>u. with_form r w
     (on_tag (form_value r ''tag_id'') w (\<lambda>i t.
        if \<not> can_moderate_tag (wb_db w) i (ur_id u) then (Error_page 403 ''You cannot edit this tag'', w)
        else (redirect s (tag_url (tr_name t)),
          log_as e r user ''tag_update'' ''tag'' i ''description updated''
            (map_db (update_tag_description i (take 500 (field r ''description''))) w)))))"

definition web_delete_tag :: "denv \<Rightarrow> site \<Rightarrow> web_request \<Rightarrow> user option \<Rightarrow> web \<Rightarrow> response \<times> web" where
  "web_delete_tag e s r user w = as_user s user w (\<lambda>u. on_tag (query_get r ''id'') w (\<lambda>i t.
     if \<not> can_delete_tag (wb_db w) i (ur_id u) then (Error_page 403 ''You cannot delete this tag'', w)
     else (let n = get_tag_child_count (wb_db w) (tr_name t) in
       if n > 0
       then (Error_page 400 (''Cannot delete tag with '' @ itoa n @ '' child tags. Delete children first.''), w)
       else (let parent = get_parent_tag_name (tr_name t) in
         (redirect s (if parent \<noteq> [] then tag_url parent else ''/tags''),
          log_as e r user ''tag_delete'' ''tag'' i (tr_name t) (map_db (delete_tag e i) w))))))"

definition tag_admins_url :: "int \<Rightarrow> string" where
  "tag_admins_url i = ''/tags/admins?tag='' @ itoa i"

definition tag_admins_page :: "site \<Rightarrow> web_request \<Rightarrow> user option \<Rightarrow> web \<Rightarrow> response \<times> web" where
  "tag_admins_page s r user w = as_user s user w (\<lambda>u. on_tag (query_get r ''tag'') w (\<lambda>i t.
     if \<not> can_manage_tag_admins (wb_db w) i (ur_id u) then (Error_page 403 ''You cannot manage admins for this tag'', w)
     else (Page ''tag_admins.html'' [], w)))"

definition web_add_tag_admin :: "denv \<Rightarrow> site \<Rightarrow> web_request \<Rightarrow> user option \<Rightarrow> web \<Rightarrow> response \<times> web" where
  "web_add_tag_admin e s r user w = as_user s user w (\<lambda>u. with_form r w
     (with_id (form_value r ''tag_id'') ''Invalid tag ID'' w (\<lambda>i. let name = field r ''username'' in
        if \<not> can_manage_tag_admins (wb_db w) i (ur_id u)
        then (Error_page 403 ''You cannot manage admins for this tag'', w)
        else (case get_user_by_username (wb_db w) name of
                Inl _ \<Rightarrow> (Page ''tag_admins.html'' [(''Error'', ''User not found'')], w)
              | Inr target \<Rightarrow> (case add_tag_admin e i (ur_id target) (ur_id u) (wb_db w) of
                    (Inl _, d) \<Rightarrow> (Error_page 500 ''Could not add admin'', w\<lparr>wb_db := d\<rparr>)
                  | (Inr _, d) \<Rightarrow> (redirect s (tag_admins_url i),
                      log_as e r user ''tag_admin_add'' ''tag'' i name (w\<lparr>wb_db := d\<rparr>)))))))"

definition web_remove_tag_admin :: "denv \<Rightarrow> site \<Rightarrow> web_request \<Rightarrow> user option \<Rightarrow> web \<Rightarrow> response \<times> web" where
  "web_remove_tag_admin e s r user w = as_user s user w (\<lambda>u.
     with_id (query_get r ''tag'') ''Invalid tag ID'' w (\<lambda>i.
     with_id (query_get r ''user'') ''Invalid user ID'' w (\<lambda>v.
        if \<not> can_manage_tag_admins (wb_db w) i (ur_id u)
        then (Error_page 403 ''You cannot manage admins for this tag'', w)
        else (redirect s (tag_admins_url i),
          log_as e r user ''tag_admin_remove'' ''tag'' i [] (map_db (remove_tag_admin i v) w)))))"

text \<open>\<^verbatim>\<open>strings.Split\<close> on a separator of several bytes.\<close>

function split_sep :: "string \<Rightarrow> string \<Rightarrow> string list" where
  "split_sep sep s = (if sep = [] then [s] else (case index_of s sep of
     None \<Rightarrow> [s] | Some i \<Rightarrow> take i s # split_sep sep (drop (i + length sep) s)))"
  by pat_completeness auto
termination
proof (relation "measure (length \<circ> snd)", simp)
  fix sep s :: string and i
  assume "sep \<noteq> []" "index_of s sep = Some i"
  then show "((sep, drop (i + length sep) s), sep, s) \<in> measure (length \<circ> snd)"
    using index_of_Some_split [of s sep i] by (cases sep) auto
qed

declare split_sep.simps [simp del]

text \<open>
  The page of a tag: the tag without its creator among the administrators, its children, its posts, how
  they are chosen, the path to it and what the user may do with it.
\<close>

definition tag_breadcrumbs :: "string \<Rightarrow> (string \<times> string) list" where
  "tag_breadcrumbs name = (let parts = split_sep ''::'' name in
     map (\<lambda>i. (parts ! i, join_with ''::'' (take (i + 1) parts))) [0..<length parts])"

record tag_page =
  tp_tag :: owned_tag
  tp_children :: "tag_with_count list"
  tp_posts :: "listed_post list"
  tp_pagination :: pagination
  tp_view :: string
  tp_breadcrumbs :: "(string \<times> string) list"
  tp_can_manage :: bool
  tp_can_manage_admins :: bool
  tp_can_delete :: bool
  tp_can_create_subtag :: bool

definition tag_detail_page :: "denv \<Rightarrow> site \<Rightarrow> web_request \<Rightarrow> user option \<Rightarrow> db \<Rightarrow> response + tag_page" where
  "tag_detail_page e s r user d =
     (let name = trim_suffix (trim_prefix (rq_path r) ''/tags/'') ''/'' in
      if name = [] then Inl (redirect s ''/tags'')
      else (case get_tag_by_name_with_ownership d name of
          Inl _ \<Rightarrow> Inl (Error_page 404 ''Tag not found'')
        | Inr t \<Rightarrow>
            (let view = query_get r ''view''; page = get_int_param r ''page'' 1; n = default_posts_per_page;
                 may = (\<lambda>f. case user of None \<Rightarrow> False | Some u \<Rightarrow> f (ur_id u))
             in (case get_user_context user of (u, admin) \<Rightarrow>
               (case (if view = ''new'' then (get_posts_by_tag_newest e d page n name u, view)
                      else if view = ''top'' then (get_posts_by_tag_top e d page n name (hours_of (query_get r ''t'')) u, view)
                      else (get_posts d page n name u admin, ''hot'')) of
                  ((ps, count), view) \<Rightarrow> Inr \<lparr>
                    tp_tag = t\<lparr>tr_admins := filter (\<lambda>a. tm_username a \<noteq> tr_creator_username t) (tr_admins t)\<rparr>,
                    tp_children = get_child_tags d name, tp_posts = ps,
                    tp_pagination = new_pagination page n count, tp_view = view,
                    tp_breadcrumbs = tag_breadcrumbs name, tp_can_manage = may (can_moderate_tag d (tr_id t)),
                    tp_can_manage_admins = may (can_manage_tag_admins d (tr_id t)),
                    tp_can_delete = may (can_delete_tag d (tr_id t)),
                    tp_can_create_subtag = may (can_create_subtag d name)\<rparr>)))))"

subsection \<open>Feeds\<close>

definition tag_feeds_url :: "int \<Rightarrow> string" where
  "tag_feeds_url i = ''/tags/feeds?tag='' @ itoa i"

text \<open>The tag and its feeds; whether the user may manage them comes with the public page.\<close>

definition view_tag_feeds_page :: "web_request \<Rightarrow> user option \<Rightarrow> db \<Rightarrow> response + owned_tag \<times> rss_feed list \<times> bool" where
  "view_tag_feeds_page r user d =
     (case parse_int (query_get r ''tag'') of
        None \<Rightarrow> Inl (Error_page 400 ''Invalid tag ID'')
      | Some i \<Rightarrow> (case get_tag_by_id d i of
          Inl _ \<Rightarrow> Inl (Error_page 404 ''Tag not found'')
        | Inr t \<Rightarrow> Inr (t, get_rss_feeds_by_tag d i,
            case user of None \<Rightarrow> False | Some u \<Rightarrow> can_manage_tag_feed d (ur_id u) i)))"

definition tag_feeds_page :: "site \<Rightarrow> web_request \<Rightarrow> user option \<Rightarrow> db \<Rightarrow> response + owned_tag \<times> rss_feed list" where
  "tag_feeds_page s r user d =
     (case user of
        None \<Rightarrow> Inl (redirect s ''/login'')
      | Some u \<Rightarrow> (case parse_int (query_get r ''tag'') of
          None \<Rightarrow> Inl (Error_page 400 ''Invalid tag ID'')
        | Some i \<Rightarrow> (case get_tag_by_id d i of
            Inl _ \<Rightarrow> Inl (Error_page 404 ''Tag not found'')
          | Inr t \<Rightarrow>
              if \<not> can_manage_tag_feed d (ur_id u) i then Inl (Error_page 403 ''You cannot manage feeds for this tag'')
              else Inr (t, get_rss_feeds_by_tag d i))))"

text \<open>A number of a form, unless it is missing, no number or too small.\<close>

definition int_or :: "int \<Rightarrow> int \<Rightarrow> string \<Rightarrow> int" where
  "int_or least dflt s = (if s = [] then dflt
     else (case parse_int s of None \<Rightarrow> dflt | Some i \<Rightarrow> if i \<ge> least then i else dflt))"

text \<open>The text of an error of the database is a parameter.\<close>

definition web_add_tag_feed ::
  "(db_error \<Rightarrow> string) \<Rightarrow> denv \<Rightarrow> site \<Rightarrow> web_request \<Rightarrow> user option \<Rightarrow> web \<Rightarrow> response \<times> web" where
  "web_add_tag_feed err_text e s r user w = as_user s user w (\<lambda>u. with_form r w
     (with_id (form_value r ''tag_id'') ''Invalid tag ID'' w (\<lambda>i.
        if \<not> can_manage_tag_feed (wb_db w) (ur_id u) i
        then (Error_page 403 ''You cannot manage feeds for this tag'', w)
        else let url = field r ''url''; title = field r ''title'';
                 failed = (\<lambda>k m. Page ''tag_feeds.html'' [(k, m), (''URL'', url), (''Title'', title)]) in
        (case get_tag_by_id (wb_db w) i of
           Inl _ \<Rightarrow> (Error_page 404 ''Tag not found'', w)
         | Inr _ \<Rightarrow>
             if url = [] then (failed ''Errors'' ''Feed URL is required'', w)
             else (case create_rss_feed_with_options e \<lparr>fo_url = url, fo_title = title, fo_tag_id = i,
                     fo_created_by = ur_id u, fo_interval_minutes = int_or 5 60 (form_value r ''interval''),
                     fo_poll_on_view = (form_value r ''poll_on_view'' = ''on''),
                     fo_auto_approve = (form_value r ''auto_approve'' \<noteq> ''off''),
                     fo_max_items_per_poll = int_or 0 10 (form_value r ''max_items'')\<rparr> (wb_db w) of
                 (Inl err, d) \<Rightarrow> (failed ''Error'' (''Could not add feed: '' @ err_text err), w\<lparr>wb_db := d\<rparr>)
               | (Inr _, d) \<Rightarrow> (redirect s (tag_feeds_url i),
                   log_as e r user ''feed_add'' ''tag'' i url (w\<lparr>wb_db := d\<rparr>)))))))"

text \<open>The feed a user manages through its tag.\<close>

definition on_managed_feed ::
  "string \<Rightarrow> user \<Rightarrow> web \<Rightarrow> (int \<Rightarrow> rss_feed \<Rightarrow> response \<times> web) \<Rightarrow> response \<times> web" where
  "on_managed_feed v u w k = with_id v ''Invalid feed ID'' w (\<lambda>i.
     (case get_rss_feed_by_id (wb_db w) i of
        Inl _ \<Rightarrow> (Error_page 404 ''Feed not found'', w)
      | Inr f \<Rightarrow>
          if \<not> can_manage_tag_feed (wb_db w) (ur_id u) (rf_tag_id f) then (Error_page 403 ''You cannot manage this feed'', w)
          else k i f))"

definition web_update_tag_feed :: "denv \<Rightarrow> site \<Rightarrow> web_request \<Rightarrow> user option \<Rightarrow> web \<Rightarrow> response \<times> web" where
  "web_update_tag_feed e s r user w = as_user s user w (\<lambda>u. with_form r w
     (on_managed_feed (form_value r ''feed_id'') u w (\<lambda>i f. (redirect s (tag_feeds_url (rf_tag_id f)),
        log_as e r user ''feed_update'' ''feed'' i [] (map_db (update_rss_feed i
          (int_or 5 (rf_interval_minutes f) (form_value r ''interval'')) (form_value r ''poll_on_view'' = ''on'')
          (form_value r ''auto_approve'' \<noteq> ''off'') (int_or 0 (rf_max_items_per_poll f) (form_value r ''max_items''))
          (form_value r ''is_active'' \<noteq> ''off'')) w)))))"

definition web_delete_tag_feed :: "denv \<Rightarrow> site \<Rightarrow> web_request \<Rightarrow> user option \<Rightarrow> web \<Rightarrow> response \<times> web" where
  "web_delete_tag_feed e s r user w = as_user s user w (\<lambda>u. on_managed_feed (query_get r ''id'') u w (\<lambda>i f.
     (redirect s (tag_feeds_url (rf_tag_id f)),
      log_as e r user ''feed_delete'' ''feed'' i (rf_url f) (map_db (delete_rss_feed e i) w))))"

text \<open>The poller, with the user it posts as, where there is one.\<close>

definition web_sync_tag_feed ::
  "(poll_env \<times> int) option \<Rightarrow> denv \<Rightarrow> site \<Rightarrow> web_request \<Rightarrow> user option \<Rightarrow> web \<Rightarrow> response \<times> web" where
  "web_sync_tag_feed poller e s r user w = as_user s user w (\<lambda>u. on_managed_feed (query_get r ''id'') u w (\<lambda>i f.
     (case poller of
        None \<Rightarrow> (Error_page 500 ''RSS poller not available'', w)
      | Some (pe, owner) \<Rightarrow> (case poll_feed_now pe owner i (wb_db w) of
            (Some err, d) \<Rightarrow> (Page ''tag_feeds.html'' [(''Error'', ''Sync failed: '' @ err)], w\<lparr>wb_db := d\<rparr>)
          | (None, d) \<Rightarrow> (Page ''tag_feeds.html'' [(''Success'', ''Feed synced successfully'')],
              log_as e r user ''feed_sync'' ''feed'' i (rf_url f) (w\<lparr>wb_db := d\<rparr>))))))"

definition feed_path_id :: "web_request \<Rightarrow> int option" where
  "feed_path_id r = parse_int (trim_prefix (rq_path r) ''/feeds/'')"

text \<open>A page number of the query; nothing smaller than one counts.\<close>

definition page_param :: "web_request \<Rightarrow> int" where
  "page_param r = (let p = query_get r ''page'' in if p = [] then 1
     else (case parse_int p of None \<Rightarrow> 1 | Some n \<Rightarrow> if n > 0 then n else 1))"

definition feed_detail_page :: "denv \<Rightarrow> web_request \<Rightarrow> user option \<Rightarrow> db \<Rightarrow>
    response + rss_feed \<times> listed_post list \<times> pagination \<times> bool \<times> feed_stats option" where
  "feed_detail_page e r user d =
     (case feed_path_id r of
        None \<Rightarrow> Inl (Error_page 400 ''Invalid feed ID'')
      | Some i \<Rightarrow> (case get_rss_feed_by_id d i of
          Inl _ \<Rightarrow> Inl (Error_page 404 ''Feed not found'')
        | Inr f \<Rightarrow>
            (let edit = (case user of None \<Rightarrow> False | Some u \<Rightarrow> can_edit_feed d (ur_id u) i);
                 page = page_param r; n = default_posts_per_page
             in (case get_posts_by_feed d i page n of (ps, count) \<Rightarrow>
                   Inr (f, ps, new_pagination page n count, edit, if edit then get_rss_feed_stats e d i else None)))))"

text \<open>These redirects leave the subpath out.\<close>

definition update_feed_submit :: "web_request \<Rightarrow> user option \<Rightarrow> web \<Rightarrow> response \<times> web" where
  "update_feed_submit r user w =
     (case user of
        None \<Rightarrow> (Redirect ''/login'', w)
      | Some u \<Rightarrow> (case feed_path_id r of
          None \<Rightarrow> (Error_page 400 ''Invalid feed ID'', w)
        | Some i \<Rightarrow>
            if \<not> can_edit_feed (wb_db w) (ur_id u) i
            then (Error_page 403 (''You don'' @ [CHR 0x27] @ ''t have permission to edit this feed''), w)
            else (let n = fst (atoi (form_value r ''interval_minutes'')); m = fst (atoi (form_value r ''max_items_per_poll''))
              in (case update_rss_feed_full i (field r ''url'') (field r ''title'') (if n < 5 then 60 else n)
                    (form_value r ''poll_on_view'' = ''on'') (form_value r ''auto_approve'' = ''on'')
                    (if m < 1 then 10 else m) (form_value r ''is_active'' = ''on'') (wb_db w) of
                  (Inl _, d) \<Rightarrow> (Error_page 500 ''Failed to update feed'', w\<lparr>wb_db := d\<rparr>)
                | (Inr _, d) \<Rightarrow> (Redirect (''/feeds/'' @ itoa i), w\<lparr>wb_db := d\<rparr>)))))"

definition delete_feed_submit :: "denv \<Rightarrow> web_request \<Rightarrow> user option \<Rightarrow> web \<Rightarrow> response \<times> web" where
  "delete_feed_submit e r user w =
     (case user of
        None \<Rightarrow> (Redirect ''/login'', w)
      | Some u \<Rightarrow> with_id (query_get r ''id'') ''Invalid feed ID'' w (\<lambda>i.
          (case get_rss_feed_by_id (wb_db w) i of
             Inl _ \<Rightarrow> (Error_page 404 ''Feed not found'', w)
           | Inr f \<Rightarrow>
               if \<not> can_edit_feed (wb_db w) (ur_id u) i
               then (Error_page 403 (''You don'' @ [CHR 0x27] @ ''t have permission to delete this feed''), w)
               else (Redirect (tag_feeds_url (rf_tag_id f)), map_db (delete_rss_feed e i) w))))"

definition admin_feeds_page :: "user option \<Rightarrow> db \<Rightarrow> response + rss_feed list" where
  "admin_feeds_page user d =
     (if (case user of None \<Rightarrow> True | Some u \<Rightarrow> \<not> ur_is_admin u) then Inl (Error_page 403 ''Forbidden'')
      else Inr (get_all_rss_feeds d))"

subsection \<open>Collections\<close>

definition as_owner :: "user option \<Rightarrow> web \<Rightarrow> (user \<Rightarrow> response \<times> web) \<Rightarrow> response \<times> web" where
  "as_owner user w k = (case user of None \<Rightarrow> (Redirect ''/login'', w) | Some u \<Rightarrow> k u)"

definition collection_url :: "int \<Rightarrow> string" where
  "collection_url c = ''/collections/'' @ itoa c"

definition collection_form_error :: "string \<Rightarrow> string \<Rightarrow> string \<Rightarrow> response" where
  "collection_form_error msg name desc =
     Page ''collection_form.html'' [(''Error'', msg), (''Name'', name), (''Description'', desc)]"

text \<open>The tags chosen in the form; what is not a number, or not a tag, is passed over.\<close>

definition add_chosen_tags :: "denv \<Rightarrow> web_request \<Rightarrow> int \<Rightarrow> db \<Rightarrow> db" where
  "add_chosen_tags e r c d = fold (\<lambda>v d. case parse_int v of None \<Rightarrow> d
     | Some t \<Rightarrow> snd (add_tag_to_collection e c t d)) (form_values r ''tags'') d"

definition create_collection_submit :: "denv \<Rightarrow> web_request \<Rightarrow> user option \<Rightarrow> web \<Rightarrow> response \<times> web" where
  "create_collection_submit e r user w = as_owner user w (\<lambda>u.
     (let name = field r ''name''; desc = field r ''description'' in
      if name = [] then (collection_form_error ''Name is required'' name desc, w)
      else (case create_collection e (ur_id u) name desc (wb_db w) of
              (Inl _, d) \<Rightarrow> (collection_form_error ''Failed to create collection: name may already exist'' name desc, w\<lparr>wb_db := d\<rparr>)
            | (Inr c, d) \<Rightarrow> (Redirect (collection_url (cn_id c)), w\<lparr>wb_db := add_chosen_tags e r (cn_id c) d\<rparr>))))"

definition collections_page :: "user option \<Rightarrow> db \<Rightarrow> response + collection list" where
  "collections_page user d =
     (case user of None \<Rightarrow> Inl (Redirect ''/login'') | Some u \<Rightarrow> Inr (get_user_collections d (ur_id u)))"

definition collection_detail_page ::
  "web_request \<Rightarrow> user option \<Rightarrow> db \<Rightarrow> response + collection \<times> listed_post list \<times> pagination" where
  "collection_detail_page r user d =
     (case user of
        None \<Rightarrow> Inl (Redirect ''/login'')
      | Some u \<Rightarrow>
          (let path = fold (\<lambda>x p. trim_suffix p x) [''/edit'', ''/delete'', ''/add-tag'', ''/remove-tag'']
             (trim_prefix (rq_path r) ''/collections/'') in
           (case parse_int path of
              None \<Rightarrow> Inl (Error_page 400 ''Invalid collection ID'')
            | Some c \<Rightarrow> (case get_collection_by_id d c (ur_id u) of
                Inl _ \<Rightarrow> Inl (Error_page 404 ''Collection not found'')
              | Inr col \<Rightarrow> (let page = page_param r; n = default_posts_per_page in
                  (case get_posts_for_collection d c page n (Some (ur_id u)) of
                     (ps, count) \<Rightarrow> Inr (col, ps, new_pagination page n count)))))))"

text \<open>The collection that is edited, which must be the user's own.\<close>

definition on_collection ::
  "web_request \<Rightarrow> user option \<Rightarrow> web \<Rightarrow> (user \<Rightarrow> int \<Rightarrow> collection \<Rightarrow> response \<times> web) \<Rightarrow> response \<times> web" where
  "on_collection r user w k = as_owner user w (\<lambda>u.
     with_id (trim_suffix (trim_prefix (rq_path r) ''/collections/'') ''/edit'') ''Invalid collection ID'' w (\<lambda>c.
       (case get_collection_by_id (wb_db w) c (ur_id u) of
          Inl _ \<Rightarrow> (Error_page 404 ''Collection not found'', w) | Inr col \<Rightarrow> k u c col)))"

definition edit_collection_page :: "web_request \<Rightarrow> user option \<Rightarrow> web \<Rightarrow> response \<times> web" where
  "edit_collection_page r user w = on_collection r user w (\<lambda>u c col. (Page ''collection_form.html'' [], w))"

definition edit_collection_submit :: "denv \<Rightarrow> web_request \<Rightarrow> user option \<Rightarrow> web \<Rightarrow> response \<times> web" where
  "edit_collection_submit e r user w = on_collection r user w (\<lambda>u c col.
     (let name = field r ''name''; desc = field r ''description'' in
      if name = [] then (collection_form_error ''Name is required'' name desc, w)
      else (case update_collection c (ur_id u) name desc (wb_db w) of
              (Inl _, d) \<Rightarrow> (collection_form_error ''Failed to update collection'' name desc, w\<lparr>wb_db := d\<rparr>)
            | (Inr _, d) \<Rightarrow> (Redirect (collection_url c),
                w\<lparr>wb_db := add_chosen_tags e r c (fold (\<lambda>t. remove_tag_from_collection c (tr_id t)) (cn_tags col) d)\<rparr>))))"

definition delete_collection_submit :: "denv \<Rightarrow> web_request \<Rightarrow> user option \<Rightarrow> web \<Rightarrow> response \<times> web" where
  "delete_collection_submit e r user w = as_owner user w (\<lambda>u.
     with_id (query_get r ''id'') ''Invalid collection ID'' w (\<lambda>c.
       (Redirect ''/collections'', map_db (delete_collection e c (ur_id u)) w)))"

end
