(* ===== verification/FeedImport.thy ===== *)
theory FeedImport
  imports Poller
begin

text \<open>
  What the poller guarantees: every item of a feed becomes one post, polls catch up with a feed, what an
  imported post can look like, and when a feed is polled again.
\<close>


subsection \<open>What a poll changes\<close>

lemma create_cases:
  assumes "tbl_ok (db_posts d)" "tbl_get (db_users d) u \<noteq> None"
    and "create_post_full e u title url body [t] src sid None pub d = (res, d')"
  shows "case res of Inl _ \<Rightarrow> d' = d
    | Inr p \<Rightarrow> (\<exists>row ps. tbl_insert row (db_posts d) = (pr_id p, ps)
        \<and> d' = d\<lparr>db_posts := ps, db_post_tags := db_post_tags d @ [(pr_id p, t)]\<rparr>
        \<and> po_user_id row = u \<and> po_title row = title \<and> po_body row = Some body
        \<and> po_source_type row = src \<and> po_source_id row = sid)"
proof -
  let ?at = "case pub of None \<Rightarrow> dv_now e | Some t \<Rightarrow> t"
  let ?r = "\<lparr>po_user_id = u, po_title = title, po_url = Some url, po_body = Some body, po_created_at = ?at,
    po_updated_at = ?at, po_score = 0, po_is_deleted = False, po_source_type = src, po_source_id = sid,
    po_hat_id = None\<rparr>"
  obtain i ps where ins: "tbl_insert ?r (db_posts d) = (i, ps)" by (metis surj_pair)
  have at_i: "tbl_get ps i = Some ?r" using tbl_insert_get(1) [OF assms(1) ins, of i] by simp
  let ?d = "d\<lparr>db_posts := ps, db_post_tags := db_post_tags d @ [(i, t)]\<rparr>"
  have "(\<exists>x. res = Inl x) \<and> d' = d \<or> (\<exists>p. res = Inr p \<and> pr_id p = i) \<and> d' = ?d"
    using assms(2,3) ins at_i
    by (auto simp: create_post_full_def fk_ok_def Let_def get_post_by_id_def split: if_splits)
  then show ?thesis
  proof (elim disjE conjE exE)
    fix p assume "res = Inr p" "pr_id p = i" "d' = ?d"
    with ins show ?thesis by (simp only: sum.case) (intro exI [of _ ?r] exI [of _ ps], simp)
  qed simp
qed

text \<open>A property of the database that holds after each import holds after the loop.\<close>

lemma import_items_rule:
  assumes "P d" "\<And>d. P d \<Longrightarrow> tbl_ok (db_posts d) \<and> tbl_get (db_users d) u \<noteq> None"
    and "\<And>d i row p ps. P d \<Longrightarrow> i \<in> set items \<Longrightarrow> item_key i \<noteq> [] \<Longrightarrow> \<not> has_rss_item d (rf_id feed) (item_key i) \<Longrightarrow>
      tbl_insert row (db_posts d) = (p, ps) \<Longrightarrow> po_user_id row = u \<Longrightarrow> po_title row = item_post_title pe i \<Longrightarrow>
      po_body row = Some (item_post_body pe i) \<Longrightarrow> po_source_type row = ''rss'' \<Longrightarrow>
      po_source_id row = Some (rf_id feed) \<Longrightarrow>
      P (snd (create_rss_item (pe_db pe) (rf_id feed) (item_key i) p
        (d\<lparr>db_posts := ps, db_post_tags := db_post_tags d @ [(p, rf_tag_id feed)]\<rparr>)))"
  shows "P (snd (import_items pe u feed items n d))"
  using assms(1,3)
proof (induction items arbitrary: n d)
  case (Cons i items)
  have rest: "P (snd (import_items pe u feed items m d'))" if "P d'" for m d'
    using that by (rule Cons.IH) (auto intro: Cons.prems(2))
  show ?case
  proof (cases "item_key i = [] \<or> has_rss_item d (rf_id feed) (item_key i)")
    case True
    then show ?thesis using rest [OF Cons.prems(1)] by auto
  next
    case False
    obtain res d1 where c: "create_post_full (pe_db pe) u (item_post_title pe i) (fi_link i) (item_post_body pe i)
        [rf_tag_id feed] ''rss'' (Some (rf_id feed)) None (fi_published_at i) d = (res, d1)" by (metis surj_pair)
    note cases = create_cases [OF assms(2) [OF Cons.prems(1), THEN conjunct1]
      assms(2) [OF Cons.prems(1), THEN conjunct2] c]
    show ?thesis
    proof (cases res)
      case (Inl err)
      with cases c False rest [OF Cons.prems(1)] show ?thesis by simp
    next
      case (Inr p)
      with cases obtain row ps where row: "tbl_insert row (db_posts d) = (pr_id p, ps)"
          "d1 = d\<lparr>db_posts := ps, db_post_tags := db_post_tags d @ [(pr_id p, rf_tag_id feed)]\<rparr>"
          "po_user_id row = u" "po_title row = item_post_title pe i" "po_body row = Some (item_post_body pe i)"
          "po_source_type row = ''rss''" "po_source_id row = Some (rf_id feed)" by auto
      have "P (snd (create_rss_item (pe_db pe) (rf_id feed) (item_key i) (pr_id p) d1))"
        unfolding row(2) using False by (intro Cons.prems(2) [OF Cons.prems(1) _ _ _ row(1,3-7)]) auto
      then show ?thesis using False c Inr rest by (simp add: Let_def)
    qed
  qed
qed simp

subsection \<open>Every item is one post\<close>

text \<open>
  An item recorded is a post of its feed, no item is recorded twice and no two items are the same post;
  and every post of a feed that is still there is one of its items.
\<close>

definition post_of_feed :: "db \<Rightarrow> int \<Rightarrow> int \<Rightarrow> bool" where
  "post_of_feed d f p \<longleftrightarrow> (case tbl_get (db_posts d) p of None \<Rightarrow> False
     | Some q \<Rightarrow> po_source_type q = ''rss'' \<and> po_source_id q = Some f)"

definition import_tables :: "db \<Rightarrow> bool" where
  "import_tables d \<longleftrightarrow> tbl_ok (db_feeds d) \<and> tbl_ok (db_items d) \<and> tbl_ok (db_posts d)
     \<and> tbl_unique (\<lambda>r. (it_feed_id r, it_guid r)) (db_items d) \<and> tbl_unique it_post_id (db_items d)"

definition imports_ok :: "db \<Rightarrow> bool" where
  "imports_ok d \<longleftrightarrow> import_tables d
     \<and> (\<forall>k r. tbl_get (db_items d) k = Some r \<longrightarrow>
          (\<exists>p. it_post_id r = Some p \<and> post_of_feed d (it_feed_id r) p))
     \<and> (\<forall>f p. post_of_feed d f p \<longrightarrow> f \<le> fst (db_feeds d) \<and> (tbl_get (db_feeds d) f \<noteq> None \<longrightarrow>
          (\<exists>k r. tbl_get (db_items d) k = Some r \<and> it_feed_id r = f \<and> it_post_id r = Some p)))"

lemma imports_step:
  assumes ok: "imports_ok d" and feed: "tbl_get (db_feeds d) f = Some fr"
    and new: "\<not> has_rss_item d f g"
    and ins: "tbl_insert row (db_posts d) = (p, ps)"
    and src: "po_source_type row = ''rss''" "po_source_id row = Some f"
    and d': "d' = snd (create_rss_item e f g p (d\<lparr>db_posts := ps, db_post_tags := pt\<rparr>))"
  shows "imports_ok d'" "db_feeds d' = db_feeds d" "db_users d' = db_users d" "db_tags d' = db_tags d"
    "db_posts d' = ps" "db_post_tags d' = pt" "has_rss_item d' h k \<longleftrightarrow> has_rss_item d h k \<or> h = f \<and> k = g"
proof -
  have t: "tbl_ok (db_feeds d)" "tbl_ok (db_items d)" "tbl_ok (db_posts d)"
    "tbl_unique (\<lambda>r. (it_feed_id r, it_guid r)) (db_items d)" "tbl_unique it_post_id (db_items d)"
    using ok by (simp_all add: imports_ok_def import_tables_def)
  note get = tbl_insert_get [OF t(3) ins]
  have fresh: "tbl_get (db_items d) k = Some r \<Longrightarrow> it_post_id r \<noteq> Some p" for k r
    using ok get(2) by (fastforce simp: imports_ok_def post_of_feed_def)
  have none: "tbl_find (\<lambda>_ r. it_feed_id r = f \<and> it_guid r = g) (db_items d) = None"
    using new by (auto simp: tbl_find_None [OF t(2)] has_rss_item_def tbl_count_pos [OF t(2)])
  let ?r = "\<lparr>it_feed_id = f, it_guid = g, it_post_id = Some p, it_imported_at = dv_now e\<rparr>"
  obtain k0 its where it: "tbl_insert ?r (db_items d) = (k0, its)" by (metis surj_pair)
  note iget = tbl_insert_get [OF t(2) it]
  have eq: "d' = d\<lparr>db_posts := ps, db_post_tags := pt, db_items := its\<rparr>"
    using none feed get(1) [of p] it by (simp add: d' create_rss_item_def fk_ok_def)
  show "db_feeds d' = db_feeds d" "db_users d' = db_users d" "db_tags d' = db_tags d" "db_posts d' = ps" "db_post_tags d' = pt"
    by (simp_all add: eq)
  have uniq: "tbl_unique (\<lambda>r. (it_feed_id r, it_guid r)) its" "tbl_unique it_post_id its"
    using tbl_unique_insert [OF t(2,4), of ?r] tbl_unique_insert [OF t(2,5), of ?r] none fresh it
    by (auto simp: tbl_find_None [OF t(2)])
  have pf: "post_of_feed d' h q \<longleftrightarrow> post_of_feed d h q \<or> h = f \<and> q = p" for h q
    using get(1) [of q] get(2) src by (auto simp: post_of_feed_def eq split: option.splits)
  have "import_tables d'"
    unfolding import_tables_def using t uniq ins it by (auto simp: eq intro: tbl_insert_ok)
  moreover have "\<exists>q. it_post_id r = Some q \<and> post_of_feed d' (it_feed_id r) q"
    if "tbl_get (db_items d') k = Some r" for k r
    using that ok iget(1) [of k] unfolding pf by (auto simp: eq imports_ok_def split: if_splits) blast
  moreover have "h \<le> fst (db_feeds d') \<and> (tbl_get (db_feeds d') h \<noteq> None \<longrightarrow>
      (\<exists>k r. tbl_get (db_items d') k = Some r \<and> it_feed_id r = h \<and> it_post_id r = Some q))"
    if "post_of_feed d' h q" for h q
  proof (cases "h = f \<and> q = p")
    case True
    then show ?thesis using iget(1) [of k0] tbl_get_range [OF t(1) feed] by (auto simp: eq intro!: exI [of _ k0])
  next
    case False
    with that have "post_of_feed d h q" by (simp add: pf)
    moreover have "tbl_get its k = Some r" if "tbl_get (db_items d) k = Some r" for k r
      using that iget(1) [of k] iget(2) by auto
    ultimately show ?thesis using ok unfolding imports_ok_def eq by simp blast
  qed
  ultimately show "imports_ok d'" unfolding imports_ok_def by blast
  show "has_rss_item d' h k \<longleftrightarrow> has_rss_item d h k \<or> h = f \<and> k = g"
    using t(2) tbl_insert_ok [OF t(2) it] iget(1,2)
    by (auto simp: has_rss_item_def eq tbl_count_insert [OF it] intro: add_nonneg_pos)
qed


lemma imports_other:
  assumes "imports_ok d" "\<And>f p. post_of_feed d' f p = post_of_feed d f p"
    and "tbl_ok (db_posts d')" "tbl_ok (db_feeds d')" "fst (db_feeds d) \<le> fst (db_feeds d')"
    and "\<And>f. tbl_get (db_feeds d') f \<noteq> None \<Longrightarrow> tbl_get (db_feeds d) f \<noteq> None \<or> fst (db_feeds d) < f"
    and "db_items d' = tbl_delete Q (db_items d)"
    and "\<And>k r. Q k r \<Longrightarrow> tbl_get (db_items d) k = Some r \<Longrightarrow> tbl_get (db_feeds d') (it_feed_id r) = None"
  shows "imports_ok d'"
proof -
  have t: "tbl_ok (db_items d)" and u: "tbl_unique (\<lambda>r. (it_feed_id r, it_guid r)) (db_items d)"
      "tbl_unique it_post_id (db_items d)"
    using assms(1) by (simp_all add: imports_ok_def import_tables_def)
  note get = tbl_delete_get [OF t, where P = Q]
  have items: "\<exists>p. it_post_id r = Some p \<and> post_of_feed d' (it_feed_id r) p"
    if "tbl_get (db_items d') k = Some r" for k r
    using that assms(1) unfolding assms(2,7) get imports_ok_def by (fastforce split: option.splits if_splits)
  have posts: "f \<le> fst (db_feeds d') \<and> (tbl_get (db_feeds d') f \<noteq> None \<longrightarrow>
      (\<exists>k r. tbl_get (db_items d') k = Some r \<and> it_feed_id r = f \<and> it_post_id r = Some p))"
    if "post_of_feed d' f p" for f p
  proof -
    have old: "f \<le> fst (db_feeds d)" "tbl_get (db_feeds d) f \<noteq> None \<Longrightarrow>
        \<exists>k r. tbl_get (db_items d) k = Some r \<and> it_feed_id r = f \<and> it_post_id r = Some p"
      using that assms(1) unfolding assms(2) imports_ok_def by blast+
    have "\<exists>k r. tbl_get (db_items d') k = Some r \<and> it_feed_id r = f \<and> it_post_id r = Some p"
      if there: "tbl_get (db_feeds d') f \<noteq> None"
    proof -
      obtain k r where kr: "tbl_get (db_items d) k = Some r" "it_feed_id r = f" "it_post_id r = Some p"
        using old assms(6) [OF there] by fastforce
      with assms(8) [of k r] there have "\<not> Q k r" by (cases "Q k r") auto
      with kr show ?thesis unfolding assms(7) get by (intro exI [of _ k] exI [of _ r]) simp
    qed
    with old(1) assms(5) show ?thesis by fastforce
  qed
  have "import_tables d'"
    using assms(3,4) t u by (simp add: import_tables_def assms(7) tbl_delete_ok tbl_unique_delete)
  with items posts show ?thesis unfolding imports_ok_def by blast
qed

lemma imports_tables: "imports_ok d \<Longrightarrow> tbl_ok (db_feeds d) \<and> tbl_ok (db_items d) \<and> tbl_ok (db_posts d)"
  by (simp add: imports_ok_def import_tables_def)

lemma last_key: "fst (tbl_update P g t) = fst t" "fst (tbl_delete P t) = fst t"
  by (simp_all add: tbl_update_def tbl_delete_def)

lemma delete_nothing: "tbl_delete (\<lambda>_ _. False) t = t"
  by (simp add: tbl_delete_def)

lemma imports_feeds:
  assumes "imports_ok d" "db_posts d' = db_posts d" "db_items d' = db_items d" "tbl_ok (db_feeds d')"
    and "fst (db_feeds d) \<le> fst (db_feeds d')"
    and "\<And>f. tbl_get (db_feeds d') f \<noteq> None \<Longrightarrow> tbl_get (db_feeds d) f \<noteq> None \<or> fst (db_feeds d) < f"
  shows "imports_ok d'"
  by (rule imports_other [OF assms(1) _ _ assms(4-6), where Q = "\<lambda>_ _. False"])
    (simp_all add: post_of_feed_def delete_nothing assms(2,3) imports_tables [OF assms(1)])

lemma imports_set_feed: "imports_ok d \<Longrightarrow> imports_ok (set_feed i g d)"
  by (rule imports_feeds [of d]) (auto simp: set_feed_def tbl_update_get tbl_update_ok last_key dest: imports_tables)

lemma log_poll_same:
  fixes e f s h n k m ms d defines "d' \<equiv> snd (log_rss_poll e f s h n k m ms d)"
  shows "db_feeds d' = db_feeds d" "db_posts d' = db_posts d" "db_items d' = db_items d"
    "db_users d' = db_users d" "db_tags d' = db_tags d" "db_post_tags d' = db_post_tags d"
  by (simp_all add: d'_def log_rss_poll_def)

lemma imports_log: "imports_ok d \<Longrightarrow> imports_ok (snd (log_rss_poll e f s h n k m ms d))"
  by (rule imports_feeds [of d]) (auto simp: log_poll_same dest: imports_tables)

lemma imports_add_feed: "imports_ok d \<Longrightarrow> imports_ok (snd (create_rss_feed_with_options e opts d))"
proof -
  assume ok: "imports_ok d"
  note t = imports_tables [OF ok, THEN conjunct1]
  have new: "imports_ok (d\<lparr>db_feeds := snd (tbl_insert r (db_feeds d))\<rparr>)" for r
  proof -
    obtain i fs where ins: "tbl_insert r (db_feeds d) = (i, fs)" by (metis surj_pair)
    then have "fst fs = fst (db_feeds d) + 1" by (auto simp: tbl_insert_def)
    then show ?thesis using tbl_insert_get [OF t ins] tbl_insert_ok [OF t ins] ins
      by (intro imports_feeds [OF ok]) (simp_all split: if_splits)
  qed
  have "snd (create_rss_feed_with_options e opts d) = d
      \<or> (\<exists>r. snd (create_rss_feed_with_options e opts d) = d\<lparr>db_feeds := snd (tbl_insert r (db_feeds d))\<rparr>)"
    unfolding create_rss_feed_with_options_def Let_def by (simp add: tbl_insert_def) blast
  then show ?thesis using ok new by (elim disjE exE) simp_all
qed

lemma imports_delete_feeds: "imports_ok d \<Longrightarrow> imports_ok (delete_feeds e P d)"
proof -
  assume ok: "imports_ok d"
  then have t: "tbl_ok (db_feeds d)" "tbl_ok (db_posts d)" by (simp_all add: imports_tables)
  note get = tbl_delete_get [OF t(1), where P = P]
  let ?Q = "\<lambda>_ r. dv_fk e \<and> (case tbl_get (db_feeds d) (it_feed_id r) of None \<Rightarrow> False | Some q \<Rightarrow> P (it_feed_id r) q)"
  show ?thesis
    by (rule imports_other [OF ok, where Q = ?Q])
      (auto simp: delete_feeds_def Let_def post_of_feed_def t get tbl_delete_ok delete_nothing
        last_key split: option.splits if_splits)
qed


text \<open>What a poll leaves alone: the users, the tags and which feeds there are.\<close>

definition same_feeds :: "db \<Rightarrow> db \<Rightarrow> bool" where
  "same_feeds d d' \<longleftrightarrow> db_users d' = db_users d \<and> db_tags d' = db_tags d
     \<and> (\<forall>f. map_option (\<lambda>r. (fd_url r, fd_tag_id r, fd_max_items_per_poll r)) (tbl_get (db_feeds d') f)
          = map_option (\<lambda>r. (fd_url r, fd_tag_id r, fd_max_items_per_poll r)) (tbl_get (db_feeds d) f))"

lemma same_feeds_refl: "same_feeds d d"
  and same_feeds_trans: "same_feeds d d' \<Longrightarrow> same_feeds d' d'' \<Longrightarrow> same_feeds d d''"
  by (simp_all add: same_feeds_def)

lemma same_feeds_there: "same_feeds d d' \<Longrightarrow> tbl_get (db_feeds d') f = None \<longleftrightarrow> tbl_get (db_feeds d) f = None"
  by (cases "tbl_get (db_feeds d) f"; cases "tbl_get (db_feeds d') f") (auto simp: same_feeds_def dest: spec [of _ f])

text \<open>A feed can be polled where it, its tag and the user who posts are there.\<close>

definition poll_ready :: "int \<Rightarrow> rss_feed \<Rightarrow> db \<Rightarrow> bool" where
  "poll_ready u feed d \<longleftrightarrow> imports_ok d \<and> tbl_get (db_users d) u \<noteq> None \<and> tbl_get (db_feeds d) (rf_id feed) \<noteq> None"

lemma import_items_ok:
  assumes "poll_ready u feed d"
  shows "imports_ok (snd (import_items pe u feed items n d)) \<and> same_feeds d (snd (import_items pe u feed items n d))"
proof -
  have "poll_ready u feed (snd (import_items pe u feed items n d))
      \<and> db_users (snd (import_items pe u feed items n d)) = db_users d
      \<and> db_tags (snd (import_items pe u feed items n d)) = db_tags d
      \<and> db_feeds (snd (import_items pe u feed items n d)) = db_feeds d"
  proof (rule import_items_rule [where u = u and P = "\<lambda>d'. poll_ready u feed d' \<and> db_users d' = db_users d
      \<and> db_tags d' = db_tags d \<and> db_feeds d' = db_feeds d"], goal_cases)
    case (3 d' i row p ps)
    then obtain fr where fr: "tbl_get (db_feeds d') (rf_id feed) = Some fr" by (auto simp: poll_ready_def)
    from 3 have "imports_ok d'" by (simp add: poll_ready_def)
    note step = imports_step [OF this fr 3(4,5,9,10) refl, where pt = "db_post_tags d' @ [(p, rf_tag_id feed)]"]
    show ?case using 3(1) unfolding poll_ready_def step(2-4) by (auto simp: step(1))
  next
    case (2 d')
    then have "poll_ready u feed d'" by blast
    then show ?case unfolding poll_ready_def using imports_tables by blast
  qed (use assms in simp)
  then show ?thesis by (simp add: poll_ready_def same_feeds_def)
qed

lemma same_feeds_set: "(\<And>r. fd_tag_id (g r) = fd_tag_id r \<and> fd_max_items_per_poll (g r) = fd_max_items_per_poll r
    \<and> fd_url (g r) = fd_url r) \<Longrightarrow> same_feeds d (set_feed i g d)"
  by (auto simp: same_feeds_def set_feed_def tbl_update_get option.map_comp comp_def intro!: option.map_cong)

lemma poll_feed_ok:
  assumes "poll_ready u feed d"
  shows "imports_ok (snd (poll_feed pe u feed d)) \<and> same_feeds d (snd (poll_feed pe u feed d))"
proof -
  have log: "imports_ok (snd (log_rss_poll e f s h n k m ms d')) \<and> same_feeds d (snd (log_rss_poll e f s h n k m ms d'))"
    if "imports_ok d' \<and> same_feeds d d'" for e f s h n k m ms d'
    using that imports_log by (simp add: same_feeds_def log_poll_same)
  from assms have "imports_ok d \<and> same_feeds d d" by (simp add: poll_ready_def same_feeds_refl)
  with log import_items_ok [OF assms] show ?thesis
    by (simp add: poll_feed_def Let_def split: fetch.split sum.split prod.split) (metis snd_conv)
qed

lemma poll_and_mark_ok:
  assumes "poll_ready u feed d"
  shows "imports_ok (snd (poll_and_mark pe u feed d)) \<and> same_feeds d (snd (poll_and_mark pe u feed d))"
proof -
  obtain err d1 where p: "poll_feed pe u feed d = (err, d1)" by (metis surj_pair)
  with poll_feed_ok [OF assms, of pe] have "imports_ok d1" "same_feeds d d1" by simp_all
  moreover have "same_feeds d1 (update_feed_error (pe_db pe) (rf_id feed) m d1)"
      "same_feeds d1 (update_feed_polled (pe_db pe) (rf_id feed) d1)" for m
    unfolding update_feed_error_def update_feed_polled_def by (rule same_feeds_set; simp)+
  ultimately show ?thesis
    by (auto simp: poll_and_mark_def p update_feed_error_def update_feed_polled_def imports_set_feed
      intro: same_feeds_trans [of d d1] split: option.splits)
qed

lemma scan_feeds_there: "f \<in> set (scan_feeds d rows) \<Longrightarrow> \<exists>r. (rf_id f, r) \<in> set rows \<and> fd_tag_id r = rf_tag_id f
    \<and> fd_max_items_per_poll r = rf_max_items_per_poll f \<and> fd_url r = rf_url f"
  by (auto simp: scan_feeds_def feed_of_row_def split: option.splits)

lemma set_oldest_first: "set (oldest_poll_first rows) = set rows"
  by (auto simp: oldest_poll_first_def)

lemma due_there: "tbl_ok (db_feeds d) \<Longrightarrow> f \<in> set (get_feeds_due_for_polling e d) \<Longrightarrow> tbl_get (db_feeds d) (rf_id f) \<noteq> None"
  by (auto simp: get_feeds_due_for_polling_def set_oldest_first tbl_select_def tbl_in_get dest!: scan_feeds_there)

lemma poll_list_ok:
  assumes "imports_ok d" "tbl_get (db_users d) u \<noteq> None" "\<forall>f\<in>set fs. tbl_get (db_feeds d) (rf_id f) \<noteq> None"
  shows "imports_ok (fold (\<lambda>f d. snd (poll_and_mark pe u f d)) fs d)
    \<and> same_feeds d (fold (\<lambda>f d. snd (poll_and_mark pe u f d)) fs d)"
  using assms
proof (induction fs arbitrary: d)
  case (Cons f fs)
  let ?d = "snd (poll_and_mark pe u f d)"
  have one: "imports_ok ?d" "same_feeds d ?d" using poll_and_mark_ok [of u f d pe] Cons.prems by (simp_all add: poll_ready_def)
  then have "tbl_get (db_users ?d) u \<noteq> None" "\<forall>f\<in>set fs. tbl_get (db_feeds ?d) (rf_id f) \<noteq> None"
    using Cons.prems same_feeds_there [OF one(2)] one(2) [unfolded same_feeds_def] by auto
  from Cons.IH [OF one(1) this] one(2) show ?case by (auto intro: same_feeds_trans)
qed (simp add: same_feeds_refl)


datatype feed_op = Poll_due poll_env | Poll_one poll_env int | Add_feed denv feed_options
  | Edit_feed int int bool bool int bool | Edit_feed_full int string string int bool bool int bool
  | Drop_feed denv int | Drop_tag denv int | Hide_post int

fun feed_step :: "int \<Rightarrow> feed_op \<Rightarrow> db \<Rightarrow> db" where
  "feed_step u (Poll_due pe) d = poll_all pe u d"
| "feed_step u (Poll_one pe i) d = snd (poll_feed_now pe u i d)"
| "feed_step u (Add_feed e opts) d = snd (create_rss_feed_with_options e opts d)"
| "feed_step u (Edit_feed i n v a m act) d = update_rss_feed i n v a m act d"
| "feed_step u (Edit_feed_full i url title n v a m act) d = snd (update_rss_feed_full i url title n v a m act d)"
| "feed_step u (Drop_feed e i) d = delete_rss_feed e i d"
| "feed_step u (Drop_tag e t) d = delete_tag e t d"
| "feed_step u (Hide_post p) d = delete_post p d"

definition feeds_run :: "int \<Rightarrow> feed_op list \<Rightarrow> db \<Rightarrow> db" where
  "feeds_run u ops d = fold (feed_step u) ops d"

lemma imports_posts:
  assumes "imports_ok d" "\<And>q. po_source_type (g q) = po_source_type q \<and> po_source_id (g q) = po_source_id q"
  shows "imports_ok (set_post p g d)"
  by (rule imports_other [OF assms(1), where Q = "\<lambda>_ _. False"])
    (auto simp: post_of_feed_def set_post_def tbl_update_get tbl_update_ok delete_nothing assms(2)
      imports_tables [OF assms(1)] split: option.splits)

lemma delete_feeds_users: "db_users (delete_feeds e P d) = db_users d"
  by (simp add: delete_feeds_def Let_def)

lemma feed_step_ok:
  assumes "imports_ok d" "tbl_get (db_users d) u \<noteq> None"
  shows "imports_ok (feed_step u op d) \<and> tbl_get (db_users (feed_step u op d)) u \<noteq> None"
proof (cases op)
  case (Poll_due pe)
  have "\<forall>f\<in>set (get_feeds_due_for_polling (pe_db pe) d). tbl_get (db_feeds d) (rf_id f) \<noteq> None"
    using due_there imports_tables [OF assms(1)] by blast
  from poll_list_ok [OF assms this, of pe] assms(2) show ?thesis
    by (simp add: Poll_due poll_all_def same_feeds_def)
next
  case (Poll_one pe i)
  show ?thesis
  proof (cases "get_rss_feed_by_id d i")
    case (Inr f)
    then have "rf_id f = i" "tbl_get (db_feeds d) i \<noteq> None"
      by (auto simp: get_rss_feed_by_id_def feed_of_row_def split: option.splits)
    with assms poll_and_mark_ok [of u f d pe] show ?thesis
      by (simp add: Poll_one poll_feed_now_def Inr poll_ready_def same_feeds_def)
  qed (simp add: Poll_one poll_feed_now_def assms)
next
  case (Add_feed e opts)
  then show ?thesis using assms imports_add_feed [OF assms(1), of e opts]
    by (simp add: create_rss_feed_with_options_def Let_def split: prod.splits)
next
  case (Edit_feed_full i url title n v a m act)
  then show ?thesis using assms imports_set_feed [OF assms(1)]
    by (simp add: update_rss_feed_full_def set_feed_def)
next
  case (Drop_tag e t)
  have "imports_ok (d\<lparr>db_post_tags := pt\<rparr>)" for pt
    using assms(1) by (rule imports_feeds) (use imports_tables [OF assms(1)] in simp_all)
  from imports_delete_feeds [OF this] have "imports_ok (delete_feeds e P (d\<lparr>db_post_tags := pt\<rparr>))" for P pt by simp
  then have "imports_ok ((delete_feeds e P (d\<lparr>db_post_tags := pt\<rparr>))\<lparr>db_tag_admins := ta, db_tags := tg\<rparr>)" for P pt ta tg
    by (rule imports_feeds) (use \<open>\<And>P pt. imports_ok (delete_feeds e P (d\<lparr>db_post_tags := pt\<rparr>))\<close> imports_tables in auto)
  then show ?thesis using assms(2) by (simp add: Drop_tag delete_tag_def Let_def delete_feeds_users)
qed (use assms imports_set_feed [OF assms(1)] imports_delete_feeds [OF assms(1)] in
    \<open>simp_all add: update_rss_feed_def set_feed_def delete_rss_feed_def delete_feeds_users delete_post_def imports_posts,
     simp_all add: set_post_def\<close>)

text \<open>
  C11. Under every sequence of polls (of the feeds that are due, or of one feed), of additions, edits and
  deletions of feeds and tags and of deletions of posts, each item of a feed is imported exactly once:
  no two item records have the same feed and identifier, every record is a post of its feed and no two
  are the same post, and every post of a feed that is still configured is recorded.
\<close>

theorem items_imported_once:
  assumes "imports_ok d" "tbl_get (db_users d) u \<noteq> None"
  shows "imports_ok (feeds_run u ops d)"
proof -
  have "imports_ok (fold (feed_step u) ops d) \<and> tbl_get (db_users (fold (feed_step u) ops d)) u \<noteq> None"
    using assms
  proof (induction ops arbitrary: d)
    case (Cons op ops)
    from Cons.IH feed_step_ok [OF Cons.prems, of op] show ?case by simp
  qed simp
  then show ?thesis by (simp add: feeds_run_def)
qed


subsection \<open>Polls catch up with a feed\<close>

definition pending_keys :: "db \<Rightarrow> int \<Rightarrow> feed_item list \<Rightarrow> string set" where
  "pending_keys d f items = {g \<in> item_key ` set items. g \<noteq> [] \<and> \<not> has_rss_item d f g}"

definition can_post :: "int \<Rightarrow> rss_feed \<Rightarrow> db \<Rightarrow> bool" where
  "can_post u feed d \<longleftrightarrow> poll_ready u feed d \<and> tbl_get (db_tags d) (rf_tag_id feed) \<noteq> None
     \<and> (\<forall>(p, t)\<in>set (db_post_tags d). p \<le> fst (db_posts d))"

lemma create_succeeds:
  assumes "can_post u feed d"
  shows "\<exists>p row ps. create_post_full e u title url body [rf_tag_id feed] ''rss'' (Some (rf_id feed)) None pub d
      = (Inr p, d\<lparr>db_posts := ps, db_post_tags := db_post_tags d @ [(pr_id p, rf_tag_id feed)]\<rparr>)
    \<and> tbl_insert row (db_posts d) = (pr_id p, ps)
    \<and> po_source_type row = ''rss'' \<and> po_source_id row = Some (rf_id feed)"
proof -
  have ok: "tbl_ok (db_posts d)" "tbl_get (db_users d) u \<noteq> None"
    using assms imports_tables by (auto simp: can_post_def poll_ready_def)
  obtain res d' where c: "create_post_full e u title url body [rf_tag_id feed] ''rss'' (Some (rf_id feed)) None pub d = (res, d')"
    by (metis surj_pair)
  have "(fst (db_posts d) + 1, rf_tag_id feed) \<notin> set (db_post_tags d)" using assms by (fastforce simp: can_post_def)
  then have "\<not> isl res"
    using c assms ok(2) tbl_insert_get(1) [OF ok(1)]
    by (auto simp: create_post_full_def fk_ok_def Let_def can_post_def get_post_by_id_def tbl_insert_def
      split: if_splits option.splits)
  then obtain p where "res = Inr p" by (cases res) auto
  with create_cases [OF ok c] c show ?thesis by auto
qed

lemma import_one:
  assumes ready: "can_post u feed d" and new: "\<not> has_rss_item d (rf_id feed) (item_key i)" "item_key i \<noteq> []"
  obtains d' where "can_post u feed d'"
    "\<And>h g. has_rss_item d' h g \<longleftrightarrow> has_rss_item d h g \<or> h = rf_id feed \<and> g = item_key i"
    "import_items pe u feed (i # items) n d
      = (if rf_max_items_per_poll feed > 0 \<and> n + 1 \<ge> rf_max_items_per_poll feed then (n + 1, d')
         else import_items pe u feed items (n + 1) d')"
proof -
  obtain p row ps where c: "create_post_full (pe_db pe) u (item_post_title pe i) (fi_link i) (item_post_body pe i)
      [rf_tag_id feed] ''rss'' (Some (rf_id feed)) None (fi_published_at i) d
      = (Inr p, d\<lparr>db_posts := ps, db_post_tags := db_post_tags d @ [(pr_id p, rf_tag_id feed)]\<rparr>)"
      and row: "tbl_insert row (db_posts d) = (pr_id p, ps)"
        "po_source_type row = ''rss''" "po_source_id row = Some (rf_id feed)"
    using create_succeeds [OF ready] by metis
  let ?d = "snd (create_rss_item (pe_db pe) (rf_id feed) (item_key i) (pr_id p)
    (d\<lparr>db_posts := ps, db_post_tags := db_post_tags d @ [(pr_id p, rf_tag_id feed)]\<rparr>))"
  obtain fr where fr: "tbl_get (db_feeds d) (rf_id feed) = Some fr" "imports_ok d"
    using ready by (auto simp: can_post_def poll_ready_def)
  note step = imports_step [OF fr(2,1) new(1) row refl,
    where e = "pe_db pe" and pt = "db_post_tags d @ [(pr_id p, rf_tag_id feed)]"]
  have "fst ps = pr_id p" "pr_id p = fst (db_posts d) + 1" using row(1) by (auto simp: tbl_insert_def)
  then have "can_post u feed ?d"
    using ready step(1) unfolding can_post_def poll_ready_def step(2-6) by fastforce
  moreover have "import_items pe u feed (i # items) n d
      = (if rf_max_items_per_poll feed > 0 \<and> n + 1 \<ge> rf_max_items_per_poll feed then (n + 1, ?d)
         else import_items pe u feed items (n + 1) ?d)"
    using new c by (simp add: Let_def)
  ultimately show thesis using that step(7) by blast
qed

lemma import_progress:
  assumes "can_post u feed d" "rf_max_items_per_poll feed \<le> 0 \<or> n < rf_max_items_per_poll feed"
    "import_items pe u feed items n d = (n', d')"
  shows "can_post u feed d' \<and> (\<forall>h g. has_rss_item d h g \<longrightarrow> has_rss_item d' h g)
    \<and> int (card (pending_keys d (rf_id feed) items)) = int (card (pending_keys d' (rf_id feed) items)) + (n' - n)
    \<and> (pending_keys d' (rf_id feed) items = {} \<or> n' = rf_max_items_per_poll feed)"
  using assms
proof (induction items arbitrary: n d)
  case Nil
  then show ?case by (simp add: pending_keys_def)
next
  case (Cons i items)
  let ?f = "rf_id feed" let ?m = "rf_max_items_per_poll feed"
  have keys: "pending_keys d0 ?f (i # items) = pending_keys d0 ?f items
      \<union> (if item_key i = [] \<or> has_rss_item d0 ?f (item_key i) then {} else {item_key i})" for d0
    by (auto simp: pending_keys_def)
  have gone: "has_rss_item d0 ?f (item_key i) \<Longrightarrow> pending_keys d0 ?f (i # items) = pending_keys d0 ?f items" for d0
    unfolding keys by simp
  show ?case
  proof (cases "item_key i = [] \<or> has_rss_item d ?f (item_key i)")
    case True
    then have "import_items pe u feed items n d = (n', d')"
      using Cons.prems(3) by (cases "item_key i = []") simp_all
    from Cons.IH [OF Cons.prems(1,2) this] True show ?thesis unfolding keys by auto
  next
    case False
    then obtain d1 where d1: "can_post u feed d1"
        "\<And>h g. has_rss_item d1 h g \<longleftrightarrow> has_rss_item d h g \<or> h = ?f \<and> g = item_key i"
      and run: "import_items pe u feed (i # items) n d
        = (if ?m > 0 \<and> n + 1 \<ge> ?m then (n + 1, d1) else import_items pe u feed items (n + 1) d1)"
      using import_one [OF Cons.prems(1)] by metis
    have "pending_keys d ?f (i # items) = insert (item_key i) (pending_keys d1 ?f items)"
        "item_key i \<notin> pending_keys d1 ?f items" "finite (pending_keys d1 ?f items)"
      using False d1(2) unfolding keys by (auto simp: pending_keys_def)
    then have card: "int (card (pending_keys d ?f (i # items))) = int (card (pending_keys d1 ?f items)) + 1" by simp
    show ?thesis
    proof (cases "?m > 0 \<and> n + 1 \<ge> ?m")
      case True
      then have "n' = n + 1" "d' = d1" "n' = ?m"
        using trans [OF run [symmetric] Cons.prems(3)] Cons.prems(2) by auto
      with d1 card gone [of d1] show ?thesis by auto
    next
      case more: False
      have "import_items pe u feed items (n + 1) d1 = (n', d')"
        using trans [OF run [symmetric] Cons.prems(3)] more by simp
      moreover have "?m \<le> 0 \<or> n + 1 < ?m" using more by linarith
      ultimately have "can_post u feed d' \<and> (\<forall>h g. has_rss_item d1 h g \<longrightarrow> has_rss_item d' h g)
        \<and> int (card (pending_keys d1 ?f items)) = int (card (pending_keys d' ?f items)) + (n' - (n + 1))
        \<and> (pending_keys d' ?f items = {} \<or> n' = ?m)" using Cons.IH [OF d1(1)] by blast
      with d1(2) card gone [of d'] show ?thesis by simp
    qed
  qed
qed

text \<open>What a poll of a feed by its number does when the document is there and can be read.\<close>

lemma poll_now_progress:
  assumes ready: "can_post u feed d" and feed: "get_rss_feed_by_id d i = Inr feed"
    and doc: "pe_get pe (rf_url feed) = Fetched 200 (Inr doc)" "parse_rss pe doc = Inr items"
  defines "d' \<equiv> snd (poll_feed_now pe u i d)" and "m \<equiv> rf_max_items_per_poll feed"
  shows "can_post u feed d' \<and> (\<forall>h g. has_rss_item d h g \<longrightarrow> has_rss_item d' h g)
    \<and> (\<exists>feed'. get_rss_feed_by_id d' i = Inr feed' \<and> rf_id feed' = rf_id feed \<and> rf_url feed' = rf_url feed
        \<and> rf_tag_id feed' = rf_tag_id feed \<and> rf_max_items_per_poll feed' = m)
    \<and> (pending_keys d' i items = {}
        \<or> int (card (pending_keys d i items)) = int (card (pending_keys d' i items)) + m)"
proof -
  have i: "rf_id feed = i" using feed by (auto simp: get_rss_feed_by_id_def feed_of_row_def split: option.splits)
  obtain n d1 where run: "import_items pe u feed items 0 d = (n, d1)" by (metis surj_pair)
  let ?log = "snd (log_rss_poll (pe_db pe) i True 200 (int (length items)) n [] (pe_ms pe) d1)"
  have d': "d' = update_feed_polled (pe_db pe) i ?log"
    by (simp add: d'_def poll_feed_now_def feed poll_and_mark_def poll_feed_def Let_def doc run i)
  then have same: "db_items d' = db_items d1" "db_posts d' = db_posts d1" "db_post_tags d' = db_post_tags d1"
    by (simp_all add: update_feed_polled_def set_feed_def log_poll_same)
  then have has: "has_rss_item d' = has_rss_item d1" by (simp add: has_rss_item_def fun_eq_iff)
  have "poll_ready u feed d" using ready by (simp add: can_post_def)
  then have "imports_ok d' \<and> same_feeds d d'"
    using poll_and_mark_ok [of u feed d pe] feed by (simp add: d'_def poll_feed_now_def)
  then have ok: "imports_ok d'" and kept: "same_feeds d d'" by simp_all
  have prog: "can_post u feed d1 \<and> (\<forall>h g. has_rss_item d h g \<longrightarrow> has_rss_item d1 h g)
    \<and> int (card (pending_keys d i items)) = int (card (pending_keys d1 i items)) + n
    \<and> (pending_keys d1 i items = {} \<or> n = m)"
    using import_progress [OF ready _ run] i by (cases "m \<le> 0") (simp_all add: m_def)
  have "pending_keys d' i items = pending_keys d1 i items" by (simp add: pending_keys_def has)
  moreover have "can_post u feed d'"
    using ok ready prog kept same_feeds_there [OF kept] by (simp add: can_post_def poll_ready_def same same_feeds_def)
  moreover have "\<exists>feed'. get_rss_feed_by_id d' i = Inr feed' \<and> rf_id feed' = rf_id feed \<and> rf_url feed' = rf_url feed
        \<and> rf_tag_id feed' = rf_tag_id feed \<and> rf_max_items_per_poll feed' = m"
    using feed kept [unfolded same_feeds_def, THEN conjunct2, THEN conjunct1]
      kept [unfolded same_feeds_def, THEN conjunct2, THEN conjunct2, THEN spec, of i]
    by (auto simp: get_rss_feed_by_id_def feed_of_row_def m_def split: option.splits)
  ultimately show ?thesis using prog has by auto
qed

lemma poll_rounds:
  assumes "can_post u feed d" "get_rss_feed_by_id d i = Inr feed"
    and "pe_get pe (rf_url feed) = Fetched 200 (Inr doc)" "parse_rss pe doc = Inr items"
    and "0 < rf_max_items_per_poll feed"
    and "int (card (pending_keys d i items)) \<le> int k * rf_max_items_per_poll feed"
  shows "pending_keys (((\<lambda>d. snd (poll_feed_now pe u i d)) ^^ k) d) i items = {}"
  using assms
proof (induction k arbitrary: d feed)
  case 0
  have "finite (pending_keys d i items)" by (simp add: pending_keys_def)
  with 0 show ?case by simp
next
  case (Suc k)
  let ?d = "snd (poll_feed_now pe u i d)"
  note prog = poll_now_progress [OF Suc.prems(1-4)]
  then obtain feed' where f: "get_rss_feed_by_id ?d i = Inr feed'" "rf_id feed' = rf_id feed"
      "rf_url feed' = rf_url feed" "rf_tag_id feed' = rf_tag_id feed"
      "rf_max_items_per_poll feed' = rf_max_items_per_poll feed" by blast
  have ready: "can_post u feed' ?d" using prog by (simp add: can_post_def poll_ready_def f)
  have "int (card (pending_keys ?d i items)) \<le> int k * rf_max_items_per_poll feed'"
    using prog Suc.prems(5,6) by (auto simp: f algebra_simps)
  from Suc.IH [OF ready f(1) _ Suc.prems(4) _ this] Suc.prems(3,5)
  show ?case unfolding funpow_Suc_right o_apply by (simp add: f)
qed

text \<open>
  C38. Polls catch up with a feed: if the document at its address is read and parsed and has so many
  items that are not imported yet, then after as many polls as that number divided by the limit of
  items per poll, rounded up, every item that has an identifier or a link is imported.
\<close>

theorem polls_catch_up:
  assumes "can_post u feed d" "get_rss_feed_by_id d i = Inr feed"
    and "pe_get pe (rf_url feed) = Fetched 200 (Inr doc)" "parse_rss pe doc = Inr items"
    and "0 < rf_max_items_per_poll feed"
    and "int (card (pending_keys d i items)) \<le> int k * rf_max_items_per_poll feed"
    and "x \<in> set items" "item_key x \<noteq> []"
  shows "has_rss_item (((\<lambda>d. snd (poll_feed_now pe u i d)) ^^ k) d) i (item_key x)"
  using poll_rounds [OF assms(1-6)] assms(7,8) unfolding pending_keys_def by blast


subsection \<open>The text of an imported post\<close>

lemma rune_bytes: "x \<in> set (take (rune_width (c # cs)) (c # cs)) \<Longrightarrow> x = c \<or> 128 \<le> (of_char x :: nat)"
proof -
  assume x: "x \<in> set (take (rune_width (c # cs)) (c # cs))"
  define k where "k = rune_size (of_char c)"
  have ok: "rune_tail_ok (map of_char (take k (c # cs)))" and x: "x \<in> set (take k (c # cs))"
    using x by (auto simp: Let_def k_def split: if_splits)
  show ?thesis
  proof (cases "take k (c # cs)")
    case (Cons c' ys)
    then have "c' = c" by (cases k) auto
    with ok x Cons show ?thesis
      by (cases ys) (auto simp: second_ok_def list_all_iff cont_byte_def split: if_splits)
  qed (use x in simp)
qed

lemma strip_tags_clean: "x \<in> set (strip_tags b s) \<Longrightarrow> x \<noteq> CHR ''<'' \<and> x \<noteq> CHR ''>''"
proof (induction b s rule: strip_tags.induct)
  case (2 in_tag c cs)
  have "x \<noteq> CHR ''<'' \<and> x \<noteq> CHR ''>''" if "x \<in> set (take (rune_width (c # cs)) (c # cs))" "c \<noteq> CHR ''<''" "c \<noteq> CHR ''>''"
    using rune_bytes [OF that(1)] that(2,3) by auto
  moreover have "x \<in> set replacement_rune \<Longrightarrow> x \<noteq> CHR ''<'' \<and> x \<noteq> CHR ''>''"
    by (auto simp: replacement_rune_def char_of_def)
  ultimately show ?case using 2 by (auto simp: Let_def split: if_splits simp del: rune_width.simps)
qed simp

definition no_pair :: "char \<Rightarrow> string \<Rightarrow> bool" where
  "no_pair c s \<longleftrightarrow> (\<forall>a b. s \<noteq> a @ [c, c] @ b)"

definition no_triple :: "char \<Rightarrow> string \<Rightarrow> bool" where
  "no_triple c s \<longleftrightarrow> (\<forall>a b. s \<noteq> a @ [c, c, c] @ b)"

lemma no_pair_Cons: "no_pair c (x # s) \<longleftrightarrow> no_pair c s \<and> \<not> (x = c \<and> s \<noteq> [] \<and> hd s = c)"
  unfolding no_pair_def by (auto simp: Cons_eq_append_conv) (metis append_Cons append_Nil list.collapse)

lemma no_pair_infix: "no_pair c (p @ s @ q) \<Longrightarrow> no_pair c s" "no_triple c (p @ s @ q) \<Longrightarrow> no_triple c s"
  unfolding no_pair_def no_triple_def by (metis append.assoc)+

lemma no_pair_trim: "no_pair c s \<Longrightarrow> no_pair c (trim_space s)" "no_triple c s \<Longrightarrow> no_triple c (trim_space s)"
  using trim_space_infix [of s] no_pair_infix by metis+

lemma no_pair_Nil: "no_pair c []"
  by (simp add: no_pair_def)

lemma no_pair_append: "c \<noteq> x \<Longrightarrow> no_pair c s \<Longrightarrow> no_pair c t \<Longrightarrow> no_pair c (s @ x # t)"
  by (induction s) (auto simp: no_pair_Cons hd_append)

lemma no_pair_join: "c \<noteq> x \<Longrightarrow> \<forall>l\<in>set ls. no_pair c l \<Longrightarrow> no_pair c (join_with [x] ls)"
  by (induction "[x]" ls rule: join_with.induct) (auto simp: no_pair_append no_pair_Nil)

lemma no_pair_drop: "no_pair c s \<Longrightarrow> no_pair c (dropWhile P s)"
  by (induction s) (auto simp: no_pair_Cons)

lemma no_pair_blank: "P c \<Longrightarrow> no_pair c s \<Longrightarrow> no_pair c (c # dropWhile P s)"
  unfolding no_pair_Cons by (metis hd_dropWhile no_pair_drop)

lemma blanks_collapsed: "no_pair (CHR '' '') (collapse_blanks s)" "CHR 0x09 \<notin> set (collapse_blanks s)"
  "set (collapse_blanks s) \<subseteq> insert (CHR '' '') (set s)"
proof -
  show "no_pair (CHR '' '') (collapse_blanks s)"
  proof (induction s)
    case (Cons x s)
    from no_pair_blank [of "\<lambda>x. x = CHR '' '' \<or> x = CHR 0x09", OF _ Cons] Cons show ?case
      by (simp add: no_pair_Cons [of _ x])
  qed (simp add: no_pair_Nil)
  show "CHR 0x09 \<notin> set (collapse_blanks s)" by (induction s) (auto dest: set_dropWhileD)
  show "set (collapse_blanks s) \<subseteq> insert (CHR '' '') (set s)" by (induction s) (auto dest!: set_dropWhileD)
qed

lemma newlines_hd: "collapse_newlines 0 (c # cs) = c # collapse_newlines (if c = CHR 0x0A then 1 else 0) cs"
  by simp

lemma newlines_pair: "no_pair c s \<Longrightarrow> c \<noteq> CHR 0x0A \<Longrightarrow> no_pair c (collapse_newlines k s)"
proof (induction k s rule: collapse_newlines.induct)
  case (2 k x cs)
  show ?case
  proof (cases "x = CHR 0x0A")
    case True
    with 2 show ?thesis by (auto simp: no_pair_Cons)
  next
    case False
    with 2 have "no_pair c (collapse_newlines 0 cs)" by (simp add: no_pair_Cons)
    with 2(4,5) False show ?thesis by (cases cs) (auto simp: no_pair_Cons)
  qed
qed simp

lemma no_triple_Cons: "no_triple c (x # s) \<longleftrightarrow> no_triple c s \<and> \<not> (\<exists>t. x # s = c # c # c # t)"
  unfolding no_triple_def by (auto simp: Cons_eq_append_conv)

lemma newlines_collapsed: "k \<le> 2 \<Longrightarrow> no_triple (CHR 0x0A) (replicate k (CHR 0x0A) @ collapse_newlines k s)"
proof (induction k s rule: collapse_newlines.induct)
  case (1 k)
  then have "k = 0 \<or> k = 1 \<or> k = 2" by auto
  then show ?case by (auto simp: no_triple_Cons numeral_2_eq_2) (simp_all add: no_triple_def)
next
  case (2 k c cs)
  show ?case
  proof (cases "c = CHR 0x0A")
    case True
    then show ?thesis using 2 by (auto simp: replicate_app_Cons_same)
  next
    case False
    then have "no_triple (CHR 0x0A) (c # collapse_newlines 0 cs)" using 2(3) by (simp add: no_triple_Cons)
    moreover have "k = 0 \<or> k = 1 \<or> k = 2" using "2.prems" by auto
    ultimately show ?thesis using False by (auto simp: no_triple_Cons numeral_2_eq_2)
  qed
qed

lemma set_newlines: "set (collapse_newlines k s) \<subseteq> set s"
  by (induction k s rule: collapse_newlines.induct) auto

lemma set_join: "set (join_with sep ls) \<subseteq> set sep \<union> \<Union> (set ` set ls)"
  by (induction sep ls rule: join_with.induct) auto

lemma set_split: "l \<in> set (split_on c s) \<Longrightarrow> set l \<subseteq> set s"
proof (induction s arbitrary: l)
  case (Cons x s)
  obtain w ws where "split_on c s = w # ws" by (cases "split_on c s") auto
  with Cons.prems Cons.IH [of w] Cons.IH [of l] show ?case by (auto split: if_splits)
qed simp

text \<open>
  The text made of the HTML of an item has no angle bracket and no tab, never two spaces in a row
  and never three line ends in a row.
\<close>

theorem strip_html_clean:
  "set (strip_html s) \<inter> {CHR ''<'', CHR ''>'', CHR 0x09} = {} \<and> no_pair (CHR '' '') (strip_html s)
     \<and> no_triple (CHR 0x0A) (strip_html s)"
proof -
  define body where "body = strip_tags False (fold (\<lambda>(old, new). replace_all old new) block_breaks s)"
  define ls where "ls = map (\<lambda>l. trim_space (collapse_blanks l)) (split_on (CHR 0x0A) body)"
  have eq: "strip_html s = trim_space (collapse_newlines 0 (join_with [CHR 0x0A] ls))"
    by (simp add: strip_html_def Let_def body_def ls_def)
  have "x \<in> set body" if "l \<in> set (split_on (CHR 0x0A) body)" "x \<in> set l" for x l
    using set_split [OF that(1)] that(2) by blast
  then have line: "set l \<subseteq> insert (CHR '' '') (set body) - {CHR 0x09}" if "l \<in> set ls" for l
    using that set_trim_space blanks_collapsed(2,3) unfolding ls_def by fastforce
  then have "set (strip_html s) \<subseteq> insert (CHR 0x0A) (insert (CHR '' '') (set body) - {CHR 0x09})"
  proof -
    have "set (strip_html s) \<subseteq> set (join_with [CHR 0x0A] ls)"
      unfolding eq using set_trim_space set_newlines by (rule order_trans)
    also have "\<dots> \<subseteq> set [CHR 0x0A] \<union> \<Union> (set ` set ls)" by (rule set_join)
    finally show ?thesis using line by auto
  qed
  then have "set (strip_html s) \<inter> {CHR ''<'', CHR ''>'', CHR 0x09} = {}"
    using strip_tags_clean unfolding body_def by fastforce
  moreover have "no_pair (CHR '' '') (strip_html s)"
    unfolding eq ls_def by (intro no_pair_trim newlines_pair no_pair_join) (auto simp: no_pair_trim blanks_collapsed)
  moreover have "no_triple (CHR 0x0A) (strip_html s)"
    unfolding eq using newlines_collapsed [of 0] by (intro no_pair_trim) simp
  ultimately show ?thesis by simp
qed


lemma title_bound: "length (item_post_title pe i) \<le> 200"
  by (simp add: item_post_title_def Let_def)

lemma cut_point_le: "cut_point body \<le> 5000"
proof (cases "find (\<lambda>i. body ! i = CHR ''.'' \<or> body ! i = CHR 0x0A) [4900..<min 5000 (length body)]")
  case (Some i)
  then have "i \<in> set [4900..<min 5000 (length body)]" by (metis find_Some_iff nth_mem)
  with Some show ?thesis by (simp add: cut_point_def)
qed (simp add: cut_point_def)

lemma trim_space_length: "length (trim_space s) \<le> length s"
  using trim_space_infix [of s] by (metis le_add1 le_add2 length_append order_trans)

lemma body_bound: "length (item_post_body pe i) \<le> 5003"
proof -
  have "length (trim_space (take (cut_point b) b)) \<le> 5000" for b
    using trim_space_length [of "take (cut_point b) b"] cut_point_le [of b] by simp
  then show ?thesis by (simp add: item_post_body_def Let_def)
qed

text \<open>
  A poll only adds posts: those there before are as they were, and each new one is by the user the
  poller posts as, from this feed, with a title of at most 200 bytes and a body of at most 5003.
\<close>

theorem imported_posts_bounded:
  assumes "poll_ready u feed d" "tbl_get (db_posts (snd (poll_feed pe u feed d))) p = Some q"
  shows "tbl_get (db_posts d) p = Some q \<or> tbl_get (db_posts d) p = None \<and> po_user_id q = u
    \<and> po_source_type q = ''rss'' \<and> po_source_id q = Some (rf_id feed)
    \<and> length (po_title q) \<le> 200 \<and> length (or_empty (po_body q)) \<le> 5003"
proof -
  let ?new = "\<lambda>q. po_user_id q = u \<and> po_source_type q = ''rss'' \<and> po_source_id q = Some (rf_id feed)
    \<and> length (po_title q) \<le> 200 \<and> length (or_empty (po_body q)) \<le> 5003"
  let ?P = "\<lambda>d'. tbl_ok (db_posts d') \<and> tbl_get (db_users d') u \<noteq> None \<and> (\<forall>p q. tbl_get (db_posts d') p = Some q \<longrightarrow>
    tbl_get (db_posts d) p = Some q \<or> tbl_get (db_posts d) p = None \<and> ?new q)
    \<and> (\<forall>p. tbl_get (db_posts d) p \<noteq> None \<longrightarrow> tbl_get (db_posts d') p \<noteq> None)"
  have item: "db_posts (snd (create_rss_item e f g k d')) = db_posts d'" "db_users (snd (create_rss_item e f g k d')) = db_users d'"
    for e f g k d' by (simp_all add: create_rss_item_def)
  have all: "?P (snd (import_items pe u feed items n d))" for items n
  proof (rule import_items_rule [where u = u and P = ?P], goal_cases)
    case (3 d' i row k ps)
    then have ok: "tbl_ok (db_posts d')" by blast
    note get = tbl_insert_get [OF ok 3(5)]
    have "?new row" using 3(6-10) by (simp add: title_bound body_bound or_empty_def)
    moreover have "tbl_get (db_posts d) k = None" using 3(1) get(2) by blast
    ultimately have "\<forall>p q. tbl_get ps p = Some q \<longrightarrow> tbl_get (db_posts d) p = Some q \<or> tbl_get (db_posts d) p = None \<and> ?new q"
      using 3(1) unfolding get(1) by (simp split: if_splits)
    moreover have "\<forall>p. tbl_get (db_posts d) p \<noteq> None \<longrightarrow> tbl_get ps p \<noteq> None"
      using 3(1) unfolding get(1) by simp
    ultimately show ?case using 3(1) tbl_insert_ok [OF ok 3(5)] by (simp add: item)
  qed (use assms imports_tables in \<open>auto simp: poll_ready_def\<close>)
  have "\<exists>items n. db_posts (snd (poll_feed pe u feed d)) \<in> {db_posts d, db_posts (snd (import_items pe u feed items n d))}"
    by (auto simp: poll_feed_def Let_def log_poll_same split: fetch.split sum.split prod.split) (metis snd_conv)
  with all assms(2) show ?thesis by (elim exE insertE) auto
qed

subsection \<open>When feeds are polled\<close>

lemma create_post_feeds:
  "db_feeds (snd (create_post_full e u title url body tags src sid hat pub d)) = db_feeds d"
  "db_tags (snd (create_post_full e u title url body tags src sid hat pub d)) = db_tags d"
proof -
  have tags: "db_feeds (snd (add_post_tags e i ts d)) = db_feeds d \<and> db_tags (snd (add_post_tags e i ts d)) = db_tags d" for i ts d
    by (induction e i ts d rule: add_post_tags.induct) simp_all
  have "db_feeds d' = db_feeds d \<and> db_tags d' = db_tags d"
    if "add_post_tags e i tags (d\<lparr>db_posts := t\<rparr>) = (res, d')" for i t res d'
    using tags [of i tags "d\<lparr>db_posts := t\<rparr>"] by (simp add: that)
  then show "db_feeds (snd (create_post_full e u title url body tags src sid hat pub d)) = db_feeds d"
    "db_tags (snd (create_post_full e u title url body tags src sid hat pub d)) = db_tags d"
    by (auto simp: create_post_full_def Let_def split: prod.split sum.split)
qed

lemma import_items_feeds:
  "db_feeds (snd (import_items pe u feed items n d)) = db_feeds d \<and> db_tags (snd (import_items pe u feed items n d)) = db_tags d"
proof (induction items arbitrary: n d)
  case (Cons i items)
  obtain res d1 where c: "create_post_full (pe_db pe) u (item_post_title pe i) (fi_link i) (item_post_body pe i)
      [rf_tag_id feed] ''rss'' (Some (rf_id feed)) None (fi_published_at i) d = (res, d1)" by (metis surj_pair)
  then have "db_feeds d1 = db_feeds d" "db_tags d1 = db_tags d" by (metis create_post_feeds snd_conv)+
  moreover have "db_feeds (snd (create_rss_item e f g k d')) = db_feeds d'" "db_tags (snd (create_rss_item e f g k d')) = db_tags d'"
    for e f g k d' by (simp_all add: create_rss_item_def)
  ultimately show ?case using c Cons by (cases res) (simp_all add: Let_def)
qed simp

lemma poll_feed_feeds: "db_feeds (snd (poll_feed pe u f d)) = db_feeds d \<and> db_tags (snd (poll_feed pe u f d)) = db_tags d"
  using import_items_feeds [of pe u f _ 0 d]
  by (simp add: poll_feed_def Let_def log_poll_same split: fetch.split sum.split prod.split) (metis snd_conv)

lemma poll_and_mark_feeds:
  "tbl_get (db_feeds (snd (poll_and_mark pe u f d))) i = map_option (\<lambda>r. if i = rf_id f
     then r\<lparr>fd_last_polled := Some (dv_now (pe_db pe)), fd_last_error := fst (poll_feed pe u f d)\<rparr> else r) (tbl_get (db_feeds d) i)"
  "db_tags (snd (poll_and_mark pe u f d)) = db_tags d"
proof -
  obtain err d1 where p: "poll_feed pe u f d = (err, d1)" by (metis surj_pair)
  from p poll_feed_feeds [of pe u f d] have "db_feeds d1 = db_feeds d \<and> db_tags d1 = db_tags d" by simp
  then show "tbl_get (db_feeds (snd (poll_and_mark pe u f d))) i = map_option (\<lambda>r. if i = rf_id f
     then r\<lparr>fd_last_polled := Some (dv_now (pe_db pe)), fd_last_error := fst (poll_feed pe u f d)\<rparr> else r) (tbl_get (db_feeds d) i)"
    "db_tags (snd (poll_and_mark pe u f d)) = db_tags d"
    by (cases "i = rf_id f"; auto simp: p poll_and_mark_def update_feed_error_def update_feed_polled_def set_feed_def
      tbl_update_get split: option.split)+
qed

lemma polls_feeds:
  "\<exists>err. tbl_get (db_feeds (fold (\<lambda>f d. snd (poll_and_mark pe u f d)) fs d)) i = map_option (\<lambda>r. if i \<in> rf_id ` set fs
     then r\<lparr>fd_last_polled := Some (dv_now (pe_db pe)), fd_last_error := err\<rparr> else r) (tbl_get (db_feeds d) i)"
  "db_tags (fold (\<lambda>f d. snd (poll_and_mark pe u f d)) fs d) = db_tags d"
proof (induction fs arbitrary: d)
  case (Cons f fs)
  {
    case (1 d)
    let ?d = "snd (poll_and_mark pe u f d)"
    from Cons.IH(1) [of ?d] obtain err where "tbl_get (db_feeds (fold (\<lambda>f d. snd (poll_and_mark pe u f d)) fs ?d)) i
        = map_option (\<lambda>r. if i \<in> rf_id ` set fs
          then r\<lparr>fd_last_polled := Some (dv_now (pe_db pe)), fd_last_error := err\<rparr> else r) (tbl_get (db_feeds ?d) i)" by blast
    then have run: "tbl_get (db_feeds (fold (\<lambda>f d. snd (poll_and_mark pe u f d)) (f # fs) d)) i
        = map_option (\<lambda>r. if i \<in> rf_id ` set fs
          then r\<lparr>fd_last_polled := Some (dv_now (pe_db pe)), fd_last_error := err\<rparr> else r) (tbl_get (db_feeds ?d) i)"
      by simp
    show ?case unfolding run poll_and_mark_feeds(1)
      by (intro exI [of _ "if i \<in> rf_id ` set fs then err else fst (poll_feed pe u f d)"], cases "tbl_get (db_feeds d) i")
        (cases "i \<in> rf_id ` set fs"; cases "i = rf_id f"; simp)+
  next
    case (2 d)
    let ?d = "snd (poll_and_mark pe u f d)"
    from Cons.IH(2) [of ?d] show ?case by (simp add: poll_and_mark_feeds(2))
  }
qed (auto simp: option.map_ident)

lemma polls_tables: "tbl_ok (db_feeds d) \<Longrightarrow> tbl_ok (db_feeds (fold (\<lambda>f d. snd (poll_and_mark pe u f d)) fs d))"
proof (induction fs arbitrary: d)
  case (Cons f fs)
  obtain err d1 where p: "poll_feed pe u f d = (err, d1)" by (metis surj_pair)
  then have "db_feeds d1 = db_feeds d" using poll_feed_feeds [of pe u f d] by simp
  with Cons.prems p have "tbl_ok (db_feeds (snd (poll_and_mark pe u f d)))"
    by (cases err) (simp_all add: poll_and_mark_def update_feed_error_def update_feed_polled_def set_feed_def tbl_update_ok)
  from Cons.IH [OF this] show ?case by simp
qed simp

text \<open>
  When the feeds that are due have been polled, at any instant and whatever the polls met, none is
  due at that instant any more, so that polling them again at once changes nothing.
\<close>

theorem none_due_after_polls:
  assumes "tbl_ok (db_feeds d)" "\<forall>i f. tbl_get (db_feeds d) i = Some f \<longrightarrow> 0 < fd_interval_minutes f"
  shows "get_feeds_due_for_polling (pe_db pe) (poll_all pe u d) = [] \<and> poll_all pe u (poll_all pe u d) = poll_all pe u d"
proof -
  let ?e = "pe_db pe" let ?fs = "get_feeds_due_for_polling (pe_db pe) d" let ?d = "poll_all pe u d"
  let ?due = "\<lambda>f. fd_is_active f \<and> \<not> fd_poll_on_view f \<and> interval_over (pe_db pe) f"
  have none: "tbl_get (db_tags ?d) (fd_tag_id f) = None" if "(i, f) \<in> set (snd (db_feeds ?d))" "?due f" for i f
  proof (rule ccontr)
    assume "tbl_get (db_tags ?d) (fd_tag_id f) \<noteq> None"
    then obtain t where t: "tbl_get (db_tags d) (fd_tag_id f) = Some t"
      using polls_feeds(2) [of pe u ?fs d] by (auto simp: poll_all_def)
    obtain err where row: "tbl_get (db_feeds ?d) i = map_option (\<lambda>r. if i \<in> rf_id ` set ?fs
        then r\<lparr>fd_last_polled := Some (dv_now ?e), fd_last_error := err\<rparr> else r) (tbl_get (db_feeds d) i)"
      using polls_feeds(1) [of pe u ?fs d i] by (auto simp: poll_all_def)
    have "tbl_ok (db_feeds ?d)" unfolding poll_all_def using polls_tables [OF assms(1)] .
    with that(1) have "tbl_get (db_feeds ?d) i = Some f" by (simp add: tbl_in_get)
    then obtain r where r: "tbl_get (db_feeds d) i = Some r" using row by auto
    show False
    proof (cases "i \<in> rf_id ` set ?fs")
      case True
      with row r \<open>tbl_get (db_feeds ?d) i = Some f\<close> that(2) assms(2) show False
        by (fastforce simp: interval_over_def)
    next
      case False
      with row r \<open>tbl_get (db_feeds ?d) i = Some f\<close> have "f = r" by simp
      then have "(i, f) \<in> set (tbl_select (\<lambda>_ f. ?due f) (db_feeds d))"
        using that(2) r by (simp add: tbl_select_def tbl_in_get [OF assms(1)])
      with t have "feed_of_row d i f t \<in> set ?fs"
        by (force simp: get_feeds_due_for_polling_def scan_feeds_def set_oldest_first)
      then have "rf_id (feed_of_row d i f t) \<in> rf_id ` set ?fs" by (rule imageI)
      with False show False by (simp add: feed_of_row_def)
    qed
  qed
  then have nil: "get_feeds_due_for_polling ?e ?d = []"
    by (auto simp: get_feeds_due_for_polling_def scan_feeds_def set_oldest_first tbl_select_def split: option.splits)
  then show ?thesis by (simp add: poll_all_def [of pe u ?d])
qed


subsection \<open>A board with a feed\<close>

definition news_user :: user_row where
  "news_user = \<lparr>us_username = ''feeds'', us_email = ''feeds@x'', us_created_at = 0, us_invited_by = None,
     us_is_admin = False, us_is_banned = False, us_about = [], us_avatar = None, us_avatar_type = None,
     us_ban_reason = [], us_ban_expires_at = None, us_banned_by = None\<rparr>"

definition news_feed :: feed_row where
  "news_feed = \<lparr>fd_url = ''http://n/rss'', fd_title = ''N'', fd_tag_id = 1, fd_created_by = None,
     fd_interval_minutes = 60, fd_last_polled = None, fd_last_error = None, fd_is_active = True,
     fd_poll_on_view = False, fd_auto_approve = True, fd_max_items_per_poll = 2, fd_created_at = 0\<rparr>"

definition news_board :: db where
  "news_board = empty_db\<lparr>db_users := (1, [(1, news_user)]),
     db_tags := (1, [(1, \<lparr>tg_name = ''news'', tg_description = [], tg_creator_id = None,
       tg_created_at = None, tg_is_active = True\<rparr>)]),
     db_feeds := (1, [(1, news_feed)])\<rparr>"

definition news_entry :: "string \<Rightarrow> rss_entry" where
  "news_entry g = \<lparr>re_title = ''T'', re_link = ''http://n/'' @ g, re_description = ''<p>Hi</p>'',
     re_content_encoded = [], re_guid = g, re_pub_date = []\<rparr>"

definition news_env :: poll_env where
  "news_env = \<lparr>pe_get = (\<lambda>_. Fetched 200 (Inr ''doc'')),
     pe_rss = (\<lambda>_. Some [news_entry ''a'', news_entry ''b'', news_entry ''c'']), pe_atom = (\<lambda>_. None),
     pe_time = (\<lambda>_ _. None), pe_unescape = (\<lambda>s. s),
     pe_db = \<lparr>dv_now = 1000, dv_token = [], dv_fk = True\<rparr>, pe_ms = 5\<rparr>"

lemmas news_defs = news_board_def news_user_def news_feed_def empty_db_def empty_tbl_def tbl_get_def tbl_ok_def

lemma news_imports: "imports_ok news_board"
  by (auto simp: imports_ok_def import_tables_def tbl_unique_def post_of_feed_def news_defs)

lemma news_bot: "tbl_get (db_users news_board) 1 \<noteq> None"
  by (simp add: news_defs)

definition news_rss :: rss_feed where
  "news_rss = feed_of_row news_board 1 news_feed (the (tbl_get (db_tags news_board) 1))"

lemma news_rss_fields: "rf_id news_rss = 1" "rf_url news_rss = ''http://n/rss''" "rf_tag_id news_rss = 1"
    "rf_max_items_per_poll news_rss = 2"
  by (simp_all add: news_rss_def feed_of_row_def news_feed_def)

lemma news_get: "get_rss_feed_by_id news_board 1 = Inr news_rss"
  by (simp add: get_rss_feed_by_id_def news_rss_def) (simp add: news_defs)

lemma news_ready: "can_post 1 news_rss news_board"
  using news_imports news_bot by (simp add: can_post_def poll_ready_def news_rss_fields) (simp add: news_defs)

lemma items_imported_once_witness: "imports_ok (feeds_run 1 [Poll_due news_env, Poll_one news_env 1, Hide_post 1,
    Drop_feed \<lparr>dv_now = 5, dv_token = [], dv_fk = True\<rparr> 1] news_board)"
  by (rule items_imported_once [OF news_imports news_bot])

lemma polls_catch_up_witness:
  "has_rss_item (((\<lambda>d. snd (poll_feed_now news_env 1 1 d)) ^^ 2) news_board) 1 ''c''"
proof -
  let ?items = "map (item_of_rss news_env) [news_entry ''a'', news_entry ''b'', news_entry ''c'']"
  have doc: "pe_get news_env (rf_url news_rss) = Fetched 200 (Inr ''doc'')" "parse_rss news_env ''doc'' = Inr ?items"
    by (simp_all add: news_env_def parse_rss_def)
  have keys: "item_key ` set ?items = {''a'', ''b'', ''c''}"
    by (simp add: item_of_rss_def item_key_def news_entry_def)
  then have "pending_keys news_board 1 ?items \<subseteq> {''a'', ''b'', ''c''}" by (auto simp: pending_keys_def)
  then have "card (pending_keys news_board 1 ?items) \<le> card {''a'', ''b'', ''c''}" by (intro card_mono) auto
  then have few: "int (card (pending_keys news_board 1 ?items)) \<le> int 2 * rf_max_items_per_poll news_rss"
    by (simp add: news_rss_fields)
  have "has_rss_item (((\<lambda>d. snd (poll_feed_now news_env 1 1 d)) ^^ 2) news_board) 1
      (item_key (item_of_rss news_env (news_entry ''c'')))"
    by (rule polls_catch_up [OF news_ready news_get doc _ few]) (simp_all add: news_rss_fields item_of_rss_def item_key_def news_entry_def)
  then show ?thesis by (simp add: item_of_rss_def item_key_def news_entry_def)
qed

lemma none_due_after_polls_witness:
  "get_feeds_due_for_polling (pe_db news_env) (poll_all news_env 1 news_board) = []"
  by (rule none_due_after_polls [THEN conjunct1]) (auto simp: news_defs split: if_splits)

text \<open>The first post the board gets: the identifier of the first item, under the user of the poller.\<close>

lemma first_import:
  "map_option (\<lambda>q. (po_title q, po_body q)) (tbl_get (db_posts (snd (poll_feed news_env 1 news_rss news_board))) 1)
     = Some (''T'', Some ''Hi'')"
  by code_simp

lemma imported_posts_bounded_witness:
  "\<exists>q. tbl_get (db_posts (snd (poll_feed news_env 1 news_rss news_board))) 1 = Some q \<and> po_user_id q = 1
     \<and> po_source_id q = Some 1 \<and> length (or_empty (po_body q)) \<le> 5003"
proof -
  obtain q where q: "tbl_get (db_posts (snd (poll_feed news_env 1 news_rss news_board))) 1 = Some q"
    using first_import by auto
  have "poll_ready 1 news_rss news_board" using news_ready by (simp add: can_post_def)
  from imported_posts_bounded [OF this q] have "po_user_id q = 1 \<and> po_source_id q = Some 1
      \<and> length (or_empty (po_body q)) \<le> 5003"
    by (simp add: news_rss_fields) (simp add: news_defs)
  with q show ?thesis by blast
qed

end
