(* ===== verification/AdminRights.thy ===== *)
theory AdminRights
  imports WebAdmin FeedImport
begin

section \<open>What the pages of administrators, tags, feeds and collections allow\<close>

text \<open>
  The requests of \<^verbatim>\<open>WebAdmin\<close> behind the routes of \<^verbatim>\<open>cmd/makhor/main.go\<close>, as one step on the database,
  and the relation \<open>allowed\<close>: the changes the rights of a user give leave to.  Every request is a step of
  that relation up to its log entries; that accounts, hats and the collections of others are safe follows
  from the relation alone.
\<close>

subsection \<open>The requests\<close>

datatype admin_action = Admin_page | Ban_submit | Unban | Hat_grant | Hat_revoke | Hat_edit | Hat_reactivate
  | Tag_create | Tag_describe | Tag_delete | Tag_admin_add | Tag_admin_remove
  | Feed_add | Feed_update | Feed_delete | Feed_sync | Feed_edit | Feed_drop
  | Collection_create | Collection_edit | Collection_delete

definition on_submit :: "web_request \<Rightarrow> admin_action \<Rightarrow> admin_action" where
  "on_submit r a = (if rq_post r then a else Admin_page)"

definition admin_routes :: "(string \<times> admin_action) list" where
  "admin_routes =
     [(''/tags/admins/remove'', Tag_admin_remove), (''/tags/feeds/update'', Feed_update),
      (''/tags/feeds/delete'', Feed_delete), (''/tags/feeds/sync'', Feed_sync),
      (''/tags/update-description'', Tag_describe), (''/tags/delete'', Tag_delete),
      (''/feeds/delete'', Feed_drop), (''/collections/delete'', Collection_delete),
      (''/admin/hats/revoke'', Hat_revoke), (''/admin/hats/reactivate'', Hat_reactivate),
      (''/admin/unban'', Unban)]"

definition admin_forms :: "(string \<times> admin_action) list" where
  "admin_forms =
     [(''/tags/new'', Tag_create), (''/tags/admins'', Tag_admin_add), (''/tags/feeds'', Feed_add),
      (''/collections/new'', Collection_create), (''/admin/hats/grant'', Hat_grant),
      (''/admin/hats/edit'', Hat_edit), (''/admin/ban'', Ban_submit)]"

definition collection_router :: "web_request \<Rightarrow> admin_action" where
  "collection_router r =
     (if has_suffix (rq_path r) ''/edit'' then on_submit r Collection_edit else Admin_page)"

text \<open>
  Where \<^verbatim>\<open>main\<close> sends a request: paths of their own, forms whose page is shown for
  GET, and the paths below \<^verbatim>\<open>/feeds/\<close> and \<^verbatim>\<open>/collections/\<close>.
\<close>

definition admin_route :: "web_request \<Rightarrow> admin_action" where
  "admin_route r =
     (case map_of admin_routes (rq_path r) of
        Some a \<Rightarrow> a
      | None \<Rightarrow> (case map_of admin_forms (rq_path r) of
          Some a \<Rightarrow> on_submit r a
        | None \<Rightarrow>
            if has_prefix (rq_path r) ''/feeds/'' then on_submit r Feed_edit
            else if has_prefix (rq_path r) ''/collections/'' then collection_router r
            else Admin_page))"

definition admin_request :: "(db_error \<Rightarrow> string) \<Rightarrow> (poll_env \<times> int) option \<Rightarrow> denv \<Rightarrow> site \<Rightarrow>
    web_request \<Rightarrow> user option \<Rightarrow> web \<Rightarrow> web" where
  "admin_request err_text poller e s r user w = (case admin_route r of
     Admin_page \<Rightarrow> w
   | Ban_submit \<Rightarrow> snd (admin_ban_user_submit e s r user w)
   | Unban \<Rightarrow> snd (admin_unban_user e s r user w)
   | Hat_grant \<Rightarrow> snd (admin_grant_hat_submit e s r user w)
   | Hat_revoke \<Rightarrow> snd (admin_revoke_hat e s r user w)
   | Hat_edit \<Rightarrow> snd (admin_edit_hat_submit e s r user w)
   | Hat_reactivate \<Rightarrow> snd (admin_reactivate_hat e s r user w)
   | Tag_create \<Rightarrow> snd (create_tag_submit e s r user w)
   | Tag_describe \<Rightarrow> snd (web_update_tag_description e s r user w)
   | Tag_delete \<Rightarrow> snd (web_delete_tag e s r user w)
   | Tag_admin_add \<Rightarrow> snd (web_add_tag_admin e s r user w)
   | Tag_admin_remove \<Rightarrow> snd (web_remove_tag_admin e s r user w)
   | Feed_add \<Rightarrow> snd (web_add_tag_feed err_text e s r user w)
   | Feed_update \<Rightarrow> snd (web_update_tag_feed e s r user w)
   | Feed_delete \<Rightarrow> snd (web_delete_tag_feed e s r user w)
   | Feed_sync \<Rightarrow> snd (web_sync_tag_feed poller e s r user w)
   | Feed_edit \<Rightarrow> snd (update_feed_submit r user w)
   | Feed_drop \<Rightarrow> snd (delete_feed_submit e r user w)
   | Collection_create \<Rightarrow> snd (create_collection_submit e r user w)
   | Collection_edit \<Rightarrow> snd (edit_collection_submit e r user w)
   | Collection_delete \<Rightarrow> snd (delete_collection_submit e r user w))"

subsection \<open>What a user is allowed to change\<close>

text \<open>
  The rights, as a relation between the database before and after: bans by administrators and inviters,
  never of oneself; hats by administrators; new tags by administrators and below the tags one moderates;
  tags, their administrators and feeds by those who own them; collections by their users.
\<close>

definition tag_in :: "(int \<times> int) tbl \<Rightarrow> int \<Rightarrow> int \<Rightarrow> bool" where
  "tag_in ts c t \<longleftrightarrow> (c, t) \<in> snd ` set (snd ts)"

definition own_collections :: "int \<Rightarrow> db \<Rightarrow> db \<Rightarrow> bool" where
  "own_collections u d d' \<longleftrightarrow> (\<exists>cs ts. d' = d\<lparr>db_collections := cs, db_collection_tags := ts\<rparr>
     \<and> (\<forall>c r. cl_user_id r \<noteq> u \<longrightarrow> (tbl_get cs c = Some r \<longleftrightarrow> tbl_get (db_collections d) c = Some r))
     \<and> (\<forall>c r t. cl_user_id r \<noteq> u \<longrightarrow> tbl_get (db_collections d) c = Some r \<longrightarrow>
          tag_in ts c t = tag_in (db_collection_tags d) c t))"

inductive allowed :: "user option \<Rightarrow> db \<Rightarrow> db \<Rightarrow> bool" where
  Nothing: "allowed user d d"
| Ban: "i \<noteq> ur_id u \<Longrightarrow> ur_is_admin u \<or> is_invited_by d i (ur_id u) \<Longrightarrow>
    allowed (Some u) d (set_user i (\<lambda>r. r\<lparr>us_is_banned := True, us_ban_reason := why,
      us_ban_expires_at := x, us_banned_by := Some (ur_id u)\<rparr>) d)"
| Unban: "ur_is_admin u \<Longrightarrow> allowed (Some u) d (set_user i clear_ban d)"
| Hats: "ur_is_admin u \<Longrightarrow> allowed (Some u) d (d\<lparr>db_hats := hs\<rparr>)"
| New_tag: "tag_name_ok (tg_name row) \<Longrightarrow> tg_creator_id row = Some (ur_id u) \<Longrightarrow> \<not> tag_exists d (tg_name row) \<Longrightarrow>
    ur_is_admin u \<or> (\<exists>parent leaf. tg_name row = parent @ ''::'' @ leaf \<and> can_create_subtag d parent (ur_id u)) \<Longrightarrow>
    allowed (Some u) d (d\<lparr>db_tags := snd (tbl_insert row (db_tags d))\<rparr>)"
| Describe: "can_moderate_tag d i (ur_id u) \<Longrightarrow> allowed (Some u) d (update_tag_description i desc d)"
| Drop_tag: "can_delete_tag d i (ur_id u) \<Longrightarrow> get_tag_by_id d i = Inr t \<Longrightarrow> \<not> get_tag_child_count d (tr_name t) > 0 \<Longrightarrow>
    allowed (Some u) d (delete_tag e i d)"
| Add_admin: "can_manage_tag_admins d i (ur_id u) \<Longrightarrow> allowed (Some u) d (snd (add_tag_admin e i v (ur_id u) d))"
| Remove_admin: "can_manage_tag_admins d i (ur_id u) \<Longrightarrow> allowed (Some u) d (remove_tag_admin i v d)"
| New_feed: "can_manage_tag_feed d (ur_id u) (fo_tag_id opts) \<Longrightarrow>
    allowed (Some u) d (snd (create_rss_feed_with_options e opts d))"
| Edit_feed: "can_edit_feed d (ur_id u) i \<Longrightarrow> (\<And>r. fd_tag_id (g r) = fd_tag_id r \<and> fd_created_by (g r) = fd_created_by r) \<Longrightarrow>
    allowed (Some u) d (set_feed i g d)"
| Drop_feed: "can_edit_feed d (ur_id u) i \<Longrightarrow> allowed (Some u) d (delete_rss_feed e i d)"
| Sync: "can_edit_feed d (ur_id u) i \<Longrightarrow> allowed (Some u) d (snd (poll_feed_now pe owner i d))"
| Own: "own_collections (ur_id u) d d' \<Longrightarrow> allowed (Some u) d d'"

text \<open>What a request does, up to its entries in the logs of actions and of moderation.\<close>

definition logged :: "db \<Rightarrow> db \<Rightarrow> bool" where
  "logged d d' \<longleftrightarrow> (\<exists>a m. d' = d\<lparr>db_actions := a, db_moderation := m\<rparr>)"

definition permitted :: "user option \<Rightarrow> web \<Rightarrow> web \<Rightarrow> bool" where
  "permitted user w w' \<longleftrightarrow> (\<exists>d. allowed user (wb_db w) d \<and> logged d (wb_db w'))"

lemma logged_refl: "logged d d"
  unfolding logged_def by (intro exI [of _ "db_actions d"] exI [of _ "db_moderation d"]) simp

lemma logged_actions: "logged d d' \<Longrightarrow> logged d (d'\<lparr>db_actions := a\<rparr>)"
proof -
  assume "logged d d'"
  then obtain a0 m where "d' = d\<lparr>db_actions := a0, db_moderation := m\<rparr>" by (auto simp: logged_def)
  then have "d'\<lparr>db_actions := a\<rparr> = d\<lparr>db_actions := a, db_moderation := m\<rparr>" by simp
  then show ?thesis unfolding logged_def by blast
qed

lemma logged_moderation: "logged d d' \<Longrightarrow> logged d (d'\<lparr>db_moderation := m\<rparr>)"
proof -
  assume "logged d d'"
  then obtain a m0 where "d' = d\<lparr>db_actions := a, db_moderation := m0\<rparr>" by (auto simp: logged_def)
  then have "d'\<lparr>db_moderation := m\<rparr> = d\<lparr>db_actions := a, db_moderation := m\<rparr>" by simp
  then show ?thesis unfolding logged_def by blast
qed

lemma permitted_db: "allowed user (wb_db w) d \<Longrightarrow> permitted user w (w\<lparr>wb_db := d\<rparr>)"
  using logged_refl by (auto simp: permitted_def)

lemma permitted_same: "permitted user w w"
  using permitted_db [OF Nothing, of user w] by simp

lemma permitted_map: "allowed user (wb_db w) (f (wb_db w)) \<Longrightarrow> permitted user w (map_db f w)"
  by (simp add: map_db_def permitted_db)

lemma permitted_log: "permitted user w w' \<Longrightarrow> permitted user w (log_as e r v a k i x w')"
  using log_as_actions [of e r v a k i x w'] logged_actions unfolding permitted_def by metis

lemma permitted_moderate: "permitted user w w' \<Longrightarrow> permitted user w (moderate e u a v x w')"
  by (auto simp: permitted_def moderate_def log_moderation_def intro: logged_moderation)

lemmas permitted_rules = permitted_same permitted_db permitted_map permitted_log permitted_moderate

lemmas guards = as_user_def as_admin_def as_owner_def with_form_def with_id_def on_tag_def on_hat_def on_ban_def
  on_managed_feed_def on_collection_def

lemma managed_editable:
  "get_rss_feed_by_id d i = Inr f \<Longrightarrow> can_manage_tag_feed d u (rf_tag_id f) \<Longrightarrow> can_edit_feed d u i"
  by (auto simp: get_rss_feed_by_id_def feed_of_row_def can_edit_feed_def split: option.splits)

lemma bans_permitted:
  "permitted user w (snd (admin_ban_user_submit e s r user w))"
  "permitted user w (snd (admin_unban_user e s r user w))"
proof -
  have ban: "allowed (Some u) d d'" if "ban_user e (ur_id t) why x (ur_id u) d = (y, d')" "ur_id t \<noteq> ur_id u" "can_ban d u t"
    for u t d d' why x y
    using that by (auto simp: ban_user_def can_ban_def split: if_splits intro: Nothing Ban)
  show "permitted user w (snd (admin_ban_user_submit e s r user w))"
    unfolding admin_ban_user_submit_def guards Let_def
    by (auto split: option.split sum.split prod.split intro!: permitted_rules dest: ban)
  show "permitted user w (snd (admin_unban_user e s r user w))"
    unfolding admin_unban_user_def guards Let_def
    by (auto simp: set_user_banned_def split: option.split sum.split intro!: permitted_rules Unban)
qed

lemma hats_permitted:
  "permitted user w (snd (admin_grant_hat_submit e s r user w))"
  "permitted user w (snd (admin_revoke_hat e s r user w))"
  "permitted user w (snd (admin_edit_hat_submit e s r user w))"
  "permitted user w (snd (admin_reactivate_hat e s r user w))"
proof -
  have new: "allowed (Some u) d d'" if "create_hat e i n org l by d = (y, d')" "ur_is_admin u" for u d d' i n org l y "by"
    using that by (auto simp: create_hat_def split: if_splits prod.splits intro: Nothing Hats)
  have edit: "allowed (Some u) d d'" if "update_hat i n org l d = (y, d')" "ur_is_admin u" for u d d' i n org l y
    using that by (auto simp: update_hat_def set_hat_def split: if_splits option.splits intro: Nothing Hats)
  show "permitted user w (snd (admin_grant_hat_submit e s r user w))"
    unfolding admin_grant_hat_submit_def guards Let_def
    by (auto split: option.split sum.split prod.split intro!: permitted_rules dest: new)
  show "permitted user w (snd (admin_edit_hat_submit e s r user w))"
    unfolding admin_edit_hat_submit_def guards Let_def
    by (auto split: option.split sum.split prod.split intro!: permitted_rules dest: edit)
  show "permitted user w (snd (admin_revoke_hat e s r user w))" "permitted user w (snd (admin_reactivate_hat e s r user w))"
    unfolding admin_revoke_hat_def admin_reactivate_hat_def guards revoke_hat_def reactivate_hat_def set_hat_def
    by (auto split: option.split intro!: permitted_rules Hats)
qed


lemma tags_permitted:
  "permitted user w (snd (create_tag_submit e s r user w))"
  "permitted user w (snd (web_update_tag_description e s r user w))"
  "permitted user w (snd (web_delete_tag e s r user w))"
  "permitted user w (snd (web_add_tag_admin e s r user w))"
  "permitted user w (snd (web_remove_tag_admin e s r user w))"
proof -
  have new: "allowed (Some u) d d'"
    if "create_tag e (full_tag_name r) desc (ur_id u) d = (y, d')" "create_tag_errors r d = []"
      "field r ''parent'' = [] \<longrightarrow> ur_is_admin u"
      "field r ''parent'' \<noteq> [] \<longrightarrow> can_create_subtag d (field r ''parent'') (ur_id u)" for u d d' desc y
  proof -
    have full: "tag_name_ok (full_tag_name r)" "\<not> tag_exists d (full_tag_name r)"
      using that(2) by (auto simp: create_tag_errors_def Let_def split: if_splits)
    have "ur_is_admin u \<or> (\<exists>parent leaf. full_tag_name r = parent @ ''::'' @ leaf \<and> can_create_subtag d parent (ur_id u))"
      using that(3,4) by (cases "field r ''parent'' = []") (auto simp: full_tag_name_def Let_def)
    with full have "allowed (Some u) d (d\<lparr>db_tags := snd (tbl_insert \<lparr>tg_name = full_tag_name r, tg_description = desc,
        tg_creator_id = Some (ur_id u), tg_created_at = Some (dv_now e), tg_is_active = True\<rparr> (db_tags d))\<rparr>)"
      by (intro New_tag) simp_all
    with that(1) show ?thesis by (auto simp: create_tag_def split: if_splits prod.splits intro: Nothing)
  qed
  have admin: "allowed (Some u) d d'"
    if "add_tag_admin e i v (ur_id u) d = (y, d')" "can_manage_tag_admins d i (ur_id u)" for u i v d d' y
    using Add_admin [OF that(2), of e v] that(1) by simp
  show "permitted user w (snd (create_tag_submit e s r user w))"
    unfolding create_tag_submit_def guards Let_def
    by (auto split: option.split sum.split prod.split intro!: permitted_rules dest: new)
  show "permitted user w (snd (web_update_tag_description e s r user w))"
    unfolding web_update_tag_description_def guards Let_def
    by (auto split: option.split sum.split intro!: permitted_rules Describe)
  show "permitted user w (snd (web_delete_tag e s r user w))"
    unfolding web_delete_tag_def guards Let_def
    by (auto split: option.split sum.split intro!: permitted_rules Drop_tag)
  show "permitted user w (snd (web_add_tag_admin e s r user w))"
    unfolding web_add_tag_admin_def guards Let_def
    by (auto split: option.split sum.split prod.split intro!: permitted_rules dest: admin)
  show "permitted user w (snd (web_remove_tag_admin e s r user w))"
    unfolding web_remove_tag_admin_def guards Let_def
    by (auto split: option.split intro!: permitted_rules Remove_admin)
qed

lemma feeds_permitted:
  "permitted user w (snd (web_add_tag_feed err_text e s r user w))"
  "permitted user w (snd (web_update_tag_feed e s r user w))"
  "permitted user w (snd (web_delete_tag_feed e s r user w))"
  "permitted user w (snd (web_sync_tag_feed poller e s r user w))"
  "permitted user w (snd (update_feed_submit r user w))"
  "permitted user w (snd (delete_feed_submit e r user w))"
proof -
  have new: "allowed (Some u) d d'"
    if "create_rss_feed_with_options e opts d = (y, d')" "can_manage_tag_feed d (ur_id u) (fo_tag_id opts)" for u opts d d' y
    using New_feed [OF that(2), of e] that(1) by simp
  have sync: "allowed (Some u) d d'"
    if "poll_feed_now pe owner i d = (y, d')" "can_edit_feed d (ur_id u) i" for u pe owner i d d' y
    using Sync [OF that(2), of pe owner] that(1) by simp
  have full: "allowed (Some u) d d'"
    if "update_rss_feed_full i url title n v a m act d = (y, d')" "can_edit_feed d (ur_id u) i" for u i url title n v a m act d d' y
    using that by (auto simp: update_rss_feed_full_def split: if_splits intro: Nothing intro!: Edit_feed)
  show "permitted user w (snd (web_add_tag_feed err_text e s r user w))"
    unfolding web_add_tag_feed_def guards Let_def
    by (auto split: option.split sum.split prod.split intro!: permitted_rules dest: new)
  show "permitted user w (snd (web_update_tag_feed e s r user w))"
    unfolding web_update_tag_feed_def guards Let_def update_rss_feed_def
    by (auto split: option.split sum.split intro!: permitted_rules Edit_feed managed_editable)
  show "permitted user w (snd (web_delete_tag_feed e s r user w))"
    unfolding web_delete_tag_feed_def guards
    by (auto split: option.split sum.split intro!: permitted_rules Drop_feed managed_editable)
  show "permitted user w (snd (web_sync_tag_feed poller e s r user w))"
    unfolding web_sync_tag_feed_def guards
    by (auto split: option.split sum.split prod.split intro!: permitted_rules dest: sync managed_editable)
  show "permitted user w (snd (update_feed_submit r user w))"
    unfolding update_feed_submit_def Let_def
    by (auto split: option.split sum.split prod.split intro!: permitted_rules dest: full)
  show "permitted user w (snd (delete_feed_submit e r user w))"
    unfolding delete_feed_submit_def guards
    by (auto split: option.split sum.split intro!: permitted_rules Drop_feed)
qed


lemma own_trans: "own_collections u d d' \<Longrightarrow> own_collections u d' d'' \<Longrightarrow> own_collections u d d''"
proof -
  assume a: "own_collections u d d'" "own_collections u d' d''"
  then obtain cs ts cs' ts' where d: "d' = d\<lparr>db_collections := cs, db_collection_tags := ts\<rparr>"
      "d'' = d'\<lparr>db_collections := cs', db_collection_tags := ts'\<rparr>"
    and kept: "\<And>c r. cl_user_id r \<noteq> u \<Longrightarrow> tbl_get cs c = Some r \<longleftrightarrow> tbl_get (db_collections d) c = Some r"
      "\<And>c r t. cl_user_id r \<noteq> u \<Longrightarrow> tbl_get (db_collections d) c = Some r \<Longrightarrow> tag_in ts c t = tag_in (db_collection_tags d) c t"
      "\<And>c r. cl_user_id r \<noteq> u \<Longrightarrow> tbl_get cs' c = Some r \<longleftrightarrow> tbl_get (db_collections d') c = Some r"
      "\<And>c r t. cl_user_id r \<noteq> u \<Longrightarrow> tbl_get (db_collections d') c = Some r \<Longrightarrow> tag_in ts' c t = tag_in (db_collection_tags d') c t"
    unfolding own_collections_def by blast
  have "d'' = d\<lparr>db_collections := cs', db_collection_tags := ts'\<rparr>" using d by simp
  moreover have "\<forall>c r. cl_user_id r \<noteq> u \<longrightarrow> (tbl_get cs' c = Some r \<longleftrightarrow> tbl_get (db_collections d) c = Some r)"
    using kept(1,3) d(1) by simp
  moreover have "\<forall>c r t. cl_user_id r \<noteq> u \<longrightarrow> tbl_get (db_collections d) c = Some r \<longrightarrow>
      tag_in ts' c t = tag_in (db_collection_tags d) c t"
    using kept d(1) by simp
  ultimately show ?thesis unfolding own_collections_def by blast
qed

lemma own_tags:
  assumes "\<And>c r t. cl_user_id r \<noteq> u \<Longrightarrow> tbl_get (db_collections d) c = Some r \<Longrightarrow>
      tag_in ts c t = tag_in (db_collection_tags d) c t"
  shows "own_collections u d (d\<lparr>db_collection_tags := ts\<rparr>)"
  unfolding own_collections_def using assms by (intro exI [of _ "db_collections d"] exI [of _ ts]) simp

text \<open>A user's own collection, in tables that are in order.\<close>

definition owns_collection :: "int \<Rightarrow> int \<Rightarrow> db \<Rightarrow> bool" where
  "owns_collection u c d \<longleftrightarrow> tbl_ok (db_collections d) \<and> tbl_ok (db_collection_tags d)
     \<and> (\<exists>r. tbl_get (db_collections d) c = Some r \<and> cl_user_id r = u)"

lemma own_refl: "own_collections u d d"
  using own_tags [of u d "db_collection_tags d"] by simp

lemma own_tag_step:
  assumes "owns_collection u c d"
  shows "own_collections u d (snd (add_tag_to_collection e c t d)) \<and> owns_collection u c (snd (add_tag_to_collection e c t d))"
    "own_collections u d (remove_tag_from_collection c t d) \<and> owns_collection u c (remove_tag_from_collection c t d)"
proof -
  have ok: "tbl_ok (db_collections d)" "tbl_ok (db_collection_tags d)" using assms by (simp_all add: owns_collection_def)
  have other: "cl_user_id r \<noteq> u \<Longrightarrow> tbl_get (db_collections d) c' = Some r \<Longrightarrow> c' \<noteq> c" for c' r
    using assms by (auto simp: owns_collection_def)
  obtain k ts where ins: "tbl_insert (c, t) (db_collection_tags d) = (k, ts)" by (metis surj_pair)
  then have "c' \<noteq> c \<Longrightarrow> tag_in ts c' t' = tag_in (db_collection_tags d) c' t'" for c' t'
    by (auto simp: tag_in_def tbl_insert_def image_Un)
  with other have "own_collections u d (d\<lparr>db_collection_tags := ts\<rparr>)" by (intro own_tags) blast
  moreover have "owns_collection u c (d\<lparr>db_collection_tags := ts\<rparr>)"
    using assms tbl_insert_ok [OF ok(2) ins] by (simp add: owns_collection_def)
  ultimately show "own_collections u d (snd (add_tag_to_collection e c t d))
      \<and> owns_collection u c (snd (add_tag_to_collection e c t d))"
    using assms ins by (simp add: add_tag_to_collection_def own_refl)
  have "c' \<noteq> c \<Longrightarrow> tag_in (tbl_delete (\<lambda>_ p. p = (c, t)) (db_collection_tags d)) c' t' = tag_in (db_collection_tags d) c' t'"
    for c' t' by (force simp: tag_in_def tbl_delete_def)
  with other have "own_collections u d (remove_tag_from_collection c t d)"
    unfolding remove_tag_from_collection_def by (intro own_tags) blast
  then show "own_collections u d (remove_tag_from_collection c t d) \<and> owns_collection u c (remove_tag_from_collection c t d)"
    using assms by (simp add: remove_tag_from_collection_def owns_collection_def tbl_delete_ok)
qed

lemma own_folds:
  assumes "owns_collection u c d"
  shows "own_collections u d (fold (\<lambda>v d. case parse_int v of None \<Rightarrow> d | Some t \<Rightarrow> snd (add_tag_to_collection e c t d)) vs d)"
    "own_collections u d (fold (\<lambda>t. remove_tag_from_collection c (tr_id t)) ts d)
     \<and> owns_collection u c (fold (\<lambda>t. remove_tag_from_collection c (tr_id t)) ts d)"
proof -
  show "own_collections u d (fold (\<lambda>v d. case parse_int v of None \<Rightarrow> d | Some t \<Rightarrow> snd (add_tag_to_collection e c t d)) vs d)"
    using assms
  proof (induction vs arbitrary: d)
    case (Cons v vs)
    then show ?case
      by (cases "parse_int v") (auto intro: own_trans dest: own_tag_step(1) [where e = e])
  qed (simp add: own_refl)
  show "own_collections u d (fold (\<lambda>t. remove_tag_from_collection c (tr_id t)) ts d)
     \<and> owns_collection u c (fold (\<lambda>t. remove_tag_from_collection c (tr_id t)) ts d)"
    using assms
  proof (induction ts arbitrary: d)
    case (Cons t ts)
    from own_tag_step(2) [OF Cons.prems, of "tr_id t"] have "owns_collection u c (remove_tag_from_collection c (tr_id t) d)"
      "own_collections u d (remove_tag_from_collection c (tr_id t) d)" by simp_all
    with Cons.IH [OF this(1)] show ?case by (auto intro: own_trans)
  qed (simp add: own_refl)
qed


lemma own_rows:
  assumes "tbl_ok cs" "\<And>c r. cl_user_id r \<noteq> u \<Longrightarrow> tbl_get cs c = Some r \<longleftrightarrow> tbl_get (db_collections d) c = Some r"
    "\<And>c r t. cl_user_id r \<noteq> u \<Longrightarrow> tbl_get (db_collections d) c = Some r \<Longrightarrow> tag_in ts c t = tag_in (db_collection_tags d) c t"
  shows "own_collections u d (d\<lparr>db_collections := cs, db_collection_tags := ts\<rparr>)"
  unfolding own_collections_def using assms by blast

lemma created_collection:
  assumes "create_collection e u name desc d = (Inr c, d')" "tbl_ok (db_collections d)" "tbl_ok (db_collection_tags d)"
  shows "own_collections u d d' \<and> owns_collection u (cn_id c) d'"
proof -
  let ?r = "\<lparr>cl_user_id = u, cl_name = name, cl_description = desc, cl_created_at = dv_now e\<rparr>"
  obtain i cs where ins: "tbl_insert ?r (db_collections d) = (i, cs)" by (metis surj_pair)
  note get = tbl_insert_get [OF assms(2) ins]
  from assms(1) ins have d': "d' = d\<lparr>db_collections := cs\<rparr>" and "get_collection_by_id d' i u = Inr c"
    by (auto simp: create_collection_def split: if_splits)
  then have c: "cn_id c = i" by (auto simp: get_collection_by_id_def Let_def split: option.splits)
  have "tbl_get cs k = Some r \<longleftrightarrow> tbl_get (db_collections d) k = Some r" if "cl_user_id r \<noteq> u" for k r
    using that get(1,2) by auto
  then have "own_collections u d (d\<lparr>db_collections := cs, db_collection_tags := db_collection_tags d\<rparr>)"
    by (intro own_rows tbl_insert_ok [OF assms(2) ins]) simp_all
  moreover have "d\<lparr>db_collections := cs, db_collection_tags := db_collection_tags d\<rparr> = d'" by (simp add: d')
  ultimately show ?thesis using tbl_insert_ok [OF assms(2) ins] assms(3) get(1) [of i]
    by (simp add: owns_collection_def d' c)
qed

lemma create_collection_failed:
  assumes "create_collection e u name desc d = (Inl x, d')" "tbl_ok (db_collections d)"
  shows "d' = d"
proof (rule ccontr)
  assume changed: "d' \<noteq> d"
  let ?r = "\<lparr>cl_user_id = u, cl_name = name, cl_description = desc, cl_created_at = dv_now e\<rparr>"
  obtain i cs where ins: "tbl_insert ?r (db_collections d) = (i, cs)" by (metis surj_pair)
  with assms(1) changed have "tbl_find (\<lambda>k r. k = i \<and> cl_user_id r = u) cs = None"
    by (auto simp: create_collection_def get_collection_by_id_def Let_def split: if_splits option.splits)
  with tbl_find_None [OF tbl_insert_ok [OF assms(2) ins]] tbl_insert_get(1) [OF assms(2) ins, of i] show False by simp
qed

lemma own_update:
  assumes "owns_collection u c d" "update_collection c u name desc d = (Inr x, d')"
  shows "own_collections u d d' \<and> owns_collection u c d'"
proof -
  have ok: "tbl_ok (db_collections d)" "tbl_ok (db_collection_tags d)" using assms by (simp_all add: owns_collection_def)
  let ?cs = "tbl_update (\<lambda>k r. k = c \<and> cl_user_id r = u) (\<lambda>r. r\<lparr>cl_name := name, cl_description := desc\<rparr>) (db_collections d)"
  have d': "d' = d\<lparr>db_collections := ?cs\<rparr>" using assms(2) by (auto simp: update_collection_def Let_def split: if_splits)
  have "own_collections u d (d\<lparr>db_collections := ?cs, db_collection_tags := db_collection_tags d\<rparr>)"
    by (intro own_rows tbl_update_ok ok(1)) (auto simp: tbl_update_get)
  moreover have "d\<lparr>db_collections := ?cs, db_collection_tags := db_collection_tags d\<rparr> = d'" by (simp add: d')
  ultimately show ?thesis using assms(1) by (auto simp: owns_collection_def d' tbl_update_ok tbl_update_get)
qed

lemma own_delete:
  assumes "tbl_ok (db_collections d)"
  shows "own_collections u d (delete_collection e c u d)"
proof -
  let ?mine = "\<lambda>k r. k = c \<and> cl_user_id r = u"
  have rows: "tbl_get (tbl_delete ?mine (db_collections d)) k = Some r \<longleftrightarrow> tbl_get (db_collections d) k = Some r"
    if "cl_user_id r \<noteq> u" for k r
    using that by (auto simp: tbl_delete_get [OF assms] split: option.splits)
  have tags: "tag_in (tbl_delete (\<lambda>_ (c', t). c' = c) (db_collection_tags d)) k t = tag_in (db_collection_tags d) k t"
    if "k \<noteq> c" for k t
    using that by (force simp: tag_in_def tbl_delete_def)
  show ?thesis
  proof (cases "dv_fk e \<and> tbl_find ?mine (db_collections d) \<noteq> None")
    case True
    then obtain r where "tbl_get (db_collections d) c = Some r" "cl_user_id r = u"
      using tbl_find_Some [OF assms] by fastforce
    then have "own_collections u d (d\<lparr>db_collections := tbl_delete ?mine (db_collections d),
        db_collection_tags := tbl_delete (\<lambda>_ (c', t). c' = c) (db_collection_tags d)\<rparr>)"
      by (intro own_rows tbl_delete_ok assms rows tags) auto
    with True show ?thesis by (simp add: delete_collection_def Let_def)
  next
    case False
    have "own_collections u d (d\<lparr>db_collections := tbl_delete ?mine (db_collections d), db_collection_tags := db_collection_tags d\<rparr>)"
      by (intro own_rows tbl_delete_ok assms rows) auto
    moreover have "delete_collection e c u d
        = d\<lparr>db_collections := tbl_delete ?mine (db_collections d), db_collection_tags := db_collection_tags d\<rparr>"
      using False unfolding delete_collection_def Let_def by (simp only: if_False) simp
    ultimately show ?thesis by simp
  qed
qed

lemma collections_permitted:
  assumes "tbl_ok (db_collections (wb_db w))" "tbl_ok (db_collection_tags (wb_db w))"
  shows "permitted user w (snd (create_collection_submit e r user w))"
    "permitted user w (snd (edit_collection_submit e r user w))"
    "permitted user w (snd (delete_collection_submit e r user w))"
proof -
  let ?d = "wb_db w"
  have failed: "d' = ?d" if "create_collection e u name desc ?d = (Inl x, d')" for u name desc x d'
    using create_collection_failed [OF that assms(1)] .
  have failed': "d' = ?d" if "update_collection c u name desc ?d = (Inl x, d')" for c u name desc x d'
    using that by (auto simp: update_collection_def Let_def split: if_splits)
  have new: "allowed (Some u) ?d (add_chosen_tags e r (cn_id c) d')"
    if "create_collection e (ur_id u) name desc ?d = (Inr c, d')" for u name desc c d'
    using created_collection [OF that assms] own_folds(1) unfolding add_chosen_tags_def by (intro Own) (blast intro: own_trans)
  have edit: "allowed (Some u) ?d (add_chosen_tags e r c (fold (\<lambda>t. remove_tag_from_collection c (tr_id t)) ts d'))"
    if "update_collection c (ur_id u) name desc ?d = (Inr x, d')" "get_collection_by_id ?d c (ur_id u) = Inr col" for u name desc c d' ts x col
  proof -
    have "owns_collection (ur_id u) c ?d"
      using that(2) tbl_find_Some [OF assms(1)] assms by (fastforce simp: owns_collection_def get_collection_by_id_def split: option.splits)
    from own_update [OF this that(1)] own_folds show ?thesis
      unfolding add_chosen_tags_def by (intro Own) (blast intro: own_trans)
  qed
  show "permitted user w (snd (create_collection_submit e r user w))"
    unfolding create_collection_submit_def guards Let_def
    by (auto split: option.split sum.split prod.split intro!: permitted_rules dest: failed new simp: Nothing)
  show "permitted user w (snd (edit_collection_submit e r user w))"
    unfolding edit_collection_submit_def guards Let_def
    by (auto split: option.split sum.split prod.split intro!: permitted_rules dest: failed' edit simp: Nothing)
  show "permitted user w (snd (delete_collection_submit e r user w))"
    unfolding delete_collection_submit_def guards
    by (auto split: option.split intro!: permitted_rules Own own_delete assms(1))
qed

lemma admin_permitted:
  assumes "tbl_ok (db_collections (wb_db w))" "tbl_ok (db_collection_tags (wb_db w))"
  shows "permitted user w (admin_request err_text poller e s r user w)"
  using bans_permitted hats_permitted tags_permitted feeds_permitted collections_permitted [OF assms] permitted_same
  by (cases "admin_route r") (simp_all add: admin_request_def)

text \<open>
  C6. Whatever the request, its method, its fields and the user it is made by, a request to the pages of
  administrators, tags, feeds and collections changes the database in one of the ways the rights allow
  that user, apart from the entries in the logs; without a login it changes nothing.
\<close>

theorem admin_requests_permitted:
  assumes "tbl_ok (db_collections (wb_db w))" "tbl_ok (db_collection_tags (wb_db w))"
  shows "permitted user w (admin_request err_text poller e s r user w)"
  using assms by (rule admin_permitted)



subsection \<open>What follows for accounts, collections and votes\<close>

text \<open>The tables no poll of a feed touches.\<close>

definition outside_feeds :: "db \<Rightarrow> user_row tbl \<times> hat_row tbl \<times> tag_row tbl \<times> tag_admin_row tbl \<times>
    comment_row tbl \<times> vote_row tbl \<times> collection_row tbl \<times> (int \<times> int) tbl" where
  "outside_feeds d = (db_users d, db_hats d, db_tags d, db_tag_admins d, db_comments d, db_votes d,
     db_collections d, db_collection_tags d)"

lemma outside_create_post:
  "outside_feeds (snd (create_post_full e u title url body tags src sid hat pub d)) = outside_feeds d"
proof -
  have tags: "outside_feeds (snd (add_post_tags e i ts d)) = outside_feeds d" for i ts d
    by (induction e i ts d rule: add_post_tags.induct) (simp_all add: outside_feeds_def)
  have "outside_feeds d' = outside_feeds d" if "add_post_tags e i tags (d\<lparr>db_posts := t\<rparr>) = (res, d')" for i t res d'
    using tags [of i tags "d\<lparr>db_posts := t\<rparr>"] that by (simp add: outside_feeds_def)
  then show ?thesis by (auto simp: create_post_full_def Let_def split: prod.split sum.split)
qed

lemma outside_import: "outside_feeds (snd (import_items pe u feed items n d)) = outside_feeds d"
proof (induction items arbitrary: n d)
  case (Cons i items)
  obtain res d1 where c: "create_post_full (pe_db pe) u (item_post_title pe i) (fi_link i) (item_post_body pe i)
      [rf_tag_id feed] ''rss'' (Some (rf_id feed)) None (fi_published_at i) d = (res, d1)" by (metis surj_pair)
  then have "outside_feeds d1 = outside_feeds d" by (metis outside_create_post snd_conv)
  moreover have "outside_feeds (snd (create_rss_item e f g k d')) = outside_feeds d'" for e f g k d'
    by (simp add: create_rss_item_def outside_feeds_def)
  ultimately show ?case using c Cons by (cases res) (simp_all add: Let_def)
qed simp

lemma outside_poll: "outside_feeds (snd (poll_feed_now pe u i d)) = outside_feeds d"
proof -
  have log: "outside_feeds (snd (log_rss_poll e f ok st a b msg ms d)) = outside_feeds d" for e f ok st a b msg ms d
    by (simp add: log_rss_poll_def outside_feeds_def)
  have set: "outside_feeds (set_feed j g d) = outside_feeds d" for j g d by (simp add: set_feed_def outside_feeds_def)
  have poll: "outside_feeds (snd (poll_feed pe u f d)) = outside_feeds d" for f
    using outside_import [of pe u f _ 0 d]
    by (simp add: poll_feed_def Let_def log split: fetch.split sum.split prod.split) (metis snd_conv)
  have "outside_feeds (snd (poll_and_mark pe u f d)) = outside_feeds d" for f
  proof -
    obtain err d1 where p: "poll_feed pe u f d = (err, d1)" by (metis surj_pair)
    with poll [of f] show ?thesis
      by (simp add: poll_and_mark_def update_feed_error_def update_feed_polled_def set split: option.split)
  qed
  then show ?thesis by (simp add: poll_feed_now_def split: sum.split)
qed

lemma outside_rest:
  "outside_feeds (delete_feeds e P d) = outside_feeds d"
  "outside_feeds (set_feed i g d) = outside_feeds d"
  "outside_feeds (snd (create_rss_feed_with_options e opts d)) = outside_feeds d"
  by (simp_all add: delete_feeds_def set_feed_def create_rss_feed_with_options_def outside_feeds_def Let_def
      split: sum.split prod.split)

lemmas outside_simps = outside_poll outside_rest delete_rss_feed_def

lemma set_user_changed:
  assumes "tbl_get (db_users (set_user j f d)) i \<noteq> tbl_get (db_users d) i"
  shows "i = j \<and> (\<exists>r. tbl_get (db_users d) i = Some r \<and> tbl_get (db_users (set_user j f d)) i = Some (f r))"
  using assms by (cases "i = j"; cases "tbl_get (db_users d) i") (simp_all add: set_user_def tbl_update_get)

lemma admin_requestE:
  assumes "tbl_ok (db_collections (wb_db w))" "tbl_ok (db_collection_tags (wb_db w))"
  obtains d where "allowed user (wb_db w) d" "logged d (wb_db (admin_request err_text poller e s r user w))"
  using admin_permitted [OF assms, of user err_text poller e s r] unfolding permitted_def by blast

text \<open>Accounts: the users after a request.\<close>

lemma allowed_users:
  assumes "allowed user d d'" "tbl_get (db_users d') i \<noteq> tbl_get (db_users d) i"
  shows "\<exists>u r r'. user = Some u \<and> tbl_get (db_users d) i = Some r \<and> tbl_get (db_users d') i = Some r'
    \<and> ((\<exists>why x. i \<noteq> ur_id u \<and> (ur_is_admin u \<or> is_invited_by d i (ur_id u))
         \<and> r' = r\<lparr>us_is_banned := True, us_ban_reason := why, us_ban_expires_at := x, us_banned_by := Some (ur_id u)\<rparr>)
       \<or> (ur_is_admin u \<and> r' = clear_ban r))"
proof -
  have users: "db_users a = db_users b" if "outside_feeds a = outside_feeds b" for a b
    using that by (simp add: outside_feeds_def)
  have tag: "db_users (delete_tag e t d) = db_users d" "db_users (snd (add_tag_admin e t v by d)) = db_users d"
    "db_users (delete_rss_feed e t d) = db_users d" for e t d v "by"
    by (simp_all add: delete_rss_feed_def delete_tag_def Let_def delete_feeds_def add_tag_admin_def)
  show ?thesis using assms
  proof (induction rule: allowed.induct)
    case (Ban j u d why x)
    from set_user_changed [OF Ban.prems] Ban.hyps show ?case by auto
  next
    case (Unban u d j)
    from set_user_changed [OF Unban.prems] Unban.hyps show ?case by auto
  next
    case (Own u d d')
    then show ?case by (auto simp: own_collections_def)
  next
    case (Sync d u i pe owner)
    then show ?case using users [OF outside_poll] by simp
  next
    case (Drop_tag d t u tg e)
    then show ?case by (simp add: tag)
  next
    case (Drop_feed d u t e)
    then show ?case by (simp add: tag)
  next
    case (Add_admin d t u e v)
    then show ?case by (simp add: tag)
  next
    case (New_feed d u opts e)
    then show ?case using users [OF outside_rest(3)] by simp
  qed (simp_all add: update_tag_description_def add_tag_admin_def remove_tag_admin_def set_feed_def delete_rss_feed_def
      Let_def)
qed

text \<open>
  C8. An account's row changes only in two ways: a ban, of somebody else, by an administrator or by the
  user who invited the account, which is recorded with the one who banned; or the end of a ban, by an
  administrator.  No request to these pages makes anyone an administrator or changes a name, an address
  or an inviter.
\<close>

theorem ban_authority:
  assumes "tbl_ok (db_collections (wb_db w))" "tbl_ok (db_collection_tags (wb_db w))"
    "tbl_get (db_users (wb_db (admin_request err_text poller e s r user w))) i \<noteq> tbl_get (db_users (wb_db w)) i"
  shows "\<exists>u old new. user = Some u \<and> tbl_get (db_users (wb_db w)) i = Some old
    \<and> tbl_get (db_users (wb_db (admin_request err_text poller e s r user w))) i = Some new
    \<and> ((\<exists>why x. i \<noteq> ur_id u \<and> (ur_is_admin u \<or> is_invited_by (wb_db w) i (ur_id u))
         \<and> new = old\<lparr>us_is_banned := True, us_ban_reason := why, us_ban_expires_at := x,
             us_banned_by := Some (ur_id u)\<rparr>)
       \<or> (ur_is_admin u \<and> new = clear_ban old))"
proof -
  obtain d where d: "allowed user (wb_db w) d" "logged d (wb_db (admin_request err_text poller e s r user w))"
    using admin_requestE [OF assms(1,2)] .
  then have "db_users (wb_db (admin_request err_text poller e s r user w)) = db_users d" by (auto simp: logged_def)
  with allowed_users [OF d(1), of i] assms(3) show ?thesis by simp
qed

lemma allowed_collections:
  assumes "allowed user d d'" "\<And>u. user = Some u \<Longrightarrow> cl_user_id row \<noteq> ur_id u"
  shows "(tbl_get (db_collections d') c = Some row \<longleftrightarrow> tbl_get (db_collections d) c = Some row)
    \<and> (tbl_get (db_collections d) c = Some row \<longrightarrow> tag_in (db_collection_tags d') c t = tag_in (db_collection_tags d) c t)"
proof -
  have same: "db_collections a = db_collections b \<and> db_collection_tags a = db_collection_tags b"
    if "outside_feeds a = outside_feeds b" for a b
    using that by (simp add: outside_feeds_def)
  show ?thesis using assms
  proof (induction rule: allowed.induct)
    case (Own u d d')
    then show ?case unfolding own_collections_def by fastforce
  next
    case (Sync d u i pe owner)
    then show ?case using same [OF outside_poll] by simp
  next
    case (New_feed d u opts e)
    then show ?case using same [OF outside_rest(3)] by simp
  qed (simp_all add: update_tag_description_def add_tag_admin_def remove_tag_admin_def set_feed_def delete_rss_feed_def
      delete_feeds_def delete_tag_def set_user_def Let_def)
qed

text \<open>
  C9. The collections of others are out of reach: whatever the request, the collection of another user
  neither changes nor disappears, none appears under another user's name, and its tags stay the same.
\<close>

theorem collections_private:
  assumes "tbl_ok (db_collections (wb_db w))" "tbl_ok (db_collection_tags (wb_db w))"
    "\<And>u. user = Some u \<Longrightarrow> cl_user_id row \<noteq> ur_id u"
  shows "(tbl_get (db_collections (wb_db (admin_request err_text poller e s r user w))) c = Some row
       \<longleftrightarrow> tbl_get (db_collections (wb_db w)) c = Some row)
    \<and> (tbl_get (db_collections (wb_db w)) c = Some row \<longrightarrow>
       tag_in (db_collection_tags (wb_db (admin_request err_text poller e s r user w))) c t
         = tag_in (db_collection_tags (wb_db w)) c t)"
proof -
  obtain d where d: "allowed user (wb_db w) d" "logged d (wb_db (admin_request err_text poller e s r user w))"
    using admin_requestE [OF assms(1,2)] .
  then have "db_collections (wb_db (admin_request err_text poller e s r user w)) = db_collections d"
    "db_collection_tags (wb_db (admin_request err_text poller e s r user w)) = db_collection_tags d" by (auto simp: logged_def)
  with allowed_collections [OF d(1) assms(3)] show ?thesis by simp
qed

subsection \<open>Examples\<close>

definition tags_board :: web where
  "tags_board = \<lparr>wb_db = empty_db\<lparr>db_users := (2, [(1, plain_user ''a''), (2, plain_user ''b'')]),
     db_tags := (2, [(1, plain_tag ''go''), (2, plain_tag ''go::web'')]),
     db_collections := (1, [(1, \<lparr>cl_user_id = 2, cl_name = ''mine'', cl_description = [], cl_created_at = 0\<rparr>)]),
     db_collection_tags := (1, [(1, (1, 1))])\<rparr>, wb_cache = [], wb_mails = []\<rparr>"

lemma tags_board_ok: "tbl_ok (db_collections (wb_db tags_board))" "tbl_ok (db_collection_tags (wb_db tags_board))"
  by (simp_all add: tags_board_def tbl_ok_def)

text \<open>A user without rights and one without a login cannot make a tag: the tables stay as they are.\<close>

lemma admin_requests_permitted_witness:
  "permitted None tags_board (admin_request (\<lambda>_. []) None now0 site0
     (request0\<lparr>rq_path := ''/tags/new'', rq_post := True, rq_form := Some [(''name'', ''rust'')]\<rparr>) None tags_board)"
  by (rule admin_requests_permitted [OF tags_board_ok])

text \<open>An administrator bans a user for a day.\<close>

definition ban_request :: web_request where
  "ban_request = request0\<lparr>rq_path := ''/admin/ban'', rq_post := True, rq_query := [(''username'', ''b'')],
     rq_form := Some [(''reason'', ''spam''), (''duration'', ''1'')]\<rparr>"

lemma ban_authority_witness:
  "\<exists>new. tbl_get (db_users (wb_db (admin_request (\<lambda>_. []) None now0 site0 ban_request (Some (visitor 1 True)) tags_board))) 2 = Some new
     \<and> us_is_banned new \<and> us_banned_by new = Some 1"
proof -
  let ?w = "admin_request (\<lambda>_. []) None now0 site0 ban_request (Some (visitor 1 True)) tags_board"
  have "map_option us_is_banned (tbl_get (db_users (wb_db ?w)) 2) = Some True" by code_simp
  moreover have "map_option us_is_banned (tbl_get (db_users (wb_db tags_board)) 2) = Some False" by code_simp
  ultimately have "tbl_get (db_users (wb_db ?w)) 2 \<noteq> tbl_get (db_users (wb_db tags_board)) 2"
    and banned: "map_option us_is_banned (tbl_get (db_users (wb_db ?w)) 2) = Some True" by (auto simp del: map_option_eq_Some)
  from ban_authority [OF tags_board_ok this(1)] banned show ?thesis
    by (auto simp: clear_ban_def visitor_def)
qed

text \<open>The first user tries to delete the collection of the second.\<close>

lemma collections_private_witness:
  "map_option cl_name (tbl_get (db_collections (wb_db (admin_request (\<lambda>_. []) None now0 site0
     (request0\<lparr>rq_path := ''/collections/delete'', rq_query := [(''id'', ''1'')]\<rparr>) (Some (visitor 1 True)) tags_board))) 1) = Some ''mine''"
proof -
  let ?row = "\<lparr>cl_user_id = 2, cl_name = ''mine'', cl_description = [], cl_created_at = 0\<rparr>"
  have "tbl_get (db_collections (wb_db tags_board)) 1 = Some ?row" by (simp add: tags_board_def tbl_get_def)
  moreover have "cl_user_id ?row \<noteq> ur_id u" if "Some (visitor 1 True) = Some u" for u using that by (auto simp: visitor_def)
  note collections_private [OF tags_board_ok, where user = "Some (visitor 1 True)" and row = ?row and c = 1
    and err_text = "\<lambda>_. []" and poller = None and e = now0 and s = site0
    and r = "request0\<lparr>rq_path := ''/collections/delete'', rq_query := [(''id'', ''1'')]\<rparr>", OF this]
  ultimately show ?thesis by simp
qed

end
