(* ===== verification/Irc.thy ===== *)
theory Irc
  imports Wire "HOL-Library.Sublist"
begin

text \<open>
  The IRC connection that the bots share (\<^verbatim>\<open>ops/pkgs/syswatch/main.go\<close>; the other bots have copies of it).  A
  connection is the text the server sends until reading fails; \<open>bt_sent\<close> has the lines the bot has written, on
  this and on earlier connections, each of which goes out with CR and LF; a write that fails is not counted.  The reader of the handshake is dropped with what it has
  buffered, so \<open>serve\<close> begins behind that.  The locale \<open>poster\<close> is the contract the checks rely on.
\<close>

subsection \<open>The connection\<close>

record bot =
  bt_nick :: string
  bt_channel :: string
  bt_realname :: string
  bt_joined :: bool
  bt_sent :: "string list"

definition set_joined :: "bool \<Rightarrow> bot \<Rightarrow> bot" where
  "set_joined joined b = b\<lparr>bt_joined := joined\<rparr>"

definition irc_write :: "string \<Rightarrow> bot \<Rightarrow> bot" where
  "irc_write line b = b\<lparr>bt_sent := bt_sent b @ [line]\<rparr>"

definition one_line :: "string \<Rightarrow> string" where
  "one_line s = filter (\<lambda>c. c \<noteq> CR \<and> c \<noteq> LF) s"

definition privmsg_line :: "bot \<Rightarrow> string \<Rightarrow> string" where
  "privmsg_line b s = ''PRIVMSG '' @ bt_channel b @ '' :'' @ one_line s"

definition pong_line :: "string \<Rightarrow> string" where
  "pong_line line = ''PONG '' @ trim_prefix line ''PING ''"

definition join_line :: "bot \<Rightarrow> string" where
  "join_line b = ''JOIN '' @ bt_channel b"

text \<open>Whether the connection takes the bytes is up to the network.\<close>

definition irc_privmsg :: "bool \<Rightarrow> string \<Rightarrow> bot \<Rightarrow> bool \<times> bot" where
  "irc_privmsg taken s b =
     (if \<not> bt_joined b then (False, b)
      else if \<not> taken then (False, set_joined False b)
      else (True, irc_write (privmsg_line b s) b))"

datatype irc_result = Dial_failed | Read_failed | Refused string | Joined

definition refusals :: string where
  "refusals = '' 403 471 473 474 475 ''"

text \<open>One turn of the handshake: the bot and, when it is over, how it ended.\<close>

definition handshake_line :: "string \<Rightarrow> bot \<Rightarrow> irc_result option \<times> bot" where
  "handshake_line raw b =
     (let line = trim_eol raw; fields = str_fields line in
      if fields = [] then (None, b)
      else if fields ! 0 = ''PING'' then (None, irc_write (pong_line line) b)
      else if length fields > 1 \<and> fields ! 1 = ''001'' then (None, irc_write (join_line b) b)
      else if length fields > 1 \<and> fields ! 1 = ''366'' then (Some Joined, set_joined True b)
      else if length fields > 1 \<and> contains refusals ('' '' @ fields ! 1 @ '' '') then (Some (Refused line), b)
      else (None, b))"

text \<open>The loop, on the bytes the server sends; what follows the handshake is left.\<close>

function register :: "bot \<Rightarrow> string \<Rightarrow> irc_result \<times> bot \<times> string" where
  "register b inp =
     (case read_string inp of
        None \<Rightarrow> (Read_failed, b, [])
      | Some (raw, rest) \<Rightarrow> (case handshake_line raw b of
          (None, b) \<Rightarrow> register b rest
        | (Some r, b) \<Rightarrow> (r, b, rest)))"
  by pat_completeness auto
termination by (relation "measure (length \<circ> snd)") (auto dest: read_string_length)

declare register.simps [simp del]

definition connect :: "string option \<Rightarrow> bot \<Rightarrow> irc_result \<times> bot \<times> string" where
  "connect dial b =
     (case dial of
        None \<Rightarrow> (Dial_failed, b, [])
      | Some inp \<Rightarrow> register (irc_write (''USER '' @ bt_nick b @ '' 0 * :'' @ bt_realname b)
          (irc_write (''NICK '' @ bt_nick b) (set_joined False b))) inp)"

text \<open>One turn of the loop that reads for ever.\<close>

definition serve_line :: "string \<Rightarrow> bot \<Rightarrow> bot" where
  "serve_line raw b =
     (let line = trim_eol raw; fields = str_fields line in
      if fields = [] then b
      else if fields ! 0 = ''PING'' then irc_write (pong_line line) b
      else if length fields > 3 \<and> fields ! 1 = ''KICK'' \<and> fields ! 3 = bt_nick b then irc_write (join_line b) b
      else b)"

function serve_irc :: "string \<Rightarrow> bot \<Rightarrow> bot" where
  "serve_irc inp b =
     (case read_string inp of
        None \<Rightarrow> set_joined False b
      | Some (raw, rest) \<Rightarrow> serve_irc rest (serve_line raw b))"
  by pat_completeness auto
termination by (relation "measure (length \<circ> fst)") (auto dest: read_string_length)

declare serve_irc.simps [simp del]

text \<open>
  \<^verbatim>\<open>runForever\<close>, given what each dial leads to and how many bytes of it the reader of the handshake has
  buffered beyond the end of the handshake.
\<close>

fun run_forever :: "(string option \<times> nat) list \<Rightarrow> bot \<Rightarrow> bot" where
  "run_forever [] b = b"
| "run_forever ((dial, buffered) # ds) b =
     (case connect dial b of
        (Joined, b, rest) \<Rightarrow> run_forever ds (serve_irc (drop buffered rest) b)
      | (_, b, _) \<Rightarrow> run_forever ds b)"

text \<open>The one-shot mode: all messages after one another, or the first failure.\<close>

fun say_all :: "(bool \<times> string) list \<Rightarrow> bot \<Rightarrow> bool \<times> bot" where
  "say_all [] b = (True, irc_write ''QUIT :report delivered'' b)"
| "say_all ((taken, s) # ms) b =
     (case irc_privmsg taken s b of (True, b) \<Rightarrow> say_all ms b | (False, b) \<Rightarrow> (False, b))"

text \<open>
  What the goroutine of the connection does between two messages: it gets a line, loses the connection or
  dials again.
\<close>

datatype conn_event = Got string | Lost | Redial "string option"

fun conn_step :: "conn_event \<Rightarrow> bot \<Rightarrow> bot" where
  "conn_step (Got raw) b = serve_line raw b"
| "conn_step Lost b = set_joined False b"
| "conn_step (Redial dial) b = fst (snd (connect dial b))"

text \<open>
  A bot in its surroundings: for each message to come, what happens to the connection before it and
  whether the write succeeds.
\<close>

type_synonym live_bot = "(conn_event list \<times> bool) list \<times> bot"

fun live_say :: "string \<Rightarrow> live_bot \<Rightarrow> bool \<times> live_bot" where
  "live_say s ([], b) = (case irc_privmsg True s b of (r, b) \<Rightarrow> (r, [], b))"
| "live_say s ((evs, taken) # ts, b) = (case irc_privmsg taken s (fold conn_step evs b) of (r, b) \<Rightarrow> (r, ts, b))"

text \<open>\<^verbatim>\<open>nullPoster\<close> prints the message.\<close>

definition null_say :: "string \<Rightarrow> string list \<Rightarrow> bool \<times> string list" where
  "null_say s out = (True, out @ [''POST: '' @ s])"

subsection \<open>What goes over the wire\<close>

definition wire :: "bot \<Rightarrow> string" where
  "wire b = concat (map (\<lambda>l. l @ CRLF) (bt_sent b))"

definition names_ok :: "bot \<Rightarrow> bool" where
  "names_ok b \<longleftrightarrow> LF \<notin> set (bt_nick b) \<and> LF \<notin> set (bt_channel b) \<and> LF \<notin> set (bt_realname b)"

definition lines_ok :: "bot \<Rightarrow> bool" where
  "lines_ok b \<longleftrightarrow> names_ok b \<and> (\<forall>l\<in>set (bt_sent b). LF \<notin> set l)"

lemma one_line_clean: "LF \<notin> set (one_line s)" "CR \<notin> set (one_line s)"
  by (simp_all add: one_line_def)

lemma trim_prefix_set: "c \<in> set (trim_prefix s p) \<Longrightarrow> c \<in> set s"
  by (auto simp: trim_prefix_def dest: in_set_dropD split: if_splits)

lemma read_line_clean: "read_string inp = Some (raw, rest) \<Longrightarrow> LF \<notin> set (trim_eol raw)"
  using read_string_Some [of inp raw rest] trim_eol_no_LF by blast

lemma lines_write: "lines_ok b \<Longrightarrow> LF \<notin> set l \<Longrightarrow> lines_ok (irc_write l b)"
  by (auto simp: lines_ok_def names_ok_def irc_write_def)

lemma lines_joined [simp]: "lines_ok (set_joined j b) = lines_ok b"
  by (simp add: lines_ok_def names_ok_def set_joined_def)

lemma lines_pong: "lines_ok b \<Longrightarrow> LF \<notin> set l \<Longrightarrow> lines_ok (irc_write (pong_line l) b)"
  by (rule lines_write) (auto simp: pong_line_def dest: trim_prefix_set)

lemma lines_join: "lines_ok b \<Longrightarrow> lines_ok (irc_write (join_line b) b)"
  by (rule lines_write) (auto simp: lines_ok_def names_ok_def join_line_def)

lemma lines_say: "lines_ok b \<Longrightarrow> lines_ok (irc_write (privmsg_line b s) b)"
  by (rule lines_write) (auto simp: lines_ok_def names_ok_def privmsg_line_def one_line_clean)

lemma lines_privmsg: "lines_ok b \<Longrightarrow> irc_privmsg taken s b = (r, b') \<Longrightarrow> lines_ok b'"
  by (auto simp: irc_privmsg_def lines_say split: if_splits)

lemma lines_handshake: "lines_ok b \<Longrightarrow> LF \<notin> set (trim_eol raw) \<Longrightarrow> handshake_line raw b = (r, b') \<Longrightarrow> lines_ok b'"
  by (auto simp: handshake_line_def Let_def lines_pong lines_join split: if_splits)

lemma lines_register: "lines_ok b \<Longrightarrow> register b inp = (r, b', rest) \<Longrightarrow> lines_ok b'"
proof (induction b inp arbitrary: r b' rest rule: register.induct)
  case (1 b inp)
  show ?case
  proof (cases "read_string inp")
    case (Some p)
    then obtain raw more where p: "read_string inp = Some (raw, more)" by (cases p) auto
    obtain e b1 where h: "handshake_line raw b = (e, b1)" by (metis surj_pair)
    have ok: "lines_ok b1" using lines_handshake [OF "1.prems"(1) read_line_clean [OF p] h] .
    show ?thesis
    proof (cases e)
      case None
      with "1.prems"(2) p h have "register b1 more = (r, b', rest)" by (subst (asm) register.simps) simp
      from "1.IH" [OF p refl h [symmetric, unfolded None] refl ok this] show ?thesis .
    next
      case (Some r')
      with "1.prems"(2) p h ok show ?thesis by (subst (asm) register.simps) simp
    qed
  next
    case None
    with "1.prems" show ?thesis by (simp add: register.simps)
  qed
qed

lemma lines_connect: "connect dial b = (r, b', rest) \<Longrightarrow> lines_ok b \<Longrightarrow> lines_ok b'"
proof (cases dial)
  case (Some inp)
  assume "lines_ok b" "connect dial b = (r, b', rest)"
  then have "register (irc_write (''USER '' @ bt_nick b @ '' 0 * :'' @ bt_realname b)
      (irc_write (''NICK '' @ bt_nick b) (set_joined False b))) inp = (r, b', rest)"
    and "lines_ok (irc_write (''USER '' @ bt_nick b @ '' 0 * :'' @ bt_realname b)
      (irc_write (''NICK '' @ bt_nick b) (set_joined False b)))"
    by (auto simp: Some connect_def lines_ok_def names_ok_def irc_write_def set_joined_def)
  from lines_register [OF this(2,1)] show ?thesis .
qed (auto simp: connect_def)

lemma lines_event: "lines_ok b \<Longrightarrow> (\<And>raw. ev = Got raw \<Longrightarrow> LF \<notin> set (trim_eol raw)) \<Longrightarrow> lines_ok (conn_step ev b)"
proof (cases ev)
  case (Redial dial)
  assume "lines_ok b"
  moreover obtain r b' rest where "connect dial b = (r, b', rest)" by (metis surj_pair)
  ultimately show ?thesis using lines_connect [of dial b r b' rest] Redial by simp
qed (auto simp: serve_line_def Let_def lines_pong lines_join)

lemma lines_events:
  "lines_ok b \<Longrightarrow> \<forall>raw. Got raw \<in> set evs \<longrightarrow> LF \<notin> set (trim_eol raw) \<Longrightarrow> lines_ok (fold conn_step evs b)"
proof (induction evs arbitrary: b)
  case (Cons ev evs)
  then have "lines_ok (conn_step ev b)" by (intro lines_event) auto
  with Cons show ?case by simp
qed simp

lemma wire_lines: "\<forall>l\<in>set ls. LF \<notin> set l \<Longrightarrow>
    split_on LF (concat (map (\<lambda>l. l @ CRLF) ls)) = map (\<lambda>l. l @ [CR]) ls @ [[]]"
proof (induction ls)
  case (Cons l ls)
  then show ?case using split_on_app [of LF "l @ [CR]" "concat (map (\<lambda>l. l @ CRLF) ls)"] by simp
qed simp

subsection \<open>The contract of a poster\<close>

text \<open>
  What a check may rely on: a message is posted, or it is not and the caller is told.  \<open>posted\<close> is what
  has been posted so far, \<open>shown\<close> what is made of a message.
\<close>

locale poster =
  fixes say :: "string \<Rightarrow> 'p \<Rightarrow> bool \<times> 'p"
    and posted :: "'p \<Rightarrow> string list"
    and fine :: "'p \<Rightarrow> bool"
    and shown :: "string \<Rightarrow> string"
  assumes say_law: "fine p \<Longrightarrow> say s p = (r, p') \<Longrightarrow> fine p' \<and> posted p' = posted p @ (if r then [shown s] else [])"
begin

lemma tell_all:
  "fine p \<Longrightarrow> \<exists>ms'. subseq ms' ms \<and> posted (fold (\<lambda>s p. snd (say s p)) ms p) = posted p @ map shown ms'
     \<and> fine (fold (\<lambda>s p. snd (say s p)) ms p)"
proof (induction ms arbitrary: p)
  case (Cons s ms)
  obtain r p' where say: "say s p = (r, p')" by (metis surj_pair)
  note law = say_law [OF Cons.prems say]
  with Cons.IH [of p'] obtain ms' where "subseq ms' ms"
    "posted (fold (\<lambda>s p. snd (say s p)) ms p') = posted p' @ map shown ms'"
    "fine (fold (\<lambda>s p. snd (say s p)) ms p')" by blast
  with law say show ?case
    by (cases r) (auto intro!: exI [of _ "if r then s # ms' else ms'"])
qed simp

end

definition live_posted :: "live_bot \<Rightarrow> string list" where
  "live_posted p = filter (\<lambda>l. has_prefix l ''PRIVMSG '') (bt_sent (snd p))"

definition live_ok :: "string \<Rightarrow> live_bot \<Rightarrow> bool" where
  "live_ok chan p \<longleftrightarrow> bt_channel (snd p) = chan"

definition channel_line :: "string \<Rightarrow> string \<Rightarrow> string" where
  "channel_line chan s = ''PRIVMSG '' @ chan @ '' :'' @ one_line s"

lemma write_posted [simp]:
  "live_posted (ts, irc_write (pong_line l) b) = live_posted (ts, b)"
  "live_posted (ts, irc_write (join_line b') b) = live_posted (ts, b)"
  "live_posted (ts, set_joined j b) = live_posted (ts, b)"
  by (simp_all add: live_posted_def irc_write_def pong_line_def join_line_def set_joined_def)

lemma write_channel [simp]:
  "bt_channel (irc_write l b) = bt_channel b" "bt_channel (set_joined j b) = bt_channel b"
  by (simp_all add: irc_write_def set_joined_def)

lemma handshake_posted:
  "handshake_line raw b = (e, b') \<Longrightarrow> live_posted (ts, b') = live_posted (ts, b) \<and> bt_channel b' = bt_channel b"
  by (auto simp: handshake_line_def Let_def split: if_splits)

lemma register_posted:
  "register b inp = (r, b', rest) \<Longrightarrow> live_posted (ts, b') = live_posted (ts, b) \<and> bt_channel b' = bt_channel b"
proof (induction b inp arbitrary: r b' rest rule: register.induct)
  case (1 b inp)
  show ?case
  proof (cases "read_string inp")
    case (Some p)
    then obtain raw more where p: "read_string inp = Some (raw, more)" by (cases p) auto
    obtain e b1 where h: "handshake_line raw b = (e, b1)" by (metis surj_pair)
    note same = handshake_posted [OF h, of ts]
    show ?thesis
    proof (cases e)
      case None
      with "1.prems" p h have "register b1 more = (r, b', rest)" by (subst (asm) register.simps) simp
      from "1.IH" [OF p refl h [symmetric, unfolded None] refl this] same show ?thesis by simp
    next
      case (Some r')
      with "1.prems" p h same show ?thesis by (subst (asm) register.simps) simp
    qed
  next
    case None
    with "1.prems" show ?thesis by (simp add: register.simps)
  qed
qed

lemma event_posted: "live_posted (ts, conn_step ev b) = live_posted (ts, b) \<and> bt_channel (conn_step ev b) = bt_channel b"
proof (cases ev)
  case (Redial dial)
  show ?thesis
  proof (cases dial)
    case (Some inp)
    obtain r b' rest where c: "connect dial b = (r, b', rest)" by (metis surj_pair)
    from register_posted [OF this [unfolded connect_def Some option.case], of ts]
    show ?thesis by (simp add: Redial c) (simp add: live_posted_def irc_write_def set_joined_def)
  qed (simp add: Redial connect_def)
qed (simp_all add: serve_line_def Let_def)

lemma events_posted:
  "live_posted (ts, fold conn_step evs b) = live_posted (ts, b) \<and> bt_channel (fold conn_step evs b) = bt_channel b"
  by (induction evs arbitrary: b) (simp_all add: event_posted)

lemma live_poster: "poster live_say live_posted (live_ok chan) (channel_line chan)"
proof
  fix p s r p'
  assume ok: "live_ok chan p" "live_say s p = (r, p')"
  obtain ts b where p: "p = (ts, b)" by (metis surj_pair)
  have say: "bt_channel b1 = bt_channel b0 \<and> live_posted (us, b1) = live_posted (us, b0) @ (if r then [channel_line (bt_channel b0) s] else [])"
    if "irc_privmsg taken s b0 = (r, b1)" for taken b0 b1 us
    using that by (auto simp: irc_privmsg_def channel_line_def privmsg_line_def split: if_splits)
      (simp_all add: live_posted_def irc_write_def)
  have any: "live_posted (us, b0) = live_posted (vs, b0)" for us vs b0 by (simp add: live_posted_def)
  show "live_ok chan p' \<and> live_posted p' = live_posted p @ (if r then [channel_line chan s] else [])"
  proof (cases ts)
    case Nil
    with ok(2) p obtain b1 where "irc_privmsg True s b = (r, b1)" "p' = ([], b1)" by (auto split: prod.splits)
    with say [OF this(1)] ok(1) p Nil show ?thesis by (simp add: live_ok_def)
  next
    case (Cons t us)
    obtain evs taken where t: "t = (evs, taken)" by (metis surj_pair)
    with ok(2) p Cons obtain b1 where "irc_privmsg taken s (fold conn_step evs b) = (r, b1)" "p' = (us, b1)"
      by (auto split: prod.splits)
    with say [OF this(1)] events_posted [of us evs b] any [of us b ts] ok(1) p show ?thesis by (simp add: live_ok_def)
  qed
qed

interpretation live: poster live_say live_posted "live_ok chan" "channel_line chan" for chan
  by (rule live_poster)

definition null_fine :: "string list \<Rightarrow> bool" where
  "null_fine out \<longleftrightarrow> True"

interpretation printed: poster null_say "\<lambda>out. out" null_fine "\<lambda>s. ''POST: '' @ s"
  by unfold_locales (auto simp: null_say_def null_fine_def)

end
