(* ===== verification/SysWatch.thy ===== *)
theory SysWatch
  imports Irc Complex_Main
begin

text \<open>
  The watcher of a host (\<^verbatim>\<open>ops/pkgs/syswatch/main.go\<close>): what it makes of \<^verbatim>\<open>/proc\<close>, of the file systems and of
  \<^verbatim>\<open>systemctl\<close>, and which changes it posts.  The texts read, the devices and sizes of file systems, the
  parser of floating point numbers and the \<^verbatim>\<open>%g\<close> of \<^verbatim>\<open>fmt\<close> come with the environment of a check; floating
  point values are rationals here, computed exactly, without infinities and NaN.  A check takes the
  \<open>say\<close> of a poster.
\<close>

subsection \<open>Texts\<close>

definition round_even :: "rat \<Rightarrow> int" where
  "round_even y = (let f = \<lfloor>y\<rfloor>; r = y - of_int f in
     if r < 1/2 then f else if r > 1/2 then f + 1 else if even f then f else f + 1)"

text \<open>White space of a regular expression.\<close>

definition re_space :: "char \<Rightarrow> bool" where
  "re_space c \<longleftrightarrow> c \<in> {TAB, LF, CHR 0x0C, CR, CHR '' ''}"

text \<open>\<^verbatim>\<open>%.kf\<close>.\<close>

definition fixed :: "nat \<Rightarrow> rat \<Rightarrow> string" where
  "fixed k x = (let n = nat (round_even (\<bar>x\<bar> * 10 ^ k)) in
     (if x < 0 then ''-'' else []) @ nat_dec (n div 10 ^ k)
       @ (if k = 0 then [] else ''.'' @ pad0 k (n mod 10 ^ k)))"

definition human_bytes :: "rat \<Rightarrow> string" where
  "human_bytes v = (if v \<ge> 2 ^ 40 then fixed 1 (v / 2 ^ 40) @ '' TiB'' else fixed 1 (v / 2 ^ 30) @ '' GiB'')"

text \<open>Durations are in nanoseconds; those printed are whole seconds.\<close>

definition sec :: int where
  "sec = 1000000000"

definition human_dur :: "int \<Rightarrow> string" where
  "human_dur d0 = (let d = (if d0 < 0 then 0 else d0); h = d div (3600 * sec); m = d div (60 * sec) in
     if h \<ge> 48 then itoa (h div 24) @ ''d'' @ itoa (h mod 24) @ ''h''
     else if h \<ge> 1 then itoa h @ ''h'' @ itoa (m mod 60) @ ''m''
     else itoa m @ ''m'')"

text \<open>The signs are UTF-8.\<close>

definition icon :: "string \<Rightarrow> string" where
  "icon level = map char_of
     (if level = ''crit'' then [240, 159, 154, 168 :: nat]
      else if level = ''warn'' then [226, 154, 160, 239, 184, 143]
      else [226, 156, 133])"

subsection \<open>State\<close>

record sys_state =
  sw_disks :: "string \<rightharpoonup> rat"
  sw_backups :: "string \<rightharpoonup> string"
  sw_mem :: string
  sw_load :: string
  sw_failed :: string

definition fresh_state :: sys_state where
  "fresh_state = \<lparr>sw_disks = Map.empty, sw_backups = Map.empty, sw_mem = ''ok'', sw_load = ''ok'', sw_failed = []\<rparr>"

text \<open>
  The decoder of JSON fills in a given state; a map that is null there reads as an empty one, which is
  what the code replaces it by.
\<close>

definition load_sys_state :: "(string \<Rightarrow> sys_state \<Rightarrow> sys_state option) \<Rightarrow> string option \<Rightarrow> sys_state" where
  "load_sys_state decode file =
     (case file of
        None \<Rightarrow> fresh_state
      | Some data \<Rightarrow> (case decode data fresh_state of
          None \<Rightarrow> fresh_state
        | Some s \<Rightarrow> s\<lparr>sw_mem := (if sw_mem s = [] then ''ok'' else sw_mem s),
            sw_load := (if sw_load s = [] then ''ok'' else sw_load s)\<rparr>))"

text \<open>The file after a save, given whether encoding, writing the copy and renaming it succeed.\<close>

definition save_sys_state :: "(sys_state \<Rightarrow> string option) \<Rightarrow> bool \<Rightarrow> bool \<Rightarrow> sys_state \<Rightarrow> string option \<Rightarrow> string option" where
  "save_sys_state encode written renamed s file =
     (case encode s of None \<Rightarrow> file | Some data \<Rightarrow> if written \<and> renamed then Some data else file)"

subsection \<open>Probes\<close>

record sys_env =
  se_mounts :: "string option"
  se_stat :: "string \<Rightarrow> int option"
  se_statfs :: "string \<Rightarrow> (int \<times> int \<times> int) option"
  se_meminfo :: "string option"
  se_loadavg :: "string option"
  se_uptime :: "string option"
  se_cores :: int
  se_backup_units :: "string option"
  se_failed_units :: "string option"
  se_show :: "string \<Rightarrow> string option"
  se_float :: "string \<Rightarrow> rat option"
  se_g :: "rat \<Rightarrow> string"

definition watch_fs_types :: "string list" where
  "watch_fs_types = [''apfs'', ''btrfs'', ''exfat'', ''ext2'', ''ext3'', ''ext4'', ''f2fs'', ''hfs'', ''hfsplus'',
     ''ntfs'', ''ntfs3'', ''ufs'', ''vfat'', ''xfs'', ''zfs'']"

definition BSL :: char where
  "BSL = CHR 0x5C"

function unescape_mount :: "string \<Rightarrow> string" where
  "unescape_mount [] = []"
| "unescape_mount (c # cs) =
     (if has_prefix (c # cs) (BSL # ''040'') then CHR '' '' # unescape_mount (drop 3 cs)
      else if has_prefix (c # cs) (BSL # ''011'') then TAB # unescape_mount (drop 3 cs)
      else if has_prefix (c # cs) (BSL # ''012'') then LF # unescape_mount (drop 3 cs)
      else if has_prefix (c # cs) (BSL # ''134'') then BSL # unescape_mount (drop 3 cs)
      else c # unescape_mount cs)"
  by pat_completeness auto
termination by (relation "measure length") auto

record mount_info =
  mi_dev :: int
  mi_mountpoint :: string
  mi_fstype :: string

definition mount_of_line :: "sys_env \<Rightarrow> string \<Rightarrow> mount_info list" where
  "mount_of_line se line = (let f = str_fields line in
     if length f < 4 \<or> f ! 2 \<notin> set watch_fs_types then []
     else (let m = unescape_mount (f ! 1) in
       (case se_stat se m of
          None \<Rightarrow> []
        | Some dev \<Rightarrow> [\<lparr>mi_dev = dev, mi_mountpoint = m, mi_fstype = f ! 2\<rparr>])))"

fun first_of_device :: "int list \<Rightarrow> mount_info list \<Rightarrow> mount_info list" where
  "first_of_device seen [] = []"
| "first_of_device seen (m # ms) =
     (if mi_dev m \<in> set seen then first_of_device seen ms
      else m # first_of_device (mi_dev m # seen) ms)"

definition local_mounts :: "sys_env \<Rightarrow> mount_info list option" where
  "local_mounts se = map_option (\<lambda>data. first_of_device []
     (sort_key mi_mountpoint (concat (map (mount_of_line se) (split_on LF data))))) (se_mounts se)"

record fs_sample =
  fs_total :: rat
  fs_avail :: rat
  fs_pct :: rat

definition sample_fs :: "sys_env \<Rightarrow> mount_info \<Rightarrow> fs_sample option" where
  "sample_fs se m =
     (case se_statfs se (mi_mountpoint m) of
        None \<Rightarrow> None
      | Some (blocks, bsize, bavail) \<Rightarrow>
          if blocks = 0 then None
          else (let total_b = of_int blocks * of_int bsize; avail = of_int bavail * of_int bsize in
            Some \<lparr>fs_total = total_b, fs_avail = avail, fs_pct = 100 * avail / total_b\<rparr>))"

fun thresholds_of :: "(string \<Rightarrow> rat option) \<Rightarrow> string list \<Rightarrow> rat list option" where
  "thresholds_of parse [] = Some []"
| "thresholds_of parse (part # parts) =
     (case parse (trim_space part) of
        None \<Rightarrow> None
      | Some v \<Rightarrow> if v \<le> 0 \<or> v \<ge> 100 then None else map_option ((#) v) (thresholds_of parse parts))"

definition parse_thresholds :: "(string \<Rightarrow> rat option) \<Rightarrow> string \<Rightarrow> rat list option" where
  "parse_thresholds parse s = map_option (\<lambda>vs. rev (sort vs)) (thresholds_of parse (split_on (CHR '','') s))"

definition worst_crossed :: "rat \<Rightarrow> rat list \<Rightarrow> rat" where
  "worst_crossed pct ths = fold (\<lambda>t worst. if pct < t \<and> (worst = 0 \<or> t < worst) then t else worst) ths 0"

definition mem_line :: "sys_env \<Rightarrow> string \<Rightarrow> rat \<times> rat \<Rightarrow> rat \<times> rat" where
  "mem_line se line = (\<lambda>(total_kb, avail_kb). let f = str_fields line in
     if length f < 2 then (total_kb, avail_kb)
     else (case se_float se (f ! 1) of
         None \<Rightarrow> (total_kb, avail_kb)
       | Some v \<Rightarrow> if f ! 0 = ''MemTotal:'' then (v, avail_kb)
           else if f ! 0 = ''MemAvailable:'' then (total_kb, v) else (total_kb, avail_kb)))"

definition mem_sample :: "sys_env \<Rightarrow> (rat \<times> rat \<times> rat) option" where
  "mem_sample se =
     (case se_meminfo se of
        None \<Rightarrow> None
      | Some data \<Rightarrow> (case fold (mem_line se) (split_on LF data) (0, 0) of (total_kb, avail_kb) \<Rightarrow>
          if total_kb \<le> 0 then None
          else Some (100 * avail_kb / total_kb, avail_kb * 1024, total_kb * 1024)))"

definition load_sample :: "sys_env \<Rightarrow> rat option" where
  "load_sample se =
     (case se_loadavg se of
        None \<Rightarrow> None
      | Some data \<Rightarrow> (let f = str_fields data in if length f < 3 then None else se_float se (f ! 2)))"

definition list_units :: "string option \<Rightarrow> string list option" where
  "list_units out = map_option (\<lambda>out. concat (map (\<lambda>line. let f = str_fields line in
     if f \<noteq> [] \<and> contains (f ! 0) ''.'' then [f ! 0] else []) (split_on LF out))) out"

record unit_props =
  up_active :: string
  up_sub :: string
  up_result :: string
  up_inactive :: rat

definition prop_line :: "sys_env \<Rightarrow> string \<Rightarrow> unit_props \<Rightarrow> unit_props" where
  "prop_line se line p =
     (if CHR ''='' \<notin> set line then p
      else (let k = takeWhile (\<lambda>c. c \<noteq> CHR ''='') line; v = tl (dropWhile (\<lambda>c. c \<noteq> CHR ''='') line) in
        if k = ''ActiveState'' then p\<lparr>up_active := v\<rparr>
        else if k = ''SubState'' then p\<lparr>up_sub := v\<rparr>
        else if k = ''Result'' then p\<lparr>up_result := v\<rparr>
        else if k = ''InactiveEnterTimestampMonotonic''
        then p\<lparr>up_inactive := (case se_float se v of None \<Rightarrow> 0 | Some us \<Rightarrow> us / 1000000)\<rparr>
        else p))"

definition show_unit :: "sys_env \<Rightarrow> string \<Rightarrow> unit_props option" where
  "show_unit se unit = map_option (\<lambda>out. fold (prop_line se) (split_on LF (trim_space out))
     \<lparr>up_active = [], up_sub = [], up_result = [], up_inactive = 0\<rparr>) (se_show se unit)"

definition uptime_seconds :: "sys_env \<Rightarrow> rat option" where
  "uptime_seconds se =
     (case se_uptime se of
        None \<Rightarrow> None
      | Some data \<Rightarrow> (let f = str_fields data in if f = [] then None else se_float se (f ! 0)))"

text \<open>A float made a duration in whole seconds.\<close>

definition whole_seconds :: "rat \<Rightarrow> int" where
  "whole_seconds x = wrap64 ((if x < 0 then - \<lfloor>- x\<rfloor> else \<lfloor>x\<rfloor>) * sec)"

definition classify_backup_unit :: "unit_props \<Rightarrow> rat \<Rightarrow> int \<Rightarrow> string \<times> string" where
  "classify_backup_unit p uptime max_stale =
     (if up_active p \<in> {''active'', ''activating'', ''deactivating'', ''reloading''} then (''ok'', ''currently running'')
      else if up_active p = ''failed'' then (''failed'', ''result='' @ up_result p)
      else if up_result p = ''success'' \<and> up_inactive p > 0
      then (let age = whole_seconds (uptime - up_inactive p) in
        if age > max_stale then (''stale'', ''no successful run in '' @ human_dur age)
        else (''ok'', ''last success '' @ human_dur age @ '' ago''))
      else if up_result p = []
      then (if whole_seconds uptime > max_stale then (''stale'', ''never completed a run since boot'')
            else (''ok'', ''never ran, but boot is fresh''))
      else (''failed'', ''result='' @ up_result p))"

subsection \<open>Checks\<close>

record sys_config =
  sc_hostname :: string
  sc_thresholds :: "rat list"
  sc_mem_warn :: rat
  sc_mem_crit :: rat
  sc_load_warn :: rat
  sc_load_crit :: rat
  sc_backup_prefix :: string
  sc_backup_max_stale :: int
  sc_own_unit :: string

definition level_rank :: "string \<Rightarrow> nat" where
  "level_rank l = (if l = ''warn'' then 1 else if l = ''crit'' then 2 else 0)"

text \<open>Nothing looks at whether the message was posted.\<close>

definition sys_post :: "(string \<Rightarrow> 'p \<Rightarrow> bool \<times> 'p) \<Rightarrow> sys_config \<Rightarrow> string \<Rightarrow> string \<Rightarrow> 'p \<Rightarrow> 'p" where
  "sys_post say cfg level msg p =
     snd (say (icon level @ '' syswatch: '' @ sc_hostname cfg @ '': '' @ msg) p)"

text \<open>What the free space of a file system leads to, given the threshold it was last announced for.\<close>

datatype disk_verdict = Disk_alert string rat | Disk_back rat | Disk_quiet

definition disk_verdict_of :: "rat list \<Rightarrow> rat \<Rightarrow> rat \<Rightarrow> disk_verdict" where
  "disk_verdict_of ths prev pct = (let cur = worst_crossed pct ths in
     if cur \<noteq> 0 \<and> (prev = 0 \<or> cur < prev) then Disk_alert (if cur = last ths then ''crit'' else ''warn'') cur
     else if prev \<noteq> 0 \<and> pct \<ge> prev + 1 then Disk_back cur
     else Disk_quiet)"

definition armed :: "sys_state \<Rightarrow> string \<Rightarrow> rat" where
  "armed st m = (case sw_disks st m of None \<Rightarrow> 0 | Some t \<Rightarrow> t)"

definition of_sizes :: "fs_sample \<Rightarrow> string" where
  "of_sizes s = fixed 1 (fs_pct s) @ ''% free ('' @ human_bytes (fs_avail s) @ '' of '' @ human_bytes (fs_total s) @ '')''"

definition check_disk :: "(string \<Rightarrow> 'p \<Rightarrow> bool \<times> 'p) \<Rightarrow> sys_config \<Rightarrow> sys_env \<Rightarrow> mount_info \<Rightarrow>
    'p \<times> sys_state \<Rightarrow> 'p \<times> sys_state" where
  "check_disk say cfg se m = (\<lambda>(p, st).
     (case sample_fs se m of
        None \<Rightarrow> (p, st)
      | Some s \<Rightarrow> (let name = mi_mountpoint m in
          (case disk_verdict_of (sc_thresholds cfg) (armed st name) (fs_pct s) of
             Disk_alert level cur \<Rightarrow>
               (sys_post say cfg level (''disk '' @ name @ '': '' @ of_sizes s @ '' - below '' @ se_g se cur @ ''% remaining'') p,
                st\<lparr>sw_disks := (sw_disks st)(name \<mapsto> cur)\<rparr>)
           | Disk_back cur \<Rightarrow>
               (sys_post say cfg ''ok'' (''disk '' @ name @ '': back to '' @ of_sizes s) p,
                st\<lparr>sw_disks := (sw_disks st)(name \<mapsto> cur)\<rparr>)
           | Disk_quiet \<Rightarrow> (p, st)))))"

definition check_disks :: "(string \<Rightarrow> 'p \<Rightarrow> bool \<times> 'p) \<Rightarrow> sys_config \<Rightarrow> sys_env \<Rightarrow> 'p \<times> sys_state \<Rightarrow> 'p \<times> sys_state" where
  "check_disks say cfg se x =
     (case local_mounts se of
        None \<Rightarrow> x
      | Some ms \<Rightarrow> (case fold (check_disk say cfg se) ms x of
          (p, st) \<Rightarrow> (p, st\<lparr>sw_disks := sw_disks st |` (mi_mountpoint ` set ms)\<rparr>)))"

definition mem_level :: "sys_config \<Rightarrow> rat \<Rightarrow> string" where
  "mem_level cfg pct = (if pct < sc_mem_crit cfg then ''crit'' else if pct < sc_mem_warn cfg then ''warn'' else ''ok'')"

definition check_mem :: "(string \<Rightarrow> 'p \<Rightarrow> bool \<times> 'p) \<Rightarrow> sys_config \<Rightarrow> sys_env \<Rightarrow> 'p \<times> sys_state \<Rightarrow> 'p \<times> sys_state" where
  "check_mem say cfg se = (\<lambda>(p, st).
     (case mem_sample se of
        None \<Rightarrow> (p, st)
      | Some (pct, avail, total_b) \<Rightarrow>
          (let cur = mem_level cfg pct;
               sizes = fixed 1 pct @ ''% available ('' @ human_bytes avail @ '' of '' @ human_bytes total_b @ '')''
           in (if level_rank cur > level_rank (sw_mem st) then sys_post say cfg cur (''memory: '' @ sizes) p
               else if level_rank cur < level_rank (sw_mem st) then sys_post say cfg ''ok'' (''memory: back to '' @ sizes) p
               else p,
               st\<lparr>sw_mem := cur\<rparr>))))"

definition load_level :: "sys_config \<Rightarrow> rat \<Rightarrow> string" where
  "load_level cfg ratio = (if ratio \<ge> sc_load_crit cfg then ''crit'' else if ratio \<ge> sc_load_warn cfg then ''warn'' else ''ok'')"

definition check_load :: "(string \<Rightarrow> 'p \<Rightarrow> bool \<times> 'p) \<Rightarrow> sys_config \<Rightarrow> sys_env \<Rightarrow> 'p \<times> sys_state \<Rightarrow> 'p \<times> sys_state" where
  "check_load say cfg se = (\<lambda>(p, st).
     (case load_sample se of
        None \<Rightarrow> (p, st)
      | Some load \<Rightarrow>
          (let cores = (if se_cores se < 1 then 1 else se_cores se); ratio = load / of_int cores;
               cur = load_level cfg ratio;
               avg = ''15min avg '' @ fixed 1 load @ '' on '' @ itoa cores @ '' cores ('' @ fixed 2 ratio @ ''/core)''
           in (if level_rank cur > level_rank (sw_load st) then sys_post say cfg cur (''load: '' @ avg) p
               else if level_rank cur < level_rank (sw_load st) then sys_post say cfg ''ok'' (''load: back to '' @ avg) p
               else p,
               st\<lparr>sw_load := cur\<rparr>))))"

definition check_backup :: "(string \<Rightarrow> 'p \<Rightarrow> bool \<times> 'p) \<Rightarrow> sys_config \<Rightarrow> sys_env \<Rightarrow> rat \<Rightarrow> string \<Rightarrow>
    'p \<times> sys_state \<Rightarrow> 'p \<times> sys_state" where
  "check_backup say cfg se uptime unit = (\<lambda>(p, st).
     (case show_unit se unit of
        None \<Rightarrow> (p, st)
      | Some props \<Rightarrow>
          (let name = trim_suffix (trim_prefix unit (sc_backup_prefix cfg)) ''.service'';
               prev = sw_backups st unit
           in (case classify_backup_unit props uptime (sc_backup_max_stale cfg) of (status, detail) \<Rightarrow>
             (if status \<noteq> ''ok'' \<and> (prev = None \<or> prev \<noteq> Some status)
              then sys_post say cfg ''crit'' (''backup '' @ name @ '': '' @ detail) p
              else if status = ''ok'' \<and> prev \<noteq> None \<and> prev \<noteq> Some ''ok'' \<and> prev \<noteq> Some []
              then sys_post say cfg ''ok'' (''backup '' @ name @ '': healthy again ('' @ detail @ '')'') p
              else p,
              st\<lparr>sw_backups := (sw_backups st)(unit \<mapsto> status)\<rparr>)))))"

definition check_backups :: "(string \<Rightarrow> 'p \<Rightarrow> bool \<times> 'p) \<Rightarrow> sys_config \<Rightarrow> sys_env \<Rightarrow> 'p \<times> sys_state \<Rightarrow> 'p \<times> sys_state" where
  "check_backups say cfg se x =
     (case list_units (se_backup_units se) of
        None \<Rightarrow> x
      | Some us \<Rightarrow> (case uptime_seconds se of
          None \<Rightarrow> x
        | Some uptime \<Rightarrow> (case fold (check_backup say cfg se uptime) us x of
            (p, st) \<Rightarrow> (p, st\<lparr>sw_backups := sw_backups st |` set us\<rparr>))))"

definition failed_names :: "sys_config \<Rightarrow> string list \<Rightarrow> string list" where
  "failed_names cfg us = sort (filter (\<lambda>u. u \<noteq> sc_own_unit cfg \<and> \<not> has_prefix u (sc_backup_prefix cfg)) us)"

definition check_failed_units ::
  "(string \<Rightarrow> 'p \<Rightarrow> bool \<times> 'p) \<Rightarrow> sys_config \<Rightarrow> sys_env \<Rightarrow> 'p \<times> sys_state \<Rightarrow> 'p \<times> sys_state" where
  "check_failed_units say cfg se = (\<lambda>(p, st).
     (case list_units (se_failed_units se) of
        None \<Rightarrow> (p, st)
      | Some us \<Rightarrow> (let names = failed_names cfg us; joined = join_with '','' names in
          if joined = sw_failed st then (p, st)
          else (if names = [] then sys_post say cfg ''ok'' ''no failed systemd units anymore'' p
                else (let more = (if length names > 5 then '' (+'' @ itoa (int (length names) - 5) @ '' more)'' else []) in
                  sys_post say cfg ''warn'' (itoa (int (length names)) @ '' failed systemd unit(s): ''
                    @ join_with '', '' (take 5 names) @ more) p),
                st\<lparr>sw_failed := joined\<rparr>))))"

definition run_all_checks :: "(string \<Rightarrow> 'p \<Rightarrow> bool \<times> 'p) \<Rightarrow> sys_config \<Rightarrow> sys_env \<Rightarrow> 'p \<times> sys_state \<Rightarrow> 'p \<times> sys_state" where
  "run_all_checks say cfg se x =
     check_failed_units say cfg se (check_load say cfg se (check_mem say cfg se (check_disks say cfg se
       (check_backups say cfg se x))))"

text \<open>The label of the host in messages; a name that begins with a dot stays as it is.\<close>

definition short_host :: "string \<Rightarrow> string" where
  "short_host h = (case index_of h ''.'' of None \<Rightarrow> h | Some i \<Rightarrow> if i > 0 then take i h else h)"

text \<open>The loop of the program, one check for each tick.\<close>

definition watch_host :: "(string \<Rightarrow> 'p \<Rightarrow> bool \<times> 'p) \<Rightarrow> sys_config \<Rightarrow> sys_env list \<Rightarrow> 'p \<times> sys_state \<Rightarrow> 'p \<times> sys_state" where
  "watch_host say cfg ses x = fold (run_all_checks say cfg) ses x"

end
