(* ===== verification/HostWatch.thy ===== *)
theory HostWatch
  imports SysWatch
begin

text \<open>
  What the watcher of a host guarantees: it tells only what changed, it repeats no disk alert before the
  disk has recovered, and what it posts reaches the channel as lines of its own.
\<close>

subsection \<open>Disks\<close>

definition rearmed :: "rat list \<Rightarrow> rat \<Rightarrow> rat \<Rightarrow> rat" where
  "rearmed ths prev pct = (case disk_verdict_of ths prev pct of
     Disk_alert _ cur \<Rightarrow> cur | Disk_back cur \<Rightarrow> cur | Disk_quiet \<Rightarrow> prev)"

text \<open>What a check reads for a mountpoint, where it is watched at all.\<close>

definition disk_reading :: "sys_env \<Rightarrow> string \<Rightarrow> rat option" where
  "disk_reading se n =
     (case local_mounts se of
        None \<Rightarrow> None
      | Some ms \<Rightarrow> if n \<in> mi_mountpoint ` set ms
          then map_option fs_pct (sample_fs se \<lparr>mi_dev = 0, mi_mountpoint = n, mi_fstype = []\<rparr>) else None)"

lemma worst_fold:
  assumes "\<forall>t\<in>set ths. (0::rat) < t" "w = 0 \<or> pct < w \<and> 0 < w"
  shows "let v = fold (\<lambda>t worst. if pct < t \<and> (worst = 0 \<or> t < worst) then t else worst) ths w in
    (v = 0 \<and> w = 0 \<and> (\<forall>t\<in>set ths. \<not> pct < t)
     \<or> 0 < v \<and> pct < v \<and> v \<in> insert w (set ths) \<and> (w \<noteq> 0 \<longrightarrow> v \<le> w) \<and> (\<forall>t\<in>set ths. pct < t \<longrightarrow> v \<le> t))"
  using assms
proof (induction ths arbitrary: w)
  case (Cons t ths)
  let ?w = "if pct < t \<and> (w = 0 \<or> t < w) then t else w"
  have "?w = 0 \<or> pct < ?w \<and> 0 < ?w" using Cons.prems by auto
  with Cons.IH [of ?w] Cons.prems show ?case by (auto simp: Let_def split: if_splits)
qed auto

lemma worst_crossed:
  assumes "\<forall>t\<in>set ths. 0 < t"
  shows "worst_crossed pct ths = 0 \<Longrightarrow> t \<in> set ths \<Longrightarrow> t \<le> pct"
    and "worst_crossed pct ths \<noteq> 0 \<Longrightarrow> pct < worst_crossed pct ths \<and> worst_crossed pct ths \<in> set ths"
    and "t \<in> set ths \<Longrightarrow> pct < t \<Longrightarrow> worst_crossed pct ths \<noteq> 0 \<and> worst_crossed pct ths \<le> t"
  using worst_fold [OF assms, of 0 pct] by (auto simp: worst_crossed_def Let_def)

lemma verdict_settles:
  assumes "\<forall>t\<in>set ths. 0 < t"
  shows "disk_verdict_of ths (rearmed ths prev pct) pct = Disk_quiet"
  using worst_crossed(2) [OF assms, of pct] by (auto simp: rearmed_def disk_verdict_of_def Let_def)

lemma rearmed_twice: "\<forall>t\<in>set ths. 0 < t \<Longrightarrow> rearmed ths (rearmed ths prev pct) pct = rearmed ths prev pct"
  using verdict_settles [of ths prev pct] by (simp add: rearmed_def)

lemma sample_by_name: "mi_mountpoint m = n \<Longrightarrow> sample_fs se m = sample_fs se \<lparr>mi_dev = 0, mi_mountpoint = n, mi_fstype = []\<rparr>"
  by (simp add: sample_fs_def)

definition read_pct :: "sys_env \<Rightarrow> string \<Rightarrow> rat option" where
  "read_pct se n = map_option fs_pct (sample_fs se \<lparr>mi_dev = 0, mi_mountpoint = n, mi_fstype = []\<rparr>)"

definition rearm :: "rat list \<Rightarrow> sys_env \<Rightarrow> string \<Rightarrow> rat \<Rightarrow> rat" where
  "rearm ths se n prev = (case read_pct se n of None \<Rightarrow> prev | Some pct \<Rightarrow> rearmed ths prev pct)"

lemma check_disk_armed:
  "armed (snd (check_disk say cfg se m x)) n
     = (if mi_mountpoint m = n then rearm (sc_thresholds cfg) se n (armed (snd x) n) else armed (snd x) n)"
proof (cases x)
  case (Pair p st)
  then show ?thesis
    by (cases "sample_fs se m"; cases "mi_mountpoint m = n")
      (auto simp: check_disk_def Let_def armed_def rearm_def read_pct_def rearmed_def
        sample_by_name [of m, OF refl, symmetric] split: disk_verdict.split)
qed

lemma disks_fold_armed:
  assumes "\<forall>t\<in>set (sc_thresholds cfg). 0 < t"
  shows "armed (snd (fold (check_disk say cfg se) ms x)) n
     = (if n \<in> mi_mountpoint ` set ms then rearm (sc_thresholds cfg) se n (armed (snd x) n) else armed (snd x) n)"
proof (induction ms arbitrary: x)
  case (Cons m ms)
  have "rearm (sc_thresholds cfg) se n (rearm (sc_thresholds cfg) se n a) = rearm (sc_thresholds cfg) se n a" for a
    using rearmed_twice [OF assms] by (simp add: rearm_def split: option.split)
  with Cons.IH [of "check_disk say cfg se m x"] check_disk_armed [of say cfg se m x n] show ?case
    by (cases "mi_mountpoint m = n") auto
qed simp

lemma check_disks_armed:
  assumes "\<forall>t\<in>set (sc_thresholds cfg). 0 < t" "local_mounts se = Some ms"
  shows "armed (snd (check_disks say cfg se x)) n
     = (if n \<in> mi_mountpoint ` set ms then rearm (sc_thresholds cfg) se n (armed (snd x) n) else 0)"
proof -
  obtain p st where f: "fold (check_disk say cfg se) ms x = (p, st)" by (metis surj_pair)
  with disks_fold_armed [OF assms(1), of say se ms x n] have
    "armed st n = (if n \<in> mi_mountpoint ` set ms then rearm (sc_thresholds cfg) se n (armed (snd x) n) else armed (snd x) n)"
    by simp
  then show ?thesis using assms(2) f by (auto simp: check_disks_def armed_def restrict_map_def)
qed

text \<open>The other checks leave the disks alone.\<close>

lemma check_backup_other [simp]:
  "sw_disks (snd (check_backup say cfg se up u x)) = sw_disks (snd x)"
  "sw_mem (snd (check_backup say cfg se up u x)) = sw_mem (snd x)"
  "sw_load (snd (check_backup say cfg se up u x)) = sw_load (snd x)"
  "sw_failed (snd (check_backup say cfg se up u x)) = sw_failed (snd x)"
  by (cases x; simp add: check_backup_def Let_def split: option.split prod.split)+

lemma backups_fold_other [simp]:
  "sw_disks (snd (fold (check_backup say cfg se up) us x)) = sw_disks (snd x)"
  "sw_mem (snd (fold (check_backup say cfg se up) us x)) = sw_mem (snd x)"
  "sw_load (snd (fold (check_backup say cfg se up) us x)) = sw_load (snd x)"
  "sw_failed (snd (fold (check_backup say cfg se up) us x)) = sw_failed (snd x)"
  by (induction us arbitrary: x) simp_all

lemma check_backups_other [simp]:
  "sw_disks (snd (check_backups say cfg se x)) = sw_disks (snd x)"
  "sw_mem (snd (check_backups say cfg se x)) = sw_mem (snd x)"
  "sw_load (snd (check_backups say cfg se x)) = sw_load (snd x)"
  "sw_failed (snd (check_backups say cfg se x)) = sw_failed (snd x)"
  by (simp_all add: check_backups_def case_prod_beta split: option.split)

lemma check_disk_other [simp]:
  "sw_backups (snd (check_disk say cfg se m x)) = sw_backups (snd x)"
  "sw_mem (snd (check_disk say cfg se m x)) = sw_mem (snd x)"
  "sw_load (snd (check_disk say cfg se m x)) = sw_load (snd x)"
  "sw_failed (snd (check_disk say cfg se m x)) = sw_failed (snd x)"
  by (cases x; simp add: check_disk_def Let_def split: option.split disk_verdict.split)+

lemma disks_fold_other [simp]:
  "sw_backups (snd (fold (check_disk say cfg se) ms x)) = sw_backups (snd x)"
  "sw_mem (snd (fold (check_disk say cfg se) ms x)) = sw_mem (snd x)"
  "sw_load (snd (fold (check_disk say cfg se) ms x)) = sw_load (snd x)"
  "sw_failed (snd (fold (check_disk say cfg se) ms x)) = sw_failed (snd x)"
  by (induction ms arbitrary: x) simp_all

lemma check_disks_other [simp]:
  "sw_backups (snd (check_disks say cfg se x)) = sw_backups (snd x)"
  "sw_mem (snd (check_disks say cfg se x)) = sw_mem (snd x)"
  "sw_load (snd (check_disks say cfg se x)) = sw_load (snd x)"
  "sw_failed (snd (check_disks say cfg se x)) = sw_failed (snd x)"
  by (simp_all add: check_disks_def case_prod_beta split: option.split)

lemma check_mem_other [simp]:
  "sw_disks (snd (check_mem say cfg se x)) = sw_disks (snd x)"
  "sw_backups (snd (check_mem say cfg se x)) = sw_backups (snd x)"
  "sw_load (snd (check_mem say cfg se x)) = sw_load (snd x)"
  "sw_failed (snd (check_mem say cfg se x)) = sw_failed (snd x)"
  by (cases x; simp add: check_mem_def Let_def split: option.split prod.split)+

lemma check_load_other [simp]:
  "sw_disks (snd (check_load say cfg se x)) = sw_disks (snd x)"
  "sw_backups (snd (check_load say cfg se x)) = sw_backups (snd x)"
  "sw_mem (snd (check_load say cfg se x)) = sw_mem (snd x)"
  "sw_failed (snd (check_load say cfg se x)) = sw_failed (snd x)"
  by (cases x; simp add: check_load_def Let_def split: option.split prod.split)+

lemma check_failed_other [simp]:
  "sw_disks (snd (check_failed_units say cfg se x)) = sw_disks (snd x)"
  "sw_backups (snd (check_failed_units say cfg se x)) = sw_backups (snd x)"
  "sw_mem (snd (check_failed_units say cfg se x)) = sw_mem (snd x)"
  "sw_load (snd (check_failed_units say cfg se x)) = sw_load (snd x)"
  by (cases x; simp add: check_failed_units_def Let_def split: option.split prod.split)+

lemma armed_of_disks: "sw_disks st = sw_disks st' \<Longrightarrow> armed st n = armed st' n"
  by (simp add: armed_def)

lemma run_all_armed:
  assumes "\<forall>t\<in>set (sc_thresholds cfg). 0 < t" "disk_reading se n = Some pct"
  shows "armed (snd (run_all_checks say cfg se x)) n = rearmed (sc_thresholds cfg) (armed (snd x) n) pct"
proof -
  obtain ms where ms: "local_mounts se = Some ms" "n \<in> mi_mountpoint ` set ms" "read_pct se n = Some pct"
    using assms(2) by (auto simp: disk_reading_def read_pct_def split: option.splits if_splits)
  have "armed (snd (run_all_checks say cfg se x)) n
      = armed (snd (check_disks say cfg se (check_backups say cfg se x))) n"
    by (rule armed_of_disks) (simp add: run_all_checks_def)
  also have "\<dots> = rearmed (sc_thresholds cfg) (armed (snd (check_backups say cfg se x)) n) pct"
    using check_disks_armed [OF assms(1) ms(1), of say "check_backups say cfg se x" n] ms(2,3) by (simp add: rearm_def)
  also have "armed (snd (check_backups say cfg se x)) n = armed (snd x) n" by (rule armed_of_disks) simp
  finally show ?thesis .
qed


subsection \<open>Nothing new, nothing said\<close>

definition disks_settled :: "sys_config \<Rightarrow> sys_env \<Rightarrow> sys_state \<Rightarrow> bool" where
  "disks_settled cfg se st \<longleftrightarrow> (\<forall>ms. local_mounts se = Some ms \<longrightarrow> dom (sw_disks st) \<subseteq> mi_mountpoint ` set ms
     \<and> (\<forall>m\<in>set ms. \<forall>s. sample_fs se m = Some s \<longrightarrow>
          disk_verdict_of (sc_thresholds cfg) (armed st (mi_mountpoint m)) (fs_pct s) = Disk_quiet))"

definition backups_settled :: "sys_config \<Rightarrow> sys_env \<Rightarrow> sys_state \<Rightarrow> bool" where
  "backups_settled cfg se st \<longleftrightarrow> (\<forall>us up. list_units (se_backup_units se) = Some us \<longrightarrow> uptime_seconds se = Some up \<longrightarrow>
     dom (sw_backups st) \<subseteq> set us \<and> (\<forall>u\<in>set us. \<forall>props. show_unit se u = Some props \<longrightarrow>
       sw_backups st u = Some (fst (classify_backup_unit props up (sc_backup_max_stale cfg)))))"

definition rest_settled :: "sys_config \<Rightarrow> sys_env \<Rightarrow> sys_state \<Rightarrow> bool" where
  "rest_settled cfg se st \<longleftrightarrow>
     (\<forall>pct a b. mem_sample se = Some (pct, a, b) \<longrightarrow> sw_mem st = mem_level cfg pct)
     \<and> (\<forall>v. load_sample se = Some v \<longrightarrow> sw_load st = load_level cfg (v / of_int (if se_cores se < 1 then 1 else se_cores se)))
     \<and> (\<forall>us. list_units (se_failed_units se) = Some us \<longrightarrow> sw_failed st = join_with '','' (failed_names cfg us))"

lemma restrict_inside: "dom m \<subseteq> A \<Longrightarrow> m |` A = m"
  by (rule ext) (metis domIff in_mono restrict_map_def)

lemma disks_quiet:
  assumes "disks_settled cfg se st"
  shows "check_disks say cfg se (p, st) = (p, st)"
proof (cases "local_mounts se")
  case (Some ms)
  have "fold (check_disk say cfg se) ms' (p, st) = (p, st)" if "set ms' \<subseteq> set ms" for ms'
    using that assms Some by (induction ms') (auto simp: disks_settled_def check_disk_def Let_def split: option.split)
  from this [of ms] show ?thesis
    using assms Some by (simp add: check_disks_def disks_settled_def restrict_inside)
qed (simp add: check_disks_def)

lemma backups_quiet:
  assumes "backups_settled cfg se st"
  shows "check_backups say cfg se (p, st) = (p, st)"
proof (cases "list_units (se_backup_units se)"; cases "uptime_seconds se")
  fix us up
  assume us: "list_units (se_backup_units se) = Some us" "uptime_seconds se = Some up"
  have unit: "check_backup say cfg se up u (p, st) = (p, st)" if "u \<in> set us" for u
  proof (cases "show_unit se u")
    case (Some props)
    with assms us that have "sw_backups st u = Some (fst (classify_backup_unit props up (sc_backup_max_stale cfg)))"
      by (auto simp: backups_settled_def)
    with Some show ?thesis
      by (cases "classify_backup_unit props up (sc_backup_max_stale cfg)") (auto simp: check_backup_def Let_def map_upd_triv)
  qed (simp add: check_backup_def)
  have "fold (check_backup say cfg se up) us' (p, st) = (p, st)" if "set us' \<subseteq> set us" for us'
    using that unit by (induction us') auto
  from this [of us] show ?thesis
    using assms us by (simp add: check_backups_def backups_settled_def restrict_inside)
qed (simp_all add: check_backups_def)

lemma rest_quiet:
  assumes "rest_settled cfg se st"
  shows "check_mem say cfg se (p, st) = (p, st)" "check_load say cfg se (p, st) = (p, st)"
    "check_failed_units say cfg se (p, st) = (p, st)"
  using assms by (auto simp: rest_settled_def check_mem_def check_load_def check_failed_units_def Let_def
      split: option.split prod.split)

lemma settled_quiet:
  "disks_settled cfg se st \<Longrightarrow> backups_settled cfg se st \<Longrightarrow> rest_settled cfg se st \<Longrightarrow>
     run_all_checks say cfg se (p, st) = (p, st)"
  by (simp add: run_all_checks_def disks_quiet backups_quiet rest_quiet)

lemma check_disks_settles:
  assumes "\<forall>t\<in>set (sc_thresholds cfg). 0 < t" "sw_disks st = sw_disks (snd (check_disks say cfg se x))"
  shows "disks_settled cfg se st"
  unfolding disks_settled_def
proof (intro allI impI conjI ballI)
  fix ms
  assume ms: "local_mounts se = Some ms"
  show "dom (sw_disks st) \<subseteq> mi_mountpoint ` set ms" by (simp add: assms(2) ms check_disks_def case_prod_beta)
  fix m s
  assume m: "m \<in> set ms" "sample_fs se m = Some s"
  then have "read_pct se (mi_mountpoint m) = Some (fs_pct s)"
    using sample_by_name [of m "mi_mountpoint m" se] by (simp add: read_pct_def)
  then have "armed (snd (check_disks say cfg se x)) (mi_mountpoint m)
      = rearmed (sc_thresholds cfg) (armed (snd x) (mi_mountpoint m)) (fs_pct s)"
    using m check_disks_armed [OF assms(1) ms, of say x "mi_mountpoint m"] by (simp add: rearm_def)
  with verdict_settles [OF assms(1)] armed_of_disks [OF assms(2)]
  show "disk_verdict_of (sc_thresholds cfg) (armed st (mi_mountpoint m)) (fs_pct s) = Disk_quiet" by simp
qed

lemma backup_kept: "sw_backups (snd (check_backup say cfg se up u x)) v = (case show_unit se u of
    None \<Rightarrow> sw_backups (snd x) v
  | Some props \<Rightarrow> if u = v then Some (fst (classify_backup_unit props up (sc_backup_max_stale cfg))) else sw_backups (snd x) v)"
  by (cases x) (auto simp: check_backup_def Let_def case_prod_beta split: option.split)

lemma backups_fold_kept:
  "sw_backups (snd (fold (check_backup say cfg se up) us x)) v = (case show_unit se v of
     None \<Rightarrow> sw_backups (snd x) v
   | Some props \<Rightarrow> if v \<in> set us then Some (fst (classify_backup_unit props up (sc_backup_max_stale cfg)))
       else sw_backups (snd x) v)"
  by (induction us arbitrary: x) (auto simp: backup_kept split: option.split)

lemma check_backups_settles:
  assumes "sw_backups st = sw_backups (snd (check_backups say cfg se x))"
  shows "backups_settled cfg se st"
  using assms by (auto simp: backups_settled_def check_backups_def case_prod_beta backups_fold_kept split: option.splits)

lemma rest_settles:
  assumes "sw_mem st = sw_mem (snd (check_mem say cfg se x))" "sw_load st = sw_load (snd (check_load say cfg se y))"
    "sw_failed st = sw_failed (snd (check_failed_units say cfg se z))"
  shows "rest_settled cfg se st"
  using assms unfolding rest_settled_def
  by (cases x; cases y; cases z)
    (auto simp: check_mem_def check_load_def check_failed_units_def Let_def case_prod_beta split: if_splits)

text \<open>
  The watcher tells only what changed: a check that meets the readings of the one before it posts
  nothing and leaves the state alone, whatever became of the messages of that earlier check.  So an
  alert that could not be posted, because the bot had not joined the channel yet, is not made up for.
\<close>

theorem steady_state_silent:
  assumes "\<forall>t\<in>set (sc_thresholds cfg). 0 < t"
  shows "run_all_checks say' cfg se (p', snd (run_all_checks say cfg se x)) = (p', snd (run_all_checks say cfg se x))"
proof (rule settled_quiet)
  let ?b = "check_backups say cfg se x"
  let ?d = "check_disks say cfg se ?b"
  let ?m = "check_mem say cfg se ?d"
  let ?l = "check_load say cfg se ?m"
  let ?f = "check_failed_units say cfg se ?l"
  have f: "run_all_checks say cfg se x = ?f" by (simp add: run_all_checks_def)
  show "disks_settled cfg se (snd (run_all_checks say cfg se x))"
    by (rule check_disks_settles [OF assms, of _ say se ?b]) (simp add: f)
  show "backups_settled cfg se (snd (run_all_checks say cfg se x))"
    by (rule check_backups_settles [of _ say cfg se x]) (simp add: f)
  show "rest_settled cfg se (snd (run_all_checks say cfg se x))"
    by (rule rest_settles [of _ say cfg se ?d ?m ?l]) (simp_all add: f)
qed

subsection \<open>What reaches the channel\<close>

text \<open>What any poster posts in the course of checks is what it makes of messages of the watcher.\<close>

definition watcher_message :: "sys_config \<Rightarrow> string \<Rightarrow> bool" where
  "watcher_message cfg s \<longleftrightarrow> (\<exists>level msg. s = icon level @ '' syswatch: '' @ sc_hostname cfg @ '': '' @ msg)"

context poster
begin

definition posts :: "sys_config \<Rightarrow> 'p \<Rightarrow> 'p \<Rightarrow> bool" where
  "posts cfg p p' \<longleftrightarrow> (fine p \<longrightarrow> fine p' \<and> (\<exists>ms. posted p' = posted p @ map shown ms \<and> (\<forall>s\<in>set ms. watcher_message cfg s)))"

lemma posts_refl: "posts cfg p p"
  by (auto simp: posts_def)

lemma posts_trans: "posts cfg p p' \<Longrightarrow> posts cfg p' p'' \<Longrightarrow> posts cfg p p''"
  unfolding posts_def by (metis append.assoc map_append set_append Un_iff)

lemma posts_say: "watcher_message cfg s \<Longrightarrow> posts cfg p (snd (say s p))"
proof -
  assume s: "watcher_message cfg s"
  obtain r p' where say: "say s p = (r, p')" by (metis surj_pair)
  then show ?thesis using say_law [OF _ say] s
    by (auto simp: posts_def intro!: exI [of _ "if r then [s] else []"])
qed

lemma posts_post: "posts cfg p (sys_post say cfg level msg p)"
  unfolding sys_post_def by (rule posts_say) (auto simp only: watcher_message_def)

lemma posts_disk: "posts cfg (fst x) (fst (check_disk say cfg se m x))"
  by (cases x) (simp add: check_disk_def Let_def posts_post posts_refl split: option.split disk_verdict.split)

lemma posts_backup: "posts cfg (fst x) (fst (check_backup say cfg se up u x))"
  by (cases x) (simp add: check_backup_def Let_def posts_post posts_refl case_prod_beta split: option.split)

lemma posts_fold: "(\<And>y x. posts cfg (fst x) (fst (f y x))) \<Longrightarrow> posts cfg (fst x) (fst (fold f ys x))"
proof (induction ys arbitrary: x)
  case (Cons y ys)
  from posts_trans [OF Cons.prems [of x y] Cons.IH [OF Cons.prems, of "f y x"]] show ?case by simp
qed (simp add: posts_refl)

lemma posts_checks:
  "posts cfg (fst x) (fst (check_disks say cfg se x))" "posts cfg (fst x) (fst (check_backups say cfg se x))"
  "posts cfg (fst x) (fst (check_mem say cfg se x))" "posts cfg (fst x) (fst (check_load say cfg se x))"
  "posts cfg (fst x) (fst (check_failed_units say cfg se x))"
proof -
  show "posts cfg (fst x) (fst (check_disks say cfg se x))" "posts cfg (fst x) (fst (check_backups say cfg se x))"
    by (simp_all add: check_disks_def check_backups_def case_prod_beta posts_refl posts_fold posts_disk posts_backup
        split: option.split)
  show "posts cfg (fst x) (fst (check_mem say cfg se x))" "posts cfg (fst x) (fst (check_load say cfg se x))"
    "posts cfg (fst x) (fst (check_failed_units say cfg se x))"
    by (cases x; simp add: check_mem_def check_load_def check_failed_units_def Let_def case_prod_beta posts_refl posts_post
        split: option.split)+
qed

lemma posts_run: "posts cfg (fst x) (fst (run_all_checks say cfg se x))"
  unfolding run_all_checks_def
  by (intro posts_trans [OF _ posts_checks(5)] posts_trans [OF _ posts_checks(4)] posts_trans [OF _ posts_checks(3)]
      posts_trans [OF posts_checks(2) posts_checks(1)])

lemma posts_watch: "posts cfg (fst x) (fst (watch_host say cfg ses x))"
  unfolding watch_host_def by (rule posts_fold [OF posts_run])

end

text \<open>
  C22. Whatever the connection does in the meantime (lines of the server, lost connections, new ones, writes that
  fail) and whatever the readings are, all the bot adds to the channel in the course of its checks
  is messages of the watcher, each a PRIVMSG to the channel in one line of its own: no text that is read
  from the host can bring in another command.
\<close>

theorem watcher_lines:
  assumes "bt_channel b = chan" "LF \<notin> set chan"
  shows "\<exists>ms. live_posted (fst (watch_host live_say cfg ses ((script, b), st)))
      = live_posted (script, b) @ map (channel_line chan) ms
    \<and> (\<forall>s\<in>set ms. watcher_message cfg s \<and> LF \<notin> set (channel_line chan s))"
proof -
  have clean: "LF \<notin> set (channel_line chan s)" for s
    using assms(2) one_line_clean by (simp add: channel_line_def)
  have "live_ok chan (script, b)" using assms(1) by (simp add: live_ok_def)
  with live.posts_watch [where x = "((script, b), st)" and cfg = cfg and ses = ses, where chan = chan] clean
  show ?thesis unfolding live.posts_def by auto
qed

subsection \<open>Examples\<close>

definition plain_env :: sys_env where
  "plain_env = \<lparr>se_mounts = Some (''/dev/sda1 / ext4 rw 0 0'' @ [LF]), se_stat = (\<lambda>_. Some 1),
     se_statfs = (\<lambda>_. Some (1000, 1024, 40)), se_meminfo = None, se_loadavg = None, se_uptime = None, se_cores = 4,
     se_backup_units = None, se_failed_units = None, se_show = (\<lambda>_. None), se_float = (\<lambda>_. None), se_g = (\<lambda>_. ''5'')\<rparr>"

definition plain_config :: sys_config where
  "plain_config = \<lparr>sc_hostname = ''h'', sc_thresholds = [15, 10, 5, 3, 2, 1], sc_mem_warn = 10, sc_mem_crit = 5,
     sc_load_warn = 2, sc_load_crit = 4, sc_backup_prefix = ''restic-backups-'', sc_backup_max_stale = 26 * 3600 * sec,
     sc_own_unit = ''syswatch.service''\<rparr>"

definition idle_bot :: "bool \<Rightarrow> bot" where
  "idle_bot joined = \<lparr>bt_nick = ''w'', bt_channel = ''#c'', bt_realname = ''W'', bt_joined = joined, bt_sent = []\<rparr>"

text \<open>
  A disk with four percent left, first seen before the bot has joined: nothing is posted then, and
  nothing afterwards.
\<close>

lemma steady_state_silent_witness:
  "live_posted (fst (run_all_checks live_say plain_config plain_env
     (([], idle_bot True), snd (run_all_checks live_say plain_config plain_env (([], idle_bot False), fresh_state))))) = []
   \<and> live_posted (fst (run_all_checks live_say plain_config plain_env (([], idle_bot False), fresh_state))) = []
   \<and> length (live_posted (fst (run_all_checks live_say plain_config plain_env (([], idle_bot True), fresh_state)))) = 1"
proof -
  have "\<forall>t\<in>set (sc_thresholds plain_config). 0 < t" by (simp add: plain_config_def)
  note steady_state_silent [OF this, of live_say plain_env "([], idle_bot True)" live_say "(([], idle_bot False), fresh_state)"]
  then have "live_posted (fst (run_all_checks live_say plain_config plain_env
     (([], idle_bot True), snd (run_all_checks live_say plain_config plain_env (([], idle_bot False), fresh_state))))) = []"
    by (simp add: live_posted_def idle_bot_def)
  moreover have "live_posted (fst (run_all_checks live_say plain_config plain_env (([], idle_bot False), fresh_state))) = []"
    by code_simp
  moreover have "length (live_posted (fst (run_all_checks live_say plain_config plain_env (([], idle_bot True), fresh_state)))) = 1"
    by code_simp
  ultimately show ?thesis by (intro conjI)
qed

lemma watcher_lines_witness:
  "\<exists>ms. live_posted (fst (watch_host live_say plain_config [plain_env] (([], idle_bot True), fresh_state))) = map (channel_line ''#c'') ms
     \<and> length ms = 1"
proof -
  have b: "bt_channel (idle_bot True) = ''#c''" "LF \<notin> set ''#c''" by (simp_all add: idle_bot_def)
  obtain ms where ms: "live_posted (fst (watch_host live_say plain_config [plain_env] (([], idle_bot True), fresh_state)))
      = live_posted ([], idle_bot True) @ map (channel_line ''#c'') ms"
    using watcher_lines [OF b, of plain_config "[plain_env]" "[]" fresh_state] by blast
  have "length (live_posted (fst (watch_host live_say plain_config [plain_env] (([], idle_bot True), fresh_state)))) = 1" by code_simp
  moreover have "live_posted ([], idle_bot True) = []" by code_simp
  ultimately show ?thesis using ms by auto
qed

text \<open>A disk falls below ten percent, recovers and falls again.\<close>

definition at_pct :: "int \<Rightarrow> sys_env" where
  "at_pct n = plain_env\<lparr>se_statfs := (\<lambda>_. Some (100, 1024, n))\<rparr>"


end
