(* ===== verification/ChannelBots.thy ===== *)
theory ChannelBots
  imports SysWatch "HOL-Library.AList"
begin

text \<open>
  What the other bots of the channel decide to post (\<^verbatim>\<open>ops/pkgs\<close>): the weather warnings of \<^verbatim>\<open>dwdwarn\<close>, the file
  systems of \<^verbatim>\<open>diskwatch\<close>, the checks of \<^verbatim>\<open>uptimebot\<close>, the comics of \<^verbatim>\<open>xkcdbot\<close>, the forecast of \<^verbatim>\<open>weatherman\<close> and
  the headlines of \<^verbatim>\<open>tagesschau\<close>.  The answers of the servers they ask, decoded from JSON where they are
  JSON, come in from outside, as do the texts of local times.
\<close>

subsection \<open>Weather warnings\<close>

record dwd_warning =
  dw_event :: string
  dw_headline :: string
  dw_level :: int
  dw_start :: int
  dw_end :: int
  dw_region :: string

definition warn_cells :: "string list" where
  "warn_cells = [''705111001'', ''705111002'', ''705111003'', ''705111004'', ''105111000'']"

text \<open>What is between the parentheses of the JSONP document.\<close>

definition jsonp_body :: "string \<Rightarrow> string" where
  "jsonp_body raw = (let s = trim_space raw;
     s = (case index_of s ''('' of None \<Rightarrow> s | Some i \<Rightarrow> drop (i + 1) s)
     in (case last_index (CHR '')'') s of None \<Rightarrow> s | Some i \<Rightarrow> take i s))"

definition warning_key :: "string \<Rightarrow> dwd_warning \<Rightarrow> string" where
  "warning_key cell w = cell @ ''|'' @ dw_event w @ ''|'' @ itoa (dw_start w) @ ''|'' @ itoa (dw_end w)"

definition level_icon :: "int \<Rightarrow> string" where
  "level_icon l = map char_of
     (if l = 1 then [240, 159, 159, 161 :: nat] else if l = 2 then [240, 159, 159, 160]
      else if l = 3 then [240, 159, 148, 180] else if l = 4 then [240, 159, 159, 163]
      else [226, 154, 160, 239, 184, 143])"

definition format_warning :: "(int \<Rightarrow> string) \<Rightarrow> dwd_warning \<Rightarrow> string" where
  "format_warning until w =
     level_icon (dw_level w) @ '' '' @ dw_region w @ '': '' @ trim_space (dw_headline w) @ '' (bis '' @ until (dw_end w) @ '')''"

definition umlaut_u :: string where
  "umlaut_u = map char_of [195, 188 :: nat]"

definition cell_region_name :: "string \<Rightarrow> string" where
  "cell_region_name cell = ''D'' @ umlaut_u @ ''sseldorf'' @
     (if cell = ''705111001'' then ''-Mitte/West'' else if cell = ''705111002'' then ''-Nord''
      else if cell = ''705111003'' then ''-S'' @ umlaut_u @ ''d'' else if cell = ''705111004'' then ''-Ost'' else [])"

text \<open>The warnings not seen before, each marked as seen when its message is made.\<close>

fun new_warnings :: "(int \<Rightarrow> string) \<Rightarrow> (string \<times> dwd_warning) list \<Rightarrow> string list \<Rightarrow> string list \<times> string list" where
  "new_warnings until [] seen = ([], seen)"
| "new_warnings until ((cell, w) # ws) seen =
     (if warning_key cell w \<in> set seen then new_warnings until ws seen
      else (case new_warnings until ws (warning_key cell w # seen) of
        (msgs, seen) \<Rightarrow> (format_warning until w # msgs, seen)))"

definition cell_warnings :: "(string \<Rightarrow> dwd_warning list) \<Rightarrow> (string \<times> dwd_warning) list" where
  "cell_warnings w = concat (map (\<lambda>c. map (Pair c) (w c)) warn_cells)"

text \<open>The first message that is not posted ends the round; the number posted so far.\<close>

fun post_until :: "(string \<Rightarrow> 'p \<Rightarrow> bool \<times> 'p) \<Rightarrow> string list \<Rightarrow> nat \<Rightarrow> 'p \<Rightarrow> nat \<times> 'p" where
  "post_until say [] n p = (n, p)"
| "post_until say (m # ms) n p = (case say m p of (True, p) \<Rightarrow> post_until say ms (n + 1) p | (False, p) \<Rightarrow> (n, p))"

definition all_clear :: "string \<Rightarrow> string" where
  "all_clear cell = icon ''ok'' @ '' '' @ cell_region_name cell @ '': keine aktiven Warnungen mehr''"

definition cell_of_key :: "string \<Rightarrow> string" where
  "cell_of_key k = takeWhile (\<lambda>c. c \<noteq> CHR ''|'') k"

definition cleared_cells :: "(string \<Rightarrow> dwd_warning list) \<Rightarrow> string list \<Rightarrow> string list" where
  "cleared_cells w seen = filter (\<lambda>c. c \<in> cell_of_key ` set seen \<and> w c = []) warn_cells"

definition dwd_poll :: "(string \<Rightarrow> 'p \<Rightarrow> bool \<times> 'p) \<Rightarrow> (int \<Rightarrow> string) \<Rightarrow> (string \<Rightarrow> dwd_warning list) option \<Rightarrow>
    'p \<times> string list \<Rightarrow> 'p \<times> string list" where
  "dwd_poll say until answer = (\<lambda>(p, seen).
     (case answer of
        None \<Rightarrow> (p, seen)
      | Some w \<Rightarrow> (case new_warnings until (cell_warnings w) seen of (msgs, seen) \<Rightarrow>
          (case post_until say msgs 0 p of (posted, p) \<Rightarrow>
            (let p = (if posted > 0 then fold (\<lambda>c p. snd (say (all_clear c) p)) (cleared_cells w seen) p else p);
                 live = map (\<lambda>(c, w). warning_key c w) (cell_warnings w)
             in (p, filter (\<lambda>k. k \<in> set live) seen))))))"

subsection \<open>Root file systems\<close>

text \<open>-1 is a level not known yet.\<close>

definition disk_class :: "rat \<Rightarrow> int" where
  "disk_class pct = (if pct \<ge> 95 then 2 else if pct \<ge> 85 then 1 else 0)"

text \<open>The number on the line of a metric for the root file system.\<close>

definition metric_value :: "string \<Rightarrow> string \<Rightarrow> string option" where
  "metric_value metric line =
     (if \<not> has_prefix line (metric @ ''{'') then None
      else (let rest = drop (length metric + 1) line; labels = takeWhile (\<lambda>c. c \<noteq> CHR ''}'') rest;
                after = drop (length labels + 1) rest;
                num = takeWhile (\<lambda>c. is_digit c \<or> c \<in> set ''.eE+-'') (dropWhile re_space after)
            in if length labels < length rest \<and> contains labels (''mountpoint='' @ [CHR 0x22] @ ''/'' @ [CHR 0x22])
                  \<and> after \<noteq> [] \<and> re_space (hd after) \<and> num \<noteq> [] then Some num else None))"

definition usage_line :: "(string \<Rightarrow> rat option) \<Rightarrow> string \<Rightarrow> rat \<times> rat option \<Rightarrow> rat \<times> rat option" where
  "usage_line parse line = (\<lambda>(total_b, avail).
     let num = (\<lambda>s. case parse s of None \<Rightarrow> 0 | Some v \<Rightarrow> v)
     in (case metric_value ''node_filesystem_size_bytes'' line of None \<Rightarrow> total_b | Some s \<Rightarrow> num s,
         case metric_value ''node_filesystem_avail_bytes'' line of None \<Rightarrow> avail | Some s \<Rightarrow> Some (num s)))"

text \<open>The document is None where asking for it fails or its status is not 200.\<close>

definition root_usage :: "(string \<Rightarrow> rat option) \<Rightarrow> string option \<Rightarrow> (rat \<times> rat) option" where
  "root_usage parse doc =
     (case doc of
        None \<Rightarrow> None
      | Some body \<Rightarrow> (case fold (usage_line parse) (split_on LF body) (0, None) of
          (total_b, Some avail) \<Rightarrow> if total_b \<le> 0 then None else Some (total_b - avail, total_b)
        | _ \<Rightarrow> None))"

definition format_host :: "string \<Rightarrow> rat \<Rightarrow> rat \<Rightarrow> int \<Rightarrow> string" where
  "format_host name used total_b level = icon (if level = 2 then ''crit'' else ''warn'') @ '' diskwatch: '' @ name
     @ '' / at '' @ fixed 0 (100 * used / total_b) @ ''% ('' @ fixed 1 (used / 2 ^ 30) @ '' of '' @ fixed 1 (total_b / 2 ^ 30)
     @ '' GiB used)''"

definition host_message :: "string \<Rightarrow> rat \<Rightarrow> rat \<Rightarrow> (int \<times> rat) option \<Rightarrow> string option" where
  "host_message name used total_b prev = (let pct = 100 * used / total_b; level = disk_class pct in
     (case prev of
        None \<Rightarrow> if level \<ge> 1 then Some (format_host name used total_b level) else None
      | Some (was, was_pct) \<Rightarrow>
          if level > was then Some (format_host name used total_b level)
          else if level < was
          then Some (icon ''ok'' @ '' diskwatch: '' @ name @ '' / back to '' @ fixed 0 pct @ ''% (was '' @ fixed 0 was_pct @ ''%)'')
          else None))"

definition host_check :: "(string \<Rightarrow> 'p \<Rightarrow> bool \<times> 'p) \<Rightarrow> (string \<Rightarrow> (rat \<times> rat) option) \<Rightarrow> string \<Rightarrow>
    'p \<times> (string \<rightharpoonup> int \<times> rat) \<Rightarrow> 'p \<times> (string \<rightharpoonup> int \<times> rat)" where
  "host_check say usage name = (\<lambda>(p, state).
     (case usage name of
        None \<Rightarrow> (p, state)
      | Some (used, total_b) \<Rightarrow> (let pct = 100 * used / total_b in
          (case host_message name used total_b (state name) of None \<Rightarrow> p | Some m \<Rightarrow> snd (say m p),
           state(name \<mapsto> (disk_class pct, pct))))))"

definition disk_round :: "(string \<Rightarrow> 'p \<Rightarrow> bool \<times> 'p) \<Rightarrow> (string \<Rightarrow> (rat \<times> rat) option) \<Rightarrow> string list \<Rightarrow>
    'p \<times> (string \<rightharpoonup> int \<times> rat) \<Rightarrow> 'p \<times> (string \<rightharpoonup> int \<times> rat)" where
  "disk_round say usage names x = fold (host_check say usage) names x"

subsection \<open>Up and down\<close>

datatype target_kind = Metrics | Ping | Tcp | Unknown_kind

record up_target =
  ut_kind :: target_kind
  ut_name :: string
  ut_url :: string
  ut_host :: string
  ut_port :: int
  ut_label :: string

text \<open>The lines of a document, None where asking for it fails or its status is not 200; pings; connections.\<close>

record up_env =
  ue_get :: "string \<Rightarrow> string list option"
  ue_ping :: "string \<Rightarrow> bool"
  ue_tcp :: "string \<Rightarrow> int \<Rightarrow> bool"

text \<open>The name and the value on the line of a health probe.\<close>

definition probe_line :: "string \<Rightarrow> (string \<times> string) option" where
  "probe_line line = (let start = ''health_probe_up{name='' @ [CHR 0x22]; mid = [CHR 0x22] @ '',url='' @ [CHR 0x22];
       close = [CHR 0x22, CHR ''}''] in
     if \<not> has_prefix line start then None
     else (let rest = drop (length start) line; name = takeWhile (\<lambda>c. c \<noteq> CHR 0x22) rest;
               rest = drop (length name) rest
       in if \<not> has_prefix rest mid then None
       else (let rest = dropWhile (\<lambda>c. c \<noteq> CHR 0x22) (drop (length mid) rest)
         in if \<not> has_prefix rest close then None
         else (let rest = drop 2 rest; num = dropWhile re_space rest; int_part = takeWhile is_digit num;
                   frac = drop (length int_part) num; digits = takeWhile is_digit (tl frac)
           in if rest = [] \<or> \<not> re_space (hd rest) \<or> int_part = [] then None
              else Some (name, int_part @ (if frac \<noteq> [] \<and> hd frac = CHR ''.'' \<and> digits \<noteq> [] then ''.'' @ digits else []))))))"

text \<open>The results so far; their order stands for the one in which the map is walked through.\<close>

definition run_metrics :: "up_env \<Rightarrow> up_target \<Rightarrow> (string \<times> bool) list \<Rightarrow> (string \<times> bool) list" where
  "run_metrics e t res =
     (case ue_get e (ut_url t) of
        None \<Rightarrow> AList.update (ut_name t @ ''/node'') False res
      | Some lines \<Rightarrow> fold (\<lambda>l res. case probe_line l of None \<Rightarrow> res
            | Some (name, v) \<Rightarrow> AList.update (ut_name t @ ''/'' @ name) (v = ''1'') res)
          lines (AList.update (ut_name t @ ''/node'') True res))"

definition run_target :: "up_env \<Rightarrow> up_target \<Rightarrow> (string \<times> bool) list \<Rightarrow> (string \<times> bool) list" where
  "run_target e t res =
     (case ut_kind t of
        Metrics \<Rightarrow> run_metrics e t res
      | Ping \<Rightarrow> AList.update (ut_name t @ ''/reachable'') (ue_ping e (ut_host t)) res
      | Tcp \<Rightarrow> AList.update (ut_name t @ ''/'' @ ut_label t) (ue_tcp e (ut_host t) (ut_port t)) res
      | Unknown_kind \<Rightarrow> res)"

definition run_up_checks :: "up_env \<Rightarrow> up_target list \<Rightarrow> (string \<times> bool) list" where
  "run_up_checks e ts = fold (run_target e) ts []"

definition up_message :: "bool \<Rightarrow> string \<Rightarrow> string" where
  "up_message up key = (if up then [CHR 0x03] @ ''3UP'' @ [CHR 0x03] @ '' '' else [CHR 0x03] @ ''4DOWN'' @ [CHR 0x03] @ '' '') @ key"

definition transitions :: "(string \<rightharpoonup> bool) \<Rightarrow> (string \<times> bool) list \<Rightarrow> string list" where
  "transitions previous current = concat (map (\<lambda>(key, up).
     case previous key of None \<Rightarrow> [] | Some was \<Rightarrow> if was = up then [] else [up_message up key]) current)"

text \<open>The handshake of the bot that connects for its messages only, and what it writes on the way.\<close>

function join_channel :: "string \<Rightarrow> string list \<Rightarrow> string \<Rightarrow> string list option" where
  "join_channel chan sent inp =
     (case read_string inp of
        None \<Rightarrow> None
      | Some (raw, rest) \<Rightarrow>
          (let line = trim_eol raw; fields = str_fields line in
             if fields = [] then join_channel chan sent rest
             else if fields ! 0 = ''PING'' then join_channel chan (sent @ [pong_line line]) rest
             else if length fields > 1 \<and> fields ! 1 = ''001'' then join_channel chan (sent @ [''JOIN '' @ chan]) rest
             else if length fields > 1 \<and> fields ! 1 = ''366'' then Some sent
             else join_channel chan sent rest))"
  by pat_completeness auto
termination by (relation "measure (\<lambda>(_, _, s). length s)") (auto dest: read_string_length)

declare join_channel.simps [simp del]

text \<open>The lines sent; None where dialling or reading fails.\<close>

definition post_to_irc :: "string \<Rightarrow> string \<Rightarrow> string list \<Rightarrow> string option \<Rightarrow> string list option" where
  "post_to_irc nick chan msgs dial =
     (case dial of
        None \<Rightarrow> None
      | Some inp \<Rightarrow> map_option (\<lambda>sent. sent @ map (\<lambda>m. ''PRIVMSG '' @ chan @ '' :'' @ m) msgs @ [''QUIT :state change posted''])
          (join_channel chan [''NICK '' @ nick, ''USER '' @ nick @ '' 0 * :Uptime Bot''] inp))"

text \<open>One run of the program: the lines sent and the state the next run finds.  A failure to post ends it.\<close>

definition uptime_run :: "string \<Rightarrow> string \<Rightarrow> up_env \<Rightarrow> up_target list \<Rightarrow> string option \<Rightarrow> (string \<rightharpoonup> bool) \<Rightarrow>
    string list \<times> (string \<rightharpoonup> bool)" where
  "uptime_run nick chan e ts dial previous =
     (let current = run_up_checks e ts; msgs = transitions previous current in
      if msgs = [] then ([], map_of current)
      else (case post_to_irc nick chan msgs dial of
              None \<Rightarrow> ([], previous)
            | Some sent \<Rightarrow> (sent, map_of current)))"

subsection \<open>Comics\<close>

record comic =
  cm_num :: int
  cm_title :: string
  cm_img :: string

definition long_dash :: string where
  "long_dash = map char_of [226, 128, 148 :: nat]"

definition comic_message :: "comic \<Rightarrow> string" where
  "comic_message c = ''xkcd #'' @ itoa (cm_num c) @ '': '' @ cm_title c @ '' '' @ long_dash @ '' https://xkcd.com/''
     @ itoa (cm_num c) @ ''/ ('' @ cm_img c @ '')''"

text \<open>The file with the last number: Inl is an error of reading it, Inr None that there is no file.\<close>

definition read_last_seen :: "unit + string option \<Rightarrow> int option" where
  "read_last_seen file =
     (case file of
        Inl _ \<Rightarrow> None
      | Inr None \<Rightarrow> Some 0
      | Inr (Some data) \<Rightarrow> (case atoi (trim_space data) of (n, good) \<Rightarrow> if good then Some n else None))"

definition write_last_seen :: "bool \<Rightarrow> int \<Rightarrow> unit + string option \<Rightarrow> unit + string option" where
  "write_last_seen written n file = (if written then Inr (Some (itoa n)) else file)"

text \<open>One turn of the loop, given the answer of the server and whether the file can be written.\<close>

definition comic_poll :: "(string \<Rightarrow> 'p \<Rightarrow> bool \<times> 'p) \<Rightarrow> comic option \<Rightarrow> bool \<Rightarrow>
    'p \<times> (unit + string option) \<Rightarrow> 'p \<times> (unit + string option)" where
  "comic_poll say answer written = (\<lambda>(p, file).
     (case answer of
        None \<Rightarrow> (p, file)
      | Some c \<Rightarrow> (case read_last_seen file of
          None \<Rightarrow> (p, file)
        | Some seen \<Rightarrow>
            if seen = 0 then (p, write_last_seen written (cm_num c) file)
            else if cm_num c \<le> seen then (p, file)
            else (case say (comic_message c) p of
              (False, p) \<Rightarrow> (p, file)
            | (True, p) \<Rightarrow> (p, write_last_seen written (cm_num c) file)))))"

subsection \<open>Forecast\<close>

record forecast =
  fc_temperature :: "rat list"
  fc_precipitation :: "rat list"
  fc_gusts :: "rat list"
  fc_sunrise :: "string list"
  fc_sunset :: "string list"

text \<open>None is the panic on an empty list.\<close>

definition min_max :: "rat list \<Rightarrow> (rat \<times> rat) option" where
  "min_max xs = (case xs of [] \<Rightarrow> None
     | x # xs \<Rightarrow> Some (fold (\<lambda>y (lo, hi). (if y < lo then y else lo, if y > hi then y else hi)) xs (x, x)))"

definition sum_of :: "rat list \<Rightarrow> rat" where
  "sum_of xs = fold (\<lambda>x s. s + x) xs 0"

definition clock_of :: "string \<Rightarrow> string" where
  "clock_of stamp = (case index_of stamp ''T'' of None \<Rightarrow> stamp | Some i \<Rightarrow> drop (i + 1) stamp)"

definition bytes :: "nat list \<Rightarrow> string" where
  "bytes = map char_of"

definition forecast_message :: "forecast \<Rightarrow> (unit + string) option" where
  "forecast_message f =
     (if fc_temperature f = [] \<or> fc_sunrise f = [] \<or> fc_sunset f = [] then Some (Inl ())
      else (case (min_max (fc_temperature f), min_max (fc_gusts f)) of
          (Some (lo, hi), Some (_, gust)) \<Rightarrow> Some (Inr
             (''D'' @ umlaut_u @ ''sseldorf: '' @ bytes [240, 159, 140, 161, 239, 184, 143] @ fixed 0 lo @ bytes [226, 128, 147]
              @ fixed 0 hi @ bytes [194, 176] @ ''C '' @ bytes [240, 159, 140, 167, 239, 184, 143]
              @ fixed 1 (sum_of (fc_precipitation f)) @ ''mm '' @ bytes [240, 159, 140, 172, 239, 184, 143, 226, 137, 164]
              @ fixed 0 gust @ ''kn '' @ bytes [240, 159, 140, 133] @ clock_of (hd (fc_sunrise f)) @ '' ''
              @ bytes [240, 159, 140, 135] @ clock_of (hd (fc_sunset f))))
        | _ \<Rightarrow> None))"

subsection \<open>Headlines\<close>

text \<open>The end of a headline's link, after its opening: the page and what stands between the tags.\<close>

definition headline_open :: string where
  "headline_open = ''<td class='' @ [CHR 0x22] @ ''text'' @ [CHR 0x22] @ ''>''"

definition link_open :: string where
  "link_open = ''<a href='' @ [CHR 0x22] @ ''/mobil/''"

definition headline_match :: "string \<Rightarrow> ((string \<times> string) \<times> string) option" where
  "headline_match s =
     (if \<not> has_prefix s headline_open then None
      else (let s = dropWhile re_space (drop (length headline_open) s) in
        if \<not> has_prefix s link_open then None
        else (let s = drop (length link_open) s; page = takeWhile is_digit s; s = drop (length page) s in
          if page = [] \<or> \<not> has_prefix s [CHR 0x22, CHR ''>''] then None
          else (let s = drop 2 s; inner = takeWhile (\<lambda>c. c \<noteq> CHR ''<'') s; s = drop (length inner) s in
            if inner = [] \<or> \<not> has_prefix s ''</a>'' then None
            else Some ((page, inner), drop 4 s)))))"

text \<open>The group of the title leaves out the white space around it, but for one character of nothing else.\<close>

definition title_group :: "string \<Rightarrow> string" where
  "title_group inner = (let t = dropWhile re_space inner in
     if t = [] then [last inner] else rev (dropWhile re_space (rev t)))"

text \<open>The matches from left to right, without overlaps: the number says how much is part of the last one.\<close>

fun headlines :: "nat \<Rightarrow> string \<Rightarrow> (string \<times> string) list" where
  "headlines k [] = []"
| "headlines (Suc k) (c # cs) = headlines k cs"
| "headlines 0 (c # cs) =
     (case headline_match (c # cs) of
        None \<Rightarrow> headlines 0 cs
      | Some ((page, inner), rest) \<Rightarrow> (page, title_group inner) # headlines (length cs - length rest) cs)"

definition story_of :: "(string \<Rightarrow> string) \<Rightarrow> string \<times> string \<Rightarrow> (string \<times> string) list" where
  "story_of unescape = (\<lambda>(page, group). let title = trim_space (unescape group) in
     (case atoi page of (n, good) \<Rightarrow> if \<not> good \<or> n < 103 \<or> title = [] then []
        else [(title, ''https://www.ard-text.de/mobil/'' @ page)]))"

text \<open>None where the page cannot be had or has fewer headlines than wanted.\<close>

definition top_stories :: "(string \<Rightarrow> string) \<Rightarrow> string option \<Rightarrow> (string \<times> string) list option" where
  "top_stories unescape doc =
     (case doc of
        None \<Rightarrow> None
      | Some body \<Rightarrow> (let stories = take 3 (concat (map (story_of unescape) (headlines 0 body))) in
          if length stories < 3 then None else Some stories))"

definition post_once :: "(string \<Rightarrow> 'p \<Rightarrow> bool \<times> 'p) \<Rightarrow> ('p \<Rightarrow> bool) \<Rightarrow> (string \<Rightarrow> string) \<Rightarrow> string option \<Rightarrow> 'p \<Rightarrow> 'p" where
  "post_once say joined unescape doc p =
     (case top_stories unescape doc of
        None \<Rightarrow> p
      | Some stories \<Rightarrow> if \<not> joined p then p else snd (post_until say (''==='' # map fst stories) 0 p))"

text \<open>
  The next of the posting times, given which instant a time of a day from now is, in seconds; None would
  be the zero time.
\<close>

definition next_post :: "(int \<Rightarrow> int \<Rightarrow> int) \<Rightarrow> int \<Rightarrow> int option" where
  "next_post at_time now = fold (\<lambda>t best. case best of
       None \<Rightarrow> if t > now then Some t else None
     | Some b \<Rightarrow> if t > now \<and> t < b then Some t else Some b)
     [at_time 0 8, at_time 0 16, at_time 0 0, at_time 1 8, at_time 1 16, at_time 1 0] None"

end
