(* ===== verification/BotNews.thy ===== *)
theory BotNews
  imports ChannelBots
begin

text \<open>
  What the bots of the channel say twice, once or never: warnings, comics, checks that went down, and the
  forecast that ends the program.
\<close>

subsection \<open>Warnings\<close>

definition live_keys :: "(string \<Rightarrow> dwd_warning list) \<Rightarrow> string set" where
  "live_keys w = (\<lambda>(c, x). warning_key c x) ` set (cell_warnings w)"

lemma new_warnings_seen:
  "new_warnings until ws seen = (msgs, seen') \<Longrightarrow> set seen' = set seen \<union> (\<lambda>(c, x). warning_key c x) ` set ws"
proof (induction until ws seen arbitrary: msgs seen' rule: new_warnings.induct)
  case (2 until cell w ws seen)
  show ?case
  proof (cases "warning_key cell w \<in> set seen")
    case True
    with "2.prems" have "new_warnings until ws seen = (msgs, seen')" by simp
    from "2.IH"(1) [OF True this] True show ?thesis by auto
  next
    case False
    obtain ms where "new_warnings until ws (warning_key cell w # seen) = (ms, seen')"
      using "2.prems" False by (auto split: prod.splits)
    from "2.IH"(2) [OF False this] show ?thesis by auto
  qed
qed simp

lemma new_warnings_none:
  "(\<lambda>(c, x). warning_key c x) ` set ws \<subseteq> set seen \<Longrightarrow> new_warnings until ws seen = ([], seen)"
  by (induction until ws seen rule: new_warnings.induct) auto

lemma poll_no_news:
  assumes "live_keys w \<subseteq> set seen"
  shows "dwd_poll say until (Some w) (p, seen) = (p, filter (\<lambda>k. k \<in> live_keys w) seen)"
  using new_warnings_none [of "cell_warnings w" seen until] assms
  by (simp add: dwd_poll_def live_keys_def Let_def)

lemma poll_seen:
  "set (snd (dwd_poll say until (Some w) x)) = live_keys w \<and> (\<forall>k\<in>set (snd (dwd_poll say until (Some w) x)). k \<in> live_keys w)"
proof -
  obtain p seen where x: "x = (p, seen)" by (metis surj_pair)
  obtain msgs seen' where n: "new_warnings until (cell_warnings w) seen = (msgs, seen')" by (metis surj_pair)
  from new_warnings_seen [OF n] have "live_keys w \<subseteq> set seen'" by (auto simp: live_keys_def)
  with n show ?thesis by (auto simp: x dwd_poll_def Let_def live_keys_def case_prod_beta)
qed

text \<open>
  A warning is told at most once, and is given up when it cannot be told: after a poll, a poll that
  finds the same warnings posts nothing, whether or not the first one's messages were posted (the
  warnings count as seen when the messages are made).
\<close>

theorem warnings_told_once:
  "dwd_poll say' until (Some w) (p', snd (dwd_poll say until (Some w) x)) = (p', snd (dwd_poll say until (Some w) x))"
  using poll_seen [of say until w x] poll_no_news [of w "snd (dwd_poll say until (Some w) x)" say' until p']
  by (simp add: filter_id_conv)

text \<open>
  The notice that a place has no warnings any more is sent only in a round that has a new warning for
  some other place: when the warnings of all places end, nothing is posted.
\<close>

theorem all_clear_unsent:
  "fst (dwd_poll say until (Some (\<lambda>_. [])) (p, seen)) = p"
proof -
  have "cell_warnings (\<lambda>_. []) = []" by (simp add: cell_warnings_def)
  then show ?thesis by (simp add: dwd_poll_def Let_def)
qed

subsection \<open>Comics\<close>

text \<open>A poster whose successes are given in advance, with what it has posted.\<close>

fun scripted_say :: "string \<Rightarrow> bool list \<times> string list \<Rightarrow> bool \<times> bool list \<times> string list" where
  "scripted_say s ([], out) = (True, [], out @ [s])"
| "scripted_say s (r # rs, out) = (r, rs, if r then out @ [s] else out)"

interpretation scripted: poster scripted_say snd "\<lambda>_. True" "\<lambda>s. s"
proof
  fix p s r p'
  assume "scripted_say s p = (r, p')"
  then show "True \<and> snd p' = snd p @ (if r then [s] else [])"
    by (cases p; cases "fst p") auto
qed

lemma digits_tail:
  assumes "\<forall>c\<in>set s. is_digit c \<or> c = CHR ''-''" "s \<noteq> []"
  shows "space_tail s = 0"
proof -
  have "\<not> has_suffix s e" if "e \<in> set wide_spaces" for e
  proof
    assume "has_suffix s e"
    then obtain t where s: "s = t @ e" by (auto simp: has_suffix_iff)
    from that have "e \<noteq> []" "\<not> is_digit (last e)" "last e \<noteq> CHR ''-''"
      by (auto simp: wide_spaces_def is_digit_def)
    with assms(1) s show False by auto
  qed
  then have "find (has_suffix s) wide_spaces = None" by (auto simp: find_None_iff)
  moreover have "\<not> is_ascii_space (last s)" using assms digit_or_minus_plain [of "last s"] by auto
  ultimately show ?thesis using assms(2) by (simp add: space_tail_def)
qed

lemma itoa_trim: "trim_space (itoa n) = itoa n"
proof (rule trim_space_id)
  show "space_head (itoa n) = 0" using itoa_solid [of n] by (cases "itoa n") auto
  show "space_tail (itoa n) = 0" by (rule digits_tail) (auto dest: itoa_chars)
qed

lemma written_number:
  "min_int64 \<le> n \<Longrightarrow> n \<le> max_int64 \<Longrightarrow> read_last_seen (Inr (Some (itoa n))) = Some n"
  by (simp add: read_last_seen_def itoa_trim atoi_itoa)

text \<open>
  C24. Comics are announced in order and none twice, whether or not messages come through and the file can
  be written at times: over any number of polls, those announced after the file said \<open>n\<close> have
  ascending numbers above \<open>n\<close>, as long as the file is written after each.
\<close>

theorem comics_ascend:
  assumes "read_last_seen fl = Some n" "0 \<le> n"
    and "\<forall>c. Some c \<in> set answers \<longrightarrow> 0 < cm_num c \<and> cm_num c \<le> max_int64"
  shows "\<exists>cs. snd (fst (fold (\<lambda>a. comic_poll scripted_say a True) answers ((script, told), fl))) = told @ map comic_message cs
    \<and> sorted_wrt (<) (n # map cm_num cs) \<and> Some ` set cs \<subseteq> set answers"
  using assms
proof (induction answers arbitrary: fl n script told)
  case (Cons a answers)
  obtain script' told' fl' where step: "comic_poll scripted_say a True ((script, told), fl) = ((script', told'), fl')"
    by (metis surj_pair)
  have "\<exists>n' cs. read_last_seen fl' = Some n' \<and> n \<le> n' \<and> told' = told @ map comic_message cs
      \<and> (cs = [] \<or> (\<exists>c. cs = [c] \<and> a = Some c \<and> n < cm_num c \<and> n' = cm_num c))"
  proof (cases a)
    case None
    with step Cons.prems(1) show ?thesis by (auto simp: comic_poll_def)
  next
    case (Some c)
    then have c: "0 < cm_num c" "cm_num c \<le> max_int64" "min_int64 \<le> cm_num c"
      using Cons.prems(3) by (auto simp: min_int64_def)
    note wrote = written_number [OF c(3,2)]
    obtain r p where say: "scripted_say (comic_message c) (script, told) = (r, p)" by (metis surj_pair)
    show ?thesis
    proof (cases "n = 0 \<or> cm_num c \<le> n")
      case True
      with step Cons.prems(1) Some c wrote show ?thesis
        by (auto simp: comic_poll_def write_last_seen_def split: if_splits)
    next
      case False
      with step Cons.prems(1) Some say wrote scripted.say_law [OF _ say] show ?thesis
        by (cases r) (auto simp: comic_poll_def write_last_seen_def intro!: exI [of _ "[c]"])
    qed
  qed
  then obtain n' cs where st: "read_last_seen fl' = Some n'" "n \<le> n'" "told' = told @ map comic_message cs"
    "cs = [] \<or> (\<exists>c. cs = [c] \<and> a = Some c \<and> n < cm_num c \<and> n' = cm_num c)" by blast
  from Cons.IH [OF st(1), of script' told'] Cons.prems(2,3) st(2) obtain ds where
    "snd (fst (fold (\<lambda>a. comic_poll scripted_say a True) answers ((script', told'), fl'))) = told' @ map comic_message ds"
    "sorted_wrt (<) (n' # map cm_num ds)" "Some ` set ds \<subseteq> set answers" by auto
  with st step show ?case by (intro exI [of _ "cs @ ds"]) (force simp: sorted_wrt_append)
qed (intro exI [of _ "[]"], simp)

subsection \<open>Forecast\<close>

text \<open>
  The forecast ends the program exactly when the answer has temperatures and the times of the sun, but no
  gusts: the check for missing data does not look at them.
\<close>

theorem forecast_panics:
  "forecast_message f = None \<longleftrightarrow> fc_temperature f \<noteq> [] \<and> fc_sunrise f \<noteq> [] \<and> fc_sunset f \<noteq> [] \<and> fc_gusts f = []"
  by (auto simp: forecast_message_def min_max_def case_prod_beta split: list.splits)

subsection \<open>Up and down\<close>

text \<open>
  What goes down with its host is never announced: if the host does not answer in one run, the next
  run knows its health probes no more, and says nothing of a probe that is then found down, though it was
  up before.
\<close>

theorem probe_forgotten:
  assumes "ut_kind t = Metrics" "ue_get e (ut_url t) = None"
    and "post_to_irc nick chan (transitions previous (run_up_checks e [t])) dial \<noteq> None"
    and "up_message False (ut_name t @ ''/'' @ probe) = m" "probe \<noteq> ''node''"
  shows "m \<notin> set (transitions (snd (uptime_run nick chan e [t] dial previous)) (run_up_checks e' [t]))"
proof -
  have down: "run_up_checks e [t] = [(ut_name t @ ''/node'', False)]"
    using assms(1,2) by (simp add: run_up_checks_def run_target_def run_metrics_def)
  have state: "snd (uptime_run nick chan e [t] dial previous) = map_of (run_up_checks e [t])"
    using assms(3) by (auto simp: uptime_run_def Let_def)
  have "key = ut_name t @ ''/node''" if "up_message up key \<in> set (transitions (map_of (run_up_checks e [t])) cur)" for up key cur
    using that unfolding down by (auto simp: transitions_def up_message_def split: if_splits)
  with assms(4,5) show ?thesis unfolding state by fastforce
qed

text \<open>The host answers, fails to answer, and answers again with its probe down.\<close>

definition up_host :: up_target where
  "up_host = \<lparr>ut_kind = Metrics, ut_name = ''h'', ut_url = ''u'', ut_host = [], ut_port = 0, ut_label = []\<rparr>"

definition host_says :: "string list option \<Rightarrow> up_env" where
  "host_says lines = \<lparr>ue_get = (\<lambda>_. lines), ue_ping = (\<lambda>_. False), ue_tcp = (\<lambda>_ _. False)\<rparr>"

definition web_down :: string where
  "web_down = ''health_probe_up{name='' @ [CHR 0x22] @ ''web'' @ [CHR 0x22] @ '',url='' @ [CHR 0x22] @ ''x''
     @ [CHR 0x22, CHR ''}''] @ '' 0''"

definition joins :: string where
  "joins = '':s 001 n'' @ [CR, LF] @ '':s 366 n'' @ [CR, LF]"

lemma probe_forgotten_witness:
  "up_message False ''h/web'' \<notin> set (transitions (snd (uptime_run ''n'' ''#c'' (host_says None) [up_host] (Some joins)
     [''h/node'' \<mapsto> True, ''h/web'' \<mapsto> True])) (run_up_checks (host_says (Some [web_down])) [up_host]))
   \<and> transitions [''h/node'' \<mapsto> True, ''h/web'' \<mapsto> True] (run_up_checks (host_says (Some [web_down])) [up_host]) = [up_message False ''h/web'']"
proof
  have "post_to_irc ''n'' ''#c'' (transitions [''h/node'' \<mapsto> True, ''h/web'' \<mapsto> True] (run_up_checks (host_says None) [up_host])) (Some joins) \<noteq> None"
    by code_simp
  moreover have "ut_kind up_host = Metrics" "ue_get (host_says None) (ut_url up_host) = None"
    "up_message False (ut_name up_host @ ''/'' @ ''web'') = up_message False ''h/web''" "''web'' \<noteq> ''node''"
    by (simp_all add: up_host_def host_says_def)
  ultimately show "up_message False ''h/web'' \<notin> set (transitions (snd (uptime_run ''n'' ''#c'' (host_says None) [up_host] (Some joins)
      [''h/node'' \<mapsto> True, ''h/web'' \<mapsto> True])) (run_up_checks (host_says (Some [web_down])) [up_host]))"
    by (intro probe_forgotten)
  show "transitions [''h/node'' \<mapsto> True, ''h/web'' \<mapsto> True] (run_up_checks (host_says (Some [web_down])) [up_host]) = [up_message False ''h/web'']"
    by code_simp
qed

text \<open>Comics 6, once with the connection down, and 8.\<close>

definition comic_no :: "int \<Rightarrow> comic" where
  "comic_no n = \<lparr>cm_num = n, cm_title = ''t'', cm_img = ''i''\<rparr>"

lemma comics_ascend_witness:
  "\<exists>cs. snd (fst (fold (\<lambda>a. comic_poll scripted_say a True) [Some (comic_no 6), None, Some (comic_no 6), Some (comic_no 8)]
        (([False], []), Inr (Some ''5'')))) = map comic_message cs \<and> sorted_wrt (<) (5 # map cm_num cs) \<and> length cs = 2"
proof -
  let ?answers = "[Some (comic_no 6), None, Some (comic_no 6), Some (comic_no 8)]"
  have five: "read_last_seen (Inr (Some ''5'')) = Some 5" by code_simp
  have "\<forall>c. Some c \<in> set ?answers \<longrightarrow> 0 < cm_num c \<and> cm_num c \<le> max_int64"
    by (auto simp: comic_no_def max_int64_def)
  from comics_ascend [OF five _ this, of "[False]" "[]"] obtain cs where
    cs: "snd (fst (fold (\<lambda>a. comic_poll scripted_say a True) ?answers (([False], []), Inr (Some ''5'')))) = map comic_message cs"
    "sorted_wrt (<) (5 # map cm_num cs)" by auto
  moreover have "length (snd (fst (fold (\<lambda>a. comic_poll scripted_say a True) ?answers (([False], []), Inr (Some ''5''))))) = 2"
    by code_simp
  ultimately show ?thesis by (metis length_map)
qed

end
