(* ===== verification/Avatars.thy ===== *)
theory Avatars
  imports Web Poller "HOL-Library.Word" "HOL-Library.Numeral_Type"
begin

text \<open>
  Pictures of users: cutting and scaling an uploaded picture (\<^verbatim>\<open>tools/makhor/pkg/imaging/imaging.go\<close>) and serving
  pictures (\<^verbatim>\<open>ServeAvatar\<close> and its helpers in \<^verbatim>\<open>pkg/handlers/users.go\<close>).  A picture is its bounds and a
  function from points to colours; the formats of files are parameters.  Floats are exact rationals: the code's
  rounding of a fraction is not modelled, the coordinates themselves come out whole where they are.
\<close>

subsection \<open>Cutting and scaling\<close>

text \<open>A colour with the red, green and blue already multiplied by the last component, the opacity.\<close>

record pixel =
  px_r :: int
  px_g :: int
  px_b :: int
  px_a :: int

record image =
  im_min_x :: int
  im_min_y :: int
  im_max_x :: int
  im_max_y :: int
  im_at :: "int \<Rightarrow> int \<Rightarrow> pixel"

text \<open>The left and upper margin that is cut off and the side of the square that is left.\<close>

definition crop_square :: "image \<Rightarrow> int \<times> int \<times> int" where
  "crop_square im =
     (let w = im_max_x im - im_min_x im; h = im_max_y im - im_min_y im
      in if w > h then ((w - h) sdiv 2, 0, h) else (0, (h - w) sdiv 2, w))"

definition whole :: "rat \<Rightarrow> int" where
  "whole x = (if x < 0 then - \<lfloor>- x\<rfloor> else \<lfloor>x\<rfloor>)"

text \<open>A coordinate of the source, as a whole number and a fraction, and the neighbour that is no further than the edge.\<close>

definition source_coord :: "int \<Rightarrow> int \<Rightarrow> int \<Rightarrow> int \<Rightarrow> int \<Rightarrow> int \<times> int \<times> rat" where
  "source_coord n side start limit k =
     (let f = of_int k * of_int (side - 1) / of_int (n - 1) + of_int start; x0 = whole f;
          x1 = (if x0 + 1 \<ge> limit then limit - 1 else x0 + 1)
      in (x0, x1, f - of_int x0))"

definition bilinear :: "int \<Rightarrow> int \<Rightarrow> int \<Rightarrow> int \<Rightarrow> rat \<Rightarrow> rat \<Rightarrow> int" where
  "bilinear c00 c10 c01 c11 x y =
     (let top = of_int c00 * (1 - x) + of_int c10 * x; bottom = of_int c01 * (1 - x) + of_int c11 * x
      in \<lfloor>top * (1 - y) + bottom * y\<rfloor> mod 2 ^ 32)"

definition channel :: "(pixel \<Rightarrow> int) \<Rightarrow> pixel \<Rightarrow> pixel \<Rightarrow> pixel \<Rightarrow> pixel \<Rightarrow> rat \<Rightarrow> rat \<Rightarrow> int" where
  "channel f a b c d x y = bilinear (f a) (f b) (f c) (f d) x y div 2 ^ 8 mod 2 ^ 8"

definition coords :: "image \<Rightarrow> int \<Rightarrow> int \<Rightarrow> int \<Rightarrow> (int \<times> int \<times> rat) \<times> (int \<times> int \<times> rat)" where
  "coords im n dx dy = (case crop_square im of (cx, cy, side) \<Rightarrow>
     (source_coord n side (cx + im_min_x im) (im_max_x im) dx, source_coord n side (cy + im_min_y im) (im_max_y im) dy))"

definition resized_pixel :: "image \<Rightarrow> int \<Rightarrow> int \<Rightarrow> int \<Rightarrow> pixel" where
  "resized_pixel im n dx dy =
     (case coords im n dx dy of ((x0, x1, x), (y0, y1, y)) \<Rightarrow>
        (let a = im_at im x0 y0; b = im_at im x1 y0; c = im_at im x0 y1; d = im_at im x1 y1
         in \<lparr>px_r = channel px_r a b c d x y, px_g = channel px_g a b c d x y,
             px_b = channel px_b a b c d x y, px_a = channel px_a a b c d x y\<rparr>))"

definition resize_to_square :: "(string \<Rightarrow> image option) \<Rightarrow> (int \<Rightarrow> (int \<Rightarrow> int \<Rightarrow> pixel) \<Rightarrow> string option) \<Rightarrow>
    string \<Rightarrow> int \<Rightarrow> string option" where
  "resize_to_square decode encode data n =
     (case decode data of None \<Rightarrow> None | Some im \<Rightarrow> encode n (resized_pixel im n))"

subsection \<open>What the scaling reads and makes\<close>

definition premultiplied :: "int \<Rightarrow> pixel \<Rightarrow> bool" where
  "premultiplied m p \<longleftrightarrow> 0 \<le> px_r p \<and> px_r p \<le> px_a p \<and> 0 \<le> px_g p \<and> px_g p \<le> px_a p
     \<and> 0 \<le> px_b p \<and> px_b p \<le> px_a p \<and> px_a p \<le> m"

definition proper_image :: "image \<Rightarrow> bool" where
  "proper_image im \<longleftrightarrow> 0 \<le> im_min_x im \<and> im_min_x im < im_max_x im \<and> 0 \<le> im_min_y im \<and> im_min_y im < im_max_y im"

lemma crop_inside:
  assumes "proper_image im" "crop_square im = (cx, cy, side)"
  shows "0 \<le> cx" "0 \<le> cy" "0 < side" "cx + side \<le> im_max_x im - im_min_x im" "cy + side \<le> im_max_y im - im_min_y im"
  using assms by (auto simp: crop_square_def proper_image_def Let_def signed_divide_int_def sgn_if split: if_splits)

lemma source_inside:
  assumes "1 < n" "0 \<le> k" "k < n" "0 < side" "0 \<le> start" "start + side \<le> limit"
    and c: "source_coord n side start limit k = (x0, x1, x)"
  shows "start \<le> x0" "x0 < limit" "start \<le> x1" "x1 < limit" "0 \<le> x" "x < 1"
proof -
  define q :: rat where "q = of_int k * of_int (side - 1) / of_int (n - 1)"
  have "(side - 1) * k \<le> (side - 1) * (n - 1)" using assms(1-4) by (intro mult_left_mono) auto
  then have q: "0 \<le> q" "q \<le> of_int (side - 1)"
    unfolding q_def using assms(1-4)
    by (auto simp: divide_simps mult.commute intro!: mult_nonneg_nonneg simp flip: of_int_mult of_int_diff)
  have f: "\<not> q + of_int start < 0" using q(1) assms(5) by (simp add: not_less)
  then have x0: "x0 = \<lfloor>q\<rfloor> + start" "x = q - of_int \<lfloor>q\<rfloor>" "x1 = (if x0 + 1 \<ge> limit then limit - 1 else x0 + 1)"
    using c by (auto simp: source_coord_def whole_def q_def Let_def)
  have "0 \<le> \<lfloor>q\<rfloor>" using q(1) by simp
  moreover have "\<lfloor>q\<rfloor> \<le> side - 1" using floor_mono [OF q(2)] by (simp only: floor_of_int)
  ultimately show "start \<le> x0" "x0 < limit" "start \<le> x1" "x1 < limit" using x0 assms(4-6) by (auto split: if_splits)
  show "0 \<le> x" "x < 1" unfolding x0(2) by linarith+
qed

lemma coords_inside:
  assumes "proper_image im" "1 < n" "0 \<le> dx" "dx < n" "0 \<le> dy" "dy < n"
    and "coords im n dx dy = ((x0, x1, x), (y0, y1, y))"
  shows "{x0, x1} \<subseteq> {im_min_x im ..< im_max_x im}" "{y0, y1} \<subseteq> {im_min_y im ..< im_max_y im}" "0 \<le> x" "x < 1" "0 \<le> y" "y < 1"
proof -
  obtain cx cy side where c: "crop_square im = (cx, cy, side)" by (metis prod_cases3)
  note crop = crop_inside [OF assms(1) c]
  have sx: "source_coord n side (cx + im_min_x im) (im_max_x im) dx = (x0, x1, x)"
    and sy: "source_coord n side (cy + im_min_y im) (im_max_y im) dy = (y0, y1, y)"
    using assms(7) by (simp_all add: coords_def c)
  have lim: "0 \<le> cx + im_min_x im" "cx + im_min_x im + side \<le> im_max_x im" "0 \<le> cy + im_min_y im" "cy + im_min_y im + side \<le> im_max_y im"
    using crop assms(1) by (auto simp: proper_image_def)
  note source_inside [OF assms(2-4) crop(3) lim(1,2) sx] source_inside [OF assms(2,5,6) crop(3) lim(3,4) sy]
  with crop show "{x0, x1} \<subseteq> {im_min_x im ..< im_max_x im}" "{y0, y1} \<subseteq> {im_min_y im ..< im_max_y im}"
    "0 \<le> x" "x < 1" "0 \<le> y" "y < 1" by auto
qed

text \<open>
  Scaling reads inside the picture: for every point of the result, the four points whose colours are mixed lie
  within the bounds of the picture that was uploaded.
\<close>

theorem resize_reads_inside:
  assumes "proper_image im" "1 < n" "0 \<le> dx" "dx < n" "0 \<le> dy" "dy < n"
    and "coords im n dx dy = ((x0, x1, x), (y0, y1, y))"
  shows "{x0, x1} \<subseteq> {im_min_x im ..< im_max_x im} \<and> {y0, y1} \<subseteq> {im_min_y im ..< im_max_y im}"
  using coords_inside [OF assms] by simp

subsection \<open>What the scaling makes\<close>

lemma mixed:
  fixes x y :: rat
  assumes "0 \<le> x" "x < 1" "0 \<le> y" "y < 1" "0 \<le> a" "0 \<le> b" "0 \<le> c" "0 \<le> d" "a \<le> a'" "b \<le> b'" "c \<le> c'" "d \<le> d'"
  shows "0 \<le> (of_int a * (1 - x) + of_int b * x) * (1 - y) + (of_int c * (1 - x) + of_int d * x) * y"
    "(of_int a * (1 - x) + of_int b * x) * (1 - y) + (of_int c * (1 - x) + of_int d * x) * y
      \<le> (of_int a' * (1 - x) + of_int b' * x) * (1 - y) + (of_int c' * (1 - x) + of_int d' * x) * y"
  using assms by (auto intro!: add_mono mult_right_mono add_nonneg_nonneg mult_nonneg_nonneg)

lemma bilinear_mono:
  assumes "0 \<le> x" "x < 1" "0 \<le> y" "y < 1" "0 \<le> a" "0 \<le> b" "0 \<le> c" "0 \<le> d" "a \<le> a'" "b \<le> b'" "c \<le> c'" "d \<le> d'"
    and "a' \<le> m" "b' \<le> m" "c' \<le> m" "d' \<le> m" "m < 2 ^ 32"
  shows "0 \<le> bilinear a b c d x y \<and> bilinear a b c d x y \<le> bilinear a' b' c' d' x y \<and> bilinear a' b' c' d' x y \<le> m"
proof -
  let ?mix = "\<lambda>a b c d :: int. (of_int a * (1 - x) + of_int b * x) * (1 - y) + (of_int c * (1 - x) + of_int d * x) * y"
  note lo = mixed [OF assms(1-12)]
  have "0 \<le> a'" "0 \<le> b'" "0 \<le> c'" "0 \<le> d'" using assms(5-12) by auto
  note hi = mixed(2) [OF assms(1-4) this assms(13-16)]
  have "?mix m m m m = of_int m" by (simp add: algebra_simps)
  with floor_mono [OF hi] have top: "\<lfloor>?mix a' b' c' d'\<rfloor> \<le> m" by (simp only: floor_of_int)
  have step: "\<lfloor>?mix a b c d\<rfloor> \<le> \<lfloor>?mix a' b' c' d'\<rfloor>" using lo(2) by (rule floor_mono)
  have low: "0 \<le> \<lfloor>?mix a b c d\<rfloor>" using lo(1) by (simp only: zero_le_floor)
  from top step low assms(17) have "bilinear a b c d x y = \<lfloor>?mix a b c d\<rfloor>" "bilinear a' b' c' d' x y = \<lfloor>?mix a' b' c' d'\<rfloor>"
    unfolding bilinear_def Let_def by (intro mod_pos_pos_trivial; linarith)+
  with top step low show ?thesis by simp
qed

lemma channel_mono:
  assumes "0 \<le> x" "x < 1" "0 \<le> y" "y < 1" "\<forall>p\<in>{a, b, c, d}. 0 \<le> f p \<and> f p \<le> g p \<and> g p \<le> 65535"
  shows "0 \<le> channel f a b c d x y" "channel f a b c d x y \<le> channel g a b c d x y" "channel g a b c d x y \<le> 255"
proof -
  have "0 \<le> bilinear (f a) (f b) (f c) (f d) x y
      \<and> bilinear (f a) (f b) (f c) (f d) x y \<le> bilinear (g a) (g b) (g c) (g d) x y
      \<and> bilinear (g a) (g b) (g c) (g d) x y \<le> 65535"
    using assms by (intro bilinear_mono) auto
  then have "bilinear (f a) (f b) (f c) (f d) x y div 256 \<le> bilinear (g a) (g b) (g c) (g d) x y div 256"
    "bilinear (g a) (g b) (g c) (g d) x y div 256 \<le> 255" "0 \<le> bilinear (f a) (f b) (f c) (f d) x y div 256"
    by (auto intro: zdiv_mono1)
  then show "0 \<le> channel f a b c d x y" "channel f a b c d x y \<le> channel g a b c d x y" "channel g a b c d x y \<le> 255"
    by (auto simp: channel_def)
qed


text \<open>
  A square picture that has the size asked for is only recoded: every point keeps its colour, in eight bits.
\<close>

theorem resize_same_size:
  assumes "proper_image im" "im_max_x im = im_min_x im + n" "im_max_y im = im_min_y im + n" "1 < n"
    and "0 \<le> dx" "dx < n" "0 \<le> dy" "dy < n" "\<forall>x y. premultiplied 65535 (im_at im x y)"
  shows "resized_pixel im n dx dy = (case im_at im (im_min_x im + dx) (im_min_y im + dy) of p \<Rightarrow>
    \<lparr>px_r = px_r p div 256, px_g = px_g p div 256, px_b = px_b p div 256, px_a = px_a p div 256\<rparr>)"
proof -
  let ?p = "im_at im (im_min_x im + dx) (im_min_y im + dy)"
  have crop: "crop_square im = (0, 0, n)" using assms(2,3) by (simp add: crop_square_def)
  have same: "\<exists>x1. source_coord n n s l k = (s + k, x1, 0)" if "0 \<le> k" "0 \<le> s" for s l k
  proof -
    have "(of_int k * of_int (n - 1) / of_int (n - 1) :: rat) = of_int k" using assms(4) by simp
    with that show ?thesis by (simp add: source_coord_def whole_def Let_def flip: of_int_add)
  qed
  obtain x1 where x1: "source_coord n n (im_min_x im) (im_max_x im) dx = (im_min_x im + dx, x1, 0)"
    using same [OF assms(5)] assms(1) by (auto simp: proper_image_def)
  obtain y1 where y1: "source_coord n n (im_min_y im) (im_max_y im) dy = (im_min_y im + dy, y1, 0)"
    using same [OF assms(7)] assms(1) by (auto simp: proper_image_def)
  have c: "coords im n dx dy = ((im_min_x im + dx, x1, 0), (im_min_y im + dy, y1, 0))"
    by (simp add: coords_def crop x1 y1)
  have ch: "channel f ?p b c d 0 0 = f ?p div 256" if "0 \<le> f ?p" "f ?p \<le> 65535" for f b c d
  proof -
    have "bilinear (f ?p) (f b) (f c) (f d) 0 0 = f ?p" using that by (simp add: bilinear_def)
    moreover have "f ?p div 256 < 256" using that(2) by simp
    ultimately show ?thesis using that(1) by (simp add: channel_def)
  qed
  have "premultiplied 65535 ?p" using assms(9) by simp
  then show ?thesis by (simp add: resized_pixel_def c Let_def ch premultiplied_def)
qed

subsection \<open>The colour of a name\<close>

text \<open>The characters of a text; a byte that is part of none counts as U+FFFD.\<close>

fun rune_value :: "nat list \<Rightarrow> nat" where
  "rune_value [x] = x"
| "rune_value [x, y] = x mod 32 * 64 + y mod 64"
| "rune_value [x, y, z] = (x mod 16 * 64 + y mod 64) * 64 + z mod 64"
| "rune_value [x, y, z, t] = ((x mod 8 * 64 + y mod 64) * 64 + z mod 64) * 64 + t mod 64"
| "rune_value _ = 0"

function runes_of :: "string \<Rightarrow> nat list" where
  "runes_of [] = []"
| "runes_of (c # cs) =
     (let n = rune_width (c # cs)
      in if n = 0 then 0xFFFD # runes_of cs
         else rune_value (map of_char (take n (c # cs))) # runes_of (drop (n - 1) cs))"
  by pat_completeness auto
termination by (relation "measure length") auto

definition hue_to_rgb :: "rat \<Rightarrow> rat \<Rightarrow> rat \<Rightarrow> rat" where
  "hue_to_rgb p q t0 =
     (let t = (if t0 < 0 then t0 + 1 else t0); t = (if t > 1 then t - 1 else t)
      in if t < 1 / 6 then p + (q - p) * 6 * t
         else if t < 1 / 2 then q
         else if t < 2 / 3 then p + (q - p) * (2 / 3 - t) * 6
         else p)"

definition hex_digits :: string where
  "hex_digits = ''0123456789abcdef''"

text \<open>None is the panic of an index out of range.\<close>

definition to_hex :: "int \<Rightarrow> string option" where
  "to_hex n = (let i = n sdiv 16; j = n smod 16
     in if 0 \<le> i \<and> i < 16 \<and> 0 \<le> j then Some [hex_digits ! nat i, hex_digits ! nat j] else None)"

definition hsl_to_hex :: "int \<Rightarrow> int \<Rightarrow> int \<Rightarrow> string option" where
  "hsl_to_hex h s l =
     (let hf = of_int h / 360; sf = of_int s / 100; lf = of_int l / 100;
          q = (if lf < 1 / 2 then lf * (1 + sf) else lf + sf - lf * sf); p = 2 * lf - q;
          (r, g, b) = (if sf = 0 then (lf, lf, lf)
            else (hue_to_rgb p q (hf + 1 / 3), hue_to_rgb p q hf, hue_to_rgb p q (hf - 1 / 3)))
      in (case (to_hex (whole (r * 255)), to_hex (whole (g * 255)), to_hex (whole (b * 255))) of
            (Some r, Some g, Some b) \<Rightarrow> Some (''#'' @ r @ g @ b)
          | _ \<Rightarrow> None))"

definition name_hash :: "string \<Rightarrow> 32 word" where
  "name_hash s = fold (\<lambda>c h. h * 31 + word_of_nat c) (runes_of s) 0"

definition generate_color_from_string :: "string \<Rightarrow> string option" where
  "generate_color_from_string s =
     (if s = [] then Some ''#888888'' else hsl_to_hex (uint (name_hash s mod 360)) 60 45)"

lemma hue_between:
  assumes "p \<le> q" "-1 \<le> t" "t < 2"
  shows "p \<le> hue_to_rgb p q t \<and> hue_to_rgb p q t \<le> q"
proof -
  have "0 \<le> (q - p) * 6 * u \<and> (q - p) * 6 * u \<le> q - p" if "0 \<le> u" "u < 1 / 6" for u
    using mult_left_mono [of "6 * u" 1 "q - p"] mult_nonneg_nonneg [of "q - p" "6 * u"] that assms(1) by (simp add: algebra_simps)
  moreover have "0 \<le> (q - p) * u * 6 \<and> (q - p) * u * 6 \<le> q - p" if "0 \<le> u" "u \<le> 1 / 6" for u
    using mult_left_mono [of "u * 6" 1 "q - p"] mult_nonneg_nonneg [of "q - p" "u * 6"] that assms(1) by (simp add: algebra_simps)
  ultimately show ?thesis
    unfolding hue_to_rgb_def Let_def using assms by (auto simp: le_diff_eq diff_le_eq add.commute)
qed

lemma to_hex_byte:
  assumes "0 \<le> n" "n < 256"
  shows "\<exists>x y. to_hex n = Some [x, y] \<and> {x, y} \<subseteq> set hex_digits"
proof -
  have "n sdiv 16 = n div 16" "n smod 16 = n mod 16" using assms(1) by (simp_all add: signed_divide_int_def signed_modulo_int_def sgn_if)
  moreover have "0 \<le> n div 16" "n div 16 < 16" "0 \<le> n mod 16" "n mod 16 < 16" using assms by auto
  moreover have "hex_digits ! nat k \<in> set hex_digits" if "0 \<le> k" "k < 16" for k
    using that by (intro nth_mem) (simp add: hex_digits_def nat_less_iff)
  ultimately show ?thesis by (simp add: to_hex_def)
qed

lemma shade_byte: "0 \<le> x \<Longrightarrow> x \<le> 1 \<Longrightarrow> 0 \<le> whole (x * 255) \<and> whole (x * 255) < 256"
proof -
  assume "0 \<le> x" "x \<le> 1"
  then have "\<not> x * 255 < 0" "0 \<le> \<lfloor>x * 255\<rfloor>" "\<lfloor>x * 255\<rfloor> \<le> \<lfloor>255 :: rat\<rfloor>" by (simp_all add: not_less floor_mono)
  then show ?thesis by (simp add: whole_def)
qed

lemma three_shades:
  assumes "0 \<le> r" "r \<le> 1" "0 \<le> g" "g \<le> 1" "0 \<le> b" "b \<le> 1"
  shows "\<exists>ds. (case (to_hex (whole (r * 255)), to_hex (whole (g * 255)), to_hex (whole (b * 255))) of
      (Some r, Some g, Some b) \<Rightarrow> Some (''#'' @ r @ g @ b) | _ \<Rightarrow> None) = Some (CHR ''#'' # ds)
    \<and> length ds = 6 \<and> set ds \<subseteq> set hex_digits"
proof -
  obtain a a' where "to_hex (whole (r * 255)) = Some [a, a']" "{a, a'} \<subseteq> set hex_digits"
    using to_hex_byte shade_byte [OF assms(1,2)] by blast
  moreover obtain c c' where "to_hex (whole (g * 255)) = Some [c, c']" "{c, c'} \<subseteq> set hex_digits"
    using to_hex_byte shade_byte [OF assms(3,4)] by blast
  moreover obtain d d' where "to_hex (whole (b * 255)) = Some [d, d']" "{d, d'} \<subseteq> set hex_digits"
    using to_hex_byte shade_byte [OF assms(5,6)] by blast
  ultimately show ?thesis by simp
qed

lemma hue_shade: "0 \<le> h \<Longrightarrow> h < 360 \<Longrightarrow> k \<in> {- 1 / 3, 0, 1 / 3} \<Longrightarrow>
    0 \<le> hue_to_rgb (18 / 100) (72 / 100) (of_int h / 360 + k) \<and> hue_to_rgb (18 / 100) (72 / 100) (of_int h / 360 + k) \<le> 1"
  using hue_between [of "18 / 100" "72 / 100" "of_int h / 360 + k"] by auto

lemma hsl_colour:
  assumes "0 \<le> h" "h < 360"
  shows "\<exists>ds. hsl_to_hex h 60 45 = Some (CHR ''#'' # ds) \<and> length ds = 6 \<and> set ds \<subseteq> set hex_digits"
proof -
  let ?f = "\<lambda>k. hue_to_rgb (18 / 100) (72 / 100) (of_int h / 360 + k)"
  have eq: "hsl_to_hex h 60 45 = (case (to_hex (whole (?f (1 / 3) * 255)), to_hex (whole (?f 0 * 255)), to_hex (whole (?f (- 1 / 3) * 255))) of
      (Some r, Some g, Some b) \<Rightarrow> Some (''#'' @ r @ g @ b) | _ \<Rightarrow> None)"
    by (simp add: hsl_to_hex_def Let_def)
  have k: "0 \<le> ?f k" "?f k \<le> 1" if "k \<in> {- 1 / 3, 0, 1 / 3}" for k using hue_shade [OF assms that] by blast+
  have "- 1 / 3 \<in> {- 1 / 3, 0, 1 / 3 :: rat}" "0 \<in> {- 1 / 3, 0, 1 / 3 :: rat}" "1 / 3 \<in> {- 1 / 3, 0, 1 / 3 :: rat}" by simp_all
  note three_shades [OF k [OF this(3)] k [OF this(2)] k [OF this(1)]]
  then show ?thesis unfolding eq by blast
qed

lemma colour:
  "\<exists>ds. generate_color_from_string s = Some (CHR ''#'' # ds) \<and> length ds = 6 \<and> set ds \<subseteq> set hex_digits"
proof (cases "s = []")
  case True
  then show ?thesis by (simp add: generate_color_from_string_def hex_digits_def)
next
  case False
  have "uint (name_hash s mod 360) < 360" by (simp add: uint_mod)
  with hsl_colour [of "uint (name_hash s mod 360)"] False show ?thesis by (simp add: generate_color_from_string_def)
qed

text \<open>
  Every name has a colour: whatever text a picture is asked for, the colour made from it is a number sign and six hexadecimal
  digits; no index is out of range.
\<close>

theorem colour_of_every_name:
  "\<exists>ds. generate_color_from_string s = Some (CHR ''#'' # ds) \<and> length ds = 6 \<and> set ds \<subseteq> set hex_digits"
  by (rule colour)

subsection \<open>Serving\<close>

text \<open>The text of the first byte of a name taken as a character, in upper case.\<close>

definition initial_of :: "char \<Rightarrow> string" where
  "initial_of c =
     (let b = of_char c :: nat; two = (\<lambda>x. [char_of (192 + x div 64), char_of (128 + x mod 64)])
      in if b < 128 then [upper_char c]
         else if b = 0xB5 then [char_of (206 :: nat), char_of (156 :: nat)]
         else if b = 0xFF then [char_of (197 :: nat), char_of (184 :: nat)]
         else if 0xE0 \<le> b \<and> b \<noteq> 0xF7 then two (b - 32)
         else two b)"

definition DQ :: string where
  "DQ = [CHR 0x22]"

definition attr :: "string \<Rightarrow> string \<Rightarrow> string" where
  "attr name v = '' '' @ name @ ''='' @ DQ @ v @ DQ"

definition svg_open :: string where
  "svg_open = ''<svg'' @ attr ''xmlns'' ''http://www.w3.org/2000/svg'' @ attr ''width'' ''32'' @ attr ''height'' ''32''
     @ attr ''viewBox'' ''0 0 32 32'' @ ''>'' @ [LF]"

text \<open>The picture of a user who has none: the first letter on a disc of the colour of the name.\<close>

definition default_avatar :: "string \<Rightarrow> string option" where
  "default_avatar name = map_option (\<lambda>colour. svg_open
     @ ''  <circle'' @ attr ''cx'' ''16'' @ attr ''cy'' ''16'' @ attr ''r'' ''16'' @ attr ''fill'' colour @ ''/>'' @ [LF]
     @ ''  <text'' @ attr ''x'' ''16'' @ attr ''y'' ''21'' @ attr ''text-anchor'' ''middle'' @ attr ''font-family'' ''sans-serif''
     @ attr ''font-size'' ''14'' @ attr ''font-weight'' ''bold'' @ attr ''fill'' ''white'' @ ''>''
     @ (if name = [] then ''?'' else initial_of (hd name)) @ ''</text>'' @ [LF] @ ''</svg>'')
     (generate_color_from_string name)"

definition rss_icon :: string where
  "rss_icon = svg_open
     @ ''  <circle'' @ attr ''cx'' ''16'' @ attr ''cy'' ''16'' @ attr ''r'' ''16'' @ attr ''fill'' ''#f26522'' @ ''/>'' @ [LF]
     @ ''  <circle'' @ attr ''cx'' ''10'' @ attr ''cy'' ''22'' @ attr ''r'' ''3'' @ attr ''fill'' ''white'' @ ''/>'' @ [LF]
     @ ''  <path'' @ attr ''d'' ''M7 11.5c7.18 0 13 5.82 13 13h-3.5c0-5.24-4.26-9.5-9.5-9.5v-3.5z'' @ attr ''fill'' ''white'' @ ''/>'' @ [LF]
     @ ''  <path'' @ attr ''d'' ''M7 5c10.49 0 19 8.51 19 19h-3.5c0-8.56-6.94-15.5-15.5-15.5V5z'' @ attr ''fill'' ''white'' @ ''/>'' @ [LF]
     @ ''</svg>''"

text \<open>A picture comes with its type and, but for the icon, a tag its next request can name.\<close>

datatype avatar_answer = Icon string | Picture string string string | Not_modified

definition avatar_etag :: "int \<Rightarrow> string \<Rightarrow> string" where
  "avatar_etag i avatar = DQ @ itoa i @ ''-'' @ itoa (int (length avatar)) @ DQ"

definition avatar_name :: "string \<Rightarrow> string" where
  "avatar_name path = trim_suffix (trim_suffix (trim_suffix (trim_suffix (trim_prefix path ''/avatar/'')
     ''.png'') ''.jpg'') ''.gif'') ''.svg''"

definition serve_default :: "string \<Rightarrow> avatar_answer option" where
  "serve_default name = map_option (\<lambda>svg. Picture svg ''image/svg+xml'' (DQ @ ''default'' @ DQ)) (default_avatar name)"

definition serve_avatar :: "db \<Rightarrow> string \<Rightarrow> string \<Rightarrow> avatar_answer option" where
  "serve_avatar d path known =
     (let name = avatar_name path in
      if name = ''_rss'' then Some (Icon rss_icon)
      else if name = [] then serve_default []
      else (case get_user_by_username d name of
          Inl _ \<Rightarrow> serve_default name
        | Inr u \<Rightarrow> (case ur_avatar u of
            None \<Rightarrow> serve_default name
          | Some a \<Rightarrow>
              if a = [] then serve_default name
              else (let etag = avatar_etag (ur_id u) a in
                if known = etag then Some Not_modified else Some (Picture a (ur_avatar_type u) etag)))))"

text \<open>
  There is a picture for every name, and it is the one of the user where there is one: asked without a tag, the server
  answers every path with a picture.
\<close>

theorem avatar_served:
  "case serve_avatar d path [] of None \<Rightarrow> False | Some Not_modified \<Rightarrow> False | Some (Icon s) \<Rightarrow> avatar_name path = ''_rss''
   | Some (Picture a kind etag) \<Rightarrow> default_avatar (avatar_name path) = Some a
       \<or> (\<exists>u. get_user_by_username d (avatar_name path) = Inr u \<and> ur_avatar u = Some a \<and> kind = ur_avatar_type u)"
proof -
  have "\<exists>s. default_avatar n = Some s" for n using colour [of n] by (auto simp: default_avatar_def)
  then obtain f where "default_avatar n = Some (f n)" for n by metis
  then show ?thesis
    by (auto simp: serve_avatar_def serve_default_def Let_def avatar_etag_def DQ_def split: sum.split option.split)
qed

text \<open>
  A browser keeps an old picture when the new one has as many bytes: the tag has only the user and
  the length, so the answer is that nothing has changed.
\<close>

theorem replaced_avatar_unseen:
  assumes "get_user_by_username d (avatar_name path) = Inr u" "ur_avatar u = Some old"
    and "get_user_by_username d' (avatar_name path) = Inr u'" "ur_id u' = ur_id u" "ur_avatar u' = Some new"
    and "length new = length old" "old \<noteq> []" "avatar_name path \<noteq> ''_rss''" "avatar_name path \<noteq> []"
    and "serve_avatar d path [] = Some (Picture old kind etag)"
  shows "serve_avatar d' path etag = Some Not_modified"
  using assms by (auto simp: serve_avatar_def serve_default_def Let_def avatar_etag_def split: if_splits)

text \<open>A picture of three by two points that are full and clear in turns.\<close>

definition checkered :: image where
  "checkered = \<lparr>im_min_x = 0, im_min_y = 0, im_max_x = 3, im_max_y = 2,
     im_at = (\<lambda>x y. if even (x + y) then \<lparr>px_r = 65535, px_g = 256, px_b = 0, px_a = 65535\<rparr> else \<lparr>px_r = 0, px_g = 0, px_b = 0, px_a = 0\<rparr>)\<rparr>"

lemma checkered_ok: "proper_image checkered" "\<forall>x y. premultiplied 65535 (im_at checkered x y)"
  by (simp_all add: proper_image_def checkered_def premultiplied_def)

lemma resize_reads_inside_witness:
  "case coords checkered 4 3 3 of ((x0, x1, x), (y0, y1, y)) \<Rightarrow> {x0, x1} \<subseteq> {0..<3} \<and> {y0, y1} \<subseteq> {0..<2}"
proof -
  obtain x0 x1 x y0 y1 y where c: "coords checkered 4 3 3 = ((x0, x1, x), (y0, y1, y))"
    by (cases "coords checkered 4 3 3") auto
  have "(1 :: int) < 4" "(0 :: int) \<le> 3" "(3 :: int) < 4" by simp_all
  note resize_reads_inside [OF checkered_ok(1) this(1) this(2,3) this(2,3) c]
  then show ?thesis by (simp add: c) (simp add: checkered_def)
qed


lemma resize_same_size_witness:
  "resized_pixel (checkered\<lparr>im_max_x := 2\<rparr>) 2 1 1 = \<lparr>px_r = 255, px_g = 1, px_b = 0, px_a = 255\<rparr>"
proof -
  have "proper_image (checkered\<lparr>im_max_x := 2\<rparr>)" "\<forall>x y. premultiplied 65535 (im_at (checkered\<lparr>im_max_x := 2\<rparr>) x y)"
    by (simp_all add: checkered_def proper_image_def premultiplied_def)
  from resize_same_size [OF this(1) _ _ _ _ _ _ _ this(2), of 2 1 1] show ?thesis by (simp add: checkered_def)
qed

end
