(* ===== verification/Api.thy ===== *)
theory Api
  imports WebContent Feeds
begin

text \<open>
  The JSON interface of the link aggregator (\<^verbatim>\<open>tools/makhor/pkg/api/api.go\<close>): one definition per handler, the
  dispatch of the routes, and what a request may change.  A response has the values that are encoded; the
  encoder and the decoder of JSON are left out, so a request comes with the fields of its body, None where
  decoding fails.
\<close>

subsection \<open>Requests and responses\<close>

datatype http_method = Http_get | Http_post | Http_delete | Http_other

record feed_request =
  fr_url :: string
  fr_tag_id :: int
  fr_interval :: int
  fr_title :: "string option"

record api_call =
  ac_method :: http_method
  ac_path :: string
  ac_query :: "(string \<times> string) list"
  ac_json :: "feed_request option"

record api_user =
  au_id :: int
  au_username :: string
  au_created_at :: int
  au_is_admin :: bool
  au_about :: string

datatype api_data = Api_posts "listed_post list" | Api_post post | Api_comments "comment list" | Api_comment comment
  | Api_tags "tag_with_count list" | Api_tag owned_tag | Api_user api_user | Api_feeds "rss_feed list"
  | Api_feed rss_feed | Api_deleted

datatype api_response = Api_success api_data "pagination option" | Api_error int string | Api_no_route

definition api_param :: "api_call \<Rightarrow> string \<Rightarrow> string" where
  "api_param c k = or_empty (map_of (ac_query c) k)"

text \<open>The number behind the front of the path, up to the next slash.\<close>

definition api_id :: "string \<Rightarrow> api_call \<Rightarrow> int option" where
  "api_id front c = parse_int (hd (split_on (CHR ''/'') (trim_prefix (ac_path c) front)))"

definition not_allowed :: api_response where
  "not_allowed = Api_error 405 ''Method not allowed''"

definition login_needed :: api_response where
  "login_needed = Api_error 401 ''Authentication required''"

subsection \<open>Posts\<close>

definition api_page :: "api_call \<Rightarrow> int" where
  "api_page c = (let page = fst (atoi (api_param c ''page'')) in if page < 1 then 1 else page)"

definition api_per_page :: "api_call \<Rightarrow> int" where
  "api_per_page c = (let n = fst (atoi (api_param c ''per_page'')) in if n < 1 \<or> n > 100 then 30 else n)"

definition handle_posts :: "denv \<Rightarrow> api_call \<Rightarrow> user option \<Rightarrow> db \<Rightarrow> api_response" where
  "handle_posts e c user d =
     (if ac_method c \<noteq> Http_get then not_allowed
      else (let page = api_page c; n = api_per_page c; tag = api_param c ''tag''; view = api_param c ''view'' in
        (case get_user_context user of (u, admin) \<Rightarrow>
          (case (if view = ''new'' then get_newest_posts d page n u admin
                 else if view = ''top'' then get_top_posts e d page n (24 * 7) u admin
                 else if tag \<noteq> [] then get_posts d page n tag u admin
                 else get_hot_posts e d page n u admin) of
             (ps, count) \<Rightarrow> Api_success (Api_posts ps) (Some (new_pagination page n count))))))"

definition handle_post :: "api_call \<Rightarrow> user option \<Rightarrow> db \<Rightarrow> api_response \<times> db" where
  "handle_post c user d =
     (case api_id ''/api/posts/'' c of
        None \<Rightarrow> (Api_error 400 ''Invalid post ID'', d)
      | Some i \<Rightarrow> (case ac_method c of
          Http_get \<Rightarrow> (case get_post_by_id d i (map_option ur_id user) of
              Inl _ \<Rightarrow> (Api_error 404 ''Post not found'', d)
            | Inr p \<Rightarrow> (Api_success (Api_post p) None, d))
        | Http_delete \<Rightarrow> (case user of
              None \<Rightarrow> (login_needed, d)
            | Some u \<Rightarrow> (case get_post_by_id d i None of
                Inl _ \<Rightarrow> (Api_error 404 ''Post not found'', d)
              | Inr p \<Rightarrow>
                  if pr_user_id p \<noteq> ur_id u \<and> \<not> ur_is_admin u then (Api_error 403 ''Permission denied'', d)
                  else (Api_success Api_deleted None, delete_post i d)))
        | _ \<Rightarrow> (not_allowed, d)))"

subsection \<open>Comments\<close>

definition handle_comments :: "api_call \<Rightarrow> db \<Rightarrow> api_response" where
  "handle_comments c d =
     (if ac_method c \<noteq> Http_get then not_allowed else Api_success (Api_comments (get_recent_comments d 50)) None)"

definition handle_comment :: "api_call \<Rightarrow> user option \<Rightarrow> db \<Rightarrow> api_response \<times> db" where
  "handle_comment c user d =
     (case api_id ''/api/comments/'' c of
        None \<Rightarrow> (Api_error 400 ''Invalid comment ID'', d)
      | Some i \<Rightarrow> (case ac_method c of
          Http_get \<Rightarrow> (case get_comment_by_id d i (map_option ur_id user) of
              Inl _ \<Rightarrow> (Api_error 404 ''Comment not found'', d)
            | Inr x \<Rightarrow> (Api_success (Api_comment x) None, d))
        | Http_delete \<Rightarrow> (case user of
              None \<Rightarrow> (login_needed, d)
            | Some u \<Rightarrow> (case get_comment_by_id d i None of
                Inl _ \<Rightarrow> (Api_error 404 ''Comment not found'', d)
              | Inr x \<Rightarrow>
                  if cr_user_id x \<noteq> ur_id u \<and> \<not> ur_is_admin u then (Api_error 403 ''Permission denied'', d)
                  else (Api_success Api_deleted None, delete_comment i d)))
        | _ \<Rightarrow> (not_allowed, d)))"

subsection \<open>Tags and users\<close>

definition handle_tags :: "api_call \<Rightarrow> db \<Rightarrow> api_response" where
  "handle_tags c d =
     (if ac_method c \<noteq> Http_get then not_allowed else Api_success (Api_tags (get_all_tags_with_counts d)) None)"

definition handle_tag :: "api_call \<Rightarrow> db \<Rightarrow> api_response" where
  "handle_tag c d =
     (if ac_method c \<noteq> Http_get then not_allowed
      else (case get_tag_by_name_with_ownership d (trim_suffix (trim_prefix (ac_path c) ''/api/tags/'') ''/'') of
              Inl _ \<Rightarrow> Api_error 404 ''Tag not found''
            | Inr t \<Rightarrow> Api_success (Api_tag t) None))"

definition handle_user :: "api_call \<Rightarrow> db \<Rightarrow> api_response" where
  "handle_user c d =
     (if ac_method c \<noteq> Http_get then not_allowed
      else (case get_user_by_username d (trim_suffix (trim_prefix (ac_path c) ''/api/users/'') ''/'') of
              Inl _ \<Rightarrow> Api_error 404 ''User not found''
            | Inr u \<Rightarrow> Api_success (Api_user \<lparr>au_id = ur_id u, au_username = ur_username u, au_created_at = ur_created_at u,
                au_is_admin = ur_is_admin u, au_about = ur_about u\<rparr>) None))"

subsection \<open>Feeds\<close>

definition handle_feeds :: "(db_error \<Rightarrow> string) \<Rightarrow> denv \<Rightarrow> api_call \<Rightarrow> user option \<Rightarrow> db \<Rightarrow> api_response \<times> db" where
  "handle_feeds err_text e c user d =
     (case user of
        None \<Rightarrow> (login_needed, d)
      | Some u \<Rightarrow>
          if \<not> ur_is_admin u then (Api_error 403 ''Admin access required'', d)
          else (case ac_method c of
              Http_get \<Rightarrow> (Api_success (Api_feeds (get_all_rss_feeds d)) None, d)
            | Http_post \<Rightarrow> (case ac_json c of
                None \<Rightarrow> (Api_error 400 ''Invalid JSON'', d)
              | Some q \<Rightarrow>
                  if fr_url q = [] \<or> fr_tag_id q = 0 then (Api_error 400 ''url and tag_id are required'', d)
                  else (let interval = (if fr_interval q < 5 then 60 else fr_interval q) in
                    (case create_rss_feed e (fr_url q) (or_empty (fr_title q)) (fr_tag_id q) interval d of
                       (Inl err, d) \<Rightarrow> (Api_error 500 (''Failed to create feed: '' @ err_text err), d)
                     | (Inr f, d) \<Rightarrow> (Api_success (Api_feed f) None, d))))
            | _ \<Rightarrow> (not_allowed, d)))"

definition handle_feed :: "denv \<Rightarrow> api_call \<Rightarrow> user option \<Rightarrow> db \<Rightarrow> api_response \<times> db" where
  "handle_feed e c user d =
     (case user of
        None \<Rightarrow> (login_needed, d)
      | Some u \<Rightarrow> (case api_id ''/api/feeds/'' c of
          None \<Rightarrow> (Api_error 400 ''Invalid feed ID'', d)
        | Some i \<Rightarrow> (case ac_method c of
            Http_get \<Rightarrow> (case get_rss_feed_by_id d i of
                Inl _ \<Rightarrow> (Api_error 404 ''Feed not found'', d)
              | Inr f \<Rightarrow> (Api_success (Api_feed f) None, d))
          | Http_delete \<Rightarrow>
              if \<not> can_edit_feed d (ur_id u) i then (Api_error 403 ''Permission denied'', d)
              else (Api_success Api_deleted None, delete_rss_feed e i d)
          | _ \<Rightarrow> (not_allowed, d))))"

subsection \<open>The routes\<close>

definition api_request :: "(db_error \<Rightarrow> string) \<Rightarrow> denv \<Rightarrow> api_call \<Rightarrow> user option \<Rightarrow> db \<Rightarrow> api_response \<times> db" where
  "api_request err_text e c user d =
     (let p = ac_path c in
      if p = ''/api/posts'' then (handle_posts e c user d, d)
      else if has_prefix p ''/api/posts/'' then handle_post c user d
      else if p = ''/api/comments'' then (handle_comments c d, d)
      else if has_prefix p ''/api/comments/'' then handle_comment c user d
      else if p = ''/api/tags'' then (handle_tags c d, d)
      else if has_prefix p ''/api/tags/'' then (handle_tag c d, d)
      else if has_prefix p ''/api/users/'' then (handle_user c d, d)
      else if p = ''/api/feeds'' then handle_feeds err_text e c user d
      else if has_prefix p ''/api/feeds/'' then handle_feed e c user d
      else (Api_no_route, d))"

subsection \<open>What a request may change\<close>

inductive api_allowed :: "user option \<Rightarrow> db \<Rightarrow> db \<Rightarrow> bool" where
  Api_nothing: "api_allowed user d d"
| Api_drop_post: "tbl_get (db_posts d) i = Some p \<Longrightarrow> po_user_id p = ur_id u \<or> ur_is_admin u \<Longrightarrow>
    api_allowed (Some u) d (delete_post i d)"
| Api_drop_comment: "tbl_get (db_comments d) i = Some x \<Longrightarrow> co_user_id x = ur_id u \<or> ur_is_admin u \<Longrightarrow>
    api_allowed (Some u) d (delete_comment i d)"
| Api_new_feed: "ur_is_admin u \<Longrightarrow> url \<noteq> [] \<Longrightarrow> tag \<noteq> 0 \<Longrightarrow> 5 \<le> interval \<Longrightarrow>
    api_allowed (Some u) d (snd (create_rss_feed e url title tag interval d))"
| Api_drop_feed: "can_edit_feed d (ur_id u) i \<Longrightarrow> api_allowed (Some u) d (delete_rss_feed e i d)"

lemma post_got: "get_post_by_id d i v = Inr q \<Longrightarrow> \<exists>p. tbl_get (db_posts d) i = Some p \<and> po_user_id p = pr_user_id q"
  by (auto simp: get_post_by_id_def split: option.splits)

lemma handle_post_allowed: "api_allowed user d (snd (handle_post c user d))"
  by (auto simp: handle_post_def dest!: post_got split: option.splits http_method.splits sum.splits intro: api_allowed.intros)

lemma handle_comment_allowed: "api_allowed user d (snd (handle_comment c user d))"
proof -
  have "api_allowed (Some u) d (delete_comment i d)"
    if "get_comment_by_id d i None = Inr x" "cr_user_id x = ur_id u \<or> ur_is_admin u" for u i x
    using comment_got [OF that(1)] that(2) by (metis Api_drop_comment)
  then show ?thesis
    by (auto simp: handle_comment_def split: option.splits http_method.splits sum.splits intro: Api_nothing)
qed

lemma handle_feeds_allowed: "api_allowed user d (snd (handle_feeds err_text e c user d))"
proof -
  have "api_allowed (Some u) d d'" if "create_rss_feed e url title tag i d = (x, d')" "ur_is_admin u" "url \<noteq> []" "tag \<noteq> 0" "5 \<le> i"
    for u url title tag i x d'
    using Api_new_feed [OF that(2-5), of d e title] that(1) by simp
  then show ?thesis
    unfolding handle_feeds_def Let_def
    by (auto split: option.splits http_method.splits sum.splits prod.splits intro: Api_nothing)
qed


lemma same_actions: "\<exists>a. d = d\<lparr>db_actions := a\<rparr>" for d :: db
  by (intro exI [of _ "db_actions d"]) simp

lemma log_effect: "\<exists>a. wb_db (log_as e r user k t i x w) = wb_db w\<lparr>db_actions := a\<rparr>"
proof (cases "fk_ok e (db_users (wb_db w)) (map_option ur_id user)")
  case True
  then have "wb_db (log_as e r user k t i x w) = wb_db w\<lparr>db_actions := snd (tbl_insert \<lparr>ac_user_id = map_option ur_id user,
      ac_action = k, ac_target_type = t, ac_target_id = i, ac_details = x,
      ac_ip_address = get_client_ip (request.truncate r), ac_created_at = dv_now e\<rparr> (db_actions (wb_db w)))\<rparr>"
    by (simp add: log_as_def map_db_def log_action_def)
  then show ?thesis by blast
next
  case False
  then show ?thesis using same_actions by (simp add: log_as_def map_db_def log_action_def)
qed

text \<open>
  Deleting a post through the interface has the effect of deleting it on the page, but leaves no entry in
  the log of actions.
\<close>

theorem api_delete_unlogged:
  assumes "ac_method c = Http_delete" "has_prefix (ac_path c) ''/api/posts/''" "api_id ''/api/posts/'' c = Some i"
    and "get_path_id r ''/posts/'' = Some i"
  shows "let d = snd (api_request err_text e c (Some u) (wb_db w)) in db_actions d = db_actions (wb_db w)
    \<and> (\<exists>a. wb_db (snd (web_delete_post e s r (Some u) w)) = d\<lparr>db_actions := a\<rparr>)"
proof -
  from assms(2) have "ac_path c \<noteq> ''/api/posts''" by auto
  with assms(1-3) have api: "snd (api_request err_text e c (Some u) (wb_db w)) = (case get_post_by_id (wb_db w) i None of
      Inl _ \<Rightarrow> wb_db w
    | Inr p \<Rightarrow> if pr_user_id p \<noteq> ur_id u \<and> \<not> ur_is_admin u then wb_db w else delete_post i (wb_db w))"
    by (simp add: api_request_def handle_post_def split: sum.split)
  show ?thesis
  proof (cases "get_post_by_id (wb_db w) i None")
    case Inl
    with assms(4) same_actions show ?thesis unfolding Let_def api by (simp add: web_delete_post_def as_user_def on_post_def)
  next
    case (Inr p)
    with assms(4) same_actions log_effect [of e r "Some u" "''post_delete''" "''post''" i "pr_title p" "map_db (delete_post i) w"]
    show ?thesis unfolding Let_def api
      by (auto simp: web_delete_post_def as_user_def on_post_def delete_post_def set_post_def)
  qed
qed

text \<open>
  What is deleted can still be read through the interface: title and text of a post that its author
  or an administrator has deleted are sent to everybody who asks for its number.
\<close>

theorem api_shows_deleted:
  assumes "ac_method c = Http_get" "has_prefix (ac_path c) ''/api/posts/''" "api_id ''/api/posts/'' c = Some i"
    and "tbl_get (db_posts d) i = Some p" "tbl_get (db_users d) (po_user_id p) = Some u"
  shows "\<exists>q. fst (api_request err_text e c None (delete_post i d)) = Api_success (Api_post q) None
    \<and> pr_is_deleted q \<and> pr_title q = po_title p \<and> pr_body q = or_empty (po_body p)"
proof -
  from assms(2) have "ac_path c \<noteq> ''/api/posts''" by auto
  moreover have "db_users (delete_post i d) = db_users d" by (simp add: delete_post_def set_post_def)
  moreover have "tbl_get (db_posts (delete_post i d)) i = Some (p\<lparr>po_is_deleted := True\<rparr>)"
    using assms(4) by (simp add: delete_post_def set_post_get)
  ultimately show ?thesis using assms by (simp add: api_request_def handle_post_def get_post_by_id_def)
qed

end
