(* ===== verification/Profiles.thy ===== *)
theory Profiles
  imports Avatars Api
begin

text \<open>
  The pages of users (\<^verbatim>\<open>tools/makhor/pkg/handlers/users.go\<close>): a profile with its sections, the forms on the own
  profile and the pages of settings and pictures of their own, and what a request to them may change.  An
  uploaded file is the size its header names and its bytes, None where reading fails.
\<close>

subsection \<open>Uploads\<close>

record upload =
  uf_size :: int
  uf_data :: "string option"

definition max_avatar_size :: nat where
  "max_avatar_size = 256 * 1024"

definition read_upload :: "upload \<Rightarrow> string option" where
  "read_upload f =
     (case uf_data f of
        None \<Rightarrow> None
      | Some s \<Rightarrow> (let data = take (max_avatar_size + 1) s in if length data > max_avatar_size then None else Some data))"

definition avatar_form :: "string \<Rightarrow> response" where
  "avatar_form msg = Page ''upload_avatar.html'' [(''Error'', msg)]"

text \<open>
  The form of the picture: None where its parts cannot be parsed, Some None where no file was chosen.
  \<open>resize\<close> is \<^verbatim>\<open>ResizeToSquare\<close> to a hundred points.
\<close>

definition upload_avatar ::
  "(string \<Rightarrow> string option) \<Rightarrow> denv \<Rightarrow> web_request \<Rightarrow> user \<Rightarrow> upload option option \<Rightarrow> response \<Rightarrow> web \<Rightarrow> response \<times> web" where
  "upload_avatar resize e r u form done w =
     (case form of
        None \<Rightarrow> (avatar_form ''File too large (max 256KB)'', w)
      | Some None \<Rightarrow> (avatar_form ''Please select a file'', w)
      | Some (Some f) \<Rightarrow>
          if uf_size f > int max_avatar_size then (avatar_form ''File too large (max 256KB)'', w)
          else (case read_upload f of
              None \<Rightarrow> (avatar_form ''Could not read file'', w)
            | Some data \<Rightarrow> (case resize data of
                None \<Rightarrow> (avatar_form ''Invalid image format (use PNG, JPEG, or GIF)'', w)
              | Some png \<Rightarrow> (done, log_as e r (Some u) ''user_update'' ''user'' (ur_id u) ''avatar updated''
                  (map_db (update_user_avatar (ur_id u) png ''image/png'') w)))))"

definition upload_avatar_page :: "site \<Rightarrow> user option \<Rightarrow> response" where
  "upload_avatar_page s user = (case user of None \<Rightarrow> redirect s ''/login'' | Some _ \<Rightarrow> Page ''upload_avatar.html'' [])"

definition upload_avatar_submit ::
  "(string \<Rightarrow> string option) \<Rightarrow> denv \<Rightarrow> site \<Rightarrow> web_request \<Rightarrow> user option \<Rightarrow> upload option option \<Rightarrow> web \<Rightarrow> response \<times> web" where
  "upload_avatar_submit resize e s r user form w =
     as_user s user w (\<lambda>u. upload_avatar resize e r u form (redirect s ''/settings'') w)"

definition user_avatar_submit ::
  "(string \<Rightarrow> string option) \<Rightarrow> denv \<Rightarrow> site \<Rightarrow> web_request \<Rightarrow> user \<Rightarrow> upload option option \<Rightarrow> web \<Rightarrow> response \<times> web" where
  "user_avatar_submit resize e s r u form w =
     upload_avatar resize e r u form (redirect s (''/users/'' @ ur_username u @ ''?section=settings'')) w"

definition user_settings_page :: "site \<Rightarrow> user option \<Rightarrow> response" where
  "user_settings_page s user = (case user of None \<Rightarrow> redirect s ''/login'' | Some _ \<Rightarrow> Page ''settings.html'' [])"

definition redirect_to_profile :: "string \<Rightarrow> user option \<Rightarrow> response" where
  "redirect_to_profile section user =
     (case user of None \<Rightarrow> Redirect ''/login'' | Some u \<Rightarrow> Redirect (''/users/'' @ ur_username u @ ''?section='' @ section))"

subsection \<open>Profiles\<close>

record profile_page =
  pf_user :: user
  pf_own :: bool
  pf_section :: string
  pf_inviter :: "user option"
  pf_hats :: "hat list"
  pf_can_ban :: "bool option"
  pf_invites :: "(int \<times> invite_row \<times> string) list option"
  pf_lists :: "(listed_post list \<times> comment list) option"

definition inviter_of :: "db \<Rightarrow> int \<Rightarrow> user option" where
  "inviter_of d i = (case get_user_inviter d i of Inl _ \<Rightarrow> None | Inr u \<Rightarrow> u)"

definition user_profile_section :: "user option \<Rightarrow> user \<Rightarrow> string \<Rightarrow> db \<Rightarrow> profile_page" where
  "user_profile_section user p section d =
     (let own = (case user of None \<Rightarrow> False | Some u \<Rightarrow> ur_id u = ur_id p) in
      \<lparr>pf_user = p, pf_own = own, pf_section = section, pf_inviter = inviter_of d (ur_id p),
       pf_hats = get_user_hats d (ur_id p),
       pf_can_ban = (case user of None \<Rightarrow> None | Some u \<Rightarrow>
         if ur_id u = ur_id p then None else Some (ur_is_admin u \<or> is_invited_by d (ur_id p) (ur_id u))),
       pf_invites = (if section = ''invites'' \<and> own then Some (get_user_invites d (ur_id p)) else None),
       pf_lists = (if section \<in> {''settings'', ''invites'', ''hats''} then None
         else Some (fst (get_user_posts d (ur_id p) 1 20), fst (get_user_comments d (ur_id p) 1 20)))\<rparr>)"

text \<open>The picture on the form of the settings: what is wrong with it, and the picture to store.\<close>

definition chosen_avatar :: "(string \<Rightarrow> string option) \<Rightarrow> upload option \<Rightarrow> string \<times> string option" where
  "chosen_avatar resize file =
     (case file of
        None \<Rightarrow> ([], None)
      | Some f \<Rightarrow>
          if uf_size f > int max_avatar_size then (''Avatar file too large (max 256KB)'', None)
          else (case read_upload f of
              None \<Rightarrow> (''Could not read avatar file'', None)
            | Some data \<Rightarrow>
                if data = [] then ([], None)
                else (case resize data of
                    None \<Rightarrow> (''Invalid image format (use PNG, JPEG, or GIF)'', None)
                  | Some png \<Rightarrow> ([], Some png))))"

definition profile_settings_submit ::
  "(string \<Rightarrow> string option) \<Rightarrow> denv \<Rightarrow> web_request \<Rightarrow> user \<Rightarrow> upload option option \<Rightarrow> web \<Rightarrow> response \<times> web" where
  "profile_settings_submit resize e r u form w =
     (if form = None \<and> rq_form r = None then (Error_page 400 ''Invalid form data'', w)
      else (let about = take 1000 (trim_space (form_value r ''about''));
                log = (\<lambda>x. log_as e r (Some u) ''user_update'' ''user'' (ur_id u) x);
                w1 = log ''about updated'' (map_db (update_user (ur_id u) about) w)
        in (case chosen_avatar resize (case form of None \<Rightarrow> None | Some file \<Rightarrow> file) of (msg, png) \<Rightarrow>
             (Page ''user.html'' [if msg \<noteq> [] then (''Error'', msg) else (''Success'', ''Settings saved'')],
              (case png of None \<Rightarrow> w1
               | Some png \<Rightarrow> log ''avatar updated'' (map_db (update_user_avatar (ur_id u) png ''image/png'') w1))))))"

text \<open>The request to a page below \<^verbatim>\<open>/users/\<close>: a response, or the profile shown, and the state after it.\<close>

definition profile_section_of :: "web_request \<Rightarrow> bool \<Rightarrow> string" where
  "profile_section_of r own =
     (let section = (if query_get r ''section'' = [] then ''posts'' else query_get r ''section'')
      in if \<not> own \<and> section \<in> {''settings'', ''invites'', ''hats''} then ''posts'' else section)"

definition user_profile_page ::
  "(string \<Rightarrow> string option) \<Rightarrow> denv \<Rightarrow> site \<Rightarrow> web_request \<Rightarrow> user option \<Rightarrow> upload option option \<Rightarrow> web \<Rightarrow>
     (response + profile_page) \<times> web" where
  "user_profile_page resize e s r user form w =
     (let parts = split_on (CHR ''/'') (trim_prefix (rq_path r) ''/users/''); name = hd parts; d = wb_db w in
      if name = [] then (Inl (Error_page 400 ''Invalid username''), w)
      else (case get_user_by_username d name of
          Inl _ \<Rightarrow> (Inl (Error_page 404 ''User not found''), w)
        | Inr p \<Rightarrow>
            (let own = (case user of None \<Rightarrow> False | Some u \<Rightarrow> ur_id u = ur_id p);
                 show = (\<lambda>section. (Inr (user_profile_section user p section d), w))
             in if length parts > 1 \<and> own \<and> parts ! 1 = ''settings''
                then (if rq_post r then apfst Inl (profile_settings_submit resize e r p form w) else show ''settings'')
                else if length parts > 1 \<and> own \<and> parts ! 1 = ''avatar''
                then (if rq_post r then apfst Inl (user_avatar_submit resize e s r p form w)
                      else (Inl (Page ''upload_avatar.html'' []), w))
                else if length parts > 1 \<and> own \<and> parts ! 1 = ''invites''
                then (if rq_post r then apfst Inl (user_create_invite e s r p w) else show ''invites'')
                else show (profile_section_of r own))))"

subsection \<open>What a request changes\<close>

text \<open>
  On behalf of a user: the account of that user, in what it tells and in its picture, a new invitation by that user, and
  entries in the log of actions.
\<close>

definition own_field_change :: "user_row \<Rightarrow> user_row \<Rightarrow> bool" where
  "own_field_change r r' \<longleftrightarrow> (\<exists>about av kind. r' = r\<lparr>us_about := about, us_avatar := av, us_avatar_type := kind\<rparr>)"

definition own_change :: "user option \<Rightarrow> db \<Rightarrow> db \<Rightarrow> bool" where
  "own_change user d d' \<longleftrightarrow> tbl_ok (db_users d') \<and> tbl_ok (db_invites d')
     \<and> d' = d\<lparr>db_users := db_users d', db_actions := db_actions d', db_invites := db_invites d'\<rparr>
     \<and> (\<forall>k. rel_option (\<lambda>r r'. r' = r \<or> Some k = map_option ur_id user \<and> own_field_change r r')
          (tbl_get (db_users d) k) (tbl_get (db_users d') k))
     \<and> (\<forall>k. tbl_get (db_invites d') k = tbl_get (db_invites d) k \<or> tbl_get (db_invites d) k = None
          \<and> (\<exists>r. tbl_get (db_invites d') k = Some r \<and> Some (iv_created_by r) = map_option ur_id user))"

lemma own_field_trans: "own_field_change r r' \<Longrightarrow> own_field_change r' r'' \<Longrightarrow> own_field_change r r''"
proof -
  assume "own_field_change r r'" "own_field_change r' r''"
  then obtain a b c a' b' c' where "r' = r\<lparr>us_about := a, us_avatar := b, us_avatar_type := c\<rparr>"
    "r'' = r'\<lparr>us_about := a', us_avatar := b', us_avatar_type := c'\<rparr>" by (auto simp: own_field_change_def)
  then have "r'' = r\<lparr>us_about := a', us_avatar := b', us_avatar_type := c'\<rparr>" by simp
  then show ?thesis unfolding own_field_change_def by blast
qed

lemma own_change_refl: "tbl_ok (db_users d) \<Longrightarrow> tbl_ok (db_invites d) \<Longrightarrow> own_change user d d"
proof -
  assume "tbl_ok (db_users d)" "tbl_ok (db_invites d)"
  then show ?thesis unfolding own_change_def by (auto simp: option.rel_refl)
qed

lemma own_change_trans:
  assumes "own_change user d d'" "own_change user d' d''"
  shows "own_change user d d''"
proof -
  have "d' = d\<lparr>db_users := db_users d', db_actions := db_actions d', db_invites := db_invites d'\<rparr>"
    "d'' = d'\<lparr>db_users := db_users d'', db_actions := db_actions d'', db_invites := db_invites d''\<rparr>"
    using assms unfolding own_change_def by blast+
  then have rest: "d'' = d\<lparr>db_users := db_users d'', db_actions := db_actions d'', db_invites := db_invites d''\<rparr>"
    by (cases d; cases d'; cases d'') simp
  have "rel_option (\<lambda>r r'. r' = r \<or> Some k = map_option ur_id user \<and> own_field_change r r')
      (tbl_get (db_users d) k) (tbl_get (db_users d'') k)" for k
  proof -
    have "rel_option (\<lambda>r r'. r' = r \<or> Some k = map_option ur_id user \<and> own_field_change r r')
        (tbl_get (db_users d) k) (tbl_get (db_users d') k)"
      "rel_option (\<lambda>r r'. r' = r \<or> Some k = map_option ur_id user \<and> own_field_change r r')
        (tbl_get (db_users d') k) (tbl_get (db_users d'') k)" using assms unfolding own_change_def by blast+
    then show ?thesis by (cases "tbl_get (db_users d) k"; cases "tbl_get (db_users d') k"; cases "tbl_get (db_users d'') k")
        (auto dest: own_field_trans)
  qed
  moreover have "tbl_get (db_invites d'') k = tbl_get (db_invites d) k \<or> tbl_get (db_invites d) k = None
      \<and> (\<exists>r. tbl_get (db_invites d'') k = Some r \<and> Some (iv_created_by r) = map_option ur_id user)" for k
  proof -
    have "tbl_get (db_invites d') k = tbl_get (db_invites d) k \<or> tbl_get (db_invites d) k = None
        \<and> (\<exists>r. tbl_get (db_invites d') k = Some r \<and> Some (iv_created_by r) = map_option ur_id user)"
      "tbl_get (db_invites d'') k = tbl_get (db_invites d') k \<or> tbl_get (db_invites d') k = None
        \<and> (\<exists>r. tbl_get (db_invites d'') k = Some r \<and> Some (iv_created_by r) = map_option ur_id user)"
      using assms unfolding own_change_def by blast+
    then show ?thesis by auto
  qed
  ultimately show ?thesis using rest assms(2) unfolding own_change_def by blast
qed

lemma own_user:
  assumes "tbl_ok (db_users d)" "tbl_ok (db_invites d)" "\<And>r. own_field_change r (f r)"
  shows "own_change (Some u) d (set_user (ur_id u) f d)"
proof -
  have "set_user (ur_id u) f d = d\<lparr>db_users := db_users (set_user (ur_id u) f d),
      db_actions := db_actions (set_user (ur_id u) f d), db_invites := db_invites (set_user (ur_id u) f d)\<rparr>" by (simp add: set_user_def)
  with assms show ?thesis unfolding own_change_def
    by (auto simp: set_user_def tbl_update_ok tbl_update_get option.rel_map option.rel_refl split: option.split intro: tbl_update_ok)
qed

lemma own_log:
  assumes "tbl_ok (db_users (wb_db w))" "tbl_ok (db_invites (wb_db w))"
  shows "own_change user (wb_db w) (wb_db (log_as e r v k t i x w))"
proof -
  obtain a where a: "wb_db (log_as e r v k t i x w) = wb_db w\<lparr>db_actions := a\<rparr>" using log_effect by blast
  with assms show ?thesis unfolding own_change_def by (auto simp: option.rel_refl)
qed

lemma own_invite:
  assumes "tbl_ok (db_users d)" "tbl_ok (db_invites d)"
  shows "own_change (Some u) d (snd (create_invite e (ur_id u) note d))"
proof (cases "snd (create_invite e (ur_id u) note d) = d")
  case False
  obtain i t where ins: "tbl_insert \<lparr>iv_code = dv_token e, iv_created_by = ur_id u, iv_created_at = dv_now e,
      iv_used_by = None, iv_used_at = None, iv_note = note\<rparr> (db_invites d) = (i, t)" by (metis surj_pair)
  with False have d': "snd (create_invite e (ur_id u) note d) = d\<lparr>db_invites := t\<rparr>"
    by (auto simp: create_invite_def split: if_splits)
  note tbl_insert_get [OF assms(2) ins] tbl_insert_ok [OF assms(2) ins]
  with assms show ?thesis unfolding d' own_change_def by (auto simp: option.rel_refl)
qed (use own_change_refl [OF assms] in simp)

lemma own_ok: "own_change user d d' \<Longrightarrow> tbl_ok (db_users d') \<and> tbl_ok (db_invites d')"
  by (simp add: own_change_def)

lemma own_then_log: "own_change user d (wb_db w) \<Longrightarrow> own_change user d (wb_db (log_as e r v k t i x w))"
  using own_change_trans own_log own_ok by blast

lemma own_about:
  assumes "tbl_ok (db_users d)" "tbl_ok (db_invites d)"
  shows "own_change (Some u) d (update_user (ur_id u) about d)"
    "own_change (Some u) d (update_user_avatar (ur_id u) png kind d)"
proof -
  have "own_field_change r (r\<lparr>us_about := about\<rparr>)" "own_field_change r (r\<lparr>us_avatar := Some png, us_avatar_type := Some kind\<rparr>)" for r
    unfolding own_field_change_def
    by (rule exI [of _ about], rule exI [of _ "us_avatar r"], rule exI [of _ "us_avatar_type r"], simp)
      (rule exI [of _ "us_about r"], rule exI [of _ "Some png"], rule exI [of _ "Some kind"], simp)
  with assms show "own_change (Some u) d (update_user (ur_id u) about d)"
    "own_change (Some u) d (update_user_avatar (ur_id u) png kind d)"
    unfolding update_user_def update_user_avatar_def by (auto intro: own_user)
qed

text \<open>The forms, made by the user whose profile it is.\<close>

lemma profile_forms:
  assumes "tbl_ok (db_users (wb_db w))" "tbl_ok (db_invites (wb_db w))"
  shows "own_change (Some u) (wb_db w) (wb_db (snd (upload_avatar resize e r u form done w)))"
    "own_change (Some u) (wb_db w) (wb_db (snd (profile_settings_submit resize e r u form w)))"
    "own_change (Some u) (wb_db w) (wb_db (snd (user_create_invite e s r u w)))"
proof -
  note refl = own_change_refl [OF assms, of "Some u"]
  show "own_change (Some u) (wb_db w) (wb_db (snd (upload_avatar resize e r u form done w)))"
    using assms refl by (auto simp: upload_avatar_def map_db_def intro!: own_then_log own_about split: option.split)
  have about: "own_change (Some u) (wb_db w) (wb_db (log_as e r (Some u) k t i x (map_db (update_user (ur_id u) a) w)))" for k t i x a
    using assms by (auto simp: map_db_def intro!: own_then_log own_about)
  have "own_change (Some u) (wb_db w) (wb_db (log_as e r (Some u) k t i x (map_db (update_user_avatar (ur_id u) png kind) w')))"
    if "own_change (Some u) (wb_db w) (wb_db w')" for w' png kind k t i x
    using own_change_trans [OF that own_about(2)] own_ok [OF that] by (auto simp: map_db_def intro!: own_then_log)
  with about refl show "own_change (Some u) (wb_db w) (wb_db (snd (profile_settings_submit resize e r u form w)))"
    unfolding profile_settings_submit_def Let_def by (auto split: option.split prod.split)
  show "own_change (Some u) (wb_db w) (wb_db (snd (user_create_invite e s r u w)))"
    using refl own_invite [OF assms, of u e]
    unfolding user_create_invite_def make_invite_def Let_def
    by (auto split: prod.split sum.split intro!: own_then_log) (metis snd_conv)+
qed

lemma own_by_id: "ur_id u = ur_id p \<Longrightarrow> own_change (Some p) d d' \<Longrightarrow> own_change (Some u) d d'"
  by (simp add: own_change_def)

text \<open>
  C10. A request to the pages of users changes nothing of anybody else: whatever the path, the method, the form and the file,
  the accounts are the same but for what the user who is logged in tells and for this user's picture, every
  invitation is as it was, a new one is by this user, and no other table changes but the log of actions.
\<close>

theorem profile_changes_own:
  assumes "tbl_ok (db_users (wb_db w))" "tbl_ok (db_invites (wb_db w))"
  shows "own_change user (wb_db w) (wb_db (snd (user_profile_page resize e s r user form w)))"
proof -
  note refl = own_change_refl [OF assms, of user]
  have "own_change user (wb_db w) (wb_db (snd (upload_avatar resize e r p form next_page w)))"
    "own_change user (wb_db w) (wb_db (snd (profile_settings_submit resize e r p form w)))"
    "own_change user (wb_db w) (wb_db (snd (user_create_invite e s r p w)))"
    if "case user of None \<Rightarrow> False | Some u \<Rightarrow> ur_id u = ur_id p" for p next_page
    using that profile_forms [OF assms, of p] own_by_id by (auto split: option.splits)
  with refl show ?thesis
    unfolding user_profile_page_def user_avatar_submit_def Let_def
    by (auto split: sum.split simp del: split_paired_All split_paired_Ex)
qed

text \<open>One user tries to change what another tells.\<close>

lemma profile_changes_own_witness:
  "own_change (Some (visitor 1 False)) (wb_db board_web) (wb_db (snd (user_profile_page Some now0 site0
     (request0\<lparr>rq_path := ''/users/b/settings'', rq_post := True, rq_form := Some [(''about'', ''x'')]\<rparr>)
     (Some (visitor 1 False)) None board_web)))"
  by (rule profile_changes_own) (simp_all add: board_web_def board_def tbl_ok_def empty_db_def empty_tbl_def)

end
