(* ===== verification/TimedCache.thy ===== *)
theory TimedCache
  imports Web
begin

text \<open>
  The contract of a cache whose entries count for a time, and the cache of sessions as an instance: what a cache gives
  back was put in under the same key no longer ago than entries count.
\<close>

locale timed_cache =
  fixes get :: "int \<Rightarrow> string \<Rightarrow> 'c \<Rightarrow> 'v option"
    and put :: "int \<Rightarrow> string \<Rightarrow> 'v \<Rightarrow> 'c \<Rightarrow> 'c"
    and ttl :: int
    and entry :: "string \<Rightarrow> 'c \<Rightarrow> ('v \<times> int) option"
  assumes get_law: "get now k c = Some v \<Longrightarrow> \<exists>x. entry k c = Some (v, x) \<and> now \<le> x"
    and put_law: "entry j (put now k v c) = (if j = k then Some (v, now + ttl) else entry j c)"
begin

text \<open>Where the entries come from: \<open>P k v t\<close> says that \<open>v\<close> was put in for \<open>k\<close> at \<open>t\<close>.\<close>

lemma put_keeps:
  assumes "\<forall>k v x. entry k c = Some (v, x) \<longrightarrow> P k v (x - ttl)" "P k v now"
  shows "\<forall>k' v' x. entry k' (put now k v c) = Some (v', x) \<longrightarrow> P k' v' (x - ttl)"
  using assms by (simp add: put_law)

lemma got_recent:
  assumes "\<forall>k v x. entry k c = Some (v, x) \<longrightarrow> P k v (x - ttl)" "get now k c = Some v"
  shows "\<exists>t. now - ttl \<le> t \<and> P k v t"
proof -
  obtain x where "entry k c = Some (v, x)" "now \<le> x" using get_law [OF assms(2)] by blast
  with assms(1) show ?thesis by (intro exI [of _ "x - ttl"]) simp
qed

end

interpretation sessions: timed_cache cache_get cache_set session_cache_ttl "\<lambda>k c. map_of c k"
  by unfold_locales (auto simp: cache_get_def cache_set_def update_conv' split: option.splits if_splits)

end
