(* ===== verification/FeedOutput.thy ===== *)
theory FeedOutput
  imports WebContent TimedCache
begin

text \<open>
  The feeds the link aggregator offers (\<^verbatim>\<open>tools/makhor/pkg/handlers/rss.go\<close>): the documents, the handlers, and the
  cache of the feeds of several tags and of the log.  A document becomes text by a parameter, the encoder of XML,
  None where it fails; the tag of a cached text is another, the start of its digest.  Dates are UTC.
\<close>

subsection \<open>Documents\<close>

record rss_item =
  ri_title :: string
  ri_link :: string
  ri_description :: string
  ri_author :: string
  ri_guid :: string
  ri_pub_date :: string
  ri_comments :: string

record rss_doc =
  rd_title :: string
  rd_link :: string
  rd_description :: string
  rd_language :: string
  rd_pub_date :: string
  rd_items :: "rss_item list"

definition format_rss_date :: "int \<Rightarrow> string" where
  "format_rss_date t =
     (let days = t div 86400; s = t mod 86400; two = (\<lambda>n. pad0 2 (nat n)) in
      (case civil_from_days days of (y, m, day) \<Rightarrow>
        [''Sun'', ''Mon'', ''Tue'', ''Wed'', ''Thu'', ''Fri'', ''Sat''] ! nat ((days + 4) mod 7) @ '', '' @ two day @ '' ''
        @ month_name (nat m) @ '' '' @ pad0 4 (nat y) @ '' '' @ two (s div 3600) @ '':'' @ two (s mod 3600 div 60) @ '':''
        @ two (s mod 60) @ '' +0000''))"

definition post_link :: "string \<Rightarrow> int \<Rightarrow> string" where
  "post_link base i = base @ ''/posts/'' @ itoa i"

definition post_item :: "string \<Rightarrow> listed_post \<Rightarrow> rss_item" where
  "post_item base p = \<lparr>ri_title = pr_title p,
     ri_link = (if pr_url p = [] then post_link base (pr_id p) else pr_url p),
     ri_description = or_empty (truncate_text (if pr_body p = [] \<and> pr_url p \<noteq> [] then pr_url p else pr_body p) 500),
     ri_author = pr_username p, ri_guid = post_link base (pr_id p), ri_pub_date = format_rss_date (pr_created_at p),
     ri_comments = post_link base (pr_id p)\<rparr>"

definition posts_doc :: "int \<Rightarrow> string \<Rightarrow> string \<Rightarrow> string \<Rightarrow> string \<Rightarrow> listed_post list \<Rightarrow> rss_doc" where
  "posts_doc now base title link desc ps =
     \<lparr>rd_title = title, rd_link = link, rd_description = desc, rd_language = ''en'',
      rd_pub_date = format_rss_date (if ps \<noteq> [] then pr_created_at (hd ps) else now), rd_items = map (post_item base) ps\<rparr>"

subsection \<open>The feeds that are made for each request\<close>

datatype rss_answer = Rss_error int string | Rss_doc rss_doc

definition rss_feed_all :: "int \<Rightarrow> string \<Rightarrow> db \<Rightarrow> rss_answer" where
  "rss_feed_all now base d = Rss_doc (posts_doc now base ''makhor - Latest Posts'' base ''Latest posts from makhor''
     (fst (get_newest_posts d 1 30 None False)))"

definition rss_feed_by_tag :: "int \<Rightarrow> string \<Rightarrow> string \<Rightarrow> db \<Rightarrow> rss_answer" where
  "rss_feed_by_tag now base path d =
     (let tag = trim_suffix (trim_prefix path ''/rss/tag/'') ''.xml'' in
      if tag = [] then Rss_error 400 ''Missing tag''
      else Rss_doc (posts_doc now base (''makhor - '' @ tag) (base @ ''/rss/tag/'' @ tag @ ''.xml'')
        (''Posts tagged with '' @ [CHR 0x27] @ tag @ [CHR 0x27] @ '' on makhor'') (fst (get_posts d 1 30 tag None False))))"

definition rss_feed_by_user :: "int \<Rightarrow> string \<Rightarrow> string \<Rightarrow> db \<Rightarrow> rss_answer" where
  "rss_feed_by_user now base path d =
     (let name = trim_suffix (trim_prefix path ''/rss/user/'') ''.xml'' in
      if name = [] then Rss_error 400 ''Missing username''
      else (case get_user_by_username d name of
          Inl _ \<Rightarrow> Rss_error 404 ''User not found''
        | Inr u \<Rightarrow> Rss_doc (posts_doc now base (''makhor - Posts by '' @ name) (base @ ''/rss/user/'' @ name @ ''.xml'')
            (''Posts by '' @ name @ '' on makhor'') (fst (get_user_posts d (ur_id u) 1 30)))))"

definition comment_item :: "string \<Rightarrow> comment \<Rightarrow> rss_item" where
  "comment_item base c = \<lparr>ri_title = ''Comment by '' @ cr_username c @ '' on: '' @ cr_post_title c,
     ri_link = post_link base (cr_post_id c) @ ''#c'' @ itoa (cr_id c), ri_description = or_empty (truncate_text (cr_body c) 500),
     ri_author = cr_username c, ri_guid = base @ ''/comments/'' @ itoa (cr_id c),
     ri_pub_date = format_rss_date (cr_created_at c), ri_comments = []\<rparr>"

definition rss_comments :: "int \<Rightarrow> string \<Rightarrow> db \<Rightarrow> rss_answer" where
  "rss_comments now base d = Rss_doc \<lparr>rd_title = ''makhor - Recent Comments'', rd_link = base @ ''/rss/comments.xml'',
     rd_description = ''Recent comments on makhor'', rd_language = ''en'', rd_pub_date = format_rss_date now,
     rd_items = map (comment_item base) (get_recent_comments d 30)\<rparr>"

subsection \<open>The cache\<close>

text \<open>The text, its tag and the instant, in nanoseconds, up to which it counts, by the key.\<close>

type_synonym rss_cache = "(string \<times> (string \<times> string) \<times> int) list"

definition rss_get :: "int \<Rightarrow> string \<Rightarrow> rss_cache \<Rightarrow> (string \<times> string) option" where
  "rss_get now k c = (case map_of c k of None \<Rightarrow> None | Some (x, expires) \<Rightarrow> if now > expires then None else Some x)"

definition rss_set :: "(string \<Rightarrow> string) \<Rightarrow> int \<Rightarrow> int \<Rightarrow> string \<Rightarrow> string \<Rightarrow> rss_cache \<Rightarrow> string \<times> rss_cache" where
  "rss_set digest now ttl k data c = (let etag = digest data in (etag, AList.update k ((data, etag), now + ttl) c))"

datatype cached_answer = Cached_error | Cached_same | Cached_text string string

definition serve_cached_rss :: "(string \<Rightarrow> string) \<Rightarrow> int \<Rightarrow> int \<Rightarrow> string \<Rightarrow> string \<Rightarrow> string option \<Rightarrow> rss_cache \<Rightarrow>
    cached_answer \<times> rss_cache" where
  "serve_cached_rss digest now ttl known k generated c =
     (case rss_get now k c of
        Some (data, etag) \<Rightarrow> (if known = etag then Cached_same else Cached_text data etag, c)
      | None \<Rightarrow> (case generated of
          None \<Rightarrow> (Cached_error, c)
        | Some data \<Rightarrow> (case rss_set digest now ttl k data c of (etag, c) \<Rightarrow> (Cached_text data etag, c))))"

definition rss_ttl :: int where
  "rss_ttl = 5 * 60 * 1000000000"

subsection \<open>The log and the feeds of several tags\<close>

definition log_key :: "string \<Rightarrow> string \<Rightarrow> string" where
  "log_key category username = ''log:'' @ category @ '':'' @ username"

definition log_item :: "string \<Rightarrow> string \<Rightarrow> action_log \<Rightarrow> rss_item" where
  "log_item base category l = \<lparr>
     ri_title = ''['' @ al_action l @ ''] '' @ al_username l @ (if al_target_info l \<noteq> [] then '': '' @ al_target_info l else []),
     ri_link = base @ ''/admin/log'' @ (if category \<noteq> [] then ''?category='' @ category else []),
     ri_description = ''Action: '' @ al_action l @ [LF] @ ''Target: '' @ al_target_type l @ '' #'' @ itoa (al_target_id l) @ [LF]
       @ ''Details: '' @ al_details l,
     ri_author = al_username l, ri_guid = base @ ''/log/'' @ itoa (al_id l), ri_pub_date = format_rss_date (al_created_at l),
     ri_comments = []\<rparr>"

definition log_doc :: "int \<Rightarrow> string \<Rightarrow> string \<Rightarrow> string \<Rightarrow> db \<Rightarrow> rss_doc" where
  "log_doc now base category username d =
     \<lparr>rd_title = (if category \<noteq> [] then ''makhor - Action Log ('' @ category @ '')'' else ''makhor - Action Log'')
        @ (if username \<noteq> [] then '' by '' @ username else []),
      rd_link = base @ ''/rss/log.xml'', rd_description = ''Action log from makhor'', rd_language = ''en'',
      rd_pub_date = format_rss_date now,
      rd_items = map (log_item base category) (fst (get_action_log_filtered d
        \<lparr>lf_category = category, lf_username = username, lf_target_type = [], lf_action = []\<rparr> 1 50))\<rparr>"

text \<open>The clock is in seconds for dates and in nanoseconds for the cache.\<close>

definition rss_action_log :: "(rss_doc \<Rightarrow> string option) \<Rightarrow> (string \<Rightarrow> string) \<Rightarrow> int \<Rightarrow> string \<Rightarrow> string \<Rightarrow>
    web_request \<Rightarrow> db \<Rightarrow> rss_cache \<Rightarrow> cached_answer \<times> rss_cache" where
  "rss_action_log encode digest now base known r d c =
     (let category = query_get r ''category''; username = query_get r ''username'' in
      serve_cached_rss digest now rss_ttl known (log_key category username)
        (encode (log_doc (now div 1000000000) base category username d)) c)"

definition requested_tags :: "string \<Rightarrow> string list" where
  "requested_tags param = sort (filter (\<lambda>t. t \<noteq> []) (map trim_space (split_on (CHR '','') param)))"

definition expanded_tags :: "db \<Rightarrow> string list \<Rightarrow> string list" where
  "expanded_tags d tags = concat (map (\<lambda>t. t # map tr_name (get_child_tags d t)) tags)"

definition tags_doc :: "int \<Rightarrow> string \<Rightarrow> string \<Rightarrow> string list \<Rightarrow> db \<Rightarrow> rss_doc" where
  "tags_doc now base param tags d =
     posts_doc now base (''makhor - '' @ join_with '', '' tags) (base @ ''/rss/tags.xml?tags='' @ param)
       (''Posts tagged with: '' @ join_with '', '' tags @ '' (including subtags)'')
       (get_posts_by_tags d (expanded_tags d tags) 1 50)"

definition rss_tags_multi :: "(rss_doc \<Rightarrow> string option) \<Rightarrow> (string \<Rightarrow> string) \<Rightarrow> int \<Rightarrow> string \<Rightarrow> string \<Rightarrow>
    web_request \<Rightarrow> db \<Rightarrow> rss_cache \<Rightarrow> (rss_answer + cached_answer) \<times> rss_cache" where
  "rss_tags_multi encode digest now base known r d c =
     (let param = query_get r ''tags''; tags = requested_tags param in
      if param = [] then (Inl (Rss_error 400 ''Missing tags parameter''), c)
      else if tags = [] then (Inl (Rss_error 400 ''No valid tags provided''), c)
      else apfst Inr (serve_cached_rss digest now rss_ttl known (''tags:'' @ join_with '','' tags)
        (encode (tags_doc (now div 1000000000) base param tags d)) c))"

subsection \<open>How old a cached feed may be\<close>

interpretation feeds: timed_cache rss_get "\<lambda>now k v. AList.update k (v, now + rss_ttl)" rss_ttl "\<lambda>k c. map_of c k"
  by unfold_locales (auto simp: rss_get_def update_conv' split: option.splits if_splits)

text \<open>The requests that reach the cache: when, with which tag, for which key, and the feed that would be made then.\<close>

type_synonym feed_call = "int \<times> string \<times> string \<times> string option"

fun rss_answers :: "(string \<Rightarrow> string) \<Rightarrow> feed_call list \<Rightarrow> rss_cache \<Rightarrow> cached_answer list" where
  "rss_answers digest [] c = []"
| "rss_answers digest ((now, known, k, made) # rs) c =
     (case serve_cached_rss digest now rss_ttl known k made c of (a, c) \<Rightarrow> a # rss_answers digest rs c)"

text \<open>The text was made for the key at the instant, by a request of the history.\<close>

definition made_at :: "(string \<Rightarrow> string) \<Rightarrow> feed_call set \<Rightarrow> string \<Rightarrow> string \<times> string \<Rightarrow> int \<Rightarrow> bool" where
  "made_at digest h k x t \<longleftrightarrow> snd x = digest (fst x) \<and> (\<exists>known. (t, known, k, Some (fst x)) \<in> h)"

definition answers_with :: "string \<Rightarrow> string \<times> string \<Rightarrow> cached_answer \<Rightarrow> bool" where
  "answers_with known x a \<longleftrightarrow> a = Cached_text (fst x) (snd x) \<or> a = Cached_same \<and> known = snd x"

definition made_of :: "(string \<Rightarrow> string) \<Rightarrow> feed_call set \<Rightarrow> rss_cache \<Rightarrow> bool" where
  "made_of digest h c \<longleftrightarrow> (\<forall>k v x. map_of c k = Some (v, x) \<longrightarrow> made_at digest h k v (x - rss_ttl))"

lemma made_of_more: "made_of digest h c \<Longrightarrow> h \<subseteq> h' \<Longrightarrow> made_of digest h' c"
  unfolding made_of_def made_at_def by blast

lemma serve_recent:
  assumes "made_of digest h c" "serve_cached_rss digest now rss_ttl known k made c = (a, c')" "(now, known, k, made) \<in> h"
  shows "made_of digest h c' \<and> (a = Cached_error \<or> (\<exists>x t. answers_with known x a \<and> now - rss_ttl \<le> t \<and> made_at digest h k x t))"
proof (cases "rss_get now k c")
  case (Some x)
  from feeds.got_recent [of c "made_at digest h", OF _ Some] assms(1) obtain t where
    "now - rss_ttl \<le> t" "made_at digest h k x t" by (auto simp: made_of_def)
  with assms(1,2) Some show ?thesis by (auto simp: serve_cached_rss_def answers_with_def split: prod.splits if_splits)
next
  case None
  show ?thesis
  proof (cases made)
    case (Some data)
    from assms(3) Some have m: "made_at digest h k (data, digest data) now" by (auto simp: made_at_def)
    from feeds.put_keeps [of c "made_at digest h" k "(data, digest data)" now] m assms(1)
    have "made_of digest h (AList.update k ((data, digest data), now + rss_ttl) c)" by (simp add: made_of_def)
    moreover have "now - rss_ttl \<le> now" by (simp add: rss_ttl_def)
    ultimately show ?thesis using assms(2) None Some m
      by (auto simp: serve_cached_rss_def rss_set_def answers_with_def Let_def)
  qed (use assms(1,2) None in \<open>simp add: serve_cached_rss_def\<close>)
qed

lemma answers_recent:
  "made_of digest h c \<Longrightarrow> i < length rs \<Longrightarrow> rs ! i = (now, known, k, made) \<Longrightarrow> rss_answers digest rs c ! i \<noteq> Cached_error \<Longrightarrow>
     \<exists>x t. answers_with known x (rss_answers digest rs c ! i) \<and> now - rss_ttl \<le> t \<and> made_at digest (h \<union> set (take (Suc i) rs)) k x t"
proof (induction rs arbitrary: h c i)
  case (Cons r rs)
  obtain n0 k0 q m where r: "r = (n0, k0, q, m)" by (metis prod_cases4)
  obtain a c' where s: "serve_cached_rss digest n0 rss_ttl k0 q m c = (a, c')" by (metis surj_pair)
  have "made_of digest (insert r h) c" using made_of_more [OF Cons.prems(1)] by blast
  from serve_recent [OF this s] r have step: "made_of digest (insert r h) c'"
    "a = Cached_error \<or> (\<exists>x t. answers_with k0 x a \<and> n0 - rss_ttl \<le> t \<and> made_at digest (insert r h) q x t)" by auto
  show ?case
  proof (cases i)
    case 0
    with Cons.prems step(2) r s show ?thesis by auto
  next
    case (Suc j)
    with Cons.IH [OF step(1), of j] Cons.prems r s show ?thesis by simp
  qed
qed simp

text \<open>
  A cached feed is at most five minutes old: in any run of requests, whoever gets a feed, or the answer that the
  feed is the one they have, gets the text that was made for the same key by this or an earlier request
  no longer than five minutes before, with its digest as the tag.
\<close>

theorem cached_feed_recent:
  assumes "i < length rs" "rs ! i = (now, known, k, made)" "rss_answers digest rs [] ! i \<noteq> Cached_error"
  shows "\<exists>data t known'. (t, known', k, Some data) \<in> set (take (Suc i) rs) \<and> now - 5 * 60 * 1000000000 \<le> t
    \<and> (rss_answers digest rs [] ! i = Cached_text data (digest data) \<or> rss_answers digest rs [] ! i = Cached_same \<and> known = digest data)"
  using answers_recent [of digest "{}" "[]", OF _ assms]
  by (auto simp: made_of_def made_at_def answers_with_def rss_ttl_def)

text \<open>
  Two feeds of the log share a place in the cache: the colon between category and user may be part of
  either, so a request for one may be answered with the other.
\<close>

theorem log_keys_collide:
  "log_key (category @ '':'' @ x) y = log_key category (x @ '':'' @ y)"
  by (simp add: log_key_def)

lemma cached_feed_recent_witness:
  "rss_answers (\<lambda>s. ''1'') [(5, [], ''all'', Some ''x''), (6, ''1'', ''all'', None)] [] ! 1 = Cached_same
   \<and> (\<exists>data t known. (t, known, ''all'', Some data) \<in> {(5, [], ''all'', Some ''x''), (6, ''1'', ''all'', None)} \<and> (6 :: int) - 5 * 60 * 1000000000 \<le> t)"
proof -
  let ?rs = "[(5, [], ''all'', Some ''x''), (6, ''1'', ''all'', None)] :: feed_call list"
  have v: "rss_answers (\<lambda>s. ''1'') ?rs [] ! 1 = Cached_same" by code_simp
  then have "rss_answers (\<lambda>s. ''1'') ?rs [] ! 1 \<noteq> Cached_error" by simp
  moreover have "1 < length ?rs" "?rs ! 1 = (6, ''1'', ''all'', None)" by simp_all
  ultimately obtain data t known where "(t, known, ''all'', Some data) \<in> set (take (Suc 1) ?rs)" "6 - 5 * 60 * 1000000000 \<le> t"
    using cached_feed_recent [of 1 ?rs 6 "''1''" "''all''" None "\<lambda>s. ''1''"] by blast
  with v show ?thesis by auto
qed

end
