(* ===== verification/Search.thy ===== *)
theory Search
  imports WebContent
begin

text \<open>
  The full text search of the link aggregator (\<^verbatim>\<open>tools/makhor/pkg/db/search.go\<close>): the query as it is handed to
  the engine, the index with the triggers that keep it, and the search with its fallback.  The engine itself, FTS5, is a
  parameter: which queries it takes, whether a query matches a title and a text, and the rank of a match.
\<close>

subsection \<open>The query\<close>

definition has_operators :: "string \<Rightarrow> bool" where
  "has_operators q \<longleftrightarrow> (\<exists>c\<in>set q. c \<in> {CHR 0x22, CHR ''*'', CHR ''('', CHR '')''})
     \<or> contains q '' AND '' \<or> contains q '' OR '' \<or> contains q '' NOT '' \<or> contains q ''title:'' \<or> contains q ''body:''"

definition sanitize_fts_query :: "string \<Rightarrow> string" where
  "sanitize_fts_query query =
     (let q = trim_space query in
      if q = [] then []
      else if has_operators q then replace_all ''--'' [] (replace_all '';'' [] q)
      else join_with '' '' (map (\<lambda>w. w @ ''*'') (filter (\<lambda>w. w \<noteq> [])
        (map (filter (\<lambda>c. c \<notin> {CHR 0x22, CHR ''*'', CHR ''('', CHR '')''})) (str_fields q)))))"

subsection \<open>The index\<close>

type_synonym fts_index = "int \<Rightarrow> (string \<times> string) option"

definition fts_text :: "post_row \<Rightarrow> string \<times> string" where
  "fts_text p = (po_title p, or_empty (po_body p))"

text \<open>An index there is stays as it is; a new one has the posts that are not deleted.\<close>

definition setup_fts :: "db \<Rightarrow> fts_index option \<Rightarrow> fts_index" where
  "setup_fts d idx =
     (case idx of
        Some idx \<Rightarrow> idx
      | None \<Rightarrow> (\<lambda>i. case tbl_get (db_posts d) i of None \<Rightarrow> None
          | Some p \<Rightarrow> if po_is_deleted p then None else Some (fts_text p)))"

definition rebuild_fts_index :: "db \<Rightarrow> fts_index" where
  "rebuild_fts_index d = setup_fts d None"

text \<open>The triggers after a statement that turns one table of posts into another; a row it does not touch stays.\<close>

definition fts_triggers :: "post_row tbl \<Rightarrow> post_row tbl \<Rightarrow> fts_index \<Rightarrow> fts_index" where
  "fts_triggers old new idx = (\<lambda>i.
     (case (tbl_get old i, tbl_get new i) of
        (None, None) \<Rightarrow> idx i
      | (Some _, None) \<Rightarrow> None
      | (None, Some p) \<Rightarrow> Some (fts_text p)
      | (Some r, Some p) \<Rightarrow> if r = p then idx i else Some (fts_text p)))"

text \<open>The count of a table whose content is elsewhere is that of the content.\<close>

definition fts_health_check :: "db \<Rightarrow> fts_index option \<Rightarrow> bool" where
  "fts_health_check d idx \<longleftrightarrow> idx \<noteq> None
     \<and> tbl_count (\<lambda>_ p. \<not> po_is_deleted p) (db_posts d) = tbl_count (\<lambda>_ p. True) (db_posts d)"

subsection \<open>The search\<close>

record fts_engine =
  fe_takes :: "string \<Rightarrow> bool"
  fe_matches :: "string \<Rightarrow> string \<times> string \<Rightarrow> bool"
  fe_rank :: "string \<Rightarrow> fts_index \<Rightarrow> int \<Rightarrow> rat"

text \<open>Address and text are read into strings, which a NULL is not: one such row and the search fails.\<close>

definition scan_search_results :: "db \<Rightarrow> int option \<Rightarrow> (int \<times> post_row) list \<Rightarrow> listed_post list option" where
  "scan_search_results d viewer rows =
    (if \<exists>x\<in>set rows. po_url (snd x) = None \<or> po_body (snd x) = None then None
     else Some (map (\<lambda>(i, p). let ks = map fst rows in (listed_row d i p)
     \<lparr>pr_source_type := po_source_type p, pr_source_id := po_source_id p, pr_tags := get_tags_for_posts d ks i,
      pr_user_voted := (case viewer of None \<Rightarrow> False | Some v \<Rightarrow> get_user_voted d v Post_target ks i)\<rparr>) rows))"

definition fts_hit :: "fts_engine \<Rightarrow> fts_index \<Rightarrow> string \<Rightarrow> int \<Rightarrow> post_row \<Rightarrow> bool" where
  "fts_hit eng idx q i p \<longleftrightarrow> \<not> po_is_deleted p \<and> (case idx i of None \<Rightarrow> False | Some x \<Rightarrow> fe_matches eng q x)"

definition best_ranked :: "fts_engine \<Rightarrow> fts_index \<Rightarrow> string \<Rightarrow> (int \<times> post_row) list \<Rightarrow> (int \<times> post_row) list" where
  "best_ranked eng idx q rows = sort_key (\<lambda>(i, p). - fe_rank eng q idx i) (best_first rows)"

definition search_posts_fts ::
  "fts_engine \<Rightarrow> fts_index \<Rightarrow> string \<Rightarrow> int option \<Rightarrow> db \<Rightarrow> int \<Rightarrow> int \<Rightarrow> (listed_post list \<times> int) option" where
  "search_posts_fts eng idx query viewer d page per_page =
     (let q = sanitize_fts_query query in
      if q = [] then Some ([], 0)
      else if \<not> fe_takes eng q then Some (search_posts d query page per_page viewer)
      else let found = count_posts (fts_hit eng idx q) d in
        if found = 0 then Some ([], 0)
        else map_option (\<lambda>ps. (ps, found))
          (scan_search_results d viewer (page_of page per_page (best_ranked eng idx q (post_rows_of (fts_hit eng idx q) d)))))"

text \<open>The page is an error, the empty form or what was found.\<close>

datatype search_page = Search_failed | Search_form | Search_found string "listed_post list" int pagination

definition search_page_of :: "fts_engine \<Rightarrow> fts_index \<Rightarrow> web_request \<Rightarrow> user option \<Rightarrow> db \<Rightarrow> search_page" where
  "search_page_of eng idx r user d =
     (let query = trim_space (query_get r ''q''); page = get_int_param r ''page'' 1; n = default_posts_per_page in
      if query = [] then Search_form
      else (case search_posts_fts eng idx query (fst (get_user_context user)) d page n of
          None \<Rightarrow> Search_failed
        | Some (ps, count) \<Rightarrow> Search_found query ps count (new_pagination page n count)))"

subsection \<open>What is searched for\<close>

lemma replaced_byte: "set (replace_all [c] [] s) \<subseteq> set s - {c}"
  by (induction "[c]" "[] :: string" s rule: replace_all.induct) auto

lemma replaced_head: "replace_all ''--'' [] s = CHR ''-'' # t \<Longrightarrow> s \<noteq> [] \<and> (hd s = CHR ''-'' \<or> s = CHR ''-'' # t)"
  by (cases s) (auto split: if_splits)

lemma dashes_gone: "\<not> contains (replace_all ''--'' [] s) ''--''"
proof (induction s rule: length_induct)
  case (1 s)
  show ?case
  proof (cases s)
    case (Cons c cs)
    show ?thesis
    proof (cases "has_prefix s ''--''")
      case True
      with Cons 1 show ?thesis by simp
    next
      case False
      then have "has_prefix (c # cs) ''--'' = False" using Cons by simp
      then have r: "replace_all ''--'' [] s = c # replace_all ''--'' [] cs"
        unfolding Cons by (simp only: replace_all.simps if_False simp_thms)
      have "\<not> contains (replace_all ''--'' [] cs) ''--''" using 1 Cons by simp
      moreover have "\<not> has_prefix (c # replace_all ''--'' [] cs) ''--''"
        using False replaced_head [of cs] unfolding Cons
        by (cases "replace_all ''--'' [] cs"; cases cs) (auto simp: has_prefix_iff)
      ultimately show ?thesis unfolding r by (simp add: contains_def)
    qed
  qed (simp add: contains_def)
qed

lemma field_chars: "x \<in> set (fields_from w s) \<Longrightarrow> x \<noteq> [] \<and> set x \<subseteq> set w \<union> set s"
proof (induction w s rule: fields_from.induct)
  case (1 w s)
  show ?case
  proof (cases s)
    case Nil
    with 1 show ?thesis by (auto simp: fields_from.simps [of w] split: if_splits)
  next
    case (Cons c cs)
    with "1.IH"(1) [OF Cons] "1.IH"(2) [OF Cons] "1.prems" set_drop_subset [of "space_head s" s] show ?thesis
      by (cases "space_head s = 0") (fastforce simp: fields_from.simps [of w] split: if_splits)+
  qed
qed

text \<open>
  What is asked of the engine: a query with operators keeps them and loses semicolons and double dashes; any
  other query asks for all its words, each as the beginning of a word.
\<close>

theorem query_sanitized:
  "if has_operators (trim_space query)
   then CHR '';'' \<notin> set (sanitize_fts_query query) \<and> \<not> contains (sanitize_fts_query query) ''--''
   else sanitize_fts_query query = join_with '' '' (map (\<lambda>w. w @ ''*'') (str_fields (trim_space query)))"
proof (cases "trim_space query = []")
  case False
  let ?q = "trim_space query"
  show ?thesis
  proof (cases "has_operators ?q")
    case True
    have "CHR '';'' \<notin> set (replace_all ''--'' [] s)" if "CHR '';'' \<notin> set s" for s
      using that by (induction "''--''" "[] :: string" s rule: replace_all.induct) (auto dest: in_set_dropD)
    with True False replaced_byte [of "CHR '';''" ?q] dashes_gone show ?thesis
      by (auto simp: sanitize_fts_query_def Let_def)
  next
    case plain: False
    have "filter (\<lambda>c. c \<notin> {CHR 0x22, CHR ''*'', CHR ''('', CHR '')''}) w = w \<and> w \<noteq> []" if "w \<in> set (str_fields ?q)" for w
      using field_chars [of w "[]" ?q] that plain by (auto simp: str_fields_def has_operators_def filter_id_conv)
    then have "filter (\<lambda>w. w \<noteq> []) (map (filter (\<lambda>c. c \<notin> {CHR 0x22, CHR ''*'', CHR ''('', CHR '')''})) (str_fields ?q)) = str_fields ?q"
      by (simp add: map_idI filter_id_conv)
    with False plain show ?thesis by (simp add: sanitize_fts_query_def Let_def)
  qed
next
  case True
  moreover have "\<not> has_operators []" by (simp add: has_operators_def contains_def)
  ultimately show ?thesis by (simp add: sanitize_fts_query_def)
qed

subsection \<open>What is found\<close>

definition index_synced :: "post_row tbl \<Rightarrow> fts_index \<Rightarrow> bool" where
  "index_synced posts idx \<longleftrightarrow> (\<forall>i. case tbl_get posts i of None \<Rightarrow> idx i = None
     | Some p \<Rightarrow> po_is_deleted p \<or> idx i = Some (fts_text p))"

lemma setup_synced: "index_synced (db_posts d) (rebuild_fts_index d)"
  by (auto simp: index_synced_def rebuild_fts_index_def setup_fts_def split: option.split)

lemma triggers_synced: "index_synced old idx \<Longrightarrow> index_synced new (fts_triggers old new idx)"
  unfolding index_synced_def
proof
  fix i
  assume "\<forall>i. case tbl_get old i of None \<Rightarrow> idx i = None | Some p \<Rightarrow> po_is_deleted p \<or> idx i = Some (fts_text p)"
  then have "case tbl_get old i of None \<Rightarrow> idx i = None | Some p \<Rightarrow> po_is_deleted p \<or> idx i = Some (fts_text p)" by (rule spec)
  then show "case tbl_get new i of None \<Rightarrow> fts_triggers old new idx i = None
      | Some p \<Rightarrow> po_is_deleted p \<or> fts_triggers old new idx i = Some (fts_text p)"
    by (cases "tbl_get old i"; cases "tbl_get new i") (auto simp: fts_triggers_def)
qed

text \<open>The index along a history of the database.\<close>

fun fts_follow :: "db list \<Rightarrow> db \<Rightarrow> fts_index \<Rightarrow> fts_index" where
  "fts_follow [] d idx = idx"
| "fts_follow (d' # ds) d idx = fts_follow ds d' (fts_triggers (db_posts d) (db_posts d') idx)"

lemma follow_synced: "index_synced (db_posts d) idx \<Longrightarrow> index_synced (db_posts (last (d # ds))) (fts_follow ds d idx)"
proof (induction ds d idx rule: fts_follow.induct)
  case (2 d' ds d idx)
  from "2.IH" [OF triggers_synced [OF "2.prems"]] show ?case by simp
qed simp

lemma synced_hit: "index_synced (db_posts d) idx \<Longrightarrow> tbl_get (db_posts d) i = Some p \<Longrightarrow>
    fts_hit eng idx q i p \<longleftrightarrow> \<not> po_is_deleted p \<and> fe_matches eng q (fts_text p)"
  unfolding index_synced_def fts_hit_def by (drule spec [of _ i]) auto

lemma best_ranked_length: "length (best_ranked eng idx q rows) = length rows"
  by (simp add: best_ranked_def order_lengths)

definition search_row :: "db \<Rightarrow> int option \<Rightarrow> int \<times> post_row \<Rightarrow> listed_post" where
  "search_row d viewer = (\<lambda>(i, p). (listed_row d i p)\<lparr>pr_source_type := po_source_type p, pr_source_id := po_source_id p,
     pr_tags := get_tags_for_posts d [i] i,
     pr_user_voted := (case viewer of None \<Rightarrow> False | Some v \<Rightarrow> get_user_voted d v Post_target [i] i)\<rparr>)"

definition texts_stored :: "db \<Rightarrow> bool" where
  "texts_stored d \<longleftrightarrow> (\<forall>x\<in>set (snd (db_posts d)). po_url (snd x) \<noteq> None \<and> po_body (snd x) \<noteq> None)"

lemma search_scan:
  assumes "texts_stored d" "set rows \<subseteq> set (snd (db_posts d))"
  shows "scan_search_results d viewer rows = Some (map (search_row d viewer) rows)"
proof -
  have "map (search_row d viewer) rows = map (\<lambda>(i, p). let ks = map fst rows in (listed_row d i p)
     \<lparr>pr_source_type := po_source_type p, pr_source_id := po_source_id p, pr_tags := get_tags_for_posts d ks i,
      pr_user_voted := (case viewer of None \<Rightarrow> False | Some v \<Rightarrow> get_user_voted d v Post_target ks i)\<rparr>) rows"
    unfolding search_row_def
    by (rule map_cong [OF refl]) (force simp: get_tags_for_posts_def get_user_voted_def split: option.split)
  moreover have "\<not> (\<exists>x\<in>set rows. po_url (snd x) = None \<or> po_body (snd x) = None)" using assms unfolding texts_stored_def by (blast dest: subsetD)
  ultimately show ?thesis by (simp only: scan_search_results_def if_False)
qed

lemma search_ids: "map pr_id (map (search_row d viewer) rows) = map fst rows"
  by (simp add: search_row_def listed_row_def case_prod_unfold comp_def)

lemma page_of_subset: "set (page_of k n xs) \<subseteq> set xs"
  by (auto simp: page_of_def limit_offset_def dest!: in_set_takeD in_set_dropD)

lemma hits_stored: "set (page_of k n (best_ranked eng idx q (post_rows_of P d))) \<subseteq> set (snd (db_posts d))"
  using page_of_subset [of k n "best_ranked eng idx q (post_rows_of P d)"]
  by (auto simp: best_ranked_def order_sets post_rows_of_def tbl_select_def)

lemma search_page_law:
  assumes "sanitize_fts_query query = q" "q \<noteq> []" "fe_takes eng q" "pages_ok d" "texts_stored d"
  shows "search_posts_fts eng idx query viewer d k n = Some (page_of k n (map (search_row d viewer)
      (best_ranked eng idx q (post_rows_of (fts_hit eng idx q) d))), int (length (post_rows_of (fts_hit eng idx q) d)))"
proof -
  let ?rows = "post_rows_of (fts_hit eng idx q) d"
  have c: "count_posts (fts_hit eng idx q) d = int (length ?rows)" using count_rows [OF assms(4)] by simp
  show ?thesis
  proof (cases "?rows = []")
    case True
    then show ?thesis using assms c by (simp add: search_posts_fts_def Let_def best_ranked_def best_first_def newest_first_def page_of_Nil)
  next
    case False
    then show ?thesis using assms c search_scan [OF assms(5) hits_stored]
      by (simp add: search_posts_fts_def Let_def page_of_map)
  qed
qed

text \<open>
  C40. The search finds everything: take the index as it was built for some database and kept by the triggers
  through any history of the posts. No page of a search fails as long as no post has a NULL for its address or text, and
  the pages, put together, list every post that is not
  deleted and matches the query by its present title and text, and each once. So posts without a tag are found by everybody.
\<close>

theorem search_complete:
  assumes "d = last (d0 # ds)" "idx = fts_follow ds d0 (rebuild_fts_index d0)" "pages_ok d" "texts_stored d" "1 \<le> n" "n \<le> 100"
    and "q = sanitize_fts_query query" "q \<noteq> []" "fe_takes eng q"
  shows "\<exists>pages total. (\<forall>k. search_posts_fts eng idx query viewer d k n = Some (pages k, total))
    \<and> (let found = map pr_id (concat (map pages [1..pg_total_pages (new_pagination page n total)])) in distinct found
      \<and> set found = {i. \<exists>p. tbl_get (db_posts d) i = Some p \<and> \<not> po_is_deleted p \<and> fe_matches eng q (fts_text p)})"
proof -
  have synced: "index_synced (db_posts d) idx" unfolding assms(1,2) by (rule follow_synced [OF setup_synced])
  let ?rows = "post_rows_of (fts_hit eng idx q) d"
  let ?all = "map (search_row d viewer) (best_ranked eng idx q ?rows)"
  define found where "found = map pr_id (concat (map (\<lambda>k. page_of k n ?all) [1..pg_total_pages (new_pagination page n (int (length ?rows)))]))"
  have len: "length ?all = length ?rows" by (simp add: best_ranked_length)
  then have "int (length ?all) < max_int64" using count_rows [OF assms(3)] few_rows [OF assms(3)] by simp
  from pages_concat [OF assms(5,6) this, of page] have "found = map pr_id ?all" unfolding found_def by (simp only: len)
  then have f: "found = map fst (best_ranked eng idx q ?rows)" by (simp only: search_ids)
  have "distinct found" unfolding f best_ranked_def
    using distinct_order(2) [OF rows_ids(1) [OF assms(3)]] by (simp add: distinct_map distinct_sort)
  moreover have "set found = fst ` set ?rows" unfolding f by (simp add: best_ranked_def order_sets)
  then have "set found = {i. \<exists>p. tbl_get (db_posts d) i = Some p \<and> \<not> po_is_deleted p \<and> fe_matches eng q (fts_text p)}"
    using synced_hit [OF synced, of _ _ eng q] by (auto simp: rows_ids(3) [OF assms(3)])
  ultimately show ?thesis using search_page_law [OF assms(7) [symmetric] assms(8,9,3,4), of idx viewer] unfolding found_def Let_def
    by (intro exI [of _ "\<lambda>k. page_of k n ?all"] exI [of _ "int (length ?rows)"] conjI allI)
qed

text \<open>
  The check of the index fails from the first deletion on: deleting a post only marks it, and the
  check compares the posts that are not deleted with all of them.
\<close>

theorem health_check_fails:
  assumes "tbl_ok (db_posts d)" "tbl_get (db_posts d) i = Some p"
  shows "\<not> fts_health_check (delete_post i d) (Some idx)"
proof -
  let ?t = "db_posts (delete_post i d)"
  have "tbl_ok ?t" using assms(1) by (simp add: delete_post_def set_post_def tbl_update_ok)
  moreover have "tbl_get ?t i = Some (p\<lparr>po_is_deleted := True\<rparr>)" using assms(2) by (simp add: delete_post_def set_post_get)
  ultimately have "0 < tbl_count (\<lambda>_ p. po_is_deleted p) ?t" by (auto simp: tbl_count_pos intro!: exI [of _ i])
  moreover have "tbl_count (\<lambda>_ p. True) ?t = tbl_count (\<lambda>_ p. po_is_deleted p) ?t + tbl_count (\<lambda>_ p. \<not> po_is_deleted p) ?t"
    using sum_length_filter_compl [of "\<lambda>(i, p). po_is_deleted p" "snd ?t"] by (simp add: tbl_count_def tbl_select_def case_prod_unfold)
  ultimately show ?thesis by (simp add: fts_health_check_def)
qed

text \<open>An engine that finds a word in the titles, and a board that grows: one post at first, four in the end.\<close>

definition word_engine :: fts_engine where
  "word_engine = \<lparr>fe_takes = (\<lambda>q. True), fe_matches = (\<lambda>q x. contains (fst x) (butlast q)), fe_rank = (\<lambda>q idx i. of_int i)\<rparr>"

definition text_post :: "int \<Rightarrow> bool \<Rightarrow> post_row" where
  "text_post i del = (plain_post 1 i del)\<lparr>po_body := Some []\<rparr>"

definition one_post :: db where
  "one_post = empty_db\<lparr>db_users := (1, [(1, plain_user ''a'')]), db_posts := (1, [(1, text_post 1 False)])\<rparr>"

definition three_posts :: db where
  "three_posts = one_post\<lparr>db_posts := (3, [(1, text_post 1 False), (2, text_post 2 True), (3, text_post 3 False)])\<rparr>"

lemma three_posts_ok: "pages_ok three_posts" "texts_stored three_posts"
  by (simp_all add: pages_ok_def texts_stored_def three_posts_def one_post_def tbl_ok_def authors_known_def tbl_get_def
    text_post_def plain_post_def max_int64_def)

lemma search_complete_witness:
  "\<exists>pages total. search_posts_fts word_engine (fts_follow [three_posts] one_post (rebuild_fts_index one_post)) ''t'' None three_posts 1 30
       = Some (pages 1, total)
     \<and> set (map pr_id (concat (map pages [1..pg_total_pages (new_pagination 1 30 total)]))) = {1, 3}"
proof -
  define idx where "idx = fts_follow [three_posts] one_post (rebuild_fts_index one_post)"
  have q: "''t*'' = sanitize_fts_query ''t''" by code_simp
  have n: "1 \<le> (30 :: int)" "30 \<le> (100 :: int)" "''t*'' \<noteq> []" "fe_takes word_engine ''t*''" by (simp_all add: word_engine_def)
  have l: "three_posts = last (one_post # [three_posts])" by simp
  have "contains ''t'' ''t''" by code_simp
  then have "{i. \<exists>p. tbl_get (db_posts three_posts) i = Some p \<and> \<not> po_is_deleted p \<and> fe_matches word_engine ''t*'' (fts_text p)} = {1, 3}"
    by (auto simp: three_posts_def tbl_get_def text_post_def plain_post_def fts_text_def word_engine_def split: if_splits)
  with search_complete [OF l idx_def three_posts_ok n(1,2) q n(3,4), of None 1] show ?thesis
    unfolding idx_def Let_def by metis
qed

lemma health_check_fails_witness: "\<not> fts_health_check (delete_post 1 board) (Some (rebuild_fts_index board))"
  by (rule health_check_fails [of board 1 "plain_post 1 10 False"]) (simp_all add: board_posts, simp add: board_def tbl_ok_def)

end
