(* ===== verification/AdminTool.thy ===== *)
theory AdminTool
  imports Avatars Tags Feeds WebAdmin
begin

text \<open>
  The command line tool of the administrators (\<^verbatim>\<open>tools/makhor/cmd/makhor-admin/main.go\<close>): each command as the
  lines it prints, or the message it ends with, and the database after it.  \<open>err_text\<close> is the text of an error;
  \<open>as_id\<close> is SQLite's reading of a text that is compared with a column of integers.
\<close>

datatype tool_result = Tool_says "string list" | Tool_fails string | Tool_usage "string option"

definition SQ :: string where
  "SQ = [CHR 0x27]"

definition quoted :: "string \<Rightarrow> string" where
  "quoted s = SQ @ s @ SQ"

subsection \<open>Numbers and columns\<close>

text \<open>\<^verbatim>\<open>Sscanf\<close> with \<^verbatim>\<open>%d\<close>: white space but no end of line, a sign, digits; what follows is not read.\<close>

definition scan_number :: "string \<Rightarrow> int option" where
  "scan_number s =
     (let t = trim_left_space s; skipped = take (length s - length t) s;
          sgn = (if t \<noteq> [] \<and> hd t \<in> {CHR ''+'', CHR ''-''} then [hd t] else []);
          digits = takeWhile is_digit (drop (length sgn) t)
      in if LF \<in> set skipped \<or> digits = [] then None else parse_int (sgn @ digits))"

definition pad_right :: "nat \<Rightarrow> string \<Rightarrow> string" where
  "pad_right n s = s @ replicate (n - length (runes_of s)) (CHR '' '')"

definition row_text :: "(nat \<times> string) list \<Rightarrow> string \<Rightarrow> string" where
  "row_text cells rest = concat (map (\<lambda>(n, s). pad_right n s @ '' '') cells) @ rest"

definition yes_or :: "string \<Rightarrow> bool \<Rightarrow> string" where
  "yes_or other b = (if b then ''YES'' else other)"

subsection \<open>Users\<close>

text \<open>The commands that set one column of the user with a name.\<close>

definition tool_set_user :: "(db_error \<Rightarrow> string) \<Rightarrow> (user_row \<Rightarrow> user_row) \<Rightarrow> string \<Rightarrow> string \<Rightarrow> db \<Rightarrow> tool_result \<times> db" where
  "tool_set_user err_text f name done d =
     (case get_user_by_username d name of
        Inl err \<Rightarrow> (Tool_fails (''User not found: '' @ err_text err), d)
      | Inr u \<Rightarrow> (Tool_says [''User '' @ quoted name @ done], set_user (ur_id u) f d))"

definition promote_user :: "(db_error \<Rightarrow> string) \<Rightarrow> string \<Rightarrow> db \<Rightarrow> tool_result \<times> db" where
  "promote_user err_text name = tool_set_user err_text (\<lambda>r. r\<lparr>us_is_admin := True\<rparr>) name '' is now a site admin.''"

definition demote_user :: "(db_error \<Rightarrow> string) \<Rightarrow> string \<Rightarrow> db \<Rightarrow> tool_result \<times> db" where
  "demote_user err_text name = tool_set_user err_text (\<lambda>r. r\<lparr>us_is_admin := False\<rparr>) name '' is no longer a site admin.''"

definition tool_ban_user :: "(db_error \<Rightarrow> string) \<Rightarrow> string \<Rightarrow> db \<Rightarrow> tool_result \<times> db" where
  "tool_ban_user err_text name = tool_set_user err_text (\<lambda>r. r\<lparr>us_is_banned := True\<rparr>) name '' has been banned.''"

definition tool_unban_user :: "(db_error \<Rightarrow> string) \<Rightarrow> string \<Rightarrow> db \<Rightarrow> tool_result \<times> db" where
  "tool_unban_user err_text name = tool_set_user err_text (\<lambda>r. r\<lparr>us_is_banned := False\<rparr>) name '' has been unbanned.''"

definition user_line :: "int \<times> user_row \<Rightarrow> string" where
  "user_line = (\<lambda>(i, r). row_text [(5, itoa i), (20, us_username r), (30, us_email r), (8, yes_or [] (us_is_admin r)),
     (8, yes_or [] (us_is_banned r))] (date_text (us_created_at r)))"

definition list_users :: "db \<Rightarrow> string list" where
  "list_users d = row_text [(5, ''ID''), (20, ''Username''), (30, ''Email''), (8, ''Admin''), (8, ''Banned'')] ''Created''
     # replicate 92 (CHR ''-'') # map user_line (snd (db_users d))"

definition list_admins :: "db \<Rightarrow> string list" where
  "list_admins d = (let admins = tbl_select (\<lambda>_ r. us_is_admin r) (db_users d) in
     row_text [(5, ''ID''), (20, ''Username''), (30, ''Email'')] ''Created'' # replicate 70 (CHR ''-'')
     # map (\<lambda>(i, r). row_text [(5, itoa i), (20, us_username r), (30, us_email r)] (date_text (us_created_at r))) admins
     @ (if admins = [] then [''No admin users found.''] else []))"

definition bool_text :: "bool \<Rightarrow> string" where
  "bool_text b = (if b then ''true'' else ''false'')"

definition time_text :: "int \<Rightarrow> string" where
  "time_text t = (let s = t mod 86400; two = (\<lambda>n. pad0 2 (nat n))
     in date_text t @ '' '' @ two (s div 3600) @ '':'' @ two (s mod 3600 div 60) @ '':'' @ two (s mod 60))"

definition user_info :: "(db_error \<Rightarrow> string) \<Rightarrow> string \<Rightarrow> db \<Rightarrow> tool_result" where
  "user_info err_text name d =
     (case get_user_by_username d name of
        Inl err \<Rightarrow> Tool_fails (''User not found: '' @ err_text err)
      | Inr u \<Rightarrow>
          (let inviter = (case ur_invited_by u of None \<Rightarrow> [] | Some i \<Rightarrow> (case get_user_by_id d i of
                 Inl _ \<Rightarrow> [] | Inr v \<Rightarrow> [''  Invited by: '' @ ur_username v]));
               roles = concat (map (\<lambda>(_, a). case tbl_get (db_tags d) (ta_tag_id a) of None \<Rightarrow> [] | Some t \<Rightarrow> [tg_name t])
                 (tbl_select (\<lambda>_ a. ta_user_id a = ur_id u) (db_tag_admins d)));
               created = map (\<lambda>(_, t). tg_name t) (tbl_select (\<lambda>_ t. tg_creator_id t = Some (ur_id u)) (db_tags d));
               listed = (\<lambda>what names. if names \<noteq> [] then [what @ ''['' @ join_with '' '' names @ '']''] else [])
           in Tool_says ([''User: '' @ ur_username u, ''  ID:       '' @ itoa (ur_id u), ''  Email:    '' @ ur_email u,
                ''  Admin:    '' @ bool_text (ur_is_admin u), ''  Banned:   '' @ bool_text (ur_is_banned u),
                ''  Created:  '' @ time_text (ur_created_at u)] @ inviter
              @ [''  Posts:    '' @ itoa (tbl_count (\<lambda>_ p. po_user_id p = ur_id u \<and> \<not> po_is_deleted p) (db_posts d)),
                ''  Comments: '' @ itoa (tbl_count (\<lambda>_ c. co_user_id c = ur_id u \<and> \<not> co_is_deleted c) (db_comments d))]
              @ listed ''  Tag admin: '' roles @ listed ''  Tags created: '' created)))"

subsection \<open>Posts, comments and tags\<close>

text \<open>A post or comment that there is not is reported as deleted all the same.\<close>

definition tool_delete_post :: "(string \<Rightarrow> int option) \<Rightarrow> string \<Rightarrow> db \<Rightarrow> tool_result \<times> db" where
  "tool_delete_post as_id s d = (Tool_says [''Post '' @ s @ '' has been deleted.''],
     case as_id s of None \<Rightarrow> d | Some i \<Rightarrow> delete_post i d)"

definition tool_delete_comment :: "(string \<Rightarrow> int option) \<Rightarrow> string \<Rightarrow> db \<Rightarrow> tool_result \<times> db" where
  "tool_delete_comment as_id s d = (Tool_says [''Comment '' @ s @ '' has been deleted.''],
     case as_id s of None \<Rightarrow> d | Some i \<Rightarrow> delete_comment i d)"

definition tool_delete_tag :: "string \<Rightarrow> db \<Rightarrow> tool_result \<times> db" where
  "tool_delete_tag name d =
     (Tool_says [if tbl_count (\<lambda>_ t. tg_name t = name) (db_tags d) = 0 then ''Tag '' @ quoted name @ '' not found.''
        else ''Tag '' @ quoted name @ '' has been deactivated.''],
      d\<lparr>db_tags := tbl_update (\<lambda>_ t. tg_name t = name) (\<lambda>t. t\<lparr>tg_is_active := False\<rparr>) (db_tags d)\<rparr>)"

definition tool_list_tags :: "db \<Rightarrow> string list" where
  "tool_list_tags d = row_text [(5, ''ID''), (40, ''Name''), (8, ''Active''), (15, ''Creator'')] ''Posts'' # replicate 79 (CHR ''-'')
     # map (\<lambda>(i, t). row_text [(5, itoa i), (40, tg_name t), (8, yes_or ''no'' (tg_is_active t)),
          (15, case tg_creator_id t of None \<Rightarrow> ''-'' | Some u \<Rightarrow> (case tbl_get (db_users d) u of None \<Rightarrow> ''-'' | Some r \<Rightarrow> us_username r))]
          (itoa (int (length (filter (\<lambda>(p, k). k = i) (db_post_tags d))))))
        (sort_key (\<lambda>(i, t). tg_name t) (snd (db_tags d)))"

definition on_tag_and_user :: "(db_error \<Rightarrow> string) \<Rightarrow> string \<Rightarrow> string \<Rightarrow> db \<Rightarrow> (tag \<Rightarrow> user \<Rightarrow> tool_result \<times> db) \<Rightarrow> tool_result \<times> db" where
  "on_tag_and_user err_text tag name d k =
     (case get_tag_by_name d tag of
        Inl err \<Rightarrow> (Tool_fails (''Tag not found: '' @ err_text err), d)
      | Inr t \<Rightarrow> (case get_user_by_username d name of
          Inl err \<Rightarrow> (Tool_fails (''User not found: '' @ err_text err), d)
        | Inr u \<Rightarrow> k t u))"

definition tool_add_tag_admin :: "(db_error \<Rightarrow> string) \<Rightarrow> denv \<Rightarrow> string \<Rightarrow> string \<Rightarrow> db \<Rightarrow> tool_result \<times> db" where
  "tool_add_tag_admin err_text e tag name d = on_tag_and_user err_text tag name d (\<lambda>t u.
     (case add_tag_admin e (tr_id t) (ur_id u) (ur_id u) d of
        (Inl err, d) \<Rightarrow> (Tool_fails (''Failed to add tag admin: '' @ err_text err), d)
      | (Inr _, d) \<Rightarrow> (Tool_says [''User '' @ quoted name @ '' is now an admin of tag '' @ quoted tag @ ''.''], d)))"

definition tool_remove_tag_admin :: "(db_error \<Rightarrow> string) \<Rightarrow> string \<Rightarrow> string \<Rightarrow> db \<Rightarrow> tool_result \<times> db" where
  "tool_remove_tag_admin err_text tag name d = on_tag_and_user err_text tag name d (\<lambda>t u.
     (Tool_says [''User '' @ quoted name @ '' is no longer an admin of tag '' @ quoted tag @ ''.''],
      remove_tag_admin (tr_id t) (ur_id u) d))"

subsection \<open>Feeds\<close>

definition tool_add_feed :: "(db_error \<Rightarrow> string) \<Rightarrow> denv \<Rightarrow> string \<Rightarrow> string \<Rightarrow> int \<Rightarrow> db \<Rightarrow> tool_result \<times> db" where
  "tool_add_feed err_text e url tag interval d =
     (case get_tag_by_name d tag of
        Inl err \<Rightarrow> (Tool_fails (''Tag not found: '' @ err_text err), d)
      | Inr t \<Rightarrow> (case create_rss_feed e url [] (tr_id t) interval d of
          (Inl err, d) \<Rightarrow> (Tool_fails (''Failed to create feed: '' @ err_text err), d)
        | (Inr f, d) \<Rightarrow> (Tool_says [''Created RSS feed '' @ itoa (rf_id f) @ '' for tag '' @ quoted tag @ '' (polling every ''
              @ itoa interval @ '' minutes)'', ''URL: '' @ url], d)))"

definition feed_lines :: "rss_feed \<Rightarrow> string list" where
  "feed_lines f =
     (let url = (if length (rf_url f) > 48 then take 45 (rf_url f) @ ''...'' else rf_url f);
          polled = (case rf_last_polled f of None \<Rightarrow> ''-'' | Some t \<Rightarrow> take 16 (time_text t))
      in row_text [(5, itoa (rf_id f)), (50, url), (20, rf_tag_name f), (8, itoa (rf_interval_minutes f)),
           (8, yes_or ''no'' (rf_is_active f))] polled
         # (if rf_last_error f \<noteq> [] then [''      Error: '' @ rf_last_error f] else []))"

definition list_feeds :: "db \<Rightarrow> string list" where
  "list_feeds d = (let fs = get_all_rss_feeds d in
     if fs = [] then [''No RSS feeds configured.'']
     else row_text [(5, ''ID''), (50, ''URL''), (20, ''Tag''), (8, ''Interval''), (8, ''Active'')] ''Last Polled''
       # replicate 110 (CHR ''-'') # concat (map feed_lines fs) @ [[], ''Total: '' @ itoa (int (length fs)) @ '' feeds''])"

definition tool_delete_feed :: "denv \<Rightarrow> string \<Rightarrow> db \<Rightarrow> tool_result \<times> db" where
  "tool_delete_feed e s d =
     (case scan_number s of
        None \<Rightarrow> (Tool_fails (''Invalid feed ID: '' @ s), d)
      | Some i \<Rightarrow> (Tool_says [''Feed '' @ itoa i @ '' has been deleted.''], delete_rss_feed e i d))"

subsection \<open>The command line\<close>

definition usage_of :: "(string \<times> nat \<times> string) list" where
  "usage_of = [(''promote'', 1, ''<username>''), (''demote'', 1, ''<username>''), (''ban'', 1, ''<username>''),
     (''unban'', 1, ''<username>''), (''list-users'', 0, []), (''list-admins'', 0, []), (''user-info'', 1, ''<username>''),
     (''delete-post'', 1, ''<post_id>''), (''delete-comment'', 1, ''<comment_id>''), (''delete-tag'', 1, ''<tag_name>''),
     (''list-tags'', 0, []), (''tag-admin-add'', 2, ''<tag_name> <username>''), (''tag-admin-remove'', 2, ''<tag_name> <username>''),
     (''seed-tag-creators'', 0, []), (''feed-add'', 2, ''<url> <tag_name> [interval_minutes]''), (''feed-list'', 0, []),
     (''feed-delete'', 1, ''<feed_id>'')]"

definition tool_interval :: "string list \<Rightarrow> int" where
  "tool_interval args = (if length args \<ge> 3 then (case scan_number (args ! 2) of None \<Rightarrow> 60 | Some n \<Rightarrow> n) else 60)"

text \<open>A command with as many arguments as it needs.\<close>

definition tool_run ::
  "(db_error \<Rightarrow> string) \<Rightarrow> (string \<Rightarrow> int option) \<Rightarrow> denv \<Rightarrow> string \<Rightarrow> string list \<Rightarrow> db \<Rightarrow> tool_result \<times> db" where
  "tool_run err_text as_id e cmd args d =
     (if cmd = ''promote'' then promote_user err_text (args ! 0) d
      else if cmd = ''demote'' then demote_user err_text (args ! 0) d
      else if cmd = ''ban'' then tool_ban_user err_text (args ! 0) d
      else if cmd = ''unban'' then tool_unban_user err_text (args ! 0) d
      else if cmd = ''list-users'' then (Tool_says (list_users d), d)
      else if cmd = ''list-admins'' then (Tool_says (list_admins d), d)
      else if cmd = ''user-info'' then (user_info err_text (args ! 0) d, d)
      else if cmd = ''delete-post'' then tool_delete_post as_id (args ! 0) d
      else if cmd = ''delete-comment'' then tool_delete_comment as_id (args ! 0) d
      else if cmd = ''delete-tag'' then tool_delete_tag (args ! 0) d
      else if cmd = ''list-tags'' then (Tool_says (tool_list_tags d), d)
      else if cmd = ''tag-admin-add'' then tool_add_tag_admin err_text e (args ! 0) (args ! 1) d
      else if cmd = ''tag-admin-remove'' then tool_remove_tag_admin err_text (args ! 0) (args ! 1) d
      else if cmd = ''seed-tag-creators''
      then (Tool_says [''Tag creators have been seeded with the first admin user.''], seed_tag_creators d)
      else if cmd = ''feed-add'' then tool_add_feed err_text e (args ! 0) (args ! 1) (tool_interval args) d
      else if cmd = ''feed-list'' then (Tool_says (list_feeds d), d)
      else tool_delete_feed e (args ! 0) d)"

definition tool_main ::
  "(db_error \<Rightarrow> string) \<Rightarrow> (string \<Rightarrow> int option) \<Rightarrow> denv \<Rightarrow> string list \<Rightarrow> db \<Rightarrow> tool_result \<times> db" where
  "tool_main err_text as_id e words d =
     (case words of
        [] \<Rightarrow> (Tool_usage None, d)
      | cmd # args \<Rightarrow> (case map_of usage_of cmd of
          None \<Rightarrow> (Tool_usage (Some (''Unknown command: '' @ cmd)), d)
        | Some (n, what) \<Rightarrow>
            if length args < n then (Tool_usage (Some (''Usage: makhor-admin '' @ cmd @ '' '' @ what)), d)
            else tool_run err_text as_id e cmd args d))"

subsection \<open>What the tool does to the accounts and the logs\<close>

text \<open>The tables the tool leaves alone.\<close>

definition tool_untouched :: "db \<Rightarrow> db \<Rightarrow> bool" where
  "tool_untouched d d' \<longleftrightarrow> db_actions d' = db_actions d \<and> db_moderation d' = db_moderation d \<and> db_sessions d' = db_sessions d
     \<and> db_login_tokens d' = db_login_tokens d \<and> db_email_tokens d' = db_email_tokens d \<and> db_invites d' = db_invites d
     \<and> db_votes d' = db_votes d \<and> db_hats d' = db_hats d"

lemma create_feed_untouched:
  "create_rss_feed e url title t n d = (x, d') \<Longrightarrow> tool_untouched d d' \<and> db_users d' = db_users d"
  by (auto simp: create_rss_feed_def create_rss_feed_with_options_def tool_untouched_def Let_def split: if_splits prod.splits)

lemma add_tag_admin_untouched: "add_tag_admin e t u v d = (x, d') \<Longrightarrow> tool_untouched d d' \<and> db_users d' = db_users d"
  by (auto simp: add_tag_admin_def tool_untouched_def split: if_splits)

text \<open>What a command does to the accounts: nothing, or one flag of one user.\<close>

definition flag_set :: "db \<Rightarrow> db \<Rightarrow> bool" where
  "flag_set d d' \<longleftrightarrow> db_users d' = db_users d \<or> (\<exists>i b. d' = set_user i (\<lambda>r. r\<lparr>us_is_admin := b\<rparr>) d
     \<or> d' = set_user i (\<lambda>r. r\<lparr>us_is_banned := b\<rparr>) d)"

lemma set_user_untouched: "tool_untouched d (set_user i f d)"
  by (simp add: tool_untouched_def set_user_def)

lemma tool_flags:
  "flag_set d (snd (tool_set_user err_text (\<lambda>r. r\<lparr>us_is_admin := b\<rparr>) name done d))"
  "flag_set d (snd (tool_set_user err_text (\<lambda>r. r\<lparr>us_is_banned := b\<rparr>) name done d))"
  "tool_untouched d (snd (tool_set_user err_text f name done d))"
  by (auto simp: tool_set_user_def flag_set_def set_user_untouched split: sum.split) (simp_all add: tool_untouched_def)

definition tool_effect :: "db \<Rightarrow> db \<Rightarrow> bool" where
  "tool_effect d d' \<longleftrightarrow> flag_set d d' \<and> tool_untouched d d'"

lemma effect_refl: "tool_effect d d"
  by (simp add: tool_effect_def flag_set_def tool_untouched_def)

lemma effect_users: "tool_untouched d d' \<Longrightarrow> db_users d' = db_users d \<Longrightarrow> tool_effect d d'"
  by (simp add: tool_effect_def flag_set_def)

lemma delete_feeds_effect: "tool_effect d (delete_rss_feed e i d)"
  by (rule effect_users) (simp_all add: delete_rss_feed_def delete_feeds_def tool_untouched_def Let_def)

lemma tool_commands:
  "tool_effect d (snd (promote_user err_text name d))" "tool_effect d (snd (demote_user err_text name d))"
  "tool_effect d (snd (tool_ban_user err_text name d))" "tool_effect d (snd (tool_unban_user err_text name d))"
  "tool_effect d (snd (tool_delete_post as_id s d))" "tool_effect d (snd (tool_delete_comment as_id s d))"
  "tool_effect d (snd (tool_delete_tag s d))" "tool_effect d (snd (tool_add_tag_admin err_text e tag name d))"
  "tool_effect d (snd (tool_remove_tag_admin err_text tag name d))" "tool_effect d (seed_tag_creators d)"
  "tool_effect d (snd (tool_add_feed err_text e s tag n d))"
  by (simp_all add: promote_user_def demote_user_def tool_ban_user_def tool_unban_user_def tool_effect_def tool_flags)
    (auto simp: tool_delete_post_def tool_delete_comment_def delete_post_def set_post_def delete_comment_def set_comment_def
      tool_delete_tag_def tool_add_tag_admin_def on_tag_and_user_def tool_remove_tag_admin_def remove_tag_admin_def
      seed_tag_creators_def tool_add_feed_def flag_set_def tool_untouched_def
      dest!: create_feed_untouched add_tag_admin_untouched split: option.split sum.split prod.split)

lemma tool_delete_feed_effect: "tool_effect d (snd (tool_delete_feed e s d))"
  by (simp add: tool_delete_feed_def delete_feeds_effect effect_refl split: option.split)

lemma tool_run_effect: "tool_effect d (snd (tool_run err_text as_id e cmd args d))"
  unfolding tool_run_def by (simp only: if_distrib [of snd] snd_conv) (simp add: tool_commands tool_delete_feed_effect effect_refl)

lemma tool_main_effect: "tool_effect d (snd (tool_main err_text as_id e words d))"
  by (simp add: tool_main_def effect_refl tool_run_effect split: list.split option.split prod.split)



end
