(* ===== verification/BoardMetrics.thy ===== *)
theory BoardMetrics
  imports SysWatch Spool
begin

text \<open>
  What the status board (\<^verbatim>\<open>tools/status-board/main.go\<close>) reads: the metrics of a host, the domains of libvirt, the
  pools and the storage box, and the samples with the forecast that is made of them.  The texts of the
  programs and servers asked are arguments.  Floats are exact rationals; a value that is not finite is taken
  for a line that is none.
\<close>

subsection \<open>Decimal numbers\<close>

definition digits_value :: "string \<Rightarrow> nat" where
  "digits_value ds = foldl (\<lambda>n c. n * 10 + nat (digit_val c)) 0 ds"

definition unsigned :: "string \<Rightarrow> string" where
  "unsigned s = (if has_prefix s ''-'' \<or> has_prefix s ''+'' then tl s else s)"

text \<open>The exponent: nothing, or a letter and a number with digits.\<close>

definition exponent :: "string \<Rightarrow> int option" where
  "exponent s =
     (case s of
        [] \<Rightarrow> Some 0
      | c # t \<Rightarrow> (let ds = unsigned t in
          if c \<notin> {CHR ''e'', CHR ''E''} \<or> ds = [] \<or> \<not> list_all is_digit ds then None
          else Some ((if has_prefix t ''-'' then -1 else 1) * int (digits_value ds))))"

definition scaled :: "nat \<Rightarrow> int \<Rightarrow> rat" where
  "scaled n k = (if 0 \<le> k then of_nat n * 10 ^ nat k else of_nat n / 10 ^ nat (- k))"

text \<open>\<^verbatim>\<open>ParseFloat\<close> of a decimal number; one that rounds to infinity is an error.\<close>

definition parse_decimal :: "string \<Rightarrow> rat option" where
  "parse_decimal s =
     (let t = unsigned s; whole = takeWhile is_digit t; r = dropWhile is_digit t;
          dot = has_prefix r ''.''; frac = (if dot then takeWhile is_digit (tl r) else []);
          rest = (if dot then dropWhile is_digit (tl r) else r)
      in if whole @ frac = [] then None
         else (case exponent rest of
             None \<Rightarrow> None
           | Some k \<Rightarrow> (let v = scaled (digits_value (whole @ frac)) (k - int (length frac)) in
               if v \<ge> 2 ^ 1024 - 2 ^ 970 then None else Some (if has_prefix s ''-'' then - v else v))))"

text \<open>A float made an int: the fraction is dropped.\<close>

definition int_of_float :: "rat \<Rightarrow> int" where
  "int_of_float x = (if x < 0 then - \<lfloor>- x\<rfloor> else \<lfloor>x\<rfloor>)"

subsection \<open>Metrics\<close>

record metric_row =
  mr_labels :: "(string \<times> string) list"
  mr_value :: rat

type_synonym metrics = "(string \<times> metric_row) list"

definition BQ :: char where
  "BQ = CHR 0x22"

definition label :: "metric_row \<Rightarrow> string \<Rightarrow> string" where
  "label r k = (case map_of (rev (mr_labels r)) k of None \<Rightarrow> [] | Some v \<Rightarrow> v)"

definition ident_start :: "char \<Rightarrow> bool" where
  "ident_start c \<longleftrightarrow> is_letter c \<or> c = CHR ''_''"

definition ident_char :: "char \<Rightarrow> bool" where
  "ident_char c \<longleftrightarrow> is_alnum c \<or> c = CHR ''_''"

text \<open>A value in quotes, up to the quote that ends it: what is quoted, as it stands, and the rest.\<close>

fun quoted_value :: "string \<Rightarrow> (string \<times> string) option" where
  "quoted_value [] = None"
| "quoted_value (c # s) =
     (if c = BQ then Some ([], s)
      else if c = CHR 0x5C
      then (case s of
          [] \<Rightarrow> None
        | d # t \<Rightarrow> if d = LF then None else map_option (apfst (\<lambda>v. c # d # v)) (quoted_value t))
      else map_option (apfst (\<lambda>v. c # v)) (quoted_value s))"

lemma quoted_value_rest: "quoted_value s = Some (v, t) \<Longrightarrow> length t < length s"
  by (induction s arbitrary: v t rule: quoted_value.induct) (fastforce split: if_splits list.splits)+

text \<open>A label at the beginning of a text.\<close>

definition label_here :: "string \<Rightarrow> ((string \<times> string) \<times> string) option" where
  "label_here s =
     (let name = takeWhile ident_char s; r = dropWhile ident_char s in
      if s = [] \<or> \<not> ident_start (hd s) \<or> \<not> has_prefix r [CHR ''='', BQ] then None
      else map_option (\<lambda>(v, t). ((name, v), t)) (quoted_value (drop 2 r)))"

lemma label_here_rest: "label_here s = Some (kv, t) \<Longrightarrow> length t < length s"
  using length_dropWhile_le [of ident_char s]
  by (auto simp: label_here_def Let_def split: if_splits dest!: quoted_value_rest)

text \<open>All labels of a text, from the left; where none begins one character is passed over.\<close>

function labels_of :: "string \<Rightarrow> (string \<times> string) list" where
  "labels_of s =
     (if s = [] then []
      else (case label_here s of
          None \<Rightarrow> labels_of (tl s)
        | Some (kv, t) \<Rightarrow> kv # labels_of t))"
  by pat_completeness auto
termination
  by (relation "measure length") (auto dest: label_here_rest)

declare labels_of.simps [simp del]

definition value_char :: "char \<Rightarrow> bool" where
  "value_char c \<longleftrightarrow> is_digit c \<or> c \<in> {CHR ''-'', CHR ''.'', CHR ''e'', CHR ''E'', CHR ''+''}"

text \<open>A line of the metrics: the name, its labels in braces or none, and the value.\<close>

definition metric_line :: "string \<Rightarrow> (string \<times> metric_row) option" where
  "metric_line line =
     (let name = takeWhile (\<lambda>c. ident_char c \<or> c = CHR '':'') line; r = drop (length name) line;
          braces = has_prefix r ''{''; inside = takeWhile (\<lambda>c. c \<noteq> CHR ''}'') r;
          rest = (if braces then drop (length inside + 1) r else r);
          t = dropWhile re_space rest; v = takeWhile (\<lambda>c. \<not> re_space c) t
      in if name = [] \<or> is_digit (hd name) \<or> braces \<and> CHR ''}'' \<notin> set r \<or> rest = t
            \<or> \<not> list_all re_space (drop (length v) t) \<or> \<not> list_all value_char v
         then None
         else map_option (\<lambda>x. (name, \<lparr>mr_labels = (if braces then labels_of inside else []), mr_value = x\<rparr>)) (parse_decimal v))"

definition fetch_metrics :: "string option \<Rightarrow> metrics option" where
  "fetch_metrics body = map_option (\<lambda>s. List.map_filter metric_line
     (filter (\<lambda>l. l \<noteq> [] \<and> \<not> has_prefix l ''#'') (split_on LF s))) body"

definition rows_of :: "metrics \<Rightarrow> string \<Rightarrow> metric_row list" where
  "rows_of ms name = map snd (filter (\<lambda>(k, r). k = name) ms)"

text \<open>The value of the first row, as an int; 0 if there is none.\<close>

definition first_int :: "metrics \<Rightarrow> string \<Rightarrow> int" where
  "first_int ms name = (case rows_of ms name of [] \<Rightarrow> 0 | r # _ \<Rightarrow> int_of_float (mr_value r))"

subsection \<open>Domains\<close>

record virsh_info =
  vi_state :: string
  vi_max_mem :: int
  vi_used_mem :: int
  vi_vcpus :: string

definition no_virsh :: virsh_info where
  "no_virsh = \<lparr>vi_state = [], vi_max_mem = 0, vi_used_mem = 0, vi_vcpus = []\<rparr>"

type_synonym domains = "(string \<times> virsh_info) list"

definition domain_info :: "domains \<Rightarrow> string \<Rightarrow> virsh_info" where
  "domain_info ds name = (case map_of ds name of None \<Rightarrow> no_virsh | Some v \<Rightarrow> v)"

definition domstat_states :: "(string \<times> string) list" where
  "domstat_states = [(''0'', ''no state''), (''1'', ''running''), (''2'', ''blocked''), (''3'', ''paused''),
     (''4'', ''shutdown''), (''5'', ''shut off''), (''6'', ''crashed''), (''7'', ''pmsuspended'')]"

text \<open>A line at a separator: what is before and after the first one.\<close>

definition cut_at :: "char \<Rightarrow> string \<Rightarrow> (string \<times> string) option" where
  "cut_at c s = (if c \<in> set s then Some (takeWhile (\<lambda>x. x \<noteq> c) s, tl (dropWhile (\<lambda>x. x \<noteq> c) s)) else None)"

definition without_quotes :: "string \<Rightarrow> string" where
  "without_quotes s = (let q = (\<lambda>c. c = CHR 0x27 \<or> c = BQ) in rev (dropWhile q (rev (dropWhile q s))))"

definition domstat_line :: "string \<Rightarrow> virsh_info \<Rightarrow> virsh_info" where
  "domstat_line line cur =
     (case cut_at (CHR ''='') line of
        None \<Rightarrow> cur
      | Some (k, v) \<Rightarrow> (let k = trim_space k; v = trim_space v in
          if k = ''state.state'' then (case map_of domstat_states v of None \<Rightarrow> cur | Some x \<Rightarrow> cur\<lparr>vi_state := x\<rparr>)
          else if k = ''balloon.current'' then (if snd (atoi v) then cur\<lparr>vi_used_mem := fst (atoi v)\<rparr> else cur)
          else if k = ''balloon.maximum'' then (if snd (atoi v) then cur\<lparr>vi_max_mem := fst (atoi v)\<rparr> else cur)
          else if k = ''vcpu.current''
          then cur\<lparr>vi_vcpus := (if vi_vcpus cur = [] then v else vi_vcpus cur @ ''/'' @ v)\<rparr>
          else cur))"

text \<open>The domain being read, if any, is kept at an empty line, at the next domain and at the end.\<close>

definition flush_domain :: "domains \<times> (string \<times> virsh_info) option \<Rightarrow> domains \<times> (string \<times> virsh_info) option" where
  "flush_domain = (\<lambda>(ds, cur). case cur of
     None \<Rightarrow> (ds, None) | Some (name, v) \<Rightarrow> (if name = [] then ds else AList.update name v ds, None))"

definition domstats_step :: "domains \<times> (string \<times> virsh_info) option \<Rightarrow> string \<Rightarrow> domains \<times> (string \<times> virsh_info) option" where
  "domstats_step st raw =
     (let line = trim_space raw in
      if line = [] then flush_domain st
      else if has_prefix line ''Domain:''
      then apsnd (\<lambda>_. Some (without_quotes (trim_space (trim_prefix line ''Domain:'')), no_virsh)) (flush_domain st)
      else apsnd (map_option (apsnd (domstat_line line))) st)"

definition virsh_state_domstats :: "string option \<Rightarrow> domains" where
  "virsh_state_domstats out =
     (case out of None \<Rightarrow> [] | Some s \<Rightarrow> fst (flush_domain (foldl domstats_step ([], None) (split_on LF s))))"

definition dominfo_line :: "virsh_info \<Rightarrow> string \<Rightarrow> virsh_info" where
  "dominfo_line vi line =
     (case cut_at (CHR '':'') line of
        None \<Rightarrow> vi
      | Some (k, v) \<Rightarrow> (let k = to_lower (trim_space k); v = trim_space v; fs = str_fields v; n = atoi (hd fs) in
          if k = ''state'' then vi\<lparr>vi_state := v\<rparr>
          else if k = ''max memory'' then (if fs \<noteq> [] \<and> snd n then vi\<lparr>vi_max_mem := fst n\<rparr> else vi)
          else if k = ''used memory'' then (if fs \<noteq> [] \<and> snd n then vi\<lparr>vi_used_mem := fst n\<rparr> else vi)
          else if k = ''cpu(s)'' then vi\<lparr>vi_vcpus := v\<rparr>
          else vi))"

definition virsh_state_dominfo :: "string option \<Rightarrow> (string \<Rightarrow> string option) \<Rightarrow> domains" where
  "virsh_state_dominfo list info =
     (case list of
        None \<Rightarrow> []
      | Some s \<Rightarrow> foldl (\<lambda>ds name. if name = [] then ds else (case info name of
            None \<Rightarrow> ds
          | Some t \<Rightarrow> AList.update name (foldl dominfo_line no_virsh (split_on LF t)) ds))
          [] (map trim_space (split_on LF (trim_space s))))"

definition virsh_state :: "string option \<Rightarrow> string option \<Rightarrow> (string \<Rightarrow> string option) \<Rightarrow> domains" where
  "virsh_state domstats list info =
     (let ds = virsh_state_domstats domstats in if ds \<noteq> [] then ds else virsh_state_dominfo list info)"

subsection \<open>Pools and the storage box\<close>

record zpool =
  zp_name :: string
  zp_total :: int
  zp_alloc :: int
  zp_free :: int
  zp_pct :: rat

definition percent_of :: "int \<Rightarrow> int \<Rightarrow> rat" where
  "percent_of part whole = of_int part / of_int whole * 100"

definition zpools_status :: "string list \<Rightarrow> string option \<Rightarrow> zpool list" where
  "zpools_status names out =
     (case out of
        None \<Rightarrow> []
      | Some s \<Rightarrow>
          if names = [] then []
          else List.map_filter (\<lambda>line. let f = str_fields line; n = (\<lambda>i. fst (atoi (f ! i))) in
            if length f < 4 then None
            else Some \<lparr>zp_name = f ! 0, zp_total = n 1, zp_alloc = n 2, zp_free = n 3,
              zp_pct = (if n 1 > 0 then percent_of (n 2) (n 1) else 0)\<rparr>) (split_on LF (trim_space s)))"

record storagebox =
  sb_reachable :: bool
  sb_total :: int
  sb_used :: int
  sb_avail :: int
  sb_pct :: rat

definition no_storagebox :: storagebox where
  "no_storagebox = \<lparr>sb_reachable = False, sb_total = 0, sb_used = 0, sb_avail = 0, sb_pct = 0\<rparr>"

definition storagebox_status :: "string option \<Rightarrow> storagebox" where
  "storagebox_status out =
     (case out of
        None \<Rightarrow> no_storagebox
      | Some s \<Rightarrow> (let lines = split_on LF (trim_space s); f = str_fields (lines ! 1); n = (\<lambda>i. fst (atoi (f ! i))) in
          if length lines < 2 \<or> length f < 4 then no_storagebox
          else \<lparr>sb_reachable = True, sb_total = n 0, sb_used = n 1, sb_avail = n 2,
            sb_pct = (case parse_decimal (trim_suffix (f ! 3) ''%'') of None \<Rightarrow> 0 | Some x \<Rightarrow> x)\<rparr>))"

end
