(* ===== verification/BoardRounds.thy ===== *)
theory BoardRounds
  imports BoardMetrics
begin

text \<open>
  The rounds of the status board (\<^verbatim>\<open>tools/status-board/main.go\<close>, \<^verbatim>\<open>backupsizes.go\<close>): the samples and the forecast,
  the state of the backups, what is collected of a machine, the fleet, and the cache the pages are served from.
  What a round asks the outside for is in the record \<open>board_env\<close>; times are in nanoseconds, those of samples
  in seconds, and one round has one clock.  \<^verbatim>\<open>sort.Slice\<close> is modelled as the stable sort.
\<close>

subsection \<open>Configuration and environment\<close>

record vm =
  vm_name :: string
  vm_ip :: string
  vm_bridge :: string

record backup_target =
  bt_kind :: string
  bt_label :: string
  bt_repo :: string
  bt_exists :: string
  bt_snapshots :: int
  bt_age :: rat
  bt_oldest :: rat
  bt_size :: string
  bt_24h :: int
  bt_7d :: int
  bt_30d :: int
  bt_older :: int

record backup_path =
  bp_path :: string
  bp_targets :: "backup_target list"

record board_config =
  bc_inventory :: "vm list"
  bc_enabled :: "string \<Rightarrow> bool"
  bc_paths :: "string \<Rightarrow> string list"
  bc_targets :: "string \<Rightarrow> backup_target list"
  bc_explicit :: "string \<Rightarrow> backup_path list"
  bc_pools :: "string list"
  bc_backup_dir :: string

text \<open>
  A repository that is there has a directory of snapshots, given by the times of its entries (None where
  there is no information on one), or no such directory.
\<close>

record board_env =
  be_now :: int
  be_metrics :: "string \<Rightarrow> string option"
  be_domstats :: "string option"
  be_domains :: "string option"
  be_dominfo :: "string \<Rightarrow> string option"
  be_df :: "string option"
  be_zpool :: "string option"
  be_repo :: "string \<Rightarrow> int option list option option"

subsection \<open>Samples and the forecast\<close>

record sample =
  sa_ts :: int
  sa_vm :: string
  sa_kind :: string
  sa_used :: int
  sa_total :: int

text \<open>The samples by machine and kind, as they were when the round began; None before the first round.\<close>

type_synonym sample_index = "(string \<Rightarrow> sample list) option"

definition sample_key :: "string \<Rightarrow> string \<Rightarrow> string" where
  "sample_key v kind = v @ ''|'' @ kind"

text \<open>A file that cannot be opened leaves the index as it is.\<close>

definition build_sample_index :: "sample list option \<Rightarrow> sample_index \<Rightarrow> sample_index" where
  "build_sample_index lines idx =
     (case lines of None \<Rightarrow> idx | Some ss \<Rightarrow> Some (\<lambda>k. filter (\<lambda>s. sample_key (sa_vm s) (sa_kind s) = k) ss))"

definition read_samples :: "int \<Rightarrow> sample_index \<Rightarrow> string \<Rightarrow> string \<Rightarrow> int \<Rightarrow> sample list" where
  "read_samples now idx v kind hours =
     (case idx of
        None \<Rightarrow> []
      | Some f \<Rightarrow> filter (\<lambda>s. sa_ts s \<ge> (now - hours * 3600 * sec) div sec) (f (sample_key v kind)))"

text \<open>Slope and intercept of the line that fits best; None where all times are the same.\<close>

definition fitted_line :: "(rat \<times> rat) list \<Rightarrow> (rat \<times> rat) option" where
  "fitted_line ps =
     (let n = of_nat (length ps); sx = (\<Sum>(x, y)\<leftarrow>ps. x); sy = (\<Sum>(x, y)\<leftarrow>ps. y);
          sxy = (\<Sum>(x, y)\<leftarrow>ps. x * y); sxx = (\<Sum>(x, y)\<leftarrow>ps. x * x); denom = n * sxx - sx * sx
      in if denom = 0 then None
         else let slope = (n * sxy - sx * sy) / denom in Some (slope, (sy - slope * sx) / n))"

definition forecast_days :: "int \<Rightarrow> sample_index \<Rightarrow> string \<Rightarrow> string \<Rightarrow> int \<Rightarrow> rat" where
  "forecast_days now idx v kind full =
     (let hist = read_samples now idx v kind (7 * 24); t0 = sa_ts (hd hist) in
      if full \<le> 0 \<or> length hist < 4 \<or> sa_ts (last hist) - t0 < 6 * 3600 then -1
      else (case fitted_line (map (\<lambda>h. (of_int (sa_ts h - t0), of_int (sa_used h))) hist) of
          None \<Rightarrow> -1
        | Some (slope, intercept) \<Rightarrow>
            if slope \<le> 0 then -1
            else (let t_full = (of_int full - intercept) / slope; t_now = of_int (now div sec - t0)
              in if t_full \<le> t_now then 0 else (t_full - t_now) / 86400)))"

subsection \<open>Backups\<close>

definition hours :: "int \<Rightarrow> rat" where
  "hours d = of_int d / of_int (3600 * sec)"

record snaps =
  sn_count :: int
  sn_latest :: "int option"
  sn_oldest :: "int option"
  sn_24h :: int
  sn_7d :: int
  sn_30d :: int
  sn_older :: int

definition no_snaps :: snaps where
  "no_snaps = \<lparr>sn_count = 0, sn_latest = None, sn_oldest = None, sn_24h = 0, sn_7d = 0, sn_30d = 0, sn_older = 0\<rparr>"

definition add_snap :: "int \<Rightarrow> snaps \<Rightarrow> int option \<Rightarrow> snaps" where
  "add_snap now s entry =
     (case entry of
        None \<Rightarrow> s
      | Some mt \<Rightarrow>
          (let s = s\<lparr>sn_count := sn_count s + 1,
               sn_latest := (case sn_latest s of None \<Rightarrow> Some mt | Some t \<Rightarrow> if mt > t then Some mt else Some t),
               sn_oldest := (case sn_oldest s of None \<Rightarrow> Some mt | Some t \<Rightarrow> if mt < t then Some mt else Some t)\<rparr>;
               age = hours (now - mt)
           in if age < 24 then s\<lparr>sn_24h := sn_24h s + 1\<rparr>
              else if age < 24 * 7 then s\<lparr>sn_7d := sn_7d s + 1\<rparr>
              else if age < 24 * 30 then s\<lparr>sn_30d := sn_30d s + 1\<rparr>
              else s\<lparr>sn_older := sn_older s + 1\<rparr>))"

definition snaps_of :: "int \<Rightarrow> int option list \<Rightarrow> snaps" where
  "snaps_of now entries = foldl (add_snap now) no_snaps entries"

definition age_of :: "int \<Rightarrow> int option \<Rightarrow> rat" where
  "age_of now t = (case t of None \<Rightarrow> 0 | Some t \<Rightarrow> hours (now - t))"

text \<open>Sizes of repositories, by their paths.\<close>

definition repo_bytes :: "int \<Rightarrow> string" where
  "repo_bytes b =
     (if b \<ge> 2 ^ 30 then fixed 1 (of_int b / 2 ^ 30) @ ''G''
      else if b \<ge> 2 ^ 20 then fixed 0 (of_int b / 2 ^ 20) @ ''M''
      else itoa b @ ''B'')"

type_synonym repo_sizes = "(string \<times> int) list"

definition repo_size_str :: "repo_sizes \<Rightarrow> string \<Rightarrow> string" where
  "repo_size_str sizes repo = (case map_of sizes repo of None \<Rightarrow> [] | Some b \<Rightarrow> if b \<le> 0 then [] else repo_bytes b)"

record restic =
  rs_configured :: bool
  rs_exists :: string
  rs_snapshots :: int
  rs_age :: rat
  rs_oldest :: rat
  rs_size :: string
  rs_repo :: string
  rs_24h :: int
  rs_7d :: int
  rs_30d :: int
  rs_older :: int

definition in_dir :: "string \<Rightarrow> string \<Rightarrow> string" where
  "in_dir base name = ''/'' @ join_with ''/'' (join_path (join_path [] base) name)"

definition restic_for :: "board_config \<Rightarrow> board_env \<Rightarrow> repo_sizes \<Rightarrow> string \<Rightarrow> restic" where
  "restic_for cfg e sizes v =
     (let repo = in_dir (bc_backup_dir cfg) v;
          r = \<lparr>rs_configured = bc_enabled cfg v, rs_exists = ''no'', rs_snapshots = 0, rs_age = 0, rs_oldest = 0, rs_size = [],
               rs_repo = repo, rs_24h = 0, rs_7d = 0, rs_30d = 0, rs_older = 0\<rparr>
      in if \<not> rs_configured r then r
         else (case be_repo e repo of
             None \<Rightarrow> r
           | Some None \<Rightarrow> r\<lparr>rs_exists := ''no-snaps''\<rparr>
           | Some (Some es) \<Rightarrow> (let s = snaps_of (be_now e) es in
               r\<lparr>rs_exists := ''yes'', rs_snapshots := sn_count s, rs_age := age_of (be_now e) (sn_latest s),
                 rs_oldest := age_of (be_now e) (sn_oldest s), rs_size := repo_size_str sizes repo, rs_24h := sn_24h s,
                 rs_7d := sn_7d s, rs_30d := sn_30d s, rs_older := sn_older s\<rparr>)))"

text \<open>The counts come on top of those the target has, which are 0 for targets of the configuration.\<close>

definition scan_target_repo :: "board_env \<Rightarrow> repo_sizes \<Rightarrow> backup_target \<Rightarrow> backup_target" where
  "scan_target_repo e sizes t0 =
     (let t = t0\<lparr>bt_exists := ''no''\<rparr> in
      if bt_repo t = [] then t
      else (case be_repo e (bt_repo t) of
          None \<Rightarrow> t
        | Some None \<Rightarrow> t\<lparr>bt_exists := ''no-snaps''\<rparr>
        | Some (Some es) \<Rightarrow> (let s = snaps_of (be_now e) es in
            t\<lparr>bt_exists := ''yes'', bt_snapshots := sn_count s,
              bt_age := (if sn_count s > 0 then age_of (be_now e) (sn_latest s) else bt_age t),
              bt_oldest := (if sn_count s > 0 then age_of (be_now e) (sn_oldest s) else bt_oldest t),
              bt_size := repo_size_str sizes (bt_repo t), bt_24h := bt_24h t + sn_24h s, bt_7d := bt_7d t + sn_7d s,
              bt_30d := bt_30d t + sn_30d s, bt_older := bt_older t + sn_older s\<rparr>)))"

record backup_view =
  bv_configured :: bool
  bv_paths :: "backup_path list"

text \<open>Each repository is scanned once, for the first target that names it, whose entry is shown for all.\<close>

definition scan_once :: "board_env \<Rightarrow> repo_sizes \<Rightarrow> backup_target list \<Rightarrow> backup_target \<Rightarrow> backup_target" where
  "scan_once e sizes all t =
     scan_target_repo e sizes (case find (\<lambda>u. bt_repo u = bt_repo t) all of None \<Rightarrow> t | Some u \<Rightarrow> u)"

definition backup_view_for :: "board_config \<Rightarrow> board_env \<Rightarrow> repo_sizes \<Rightarrow> string \<Rightarrow> backup_view" where
  "backup_view_for cfg e sizes v =
     (if \<not> bc_enabled cfg v then \<lparr>bv_configured = False, bv_paths = []\<rparr>
      else if bc_explicit cfg v \<noteq> []
      then (let ps = bc_explicit cfg v; all = concat (map bp_targets ps)
        in \<lparr>bv_configured = True, bv_paths = map (\<lambda>p. p\<lparr>bp_targets := map (scan_once e sizes all) (bp_targets p)\<rparr>) ps\<rparr>)
      else (let paths = bc_paths cfg v; ts = bc_targets cfg v
        in \<lparr>bv_configured = True, bv_paths = map (\<lambda>p. \<lparr>bp_path = p, bp_targets = map (scan_once e sizes ts) ts\<rparr>)
             (if paths = [] then [''(no paths declared)''] else paths)\<rparr>))"

text \<open>The first target of each repository.\<close>

definition distinct_repos :: "backup_target list \<Rightarrow> backup_target list" where
  "distinct_repos ts = foldl (\<lambda>acc t. if bt_repo t \<in> bt_repo ` set acc then acc else acc @ [t]) [] ts"

definition rollup_restic :: "repo_sizes \<Rightarrow> backup_view \<Rightarrow> restic" where
  "rollup_restic sizes bv =
     (let ts = filter (\<lambda>t. bt_exists t = ''yes'') (distinct_repos (concat (map bp_targets (bv_paths bv))));
          bytes = (\<Sum>t\<leftarrow>ts. case map_of sizes (bt_repo t) of None \<Rightarrow> 0 | Some b \<Rightarrow> b)
      in \<lparr>rs_configured = bv_configured bv, rs_exists = (if ts = [] then ''no'' else ''yes''),
          rs_snapshots = (\<Sum>t\<leftarrow>ts. bt_snapshots t), rs_age = foldl max 0 (map bt_age ts), rs_oldest = foldl max 0 (map bt_oldest ts),
          rs_size = (if bytes > 0 then repo_bytes bytes else []), rs_repo = [], rs_24h = (\<Sum>t\<leftarrow>ts. bt_24h t),
          rs_7d = (\<Sum>t\<leftarrow>ts. bt_7d t), rs_30d = (\<Sum>t\<leftarrow>ts. bt_30d t), rs_older = (\<Sum>t\<leftarrow>ts. bt_older t)\<rparr>)"

definition restic_bucket :: "restic \<Rightarrow> string" where
  "restic_bucket r =
     (if \<not> rs_configured r then ''off''
      else if rs_exists r = ''no'' \<or> rs_snapshots r = 0 then (if rs_exists r = ''no'' then ''bad'' else ''warn'')
      else if rs_age r > 48 then ''bad''
      else if rs_age r > 26 then ''warn''
      else ''ok'')"

text \<open>The walk of a directory: an error, a regular file with its size where that is known, or anything else.\<close>

datatype walk_entry = Walk_error | Walk_file "int option" | Walk_other

definition dir_size :: "walk_entry list \<Rightarrow> int option" where
  "dir_size es =
     (let bytes = (\<Sum>x\<leftarrow>es. case x of Walk_file (Some n) \<Rightarrow> n | _ \<Rightarrow> 0)
      in if bytes = 0 \<and> Walk_error \<in> set es then None else Some bytes)"

text \<open>The repositories that are measured, for machines in any order; nothing measured leaves the sizes as they are.\<close>

definition measured_repos :: "board_config \<Rightarrow> string list \<Rightarrow> string list" where
  "measured_repos cfg vs = remdups (concat (map (\<lambda>v. if bc_enabled cfg v then map bt_repo (bc_targets cfg v) else []) vs)
     @ concat (map (\<lambda>v. concat (map (\<lambda>p. map bt_repo (bp_targets p)) (bc_explicit cfg v))) vs))"

definition refresh_repo_sizes :: "board_config \<Rightarrow> string list \<Rightarrow> (string \<Rightarrow> walk_entry list) \<Rightarrow> repo_sizes \<Rightarrow> repo_sizes" where
  "refresh_repo_sizes cfg vs walk sizes =
     (let fresh = List.map_filter (\<lambda>r. map_option (\<lambda>n. (r, n)) (dir_size (walk r))) (measured_repos cfg vs)
      in if fresh = [] then sizes else fresh)"

subsection \<open>The forecast of steady growth\<close>

lemma sums_on_line:
  fixes ps :: "(rat \<times> rat) list"
  assumes "\<forall>(x, y)\<in>set ps. y = a + b * x"
  shows "(\<Sum>(x, y)\<leftarrow>ps. y) = of_nat (length ps) * a + b * (\<Sum>(x, y)\<leftarrow>ps. x)"
    "(\<Sum>(x, y)\<leftarrow>ps. x * y) = a * (\<Sum>(x, y)\<leftarrow>ps. x) + b * (\<Sum>(x, y)\<leftarrow>ps. x * x)"
  using assms by (induction ps) (auto simp: algebra_simps)

lemma spread_sum:
  fixes ps :: "(rat \<times> rat) list"
  shows "(\<Sum>(x, y)\<leftarrow>ps. (x - m) * (x - m)) = (\<Sum>(x, y)\<leftarrow>ps. x * x) - 2 * m * (\<Sum>(x, y)\<leftarrow>ps. x) + of_nat (length ps) * m * m"
  by (induction ps) (auto simp: algebra_simps)

lemma spread_positive:
  fixes ps :: "(rat \<times> rat) list"
  assumes "p \<in> set ps" "q \<in> set ps" "fst p \<noteq> fst q"
  shows "of_nat (length ps) * (\<Sum>(x, y)\<leftarrow>ps. x * x) - (\<Sum>(x, y)\<leftarrow>ps. x) * (\<Sum>(x, y)\<leftarrow>ps. x) \<noteq> 0"
proof
  let ?n = "of_nat (length ps) :: rat" and ?sx = "\<Sum>(x, y)\<leftarrow>ps. x" and ?sxx = "\<Sum>(x, y)\<leftarrow>ps. x * x"
  assume z: "?n * ?sxx - ?sx * ?sx = 0"
  have n: "?n \<noteq> 0" using assms(1) by auto
  define m where "m = ?sx / ?n"
  have "?sxx = m * ?sx" using z n by (simp add: m_def field_simps)
  moreover have "?n * m = ?sx" using n by (simp add: m_def)
  ultimately have "(\<Sum>(x, y)\<leftarrow>ps. (x - m) * (x - m)) = 0" unfolding spread_sum by (simp add: algebra_simps)
  then have "\<forall>(x, y)\<in>set ps. (x - m) * (x - m) = 0"
    using sum_list_nonneg_eq_0_iff [of "map (\<lambda>(x, y). (x - m) * (x - m)) ps"] by fastforce
  with assms show False by (auto simp: case_prod_unfold)
qed

lemma fitted_line_exact:
  assumes "\<forall>(x, y)\<in>set ps. y = a + b * x" "p \<in> set ps" "q \<in> set ps" "fst p \<noteq> fst q"
  shows "fitted_line ps = Some (b, a)"
proof -
  let ?n = "of_nat (length ps) :: rat" and ?sx = "\<Sum>(x, y)\<leftarrow>ps. x" and ?sxx = "\<Sum>(x, y)\<leftarrow>ps. x * x"
  note d = spread_positive [OF assms(2-4)]
  have n: "?n \<noteq> 0" using assms(2) by auto
  have "?n * (a * ?sx + b * ?sxx) - ?sx * (?n * a + b * ?sx) = b * (?n * ?sxx - ?sx * ?sx)" by (simp add: algebra_simps)
  with d n show ?thesis by (simp add: fitted_line_def sums_on_line [OF assms(1)] Let_def)
qed


text \<open>A gigabyte more every other hour: in two hours the hundred are full.\<close>

definition steady_samples :: "sample list" where
  "steady_samples = map (\<lambda>k. \<lparr>sa_ts = 7200 * k, sa_vm = ''a'', sa_kind = ''fs'', sa_used = 95 + k, sa_total = 100\<rparr>) [1, 2, 3, 4]"


end
