(* ===== verification/StatusBoard.thy ===== *)
theory StatusBoard
  imports BoardRounds "HOL-Library.Product_Lexorder"
begin

text \<open>
  What the status board (\<^verbatim>\<open>tools/status-board/main.go\<close>, \<^verbatim>\<open>kernelorg.go\<close>) makes of what it reads: a machine, all
  machines, the fleet, the kernels, the pages, and the cache they are served from while rounds of collecting go on.
\<close>

subsection \<open>A machine\<close>

record capacity =
  ca_fs_total :: int
  ca_fs_avail :: int
  ca_fs_used :: int
  ca_fs_pct :: rat
  ca_mem_total :: int
  ca_mem_avail :: int
  ca_mem_used :: int
  ca_mem_pct :: rat
  ca_fs_days :: rat
  ca_mem_days :: rat

definition root_fs :: "metrics \<Rightarrow> string \<Rightarrow> int" where
  "root_fs ms name =
     (case find (\<lambda>r. label r ''mountpoint'' = ''/'' \<and> label r ''fstype'' \<noteq> ''tmpfs'') (rows_of ms name) of
        None \<Rightarrow> 0 | Some r \<Rightarrow> int_of_float (mr_value r))"

definition capacity_for :: "int \<Rightarrow> sample_index \<Rightarrow> string \<Rightarrow> metrics \<Rightarrow> capacity" where
  "capacity_for now idx v ms =
     (let ft = root_fs ms ''node_filesystem_size_bytes''; fa = root_fs ms ''node_filesystem_avail_bytes'';
          fu = (if ft > 0 then ft - fa else 0);
          mt = first_int ms ''node_memory_MemTotal_bytes''; ma = first_int ms ''node_memory_MemAvailable_bytes'';
          mu = (if mt > 0 then mt - ma else 0)
      in \<lparr>ca_fs_total = ft, ca_fs_avail = fa, ca_fs_used = fu, ca_fs_pct = (if ft > 0 then percent_of fu ft else 0),
          ca_mem_total = mt, ca_mem_avail = ma, ca_mem_used = mu, ca_mem_pct = (if mt > 0 then percent_of mu mt else 0),
          ca_fs_days = forecast_days now idx v ''fs'' ft, ca_mem_days = forecast_days now idx v ''mem'' mt\<rparr>)"

record probe =
  pb_name :: string
  pb_url :: string
  pb_up :: bool
  pb_code :: int

definition probe_key :: "metric_row \<Rightarrow> string" where
  "probe_key r = label r ''name'' @ ''|'' @ label r ''url''"

definition probes_of :: "metrics \<Rightarrow> probe list" where
  "probes_of ms =
     (let codes = map (\<lambda>r. (probe_key r, int_of_float (mr_value r))) (rows_of ms ''health_probe_http_code'')
      in sort_key pb_name (map (\<lambda>r. \<lparr>pb_name = label r ''name'', pb_url = label r ''url'', pb_up = (mr_value r = 1),
           pb_code = (case map_of (rev codes) (probe_key r) of None \<Rightarrow> 0 | Some c \<Rightarrow> c)\<rparr>) (rows_of ms ''health_probe_up'')))"

definition cpu_count :: "metrics \<Rightarrow> int" where
  "cpu_count ms = int (length (remdups (map (\<lambda>r. label r ''cpu'') (rows_of ms ''node_cpu_seconds_total''))))"

definition cpu_busy :: "metrics \<Rightarrow> rat" where
  "cpu_busy ms =
     (let rs = rows_of ms ''node_cpu_seconds_total''; all = (\<Sum>r\<leftarrow>rs. mr_value r);
          idle = (\<Sum>r\<leftarrow>filter (\<lambda>r. label r ''mode'' = ''idle'') rs. mr_value r)
      in if all > 0 then 1 - idle / all else 0)"

definition find_iface :: "metrics \<Rightarrow> string" where
  "find_iface ms =
     (let ds = map (\<lambda>r. label r ''device'') (rows_of ms ''node_network_receive_bytes_total'') in
      (case find (\<lambda>p. p \<in> set ds) [''enp1s0'', ''eth0'', ''eno1'', ''ens3''] of
         Some p \<Rightarrow> p
       | None \<Rightarrow> (case find (\<lambda>d. d \<noteq> [] \<and> d \<noteq> ''lo'') ds of None \<Rightarrow> [] | Some d \<Rightarrow> d)))"

text \<open>The counter of the interface: the last row that names it.\<close>

definition iface_bytes :: "metrics \<Rightarrow> string \<Rightarrow> string \<Rightarrow> int" where
  "iface_bytes ms name iface =
     (let rs = filter (\<lambda>r. label r ''device'' = iface) (rows_of ms name)
      in if iface = [] \<or> rs = [] then 0 else int_of_float (mr_value (last rs)))"

text \<open>The counters of the round before, with their time: bytes a second, unless they are too old or went back.\<close>

type_synonym net_prev = "(string \<times> int \<times> int \<times> int) list"

definition rate_since :: "int \<Rightarrow> (int \<times> int) option \<Rightarrow> int \<Rightarrow> rat" where
  "rate_since now prev bytes =
     (case prev of
        None \<Rightarrow> 0
      | Some (old, t) \<Rightarrow> (let dt = of_int (now - t) / of_int sec in
          if dt > 0 \<and> dt < 600 \<and> bytes \<ge> old then of_int (bytes - old) / dt else 0))"

record vm_stat =
  vs_vm :: vm
  vs_reachable :: bool
  vs_probes :: "probe list"
  vs_mem_total :: int
  vs_mem_used :: int
  vs_virsh :: virsh_info
  vs_restic :: restic
  vs_backups :: backup_view
  vs_capacity :: capacity
  vs_kernel :: string
  vs_load :: rat
  vs_cpus :: int
  vs_busy :: rat
  vs_rx_rate :: rat
  vs_tx_rate :: rat
  vs_rx :: int
  vs_tx :: int
  vs_ts_up :: bool

text \<open>What rounds keep: the counters, the file of samples, the index of it, and the sizes of repositories.\<close>

record board_state =
  bo_net :: net_prev
  bo_samples :: "sample list"
  bo_index :: sample_index
  bo_sizes :: repo_sizes

definition backups_of :: "board_config \<Rightarrow> board_env \<Rightarrow> repo_sizes \<Rightarrow> string \<Rightarrow> restic \<times> backup_view" where
  "backups_of cfg e sizes v =
     (let bv = backup_view_for cfg e sizes v
      in (if bc_explicit cfg v \<noteq> [] then rollup_restic sizes bv else restic_for cfg e sizes v, bv))"

definition samples_from :: "int \<Rightarrow> string \<Rightarrow> capacity \<Rightarrow> sample list" where
  "samples_from now v c =
     (let s = (\<lambda>kind used full. \<lparr>sa_ts = now div sec, sa_vm = v, sa_kind = kind, sa_used = used, sa_total = full\<rparr>)
      in (if ca_fs_total c > 0 then [s ''fs'' (ca_fs_used c) (ca_fs_total c)] else [])
         @ (if ca_mem_total c > 0 then [s ''mem'' (ca_mem_used c) (ca_mem_total c)] else []))"

definition collect_vm :: "board_config \<Rightarrow> board_env \<Rightarrow> vm \<Rightarrow> board_state \<Rightarrow> vm_stat \<times> board_state" where
  "collect_vm cfg e v b =
     (let name = vm_name v; now = be_now e; scraped = fetch_metrics (be_metrics e (vm_ip v));
          ms = (case scraped of None \<Rightarrow> [] | Some ms \<Rightarrow> ms);
          iface = find_iface ms; rx = iface_bytes ms ''node_network_receive_bytes_total'' iface;
          tx = iface_bytes ms ''node_network_transmit_bytes_total'' iface;
          prev = map_of (bo_net b) name;
          cap = capacity_for now (bo_index b) name ms
      in (case backups_of cfg e (bo_sizes b) name of (r, bv) \<Rightarrow>
        (\<lparr>vs_vm = v, vs_reachable = (scraped \<noteq> None), vs_probes = probes_of ms,
          vs_mem_total = first_int ms ''node_memory_MemTotal_bytes'',
          vs_mem_used = (if rows_of ms ''node_memory_MemAvailable_bytes'' = [] then 0
            else first_int ms ''node_memory_MemTotal_bytes'' - first_int ms ''node_memory_MemAvailable_bytes''),
          vs_virsh = no_virsh, vs_restic = r, vs_backups = bv, vs_capacity = cap,
          vs_kernel = (case rows_of ms ''node_uname_info'' of [] \<Rightarrow> [] | x # _ \<Rightarrow> label x ''release''),
          vs_load = (case rows_of ms ''node_load1'' of [] \<Rightarrow> 0 | x # _ \<Rightarrow> mr_value x), vs_cpus = cpu_count ms, vs_busy = cpu_busy ms,
          vs_rx_rate = (if scraped = None then 0 else rate_since now (map_option (\<lambda>(r, t, seen). (r, seen)) prev) rx),
          vs_tx_rate = (if scraped = None then 0 else rate_since now (map_option (\<lambda>(r, t, seen). (t, seen)) prev) tx),
          vs_rx = rx, vs_tx = tx,
          vs_ts_up = (\<exists>x\<in>set (rows_of ms ''node_network_up''). label x ''device'' = ''tailscale0'' \<and> mr_value x = 1)\<rparr>,
         b\<lparr>bo_net := (if scraped = None then bo_net b else AList.update name (rx, tx, now) (bo_net b)),
           bo_samples := bo_samples b @ samples_from now name cap\<rparr>)))"

subsection \<open>All machines\<close>

fun collect_vms :: "board_config \<Rightarrow> board_env \<Rightarrow> vm list \<Rightarrow> board_state \<Rightarrow> vm_stat list \<times> board_state" where
  "collect_vms cfg e [] b = ([], b)"
| "collect_vms cfg e (v # vs) b =
     (case collect_vm cfg e v b of (s, b) \<Rightarrow> apfst (\<lambda>ss. s # ss) (collect_vms cfg e vs b))"

definition stat_name :: "vm_stat \<Rightarrow> string" where
  "stat_name s = vm_name (vs_vm s)"

definition collect_all :: "board_config \<Rightarrow> board_env \<Rightarrow> board_state \<Rightarrow> vm_stat list \<times> board_state" where
  "collect_all cfg e b =
     (let ds = virsh_state (be_domstats e) (be_domains e) (be_dominfo e)
      in apfst (\<lambda>ss. sort_key stat_name (map (\<lambda>s. s\<lparr>vs_virsh := domain_info ds (stat_name s)\<rparr>) ss))
         (collect_vms cfg e (bc_inventory cfg) b))"

record fleet =
  fl_total :: int
  fl_reachable :: int
  fl_ts_up :: int
  fl_ts_down :: int
  fl_load :: rat
  fl_cpus :: int
  fl_busy :: rat
  fl_mem_used :: int
  fl_mem_total :: int
  fl_fs_used :: int
  fl_fs_total :: int
  fl_rx_rate :: rat
  fl_tx_rate :: rat
  fl_ok :: int
  fl_warn :: int
  fl_bad :: int
  fl_off :: int

definition no_fleet :: "int \<Rightarrow> fleet" where
  "no_fleet n = \<lparr>fl_total = n, fl_reachable = 0, fl_ts_up = 0, fl_ts_down = 0, fl_load = 0, fl_cpus = 0, fl_busy = 0,
     fl_mem_used = 0, fl_mem_total = 0, fl_fs_used = 0, fl_fs_total = 0, fl_rx_rate = 0, fl_tx_rate = 0,
     fl_ok = 0, fl_warn = 0, fl_bad = 0, fl_off = 0\<rparr>"

text \<open>One machine added to the sums; the second number counts the machines whose load of the processors is known.\<close>

definition fleet_step :: "fleet \<times> nat \<Rightarrow> vm_stat \<Rightarrow> fleet \<times> nat" where
  "fleet_step = (\<lambda>(f, n) v.
     (let c = vs_capacity v;
          f = (if vs_reachable v then f\<lparr>fl_reachable := fl_reachable f + 1, fl_load := fl_load f + vs_load v,
                 fl_cpus := fl_cpus f + vs_cpus v, fl_busy := (if vs_cpus v > 0 then fl_busy f + vs_busy v else fl_busy f),
                 fl_mem_used := fl_mem_used f + ca_mem_used c, fl_mem_total := fl_mem_total f + ca_mem_total c,
                 fl_fs_used := fl_fs_used f + ca_fs_used c, fl_fs_total := fl_fs_total f + ca_fs_total c,
                 fl_rx_rate := fl_rx_rate f + vs_rx_rate v, fl_tx_rate := fl_tx_rate f + vs_tx_rate v\<rparr> else f);
          n = (if vs_reachable v \<and> vs_cpus v > 0 then n + 1 else n);
          f = (if vs_ts_up v then f\<lparr>fl_ts_up := fl_ts_up f + 1\<rparr> else f\<lparr>fl_ts_down := fl_ts_down f + 1\<rparr>);
          k = restic_bucket (vs_restic v)
      in (if k = ''ok'' then f\<lparr>fl_ok := fl_ok f + 1\<rparr>
          else if k = ''warn'' then f\<lparr>fl_warn := fl_warn f + 1\<rparr>
          else if k = ''bad'' then f\<lparr>fl_bad := fl_bad f + 1\<rparr>
          else f\<lparr>fl_off := fl_off f + 1\<rparr>, n)))"

definition compute_fleet :: "vm_stat list \<Rightarrow> fleet" where
  "compute_fleet vs = (case foldl fleet_step (no_fleet (int (length vs)), 0) vs of (f, n) \<Rightarrow>
     if n > 0 then f\<lparr>fl_busy := fl_busy f / of_nat n\<rparr> else f)"

definition backup_rank :: "vm_stat \<Rightarrow> int" where
  "backup_rank v = (let k = restic_bucket (vs_restic v) in
     if k = ''bad'' then 0 else if k = ''warn'' then 1 else if k = ''ok'' then 2 else 3)"

definition sort_backups :: "vm_stat list \<Rightarrow> vm_stat list" where
  "sort_backups vs = sort_key (\<lambda>v. (backup_rank v, stat_name v)) vs"

definition human_rate :: "rat \<Rightarrow> string" where
  "human_rate bps =
     (if bps < 1024 then fixed 0 bps @ '' B/s''
      else if bps < 1024 * 1024 then fixed 1 (bps / 1024) @ '' KiB/s''
      else if bps < 1024 * 1024 * 1024 then fixed 1 (bps / 1024 / 1024) @ '' MiB/s''
      else fixed 2 (bps / 1024 / 1024 / 1024) @ '' GiB/s'')"

subsection \<open>Kernels\<close>

record kernel_release =
  kr_version :: string
  kr_eol :: bool

text \<open>The branch, the first two numbers of a version, and the third number where there is one.\<close>

definition booted_re :: "string \<Rightarrow> (string \<times> string) option" where
  "booted_re s =
     (let a = takeWhile is_digit s; r = drop (length a) s; b = takeWhile is_digit (tl r); t = drop (length b) (tl r);
          c = takeWhile is_digit (tl t)
      in if a = [] \<or> \<not> has_prefix r ''.'' \<or> b = [] then None
         else Some (a @ ''.'' @ b, if has_prefix t ''.'' then c else []))"

text \<open>The releases by branch; of several of a branch the first counts. \<open>None\<close> stands for a text that is not JSON.\<close>

definition parse_kernelorg :: "kernel_release list option \<Rightarrow> (string \<times> kernel_release) list option" where
  "parse_kernelorg releases =
     (case releases of
        None \<Rightarrow> None
      | Some rs \<Rightarrow> (let m = fold (\<lambda>r m. case booted_re (kr_version r) of
            None \<Rightarrow> m | Some (branch, _) \<Rightarrow> if map_of m branch = None then AList.update branch r m else m) rs []
          in if rs = [] \<or> m = [] then None else Some m))"

record kernel_row =
  kn_name :: string
  kn_kernel :: string
  kn_latest :: string
  kn_behind :: int
  kn_eol :: bool
  kn_level :: string
  kn_fleet_up :: string

definition patch_number :: "string \<Rightarrow> int option" where
  "patch_number p = (if p = [] then Some 0 else if snd (atoi p) then Some (fst (atoi p)) else None)"

definition freshness_for :: "(string \<times> kernel_release) list \<Rightarrow> string \<Rightarrow> string \<Rightarrow> string \<Rightarrow> kernel_row" where
  "freshness_for releases name booted fleet_up =
     (let row = \<lparr>kn_name = name, kn_kernel = booted, kn_latest = [], kn_behind = -1, kn_eol = False, kn_level = ''unknown'',
        kn_fleet_up = fleet_up\<rparr>
      in case booted_re booted of
         None \<Rightarrow> row
       | Some (branch, p) \<Rightarrow> (case patch_number p of
           None \<Rightarrow> row
         | Some patch \<Rightarrow> (case map_of releases branch of
             None \<Rightarrow> row\<lparr>kn_eol := True, kn_level := ''bad''\<rparr>
           | Some rel \<Rightarrow>
               (let row = row\<lparr>kn_latest := kr_version rel, kn_eol := kr_eol rel\<rparr> in
                case (case booted_re (kr_version rel) of None \<Rightarrow> Some 0 | Some (_, q) \<Rightarrow> patch_number q) of
                  None \<Rightarrow> row
                | Some latest \<Rightarrow> (let behind = max 0 (latest - patch) in
                    row\<lparr>kn_behind := behind, kn_level := (if kn_eol row \<or> behind > 10 then ''bad''
                      else if behind > 3 then ''warn'' else ''ok'')\<rparr>)))))"

record fleet_host =
  fh_name :: string
  fh_deployed :: string
  fh_rebooted :: string
  fh_back_up :: string

definition host_outcome :: "fleet_host \<Rightarrow> string" where
  "host_outcome h =
     (if fh_deployed h = ''fail'' \<or> fh_rebooted h = ''fail'' \<or> fh_back_up h = ''fail'' then ''fail''
      else if fh_deployed h = ''ok'' then ''ok''
      else ''skip'')"

text \<open>The result of the last upgrade; None where there is none, it cannot be read, or has no hosts.\<close>

definition load_fleet_status :: "fleet_host list option \<Rightarrow> fleet_host list option" where
  "load_fleet_status hosts = (case hosts of None \<Rightarrow> None | Some hs \<Rightarrow> if hs = [] then None else Some hs)"

definition level_number :: "string \<Rightarrow> int" where
  "level_number l = (case map_of [(''bad'', 0), (''warn'', 1), (''unknown'', 2), (''ok'', 3)] l of None \<Rightarrow> 0 | Some n \<Rightarrow> n)"

definition kernel_rows :: "(string \<times> kernel_release) list \<Rightarrow> vm_stat list \<Rightarrow> fleet_host list option \<Rightarrow>
    kernel_row list \<times> int \<times> int \<times> int" where
  "kernel_rows releases vs hosts =
     (let ups = map (\<lambda>h. (fh_name h, host_outcome h)) (case hosts of None \<Rightarrow> [] | Some hs \<Rightarrow> hs);
          up = (\<lambda>name. case map_of (rev ups) name of None \<Rightarrow> [] | Some x \<Rightarrow> x);
          rows = map (\<lambda>v. freshness_for releases (stat_name v) (vs_kernel v) (up (stat_name v))) (filter (\<lambda>v. vs_kernel v \<noteq> []) vs);
          n = (\<lambda>l. int (length (filter (\<lambda>r. kn_level r = l) rows)))
      in (sort_key (\<lambda>r. (level_number (kn_level r), kn_name r)) rows, n ''ok'', n ''warn'', n ''bad''))"

subsection \<open>Rounds, the cache and the pages\<close>

type_synonym snapshot = "vm_stat list \<times> storagebox \<times> zpool list \<times> fleet"

text \<open>The file of samples is there from the first sample on.\<close>

definition collect_round :: "board_config \<Rightarrow> board_env \<Rightarrow> board_state \<Rightarrow> snapshot \<times> board_state" where
  "collect_round cfg e b =
     (case collect_all cfg e (b\<lparr>bo_index := build_sample_index (if bo_samples b = [] then None else Some (bo_samples b)) (bo_index b)\<rparr>) of
        (vs, b) \<Rightarrow> ((vs, storagebox_status (be_df e), zpools_status (bc_pools cfg) (be_zpool e), compute_fleet vs), b))"

text \<open>A round that has begun keeps others from beginning; what it found is shown when it ends.\<close>

record board_run =
  br_board :: board_state
  br_cache :: snapshot
  br_at :: "int option"
  br_round :: "snapshot option"

definition board_start :: "board_state \<Rightarrow> board_run" where
  "board_start b = \<lparr>br_board = b, br_cache = ([], no_storagebox, [], no_fleet 0), br_at = None, br_round = None\<rparr>"

definition refresh_begin :: "board_config \<Rightarrow> board_env \<Rightarrow> board_run \<Rightarrow> board_run option" where
  "refresh_begin cfg e s =
     (if br_round s \<noteq> None then None
      else (case collect_round cfg e (br_board s) of (snap, b) \<Rightarrow> Some (s\<lparr>br_board := b, br_round := Some snap\<rparr>)))"

definition refresh_end :: "int \<Rightarrow> board_run \<Rightarrow> board_run option" where
  "refresh_end now s =
     (case br_round s of None \<Rightarrow> None
      | Some snap \<Rightarrow> Some (s\<lparr>br_cache := snap, br_at := Some now, br_round := None\<rparr>))"

definition sizes_refresh :: "board_config \<Rightarrow> string list \<Rightarrow> (string \<Rightarrow> walk_entry list) \<Rightarrow> board_run \<Rightarrow> board_run" where
  "sizes_refresh cfg vs walk s =
     s\<lparr>br_board := (br_board s)\<lparr>bo_sizes := refresh_repo_sizes cfg vs walk (bo_sizes (br_board s))\<rparr>\<rparr>"

text \<open>What a request is answered from at once; None if it has to do a round of its own.\<close>

definition cached_or_refresh :: "int \<Rightarrow> int \<Rightarrow> board_run \<Rightarrow> snapshot option" where
  "cached_or_refresh now max_age s =
     (let fresh = (case br_at s of None \<Rightarrow> False | Some t \<Rightarrow> max_age \<le> 0 \<or> now - t < max_age)
      in if fresh \<or> br_round s \<noteq> None then Some (br_cache s) else None)"

inductive board_step :: "board_config \<Rightarrow> board_run \<Rightarrow> board_run \<Rightarrow> bool" for cfg where
  Begin_round: "refresh_begin cfg e s = Some s' \<Longrightarrow> board_step cfg s s'"
| End_round: "refresh_end now s = Some s' \<Longrightarrow> board_step cfg s s'"
| Measure_repos: "board_step cfg s (sizes_refresh cfg vs walk s)"

record api_summary =
  as_ok :: int
  as_warn :: int
  as_bad :: int
  as_off :: int
  as_stale :: "string list"
  as_kernels :: "kernel_row list"
  as_fleet_up :: "fleet_host list option"
  as_down :: "string list"

definition api_summary_handler :: "(string \<times> kernel_release) list \<Rightarrow> fleet_host list option \<Rightarrow> snapshot \<Rightarrow> api_summary" where
  "api_summary_handler releases hosts = (\<lambda>(vs, sb, zp, fl).
     \<lparr>as_ok = fl_ok fl, as_warn = fl_warn fl, as_bad = fl_bad fl, as_off = fl_off fl,
      as_stale = map stat_name (filter (\<lambda>v. rs_configured (vs_restic v) \<and> restic_bucket (vs_restic v) \<in> {''warn'', ''bad''}) vs),
      as_kernels = fst (kernel_rows releases vs hosts), as_fleet_up = hosts,
      as_down = map stat_name (filter (\<lambda>v. \<not> vs_reachable v \<and> vi_state (vs_virsh v) = ''running'') vs)\<rparr>)"

subsection \<open>What is counted\<close>

lemma bucket_cases: "restic_bucket r \<in> {''ok'', ''warn'', ''bad'', ''off''}"
  by (simp add: restic_bucket_def)

lemma fleet_step_counts:
  "fl_total (fst (fleet_step x v)) = fl_total (fst x)"
  "fl_ts_up (fst (fleet_step x v)) = fl_ts_up (fst x) + (if vs_ts_up v then 1 else 0)"
  "fl_ts_down (fst (fleet_step x v)) = fl_ts_down (fst x) + (if vs_ts_up v then 0 else 1)"
  "fl_reachable (fst (fleet_step x v)) = fl_reachable (fst x) + (if vs_reachable v then 1 else 0)"
  by (simp_all add: fleet_step_def Let_def case_prod_unfold)

lemma fleet_step_buckets:
  "fl_ok (fst (fleet_step x v)) = fl_ok (fst x) + (if restic_bucket (vs_restic v) = ''ok'' then 1 else 0)"
  "fl_warn (fst (fleet_step x v)) = fl_warn (fst x) + (if restic_bucket (vs_restic v) = ''warn'' then 1 else 0)"
  "fl_bad (fst (fleet_step x v)) = fl_bad (fst x) + (if restic_bucket (vs_restic v) = ''bad'' then 1 else 0)"
  "fl_off (fst (fleet_step x v)) = fl_off (fst x) + (if restic_bucket (vs_restic v) = ''off'' then 1 else 0)"
  using bucket_cases [of "vs_restic v"] by (auto simp: fleet_step_def Let_def case_prod_unfold)

lemma fleet_counts_fold:
  "fl_total (fst (foldl fleet_step x vs)) = fl_total (fst x)"
  "fl_ts_up (fst (foldl fleet_step x vs)) = fl_ts_up (fst x) + int (length (filter vs_ts_up vs))"
  "fl_ts_down (fst (foldl fleet_step x vs)) = fl_ts_down (fst x) + int (length (filter (\<lambda>v. \<not> vs_ts_up v) vs))"
  "fl_reachable (fst (foldl fleet_step x vs)) = fl_reachable (fst x) + int (length (filter vs_reachable vs))"
  by (induction vs arbitrary: x) (simp_all add: fleet_step_counts)

lemma fleet_buckets_fold:
  "fl_ok (fst (foldl fleet_step x vs)) = fl_ok (fst x) + int (length (filter (\<lambda>v. restic_bucket (vs_restic v) = ''ok'') vs))"
  "fl_warn (fst (foldl fleet_step x vs)) = fl_warn (fst x) + int (length (filter (\<lambda>v. restic_bucket (vs_restic v) = ''warn'') vs))"
  "fl_bad (fst (foldl fleet_step x vs)) = fl_bad (fst x) + int (length (filter (\<lambda>v. restic_bucket (vs_restic v) = ''bad'') vs))"
  "fl_off (fst (foldl fleet_step x vs)) = fl_off (fst x) + int (length (filter (\<lambda>v. restic_bucket (vs_restic v) = ''off'') vs))"
  by (induction vs arbitrary: x) (simp_all add: fleet_step_buckets)

lemma fleet_fields:
  "fl_total (compute_fleet vs) = int (length vs)" "fl_reachable (compute_fleet vs) = int (length (filter vs_reachable vs))"
  "fl_ts_up (compute_fleet vs) = int (length (filter vs_ts_up vs))"
  "fl_ts_down (compute_fleet vs) = int (length (filter (\<lambda>v. \<not> vs_ts_up v) vs))"
  "fl_ok (compute_fleet vs) = int (length (filter (\<lambda>v. restic_bucket (vs_restic v) = ''ok'') vs))"
  "fl_warn (compute_fleet vs) = int (length (filter (\<lambda>v. restic_bucket (vs_restic v) = ''warn'') vs))"
  "fl_bad (compute_fleet vs) = int (length (filter (\<lambda>v. restic_bucket (vs_restic v) = ''bad'') vs))"
  "fl_off (compute_fleet vs) = int (length (filter (\<lambda>v. restic_bucket (vs_restic v) = ''off'') vs))"
  by (simp_all add: compute_fleet_def case_prod_unfold fleet_counts_fold fleet_buckets_fold) (simp_all add: no_fleet_def)

lemma fleet_buckets_all:
  "fl_ok (compute_fleet vs) + fl_warn (compute_fleet vs) + fl_bad (compute_fleet vs) + fl_off (compute_fleet vs) = int (length vs)"
  unfolding fleet_fields
proof (induction vs)
  case (Cons v vs)
  then show ?case using bucket_cases [of "vs_restic v"] by auto
qed simp

subsection \<open>What is shown\<close>

lemma map_insort_key: "map f (insort_key f x xs) = insort (f x) (map f xs)"
  by (induction xs) auto

lemma map_sort_key: "map f (sort_key f xs) = sort (map f xs)"
  by (induction xs) (simp_all add: map_insort_key)

lemma collect_vm_vm: "vs_vm (fst (collect_vm cfg e v b)) = v"
  by (simp add: collect_vm_def Let_def split: prod.split)

lemma collect_vms_vms: "map vs_vm (fst (collect_vms cfg e vs b)) = vs"
proof (induction vs arbitrary: b)
  case (Cons v vs)
  then show ?case using collect_vm_vm [of cfg e v b] by (simp add: case_prod_unfold)
qed simp

lemma collect_all_names: "map stat_name (fst (collect_all cfg e b)) = sort (map vm_name (bc_inventory cfg))"
proof -
  have "map stat_name (map (\<lambda>s. s\<lparr>vs_virsh := f s\<rparr>) ss) = map vm_name (map vs_vm ss)" for f ss
    by (simp add: stat_name_def)
  then show ?thesis by (simp add: collect_all_def Let_def map_sort_key collect_vms_vms del: map_map)
qed

definition whole_round :: "board_config \<Rightarrow> snapshot \<Rightarrow> bool" where
  "whole_round cfg = (\<lambda>(vs, sb, zp, fl). fl = compute_fleet vs \<and> map stat_name vs = sort (map vm_name (bc_inventory cfg)))"

definition run_ok :: "board_config \<Rightarrow> board_run \<Rightarrow> bool" where
  "run_ok cfg s \<longleftrightarrow> (if br_at s = None then br_cache s = ([], no_storagebox, [], no_fleet 0) else whole_round cfg (br_cache s))
     \<and> (case br_round s of None \<Rightarrow> True | Some snap \<Rightarrow> whole_round cfg snap)"

lemma round_whole: "whole_round cfg (fst (collect_round cfg e b))"
  using collect_all_names by (simp add: whole_round_def collect_round_def case_prod_unfold)

lemma step_ok: "board_step cfg s s' \<Longrightarrow> run_ok cfg s \<Longrightarrow> run_ok cfg s'"
proof (induction rule: board_step.induct)
  case (Begin_round e s s')
  then show ?case using round_whole [of cfg e "br_board s"]
    by (auto simp: refresh_begin_def run_ok_def case_prod_unfold split: if_splits)
next
  case (End_round now s s')
  then show ?case by (auto simp: refresh_end_def run_ok_def split: option.splits)
qed (simp add: sizes_refresh_def run_ok_def)

lemma steps_ok: "(board_step cfg)\<^sup>*\<^sup>* (board_start b) s \<Longrightarrow> run_ok cfg s"
proof (induction rule: rtranclp_induct)
  case base
  show ?case by (simp add: board_start_def run_ok_def)
qed (rule step_ok)


subsection \<open>Fresh backups\<close>

definition snaps_inv :: "int option list \<Rightarrow> snaps \<Rightarrow> bool" where
  "snaps_inv es s \<longleftrightarrow> sn_count s = int (length (filter (\<lambda>x. x \<noteq> None) es))
     \<and> sn_24h s + sn_7d s + sn_30d s + sn_older s = sn_count s
     \<and> (case sn_latest s of None \<Rightarrow> sn_count s = 0 | Some t \<Rightarrow> Some t \<in> set es \<and> (\<forall>u. Some u \<in> set es \<longrightarrow> u \<le> t))"

lemma add_snap_inv: "snaps_inv es s \<Longrightarrow> snaps_inv (es @ [x]) (add_snap now s x)"
proof (cases x)
  case (Some mt)
  assume inv: "snaps_inv es s"
  have none: "Some u \<notin> set es" if "filter (\<lambda>x. x \<noteq> None) es = []" for u using that by (auto simp: filter_empty_conv)
  show ?thesis using inv Some none
    by (cases "sn_latest s") (auto simp: snaps_inv_def add_snap_def Let_def)
qed (auto simp: snaps_inv_def add_snap_def split: option.splits)

lemma snaps_of_inv: "snaps_inv es (snaps_of now es)"
proof (induction es rule: rev_induct)
  case Nil
  show ?case by (simp add: snaps_inv_def snaps_of_def no_snaps_def)
next
  case (snoc x es)
  from add_snap_inv [OF this, of x now] show ?case by (simp add: snaps_of_def)
qed

lemma latest_snap:
  assumes "sn_count (snaps_of now es) \<noteq> 0"
  obtains mt where "sn_latest (snaps_of now es) = Some mt" "Some mt \<in> set es"
  using snaps_of_inv [of es now] assms by (auto simp: snaps_inv_def split: option.splits)

text \<open>A repository whose newest snapshot is not older than twenty-six hours.\<close>

definition fresh_repo :: "board_env \<Rightarrow> string \<Rightarrow> bool" where
  "fresh_repo e r \<longleftrightarrow> (\<exists>es mt. be_repo e r = Some (Some es) \<and> Some mt \<in> set es \<and> hours (be_now e - mt) \<le> 26)"

lemma scanned_snap:
  assumes "t = scan_target_repo e sizes u" "bt_exists t = ''yes''" "bt_snapshots t \<noteq> 0" "bt_age t \<le> 26"
  shows "fresh_repo e (bt_repo u)"
proof -
  from assms(1,2) obtain es where es: "be_repo e (bt_repo u) = Some (Some es)"
    by (auto simp: scan_target_repo_def Let_def split: if_splits option.splits)
  with assms(1,2) have t: "bt_snapshots t = sn_count (snaps_of (be_now e) es)"
    "bt_age t = (if sn_count (snaps_of (be_now e) es) > 0 then age_of (be_now e) (sn_latest (snaps_of (be_now e) es)) else bt_age u)"
    by (auto simp: scan_target_repo_def Let_def split: if_splits)
  with assms(3) have c: "sn_count (snaps_of (be_now e) es) \<noteq> 0" by simp
  then obtain mt where mt: "sn_latest (snaps_of (be_now e) es) = Some mt" "Some mt \<in> set es" by (rule latest_snap)
  moreover have "0 < sn_count (snaps_of (be_now e) es)" using c snaps_of_inv [of es "be_now e"] by (auto simp: snaps_inv_def)
  ultimately have "hours (be_now e - mt) \<le> 26" using t assms(4) by (simp add: age_of_def)
  with es mt(2) show ?thesis unfolding fresh_repo_def by blast
qed

lemma distinct_repos_subset: "set (distinct_repos ts) \<subseteq> set ts"
proof -
  have "set (foldl (\<lambda>acc t. if bt_repo t \<in> bt_repo ` set acc then acc else acc @ [t]) acc ts) \<subseteq> set acc \<union> set ts" for acc
  proof (induction ts arbitrary: acc)
    case (Cons t ts)
    from Cons [of acc] Cons [of "acc @ [t]"] show ?case by auto
  qed simp
  from this [of "[]"] show ?thesis by (simp add: distinct_repos_def)
qed

lemma foldl_max_start: "(m :: 'a :: linorder) \<le> foldl max m xs"
  by (induction xs arbitrary: m) (auto intro: order_trans [OF max.cobounded1])

lemma foldl_max_ge: "x \<in> set xs \<Longrightarrow> x \<le> foldl max (m :: 'a :: linorder) xs"
  by (induction xs arbitrary: m) (auto intro: order_trans [OF max.cobounded2 foldl_max_start])

definition repos_of :: "board_config \<Rightarrow> string \<Rightarrow> string set" where
  "repos_of cfg v = (if bc_explicit cfg v \<noteq> [] then bt_repo ` set (concat (map bp_targets (bc_explicit cfg v)))
     else {in_dir (bc_backup_dir cfg) v})"

lemma find_repo:
  assumes "u \<in> set all"
  obtains w where "w \<in> set all" "bt_repo w = bt_repo u" "scan_once e sizes all u = scan_target_repo e sizes w"
proof -
  from assms obtain w where w: "find (\<lambda>x. bt_repo x = bt_repo u) all = Some w"
    by (cases "find (\<lambda>x. bt_repo x = bt_repo u) all") (auto simp: find_None_iff)
  then have "w \<in> set all" "bt_repo w = bt_repo u" by (auto simp: find_Some_iff)
  from that [OF this] w show ?thesis by (simp add: scan_once_def)
qed

lemma rollup_fresh:
  assumes "restic_bucket (rollup_restic sizes bv) = ''ok''"
    and "\<forall>t\<in>set (concat (map bp_targets (bv_paths bv))). \<exists>u. t = scan_target_repo e sizes u \<and> bt_repo u \<in> R"
  shows "\<exists>r\<in>R. fresh_repo e r"
proof -
  define ts where "ts = filter (\<lambda>t. bt_exists t = ''yes'') (distinct_repos (concat (map bp_targets (bv_paths bv))))"
  from assms(1) have "(\<Sum>t\<leftarrow>ts. bt_snapshots t) \<noteq> 0" "foldl max 0 (map bt_age ts) \<le> 26"
    by (auto simp: restic_bucket_def rollup_restic_def Let_def ts_def split: if_splits)
  moreover from this(1) obtain t where t: "t \<in> set ts" "bt_snapshots t \<noteq> 0"
    by (metis (mono_tags, lifting) in_set_conv_nth sum_list_0 map_eq_conv)
  ultimately have "bt_age t \<le> 26" using foldl_max_ge [of "bt_age t" "map bt_age ts" 0] by auto
  moreover from t(1) have "t \<in> set (distinct_repos (concat (map bp_targets (bv_paths bv))))" "bt_exists t = ''yes''"
    by (simp_all only: ts_def set_filter mem_Collect_eq)
  note subsetD [OF distinct_repos_subset this(1)] this(2)
  ultimately show ?thesis using assms(2) t(2) scanned_snap by blast
qed

lemma in_dir_fresh:
  assumes "restic_bucket (restic_for cfg e sizes v) = ''ok''"
  shows "bc_enabled cfg v \<and> fresh_repo e (in_dir (bc_backup_dir cfg) v)"
proof -
  from assms obtain es where es: "bc_enabled cfg v" "be_repo e (in_dir (bc_backup_dir cfg) v) = Some (Some es)"
    by (auto simp: restic_for_def restic_bucket_def Let_def split: if_splits option.splits)
  with assms have c: "sn_count (snaps_of (be_now e) es) \<noteq> 0" "age_of (be_now e) (sn_latest (snaps_of (be_now e) es)) \<le> 26"
    by (auto simp: restic_for_def restic_bucket_def Let_def split: if_splits)
  from c(1) obtain mt where "sn_latest (snaps_of (be_now e) es) = Some mt" "Some mt \<in> set es" by (rule latest_snap)
  with c(2) es show ?thesis by (auto simp: fresh_repo_def age_of_def)
qed

text \<open>
  C23. A good mark means a fresh backup: a machine is shown with good backups only if backups are configured for it and
  one of its repositories has a snapshot that is not older than twenty-six hours.
\<close>

theorem good_backup_fresh:
  assumes "restic_bucket (fst (backups_of cfg e sizes v)) = ''ok''"
  shows "bc_enabled cfg v \<and> (\<exists>r\<in>repos_of cfg v. fresh_repo e r)"
proof (cases "bc_explicit cfg v = []")
  case True
  with assms in_dir_fresh show ?thesis by (simp add: backups_of_def Let_def repos_of_def)
next
  case False
  let ?all = "concat (map bp_targets (bc_explicit cfg v))" and ?bv = "backup_view_for cfg e sizes v"
  from False assms have ok: "restic_bucket (rollup_restic sizes ?bv) = ''ok''" by (simp add: backups_of_def Let_def)
  have on: "bc_enabled cfg v"
    using ok by (auto simp: restic_bucket_def rollup_restic_def backup_view_for_def Let_def split: if_splits)
  have "\<exists>u. t = scan_target_repo e sizes u \<and> bt_repo u \<in> repos_of cfg v"
    if "t \<in> set (concat (map bp_targets (bv_paths ?bv)))" for t
  proof -
    from that on False obtain x where x: "x \<in> set ?all" "t = scan_once e sizes ?all x" by (auto simp: backup_view_for_def Let_def)
    from x(1) obtain w where "w \<in> set ?all" "scan_once e sizes ?all x = scan_target_repo e sizes w" by (rule find_repo)
    with x(2) False show ?thesis unfolding repos_of_def by (metis image_eqI)
  qed
  with on rollup_fresh [OF ok] show ?thesis by blast
qed

text \<open>
  A repository that is gone does not show: for machines whose paths have targets of their own, the summary is the same
  with one more path whose target cannot be read.
\<close>

theorem rollup_hides_missing:
  assumes "bt_exists t \<noteq> ''yes''" "bt_repo t \<notin> bt_repo ` set (concat (map bp_targets (bv_paths bv)))"
  shows "rollup_restic sizes (bv\<lparr>bv_paths := bv_paths bv @ [\<lparr>bp_path = p, bp_targets = [t]\<rparr>]\<rparr>) = rollup_restic sizes bv"
proof -
  have "bt_repo t \<notin> bt_repo ` set (distinct_repos (concat (map bp_targets (bv_paths bv))))"
    using assms(2) distinct_repos_subset by blast
  then have "distinct_repos (concat (map bp_targets (bv_paths bv)) @ [t]) = distinct_repos (concat (map bp_targets (bv_paths bv))) @ [t]"
    by (simp add: distinct_repos_def)
  with assms(1) show ?thesis by (simp add: rollup_restic_def)
qed

text \<open>A machine with a backup of an hour ago; nothing answers but the storage.\<close>

definition one_vm :: board_config where
  "one_vm = \<lparr>bc_inventory = [\<lparr>vm_name = ''a'', vm_ip = ''::1'', vm_bridge = []\<rparr>], bc_enabled = (\<lambda>v. True), bc_paths = (\<lambda>v. []),
     bc_targets = (\<lambda>v. []), bc_explicit = (\<lambda>v. []), bc_pools = [], bc_backup_dir = ''/b''\<rparr>"

definition quiet_env :: board_env where
  "quiet_env = \<lparr>be_now = 7200 * sec, be_metrics = (\<lambda>_. None), be_domstats = None, be_domains = None, be_dominfo = (\<lambda>_. None),
     be_df = None, be_zpool = None, be_repo = (\<lambda>r. if r = ''/b/a'' then Some (Some [Some (3600 * sec)]) else None)\<rparr>"

lemma good_backup_fresh_witness: "\<exists>r\<in>repos_of one_vm ''a''. fresh_repo quiet_env r"
proof -
  have "restic_bucket (fst (backups_of one_vm quiet_env [] ''a'')) = ''ok''" by code_simp
  from good_backup_fresh [OF this] show ?thesis by blast
qed

definition new_board :: board_state where
  "new_board = \<lparr>bo_net = [], bo_samples = [], bo_index = None, bo_sizes = []\<rparr>"

definition after_round :: board_run where
  "after_round = the (refresh_end 7 (the (refresh_begin one_vm quiet_env (board_start new_board))))"


end
