(* ===== verification/Topology.thy ===== *)
theory Topology
  imports StatusBoard
begin

text \<open>
  The graphs of the status board (\<^verbatim>\<open>tools/status-board/natviz.go\<close>, \<^verbatim>\<open>forcegraph.go\<close>): the nodes and edges that are
  handed to the page.  Reading the files, the encoder of JSON and the script in the browser are left out; the script
  drops an edge unless both its ends are nodes.
\<close>

subsection \<open>Graphs\<close>

record graph_node =
  gn_id :: string
  gn_label :: string
  gn_group :: string
  gn_sub :: string
  gn_class :: string

record graph_edge =
  ge_source :: string
  ge_target :: string
  ge_style :: string
  ge_label :: string

type_synonym graph = "graph_node list \<times> graph_edge list"

definition node_ids :: "graph \<Rightarrow> string set" where
  "node_ids g = gn_id ` set (fst g)"

definition add_node :: "string \<Rightarrow> string \<Rightarrow> string \<Rightarrow> string \<Rightarrow> string \<Rightarrow> graph \<Rightarrow> graph" where
  "add_node i lbl grp sub cls g =
     (if i \<in> node_ids g then g
      else (fst g @ [\<lparr>gn_id = i, gn_label = lbl, gn_group = grp, gn_sub = sub, gn_class = cls\<rparr>], snd g))"

definition add_edge :: "string \<Rightarrow> string \<Rightarrow> string \<Rightarrow> string \<Rightarrow> graph \<Rightarrow> graph" where
  "add_edge s t style lbl g = (fst g, snd g @ [\<lparr>ge_source = s, ge_target = t, ge_style = style, ge_label = lbl\<rparr>])"

text \<open>No node is there twice, and each edge joins two nodes.\<close>

definition closed_graph :: "graph \<Rightarrow> bool" where
  "closed_graph g \<longleftrightarrow> distinct (map gn_id (fst g)) \<and> ge_source ` set (snd g) \<subseteq> node_ids g \<and> ge_target ` set (snd g) \<subseteq> node_ids g"

lemma node_ids_add [simp]: "node_ids (add_node i l gr s c g) = insert i (node_ids g)" "node_ids (add_edge a b st lb g) = node_ids g"
  by (auto simp: node_ids_def add_node_def add_edge_def)

lemma closed_add_node [simp]: "closed_graph g \<Longrightarrow> closed_graph (add_node i l gr s c g)"
  by (auto simp: closed_graph_def add_node_def node_ids_def)

lemma closed_add_edge [simp]: "closed_graph g \<Longrightarrow> a \<in> node_ids g \<Longrightarrow> b \<in> node_ids g \<Longrightarrow> closed_graph (add_edge a b st lb g)"
  by (auto simp: closed_graph_def add_edge_def node_ids_def)

lemma closed_empty [simp]: "closed_graph ([], [])"
  by (simp add: closed_graph_def)

text \<open>What is shown stays when more is added.\<close>

lemma closed_fold:
  assumes "closed_graph g" "S \<subseteq> node_ids g"
    and "\<And>x g. x \<in> set xs \<Longrightarrow> closed_graph g \<Longrightarrow> S \<subseteq> node_ids g \<Longrightarrow> closed_graph (f x g) \<and> node_ids g \<subseteq> node_ids (f x g)"
  shows "closed_graph (fold f xs g) \<and> node_ids g \<subseteq> node_ids (fold f xs g)"
  using assms
proof (induction xs arbitrary: g)
  case (Cons x xs)
  have "closed_graph (f x g) \<and> node_ids g \<subseteq> node_ids (f x g)" using Cons.prems by simp
  moreover from this Cons.prems(2) have "S \<subseteq> node_ids (f x g)" by blast
  ultimately show ?case using Cons.IH [of "f x g"] Cons.prems(3) by fastforce
qed simp

subsection \<open>The graph of the address translation\<close>

record nat_flow =
  nf_name :: string
  nf_proto :: string
  nf_dport :: int
  nf_dest :: string
  nf_hairpin :: bool
  nf_snat_return :: bool

record nat_config =
  nc_public_ip :: string
  nc_vm_subnet :: string
  nc_external_iface :: string
  nc_bridge :: string
  nc_flows :: "nat_flow list"

definition dest_parts :: "string \<Rightarrow> string \<times> string" where
  "dest_parts dest = (case cut_at (CHR '':'') dest of None \<Rightarrow> (dest, []) | Some (ip, port) \<Rightarrow> (ip, port))"

definition nat_base :: "nat_config \<Rightarrow> graph" where
  "nat_base c =
     (add_edge ''prerouting'' ''bridge'' [] [] \<circ> add_edge ''iface'' ''prerouting'' [] [] \<circ> add_edge ''client'' ''iface'' [] []
      \<circ> add_node ''subnet'' ''VM subnet'' ''subnet'' (nc_vm_subnet c) []
      \<circ> add_node ''bridge'' (nc_bridge c) ''bridge'' [] []
      \<circ> add_node ''prerouting'' ''PREROUTING'' ''chain'' ''DNAT'' []
      \<circ> add_node ''iface'' (nc_external_iface c) ''iface'' (nc_public_ip c) []
      \<circ> add_node ''client'' ''client'' ''external'' ''internet'' []) ([], [])"

definition nat_flow_edges :: "nat_flow \<Rightarrow> graph \<Rightarrow> graph" where
  "nat_flow_edges f g0 =
     (case dest_parts (nf_dest f) of (ip, port) \<Rightarrow>
        let flow = ''flow:'' @ nf_name f; dest = ''dest:'' @ ip;
            g1 = add_node flow (nf_name f) ''flow'' ('':'' @ itoa (nf_dport f) @ ''/'' @ nf_proto f) [] g0;
            g2 = add_node dest ip ''backend'' ('':'' @ port) [] g1;
            g3 = add_edge ''bridge'' dest [] [] (add_edge flow dest ''dnat'' (nf_dest f) (add_edge ''prerouting'' flow [] [] g2));
            g4 = (if nf_hairpin f then add_edge ''subnet'' flow ''hairpin'' ''hairpin'' g3 else g3)
        in if nf_snat_return f then add_edge dest ''iface'' ''snat'' ''SNAT'' g4 else g4)"

definition build_nat_graph :: "nat_config \<Rightarrow> graph" where
  "build_nat_graph c = fold nat_flow_edges (nc_flows c) (nat_base c)"

lemma nat_base_closed: "closed_graph (nat_base c) \<and> {''prerouting'', ''bridge'', ''subnet'', ''iface''} \<subseteq> node_ids (nat_base c)"
  by (simp add: nat_base_def)

lemma nat_flow_closed:
  assumes "closed_graph g" "{''prerouting'', ''bridge'', ''subnet'', ''iface''} \<subseteq> node_ids g"
  shows "closed_graph (nat_flow_edges f g) \<and> insert (''flow:'' @ nf_name f) (node_ids g) \<subseteq> node_ids (nat_flow_edges f g)"
  using assms by (auto simp: nat_flow_edges_def Let_def split: prod.split)

text \<open>
  Nothing is lost from the graph of the address translation: whatever flows are configured, no node is there twice, and
  both ends of each edge are nodes, so the page shows all of it.
\<close>

theorem nat_graph_closed:
  "distinct (map gn_id (fst (build_nat_graph c)))
   \<and> set (map ge_source (snd (build_nat_graph c)) @ map ge_target (snd (build_nat_graph c)))
       \<union> (\<lambda>f. ''flow:'' @ nf_name f) ` set (nc_flows c) \<subseteq> set (map gn_id (fst (build_nat_graph c)))"
proof -
  let ?S = "{''prerouting'', ''bridge'', ''subnet'', ''iface''}"
  have "closed_graph (fold nat_flow_edges fs g) \<and> node_ids g \<subseteq> node_ids (fold nat_flow_edges fs g)
      \<and> (\<lambda>f. ''flow:'' @ nf_name f) ` set fs \<subseteq> node_ids (fold nat_flow_edges fs g)"
    if "closed_graph g" "?S \<subseteq> node_ids g" for fs g
    using that
  proof (induction fs arbitrary: g)
    case (Cons f fs)
    note step = nat_flow_closed [OF Cons.prems, of f]
    have "?S \<subseteq> node_ids (nat_flow_edges f g)" using step Cons.prems(2) by blast
    from Cons.IH [OF _ this] step show ?case by auto
  qed simp
  from this [of "nat_base c" "nc_flows c"] nat_base_closed [of c] show ?thesis
    by (simp add: closed_graph_def node_ids_def build_nat_graph_def)
qed

subsection \<open>The graph of the machines\<close>

record vm_entry =
  ve_name :: string
  ve_ip :: string
  ve_bridge :: string
  ve_ports :: "int list"

record rel_entry =
  re_from :: string
  re_to :: string
  re_kind :: string

record ingress_entry =
  ig_host :: string
  ig_vm :: string
  ig_service :: string
  ig_port :: int
  ig_tls :: bool

record graph_payload =
  gp_vms :: "vm_entry list"
  gp_relationships :: "rel_entry list"
  gp_ingress :: "ingress_entry list"
  gp_external_ip :: string

text \<open>Of two machines of one name the later counts.\<close>

definition vm_class :: "vm_stat list \<Rightarrow> string \<Rightarrow> string" where
  "vm_class vms name =
     (case find (\<lambda>v. vm_name (vs_vm v) = name) (rev vms) of
        None \<Rightarrow> ''warn''
      | Some v \<Rightarrow>
          if vs_probes v \<noteq> [] then (if list_all pb_up (vs_probes v) then ''ok'' else ''bad'')
          else if vs_reachable v then ''warn'' else ''bad'')"

definition vm_id :: "string \<Rightarrow> string" where
  "vm_id name = ''vm:'' @ name"

definition port_id :: "string \<Rightarrow> int \<Rightarrow> string" where
  "port_id name port = ''port:'' @ name @ '':'' @ itoa port"

definition port_node :: "string \<Rightarrow> int \<Rightarrow> graph \<Rightarrow> graph" where
  "port_node name port g = add_node (port_id name port) ('':'' @ itoa port) ''port'' [] [] g"

definition add_vm :: "vm_stat list \<Rightarrow> vm_entry \<Rightarrow> graph \<Rightarrow> graph" where
  "add_vm vms v g0 =
     (let i = vm_id (ve_name v); br = ''br:'' @ ve_bridge v;
          g1 = add_node i (ve_name v) ''vm'' (ve_ip v) (vm_class vms (ve_name v)) g0;
          g2 = add_edge br i [] [] (add_node br (ve_bridge v) ''bridge'' [] [] g1)
      in fold (\<lambda>p g. add_edge i (port_id (ve_name v) p) [] [] (port_node (ve_name v) p g)) (ve_ports v) g2)"

definition add_ingress :: "string \<Rightarrow> ingress_entry \<Rightarrow> graph \<Rightarrow> graph" where
  "add_ingress pub ing g0 =
     (let host = ''host:'' @ ig_host ing; style = (if ig_tls ing then ''tls'' else ''bypass'');
          g1 = add_node host (ig_host ing) ''dns'' [] [] g0; vm = ig_vm ing; port = port_id vm (ig_port ing)
      in if ig_tls ing then
           (let hop = (if vm = ''medano'' then ''host:medano'' else vm_id ''naraj'');
                g2 = add_edge ''if:eno1'' hop style [] (add_edge pub ''if:eno1'' style [] (add_edge host pub style [] g1));
                g3 = (if vm \<noteq> ''naraj'' \<and> vm \<noteq> ''medano'' then add_edge hop (vm_id vm) style [] g2 else g2)
            in if vm = ''medano'' then add_edge ''host:medano'' port style [] (port_node vm (ig_port ing) g3)
               else add_edge (vm_id vm) port style (ig_service ing) g3)
         else add_edge (vm_id vm) port style (ig_service ing)
                (add_edge ''if:tailscale0'' (vm_id vm) style [] (add_edge host ''if:tailscale0'' style [] g1)))"

definition add_relationship :: "rel_entry \<Rightarrow> graph \<Rightarrow> graph" where
  "add_relationship r g =
     (let src = (if re_from r = ''medano'' then ''host:medano'' else vm_id (re_from r));
          dst = (if re_to r = ''storagebox'' then ''ext:storagebox''
                 else if re_to r = ''medano'' then ''host:medano'' else vm_id (re_to r))
      in add_edge src dst (re_kind r) (re_kind r) g)"

definition force_base :: graph where
  "force_base = add_node ''host:medano'' ''medano'' ''vm'' ''host'' ''ok'' (add_node ''ext'' ''internet'' ''external'' [] [] ([], []))"

definition force_uplink :: "string \<Rightarrow> graph \<Rightarrow> graph" where
  "force_uplink ip g0 =
     (let pub = ''ip:'' @ ip;
          g1 = add_node ''if:eno1'' ''eno1'' ''iface'' [] [] (add_node pub ip ''ip'' [] [] g0)
      in add_node ''if:tailscale0'' ''tailscale0'' ''iface'' [] []
           (add_edge ''if:eno1'' ''host:medano'' [] [] (add_edge pub ''if:eno1'' [] [] (add_edge ''ext'' pub [] [] g1))))"

definition build_force_graph :: "vm_stat list \<Rightarrow> graph_payload \<Rightarrow> graph" where
  "build_force_graph vms p =
     (let g1 = fold (add_vm vms) (gp_vms p) force_base;
          g2 = fold (add_ingress (''ip:'' @ gp_external_ip p)) (gp_ingress p) (force_uplink (gp_external_ip p) g1);
          g3 = add_node ''ext:storagebox'' ''storagebox'' ''external'' ''u331921@hetzner'' [] g2
      in fold add_relationship (gp_relationships p) g3)"

subsection \<open>What the graph of the machines shows\<close>

text \<open>The names and ports that ways in and relations are about are those of machines that are listed.\<close>

definition port_listed :: "graph_payload \<Rightarrow> string \<Rightarrow> int \<Rightarrow> bool" where
  "port_listed p name port \<longleftrightarrow> list_ex (\<lambda>v. ve_name v = name \<and> port \<in> set (ve_ports v)) (gp_vms p)"

definition name_listed :: "graph_payload \<Rightarrow> string \<Rightarrow> bool" where
  "name_listed p name \<longleftrightarrow> name \<in> ve_name ` set (gp_vms p)"

definition ingress_known :: "graph_payload \<Rightarrow> ingress_entry \<Rightarrow> bool" where
  "ingress_known p ing \<longleftrightarrow>
     (if ig_tls ing then ig_vm ing = ''medano'' \<or> name_listed p ''naraj'' \<and> port_listed p (ig_vm ing) (ig_port ing)
      else port_listed p (ig_vm ing) (ig_port ing))"

definition rel_known :: "graph_payload \<Rightarrow> rel_entry \<Rightarrow> bool" where
  "rel_known p r \<longleftrightarrow> (re_from r = ''medano'' \<or> name_listed p (re_from r)) \<and> (re_to r \<in> {''medano'', ''storagebox''} \<or> name_listed p (re_to r))"

definition vm_node_ids :: "vm_entry \<Rightarrow> string set" where
  "vm_node_ids v = insert (vm_id (ve_name v)) (port_id (ve_name v) ` set (ve_ports v))"

lemma add_ports_closed:
  assumes "closed_graph g" "i \<in> node_ids g"
  shows "closed_graph (fold (\<lambda>p g. add_edge i (port_id name p) [] [] (port_node name p g)) ps g)
     \<and> node_ids (fold (\<lambda>p g. add_edge i (port_id name p) [] [] (port_node name p g)) ps g) = node_ids g \<union> port_id name ` set ps"
  using assms by (induction ps arbitrary: g) (auto simp: port_node_def)

lemma add_vm_closed:
  assumes "closed_graph g"
  shows "closed_graph (add_vm vms v g) \<and> node_ids g \<union> vm_node_ids v \<subseteq> node_ids (add_vm vms v g)"
  using assms by (auto simp: add_vm_def Let_def vm_node_ids_def add_ports_closed)

lemma add_vms_closed:
  "closed_graph g \<Longrightarrow> closed_graph (fold (add_vm vms) vs g) \<and> node_ids g \<union> (\<Union>v\<in>set vs. vm_node_ids v) \<subseteq> node_ids (fold (add_vm vms) vs g)"
proof (induction vs arbitrary: g)
  case (Cons v vs)
  note step = add_vm_closed [OF Cons.prems, of vms v]
  from Cons.IH [of "add_vm vms v g"] step show ?case
    unfolding fold_simps list.set(2) UN_insert by blast
qed simp

definition shown_ids :: "graph_payload \<Rightarrow> string set" where
  "shown_ids p = {''host:medano'', ''ip:'' @ gp_external_ip p, ''if:eno1'', ''if:tailscale0''} \<union> (\<Union>v\<in>set (gp_vms p). vm_node_ids v)"

lemma listed_shown:
  "name_listed p name \<Longrightarrow> vm_id name \<in> shown_ids p"
  "port_listed p name port \<Longrightarrow> port_id name port \<in> shown_ids p"
  "port_listed p name port \<Longrightarrow> vm_id name \<in> shown_ids p"
  by (auto simp: name_listed_def port_listed_def shown_ids_def vm_node_ids_def list_ex_iff)

lemma add_ingress_closed:
  assumes "closed_graph g" "shown_ids p \<subseteq> node_ids g" "ingress_known p ing"
  shows "closed_graph (add_ingress (''ip:'' @ gp_external_ip p) ing g)
    \<and> node_ids g \<subseteq> node_ids (add_ingress (''ip:'' @ gp_external_ip p) ing g)"
proof -
  have base: "{''host:medano'', ''ip:'' @ gp_external_ip p, ''if:eno1'', ''if:tailscale0''} \<subseteq> node_ids g"
    using assms(2) by (auto simp: shown_ids_def)
  show ?thesis
  proof (cases "ig_tls ing \<and> ig_vm ing = ''medano''")
    case False
    with assms(3) have "port_listed p (ig_vm ing) (ig_port ing)" "ig_tls ing \<Longrightarrow> name_listed p ''naraj''"
      by (auto simp: ingress_known_def split: if_splits)
    with listed_shown assms(2) have "vm_id (ig_vm ing) \<in> node_ids g" "port_id (ig_vm ing) (ig_port ing) \<in> node_ids g"
      "ig_tls ing \<Longrightarrow> vm_id ''naraj'' \<in> node_ids g" by blast+
    with base assms(1) False show ?thesis by (auto simp: add_ingress_def Let_def)
  qed (use base assms(1) in \<open>auto simp: add_ingress_def Let_def port_node_def\<close>)
qed

lemma add_relationship_closed:
  assumes "closed_graph g" "insert ''ext:storagebox'' (shown_ids p) \<subseteq> node_ids g" "rel_known p r"
  shows "closed_graph (add_relationship r g) \<and> node_ids g \<subseteq> node_ids (add_relationship r g)"
proof -
  have "''host:medano'' \<in> shown_ids p" by (simp add: shown_ids_def)
  with assms(2) have m: "''host:medano'' \<in> node_ids g" "''ext:storagebox'' \<in> node_ids g" by auto
  have "vm_id name \<in> node_ids g" if "name_listed p name" for name using listed_shown(1) [OF that] assms(2) by blast
  with m assms(1,3) show ?thesis by (auto simp: add_relationship_def Let_def rel_known_def)
qed

text \<open>
  Nothing is lost from the graph of the machines either, where the ways in and the relations are about machines and ports that
  are listed: no node is there twice, both ends of each edge are nodes, and so is every machine with its ports.
\<close>

theorem force_graph_closed:
  assumes "list_all (ingress_known p) (gp_ingress p)" "list_all (rel_known p) (gp_relationships p)"
  shows "distinct (map gn_id (fst (build_force_graph vms p)))
   \<and> set (map ge_source (snd (build_force_graph vms p)) @ map ge_target (snd (build_force_graph vms p)))
       \<union> (\<Union>v\<in>set (gp_vms p). vm_node_ids v) \<subseteq> set (map gn_id (fst (build_force_graph vms p)))"
proof -
  define g1 where "g1 = force_uplink (gp_external_ip p) (fold (add_vm vms) (gp_vms p) force_base)"
  define g2 where "g2 = fold (add_ingress (''ip:'' @ gp_external_ip p)) (gp_ingress p) g1"
  define g3 where "g3 = add_node ''ext:storagebox'' ''storagebox'' ''external'' ''u331921@hetzner'' [] g2"
  have b: "closed_graph force_base" "{''ext'', ''host:medano''} \<subseteq> node_ids force_base"
    by (simp_all add: force_base_def closed_graph_def node_ids_def add_node_def)
  define g0 where "g0 = fold (add_vm vms) (gp_vms p) force_base"
  have 0: "closed_graph g0" "''ext'' \<in> node_ids g0" "''host:medano'' \<in> node_ids g0" "(\<Union>v\<in>set (gp_vms p). vm_node_ids v) \<subseteq> node_ids g0"
    using add_vms_closed [OF b(1), of vms "gp_vms p"] b(2) unfolding g0_def by blast+
  have "closed_graph g1" unfolding g1_def g0_def [symmetric] force_uplink_def Let_def using 0
    by (intro closed_add_node closed_add_edge) simp_all
  moreover have "node_ids g1 = node_ids g0 \<union> {''ip:'' @ gp_external_ip p, ''if:eno1'', ''if:tailscale0''}"
    unfolding g1_def g0_def [symmetric] force_uplink_def Let_def by auto
  ultimately have 1: "closed_graph g1 \<and> shown_ids p \<subseteq> node_ids g1" using 0 unfolding shown_ids_def by blast
  have 2: "closed_graph g2 \<and> node_ids g1 \<subseteq> node_ids g2"
    unfolding g2_def using 1 assms(1) by (intro closed_fold [of _ "shown_ids p"] add_ingress_closed) (auto simp: list_all_iff)
  then have 3: "closed_graph g3 \<and> insert ''ext:storagebox'' (shown_ids p) \<subseteq> node_ids g3" using 1 by (auto simp: g3_def)
  have "closed_graph (fold add_relationship (gp_relationships p) g3) \<and> node_ids g3 \<subseteq> node_ids (fold add_relationship (gp_relationships p) g3)"
    using 3 assms(2) by (intro closed_fold [of _ "insert ''ext:storagebox'' (shown_ids p)"] add_relationship_closed) (auto simp: list_all_iff)
  then have "closed_graph (build_force_graph vms p)" "node_ids g3 \<subseteq> node_ids (build_force_graph vms p)"
    by (simp_all add: build_force_graph_def g3_def g2_def g1_def Let_def)
  moreover from this 3 have "(\<Union>v\<in>set (gp_vms p). vm_node_ids v) \<subseteq> node_ids (build_force_graph vms p)"
    unfolding shown_ids_def by blast
  ultimately show ?thesis by (simp add: closed_graph_def node_ids_def)
qed

definition small_net :: graph_payload where
  "small_net = \<lparr>gp_vms = [\<lparr>ve_name = ''naraj'', ve_ip = ''10.0.0.2'', ve_bridge = ''br0'', ve_ports = [443]\<rparr>,
       \<lparr>ve_name = ''git'', ve_ip = ''10.0.0.3'', ve_bridge = ''br0'', ve_ports = [22, 3000]\<rparr>],
     gp_relationships = [\<lparr>re_from = ''git'', re_to = ''storagebox'', re_kind = ''restic''\<rparr>],
     gp_ingress = [\<lparr>ig_host = ''git.example'', ig_vm = ''git'', ig_service = ''git'', ig_port = 3000, ig_tls = True\<rparr>],
     gp_external_ip = ''192.0.2.1''\<rparr>"

lemma force_graph_closed_witness:
  "set (map ge_target (snd (build_force_graph [] small_net))) \<subseteq> set (map gn_id (fst (build_force_graph [] small_net)))"
proof -
  have "list_all (ingress_known small_net) (gp_ingress small_net)" "list_all (rel_known small_net) (gp_relationships small_net)"
    by (simp_all add: small_net_def ingress_known_def rel_known_def name_listed_def port_listed_def)
  from force_graph_closed [OF this, of "[]"] show ?thesis by auto
qed

text \<open>
  A way into the host itself that does not end in TLS is lost: its edges go to a node for a machine of that name, and there is none.
\<close>

definition host_way_in :: graph_payload where
  "host_way_in = \<lparr>gp_vms = [], gp_relationships = [],
     gp_ingress = [\<lparr>ig_host = ''status'', ig_vm = ''medano'', ig_service = ''status'', ig_port = 8080, ig_tls = False\<rparr>],
     gp_external_ip = ''192.0.2.1''\<rparr>"

lemma host_ingress_lost:
  "''vm:medano'' \<in> ge_target ` set (snd (build_force_graph [] host_way_in)) \<and> ''vm:medano'' \<notin> gn_id ` set (fst (build_force_graph [] host_way_in))"
  by (simp add: build_force_graph_def host_way_in_def force_base_def force_uplink_def add_ingress_def add_edge_def add_node_def node_ids_def Let_def vm_id_def)

end
