(* ===== verification/Hitm.thy ===== *)
theory Hitm
  imports GoStrconv
begin

text \<open>
  The parts of the intercepting proxy (\<^verbatim>\<open>users/hanemile/projects/go/hitm/main.go\<close>) that keep state or take texts apart:
  the flows of a listener and how old ones leave, requests typed by hand, the files of certificates, the choice of a
  listener, lists of words, and the pages of results.  Numbers of flows and jobs do not come near \<open>2 ^ 64\<close>.
\<close>

subsection \<open>Flows\<close>

definition max_flows :: nat where
  "max_flows = 10000"

type_synonym 'f flows = "(nat \<times> 'f) list"

text \<open>
  One call removes one flow: the first the cursor finds, which goes up from where it was, or the one with the
  smallest number once the cursor has passed the counter.  The result is the cursor and the flows that are left.
\<close>

function evict_from :: "nat \<Rightarrow> nat \<Rightarrow> 'f flows \<Rightarrow> nat \<times> 'f flows" where
  "evict_from counter cur fs =
     (if cur \<in> fst ` set fs then (cur + 1, AList.delete cur fs)
      else if cur + 1 > counter
      then (if fs = [] then (cur + 1, fs) else (let m = Min (fst ` set fs) in (m + 1, AList.delete m fs)))
      else evict_from counter (cur + 1) fs)"
  by pat_completeness auto
termination
  by (relation "measure (\<lambda>(counter, cur, fs). counter - cur)") auto

declare evict_from.simps [simp del]

record 'f listener_flows =
  lf_flows :: "'f flows"
  lf_next :: nat

definition evict_old_flows :: "nat \<Rightarrow> 'f listener_flows \<Rightarrow> 'f listener_flows" where
  "evict_old_flows counter l =
     (if length (lf_flows l) \<le> max_flows then l
      else (case evict_from counter (lf_next l) (lf_flows l) of (cur, fs) \<Rightarrow> l\<lparr>lf_flows := fs, lf_next := cur\<rparr>))"

text \<open>A flow is entered when its request comes in; the counter, which all listeners share, may be ahead by then.\<close>

definition add_flow :: "nat \<Rightarrow> nat \<Rightarrow> 'f \<Rightarrow> 'f listener_flows \<Rightarrow> 'f listener_flows" where
  "add_flow counter i f l = evict_old_flows counter (l\<lparr>lf_flows := AList.update i f (lf_flows l)\<rparr>)"

definition no_flows :: "'f listener_flows" where
  "no_flows = \<lparr>lf_flows = [], lf_next = 0\<rparr>"

definition flows_after :: "(nat \<times> nat \<times> 'f) list \<Rightarrow> 'f listener_flows" where
  "flows_after arrivals = foldl (\<lambda>l (counter, i, f). add_flow counter i f l) no_flows arrivals"

text \<open>What \<^verbatim>\<open>/history\<close> lists: the flows, and those of earlier runs that are not among them.\<close>

definition history :: "'f flows \<Rightarrow> 'f flows \<Rightarrow> 'f flows" where
  "history live persisted = live @ filter (\<lambda>(i, f). i \<notin> fst ` set live) persisted"

definition flow_by_id :: "'f flows \<Rightarrow> 'f flows \<Rightarrow> nat \<Rightarrow> 'f option" where
  "flow_by_id live persisted i = (case map_of live i of Some f \<Rightarrow> Some f | None \<Rightarrow> map_of persisted i)"

subsection \<open>Requests typed by hand\<close>

definition trim_right_of :: "char set \<Rightarrow> string \<Rightarrow> string" where
  "trim_right_of cs s = rev (dropWhile (\<lambda>c. c \<in> cs) (rev s))"

definition head_and_body :: "string \<Rightarrow> string \<times> string" where
  "head_and_body raw = (case index_of raw [LF, LF] of
     Some i \<Rightarrow> (take i raw, drop (i + 2) raw) | None \<Rightarrow> (trim_right_of {LF} raw, []))"

definition normalize_raw_request :: "string \<Rightarrow> string" where
  "normalize_raw_request raw0 =
     (let raw = replace_all [CR] [LF] (replace_all [CR, LF] [LF] raw0) in
      case head_and_body raw of (head, body) \<Rightarrow>
        join_with [CR, LF] (map (trim_right_of {CHR '' '', TAB}) (split_on LF head)) @ [CR, LF, CR, LF] @ body)"

subsection \<open>Certificates\<close>

definition name_char :: "char \<Rightarrow> bool" where
  "name_char c \<longleftrightarrow> is_alnum c \<or> c = CHR ''-''"

text \<open>Each run of other characters becomes one dash.\<close>

function clean :: "string \<Rightarrow> string" where
  "clean s =
     (case s of
        [] \<Rightarrow> []
      | c # cs \<Rightarrow> if name_char c then c # clean cs else CHR ''-'' # clean (dropWhile (\<lambda>x. \<not> name_char x) cs))"
  by pat_completeness auto
termination
  by (relation "measure length") (auto simp: le_imp_less_Suc length_dropWhile_le)

declare clean.simps [simp del]

definition key_file_path :: "string \<Rightarrow> string \<Rightarrow> string \<Rightarrow> bool \<Rightarrow> string" where
  "key_file_path dir common host is_ca =
     dir @ ''/'' @ clean common @ ''-'' @ (if is_ca then ''ca-key.pem'' else clean host @ ''-key.pem'')"

definition cert_file_path :: "string \<Rightarrow> string \<Rightarrow> string \<Rightarrow> bool \<Rightarrow> string" where
  "cert_file_path dir common host is_ca =
     dir @ ''/'' @ clean common @ ''-'' @ (if is_ca then ''ca-cert.pem'' else clean host @ ''-cert.pem'')"

text \<open>
  A certificate as far as the program chooses it.  The files hold them by their paths; a file without a PEM block is
  None, and one that has a block is taken to hold a certificate.  A new certificate is for the host, or for the common name where there is no host.
\<close>

record cert =
  ct_common :: string
  ct_dns :: "string list"
  ct_is_ca :: bool
  ct_key :: string
  ct_signer :: string

record hitm_certs =
  hc_certs :: "(string \<times> cert option) list"
  hc_keys :: "(string \<times> string option) list"
  hc_ca :: "(cert \<times> string) option"

datatype cert_result = Cert_error string | Cert_given cert string

definition read_or_make_key :: "string \<Rightarrow> string \<Rightarrow> hitm_certs \<Rightarrow> string option \<times> hitm_certs" where
  "read_or_make_key path fresh h =
     (case map_of (hc_keys h) path of
        None \<Rightarrow> (Some fresh, h\<lparr>hc_keys := AList.update path (Some fresh) (hc_keys h)\<rparr>)
      | Some k \<Rightarrow> (k, h))"

definition ensure_cert :: "string \<Rightarrow> string \<Rightarrow> string \<Rightarrow> string \<Rightarrow> bool \<Rightarrow> hitm_certs \<Rightarrow> cert_result \<times> hitm_certs" where
  "ensure_cert dir fresh host common is_ca h0 =
     (case read_or_make_key (key_file_path dir common host is_ca) fresh h0 of
        (None, h) \<Rightarrow> (Cert_error ''failed to generate or read private key'', h)
      | (Some key, h) \<Rightarrow>
          (let path = cert_file_path dir common host is_ca; keep = (\<lambda>c h. if is_ca then h\<lparr>hc_ca := Some (c, key)\<rparr> else h);
               make = (\<lambda>c. (Cert_given c key, keep c (h\<lparr>hc_certs := AList.update path (Some c) (hc_certs h)\<rparr>)));
               name = (if host = [] then common else host)
           in (case map_of (hc_certs h) path of
                 Some (Some c) \<Rightarrow> (Cert_given c key, keep c h)
               | _ \<Rightarrow>
                   if is_ca then make \<lparr>ct_common = common, ct_dns = [], ct_is_ca = True, ct_key = key, ct_signer = key\<rparr>
                   else (case hc_ca h of
                       None \<Rightarrow> (Cert_error ''root CA not initialized'', h)
                     | Some (ca, ca_key) \<Rightarrow>
                         make \<lparr>ct_common = name, ct_dns = [name], ct_is_ca = False, ct_key = key, ct_signer = ca_key\<rparr>))))"

text \<open>\<^verbatim>\<open>filepath.Base\<close>: what is after the last slash, not counting slashes at the end.\<close>

definition base_name :: "string \<Rightarrow> string" where
  "base_name s =
     (let t = trim_right_of {CHR ''/''} s in
      if s = [] then ''.'' else if t = [] then ''/'' else last (split_on (CHR ''/'') t))"

definition ca_download :: "string \<Rightarrow> string option" where
  "ca_download name = (let safe = base_name name in if contains safe ''key'' then None else Some safe)"

definition ca_list :: "(string \<times> bool) list \<Rightarrow> string list" where
  "ca_list entries = map fst (filter (\<lambda>(name, is_dir). \<not> is_dir \<and> has_suffix name ''-cert.pem'') entries)"

subsection \<open>Listeners and jobs\<close>

text \<open>The listeners by their keys, each with the host it listens on, in the order in which the map is gone through.\<close>

definition get_listener :: "(string \<times> string) list \<Rightarrow> string \<Rightarrow> string option" where
  "get_listener ls name =
     (let fallback = map_option fst (find (\<lambda>(k, host). host \<noteq> ''127.0.0.1:8080'' \<and> host \<noteq> ''0.0.0.0:8080'') ls) in
      if name \<noteq> [] \<and> name \<in> fst ` set ls then Some name
      else if name \<noteq> [] \<and> \<not> has_prefix name ''http'' \<and> ''http://'' @ name \<in> fst ` set ls then Some (''http://'' @ name)
      else fallback)"

definition restored_counter :: "nat \<Rightarrow> nat \<Rightarrow> nat" where
  "restored_counter counter highest = (if highest > counter then highest else counter)"

definition wordlist :: "string \<Rightarrow> string list" where
  "wordlist body = filter (\<lambda>l. l \<noteq> [] \<and> \<not> has_prefix l ''#'') (map trim_space (split_on LF body))"

text \<open>A page of the results of a job; None is a panic, after which their mutex is never free again.\<close>

definition results_number :: "(string \<times> string) list \<Rightarrow> string \<Rightarrow> int \<Rightarrow> int \<Rightarrow> int" where
  "results_number q name least other =
     (case map_of q name of
        None \<Rightarrow> other
      | Some s \<Rightarrow> if snd (atoi s) \<and> fst (atoi s) \<ge> least then fst (atoi s) else other)"

definition results_page :: "(string \<times> string) list \<Rightarrow> 'r list \<Rightarrow> 'r list option" where
  "results_page q rs =
     (let count = int (length rs); offset = results_number q ''offset'' 1 0; limit = results_number q ''limit'' 0 1000 in
      if ''offset'' \<notin> fst ` set q \<and> ''limit'' \<notin> fst ` set q \<and> count \<le> 1000 then Some rs
      else (let start = min offset count; e = wrap64 (start + limit); stop = min e count in
        if stop < start then None else Some (take (nat (stop - start)) (drop (nat start) rs))))"

subsection \<open>How many flows are kept\<close>

lemma delete_length: "distinct (map fst fs) \<Longrightarrow> k \<in> fst ` set fs \<Longrightarrow> Suc (length (AList.delete k fs)) = length fs"
proof (induction fs)
  case (Cons x fs)
  then show ?case by (cases x) (auto simp: image_iff)
qed simp

lemma evict_from_one:
  assumes "fs \<noteq> []"
  shows "\<exists>k\<in>fst ` set fs. snd (evict_from counter cur fs) = AList.delete k fs"
  using assms
proof (induction counter cur fs rule: evict_from.induct)
  case (1 counter cur fs)
  from 1(2) have "Min (fst ` set fs) \<in> fst ` set fs" by (intro Min_in) auto
  then obtain x where "x \<in> set fs" "Min (fst ` set fs) = fst x" by auto
  with 1 show ?case by (subst evict_from.simps) (auto simp: Let_def)
qed

definition flows_fit :: "'f listener_flows \<Rightarrow> bool" where
  "flows_fit l \<longleftrightarrow> distinct (map fst (lf_flows l)) \<and> length (lf_flows l) \<le> max_flows"

lemma update_length: "length (AList.update k v al) = (if k \<in> fst ` set al then length al else Suc (length al))"
  by (induction al) auto

lemma add_flow_fits:
  assumes "flows_fit l"
  shows "flows_fit (add_flow counter i f l)"
proof -
  let ?fs = "AList.update i f (lf_flows l)"
  have d: "distinct (map fst ?fs)" "length ?fs \<le> Suc max_flows"
    using assms by (auto simp: flows_fit_def distinct_update update_length)
  show ?thesis
  proof (cases "length ?fs \<le> max_flows")
    case False
    then have "?fs \<noteq> []" by auto
    then obtain k where k: "k \<in> fst ` set ?fs" "snd (evict_from counter (lf_next l) ?fs) = AList.delete k ?fs"
      using evict_from_one by blast
    with d(2) delete_length [OF d(1) k(1)] have "length (AList.delete k ?fs) \<le> max_flows" by linarith
    with False k d(1) show ?thesis
      by (simp add: flows_fit_def add_flow_def evict_old_flows_def distinct_delete case_prod_unfold)
  qed (use d in \<open>simp add: flows_fit_def add_flow_def evict_old_flows_def\<close>)
qed

text \<open>
  A listener keeps at most ten thousand flows, whatever requests come in, in whatever order their numbers are entered and
  wherever the counter is.
\<close>

theorem flows_bounded: "length (lf_flows (flows_after arrivals)) \<le> max_flows"
proof -
  have "flows_fit (foldl (\<lambda>l (counter, i, f). add_flow counter i f l) l arrivals)" if "flows_fit l" for l
    using that by (induction arrivals arbitrary: l) (auto simp: add_flow_fits)
  moreover have "flows_fit no_flows" by (simp add: flows_fit_def no_flows_def)
  ultimately show ?thesis unfolding flows_after_def flows_fit_def by blast
qed

subsection \<open>Which flows are kept\<close>

lemma evict_first: "cur \<le> k \<Longrightarrow> k \<le> counter \<Longrightarrow> sorted_wrt (<) (map fst ((k, f) # fs)) \<Longrightarrow>
    evict_from counter cur ((k, f) # fs) = (k + 1, fs)"
proof (induction "k - cur" arbitrary: cur)
  case 0
  then show ?case by (subst evict_from.simps) (auto simp: image_iff intro!: AList.delete_id)
next
  case (Suc n)
  then have "cur \<notin> fst ` set ((k, f) # fs)" "\<not> cur + 1 > counter" by auto
  then have "evict_from counter cur ((k, f) # fs) = evict_from counter (cur + 1) ((k, f) # fs)"
    by (subst evict_from.simps) (simp only: if_False)
  also have "\<dots> = (k + 1, fs)" using Suc by (intro Suc.hyps(1)) auto
  finally show ?case .
qed

lemma update_new: "k \<notin> fst ` set al \<Longrightarrow> AList.update k v al = al @ [(k, v)]"
  by (induction al) auto

text \<open>Requests that came in by now, with the counter as it was, leave the last of them; the cursor is not past the first.\<close>

definition newest_of :: "(nat \<times> nat \<times> 'f) list \<Rightarrow> 'f listener_flows \<Rightarrow> bool" where
  "newest_of xs l \<longleftrightarrow> lf_flows l = drop (length xs - max_flows) (map snd xs) \<and> (\<forall>k\<in>fst ` set (lf_flows l). lf_next l \<le> k)
     \<and> (lf_flows l = [] \<longrightarrow> lf_next l = 0)"

lemma newest_full:
  assumes "newest_of xs l" "max_flows \<le> length xs" "\<forall>k\<in>fst ` set (lf_flows l). k < i" "i \<le> counter"
    and "sorted_wrt (<) (map fst (lf_flows l @ [(i, f)]))"
  shows "newest_of (xs @ [(counter, i, f)]) (evict_old_flows counter (l\<lparr>lf_flows := lf_flows l @ [(i, f)]\<rparr>))"
proof -
  have len: "length (lf_flows l) = max_flows" using assms(1,2) by (simp add: newest_of_def)
  then obtain k g rest where fs: "lf_flows l = (k, g) # rest" by (cases "lf_flows l") (auto simp: max_flows_def)
  have "k < i" using assms(3) fs by simp
  moreover have "\<forall>k\<in>fst ` set (lf_flows l). lf_next l \<le> k" using assms(1) by (simp add: newest_of_def)
  ultimately have "k \<le> counter" "lf_next l \<le> k" using assms(4) fs by simp_all
  then have "evict_from counter (lf_next l) ((k, g) # rest @ [(i, f)]) = (k + 1, rest @ [(i, f)])"
    using assms(5) fs by (intro evict_first) auto
  then have "evict_old_flows counter (l\<lparr>lf_flows := lf_flows l @ [(i, f)]\<rparr>) = l\<lparr>lf_flows := rest @ [(i, f)], lf_next := k + 1\<rparr>"
    using len fs by (simp add: evict_old_flows_def)
  moreover have "rest @ [(i, f)] = drop (Suc (length xs) - max_flows) (map snd (xs @ [(counter, i, f)]))"
  proof -
    have "rest = drop (Suc (length xs - max_flows)) (map snd xs)"
      using assms(1) fs unfolding newest_of_def by (metis drop_Suc list.sel(3) tl_drop)
    moreover have "Suc (length xs - max_flows) = Suc (length xs) - max_flows" using assms(2) by (simp add: Suc_diff_le)
    moreover have "Suc (length xs) - max_flows \<le> length xs" by (simp add: max_flows_def)
    ultimately show ?thesis by simp
  qed
  moreover have "\<forall>j\<in>fst ` set (rest @ [(i, f)]). k + 1 \<le> j" using assms(5) fs by (auto simp: Suc_le_eq)
  moreover have "\<not> Suc (length xs) \<le> Suc (length xs) - max_flows" by (simp add: max_flows_def)
  ultimately show ?thesis unfolding newest_of_def by (simp del: drop_append map_append)
qed

lemma newest_step:
  assumes "newest_of xs l" "sorted_wrt (<) (map (\<lambda>x. fst (snd x)) (xs @ [(counter, i, f)]))" "i \<le> counter"
  shows "newest_of (xs @ [(counter, i, f)]) (add_flow counter i f l)"
proof -
  have keys: "map fst (lf_flows l) = drop (length xs - max_flows) (map (\<lambda>x. fst (snd x)) xs)"
    using assms(1) by (simp add: newest_of_def drop_map comp_def)
  have asc: "sorted_wrt (<) (map fst (lf_flows l @ [(i, f)]))"
    using assms(2) by (fastforce simp: keys sorted_wrt_append dest: in_set_dropD intro: sorted_wrt_drop)
  then have less: "\<forall>k\<in>fst ` set (lf_flows l). k < i" by (auto simp: sorted_wrt_append)
  then have new: "AList.update i f (lf_flows l) = lf_flows l @ [(i, f)]" by (intro update_new) auto
  show ?thesis
  proof (cases "length xs < max_flows")
    case True
    have "\<forall>k\<in>fst ` set (lf_flows l). lf_next l \<le> k" "lf_flows l = [] \<longrightarrow> lf_next l = 0"
      using assms(1) by (simp_all add: newest_of_def)
    then have "lf_next l \<le> i" using less by (cases "lf_flows l") auto
    moreover have "lf_flows l = map snd xs" using True assms(1) by (simp add: newest_of_def)
    moreover have "\<forall>k\<in>fst ` set (lf_flows l). lf_next l \<le> k" using assms(1) by (simp add: newest_of_def)
    moreover have "add_flow counter i f l = l\<lparr>lf_flows := lf_flows l @ [(i, f)]\<rparr>"
      unfolding add_flow_def new using True calculation(2) by (simp add: evict_old_flows_def)
    ultimately show ?thesis using True by (auto simp: newest_of_def)
  qed (use newest_full [OF assms(1) _ less assms(3) asc] in \<open>simp add: add_flow_def new\<close>)
qed

text \<open>
  C26. It is the oldest flow that leaves: where the requests of a listener are entered in the order of their numbers, the
  flows are the last ten thousand, in this order.
\<close>

theorem newest_flows_kept:
  assumes "sorted_wrt (<) (map (\<lambda>x. fst (snd x)) arrivals)" "\<forall>x\<in>set arrivals. fst (snd x) \<le> fst x"
  shows "lf_flows (flows_after arrivals) = drop (length arrivals - max_flows) (map snd arrivals)"
proof -
  have "newest_of arrivals (flows_after arrivals)"
    using assms
  proof (induction arrivals rule: rev_induct)
    case Nil
    show ?case by (simp add: flows_after_def no_flows_def newest_of_def)
  next
    case (snoc x xs)
    then have "newest_of xs (flows_after xs)" by (simp add: sorted_wrt_append)
    then show ?case using newest_step [of xs "flows_after xs" "fst x" "fst (snd x)" "snd (snd x)"] snoc.prems
      by (simp add: flows_after_def case_prod_unfold)
  qed
  then show ?thesis by (simp add: newest_of_def)
qed

text \<open>Three requests, one of which came with the counter ahead.\<close>

lemma newest_flows_kept_witness: "lf_flows (flows_after [(1, 1, ''a''), (4, 2, ''b''), (5, 5, ''c'')]) = [(1, ''a''), (2, ''b''), (5, ''c'')]"
  using newest_flows_kept [of "[(1, 1, ''a''), (4, 2, ''b''), (5, 5, ''c'')]"] by (simp add: max_flows_def)

subsection \<open>Pages of results\<close>

lemma wrap64_over: "max_int64 < x \<Longrightarrow> x \<le> 2 * max_int64 \<Longrightarrow> wrap64 x < 0"
proof -
  assume x: "max_int64 < x" "x \<le> 2 * max_int64"
  have "(x + 2 ^ 63) mod 2 ^ 64 = (x - 2 ^ 63 + 2 ^ 64) mod 2 ^ 64" by (rule arg_cong [where f = "\<lambda>y. y mod 2 ^ 64"]) simp
  also have "\<dots> = x - 2 ^ 63" unfolding mod_add_self2 using x by (intro mod_pos_pos_trivial) (simp_all add: max_int64_def)
  finally show "wrap64 x < 0" using x by (simp add: wrap64_def max_int64_def)
qed

lemma digit_val_nonneg: "0 \<le> digit_val c"
  by (simp add: digit_val_def)

lemma parse_uint_nonneg: "0 \<le> n \<Longrightarrow> 0 \<le> fst (parse_uint n s)"
  by (induction n s rule: parse_uint.induct) (simp_all add: Let_def digit_val_nonneg)

lemma atoi_range: "fst (atoi s) \<le> max_int64"
proof -
  let ?ds = "if has_prefix s ''-'' \<or> has_prefix s ''+'' then tl s else s"
  obtain un e where pu: "parse_uint 0 ?ds = (un, e)" by (cases "parse_uint 0 ?ds")
  then have "0 \<le> un" using parse_uint_nonneg [of 0 ?ds] by simp
  then show ?thesis unfolding atoi_def Let_def pu by (cases e) (simp_all add: max_int64_def min_int64_def)
qed

text \<open>
  C28. A page of the results is the window asked for, or a panic: where the end of the window is more than a machine integer, the
  handler panics, after which the results of the job are locked for good; else it answers with exactly the results from the offset on, as many as the limit.
\<close>

theorem results_page_exact:
  assumes "int (length rs) \<le> max_int64"
  shows "results_page q rs =
    (let offset = results_number q ''offset'' 1 0; limit = results_number q ''limit'' 0 1000 in
     if ''offset'' \<notin> fst ` set q \<and> ''limit'' \<notin> fst ` set q \<and> int (length rs) \<le> 1000 then Some rs
     else if min offset (int (length rs)) + limit > max_int64 then None
     else Some (take (nat limit) (drop (nat offset) rs)))"
proof -
  let ?o = "results_number q ''offset'' 1 0" and ?l = "results_number q ''limit'' 0 1000" and ?n = "int (length rs)"
  have o: "0 \<le> ?o" and l: "0 \<le> ?l" "?l \<le> max_int64"
    using atoi_range by (auto simp: results_number_def max_int64_def split: option.split)
  show ?thesis
  proof (cases "min ?o ?n + ?l > max_int64")
    case True
    then have "wrap64 (min ?o ?n + ?l) < 0" using assms l by (intro wrap64_over) auto
    with True o assms show ?thesis by (auto simp: results_page_def Let_def)
  next
    case False
    then have w: "wrap64 (min ?o ?n + ?l) = min ?o ?n + ?l"
      using o l by (intro wrap64_id) (auto simp: max_int64_def min_int64_def)
    have "take (nat (min (min ?o ?n + ?l) ?n - min ?o ?n)) (drop (nat (min ?o ?n)) rs) = take (nat ?l) (drop (nat ?o) rs)"
    proof (cases "?o \<le> ?n")
      case True
      then have "nat (min (?o + ?l) ?n - ?o) = min (nat ?l) (length rs - nat ?o)" using o l by (auto simp: min_def)
      then show ?thesis using True by (simp add: min_def take_all_iff)
    qed (use l in simp)
    with False w l(1) show ?thesis by (auto simp: results_page_def Let_def min_def)
  qed
qed

lemma results_page_exact_witness: "results_page [(''offset'', ''1''), (''limit'', ''9223372036854775807'')] [''x'', ''y''] = None
    \<and> results_page [(''offset'', ''1''), (''limit'', ''5'')] [''x'', ''y''] = Some [''y'']"
proof -
  have n: "int (length [''x'', ''y'']) \<le> max_int64" by (simp add: max_int64_def)
  have a: "atoi ''1'' = (1, True)" "atoi ''9223372036854775807'' = (9223372036854775807, True)" "atoi ''5'' = (5, True)" by code_simp+
  show ?thesis unfolding results_page_exact [OF n] by (simp add: results_number_def a max_int64_def)
qed

subsection \<open>Files of certificates\<close>

text \<open>
  No private key can be downloaded: whatever name is asked for, the file answered with is not that of the key of any
  name and host.
\<close>

theorem keys_not_served: "map_option (\<lambda>f. dir @ ''/'' @ f) (ca_download name) \<noteq> Some (key_file_path dir common host is_ca)"
proof
  assume "map_option (\<lambda>f. dir @ ''/'' @ f) (ca_download name) = Some (key_file_path dir common host is_ca)"
  then obtain f where f: "\<not> contains f ''key''" "f = clean common @ ''-'' @ (if is_ca then ''ca-key.pem'' else clean host @ ''-key.pem'')"
    by (auto simp: ca_download_def key_file_path_def Let_def split: if_splits)
  have "contains (a @ ''key'' @ b) ''key''" for a b
    by (induction a) (simp_all add: contains_def)
  from this [of "clean common @ ''-ca-''" "''.pem''"] this [of "clean common @ ''-'' @ clean host @ ''-''" "''.pem''"] f
  show False by (auto split: if_splits)
qed

text \<open>
  Hosts share certificates: two hosts whose names are the same after cleaning have one file, so the second is given
  the certificate made for the first, which names another host.
\<close>

theorem cert_of_other_host:
  assumes "clean h1 = clean h2" "clean c1 = clean c2" "ensure_cert dir k1 h1 c1 False hc = (Cert_given x key, hc')"
  shows "ensure_cert dir k2 h2 c2 False hc' = (Cert_given x key, hc')"
proof -
  let ?kp = "key_file_path dir c1 h1 False" and ?cp = "cert_file_path dir c1 h1 False"
  have paths: "key_file_path dir c2 h2 False = ?kp" "cert_file_path dir c2 h2 False = ?cp"
    using assms(1,2) by (simp_all add: key_file_path_def cert_file_path_def)
  from assms(3) have "map_of (hc_keys hc') ?kp = Some (Some key) \<and> map_of (hc_certs hc') ?cp = Some (Some x)"
    by (auto simp: ensure_cert_def read_or_make_key_def Let_def split: option.splits)
  then show ?thesis by (simp add: ensure_cert_def read_or_make_key_def paths Let_def)
qed

subsection \<open>Requests typed by hand\<close>

text \<open>
  The body of a request typed by hand is changed: every line end in it becomes a line feed, so a body with line ends of two
  bytes is sent shorter than it was typed.
\<close>

theorem typed_body_changed: "normalize_raw_request (''POST / HTTP/1.1'' @ [CR, LF, CR, LF] @ ''a'' @ [CR, LF] @ ''b'')
    = ''POST / HTTP/1.1'' @ [CR, LF, CR, LF] @ ''a'' @ [LF] @ ''b''"
  by code_simp

end
