(* ===== verification/HitmIntercept.thy ===== *)
theory HitmIntercept
  imports GoStrconv
begin

text \<open>
  Requests that wait for the user in the intercepting proxy (\<^verbatim>\<open>users/hanemile/projects/go/hitm/main.go\<close>): the requests of one
  listener, the handlers of \<^verbatim>\<open>/forward\<close> and \<^verbatim>\<open>/drop\<close>, the mutex they share and the channels between them,
  as a step relation in which each step is what one goroutine does until it has to wait again.
\<close>

subsection \<open>States\<close>

text \<open>
  Where the goroutine of a request is: in its \<^verbatim>\<open>select\<close>, told to go on but before the mutex, gone on with a request
  (the one sent to \<^verbatim>\<open>/forward\<close>, or its own), dropped, out of time but before the mutex, or given up.
\<close>

datatype 'r flow_state = Waiting | Told | Went "'r option" | Dropped | Expired | Given_up

text \<open>
  \<open>is_sending\<close> has the handlers of \<^verbatim>\<open>/forward\<close> that are about to send on the channel of a request; the handler
  of \<^verbatim>\<open>/drop\<close> sends while it holds the mutex, so there is at most one, \<open>is_dropping\<close>.  \<open>is_asked\<close> is what
  \<^verbatim>\<open>/forward\<close> was ever called with.
\<close>

record 'r intercept_state =
  is_intercepts :: "nat set"
  is_payload :: "nat \<Rightarrow> 'r option"
  is_flows :: "nat \<Rightarrow> 'r flow_state option"
  is_sending :: "nat set"
  is_dropping :: "nat option"
  is_asked :: "(nat \<times> 'r) set"

definition no_intercepts :: "'r intercept_state" where
  "no_intercepts = \<lparr>is_intercepts = {}, is_payload = (\<lambda>_. None), is_flows = (\<lambda>_. None), is_sending = {}, is_dropping = None, is_asked = {}\<rparr>"

definition mutex_free :: "'r intercept_state \<Rightarrow> bool" where
  "mutex_free s \<longleftrightarrow> is_dropping s = None"

subsection \<open>Steps\<close>

definition set_flow :: "nat \<Rightarrow> 'r flow_state \<Rightarrow> 'r intercept_state \<Rightarrow> 'r intercept_state" where
  "set_flow i f s = s\<lparr>is_flows := (is_flows s)(i \<mapsto> f)\<rparr>"

definition register_flow :: "nat \<Rightarrow> 'r intercept_state \<Rightarrow> 'r intercept_state" where
  "register_flow i s = set_flow i Waiting (s\<lparr>is_intercepts := insert i (is_intercepts s)\<rparr>)"

definition forward_handler :: "nat \<Rightarrow> 'r \<Rightarrow> 'r intercept_state \<Rightarrow> 'r intercept_state" where
  "forward_handler i q s =
     (if i \<in> is_intercepts s
      then s\<lparr>is_payload := (is_payload s)(i \<mapsto> q), is_sending := insert i (is_sending s), is_asked := insert (i, q) (is_asked s)\<rparr>
      else s\<lparr>is_asked := insert (i, q) (is_asked s)\<rparr>)"

definition drop_handler :: "nat \<Rightarrow> 'r intercept_state \<Rightarrow> 'r intercept_state" where
  "drop_handler i s = (if i \<in> is_intercepts s then s\<lparr>is_dropping := Some i\<rparr> else s)"

definition proceed_flow :: "nat \<Rightarrow> 'r intercept_state \<Rightarrow> 'r intercept_state" where
  "proceed_flow i s = set_flow i (Went (is_payload s i))
     (s\<lparr>is_intercepts := is_intercepts s - {i}, is_payload := (is_payload s)(i := None)\<rparr>)"

definition give_up_flow :: "nat \<Rightarrow> 'r intercept_state \<Rightarrow> 'r intercept_state" where
  "give_up_flow i s = set_flow i Given_up (s\<lparr>is_intercepts := is_intercepts s - {i}\<rparr>)"

text \<open>
  The number of a request is new.  A value is handed over when the request is in its \<^verbatim>\<open>select\<close>; one that was told
  to drop goes on to the next request and leaves its channel in the table.  Of several handlers that send to the same
  request the others stay, so \<open>is_sending\<close> may keep the number.
\<close>

inductive intercept_step :: "'r intercept_state \<Rightarrow> 'r intercept_state \<Rightarrow> bool" where
  Register: "is_flows s i = None \<Longrightarrow> mutex_free s \<Longrightarrow> intercept_step s (register_flow i s)"
| Forward: "mutex_free s \<Longrightarrow> intercept_step s (forward_handler i q s)"
| Drop: "mutex_free s \<Longrightarrow> intercept_step s (drop_handler i s)"
| Tell: "i \<in> is_sending s \<Longrightarrow> is_flows s i = Some Waiting \<Longrightarrow> b \<subseteq> {i} \<Longrightarrow>
    intercept_step s (set_flow i Told (s\<lparr>is_sending := is_sending s - {i} \<union> b\<rparr>))"
| Tell_drop: "is_dropping s = Some i \<Longrightarrow> is_flows s i = Some Waiting \<Longrightarrow>
    intercept_step s (set_flow i Dropped (s\<lparr>is_dropping := None\<rparr>))"
| Proceed: "is_flows s i = Some Told \<Longrightarrow> mutex_free s \<Longrightarrow> intercept_step s (proceed_flow i s)"
| Expire: "is_flows s i = Some Waiting \<Longrightarrow> intercept_step s (set_flow i Expired s)"
| Give_up: "is_flows s i = Some Expired \<Longrightarrow> mutex_free s \<Longrightarrow> intercept_step s (give_up_flow i s)"

inductive_cases intercept_stepE: "intercept_step s s'"

subsection \<open>What a request goes on with\<close>

text \<open>While a request waits or was told to go on and a handler sends or has sent to it, there is a request for it.\<close>

definition payload_kept :: "'r intercept_state \<Rightarrow> bool" where
  "payload_kept s \<longleftrightarrow> (\<forall>i. (is_flows s i = Some Told \<or> is_flows s i = Some Waiting \<and> i \<in> is_sending s
       \<longrightarrow> is_payload s i \<noteq> None) \<and> (is_flows s i = None \<longrightarrow> i \<notin> is_sending s \<and> i \<notin> is_intercepts s)
     \<and> (\<forall>q. is_payload s i = Some q \<longrightarrow> (i, q) \<in> is_asked s)
     \<and> (\<forall>x. is_flows s i = Some (Went x) \<longrightarrow> (\<exists>q. x = Some q \<and> (i, q) \<in> is_asked s)))"

lemma intercept_step_kept: "intercept_step s s' \<Longrightarrow> payload_kept s \<Longrightarrow> payload_kept s'"
proof (induction rule: intercept_step.induct)
  case (Proceed s i)
  then obtain q where "is_payload s i = Some q" "(i, q) \<in> is_asked s" unfolding payload_kept_def by blast
  with Proceed show ?case by (auto simp: payload_kept_def proceed_flow_def set_flow_def)
qed (auto simp: payload_kept_def set_flow_def register_flow_def forward_handler_def drop_handler_def give_up_flow_def; blast)+

lemma intercept_steps_kept: "intercept_step\<^sup>*\<^sup>* no_intercepts s \<Longrightarrow> payload_kept s"
proof (induction rule: rtranclp_induct)
  case base
  show ?case by (simp add: no_intercepts_def payload_kept_def)
qed (rule intercept_step_kept)

text \<open>
  C13. No intercepted request leaves on its own: however requests, handlers and time-outs interleave, a request that was
  intercepted goes on only with a request the user sent to \<^verbatim>\<open>/forward\<close> under its number.
\<close>

theorem intercepted_sent_as_forwarded:
  assumes "intercept_step\<^sup>*\<^sup>* no_intercepts s" "is_flows s i = Some (Went x)"
  shows "\<exists>q. x = Some q \<and> (i, q) \<in> is_asked s"
  using intercept_steps_kept [OF assms(1)] assms(2) unfolding payload_kept_def by blast

subsection \<open>The handler that never returns\<close>

text \<open>A request that was dropped keeps its channel in the table.\<close>

definition in_table :: "'r intercept_state \<Rightarrow> bool" where
  "in_table s \<longleftrightarrow> (\<forall>i. is_flows s i \<in> {Some Dropped, Some Waiting, Some Told, Some Expired} \<longrightarrow> i \<in> is_intercepts s)"

lemma intercept_step_table: "intercept_step s s' \<Longrightarrow> in_table s \<Longrightarrow> in_table s'"
  by (induction rule: intercept_step.induct)
    (auto simp: in_table_def set_flow_def register_flow_def forward_handler_def drop_handler_def proceed_flow_def give_up_flow_def)

lemma intercept_steps_table: "intercept_step\<^sup>*\<^sup>* no_intercepts s \<Longrightarrow> in_table s"
proof (induction rule: rtranclp_induct)
  case base
  show ?case by (simp add: no_intercepts_def in_table_def)
qed (rule intercept_step_table)

text \<open>A handler of \<^verbatim>\<open>/drop\<close> that sends to a request which does not listen any more.\<close>

definition stuck_drop :: "'r intercept_state \<Rightarrow> bool" where
  "stuck_drop s \<longleftrightarrow> (\<exists>i f. is_dropping s = Some i \<and> is_flows s i = Some f \<and> f \<noteq> Waiting)"

lemma stuck_step: "intercept_step s s' \<Longrightarrow> stuck_drop s \<Longrightarrow> stuck_drop s' \<and> is_intercepts s' = is_intercepts s"
  by (induction rule: intercept_step.induct) (auto simp: stuck_drop_def mutex_free_def set_flow_def)

lemma stuck_steps: "intercept_step\<^sup>*\<^sup>* s s' \<Longrightarrow> stuck_drop s \<Longrightarrow> stuck_drop s' \<and> is_intercepts s' = is_intercepts s"
  by (induction rule: rtranclp_induct) (auto dest: stuck_step)

text \<open>
  C27. Dropping a request that was dropped or told to go on stops the listener: its channel is still in the table, so
  the handler takes the mutex and sends to nobody; from then on, whatever happens, the mutex is never free again, and no
  request is added to the table or leaves it.
\<close>

theorem second_drop_blocks:
  assumes "intercept_step\<^sup>*\<^sup>* no_intercepts s" "mutex_free s" "is_flows s i \<in> {Some Dropped, Some Told}"
    and "intercept_step\<^sup>*\<^sup>* (drop_handler i s) s'"
  shows "intercept_step s (drop_handler i s) \<and> \<not> mutex_free s' \<and> is_intercepts s' = is_intercepts s"
proof -
  have i: "i \<in> is_intercepts s" using intercept_steps_table [OF assms(1)] assms(3) by (auto simp: in_table_def)
  then have "stuck_drop (drop_handler i s)" using assms(3) by (auto simp: stuck_drop_def drop_handler_def)
  from stuck_steps [OF assms(4) this] i have "stuck_drop s'" "is_intercepts s' = is_intercepts s" by (auto simp: drop_handler_def)
  moreover from this(1) have "\<not> mutex_free s'" by (auto simp: stuck_drop_def mutex_free_def)
  ultimately show ?thesis using Drop [OF assms(2)] by simp
qed

text \<open>A request is intercepted, sent to \<^verbatim>\<open>/forward\<close> and goes on; another is dropped.\<close>

lemma intercepted_sent_as_forwarded_witness:
  "\<exists>s. intercept_step\<^sup>*\<^sup>* no_intercepts s \<and> is_flows s 1 = Some (Went (Some ''GET /'')) \<and> (1, ''GET /'') \<in> is_asked s"
proof -
  let ?a = "register_flow 1 no_intercepts" and ?b = "forward_handler 1 ''GET /'' (register_flow 1 no_intercepts)"
  let ?c = "set_flow 1 Told (?b\<lparr>is_sending := is_sending ?b - {1} \<union> {}\<rparr>)"
  have s1: "intercept_step no_intercepts ?a" by (rule Register) (simp_all add: no_intercepts_def mutex_free_def)
  have s2: "intercept_step ?a ?b" by (rule Forward) (simp add: no_intercepts_def mutex_free_def register_flow_def set_flow_def)
  have s3: "intercept_step ?b ?c" by (rule Tell) (simp_all add: forward_handler_def register_flow_def set_flow_def)
  have s4: "intercept_step ?c (proceed_flow 1 ?c)"
    by (rule Proceed) (simp_all add: forward_handler_def register_flow_def set_flow_def mutex_free_def no_intercepts_def)
  note r = rtranclp.rtrancl_into_rtrancl [of intercept_step, OF rtranclp.rtrancl_into_rtrancl [of intercept_step, OF rtranclp.rtrancl_into_rtrancl [of intercept_step, OF r_into_rtranclp [of intercept_step, OF s1] s2] s3] s4]
  have f: "is_flows (proceed_flow 1 ?c) 1 = Some (Went (Some ''GET /''))"
    by (simp add: proceed_flow_def forward_handler_def register_flow_def set_flow_def)
  from intercepted_sent_as_forwarded [OF r f] have "(1, ''GET /'') \<in> is_asked (proceed_flow 1 ?c)" by simp
  with r f show ?thesis by (intro exI conjI)
qed

definition dropped_once :: "string intercept_state" where
  "dropped_once = (let s = drop_handler 1 (register_flow 1 no_intercepts) in set_flow 1 Dropped (s\<lparr>is_dropping := None\<rparr>))"

lemma second_drop_blocks_witness: "\<not> mutex_free (register_flow 2 (drop_handler 1 dropped_once)) \<and> \<not> mutex_free (drop_handler 1 dropped_once)"
proof -
  let ?a = "register_flow 1 no_intercepts :: string intercept_state"
  have s1: "intercept_step no_intercepts ?a" by (rule Register) (simp_all add: no_intercepts_def mutex_free_def)
  have s2: "intercept_step ?a (drop_handler 1 ?a)"
    by (rule Drop) (simp add: no_intercepts_def mutex_free_def register_flow_def set_flow_def)
  have s3: "intercept_step (drop_handler 1 ?a) dropped_once" unfolding dropped_once_def Let_def
    by (rule Tell_drop) (simp_all add: drop_handler_def register_flow_def set_flow_def)
  note r = rtranclp.rtrancl_into_rtrancl [of intercept_step, OF rtranclp.rtrancl_into_rtrancl [of intercept_step, OF r_into_rtranclp [of intercept_step, OF s1] s2] s3]
  have d: "mutex_free dropped_once" "is_flows dropped_once 1 \<in> {Some Dropped, Some Told}"
    by (simp_all add: dropped_once_def Let_def set_flow_def mutex_free_def)
  from second_drop_blocks [OF r d rtranclp.rtrancl_refl] show ?thesis
    by (simp add: mutex_free_def register_flow_def set_flow_def)
qed

end
