(* ===== verification/HostTools.thy ===== *)
theory HostTools
  imports GoStrconv
begin

text \<open>
  Small programs and parts: the router of SSH connections (\<^verbatim>\<open>tools/sshrouter/main.go\<close>), the cleanup of old backups
  (\<^verbatim>\<open>tools/makhor/pkg/db/backup.go\<close>), and the path below which the link aggregator is served
  (\<^verbatim>\<open>tools/makhor/pkg/config/config.go\<close>).  The handshakes, channels and keys of SSH, the decoder of JSON and the copying of
  files are left out.
\<close>

subsection \<open>Routes\<close>

text \<open>The routes in the order in which the map is gone through, which Go leaves open.\<close>

record router_config =
  rt_routes :: "(string \<times> string) list"
  rt_default :: string

definition pattern_matches :: "string \<Rightarrow> string \<Rightarrow> bool" where
  "pattern_matches pattern user \<longleftrightarrow> has_suffix pattern ''*'' \<and> has_prefix user (trim_suffix pattern ''*'')"

definition get_target :: "string \<Rightarrow> router_config \<Rightarrow> string option" where
  "get_target user c =
     (case map_of (rt_routes c) user of
        Some t \<Rightarrow> Some t
      | None \<Rightarrow> (case find (\<lambda>(p, t). pattern_matches p user) (rt_routes c) of
            Some (p, t) \<Rightarrow> Some t
          | None \<Rightarrow> if rt_default c \<noteq> [] then Some (rt_default c) else None))"

record ssh_target =
  tg_user :: string
  tg_host :: string
  tg_port :: string

definition split_first :: "char \<Rightarrow> string \<Rightarrow> (string \<times> string) option" where
  "split_first c s = (if c \<in> set s then Some (takeWhile (\<lambda>x. x \<noteq> c) s, tl (dropWhile (\<lambda>x. x \<noteq> c) s)) else None)"

definition parse_route :: "string \<Rightarrow> string \<Rightarrow> ssh_target" where
  "parse_route user route =
     (let (u, rest) = (case split_first (CHR ''@'') route of Some (a, b) \<Rightarrow> (a, b) | None \<Rightarrow> (user, route));
          (h, p) = (case split_first (CHR '':'') rest of Some (a, b) \<Rightarrow> (a, b) | None \<Rightarrow> (rest, ''22''))
      in \<lparr>tg_user = u, tg_host = h, tg_port = p\<rparr>)"

definition routed :: "router_config \<Rightarrow> string \<Rightarrow> ssh_target option" where
  "routed c user = map_option (parse_route user) (get_target user c)"

lemma split_first_append: "c \<notin> set a \<Longrightarrow> split_first c (a @ c # b) = Some (a, b)"
  by (induction a) (auto simp: split_first_def)

lemma split_first_none: "c \<notin> set a \<Longrightarrow> split_first c a = None"
  by (simp add: split_first_def)

text \<open>
  A name with a route of its own goes there whatever patterns match it: the parts of a route that is written with a user, a
  host and a port are those the connection is made to, in whatever order the routes are gone through.
\<close>

theorem own_route_wins:
  assumes "distinct (map fst (rt_routes c))" "(user, u @ ''@'' @ h @ '':'' @ p) \<in> set (rt_routes c)"
    and "CHR ''@'' \<notin> set u" "CHR '':'' \<notin> set h"
  shows "routed c user = Some \<lparr>tg_user = u, tg_host = h, tg_port = p\<rparr>"
proof -
  have "map_of (rt_routes c) user = Some (u @ ''@'' @ h @ '':'' @ p)" using assms(1,2) by (rule map_of_is_SomeI)
  moreover have "split_first (CHR ''@'') (u @ CHR ''@'' # h @ CHR '':'' # p) = Some (u, h @ CHR '':'' # p)"
    using assms(3) by (rule split_first_append)
  moreover have "split_first (CHR '':'') (h @ CHR '':'' # p) = Some (h, p)" using assms(4) by (rule split_first_append)
  ultimately show ?thesis by (simp add: routed_def get_target_def parse_route_def)
qed

lemma own_route_wins_witness:
  "routed \<lparr>rt_routes = [(''g*'', ''x''), (''git'', ''forge@10.0.0.3:2022'')], rt_default = []\<rparr> ''git''
   = Some \<lparr>tg_user = ''forge'', tg_host = ''10.0.0.3'', tg_port = ''2022''\<rparr>"
  by (rule own_route_wins) simp_all

text \<open>Of two patterns that match, the first the map yields is taken, so the order of the map decides where a connection goes.\<close>

lemma route_depends_on_order:
  "routed \<lparr>rt_routes = [(''a*'', ''one''), (''ab*'', ''two'')], rt_default = []\<rparr> ''abc'' = Some \<lparr>tg_user = ''abc'', tg_host = ''one'', tg_port = ''22''\<rparr>
   \<and> routed \<lparr>rt_routes = [(''ab*'', ''two''), (''a*'', ''one'')], rt_default = []\<rparr> ''abc'' = Some \<lparr>tg_user = ''abc'', tg_host = ''two'', tg_port = ''22''\<rparr>"
  by code_simp

subsection \<open>Backups\<close>

definition is_backup_name :: "string \<Rightarrow> bool" where
  "is_backup_name n \<longleftrightarrow> has_prefix n ''makhor-backup-'' \<and> has_suffix n ''.db''"

definition backup_name :: "string \<Rightarrow> string" where
  "backup_name stamp = ''makhor-backup-'' @ stamp @ ''.db''"

text \<open>
  The directory by its entries, each a name and whether it is a directory.  Files are removed in order; where one cannot
  be, the cleanup ends with an error.
\<close>

fun remove_files :: "(string \<Rightarrow> bool) \<Rightarrow> string list \<Rightarrow> (string \<times> bool) list \<Rightarrow> bool \<times> (string \<times> bool) list" where
  "remove_files stays [] es = (True, es)"
| "remove_files stays (n # ns) es =
     (if stays n then (False, es) else remove_files stays ns (filter (\<lambda>e. fst e \<noteq> n) es))"

definition backups_in :: "(string \<times> bool) list \<Rightarrow> string list" where
  "backups_in es = map fst (filter (\<lambda>(n, is_dir). \<not> is_dir \<and> is_backup_name n) es)"

definition clean_old_backups :: "(string \<Rightarrow> bool) \<Rightarrow> int \<Rightarrow> (string \<times> bool) list \<Rightarrow> bool \<times> (string \<times> bool) list" where
  "clean_old_backups stays retain es =
     (if retain \<le> 0 then (True, es)
      else (let bs = sort (backups_in es) in
        if int (length bs) > retain then remove_files stays (take (length bs - nat retain) bs) es else (True, es)))"

lemma remove_files_all: "(\<And>n. n \<in> set ns \<Longrightarrow> \<not> stays n) \<Longrightarrow> remove_files stays ns es = (True, filter (\<lambda>e. fst e \<notin> set ns) es)"
  by (induction ns arbitrary: es) (auto intro!: filter_cong)

lemma remove_files_some: "\<exists>gone \<subseteq> set ns. snd (remove_files stays ns es) = filter (\<lambda>e. fst e \<notin> gone) es"
proof (induction ns arbitrary: es)
  case (Cons n ns)
  obtain gone where g: "gone \<subseteq> set ns" "snd (remove_files stays ns (filter (\<lambda>e. fst e \<noteq> n) es)) = filter (\<lambda>e. fst e \<notin> gone) (filter (\<lambda>e. fst e \<noteq> n) es)"
    using Cons by blast
  show ?case
  proof (cases "stays n")
    case False
    with g show ?thesis by (intro exI [of _ "insert n gone"]) (auto intro!: filter_cong)
  qed (auto intro!: exI [of _ "{}"])
qed (auto intro!: exI [of _ "{}"])

lemma clean_some:
  "\<exists>gone \<subseteq> set (take (length (backups_in es) - nat retain) (sort (backups_in es))).
     snd (clean_old_backups stays retain es) = filter (\<lambda>e. fst e \<notin> gone) es"
proof (cases "retain \<le> 0 \<or> int (length (backups_in es)) \<le> retain")
  case True
  then show ?thesis by (intro exI [of _ "{}"]) (auto simp: clean_old_backups_def Let_def)
next
  case False
  then have "clean_old_backups stays retain es
      = remove_files stays (take (length (backups_in es) - nat retain) (sort (backups_in es))) es"
    by (simp add: clean_old_backups_def Let_def)
  then show ?thesis using remove_files_some [of "take (length (backups_in es) - nat retain) (sort (backups_in es))" stays es] by simp
qed


text \<open>
  Where nothing stands in the way, a cleanup leaves as many backups as are to be kept, or all there were, and each
  that went is older than each that stayed.
\<close>

theorem backups_cleaned:
  assumes "distinct (map fst es)" "0 < retain" "\<And>n. \<not> stays n"
  shows "fst (clean_old_backups stays retain es)
    \<and> sort (backups_in (snd (clean_old_backups stays retain es))) = drop (length (backups_in es) - nat retain) (sort (backups_in es))"
proof -
  let ?bs = "sort (backups_in es)" and ?k = "length (backups_in es) - nat retain"
  have d: "distinct ?bs" using assms(1) by (simp add: backups_in_def distinct_map_filter)
  have "clean_old_backups stays retain es = (True, filter (\<lambda>e. fst e \<notin> set (take ?k ?bs)) es)"
    using assms(2,3) remove_files_all [of "take ?k ?bs" stays es] by (auto simp: clean_old_backups_def Let_def)
  moreover have "backups_in (filter (\<lambda>e. fst e \<notin> G) es) = filter (\<lambda>n. n \<notin> G) (backups_in es)" for G
    by (induction es) (auto simp: backups_in_def)
  moreover have "sort (filter (\<lambda>n. n \<notin> G) xs) = filter (\<lambda>n. n \<notin> G) (sort xs)" for G and xs :: "string list"
    by (simp add: filter_sort)
  moreover have "filter (\<lambda>n. n \<notin> set (take ?k ?bs)) ?bs = drop ?k ?bs"
  proof -
    have "filter (\<lambda>n. n \<notin> set xs) (xs @ ys) = ys" if "distinct (xs @ ys)" for xs ys :: "string list"
      using that by (auto simp: filter_empty_conv filter_id_conv)
    from this [of "take ?k ?bs" "drop ?k ?bs"] d show ?thesis by simp
  qed
  ultimately show ?thesis by simp
qed

definition backup_dir :: "(string \<times> bool) list" where
  "backup_dir = [(backup_name ''20250301-020000'', False), (''makhor.db'', False), (backup_name ''20250101-020000'', False),
     (backup_name ''20250201-020000'', False), (''old'', True)]"


lemma backups_cleaned_witness:
  "sort (backups_in (snd (clean_old_backups (\<lambda>_. False) 2 backup_dir))) = [backup_name ''20250201-020000'', backup_name ''20250301-020000'']"
proof -
  have "distinct (map fst backup_dir)" by code_simp
  moreover have "drop (length (backups_in backup_dir) - nat 2) (sort (backups_in backup_dir)) = [backup_name ''20250201-020000'', backup_name ''20250301-020000'']"
    by code_simp
  ultimately show ?thesis using backups_cleaned [of backup_dir 2 "\<lambda>_. False"] by simp
qed

subsection \<open>The path of the application\<close>

definition normalize_subpath :: "string \<Rightarrow> string" where
  "normalize_subpath s0 =
     (let s = trim_space s0 in
      if s = [] \<or> s = ''/'' then []
      else trim_suffix (if has_prefix s ''/'' then s else ''/'' @ s) ''/'')"

text \<open>Only one slash is taken from the end, so the path may end in one, and to normalise it once more changes it.\<close>

lemma subpath_keeps_slash: "normalize_subpath ''/makhor//'' = ''/makhor/'' \<and> normalize_subpath ''/makhor/'' = ''/makhor''"
  by code_simp

end
