(* ===== verification/Spec2Isabelle.thy ===== *)
theory Spec2Isabelle
  imports NewsEndToEnd AdminRights HostWatch BotNews Profiles FeedOutput Search AdminTool StatusBoard Topology
    Hitm HitmIntercept HostTools
begin

text \<open>
  A verification library for the Go programs of this repository.

  \<^bold>\<open>The programs.\<close>  A news system: a server, \<^verbatim>\<open>ops/pkgs/nntpd/nntpd.go\<close>, that keeps articles in memory and in a
  spool directory and speaks NNTP, and a terminal client, \<^verbatim>\<open>ops/pkgs/nntpc/nntpc.go\<close>.  \<^verbatim>\<open>tools/makhor\<close>, a
  link aggregator: an SQLite database (\<^verbatim>\<open>pkg/db\<close>), the handlers of its web pages (\<^verbatim>\<open>pkg/handlers\<close>), an interface
  of JSON (\<^verbatim>\<open>pkg/api\<close>), sessions and a rate limiter (\<^verbatim>\<open>pkg/middleware\<close>), a poller of feeds (\<^verbatim>\<open>pkg/rsspoll\<close>),
  pictures (\<^verbatim>\<open>pkg/imaging\<close>), a tool for the command line (\<^verbatim>\<open>cmd/makhor-admin\<close>) and the routes of
  \<^verbatim>\<open>cmd/makhor/main.go\<close>.  The bots of an IRC channel (\<^verbatim>\<open>ops/pkgs\<close>): syswatch and diskwatch, which watch a host, and those that
  announce weather warnings, forecasts, comics, headlines and the state of services.  A status board of
  machines (\<^verbatim>\<open>tools/status-board\<close>).  An intercepting proxy (\<^verbatim>\<open>users/hanemile/projects/go/hitm/main.go\<close>).  A router of SSH
  connections (\<^verbatim>\<open>tools/sshrouter\<close>).

  \<^bold>\<open>What they share.\<close>  \<open>Prelude\<close> has the collections of facts, \<open>wrap64\<close> (Go's int, as an integer with its
  wrap-around written out) and facts on association lists.  \<open>GoStrings\<close>, \<open>GoStrconv\<close> and \<open>GoUrl\<close> model the
  parts of Go's \<^verbatim>\<open>strings\<close>, \<^verbatim>\<open>strconv\<close> and \<^verbatim>\<open>net/url\<close> (as of Go 1.25) that the programs call; a Go string is
  the list of its bytes.  \<open>Forest\<close> has walks over trees that are given by parent links: threads of
  articles, comments and invitations.

  \<^bold>\<open>The news server.\<close>  \<open>Wire\<close>: lines and dot blocks on a connection.  \<open>Spool\<close>: an article, its text in a file
  and back (\<^verbatim>\<open>parseArticle\<close>, \<^verbatim>\<open>writeArticle\<close>).  \<open>NntpStore\<close>: the record \<open>store\<close> is \<^verbatim>\<open>Store\<close>, its groups are
  association lists where the code has maps, and the spool directory is a tree of names; \<open>post\<close> and
  \<open>new_store\<close> are \<^verbatim>\<open>Post\<close> and \<^verbatim>\<open>NewStore\<close>.  \<open>NntpServer\<close>: one definition for each \<^verbatim>\<open>cmd...\<close> function over the
  record of a session, the loop \<open>handle_loop\<close> on the bytes a client sends, and \<open>net_step\<close>, where any number
  of connections take turns command by command.  \<open>NntpPersist\<close>: what a restart finds.

  \<^bold>\<open>The news client.\<close>  \<open>ClientThreads\<close>: \<^verbatim>\<open>buildTree\<close> and \<^verbatim>\<open>flatten\<close>.  \<open>NntpClient\<close>: the record \<open>app\<close>, its keys and
  commands; an operation may panic or hang, which are outcomes.  \<open>NewsEndToEnd\<close>: the client against the
  server, on the bytes both exchange.

  \<^bold>\<open>The link aggregator's database.\<close>  \<open>Tables\<close>: a table is its last automatic key and its rows; \<open>MakhorDb\<close>: one
  row type per table of the schema in \<^verbatim>\<open>db.go\<close>, the record \<open>db\<close> of all tables, and \<open>denv\<close>, the clock, the
  next random token and whether this connection checks foreign keys (the code turns them on for one
  connection of its pool only, so both are possible).  A theory for each file of \<^verbatim>\<open>pkg/db\<close>: \<open>Accounts\<close>
  (\<^verbatim>\<open>users.go\<close>, \<^verbatim>\<open>invites.go\<close>), \<open>Posts\<close> (\<^verbatim>\<open>posts.go\<close>, \<^verbatim>\<open>hats.go\<close>, \<^verbatim>\<open>votes.go\<close>), \<open>Comments\<close>, \<open>Tags\<close>, \<open>Listings\<close> (the
  lists of posts), \<open>AuditLog\<close> (\<^verbatim>\<open>actionlog.go\<close>, \<^verbatim>\<open>modlog.go\<close>), \<open>Feeds\<close> (\<^verbatim>\<open>rss.go\<close>) and \<open>Collections\<close>.  A statement of
  SQL is the comprehension it stands for; an error of the database that the code can meet (no row, a
  broken constraint) is a value of \<open>db_error\<close>.  \<open>Pagination\<close> is \<^verbatim>\<open>models.Pagination\<close>; \<open>Paging\<close> states the
  interface between a query with LIMIT and OFFSET and the pages that show it as a locale, which each
  paged list interprets.

  \<^bold>\<open>The link aggregator's web side.\<close>  \<open>RateLimit\<close>: the limiter and the address it counts by.  \<open>Web\<close>: requests,
  responses (a page is the name of its template and what the handler puts in of its own), the session
  cache, the guards, and \<open>web\<close>, the state of the program: database, cache and mails sent.  \<open>WebAuth\<close>
  (\<^verbatim>\<open>auth.go\<close> and the forms of the own profile), \<open>WebContent\<close> (\<^verbatim>\<open>posts.go\<close>, \<^verbatim>\<open>comments.go\<close>), \<open>WebAdmin\<close>
  (\<^verbatim>\<open>admin.go\<close>, \<^verbatim>\<open>tags.go\<close>, \<^verbatim>\<open>collections.go\<close>, the pages of feeds): one definition per handler, with its guards
  in the order of the code.  \<open>Poller\<close> is \<^verbatim>\<open>poller.go\<close>.

  \<open>Api\<close> is \<^verbatim>\<open>api.go\<close>, \<open>Profiles\<close> the pages of users (\<^verbatim>\<open>users.go\<close>), \<open>Avatars\<close> their pictures with \<^verbatim>\<open>imaging.go\<close>,
  \<open>FeedOutput\<close> the feeds offered (\<^verbatim>\<open>rss.go\<close>), \<open>Search\<close> the full text search (\<^verbatim>\<open>search.go\<close>), \<open>AdminTool\<close> the tool for
  the command line.  \<open>TimedCache\<close> states the contract of a cache whose entries end as a locale; the caches of
  sessions and of feeds interpret it.

  \<^bold>\<open>The bots.\<close>  \<open>Irc\<close>: one connection of a bot as a machine over the lines it reads, the lines it
  writes, and what may be posted; the locale \<open>poster\<close> is the interface its clients use.  \<open>SysWatch\<close>: reading of what
  the host says, thresholds, the verdict on a disk and the other checks (\<^verbatim>\<open>syswatch/main.go\<close>, \<^verbatim>\<open>diskwatch/main.go\<close>).  \<open>HostWatch\<close>: rounds
  of checks and their properties.  \<open>ChannelBots\<close>: the polls of dwdwarn, weatherman, xkcdbot, tagesschau and
  uptimebot, each from what it read and what it remembers to what it posts and writes.  \<open>BotNews\<close>: what
  follows for their announcements.

  \<^bold>\<open>The status board.\<close>  \<open>BoardMetrics\<close>: the texts of hosts, libvirt, ZFS and the storage box, taken apart.
  \<open>BoardRounds\<close>: samples, forecasts, backups and the sizes of repositories.  \<open>StatusBoard\<close>: what a round collects
  of each machine and of all, the cache that rounds fill and requests read, as the step relation \<open>board_step\<close>,
  and kernels.  \<open>Topology\<close>: the nodes and edges of its two graphs (\<^verbatim>\<open>forcegraph.go\<close>, \<^verbatim>\<open>natviz.go\<close>).

  \<^bold>\<open>The proxy and small programs.\<close>  \<open>Hitm\<close>: flows and how old ones leave, typed requests, files of keys and
  certificates, listeners, pages of results.  \<open>HitmIntercept\<close>: requests that wait for the user, the handlers
  that let them go or drop them, their mutex and channels, as the step relation \<open>intercept_step\<close>.  \<open>HostTools\<close>: the routes of
  sshrouter, the cleanup of backups and the subpath of the aggregator.

  \<^bold>\<open>What is proved.\<close>  For the news system: the store stays well formed and equal to the spool whatever the
  connections do; an accepted article survives a restart; what is typed into the client is what the
  server stores and what a client reads again; the thread list is complete and in order; the client's
  cursors stay in range.  For the aggregator: who may change which post, comment, account, tag, feed and
  collection (\<open>WebContent\<close>, \<open>AdminRights\<close>, where a request is shown to refine a relation of allowed changes);
  scores are the numbers of votes (\<open>Scores\<close>); comments are listed completely and in the order of the
  threads (\<open>CommentThreads\<close>); a login is no older than the cache allows, links, tokens and invitations work once
  (\<open>Accounts\<close>, \<open>WebAuth\<close>); items of feeds are imported once and polls catch up (\<open>FeedImport\<close>); pages of lists
  are complete (\<open>Listings\<close>), those of the search too, for any history of edits (\<open>Search\<close>); the limiter is the
  specification of a sliding window; what the interface of JSON, the pages of users and the tool may change
  (\<open>Api\<close>, \<open>Profiles\<close>, \<open>AdminTool\<close>); scaled pictures have proper colours (\<open>Avatars\<close>).  For the bots: every line is one
  line for the channel, alerts of a disk repeat only after it recovered, comics ascend.  For the status
  board: a page shows whole rounds, a good mark means a fresh backup, the forecast is exact on steady
  growth, no edge of its graphs is lost.  For the proxy: the newest flows are kept, an intercepted request goes
  on only as the user sent it, no key can be downloaded.  A cleanup leaves the newest backups.  Theorems of kind
  error show behaviour the code did not mean to have, as do the lemmas that findings of the manifest name.

  \<^bold>\<open>Bounds and fuel.\<close>  Loops of the programs that need not end have fuel and give None when it runs out: the
  tree of invitations, the deletion of a comment with its answers and the client's thread tree; that the
  size of the table or of the list is enough is part of the theorems on them.  The eviction of flows ends because its cursor
  goes up to the counter.  Fractions are rationals where the programs have floats, so neither rounding nor
  values that are not numbers occur; integers that may overflow are wrapped where they do.

  \<^bold>\<open>Parameters.\<close>  The clock, the random generator, the text of an error, the answers of a feed's server, the XML
  decoder and encoder, HTML entities, the date layouts of Go's \<^verbatim>\<open>time.Parse\<close>, JSON, the digest of a feed, the formats of
  pictures, the engine of the full text search (which queries it takes, what matches, the rank) and the
  programs and servers the bots and the board ask come in from outside.  Dates are UTC.  Where the order of a Go map
  matters it is the order of a list, which theorems leave open.

  \<^bold>\<open>Not modelled.\<close>  Requests of the aggregator are handled one after the other, as are polls; the races that Go's
  scheduler allows there are not modelled.  Connections of the news server, rounds of the board and intercepted requests do
  interleave.  Templates and their HTML, drawings, scripts for the browser, TLS and the making of certificates, mail
  transport, logging, compression, signals and the start of programs are input and output only.  The fuzzer, the spider, the
  map and the store of the proxy are not in the repository.  The calendars of weatherman and tagesschau are parameters.
  The bots other than syswatch each have a copy of its IRC connection, which is modelled once.  The statistics of the
  aggregator are one query that always fails.
\<close>

end
